(* ===== verification/Esif_Base.thy ===== *)
theory Esif_Base
  imports Main "HOL-Library.Word" "HOL-Library.Monad_Syntax"
begin

text \<open>
  Prelude of the development. It names the machine integers of the code base
  (\<^verbatim>\<open>u8\<close> to \<^verbatim>\<open>u64\<close>, \<^verbatim>\<open>size_t\<close> on the 64-bit Linux build), the return codes
  \<^verbatim>\<open>enum esif_rc\<close>, pointers and the allocator, and collects the generic facts on words,
  lists and the option monad that the component theories share.

  Conventions used by every component:
  \<^item> a pointer that may be \<^verbatim>\<open>NULL\<close> is an \<open>option\<close>, with \<open>None\<close> for \<^verbatim>\<open>NULL\<close>;
  \<^item> an operation that dereferences memory returns \<open>'a option\<close>, and \<open>None\<close> stands for
    undefined behaviour (a read through \<^verbatim>\<open>NULL\<close> or through freed memory) or for a loop
    that does not return. A theorem whose conclusion is \<open>op s = Some r\<close> therefore says
    that the operation is memory safe and terminates;
  \<^item> an allocation may fail. Whether the \<open>n\<close>-th request succeeds is decided by an arbitrary
    predicate of the allocator state, so every \<^verbatim>\<open>ESIF_E_NO_MEMORY\<close> branch is reachable;
  \<^item> locks are held by the caller of a model operation: one operation is one critical
    section of the code, and interleavings are sequences of operations.
\<close>

unbundle bit_operations_syntax

type_synonym u8 = "8 word"
type_synonym u16 = "16 word"
type_synonym u32 = "32 word"
type_synonym u64 = "64 word"
type_synonym size_t = "64 word"
type_synonym addr = nat
type_synonym esif_handle_t = "64 word"

section \<open>Reserved handles\<close>

abbreviation (input) ESIF_HANDLE_DEFAULT :: esif_handle_t where "ESIF_HANDLE_DEFAULT \<equiv> 0"
abbreviation (input) ESIF_HANDLE_PRIMARY_PARTICIPANT :: esif_handle_t where "ESIF_HANDLE_PRIMARY_PARTICIPANT \<equiv> 1"
abbreviation (input) ESIF_HANDLE_MATCH_ANY_EVENT :: esif_handle_t where "ESIF_HANDLE_MATCH_ANY_EVENT \<equiv> -2"
abbreviation (input) ESIF_INVALID_HANDLE :: esif_handle_t where "ESIF_INVALID_HANDLE \<equiv> -1"

section \<open>Return codes\<close>

text \<open>
  \<^verbatim>\<open>enum esif_rc\<close>: the codes that the modelled functions produce, by name. A code that
  only passes through (the result of a callback of the caller) is \<open>ESIF_RC\<close> with its number.
\<close>

datatype esif_rc =
    ESIF_OK
  | ESIF_E_NOT_SUPPORTED
  | ESIF_E_UNSPECIFIED
  | ESIF_E_INVALID_HANDLE
  | ESIF_E_ORDERED_INSERT
  | ESIF_E_MAXIMUM_CAPACITY_REACHED
  | ESIF_E_REQUEST_DATA_OUT_OF_BOUNDS
  | ESIF_E_NEED_LARGER_BUFFER
  | ESIF_E_CALLBACK_IS_NULL
  | ESIF_E_COMMAND_DATA_INVALID
  | ESIF_E_NO_MEMORY
  | ESIF_E_PARAMETER_IS_NULL
  | ESIF_E_PARAMETER_IS_OUT_OF_BOUNDS
  | ESIF_E_NEED_DSP
  | ESIF_E_UNSUPPORTED_REQUEST_TEMP_TYPE
  | ESIF_E_UNSUPPORTED_REQUEST_POWER_TYPE
  | ESIF_E_UNSUPPORTED_REQUEST_TIME_TYPE
  | ESIF_E_UNSUPPORTED_REQUEST_PERCENT_TYPE
  | ESIF_E_OVERFLOWED_RESULT_TYPE
  | ESIF_E_NEED_ALGORITHM
  | ESIF_E_UNSUPPORTED_ALGORITHM
  | ESIF_E_NOT_FOUND
  | ESIF_E_PRIMITIVE_NOT_FOUND_IN_DSP
  | ESIF_E_SESSION_REQUEST_FAILED
  | ESIF_E_ITERATION_DONE
  | ESIF_I_AGAIN
  | ESIF_I_NO_LEGACY_SUPPORT
  | ESIF_E_STOP_POLL
  | ESIF_E_NO_CREATE
  | ESIF_E_DSP_ALREADY_LOADED
  | ESIF_E_PARTICIPANT_NOT_FOUND
  | ESIF_RC u32

section \<open>The allocator\<close>

text \<open>
  \<^verbatim>\<open>esif_ccb_malloc\<close> returns \<^verbatim>\<open>NULL\<close> or a block that is not in use, filled with zeros.
  The state of the allocator is the next unused block address and the success of each
  request, numbered by that address. Blocks are never handed out twice, so an address also
  identifies an object over its whole life. Callers build the zero-filled contents.
\<close>

record allocator =
  next_addr :: addr
  alloc_ok :: "addr \<Rightarrow> bool"

definition esif_ccb_malloc ::
    "'a allocator_scheme \<Rightarrow> addr option \<times> 'a allocator_scheme" where
  "esif_ccb_malloc m =
     (if alloc_ok m (next_addr m) then Some (next_addr m) else None,
      m\<lparr>next_addr := Suc (next_addr m)\<rparr>)"

lemma esif_ccb_malloc_cases:
  obtains (fail) "\<not> alloc_ok m (next_addr m)"
      "esif_ccb_malloc m = (None, m\<lparr>next_addr := Suc (next_addr m)\<rparr>)"
    | (ok) "alloc_ok m (next_addr m)"
      "esif_ccb_malloc m = (Some (next_addr m), m\<lparr>next_addr := Suc (next_addr m)\<rparr>)"
  by (cases "alloc_ok m (next_addr m)") (auto simp: esif_ccb_malloc_def)

text \<open>An allocator that never fails, for concrete runs.\<close>

definition roomy :: allocator where
  "roomy = \<lparr>next_addr = 1, alloc_ok = (\<lambda>_. True)\<rparr>"

section \<open>Buffers\<close>

text \<open>\<^verbatim>\<open>memcpy\<close> of \<open>bytes\<close> to an offset of a buffer; outside of it is undefined.\<close>

definition mem_put :: "u8 list \<Rightarrow> nat \<Rightarrow> u8 list \<Rightarrow> u8 list option" where
  "mem_put buf off bytes =
     (if off + length bytes \<le> length buf
      then Some (take off buf @ bytes @ drop (off + length bytes) buf) else None)"

lemma mem_put_append:
  "length ys = length bytes \<Longrightarrow> length xs = off \<Longrightarrow> mem_put (xs @ ys @ zs) off bytes = Some (xs @ bytes @ zs)"
  by (simp add: mem_put_def)

section \<open>Shared facts\<close>

lemma bind_eq_SomeE:
  assumes "Option.bind m f = Some y"
  obtains x where "m = Some x" "f x = Some y"
  using assms by (cases m) auto

lemma unat_of_nat_eq_len:
  "n < 2 ^ LENGTH('a) \<Longrightarrow> unat (of_nat n :: 'a::len word) = n"
  by (simp add: unat_of_nat take_bit_nat_eq_self)

lemma unat_less_2p: "unat (w :: 'a::len word) < 2 ^ LENGTH('a)"
  by (rule unsigned_less)

lemma unat_plus_1:
  "Suc (unat w) < 2 ^ LENGTH('a) \<Longrightarrow> unat (w + 1 :: 'a::len word) = Suc (unat w)"
  by (metis Suc_eq_plus1 add.commute of_nat_Suc of_nat_unat ucast_id unat_of_nat_eq_len)

lemma unat_minus_1:
  "w \<noteq> 0 \<Longrightarrow> unat (w - 1 :: 'a::len word) = unat w - 1"
  by (rule unat_minus_one)

lemma map_fst_update_distinct:
  "distinct (map fst (xs @ [x])) \<longleftrightarrow> distinct (map fst xs) \<and> fst x \<notin> set (map fst xs)"
  by auto

lemma list_all2_in: "list_all2 P xs ys \<Longrightarrow> x \<in> set xs \<Longrightarrow> \<exists>y\<in>set ys. P x y"
  by (induction rule: list_all2_induct) auto

text \<open>The two names of the participant that stands for the platform (\<^verbatim>\<open>esif_pm.h\<close>).\<close>

definition EsifUpPm_IsPrimaryParticipantId :: "esif_handle_t \<Rightarrow> bool" where
  "EsifUpPm_IsPrimaryParticipantId participantId \<longleftrightarrow>
     participantId = ESIF_HANDLE_DEFAULT \<or> participantId = ESIF_HANDLE_PRIMARY_PARTICIPANT"

text \<open>The index at which a search loop over an array stops.\<close>

fun first_index :: "('x \<Rightarrow> bool) \<Rightarrow> 'x list \<Rightarrow> nat option" where
  "first_index P [] = None"
| "first_index P (x # xs) = (if P x then Some 0 else map_option Suc (first_index P xs))"

lemma first_index_spec:
  "case first_index P xs of None \<Rightarrow> \<forall>x\<in>set xs. \<not> P x
   | Some j \<Rightarrow> j < length xs \<and> P (xs ! j) \<and> (\<forall>i<j. \<not> P (xs ! i))"
  by (induction xs) (auto split: option.splits simp: less_Suc_eq_0_disj nth_Cons')

end
