(* ===== verification/Link_List.thy ===== *)
theory Link_List
  imports Esif_Base
begin

text \<open>
  The doubly linked list of \<^verbatim>\<open>src/Common/esif_link_list.c\<close>, on an explicit store.

  \<open>esif_link_list_node\<close> and \<open>esif_link_list\<close> are the two structs; nodes live in the
  \<open>node_mem\<close> of a heap that extends the allocator, and every pointer of the C code is an
  address in it. One definition per function of the file follows, with its \<^verbatim>\<open>NULL\<close> checks,
  its loops (as partial functions: a cyclic list would not return) and the pointer updates
  in the order of the code. \<open>ll_rep\<close> is the representation invariant that relates a list
  header and the heap to the sequence of its nodes; the refinement lemmas show what each
  operation does to that sequence, that it never touches memory it should not, and that
  nodes of other lists are left alone.
\<close>

section \<open>State\<close>

record 'd esif_link_list_node =
  data_ptr :: "'d option"
  next_ptr :: "addr option"
  prev_ptr :: "addr option"

record esif_link_list =
  head_ptr :: "addr option"
  tail_ptr :: "addr option"
  nodes :: u32

record 'd ll_heap = allocator +
  node_mem :: "addr \<Rightarrow> 'd esif_link_list_node option"

text \<open>Reading and writing through a node pointer: \<open>None\<close> is an invalid access.\<close>

definition deref :: "('d, 'z) ll_heap_scheme \<Rightarrow> addr option \<Rightarrow> 'd esif_link_list_node option" where
  "deref h p = (case p of None \<Rightarrow> None | Some a \<Rightarrow> node_mem h a)"

definition node_write ::
    "('d, 'z) ll_heap_scheme \<Rightarrow> addr option \<Rightarrow> ('d esif_link_list_node \<Rightarrow> 'd esif_link_list_node)
     \<Rightarrow> ('d, 'z) ll_heap_scheme option" where
  "node_write h p f =
     (case p of None \<Rightarrow> None
      | Some a \<Rightarrow> (case node_mem h a of None \<Rightarrow> None
                  | Some n \<Rightarrow> Some (h\<lparr>node_mem := (node_mem h)(a \<mapsto> f n)\<rparr>)))"

section \<open>Operations\<close>

definition esif_link_list_init :: esif_rc where
  "esif_link_list_init = ESIF_OK"

definition esif_link_list_create ::
    "('d, 'z) ll_heap_scheme \<Rightarrow> esif_link_list option \<times> ('d, 'z) ll_heap_scheme" where
  "esif_link_list_create h =
     (case esif_ccb_malloc h of
        (None, h') \<Rightarrow> (None, h')
      | (Some _, h') \<Rightarrow> (Some \<lparr>head_ptr = None, tail_ptr = None, nodes = 0\<rparr>, h'))"

definition esif_link_list_create_node ::
    "'d option \<Rightarrow> ('d, 'z) ll_heap_scheme \<Rightarrow> addr option \<times> ('d, 'z) ll_heap_scheme" where
  "esif_link_list_create_node d h =
     (case esif_ccb_malloc h of
        (None, h') \<Rightarrow> (None, h')
      | (Some a, h') \<Rightarrow>
          (Some a, h'\<lparr>node_mem := (node_mem h')
             (a \<mapsto> \<lparr>data_ptr = d, next_ptr = None, prev_ptr = None\<rparr>)\<rparr>))"

text \<open>Freeing \<^verbatim>\<open>NULL\<close> does nothing; freeing a block that is not allocated is undefined.\<close>

definition esif_link_list_destroy_node ::
    "addr option \<Rightarrow> ('d, 'z) ll_heap_scheme \<Rightarrow> ('d, 'z) ll_heap_scheme option" where
  "esif_link_list_destroy_node p h =
     (case p of None \<Rightarrow> Some h
      | Some a \<Rightarrow> if node_mem h a = None then None
                  else Some (h\<lparr>node_mem := (node_mem h)(a := None)\<rparr>))"

definition esif_link_list_add_node_at_front ::
    "esif_link_list option \<Rightarrow> addr option \<Rightarrow> ('d, 'z) ll_heap_scheme
     \<Rightarrow> (esif_link_list option \<times> ('d, 'z) ll_heap_scheme) option" where
  "esif_link_list_add_node_at_front self new_node h =
     (case (self, new_node) of
        (Some l, Some a) \<Rightarrow>
          if head_ptr l = None then do {
            h1 \<leftarrow> node_write h new_node (\<lambda>n. n\<lparr>prev_ptr := None, next_ptr := None\<rparr>);
            Some (Some (l\<lparr>head_ptr := new_node, tail_ptr := new_node, nodes := nodes l + 1\<rparr>), h1)
          } else do {
            h1 \<leftarrow> node_write h new_node (\<lambda>n. n\<lparr>prev_ptr := None, next_ptr := head_ptr l\<rparr>);
            h2 \<leftarrow> node_write h1 (head_ptr l) (\<lambda>n. n\<lparr>prev_ptr := new_node\<rparr>);
            Some (Some (l\<lparr>head_ptr := new_node, nodes := nodes l + 1\<rparr>), h2)
          }
      | _ \<Rightarrow> Some (self, h))"

definition esif_link_list_add_at_front ::
    "esif_link_list option \<Rightarrow> 'd option \<Rightarrow> ('d, 'z) ll_heap_scheme
     \<Rightarrow> (esif_rc \<times> esif_link_list option \<times> ('d, 'z) ll_heap_scheme) option" where
  "esif_link_list_add_at_front self d h =
     (case self of
        None \<Rightarrow> Some (ESIF_E_PARAMETER_IS_NULL, self, h)
      | Some _ \<Rightarrow>
          (case esif_link_list_create_node d h of
             (None, h1) \<Rightarrow> Some (ESIF_E_NO_MEMORY, self, h1)
           | (Some a, h1) \<Rightarrow> do {
               (self', h2) \<leftarrow> esif_link_list_add_node_at_front self (Some a) h1;
               Some (ESIF_OK, self', h2) }))"

definition esif_link_list_get_node_count :: "esif_link_list option \<Rightarrow> u32" where
  "esif_link_list_get_node_count self = (case self of None \<Rightarrow> 0 | Some l \<Rightarrow> nodes l)"

definition esif_link_list_add_node_at_back ::
    "esif_link_list option \<Rightarrow> addr option \<Rightarrow> ('d, 'z) ll_heap_scheme
     \<Rightarrow> (esif_link_list option \<times> ('d, 'z) ll_heap_scheme) option" where
  "esif_link_list_add_node_at_back self new_node h =
     (case (self, new_node) of
        (Some l, Some a) \<Rightarrow>
          if head_ptr l = None then esif_link_list_add_node_at_front self new_node h
          else do {
            h1 \<leftarrow> node_write h new_node (\<lambda>n. n\<lparr>prev_ptr := tail_ptr l, next_ptr := None\<rparr>);
            h2 \<leftarrow> node_write h1 (tail_ptr l) (\<lambda>n. n\<lparr>next_ptr := new_node\<rparr>);
            Some (Some (l\<lparr>tail_ptr := new_node, nodes := nodes l + 1\<rparr>), h2)
          }
      | _ \<Rightarrow> Some (self, h))"

definition esif_link_list_add_at_back ::
    "esif_link_list option \<Rightarrow> 'd option \<Rightarrow> ('d, 'z) ll_heap_scheme
     \<Rightarrow> (esif_rc \<times> esif_link_list option \<times> ('d, 'z) ll_heap_scheme) option" where
  "esif_link_list_add_at_back self d h =
     (case self of
        None \<Rightarrow> Some (ESIF_E_PARAMETER_IS_NULL, self, h)
      | Some _ \<Rightarrow>
          (case esif_link_list_create_node d h of
             (None, h1) \<Rightarrow> Some (ESIF_E_NO_MEMORY, self, h1)
           | (Some a, h1) \<Rightarrow> do {
               (self', h2) \<leftarrow> esif_link_list_add_node_at_back self (Some a) h1;
               Some (ESIF_OK, self', h2) }))"

definition esif_link_list_add_after ::
    "esif_link_list option \<Rightarrow> addr option \<Rightarrow> 'd option \<Rightarrow> ('d, 'z) ll_heap_scheme
     \<Rightarrow> (esif_rc \<times> esif_link_list option \<times> ('d, 'z) ll_heap_scheme) option" where
  "esif_link_list_add_after self node d h =
     (case self of
        None \<Rightarrow> Some (ESIF_E_PARAMETER_IS_NULL, self, h)
      | Some l \<Rightarrow>
          (case node of
             None \<Rightarrow> esif_link_list_add_at_front self d h
           | Some _ \<Rightarrow>
               (case esif_link_list_create_node d h of
                  (None, h1) \<Rightarrow> Some (ESIF_E_NO_MEMORY, self, h1)
                | (Some a, h1) \<Rightarrow> do {
                    n \<leftarrow> deref h1 node;
                    h2 \<leftarrow> node_write h1 (Some a) (\<lambda>m. m\<lparr>next_ptr := next_ptr n\<rparr>);
                    h3 \<leftarrow> node_write h2 node (\<lambda>m. m\<lparr>next_ptr := Some a\<rparr>);
                    h4 \<leftarrow> node_write h3 (Some a) (\<lambda>m. m\<lparr>prev_ptr := node\<rparr>);
                    new \<leftarrow> deref h4 (Some a);
                    (case next_ptr new of
                       Some _ \<Rightarrow> do {
                         h5 \<leftarrow> node_write h4 (next_ptr new) (\<lambda>m. m\<lparr>prev_ptr := Some a\<rparr>);
                         Some (ESIF_OK, Some (l\<lparr>nodes := nodes l + 1\<rparr>), h5) }
                     | None \<Rightarrow>
                         Some (ESIF_OK, Some (l\<lparr>tail_ptr := Some a, nodes := nodes l + 1\<rparr>), h4))
                  })))"

text \<open>
  The ordering callback sees the data before and after the gap and the new data (\<open>None\<close> for
  \<^verbatim>\<open>NULL\<close>) and returns a status and a sort value, non-zero to insert here.
\<close>

type_synonym 'd esif_link_list_sort_cb =
  "'d option \<Rightarrow> 'd option \<Rightarrow> 'd option \<Rightarrow> esif_rc \<times> int"

definition node_data :: "('d, 'z) ll_heap_scheme \<Rightarrow> addr option \<Rightarrow> 'd option option" where
  "node_data h p = (case p of None \<Rightarrow> Some None | Some _ \<Rightarrow> map_option data_ptr (deref h p))"

partial_function (option) insert_ordered_loop ::
    "esif_link_list \<Rightarrow> 'd esif_link_list_sort_cb \<Rightarrow> 'd option \<Rightarrow> addr option \<Rightarrow> addr option
     \<Rightarrow> ('d, 'z) ll_heap_scheme
     \<Rightarrow> (esif_rc \<times> esif_link_list option \<times> ('d, 'z) ll_heap_scheme) option" where
  "insert_ordered_loop l cb d prev nxt h = do {
     prev_data \<leftarrow> node_data h prev;
     next_data \<leftarrow> node_data h nxt;
     (case cb prev_data next_data d of (rc, sort_value) \<Rightarrow>
        if rc \<noteq> ESIF_OK then Some (rc, Some l, h)
        else if sort_value \<noteq> 0 then esif_link_list_add_after (Some l) prev d h
        else do {
          prev' \<leftarrow> (case prev of Some _ \<Rightarrow> map_option next_ptr (deref h prev)
                   | None \<Rightarrow> Some (head_ptr l));
          nxt' \<leftarrow> (case nxt of Some _ \<Rightarrow> map_option next_ptr (deref h nxt) | None \<Rightarrow> Some None);
          if prev' \<noteq> None \<or> nxt' \<noteq> None then insert_ordered_loop l cb d prev' nxt' h
          else Some (ESIF_E_ORDERED_INSERT, Some l, h)
        })
   }"

definition esif_link_list_insert_ordered ::
    "esif_link_list option \<Rightarrow> 'd option \<Rightarrow> 'd esif_link_list_sort_cb option
     \<Rightarrow> ('d, 'z) ll_heap_scheme
     \<Rightarrow> (esif_rc \<times> esif_link_list option \<times> ('d, 'z) ll_heap_scheme) option" where
  "esif_link_list_insert_ordered self d callback h =
     (case self of
        None \<Rightarrow> Some (ESIF_E_PARAMETER_IS_NULL, self, h)
      | Some l \<Rightarrow>
          (case callback of
             None \<Rightarrow> Some (ESIF_E_CALLBACK_IS_NULL, self, h)
           | Some cb \<Rightarrow> insert_ordered_loop l cb d None (head_ptr l) h))"

text \<open>
  The body of the removal loop once the node is found: bypass it from its predecessor (or
  from the head), bypass it from its successor (or from the tail), free it.
\<close>

definition node_unlink ::
    "esif_link_list \<Rightarrow> addr \<Rightarrow> ('d, 'z) ll_heap_scheme
     \<Rightarrow> (esif_link_list \<times> ('d, 'z) ll_heap_scheme) option" where
  "node_unlink l c h = do {
     n \<leftarrow> deref h (Some c);
     (l1, h1) \<leftarrow>
       (case prev_ptr n of
          None \<Rightarrow> Some (l\<lparr>head_ptr := next_ptr n\<rparr>, h)
        | Some _ \<Rightarrow> do {
            h' \<leftarrow> node_write h (prev_ptr n) (\<lambda>m. m\<lparr>next_ptr := next_ptr n\<rparr>);
            Some (l, h') });
     n1 \<leftarrow> deref h1 (Some c);
     (l2, h2) \<leftarrow>
       (case next_ptr n1 of
          None \<Rightarrow> Some (l1\<lparr>tail_ptr := prev_ptr n1\<rparr>, h1)
        | Some _ \<Rightarrow> do {
            h' \<leftarrow> node_write h1 (next_ptr n1) (\<lambda>m. m\<lparr>prev_ptr := prev_ptr n1\<rparr>);
            Some (l1, h') });
     h3 \<leftarrow> esif_link_list_destroy_node (Some c) h2;
     Some (l2\<lparr>nodes := nodes l2 - 1\<rparr>, h3)
   }"

partial_function (option) node_remove_loop ::
    "esif_link_list \<Rightarrow> addr \<Rightarrow> addr option \<Rightarrow> ('d, 'z) ll_heap_scheme
     \<Rightarrow> (esif_link_list \<times> ('d, 'z) ll_heap_scheme) option" where
  "node_remove_loop l node cur h =
     (case cur of
        None \<Rightarrow> Some (l, h)
      | Some c \<Rightarrow>
          if c = node then node_unlink l c h
          else do {
            n \<leftarrow> deref h cur;
            node_remove_loop l node (next_ptr n) h
          })"

definition esif_link_list_node_remove ::
    "esif_link_list option \<Rightarrow> addr option \<Rightarrow> ('d, 'z) ll_heap_scheme
     \<Rightarrow> (esif_link_list option \<times> ('d, 'z) ll_heap_scheme) option" where
  "esif_link_list_node_remove self node h =
     (case (self, node) of
        (Some l, Some a) \<Rightarrow>
          map_option (\<lambda>(l', h'). (Some l', h')) (node_remove_loop l a (head_ptr l) h)
      | _ \<Rightarrow> Some (self, h))"

text \<open>
  Destruction. What happens to the data of each node is recorded: \<open>Destroyed d\<close> when the
  callback was called on it, \<open>Freed d\<close> when \<^verbatim>\<open>esif_ccb_free\<close> was.
\<close>

datatype 'd release = Destroyed "'d option" | Freed "'d option"

definition release_data :: "bool \<Rightarrow> 'd option \<Rightarrow> 'd release" where
  "release_data has_destroy_func d = (if has_destroy_func then Destroyed d else Freed d)"

partial_function (option) free_data_loop ::
    "bool \<Rightarrow> esif_link_list \<Rightarrow> ('d, 'z) ll_heap_scheme \<Rightarrow> 'd release list
     \<Rightarrow> (esif_link_list \<times> ('d, 'z) ll_heap_scheme \<times> 'd release list) option" where
  "free_data_loop has_destroy_func l h done_list =
     (case head_ptr l of
        None \<Rightarrow> Some (l, h, done_list)
      | Some a \<Rightarrow> do {
          n \<leftarrow> deref h (Some a);
          h1 \<leftarrow> node_write h (Some a) (\<lambda>m. m\<lparr>data_ptr := None\<rparr>);
          (l', h2) \<leftarrow> node_remove_loop l a (head_ptr l) h1;
          free_data_loop has_destroy_func l' h2
            (done_list @ [release_data has_destroy_func (data_ptr n)])
        })"

definition esif_link_list_free_data ::
    "esif_link_list option \<Rightarrow> bool \<Rightarrow> ('d, 'z) ll_heap_scheme
     \<Rightarrow> (esif_link_list option \<times> ('d, 'z) ll_heap_scheme \<times> 'd release list) option" where
  "esif_link_list_free_data self has_destroy_func h =
     (case self of
        None \<Rightarrow> Some (None, h, [])
      | Some l \<Rightarrow> map_option (\<lambda>(l', h', r). (Some l', h', r)) (free_data_loop has_destroy_func l h []))"

text \<open>After destruction the header itself is freed: only the heap and the releases remain.\<close>

definition esif_link_list_free_data_and_destroy ::
    "esif_link_list option \<Rightarrow> bool \<Rightarrow> ('d, 'z) ll_heap_scheme
     \<Rightarrow> (('d, 'z) ll_heap_scheme \<times> 'd release list) option" where
  "esif_link_list_free_data_and_destroy self has_destroy_func h =
     (case self of
        None \<Rightarrow> Some (h, [])
      | Some _ \<Rightarrow> do {
          (_, h', r) \<leftarrow> esif_link_list_free_data self has_destroy_func h;
          Some (h', r) })"

partial_function (option) destroy_loop ::
    "esif_link_list \<Rightarrow> ('d, 'z) ll_heap_scheme \<Rightarrow> ('d, 'z) ll_heap_scheme option" where
  "destroy_loop l h =
     (case head_ptr l of
        None \<Rightarrow> Some h
      | Some a \<Rightarrow> do {
          (l', h') \<leftarrow> node_remove_loop l a (head_ptr l) h;
          destroy_loop l' h'
        })"

definition esif_link_list_destroy ::
    "esif_link_list option \<Rightarrow> ('d, 'z) ll_heap_scheme \<Rightarrow> ('d, 'z) ll_heap_scheme option" where
  "esif_link_list_destroy self h =
     (case self of None \<Rightarrow> Some h | Some l \<Rightarrow> destroy_loop l h)"

section \<open>Representation invariant\<close>

fun ll_seg ::
    "(addr \<Rightarrow> 'd esif_link_list_node option) \<Rightarrow> addr option \<Rightarrow> addr option
     \<Rightarrow> (addr \<times> 'd option) list \<Rightarrow> addr option \<Rightarrow> addr option \<Rightarrow> bool" where
  "ll_seg m pv p [] lst q \<longleftrightarrow> p = q \<and> lst = pv"
| "ll_seg m pv p ((a, d) # xs) lst q \<longleftrightarrow>
     p = Some a \<and> (\<exists>n. m a = Some n \<and> data_ptr n = d \<and> prev_ptr n = pv
                      \<and> ll_seg m (Some a) (next_ptr n) xs lst q)"

definition ll_rep :: "('d, 'z) ll_heap_scheme \<Rightarrow> esif_link_list \<Rightarrow> (addr \<times> 'd option) list \<Rightarrow> bool" where
  "ll_rep h l xs \<longleftrightarrow>
     ll_seg (node_mem h) None (head_ptr l) xs (tail_ptr l) None
     \<and> distinct (map fst xs) \<and> nodes l = of_nat (length xs)"

definition heap_ok :: "('d, 'z) ll_heap_scheme \<Rightarrow> bool" where
  "heap_ok h \<longleftrightarrow> (\<forall>a. node_mem h a \<noteq> None \<longrightarrow> a < next_addr h)"

text \<open>Nothing outside the given addresses has changed.\<close>

definition same_except :: "addr set \<Rightarrow> ('d, 'z) ll_heap_scheme \<Rightarrow> ('d, 'z) ll_heap_scheme \<Rightarrow> bool" where
  "same_except A h h' \<longleftrightarrow> (\<forall>b. b \<notin> A \<longrightarrow> node_mem h' b = node_mem h b)"

lemma ll_seg_append:
  "ll_seg m pv p (xs @ ys) lst q \<longleftrightarrow> (\<exists>lm pm. ll_seg m pv p xs lm pm \<and> ll_seg m lm pm ys lst q)"
proof (induction xs arbitrary: pv p)
  case (Cons x xs)
  then show ?case by (cases x) (simp, blast)
qed simp

lemma ll_seg_cong:
  "(\<And>a. a \<in> fst ` set xs \<Longrightarrow> m' a = m a) \<Longrightarrow> ll_seg m' pv p xs lst q = ll_seg m pv p xs lst q"
proof (induction xs arbitrary: pv p)
  case (Cons x xs)
  then show ?case by (cases x) auto
qed simp

lemma ll_seg_upd [simp]:
  "a \<notin> fst ` set xs \<Longrightarrow> ll_seg (m(a := v)) pv p xs lst q = ll_seg m pv p xs lst q"
  by (rule ll_seg_cong) auto

lemma ll_seg_mem:
  "ll_seg m pv p xs lst q \<Longrightarrow> (a, d) \<in> set xs \<Longrightarrow> \<exists>n. m a = Some n \<and> data_ptr n = d"
  by (induction xs arbitrary: pv p) auto

lemma ll_seg_unique:
  "ll_seg m pv p xs lst None \<Longrightarrow> ll_seg m pv' p ys lst' None \<Longrightarrow> xs = ys"
proof (induction xs arbitrary: pv pv' p ys)
  case Nil
  then show ?case by (cases ys) auto
next
  case (Cons x xs)
  then show ?case by (cases x; cases ys) auto
qed

lemma ll_rep_unique: "ll_rep h l xs \<Longrightarrow> ll_rep h l ys \<Longrightarrow> xs = ys"
  by (auto simp: ll_rep_def dest: ll_seg_unique)

lemma ll_rep_frame:
  assumes "ll_rep h l xs" "same_except A h h'" "A \<inter> fst ` set xs = {}"
  shows "ll_rep h' l xs"
proof -
  have "ll_seg (node_mem h') None (head_ptr l) xs (tail_ptr l) None
      = ll_seg (node_mem h) None (head_ptr l) xs (tail_ptr l) None"
    using assms(2,3) by (intro ll_seg_cong) (auto simp: same_except_def)
  with assms(1) show ?thesis by (simp add: ll_rep_def)
qed

lemma ll_rep_mem:
  "ll_rep h l xs \<Longrightarrow> (a, d) \<in> set xs \<Longrightarrow> \<exists>n. node_mem h a = Some n \<and> data_ptr n = d"
  by (auto simp: ll_rep_def dest: ll_seg_mem)

lemma ll_rep_fresh:
  assumes "ll_rep h l xs" "heap_ok h"
  shows "next_addr h \<notin> fst ` set xs"
  using assms ll_rep_mem by (fastforce simp: heap_ok_def)

lemma ll_rep_head_None: "ll_rep h l xs \<Longrightarrow> head_ptr l = None \<longleftrightarrow> xs = []"
  by (cases xs) (auto simp: ll_rep_def)

lemma ll_rep_Cons:
  "ll_rep h l ((a, d) # xs) \<Longrightarrow> head_ptr l = Some a \<and> (\<exists>n. node_mem h a = Some n \<and> data_ptr n = d)"
  by (auto simp: ll_rep_def)

section \<open>Refinement\<close>

lemma create_node_spec:
  assumes "heap_ok h"
  shows "(\<not> alloc_ok h (next_addr h) \<and>
          esif_link_list_create_node d h = (None, h\<lparr>next_addr := Suc (next_addr h)\<rparr>))
       \<or> (alloc_ok h (next_addr h) \<and>
          esif_link_list_create_node d h =
            (Some (next_addr h), h\<lparr>next_addr := Suc (next_addr h),
               node_mem := (node_mem h)(next_addr h \<mapsto> \<lparr>data_ptr = d, next_ptr = None, prev_ptr = None\<rparr>)\<rparr>))"
  by (simp add: esif_link_list_create_node_def esif_ccb_malloc_def)

text \<open>A heap access at a known address.\<close>

lemma node_write_Some [simp]:
  "node_mem h a = Some n \<Longrightarrow> node_write h (Some a) f = Some (h\<lparr>node_mem := (node_mem h)(a \<mapsto> f n)\<rparr>)"
  by (simp add: node_write_def)

lemma deref_Some [simp]: "deref h (Some a) = node_mem h a"
  by (simp add: deref_def)

lemma ll_rep_snoc:
  assumes "ll_rep h l (xs @ [(b, e)])"
  obtains n where "tail_ptr l = Some b" "node_mem h b = Some n" "data_ptr n = e" "next_ptr n = None"
    "ll_seg (node_mem h) None (head_ptr l) xs (prev_ptr n) (Some b)" "b \<notin> fst ` set xs"
  using assms by (force simp: ll_rep_def ll_seg_append)

lemma add_node_at_front_rep:
  assumes "ll_rep h l xs" "node_mem h a = Some n" "data_ptr n = d" "a \<notin> fst ` set xs"
  shows "\<exists>l' h'. esif_link_list_add_node_at_front (Some l) (Some a) h = Some (Some l', h')
    \<and> ll_rep h' l' ((a, d) # xs) \<and> same_except (insert a (fst ` set xs)) h h'
    \<and> next_addr h' = next_addr h \<and> alloc_ok h' = alloc_ok h \<and> dom (node_mem h') = dom (node_mem h)"
proof (cases xs)
  case Nil
  with assms show ?thesis
    by (auto simp: esif_link_list_add_node_at_front_def ll_rep_def same_except_def)
next
  case (Cons x ys)
  obtain b e where x: "x = (b, e)" by (cases x)
  from assms(1) Cons x obtain nb where hb: "head_ptr l = Some b" "node_mem h b = Some nb"
    "data_ptr nb = e" "prev_ptr nb = None"
    "ll_seg (node_mem h) (Some b) (next_ptr nb) ys (tail_ptr l) None"
    by (auto simp: ll_rep_def)
  from assms Cons x have ab: "a \<noteq> b" "b \<notin> fst ` set ys" "a \<notin> fst ` set ys" by (auto simp: ll_rep_def)
  show ?thesis
    using assms(1-3) Cons x hb ab
    by (auto simp: esif_link_list_add_node_at_front_def ll_rep_def same_except_def image_iff)
qed

lemma add_node_at_back_rep:
  assumes "ll_rep h l xs" "node_mem h a = Some n" "data_ptr n = d" "a \<notin> fst ` set xs"
  shows "\<exists>l' h'. esif_link_list_add_node_at_back (Some l) (Some a) h = Some (Some l', h')
    \<and> ll_rep h' l' (xs @ [(a, d)]) \<and> same_except (insert a (fst ` set xs)) h h'
    \<and> next_addr h' = next_addr h \<and> alloc_ok h' = alloc_ok h \<and> dom (node_mem h') = dom (node_mem h)"
proof (cases xs rule: rev_cases)
  case Nil
  with assms(1) have "head_ptr l = None" by (simp add: ll_rep_head_None)
  with add_node_at_front_rep [OF assms] Nil show ?thesis
    by (simp add: esif_link_list_add_node_at_back_def)
next
  case (snoc ys x)
  obtain b e where x: "x = (b, e)" by (cases x)
  from assms(1) snoc x obtain nb where hb: "tail_ptr l = Some b" "node_mem h b = Some nb"
    "data_ptr nb = e" "next_ptr nb = None"
    "ll_seg (node_mem h) None (head_ptr l) ys (prev_ptr nb) (Some b)" "b \<notin> fst ` set ys"
    by (auto elim!: ll_rep_snoc)
  from assms(4) snoc x have ab: "a \<noteq> b" "a \<notin> fst ` set ys" by auto
  have hd: "head_ptr l \<noteq> None" using assms(1) snoc by (simp add: ll_rep_head_None)
  show ?thesis
    using assms(1-3) snoc x hb ab hd
    by (auto simp: esif_link_list_add_node_at_back_def ll_rep_def ll_seg_append same_except_def image_iff)
qed

lemma heap_ok_dom: "heap_ok h \<longleftrightarrow> dom (node_mem h) \<subseteq> {..<next_addr h}"
  by (auto simp: heap_ok_def)

text \<open>The heap after a successful node allocation.\<close>

abbreviation with_new_node :: "('d, 'z) ll_heap_scheme \<Rightarrow> 'd option \<Rightarrow> ('d, 'z) ll_heap_scheme" where
  "with_new_node h d \<equiv> h\<lparr>next_addr := Suc (next_addr h), node_mem := (node_mem h)
     (next_addr h \<mapsto> \<lparr>data_ptr = d, next_ptr = None, prev_ptr = None\<rparr>)\<rparr>"

lemma with_new_node_rep:
  assumes "ll_rep h l xs" "heap_ok h"
  shows "ll_rep (with_new_node h d) l xs" "next_addr h \<notin> fst ` set xs"
proof -
  show fresh: "next_addr h \<notin> fst ` set xs" by (rule ll_rep_fresh [OF assms])
  show "ll_rep (with_new_node h d) l xs"
    by (rule ll_rep_frame [OF assms(1), of "{next_addr h}"]) (use fresh in \<open>auto simp: same_except_def\<close>)
qed

lemma heap_ok_after_new_node:
  assumes "heap_ok h" "dom (node_mem h') = dom (node_mem (with_new_node h d))"
    "next_addr h' = Suc (next_addr h)"
  shows "heap_ok h'"
  using assms by (auto simp: heap_ok_dom less_Suc_eq)

lemma add_at_back_rep:
  assumes "ll_rep h l xs" "heap_ok h"
  shows "\<exists>rc l' h'. esif_link_list_add_at_back (Some l) d h = Some (rc, Some l', h')
    \<and> next_addr h' = Suc (next_addr h) \<and> alloc_ok h' = alloc_ok h \<and> heap_ok h'
    \<and> same_except (insert (next_addr h) (fst ` set xs)) h h'
    \<and> (if alloc_ok h (next_addr h) then rc = ESIF_OK \<and> ll_rep h' l' (xs @ [(next_addr h, d)])
       else rc = ESIF_E_NO_MEMORY \<and> l' = l \<and> ll_rep h' l xs \<and> node_mem h' = node_mem h)"
proof (cases "alloc_ok h (next_addr h)")
  case False
  with assms show ?thesis
    by (auto simp: esif_link_list_add_at_back_def esif_link_list_create_node_def esif_ccb_malloc_def
        same_except_def heap_ok_def ll_rep_def less_Suc_eq)
next
  case True
  let ?a = "next_addr h"
  let ?h1 = "with_new_node h d"
  note rep1 = with_new_node_rep(1) [OF assms, where d = d] with_new_node_rep(2) [OF assms]
  obtain l' h' where a: "esif_link_list_add_node_at_back (Some l) (Some ?a) ?h1 = Some (Some l', h')"
    "ll_rep h' l' (xs @ [(?a, d)])" "same_except (insert ?a (fst ` set xs)) ?h1 h'"
    "next_addr h' = Suc ?a" "alloc_ok h' = alloc_ok h"
    "dom (node_mem h') = dom (node_mem ?h1)"
    using add_node_at_back_rep [OF rep1(1), of ?a _ d] rep1(2) by auto
  have "heap_ok h'" by (rule heap_ok_after_new_node [OF assms(2) a(6,4)])
  moreover have "same_except (insert ?a (fst ` set xs)) h h'"
    using a(3) by (auto simp: same_except_def)
  ultimately show ?thesis using a True
    by (simp add: esif_link_list_add_at_back_def esif_link_list_create_node_def esif_ccb_malloc_def)
qed

lemma add_at_front_rep:
  assumes "ll_rep h l xs" "heap_ok h"
  shows "\<exists>rc l' h'. esif_link_list_add_at_front (Some l) d h = Some (rc, Some l', h')
    \<and> next_addr h' = Suc (next_addr h) \<and> alloc_ok h' = alloc_ok h \<and> heap_ok h'
    \<and> same_except (insert (next_addr h) (fst ` set xs)) h h'
    \<and> (if alloc_ok h (next_addr h) then rc = ESIF_OK \<and> ll_rep h' l' ((next_addr h, d) # xs)
       else rc = ESIF_E_NO_MEMORY \<and> l' = l \<and> ll_rep h' l xs \<and> node_mem h' = node_mem h)"
proof (cases "alloc_ok h (next_addr h)")
  case False
  with assms show ?thesis
    by (auto simp: esif_link_list_add_at_front_def esif_link_list_create_node_def esif_ccb_malloc_def
        same_except_def heap_ok_def ll_rep_def less_Suc_eq)
next
  case True
  let ?a = "next_addr h"
  let ?h1 = "with_new_node h d"
  note rep1 = with_new_node_rep(1) [OF assms, where d = d] with_new_node_rep(2) [OF assms]
  obtain l' h' where a: "esif_link_list_add_node_at_front (Some l) (Some ?a) ?h1 = Some (Some l', h')"
    "ll_rep h' l' ((?a, d) # xs)" "same_except (insert ?a (fst ` set xs)) ?h1 h'"
    "next_addr h' = Suc ?a" "alloc_ok h' = alloc_ok h"
    "dom (node_mem h') = dom (node_mem ?h1)"
    using add_node_at_front_rep [OF rep1(1), of ?a _ d] rep1(2) by auto
  have "heap_ok h'" by (rule heap_ok_after_new_node [OF assms(2) a(6,4)])
  moreover have "same_except (insert ?a (fst ` set xs)) h h'"
    using a(3) by (auto simp: same_except_def)
  ultimately show ?thesis using a True
    by (simp add: esif_link_list_add_at_front_def esif_link_list_create_node_def esif_ccb_malloc_def)
qed

text \<open>A split of a represented list at one of its nodes.\<close>

lemma ll_rep_splitE:
  assumes "ll_rep h l (ys @ (b, e) # zs)"
  obtains n where "node_mem h b = Some n" "data_ptr n = e"
    "ll_seg (node_mem h) None (head_ptr l) ys (prev_ptr n) (Some b)"
    "ll_seg (node_mem h) (Some b) (next_ptr n) zs (tail_ptr l) None"
    "b \<notin> fst ` set ys" "b \<notin> fst ` set zs" "fst ` set ys \<inter> fst ` set zs = {}"
    "distinct (map fst ys)" "distinct (map fst zs)"
    "nodes l = of_nat (length ys + length zs) + 1"
  using assms by (auto simp: ll_rep_def ll_seg_append)

lemma ll_seg_lastE:
  assumes "ll_seg m pv p xs lst q" "xs \<noteq> []"
  obtains ys a d n where "xs = ys @ [(a, d)]" "lst = Some a" "m a = Some n" "data_ptr n = d"
    "next_ptr n = q" "ll_seg m pv p ys (prev_ptr n) (Some a)"
proof -
  obtain ys x where xs: "xs = ys @ [x]" using assms(2) by (cases xs rule: rev_cases) auto
  obtain a d where "x = (a, d)" by (cases x)
  with xs assms(1) that show ?thesis by (auto simp: ll_seg_append)
qed

lemma add_after_rep:
  assumes rep: "ll_rep h l (ys @ (b, e) # zs)" and ok: "heap_ok h"
  shows "\<exists>rc l' h'. esif_link_list_add_after (Some l) (Some b) d h = Some (rc, Some l', h')
    \<and> next_addr h' = Suc (next_addr h) \<and> alloc_ok h' = alloc_ok h \<and> heap_ok h'
    \<and> same_except (insert (next_addr h) (fst ` set (ys @ (b, e) # zs))) h h'
    \<and> (if alloc_ok h (next_addr h)
       then rc = ESIF_OK \<and> ll_rep h' l' (ys @ (b, e) # (next_addr h, d) # zs)
       else rc = ESIF_E_NO_MEMORY \<and> l' = l \<and> ll_rep h' l (ys @ (b, e) # zs))"
proof (cases "alloc_ok h (next_addr h)")
  case False
  with assms show ?thesis
    by (auto simp: esif_link_list_add_after_def esif_link_list_create_node_def esif_ccb_malloc_def
        same_except_def heap_ok_def ll_rep_def less_Suc_eq)
next
  case True
  let ?a = "next_addr h"
  have fresh: "?a \<notin> fst ` set (ys @ (b, e) # zs)" by (rule ll_rep_fresh [OF assms])
  from rep obtain n where n: "node_mem h b = Some n" "data_ptr n = e"
    "ll_seg (node_mem h) None (head_ptr l) ys (prev_ptr n) (Some b)"
    "ll_seg (node_mem h) (Some b) (next_ptr n) zs (tail_ptr l) None"
    "b \<notin> fst ` set ys" "b \<notin> fst ` set zs" "fst ` set ys \<inter> fst ` set zs = {}"
    "distinct (map fst ys)" "distinct (map fst zs)"
    "nodes l = of_nat (length ys + length zs) + 1"
    by (rule ll_rep_splitE)
  have ne: "?a \<noteq> b" "?a \<notin> fst ` set ys" "?a \<notin> fst ` set zs" using fresh by auto
  show ?thesis
  proof (cases zs)
    case Nil
    with n ne True ok show ?thesis
      by (auto simp: esif_link_list_add_after_def esif_link_list_create_node_def esif_ccb_malloc_def
          ll_rep_def ll_seg_append same_except_def heap_ok_def less_Suc_eq)
  next
    case (Cons z zs')
    obtain c f where z: "z = (c, f)" by (cases z)
    from n(4) Cons z obtain m where m: "next_ptr n = Some c" "node_mem h c = Some m" "data_ptr m = f"
      "prev_ptr m = Some b" "ll_seg (node_mem h) (Some c) (next_ptr m) zs' (tail_ptr l) None" by auto
    have c: "c \<noteq> b" "c \<noteq> ?a" "c \<notin> fst ` set zs'" "c \<notin> fst ` set ys" "b \<notin> fst ` set zs'" "?a \<notin> fst ` set zs'"
      using n(5-9) Cons z ne by auto
    from n(1-3,5-10) m c ne True ok Cons z show ?thesis
      by (auto simp: esif_link_list_add_after_def esif_link_list_create_node_def esif_ccb_malloc_def
          ll_rep_def ll_seg_append same_except_def heap_ok_def less_Suc_eq)
  qed
qed

lemma node_unlink_rep:
  assumes rep: "ll_rep h l (ys @ (a, d) # zs)"
  shows "\<exists>l' h'. node_unlink l a h = Some (l', h') \<and> ll_rep h' l' (ys @ zs)
    \<and> dom (node_mem h') = dom (node_mem h) - {a}
    \<and> same_except (fst ` set (ys @ (a, d) # zs)) h h'
    \<and> next_addr h' = next_addr h \<and> alloc_ok h' = alloc_ok h"
proof -
  from rep obtain n where n: "node_mem h a = Some n" "data_ptr n = d"
    "ll_seg (node_mem h) None (head_ptr l) ys (prev_ptr n) (Some a)"
    "ll_seg (node_mem h) (Some a) (next_ptr n) zs (tail_ptr l) None"
    "a \<notin> fst ` set ys" "a \<notin> fst ` set zs" "fst ` set ys \<inter> fst ` set zs = {}"
    "distinct (map fst ys)" "distinct (map fst zs)"
    "nodes l = of_nat (length ys + length zs) + 1"
    by (rule ll_rep_splitE)
  note unfolds = node_unlink_def esif_link_list_destroy_node_def ll_rep_def ll_seg_append same_except_def
  show ?thesis
  proof (cases ys rule: rev_cases)
    case Nil
    show ?thesis
    proof (cases zs)
      case Nil' : Nil
      with Nil n show ?thesis by (auto simp: unfolds)
    next
      case (Cons z zs')
      obtain c f where z: "z = (c, f)" by (cases z)
      with Cons Nil n show ?thesis by (auto simp: unfolds)
    qed
  next
    case (snoc ys' y)
    obtain b e where y: "y = (b, e)" by (cases y)
    from n(3) snoc y obtain nb where nb: "prev_ptr n = Some b" "node_mem h b = Some nb" "data_ptr nb = e"
      "next_ptr nb = Some a" "ll_seg (node_mem h) None (head_ptr l) ys' (prev_ptr nb) (Some b)"
      by (auto simp: ll_seg_append)
    have b: "b \<noteq> a" "b \<notin> fst ` set ys'" "b \<notin> fst ` set zs" "a \<notin> fst ` set ys'"
      using n(5-9) snoc y by auto
    show ?thesis
    proof (cases zs)
      case Nil
      with snoc y n nb b show ?thesis by (auto simp: unfolds)
    next
      case (Cons z zs')
      obtain c f where z: "z = (c, f)" by (cases z)
      from n(4) Cons z obtain m where m: "next_ptr n = Some c" "node_mem h c = Some m" "data_ptr m = f"
        "prev_ptr m = Some a" "ll_seg (node_mem h) (Some c) (next_ptr m) zs' (tail_ptr l) None" by auto
      have c: "c \<noteq> b" "c \<noteq> a" "c \<notin> fst ` set zs'" "c \<notin> fst ` set ys'" "b \<notin> fst ` set zs'" "a \<notin> fst ` set zs'"
        using n(5-9) Cons z snoc y b by auto
      show ?thesis using snoc y n(1,2,5-10) nb b Cons z m c by (auto simp: unfolds)
    qed
  qed
qed

lemma node_remove_loop_absent:
  "ll_seg (node_mem h) pv p xs lst None \<Longrightarrow> a \<notin> fst ` set xs \<Longrightarrow> node_remove_loop l a p h = Some (l, h)"
proof (induction xs arbitrary: pv p)
  case Nil
  then show ?case by (subst node_remove_loop.simps) simp
next
  case (Cons x xs)
  then show ?case by (cases x) (subst node_remove_loop.simps, auto)
qed

lemma node_remove_loop_found:
  "ll_seg (node_mem h) pv p (ys @ (a, d) # zs) lst None \<Longrightarrow> a \<notin> fst ` set ys
   \<Longrightarrow> node_remove_loop l a p h = node_unlink l a h"
proof (induction ys arbitrary: pv p)
  case Nil
  then show ?case by (subst node_remove_loop.simps) simp
next
  case (Cons x xs)
  then show ?case by (cases x) (subst node_remove_loop.simps, auto)
qed

lemma node_remove_loop_rep:
  assumes "ll_rep h l (ys @ (a, d) # zs)"
  shows "\<exists>l' h'. node_remove_loop l a (head_ptr l) h = Some (l', h') \<and> ll_rep h' l' (ys @ zs)
    \<and> dom (node_mem h') = dom (node_mem h) - {a}
    \<and> same_except (fst ` set (ys @ (a, d) # zs)) h h'
    \<and> next_addr h' = next_addr h \<and> alloc_ok h' = alloc_ok h"
proof -
  have "node_remove_loop l a (head_ptr l) h = node_unlink l a h"
    using assms by (intro node_remove_loop_found) (auto simp: ll_rep_def)
  with node_unlink_rep [OF assms] show ?thesis by simp
qed

lemma node_remove_rep:
  assumes "ll_rep h l (ys @ (a, d) # zs)"
  shows "\<exists>l' h'. esif_link_list_node_remove (Some l) (Some a) h = Some (Some l', h')
    \<and> ll_rep h' l' (ys @ zs) \<and> dom (node_mem h') = dom (node_mem h) - {a}
    \<and> same_except (fst ` set (ys @ (a, d) # zs)) h h'
    \<and> next_addr h' = next_addr h \<and> alloc_ok h' = alloc_ok h"
  using node_remove_loop_rep [OF assms] by (force simp: esif_link_list_node_remove_def)

lemma node_remove_absent:
  "ll_rep h l xs \<Longrightarrow> a \<notin> fst ` set xs
   \<Longrightarrow> esif_link_list_node_remove (Some l) (Some a) h = Some (Some l, h)"
  by (auto simp: esif_link_list_node_remove_def ll_rep_def node_remove_loop_absent)

lemma heap_ok_after_remove:
  "heap_ok h \<Longrightarrow> dom (node_mem h') = dom (node_mem h) - A \<Longrightarrow> next_addr h' = next_addr h \<Longrightarrow> heap_ok h'"
  by (auto simp: heap_ok_dom)

subsection \<open>Ordered insertion\<close>

text \<open>
  The position at which the callback asks for the insertion, on the bare sequence of data:
  the gaps are offered from the front, each with the data on its two sides.
\<close>

fun ord_pos :: "'d esif_link_list_sort_cb \<Rightarrow> 'd option \<Rightarrow> 'd option \<Rightarrow> 'd option list \<Rightarrow> nat \<Rightarrow> esif_rc + nat" where
  "ord_pos cb d pd [] i =
     (case cb pd None d of (rc, sv) \<Rightarrow>
        if rc \<noteq> ESIF_OK then Inl rc else if sv \<noteq> 0 then Inr i else Inl ESIF_E_ORDERED_INSERT)"
| "ord_pos cb d pd (x # xs) i =
     (case cb pd x d of (rc, sv) \<Rightarrow>
        if rc \<noteq> ESIF_OK then Inl rc else if sv \<noteq> 0 then Inr i else ord_pos cb d x xs (Suc i))"

definition last_addr :: "(addr \<times> 'd option) list \<Rightarrow> addr option" where
  "last_addr xs = (if xs = [] then None else Some (fst (last xs)))"

definition last_data :: "(addr \<times> 'd option) list \<Rightarrow> 'd option" where
  "last_data xs = (if xs = [] then None else snd (last xs))"

lemma last_addr_snoc [simp]: "last_addr (xs @ [x]) = Some (fst x)" by (simp add: last_addr_def)
lemma last_data_snoc [simp]: "last_data (xs @ [x]) = snd x" by (simp add: last_data_def)
lemma last_addr_Nil [simp]: "last_addr [] = None" by (simp add: last_addr_def)
lemma last_data_Nil [simp]: "last_data [] = None" by (simp add: last_data_def)

lemma node_data_simps [simp]:
  "node_data h None = Some None" "node_data h (Some a) = map_option data_ptr (node_mem h a)"
  by (simp_all add: node_data_def)

lemma ll_seg_head: "ll_seg m pv p xs lst None \<Longrightarrow> p = (case xs of [] \<Rightarrow> None | x # _ \<Rightarrow> Some (fst x))"
  by (cases xs) auto

lemma ll_rep_next:
  assumes "ll_rep h l (pre @ suf)" "pre \<noteq> []"
  shows "\<exists>n. deref h (last_addr pre) = Some n \<and> data_ptr n = last_data pre
    \<and> next_ptr n = (case suf of [] \<Rightarrow> None | x # _ \<Rightarrow> Some (fst x))"
proof -
  obtain ys a d where pre: "pre = ys @ [(a, d)]" using assms(2) by (cases pre rule: rev_cases) auto
  with assms(1) obtain n where "node_mem h a = Some n" "data_ptr n = d"
    "ll_seg (node_mem h) (Some a) (next_ptr n) suf (tail_ptr l) None"
    by (auto simp: ll_rep_def ll_seg_append)
  with pre show ?thesis by (auto dest: ll_seg_head)
qed

lemma insert_ordered_loop_eq:
  assumes "ll_rep h l (pre @ suf)"
  shows "insert_ordered_loop l cb d (last_addr pre) (case suf of [] \<Rightarrow> None | x # _ \<Rightarrow> Some (fst x)) h =
    (case ord_pos cb d (last_data pre) (map snd suf) (length pre) of
       Inl rc \<Rightarrow> Some (rc, Some l, h)
     | Inr i \<Rightarrow> esif_link_list_add_after (Some l) (last_addr (take i (pre @ suf))) d h)"
  using assms
proof (induction suf arbitrary: pre)
  case Nil
  have data: "node_data h (last_addr pre) = Some (last_data pre)"
    using ll_rep_next [OF Nil] by (cases "pre = []") (auto simp: node_data_def last_addr_def last_data_def)
  have nxt: "(case last_addr pre of None \<Rightarrow> Some (head_ptr l) | Some x \<Rightarrow> map_option next_ptr (deref h (last_addr pre))) = Some None"
    using ll_rep_next [OF Nil] ll_rep_head_None [OF Nil] by (cases "pre = []") (auto simp: last_addr_def)
  show ?case
    by (subst insert_ordered_loop.simps) (simp add: data nxt split: prod.splits)
next
  case (Cons x suf)
  obtain a e where x: "x = (a, e)" by (cases x)
  have pre': "ll_rep h l ((pre @ [x]) @ suf)" using Cons.prems by simp
  have data: "node_data h (last_addr pre) = Some (last_data pre)"
    using ll_rep_next [OF Cons.prems] by (cases "pre = []") (auto simp: node_data_def last_addr_def last_data_def)
  obtain n where n: "node_mem h a = Some n" "data_ptr n = e"
    "next_ptr n = (case suf of [] \<Rightarrow> None | x # _ \<Rightarrow> Some (fst x))"
    using ll_rep_next [OF pre'] x by auto
  have prev: "(case last_addr pre of None \<Rightarrow> Some (head_ptr l) | Some x \<Rightarrow> map_option next_ptr (deref h (last_addr pre))) = Some (Some a)"
    using ll_rep_next [OF Cons.prems] ll_rep_Cons [of h l a e suf] Cons.prems x
    by (cases "pre = []") (auto simp: last_addr_def)
  show ?case
    using Cons.IH [OF pre', unfolded append_assoc append_Cons append_Nil] x
    by (subst insert_ordered_loop.simps) (simp add: data prev n split: prod.splits)
qed

lemma ord_pos_bounds: "ord_pos cb d pd xs i = Inr j \<Longrightarrow> i \<le> j \<and> j \<le> i + length xs"
  by (induction cb d pd xs i rule: ord_pos.induct) (fastforce split: prod.splits if_splits)+

lemma insert_ordered_eq:
  assumes "ll_rep h l xs"
  shows "esif_link_list_insert_ordered (Some l) d (Some cb) h =
    (case ord_pos cb d None (map snd xs) 0 of
       Inl rc \<Rightarrow> Some (rc, Some l, h)
     | Inr i \<Rightarrow> esif_link_list_add_after (Some l) (last_addr (take i xs)) d h)"
proof -
  have "(case xs of [] \<Rightarrow> None | x # _ \<Rightarrow> Some (fst x)) = head_ptr l"
    using assms by (cases xs) (auto simp: ll_rep_def)
  with insert_ordered_loop_eq [of h l "[]" xs cb d, unfolded append_Nil] assms show ?thesis
    by (simp add: esif_link_list_insert_ordered_def)
qed

lemma insert_ordered_rep:
  assumes rep: "ll_rep h l xs" and ok: "heap_ok h"
  shows "case ord_pos cb d None (map snd xs) 0 of
      Inl rc \<Rightarrow> esif_link_list_insert_ordered (Some l) d (Some cb) h = Some (rc, Some l, h)
    | Inr i \<Rightarrow> (\<exists>rc l' h'. esif_link_list_insert_ordered (Some l) d (Some cb) h = Some (rc, Some l', h')
        \<and> heap_ok h' \<and> same_except (insert (next_addr h) (fst ` set xs)) h h'
        \<and> (if alloc_ok h (next_addr h)
           then rc = ESIF_OK \<and> ll_rep h' l' (take i xs @ (next_addr h, d) # drop i xs)
           else rc = ESIF_E_NO_MEMORY \<and> ll_rep h' l' xs))"
proof -
  note eq = insert_ordered_eq [OF rep, of d cb]
  show ?thesis
  proof (cases "ord_pos cb d None (map snd xs) 0")
    case (Inl rc)
    with eq show ?thesis by simp
  next
    case (Inr i)
    then have i: "i \<le> length xs" using ord_pos_bounds by fastforce
    show ?thesis
    proof (cases "take i xs" rule: rev_cases)
      case Nil
      then have "take i xs @ (next_addr h, d) # drop i xs = (next_addr h, d) # xs"
        by (metis append_Nil append_take_drop_id)
      moreover have "esif_link_list_add_after (Some l) None d h = esif_link_list_add_at_front (Some l) d h"
        by (simp add: esif_link_list_add_after_def)
      ultimately have "esif_link_list_insert_ordered (Some l) d (Some cb) h = esif_link_list_add_at_front (Some l) d h"
        and ins: "take i xs @ (next_addr h, d) # drop i xs = (next_addr h, d) # xs"
        using eq Inr Nil by simp_all
      with add_at_front_rep [OF rep ok, of d] obtain rc l' h' where
        "esif_link_list_insert_ordered (Some l) d (Some cb) h = Some (rc, Some l', h')" "heap_ok h'"
        "same_except (insert (next_addr h) (fst ` set xs)) h h'"
        "if alloc_ok h (next_addr h) then rc = ESIF_OK \<and> ll_rep h' l' ((next_addr h, d) # xs)
         else rc = ESIF_E_NO_MEMORY \<and> l' = l \<and> ll_rep h' l xs \<and> node_mem h' = node_mem h"
        by auto
      then show ?thesis unfolding Inr sum.case ins
        by (intro exI [of _ rc] exI [of _ l'] exI [of _ h']) (simp split: if_splits)
    next
      case (snoc ys y)
      obtain b e where y: "y = (b, e)" by (cases y)
      have xs: "xs = ys @ (b, e) # drop i xs"
        using append_take_drop_id [of i xs] snoc y by simp
      have ins: "take i xs @ (next_addr h, d) # drop i xs = ys @ (b, e) # (next_addr h, d) # drop i xs"
        using snoc y by simp
      have "esif_link_list_insert_ordered (Some l) d (Some cb) h = esif_link_list_add_after (Some l) (Some b) d h"
        using eq Inr snoc y by simp
      with add_after_rep [of h l ys b e "drop i xs" d, folded xs, OF rep ok] obtain rc l' h' where
        "esif_link_list_insert_ordered (Some l) d (Some cb) h = Some (rc, Some l', h')" "heap_ok h'"
        "same_except (insert (next_addr h) (fst ` set xs)) h h'"
        "if alloc_ok h (next_addr h)
         then rc = ESIF_OK \<and> ll_rep h' l' (ys @ (b, e) # (next_addr h, d) # drop i xs)
         else rc = ESIF_E_NO_MEMORY \<and> l' = l \<and> ll_rep h' l xs"
        by auto
      then show ?thesis unfolding Inr sum.case ins
        by (intro exI [of _ rc] exI [of _ l'] exI [of _ h']) (simp split: if_splits)
    qed
  qed
qed

subsection \<open>Destruction\<close>

lemma free_data_loop_rep:
  assumes "ll_rep h l xs"
  shows "\<exists>l' h'. free_data_loop f l h r = Some (l', h', r @ map (release_data f) (map snd xs))
    \<and> ll_rep h' l' [] \<and> dom (node_mem h') = dom (node_mem h) - fst ` set xs
    \<and> same_except (fst ` set xs) h h' \<and> next_addr h' = next_addr h \<and> alloc_ok h' = alloc_ok h"
  using assms
proof (induction xs arbitrary: l h r)
  case Nil
  then have "head_ptr l = None" by (simp add: ll_rep_head_None)
  with Nil show ?case by (subst free_data_loop.simps) (auto simp: same_except_def)
next
  case (Cons x xs)
  obtain a d where x: "x = (a, d)" by (cases x)
  from Cons.prems x obtain n where n: "head_ptr l = Some a" "node_mem h a = Some n" "data_ptr n = d"
    by (auto dest: ll_rep_Cons)
  let ?h1 = "h\<lparr>node_mem := (node_mem h)(a \<mapsto> n\<lparr>data_ptr := None\<rparr>)\<rparr>"
  have rep1: "ll_rep ?h1 l ([] @ (a, None) # xs)"
    using Cons.prems x n by (auto simp: ll_rep_def)
  obtain l2 h2 where rm: "node_remove_loop l a (head_ptr l) ?h1 = Some (l2, h2)" "ll_rep h2 l2 xs"
    "dom (node_mem h2) = dom (node_mem ?h1) - {a}" "same_except (fst ` set ((a, None) # xs)) ?h1 h2"
    "next_addr h2 = next_addr h" "alloc_ok h2 = alloc_ok h"
    using node_remove_loop_rep [OF rep1] by auto
  obtain l' h' where ih: "free_data_loop f l2 h2 (r @ [release_data f d])
      = Some (l', h', (r @ [release_data f d]) @ map (release_data f) (map snd xs))"
    "ll_rep h' l' []" "dom (node_mem h') = dom (node_mem h2) - fst ` set xs"
    "same_except (fst ` set xs) h2 h'" "next_addr h' = next_addr h2" "alloc_ok h' = alloc_ok h2"
    using Cons.IH [OF rm(2)] by blast
  have "free_data_loop f l h r = Some (l', h', r @ map (release_data f) (map snd (x # xs)))"
    using n rm(1) ih(1) x by (subst free_data_loop.simps) simp
  moreover have "dom (node_mem h') = dom (node_mem h) - fst ` set (x # xs)"
    using ih(3) rm(3) x n by auto
  moreover have "same_except (fst ` set (x # xs)) h h'"
    using ih(4) rm(4) x by (auto simp: same_except_def)
  ultimately show ?case using ih(2,5,6) rm(5,6) by simp
qed

lemma destroy_loop_rep:
  assumes "ll_rep h l xs"
  shows "\<exists>h'. destroy_loop l h = Some h' \<and> dom (node_mem h') = dom (node_mem h) - fst ` set xs
    \<and> same_except (fst ` set xs) h h' \<and> next_addr h' = next_addr h \<and> alloc_ok h' = alloc_ok h"
  using assms
proof (induction xs arbitrary: l h)
  case Nil
  then have "head_ptr l = None" by (simp add: ll_rep_head_None)
  then show ?case by (subst destroy_loop.simps) (auto simp: same_except_def)
next
  case (Cons x xs)
  obtain a d where x: "x = (a, d)" by (cases x)
  from Cons.prems x have hd: "head_ptr l = Some a" by (auto dest: ll_rep_Cons)
  obtain l2 h2 where rm: "node_remove_loop l a (head_ptr l) h = Some (l2, h2)" "ll_rep h2 l2 xs"
    "dom (node_mem h2) = dom (node_mem h) - {a}" "same_except (fst ` set ((a, d) # xs)) h h2"
    "next_addr h2 = next_addr h" "alloc_ok h2 = alloc_ok h"
    using node_remove_loop_rep [of h l "[]" a d xs] Cons.prems x by auto
  obtain h' where ih: "destroy_loop l2 h2 = Some h'" "dom (node_mem h') = dom (node_mem h2) - fst ` set xs"
    "same_except (fst ` set xs) h2 h'" "next_addr h' = next_addr h2" "alloc_ok h' = alloc_ok h2"
    using Cons.IH [OF rm(2)] by blast
  have "destroy_loop l h = Some h'" using hd rm(1) ih(1) by (subst destroy_loop.simps) simp
  moreover have "same_except (fst ` set (x # xs)) h h'"
    using ih(3) rm(4) x by (auto simp: same_except_def)
  ultimately show ?case using ih(2,4,5) rm(3,5,6) x by auto
qed

section \<open>The search loop of the clients\<close>

text \<open>
  The list has no search function: clients walk the nodes from the head and stop at the
  first whose data they accept, or at \<^verbatim>\<open>NULL\<close>.
\<close>

partial_function (option) ll_find ::
    "('d option \<Rightarrow> bool) \<Rightarrow> addr option \<Rightarrow> ('d, 'z) ll_heap_scheme \<Rightarrow> addr option option" where
  "ll_find P cur h =
     (case cur of
        None \<Rightarrow> Some None
      | Some _ \<Rightarrow> do {
          n \<leftarrow> deref h cur;
          if P (data_ptr n) then Some cur else ll_find P (next_ptr n) h
        })"

lemma ll_find_seg:
  "ll_seg (node_mem h) pv p xs lst None
   \<Longrightarrow> ll_find P p h = Some (map_option fst (List.find (P \<circ> snd) xs))"
proof (induction xs arbitrary: pv p)
  case Nil
  then show ?case by (subst ll_find.simps) simp
next
  case (Cons x xs)
  then show ?case by (cases x) (subst ll_find.simps, auto simp: comp_def)
qed

lemma ll_find_rep:
  "ll_rep h l xs \<Longrightarrow> ll_find P (head_ptr l) h = Some (map_option fst (List.find (P \<circ> snd) xs))"
  by (auto simp: ll_rep_def dest: ll_find_seg)

lemma find_splitE:
  assumes "List.find P xs = Some x"
  obtains ys zs where "xs = ys @ x # zs" "P x" "\<forall>y\<in>set ys. \<not> P y"
proof -
  from assms obtain i where i: "i < length xs" "P (xs ! i)" "x = xs ! i" "\<forall>j<i. \<not> P (xs ! j)"
    by (auto simp: find_Some_iff)
  have "xs = take i xs @ x # drop (Suc i) xs" using i by (simp add: id_take_nth_drop)
  moreover have "\<forall>y\<in>set (take i xs). \<not> P y" using i by (auto simp: in_set_conv_nth)
  ultimately show thesis using that i by blast
qed

lemma same_except_mono: "same_except A h h' \<Longrightarrow> A \<subseteq> B \<Longrightarrow> same_except B h h'"
  by (auto simp: same_except_def)

section \<open>Evolution of one list among others\<close>

text \<open>
  A run of operations on the list whose nodes are \<open>A\<close> in \<open>h\<close> and \<open>A'\<close> in \<open>h'\<close>: the nodes it ends with are
  old ones or new, and no other node has been touched.
\<close>

definition evolves ::
    "addr set \<Rightarrow> ('d, 'z) ll_heap_scheme \<Rightarrow> addr set \<Rightarrow> ('d, 'z) ll_heap_scheme \<Rightarrow> bool" where
  "evolves A h A' h' \<longleftrightarrow> heap_ok h' \<and> alloc_ok h' = alloc_ok h \<and> next_addr h \<le> next_addr h'
     \<and> A' \<subseteq> A \<union> {next_addr h..} \<and> (\<forall>b<next_addr h. b \<notin> A \<longrightarrow> node_mem h' b = node_mem h b)"

lemma evolves_refl: "heap_ok h \<Longrightarrow> A' \<subseteq> A \<Longrightarrow> evolves A h A' h"
  by (auto simp: evolves_def)

lemma evolves_trans: "evolves A h A' h' \<Longrightarrow> evolves A' h' A'' h'' \<Longrightarrow> evolves A h A'' h''"
proof -
  assume e: "evolves A h A' h'" "evolves A' h' A'' h''"
  have "node_mem h'' b = node_mem h b" if b: "b < next_addr h" "b \<notin> A" for b
  proof -
    have "b < next_addr h'" "b \<notin> A'" using e(1) b by (auto simp: evolves_def)
    then show ?thesis using e b by (simp add: evolves_def)
  qed
  moreover have "A'' \<subseteq> A \<union> {next_addr h..}"
  proof
    fix x assume "x \<in> A''"
    then consider "x \<in> A'" | "next_addr h' \<le> x" using e(2) by (auto simp: evolves_def)
    then show "x \<in> A \<union> {next_addr h..}"
    proof cases
      case 1
      then show ?thesis using e(1) unfolding evolves_def by (meson subsetD)
    next
      case 2
      then show ?thesis using e(1) unfolding evolves_def by (simp add: le_trans)
    qed
  qed
  ultimately show ?thesis using e by (simp add: evolves_def)
qed

lemma evolves_mono: "evolves A h A' h' \<Longrightarrow> A \<subseteq> B \<Longrightarrow> evolves B h A' h'"
  by (auto simp: evolves_def)

lemma evolves_frame:
  assumes "evolves A h A' h'" "ll_rep h m ys" "fst ` set ys \<inter> A = {}" "heap_ok h"
  shows "ll_rep h' m ys" "fst ` set ys \<inter> A' = {}"
proof -
  have old: "a < next_addr h \<and> a \<notin> A" if a: "a \<in> fst ` set ys" for a
  proof -
    obtain d where "(a, d) \<in> set ys" using a by auto
    then have "node_mem h a \<noteq> None" using ll_rep_mem [OF assms(2)] by blast
    then show ?thesis using assms(3,4) a by (auto simp: heap_ok_def)
  qed
  have "node_mem h' b = node_mem h b" if "b \<in> fst ` set ys" for b
    using old [OF that] assms(1) by (simp add: evolves_def)
  then have "same_except (- fst ` set ys) h h'" by (simp add: same_except_def)
  then show "ll_rep h' m ys" by (rule ll_rep_frame [OF assms(2)]) auto
  have "b \<notin> A'" if "b \<in> fst ` set ys" for b
  proof
    assume "b \<in> A'"
    then have "b \<in> A \<or> next_addr h \<le> b" using assms(1) unfolding evolves_def by (metis Un_iff atLeast_iff subsetD)
    then show False using old [OF that] by simp
  qed
  then show "fst ` set ys \<inter> A' = {}" by blast
qed

text \<open>The addresses of the nodes of a list; a list in a heap has only one.\<close>

definition nodes_of :: "('d, 'z) ll_heap_scheme \<Rightarrow> esif_link_list \<Rightarrow> addr set" where
  "nodes_of h l = {a. \<exists>xs. ll_rep h l xs \<and> a \<in> fst ` set xs}"

lemma nodes_of_rep: "ll_rep h l xs \<Longrightarrow> nodes_of h l = fst ` set xs"
  by (auto simp: nodes_of_def dest: ll_rep_unique)

lemma nodes_of_next [simp]: "nodes_of (h\<lparr>next_addr := n\<rparr>) l = nodes_of h l"
  by (simp add: nodes_of_def ll_rep_def)

lemma evolves_next:
  "evolves A h A' h' \<Longrightarrow> next_addr h' \<le> n \<Longrightarrow> evolves A h A' (h'\<lparr>next_addr := n\<rparr>)"
  by (fastforce simp: evolves_def heap_ok_def)

lemma evolves_from_next:
  "evolves A (h\<lparr>next_addr := n\<rparr>) A' h' \<Longrightarrow> next_addr h \<le> n \<Longrightarrow> evolves A h A' h'"
  by (fastforce simp: evolves_def)

lemma same_except_evolves:
  assumes "same_except (insert (next_addr h) A) h h'" "heap_ok h'" "alloc_ok h' = alloc_ok h"
    "next_addr h \<le> next_addr h'" "A' \<subseteq> insert (next_addr h) A"
  shows "evolves A h A' h'"
  using assms by (auto simp: evolves_def same_except_def)

lemma node_remove_evolves:
  assumes "ll_rep h l (ys @ (a, d) # zs)" "heap_ok h"
  shows "\<exists>l' h'. esif_link_list_node_remove (Some l) (Some a) h = Some (Some l', h')
    \<and> ll_rep h' l' (ys @ zs) \<and> evolves (fst ` set (ys @ (a, d) # zs)) h (fst ` set (ys @ zs)) h'
    \<and> next_addr h' = next_addr h"
proof -
  from node_remove_rep [OF assms(1)] obtain l' h' where
    r: "esif_link_list_node_remove (Some l) (Some a) h = Some (Some l', h')" "ll_rep h' l' (ys @ zs)"
      "dom (node_mem h') = dom (node_mem h) - {a}" "same_except (fst ` set (ys @ (a, d) # zs)) h h'"
      "next_addr h' = next_addr h" "alloc_ok h' = alloc_ok h" by blast
  have "heap_ok h'" by (rule heap_ok_after_remove [OF assms(2) r(3,5)])
  then have "evolves (fst ` set (ys @ (a, d) # zs)) h (fst ` set (ys @ zs)) h'"
    using r by (intro same_except_evolves same_except_mono [OF r(4)]) auto
  with r show ?thesis by blast
qed

lemma add_at_back_evolves:
  assumes "ll_rep h l xs" "heap_ok h"
  shows "\<exists>rc l' h' xs'. esif_link_list_add_at_back (Some l) d h = Some (rc, Some l', h')
    \<and> xs' = xs @ (if alloc_ok h (next_addr h) then [(next_addr h, d)] else []) \<and> ll_rep h' l' xs'
    \<and> evolves (fst ` set xs) h (fst ` set xs') h' \<and> next_addr h' = Suc (next_addr h)"
proof -
  from add_at_back_rep [OF assms, of d] obtain rc l' h' where
    r: "esif_link_list_add_at_back (Some l) d h = Some (rc, Some l', h')" "next_addr h' = Suc (next_addr h)"
      "alloc_ok h' = alloc_ok h" "heap_ok h'" "same_except (insert (next_addr h) (fst ` set xs)) h h'"
      "if alloc_ok h (next_addr h) then rc = ESIF_OK \<and> ll_rep h' l' (xs @ [(next_addr h, d)])
       else rc = ESIF_E_NO_MEMORY \<and> l' = l \<and> ll_rep h' l xs \<and> node_mem h' = node_mem h" by blast
  let ?xs = "xs @ (if alloc_ok h (next_addr h) then [(next_addr h, d)] else [])"
  have "evolves (fst ` set xs) h (fst ` set ?xs) h'"
    using r(2) by (intro same_except_evolves [OF r(5,4,3)]) auto
  moreover have "ll_rep h' l' ?xs" using r(6) by (auto split: if_splits)
  ultimately show ?thesis using r(1,2) by blast
qed

lemma overwrite_data_rep:
  assumes "ll_rep h l (ys @ (a, e) # zs)" "node_mem h a = Some n"
  shows "ll_rep (h\<lparr>node_mem := (node_mem h)(a \<mapsto> n\<lparr>data_ptr := d\<rparr>)\<rparr>) l (ys @ (a, d) # zs)"
proof -
  have "a \<notin> fst ` set ys" "a \<notin> fst ` set zs" using assms(1) by (auto simp: ll_rep_def)
  with assms show ?thesis by (auto simp: ll_rep_def ll_seg_append)
qed

text \<open>Inserting before a node by copying its data to a new node behind it.\<close>

lemma insert_before_evolves:
  assumes "ll_rep h l (ys @ (a, e) # zs)" "heap_ok h"
  shows "\<exists>rc l' h1 h2 xs'. esif_link_list_add_after (Some l) (Some a) e h = Some (rc, Some l', h1)
    \<and> node_write h1 (Some a) (\<lambda>m. m\<lparr>data_ptr := d\<rparr>) = Some h2
    \<and> xs' = (if alloc_ok h (next_addr h) then (next_addr h, e) # zs else zs)
    \<and> ll_rep h2 l' (ys @ (a, d) # xs')
    \<and> evolves (fst ` set (ys @ (a, e) # zs)) h (fst ` set (ys @ (a, d) # xs')) h2
    \<and> next_addr h2 = Suc (next_addr h)"
proof -
  let ?xs = "if alloc_ok h (next_addr h) then (next_addr h, e) # zs else zs"
  from add_after_rep [OF assms, of e] obtain rc l' h1 where
    r: "esif_link_list_add_after (Some l) (Some a) e h = Some (rc, Some l', h1)" "next_addr h1 = Suc (next_addr h)"
      "alloc_ok h1 = alloc_ok h" "heap_ok h1"
      "same_except (insert (next_addr h) (fst ` set (ys @ (a, e) # zs))) h h1"
      "if alloc_ok h (next_addr h) then rc = ESIF_OK \<and> ll_rep h1 l' (ys @ (a, e) # (next_addr h, e) # zs)
       else rc = ESIF_E_NO_MEMORY \<and> l' = l \<and> ll_rep h1 l (ys @ (a, e) # zs)" by blast
  then have rep: "ll_rep h1 l' (ys @ (a, e) # ?xs)" by (auto split: if_splits)
  then obtain n where n: "node_mem h1 a = Some n" using ll_rep_mem [OF rep, of a e] by auto
  let ?h2 = "h1\<lparr>node_mem := (node_mem h1)(a \<mapsto> n\<lparr>data_ptr := d\<rparr>)\<rparr>"
  have ok2: "heap_ok ?h2" using r(4) n by (auto simp: heap_ok_def)
  have "same_except (insert (next_addr h) (fst ` set (ys @ (a, e) # zs))) h ?h2"
    using r(5) by (auto simp: same_except_def)
  then have "evolves (fst ` set (ys @ (a, e) # zs)) h (fst ` set (ys @ (a, d) # ?xs)) ?h2"
    using r(2,3) by (intro same_except_evolves ok2) auto
  moreover have "node_write h1 (Some a) (\<lambda>m. m\<lparr>data_ptr := d\<rparr>) = Some ?h2" using n by simp
  moreover have "ll_rep ?h2 l' (ys @ (a, d) # ?xs)" by (rule overwrite_data_rep [OF rep n])
  moreover have "next_addr ?h2 = Suc (next_addr h)" using r(2) by simp
  ultimately show ?thesis using r(1) by blast
qed

lemma free_data_evolves:
  assumes "ll_rep h l xs" "heap_ok h"
  shows "\<exists>l' h'. esif_link_list_free_data (Some l) f h = Some (Some l', h', map (release_data f) (map snd xs))
    \<and> ll_rep h' l' [] \<and> evolves (fst ` set xs) h {} h' \<and> next_addr h' = next_addr h"
proof -
  from free_data_loop_rep [OF assms(1), of f "[]"] obtain l' h' where
    r: "free_data_loop f l h [] = Some (l', h', map (release_data f) (map snd xs))" "ll_rep h' l' []"
      "dom (node_mem h') = dom (node_mem h) - fst ` set xs" "same_except (fst ` set xs) h h'"
      "next_addr h' = next_addr h" "alloc_ok h' = alloc_ok h" by auto
  have "heap_ok h'" by (rule heap_ok_after_remove [OF assms(2) r(3,5)])
  then have "evolves (fst ` set xs) h {} h'"
    using r by (intro same_except_evolves same_except_mono [OF r(4)]) auto
  with r show ?thesis by (auto simp: esif_link_list_free_data_def)
qed

text \<open>The node a cursor stands on, and where it goes next.\<close>

definition first_addr :: "(addr \<times> 'd option) list \<Rightarrow> addr option" where
  "first_addr xs = (case xs of [] \<Rightarrow> None | x # _ \<Rightarrow> Some (fst x))"

lemma first_addr_simps [simp]: "first_addr [] = None" "first_addr (x # xs) = Some (fst x)"
  by (simp_all add: first_addr_def)

lemma ll_rep_cursorE:
  assumes "ll_rep h l (ys @ (a, d) # zs)"
  obtains n where "deref h (Some a) = Some n" "data_ptr n = d" "next_ptr n = first_addr zs"
proof -
  from ll_rep_splitE [OF assms] obtain n where "node_mem h a = Some n" "data_ptr n = d"
    "ll_seg (node_mem h) (Some a) (next_ptr n) zs (tail_ptr l) None" by metis
  with that show thesis by (auto simp: first_addr_def dest: ll_seg_head)
qed

lemma ll_rep_first: "ll_rep h l xs \<Longrightarrow> head_ptr l = first_addr xs"
  by (auto simp: ll_rep_def first_addr_def dest: ll_seg_head)

section \<open>Properties\<close>

text \<open>The lists of a heap that share no node with a given one.\<close>

definition other_lists_kept :: "('d, 'z) ll_heap_scheme \<Rightarrow> ('d, 'z) ll_heap_scheme \<Rightarrow> addr set \<Rightarrow> bool" where
  "other_lists_kept h h' A \<longleftrightarrow>
     (\<forall>m ys. ll_rep h m ys \<and> fst ` set ys \<inter> A = {} \<longrightarrow> ll_rep h' m ys)"

lemma other_lists_keptI:
  assumes "same_except (insert (next_addr h) A) h h'" "heap_ok h"
  shows "other_lists_kept h h' A"
  unfolding other_lists_kept_def
proof (intro allI impI)
  fix m ys assume ys: "ll_rep h m ys \<and> fst ` set ys \<inter> A = {}"
  then have "next_addr h \<notin> fst ` set ys" using assms(2) ll_rep_fresh by blast
  with ys show "ll_rep h' m ys" by (intro ll_rep_frame [OF _ assms(1)]) auto
qed

text \<open>
  Appending to a linked list (\<^verbatim>\<open>esif_link_list_add_at_back\<close>) never faults; on success the
  list holds its old nodes followed by one new node with the data, on an allocation failure
  the code returns \<^verbatim>\<open>ESIF_E_NO_MEMORY\<close> and the list is unchanged; in both cases every other
  list in the heap that shares no node with it is unchanged.
\<close>

theorem link_list_add_at_back:
  assumes "ll_rep h l xs" "heap_ok h"
  shows "\<exists>rc l' h'. esif_link_list_add_at_back (Some l) d h = Some (rc, Some l', h')
    \<and> heap_ok h' \<and> other_lists_kept h h' (fst ` set xs)
    \<and> (if alloc_ok h (next_addr h) then rc = ESIF_OK \<and> ll_rep h' l' (xs @ [(next_addr h, d)])
       else rc = ESIF_E_NO_MEMORY \<and> ll_rep h' l' xs)"
proof -
  from add_at_back_rep [OF assms, of d] obtain rc l' h' where
    *: "esif_link_list_add_at_back (Some l) d h = Some (rc, Some l', h')" "heap_ok h'"
      "same_except (insert (next_addr h) (fst ` set xs)) h h'"
      "if alloc_ok h (next_addr h) then rc = ESIF_OK \<and> ll_rep h' l' (xs @ [(next_addr h, d)])
       else rc = ESIF_E_NO_MEMORY \<and> l' = l \<and> ll_rep h' l xs \<and> node_mem h' = node_mem h"
    by blast
  with other_lists_keptI [OF *(3) assms(2)] show ?thesis
    by (intro exI [of _ rc] exI [of _ l'] exI [of _ h']) (simp split: if_splits)
qed

text \<open>A concrete heap with a list of two nodes and a second list of one.\<close>

definition ll_example_heap :: "nat ll_heap" where
  "ll_example_heap = \<lparr>next_addr = 4, alloc_ok = (\<lambda>_. True), node_mem =
     [1 \<mapsto> \<lparr>data_ptr = Some 10, next_ptr = Some 2, prev_ptr = None\<rparr>,
      2 \<mapsto> \<lparr>data_ptr = Some 30, next_ptr = None, prev_ptr = Some 1\<rparr>,
      3 \<mapsto> \<lparr>data_ptr = Some 7, next_ptr = None, prev_ptr = None\<rparr>]\<rparr>"

definition ll_example :: esif_link_list where
  "ll_example = \<lparr>head_ptr = Some 1, tail_ptr = Some 2, nodes = 2\<rparr>"

lemma ll_example_rep: "ll_rep ll_example_heap ll_example [(1, Some 10), (2, Some 30)]"
  by (simp add: ll_rep_def ll_example_heap_def ll_example_def)

lemma ll_example_ok: "heap_ok ll_example_heap"
  by (auto simp: heap_ok_def ll_example_heap_def)

theorem link_list_add_at_back_witness:
  "ll_rep ll_example_heap ll_example [(1, Some 10), (2, Some 30)] \<and> heap_ok ll_example_heap \<and>
   (\<exists>rc l' h'. esif_link_list_add_at_back (Some ll_example) (Some 20) ll_example_heap = Some (rc, Some l', h')
     \<and> ll_rep h' l' [(1, Some 10), (2, Some 30), (4, Some 20)])"
  using link_list_add_at_back [OF ll_example_rep ll_example_ok, of "Some 20"] ll_example_rep ll_example_ok
  by (auto simp: ll_example_heap_def)

text \<open>
  C15. Removing a node that is in the list (\<^verbatim>\<open>esif_link_list_node_remove\<close>) never faults, takes
  exactly that node out of the sequence, frees exactly that node's memory, and leaves every
  list that shares no node with this one unchanged.
\<close>

theorem link_list_node_remove:
  assumes "ll_rep h l (ys @ (a, d) # zs)" "heap_ok h"
  shows "\<exists>l' h'. esif_link_list_node_remove (Some l) (Some a) h = Some (Some l', h')
    \<and> heap_ok h' \<and> ll_rep h' l' (ys @ zs) \<and> dom (node_mem h') = dom (node_mem h) - {a}
    \<and> other_lists_kept h h' (fst ` set (ys @ (a, d) # zs))"
proof -
  from node_remove_rep [OF assms(1)] obtain l' h' where
    *: "esif_link_list_node_remove (Some l) (Some a) h = Some (Some l', h')" "ll_rep h' l' (ys @ zs)"
      "dom (node_mem h') = dom (node_mem h) - {a}" "next_addr h' = next_addr h"
      "same_except (fst ` set (ys @ (a, d) # zs)) h h'" by blast
  have "other_lists_kept h h' (fst ` set (ys @ (a, d) # zs))"
    by (rule other_lists_keptI [OF same_except_mono [OF *(5)] assms(2)]) blast
  with * heap_ok_after_remove [OF assms(2) *(3,4)] show ?thesis by blast
qed

theorem link_list_node_remove_witness:
  "ll_rep ll_example_heap ll_example [(1, Some 10), (2, Some 30)] \<and>
   (\<exists>l' h'. esif_link_list_node_remove (Some ll_example) (Some 1) ll_example_heap = Some (Some l', h')
     \<and> ll_rep h' l' [(2, Some 30)] \<and> dom (node_mem h') = {2, 3})"
proof -
  have "dom (node_mem ll_example_heap) - {1} = {2, 3}" by (auto simp: ll_example_heap_def)
  with link_list_node_remove [of ll_example_heap ll_example "[]" 1 "Some 10" "[(2, Some 30)]"]
    ll_example_rep ll_example_ok show ?thesis by auto
qed

lemma ord_pos_key:
  assumes "\<And>pv nx nw. cb pv nx nw = (ESIF_OK, if nx = None \<or> key nw \<le> key nx then 1 else (0 :: int))"
    and "None \<notin> set xs"
  shows "ord_pos cb d pd xs i = Inr (i + length (takeWhile (\<lambda>x. \<not> key d \<le> key x) xs))"
  using assms(2)
proof (induction xs arbitrary: pd i)
  case (Cons x xs)
  then obtain y where "x = Some y" by (cases x) auto
  with Cons show ?case by (simp add: assms(1))
qed (simp add: assms(1))

lemma insort_key_take_drop:
  "insort_key f x xs =
     (let i = length (takeWhile (\<lambda>y. \<not> f x \<le> f y) xs) in take i xs @ x # drop i xs)"
  by (induction xs) (auto simp: Let_def)

text \<open>
  C14. Ordered insertion (\<^verbatim>\<open>esif_link_list_insert_ordered\<close>) with a callback that asks for the
  insertion before the first data whose key is not smaller (or at the end) keeps the list
  sorted: the data sequence afterwards is the library's sorted insertion of the new data.
\<close>

theorem link_list_insert_ordered_sorted:
  fixes key :: "'d option \<Rightarrow> 'k::linorder"
  assumes "ll_rep h l xs" "heap_ok h" "alloc_ok h (next_addr h)"
    and cb: "\<And>pv nx nw. cb pv nx nw = (ESIF_OK, if nx = None \<or> key nw \<le> key nx then 1 else 0)"
    and "None \<notin> set (map snd xs)" "sorted (map key (map snd xs))"
  shows "\<exists>l' h' ys. esif_link_list_insert_ordered (Some l) d (Some cb) h = Some (ESIF_OK, Some l', h')
    \<and> heap_ok h' \<and> ll_rep h' l' ys \<and> map snd ys = insort_key key d (map snd xs)
    \<and> sorted (map key (map snd ys))"
proof -
  let ?i = "length (takeWhile (\<lambda>x. \<not> key d \<le> key x) (map snd xs))"
  have "ord_pos cb d None (map snd xs) 0 = Inr ?i"
    using ord_pos_key [where cb = cb and key = key and d = d and xs = "map snd xs", OF cb assms(5)] by simp
  with insert_ordered_rep [OF assms(1,2), where cb = cb and d = d] assms(3) obtain l' h' where
    *: "esif_link_list_insert_ordered (Some l) d (Some cb) h = Some (ESIF_OK, Some l', h')" "heap_ok h'"
      "ll_rep h' l' (take ?i xs @ (next_addr h, d) # drop ?i xs)" by auto
  have "map snd (take ?i xs @ (next_addr h, d) # drop ?i xs) = insort_key key d (map snd xs)"
    by (simp add: insort_key_take_drop [of key] take_map drop_map Let_def)
  with * show ?thesis using assms(6) by (metis sorted_insort_key)
qed

theorem link_list_insert_ordered_sorted_witness:
  "ll_rep ll_example_heap ll_example [(1, Some 10), (2, Some 30)] \<and>
   (\<exists>l' h' ys. esif_link_list_insert_ordered (Some ll_example) (Some 20)
       (Some (\<lambda>pv nx nw. (ESIF_OK, if nx = None \<or> the nw \<le> the nx then 1 else 0))) ll_example_heap
       = Some (ESIF_OK, Some l', h')
     \<and> ll_rep h' l' ys \<and> map snd ys = [Some 10, Some 20, Some 30])"
proof -
  have ok: "alloc_ok ll_example_heap (next_addr ll_example_heap)" by (simp add: ll_example_heap_def)
  let ?cb = "\<lambda>pv nx nw. (ESIF_OK, if nx = None \<or> the nw \<le> the nx then 1 else 0 :: int)"
  have "\<exists>l' h' ys. esif_link_list_insert_ordered (Some ll_example) (Some 20) (Some ?cb) ll_example_heap
      = Some (ESIF_OK, Some l', h') \<and> heap_ok h' \<and> ll_rep h' l' ys
      \<and> map snd ys = insort_key the (Some 20) (map snd [(1 :: nat, Some 10), (2, Some 30)])
      \<and> sorted (map the (map snd ys))"
    by (rule link_list_insert_ordered_sorted [OF ll_example_rep ll_example_ok ok]) simp_all
  then obtain l' h' ys where "esif_link_list_insert_ordered (Some ll_example) (Some 20) (Some ?cb) ll_example_heap
      = Some (ESIF_OK, Some l', h')" "ll_rep h' l' ys" "map snd ys = [Some 10, Some 20, Some 30]"
    by (simp only: list.map snd_conv insort_key.simps) (auto simp del: map_eq_Cons_conv)
  with ll_example_rep show ?thesis by (intro conjI exI)
qed

text \<open>
  Destroying a list with its data (\<^verbatim>\<open>esif_link_list_free_data_and_destroy\<close>) terminates, hands
  the data of every node to the destructor exactly once and in list order, frees exactly the
  nodes of the list, and leaves every list that shares no node with it unchanged.
\<close>

theorem link_list_free_data_and_destroy:
  assumes "ll_rep h l xs" "heap_ok h"
  shows "\<exists>h'. esif_link_list_free_data_and_destroy (Some l) f h
      = Some (h', map (release_data f) (map snd xs))
    \<and> heap_ok h' \<and> dom (node_mem h') = dom (node_mem h) - fst ` set xs
    \<and> other_lists_kept h h' (fst ` set xs)"
proof -
  from free_data_loop_rep [OF assms(1), of f "[]"] obtain l' h' where
    *: "free_data_loop f l h [] = Some (l', h', map (release_data f) (map snd xs))"
      "dom (node_mem h') = dom (node_mem h) - fst ` set xs" "same_except (fst ` set xs) h h'"
      "next_addr h' = next_addr h" by auto
  have "esif_link_list_free_data_and_destroy (Some l) f h = Some (h', map (release_data f) (map snd xs))"
    using * by (simp add: esif_link_list_free_data_and_destroy_def esif_link_list_free_data_def)
  moreover have "other_lists_kept h h' (fst ` set xs)"
    by (rule other_lists_keptI [OF same_except_mono [OF *(3)] assms(2)]) blast
  ultimately show ?thesis using * heap_ok_after_remove [OF assms(2) *(2,4)] by blast
qed

theorem link_list_free_data_and_destroy_witness:
  "ll_rep ll_example_heap ll_example [(1, Some 10), (2, Some 30)] \<and>
   (\<exists>h'. esif_link_list_free_data_and_destroy (Some ll_example) True ll_example_heap
      = Some (h', [Destroyed (Some 10), Destroyed (Some 30)]) \<and> dom (node_mem h') = {3})"
proof -
  have "dom (node_mem ll_example_heap) - {1, 2} = {3}" by (auto simp: ll_example_heap_def)
  with link_list_free_data_and_destroy [OF ll_example_rep ll_example_ok, of True] ll_example_rep
  show ?thesis by (auto simp: release_data_def)
qed

end
