(* ===== verification/Interfaces.thy ===== *)
theory Interfaces
  imports Esif_Base
begin

text \<open>
  The contracts between components, as locales. Each fixes the operations a client calls and
  assumes the laws the provider promises; what clients need beyond single calls (runs of
  operations, interleavings, reachability) is proved once here, and every provider's theory
  interprets the locale on its own model.

  \<^item> \<open>step_system\<close>: an initial condition, a step relation and an invariant kept by both.
  \<^item> \<open>bounded_fifo\<close>: a queue of bounded capacity whose operations may fail.
  \<^item> \<open>codec\<close>: an encoder and a decoder that is its left inverse.
  \<^item> \<open>keyed_store\<close>: lookup after add and remove of a keyed collection.
  \<^item> \<open>simulation\<close>: operations that do to a represented state what a contract says of the abstract one;
    \<open>safe_simulation\<close> adds an invariant of the abstract state.
\<close>

section \<open>Step systems\<close>

locale step_system =
  fixes init :: "'s \<Rightarrow> bool" and step :: "'s \<Rightarrow> 's \<Rightarrow> bool" and inv :: "'s \<Rightarrow> bool"
  assumes init_inv: "init s \<Longrightarrow> inv s"
    and step_inv: "inv s \<Longrightarrow> step s t \<Longrightarrow> inv t"
begin

lemma reachable_inv:
  assumes "init s" "step\<^sup>*\<^sup>* s t"
  shows "inv t"
  using assms(2) init_inv [OF assms(1)]
  by (induction rule: rtranclp_induct) (auto intro: step_inv)

lemma steps_inv: "step\<^sup>*\<^sup>* s t \<Longrightarrow> inv s \<Longrightarrow> inv t"
  by (induction rule: rtranclp_induct) (auto intro: step_inv)

end

section \<open>Bounded queues\<close>

text \<open>A request to a queue, and a run of requests: what was accepted and what came out.\<close>

datatype 'x fifo_op = Enq 'x | Deq

fun fifo_run ::
    "('x \<Rightarrow> 's \<Rightarrow> (esif_rc \<times> 's) option) \<Rightarrow> ('s \<Rightarrow> ('x option \<times> 's) option)
     \<Rightarrow> 'x fifo_op list \<Rightarrow> 's \<Rightarrow> ('x list \<times> 'x list \<times> 's) option" where
  "fifo_run enq deq [] s = Some ([], [], s)"
| "fifo_run enq deq (Enq x # ops) s = do {
     (rc, s1) \<leftarrow> enq x s;
     (ins, outs, s2) \<leftarrow> fifo_run enq deq ops s1;
     Some (if rc = ESIF_OK then x # ins else ins, outs, s2) }"
| "fifo_run enq deq (Deq # ops) s = do {
     (y, s1) \<leftarrow> deq s;
     (ins, outs, s2) \<leftarrow> fifo_run enq deq ops s1;
     Some (ins, (case y of None \<Rightarrow> outs | Some v \<Rightarrow> v # outs), s2) }"

locale bounded_fifo =
  fixes inv :: "'s \<Rightarrow> 'x list \<Rightarrow> bool" and cap :: "'s \<Rightarrow> nat"
    and enq :: "'x \<Rightarrow> 's \<Rightarrow> (esif_rc \<times> 's) option"
    and deq :: "'s \<Rightarrow> ('x option \<times> 's) option"
  assumes enq_law: "inv s xs \<Longrightarrow> \<exists>rc s'. enq x s = Some (rc, s') \<and> cap s' = cap s
      \<and> (if rc = ESIF_OK then inv s' (xs @ [x]) else inv s' xs)"
    and deq_law: "inv s xs \<Longrightarrow> \<exists>s'. deq s = Some (case xs of [] \<Rightarrow> None | x # _ \<Rightarrow> Some x, s')
      \<and> inv s' (tl xs) \<and> cap s' = cap s"
    and cap_law: "inv s xs \<Longrightarrow> length xs \<le> cap s"
begin

text \<open>
  Whatever the interleaving of requests, what comes out is a prefix of what was in the queue
  followed by what was accepted, and the rest is still in the queue: nothing is lost,
  duplicated or reordered.
\<close>

lemma run_fifo:
  assumes "inv s xs"
  shows "\<exists>ins outs s' rest. fifo_run enq deq ops s = Some (ins, outs, s')
    \<and> xs @ ins = outs @ rest \<and> inv s' rest \<and> length rest \<le> cap s"
  using assms
proof (induction ops arbitrary: s xs)
  case Nil
  then show ?case using cap_law by auto
next
  case (Cons op ops)
  show ?case
  proof (cases op)
    case (Enq x)
    from enq_law [OF Cons.prems] obtain rc s1 where e: "enq x s = Some (rc, s1)" "cap s1 = cap s"
      "inv s1 (if rc = ESIF_OK then xs @ [x] else xs)" by (metis (full_types))
    from Cons.IH [OF e(3)] obtain ins outs s' rest where
      "fifo_run enq deq ops s1 = Some (ins, outs, s')"
      "(if rc = ESIF_OK then xs @ [x] else xs) @ ins = outs @ rest" "inv s' rest" "length rest \<le> cap s1"
      by blast
    with e Enq show ?thesis by (cases "rc = ESIF_OK") auto
  next
    case Deq
    from deq_law [OF Cons.prems] obtain s1 where
      d: "deq s = Some (case xs of [] \<Rightarrow> None | x # _ \<Rightarrow> Some x, s1)" "inv s1 (tl xs)" "cap s1 = cap s"
      by blast
    from Cons.IH [OF d(2)] obtain ins outs s' rest where
      "fifo_run enq deq ops s1 = Some (ins, outs, s')" "tl xs @ ins = outs @ rest" "inv s' rest"
      "length rest \<le> cap s1"
      by blast
    with d Deq show ?thesis by (cases xs) auto
  qed
qed

end

section \<open>Codecs\<close>

locale codec =
  fixes valid :: "'m \<Rightarrow> bool" and enc :: "'m \<Rightarrow> 'w option" and dec :: "'w \<Rightarrow> 'm option"
  assumes enc_total: "valid m \<Longrightarrow> \<exists>w. enc m = Some w"
    and dec_enc: "valid m \<Longrightarrow> enc m = Some w \<Longrightarrow> dec w = Some m"
begin

lemma enc_inj: "valid m \<Longrightarrow> valid m' \<Longrightarrow> enc m = enc m' \<Longrightarrow> m = m'"
  by (metis dec_enc enc_total option.inject)

lemma roundtrip: "valid m \<Longrightarrow> Option.bind (enc m) dec = Some m"
  using enc_total dec_enc by fastforce

end

section \<open>Keyed collections\<close>

text \<open>
  A collection in which the same key may be stored more than once: \<open>rep s m\<close> says that in
  state \<open>s\<close> the values stored under key \<open>k\<close> are \<open>m k\<close>, oldest first; a lookup finds the oldest
  one, a remove takes it out. A client sees a run of requests and what each returned;
  \<open>store_spec\<close> says which observations the abstract collection allows (whether an add
  succeeds depends on the allocator, everything else is determined).
\<close>

datatype ('k, 'v) store_op = StoreAdd 'k 'v | StoreDel 'k | StoreGet 'k

datatype 'v store_obs = ObsRc esif_rc | ObsItem "'v option"

fun op_key :: "('k, 'v) store_op \<Rightarrow> 'k" where
  "op_key (StoreAdd k v) = k" | "op_key (StoreDel k) = k" | "op_key (StoreGet k) = k"

fun store_spec :: "('k \<Rightarrow> 'v list) \<Rightarrow> ('k, 'v) store_op list \<Rightarrow> 'v store_obs list \<Rightarrow> bool" where
  "store_spec m [] [] \<longleftrightarrow> True"
| "store_spec m (StoreAdd k v # ops) (ObsRc rc # obs) \<longleftrightarrow>
     store_spec (if rc = ESIF_OK then m(k := m k @ [v]) else m) ops obs"
| "store_spec m (StoreDel k # ops) (ObsRc rc # obs) \<longleftrightarrow>
     rc = (if m k = [] then ESIF_E_NOT_FOUND else ESIF_OK) \<and> store_spec (m(k := tl (m k))) ops obs"
| "store_spec m (StoreGet k # ops) (ObsItem y # obs) \<longleftrightarrow>
     y = (case m k of [] \<Rightarrow> None | v # _ \<Rightarrow> Some v) \<and> store_spec m ops obs"
| "store_spec m _ _ \<longleftrightarrow> False"

fun store_run ::
    "('k \<Rightarrow> 'v \<Rightarrow> 's \<Rightarrow> (esif_rc \<times> 's) option) \<Rightarrow> ('k \<Rightarrow> 's \<Rightarrow> (esif_rc \<times> 's) option)
     \<Rightarrow> ('k \<Rightarrow> 's \<Rightarrow> 'v option option) \<Rightarrow> ('k, 'v) store_op list \<Rightarrow> 's \<Rightarrow> ('v store_obs list \<times> 's) option" where
  "store_run add del get [] s = Some ([], s)"
| "store_run add del get (StoreAdd k v # ops) s = do {
     (rc, s1) \<leftarrow> add k v s;
     (obs, s2) \<leftarrow> store_run add del get ops s1;
     Some (ObsRc rc # obs, s2) }"
| "store_run add del get (StoreDel k # ops) s = do {
     (rc, s1) \<leftarrow> del k s;
     (obs, s2) \<leftarrow> store_run add del get ops s1;
     Some (ObsRc rc # obs, s2) }"
| "store_run add del get (StoreGet k # ops) s = do {
     y \<leftarrow> get k s;
     (obs, s2) \<leftarrow> store_run add del get ops s;
     Some (ObsItem y # obs, s2) }"

locale keyed_store =
  fixes rep :: "'s \<Rightarrow> ('k \<Rightarrow> 'v list) \<Rightarrow> bool" and valid :: "'k \<Rightarrow> bool"
    and add :: "'k \<Rightarrow> 'v \<Rightarrow> 's \<Rightarrow> (esif_rc \<times> 's) option"
    and del :: "'k \<Rightarrow> 's \<Rightarrow> (esif_rc \<times> 's) option"
    and get :: "'k \<Rightarrow> 's \<Rightarrow> 'v option option"
  assumes add_law: "rep s m \<Longrightarrow> valid k \<Longrightarrow> \<exists>rc s'. add k v s = Some (rc, s')
      \<and> rep s' (if rc = ESIF_OK then m(k := m k @ [v]) else m)"
    and del_law: "rep s m \<Longrightarrow> valid k \<Longrightarrow>
      \<exists>s'. del k s = Some (if m k = [] then ESIF_E_NOT_FOUND else ESIF_OK, s')
        \<and> rep s' (m(k := tl (m k)))"
    and get_law: "rep s m \<Longrightarrow> valid k \<Longrightarrow>
      get k s = Some (case m k of [] \<Rightarrow> None | v # _ \<Rightarrow> Some v)"
begin

lemma run_store:
  assumes "rep s m" "\<forall>op\<in>set ops. valid (op_key op)"
  shows "\<exists>obs s' m'. store_run add del get ops s = Some (obs, s') \<and> store_spec m ops obs \<and> rep s' m'"
  using assms
proof (induction ops arbitrary: s m)
  case (Cons op ops)
  then have IH: "\<And>s m. rep s m \<Longrightarrow> \<exists>obs s' m'. store_run add del get ops s = Some (obs, s')
      \<and> store_spec m ops obs \<and> rep s' m'" by simp
  show ?case
  proof (cases op)
    case (StoreAdd k v)
    with Cons.prems add_law [of s m k v] obtain rc s1 where
      a: "add k v s = Some (rc, s1)" "rep s1 (if rc = ESIF_OK then m(k := m k @ [v]) else m)" by auto
    from IH [OF a(2)] a(1) StoreAdd show ?thesis by fastforce
  next
    case (StoreDel k)
    with Cons.prems del_law [of s m k] obtain s1 where
      d: "del k s = Some (if m k = [] then ESIF_E_NOT_FOUND else ESIF_OK, s1)"
        "rep s1 (m(k := tl (m k)))" by auto
    from IH [OF d(2)] d(1) StoreDel show ?thesis by fastforce
  next
    case (StoreGet k)
    with Cons.prems get_law [of s m k] IH [OF Cons.prems(1)] show ?thesis by fastforce
  qed
qed auto

end

section \<open>Simulations\<close>

text \<open>
  A run of requests and what each returned, of the detailed operations and of their contract. The contract is a
  relation: it may leave open what depends on memory or on a service. A request may presuppose something of the
  abstract state (\<open>valid\<close>); a run goes on until a request finds a state that it may not be made in.
\<close>

fun run_requests :: "('op \<Rightarrow> 's \<Rightarrow> ('o \<times> 's) option) \<Rightarrow> 'op list \<Rightarrow> 's \<Rightarrow> ('o list \<times> 's) option" where
  "run_requests step [] s = Some ([], s)"
| "run_requests step (op # ops) s = do {
     (out, s1) \<leftarrow> step op s;
     (outs, s2) \<leftarrow> run_requests step ops s1;
     Some (out # outs, s2) }"

fun spec_run :: "('op \<Rightarrow> 'a \<Rightarrow> 'o \<Rightarrow> 'a \<Rightarrow> bool) \<Rightarrow> 'op list \<Rightarrow> 'a \<Rightarrow> 'o list \<Rightarrow> 'a \<Rightarrow> bool" where
  "spec_run spec [] A outs A' \<longleftrightarrow> outs = [] \<and> A' = A"
| "spec_run spec (op # ops) A outs A' \<longleftrightarrow>
     (\<exists>out outs1 A1. outs = out # outs1 \<and> spec op A out A1 \<and> spec_run spec ops A1 outs1 A')"

locale simulation =
  fixes rep :: "'a \<Rightarrow> 's \<Rightarrow> bool" and valid :: "'op \<Rightarrow> 'a \<Rightarrow> bool"
    and step :: "'op \<Rightarrow> 's \<Rightarrow> ('o \<times> 's) option" and spec :: "'op \<Rightarrow> 'a \<Rightarrow> 'o \<Rightarrow> 'a \<Rightarrow> bool"
  assumes sim: "rep A s \<Longrightarrow> valid op A \<Longrightarrow> \<exists>out s' A'. step op s = Some (out, s') \<and> spec op A out A' \<and> rep A' s'"
begin

lemma run_refines:
  assumes "rep A s"
  shows "\<exists>ran rest outs s' A'. ops = ran @ rest \<and> run_requests step ran s = Some (outs, s') \<and> spec_run spec ran A outs A'
    \<and> rep A' s' \<and> (rest = [] \<or> \<not> valid (hd rest) A')"
  using assms
proof (induction ops arbitrary: s A)
  case Nil
  then show ?case by (intro exI [of _ "[]"] exI [of _ s] exI [of _ A]) simp
next
  case (Cons op ops)
  show ?case
  proof (cases "valid op A")
    case False
    with Cons.prems show ?thesis by (intro exI [of _ "[]"] exI [of _ "op # ops"] exI [of _ s] exI [of _ A]) simp
  next
    case True
    from sim [OF Cons.prems True] obtain out s1 A1 where
      st: "step op s = Some (out, s1)" "spec op A out A1" "rep A1 s1" by auto
    from Cons.IH [OF st(3)] obtain ran rest outs s2 A2 where
      "ops = ran @ rest" "run_requests step ran s1 = Some (outs, s2)" "spec_run spec ran A1 outs A2" "rep A2 s2"
      "rest = [] \<or> \<not> valid (hd rest) A2" by blast
    with st show ?thesis
      by (intro exI [of _ "op # ran"] exI [of _ rest] exI [of _ "out # outs"] exI [of _ s2] exI [of _ A2]) auto
  qed
qed

end

locale safe_simulation = simulation rep valid step spec
  for rep :: "'a \<Rightarrow> 's \<Rightarrow> bool" and valid :: "'op \<Rightarrow> 'a \<Rightarrow> bool"
    and step :: "'op \<Rightarrow> 's \<Rightarrow> ('o \<times> 's) option" and spec :: "'op \<Rightarrow> 'a \<Rightarrow> 'o \<Rightarrow> 'a \<Rightarrow> bool" +
  fixes safe :: "'op \<Rightarrow> bool" and inv :: "'a \<Rightarrow> bool"
  assumes safe_valid: "safe op \<Longrightarrow> inv A \<Longrightarrow> valid op A"
    and inv_spec: "safe op \<Longrightarrow> inv A \<Longrightarrow> spec op A out A' \<Longrightarrow> inv A'"
begin

lemma spec_run_inv: "\<forall>op\<in>set ops. safe op \<Longrightarrow> inv A \<Longrightarrow> spec_run spec ops A outs A' \<Longrightarrow> inv A'"
  by (induction ops arbitrary: A outs) (auto dest: inv_spec)

lemma run_safe:
  assumes "rep A s" "inv A" "\<forall>op\<in>set ops. safe op"
  shows "\<exists>outs s' A'. run_requests step ops s = Some (outs, s') \<and> spec_run spec ops A outs A' \<and> rep A' s' \<and> inv A'"
proof -
  from run_refines [OF assms(1), of ops] obtain ran rest outs s' A' where
    r: "ops = ran @ rest" "run_requests step ran s = Some (outs, s')" "spec_run spec ran A outs A'" "rep A' s'"
      "rest = [] \<or> \<not> valid (hd rest) A'" by blast
  have "inv A'" using r(1) assms(3) by (intro spec_run_inv [OF _ assms(2) r(3)]) simp
  moreover have "rest = []"
  proof (rule ccontr)
    assume "rest \<noteq> []"
    then have "safe (hd rest)" using r(1) assms(3) by (cases rest) simp_all
    then show False using r(5) \<open>rest \<noteq> []\<close> safe_valid \<open>inv A'\<close> by blast
  qed
  ultimately show ?thesis using r by auto
qed

end

end
