(* ===== verification/Esif_Queue.thy ===== *)
theory Esif_Queue
  imports Link_List Interfaces
begin

text \<open>
  The bounded queue of \<^verbatim>\<open>src/Common/esif_queue.c\<close>, built on the linked list. The struct is
  \<open>esif_queue_instance\<close>; its event object is reduced to the signalled flag, which decides
  whether a waiting reader may proceed. One definition per function follows, then the
  queue invariant, the refinement to a bounded sequence with the wake-up guarantee, and the
  interpretation of \<open>bounded_fifo\<close>.
\<close>

section \<open>State\<close>

record esif_queue_instance =
  ms_timeout :: u32
  max_size :: u32
  current_size :: u32
  event_signaled :: bool
  queue_list_ptr :: "esif_link_list option"
  queue_name :: string

abbreviation (input) ESIF_QUEUE_NAME_LEN :: nat where "ESIF_QUEUE_NAME_LEN \<equiv> 32"
abbreviation (input) ESIF_QUEUE_TIMEOUT_INFINITE :: u32 where "ESIF_QUEUE_TIMEOUT_INFINITE \<equiv> 0"

section \<open>Operations\<close>

definition esif_queue_dequeue ::
    "esif_queue_instance option \<Rightarrow> ('d, 'z) ll_heap_scheme
     \<Rightarrow> ('d option \<times> esif_queue_instance option \<times> ('d, 'z) ll_heap_scheme) option" where
  "esif_queue_dequeue self h =
     (case self of
        None \<Rightarrow> Some (None, self, h)
      | Some q \<Rightarrow>
          (case queue_list_ptr q of
             None \<Rightarrow> Some (None, self, h)
           | Some l \<Rightarrow>
               (case head_ptr l of
                  None \<Rightarrow> Some (None, Some (q\<lparr>current_size := 0, event_signaled := False\<rparr>), h)
                | Some a \<Rightarrow> do {
                    n \<leftarrow> deref h (Some a);
                    (l', h') \<leftarrow> esif_link_list_node_remove (Some l) (Some a) h;
                    let q' = q\<lparr>queue_list_ptr := l', current_size := current_size q - 1\<rparr> in
                    Some (data_ptr n,
                          Some (if current_size q' = 0 then q'\<lparr>event_signaled := False\<rparr> else q'),
                          h')
                  })))"

text \<open>
  Destruction hands every dequeued item to the callback (if there is one) until a dequeue
  returns \<^verbatim>\<open>NULL\<close>, then frees the list header and the queue. The result is the heap and the
  items the callback was called on.
\<close>

partial_function (option) queue_drain ::
    "bool \<Rightarrow> esif_queue_instance \<Rightarrow> ('d, 'z) ll_heap_scheme \<Rightarrow> 'd list
     \<Rightarrow> (('d, 'z) ll_heap_scheme \<times> 'd list) option" where
  "queue_drain has_destroy_func q h destroyed = do {
     (d, q', h') \<leftarrow> esif_queue_dequeue (Some q) h;
     (case d of
        None \<Rightarrow> Some (h', destroyed)
      | Some x \<Rightarrow> queue_drain has_destroy_func (the q') h'
                    (if has_destroy_func then destroyed @ [x] else destroyed))
   }"

definition esif_queue_destroy ::
    "esif_queue_instance option \<Rightarrow> bool \<Rightarrow> ('d, 'z) ll_heap_scheme
     \<Rightarrow> (('d, 'z) ll_heap_scheme \<times> 'd list) option" where
  "esif_queue_destroy self has_destroy_func h =
     (case self of None \<Rightarrow> Some (h, []) | Some q \<Rightarrow> queue_drain has_destroy_func q h [])"

definition esif_queue_create ::
    "u32 \<Rightarrow> string \<Rightarrow> u32 \<Rightarrow> ('d, 'z) ll_heap_scheme
     \<Rightarrow> (esif_queue_instance option \<times> ('d, 'z) ll_heap_scheme) option" where
  "esif_queue_create depth name timeout h =
     (case esif_ccb_malloc h of
        (None, h1) \<Rightarrow> do { (h2, _) \<leftarrow> esif_queue_destroy None False h1; Some (None, h2) }
      | (Some _, h1) \<Rightarrow>
          let q = \<lparr>ms_timeout = timeout, max_size = depth, current_size = 0,
                   event_signaled = False, queue_list_ptr = None,
                   queue_name = take (ESIF_QUEUE_NAME_LEN - 1) name\<rparr> in
          (case esif_link_list_create h1 of
             (None, h2) \<Rightarrow> do { (h3, _) \<leftarrow> esif_queue_destroy (Some q) False h2; Some (None, h3) }
           | (Some l, h2) \<Rightarrow> Some (Some (q\<lparr>queue_list_ptr := Some l\<rparr>), h2)))"

definition esif_queue_enqueue ::
    "esif_queue_instance option \<Rightarrow> 'd option \<Rightarrow> ('d, 'z) ll_heap_scheme
     \<Rightarrow> (esif_rc \<times> esif_queue_instance option \<times> ('d, 'z) ll_heap_scheme) option" where
  "esif_queue_enqueue self d h =
     (case self of
        None \<Rightarrow> Some (ESIF_E_NO_MEMORY, self, h)
      | Some q \<Rightarrow>
          if max_size q \<le> current_size q then Some (ESIF_E_NO_MEMORY, self, h)
          else do {
            (rc, l', h') \<leftarrow> esif_link_list_add_at_back (queue_list_ptr q) d h;
            if rc \<noteq> ESIF_OK then Some (rc, Some (q\<lparr>queue_list_ptr := l'\<rparr>), h')
            else Some (ESIF_OK,
                   Some (q\<lparr>queue_list_ptr := l', current_size := current_size q + 1,
                           event_signaled := True\<rparr>), h')
          })"

definition esif_queue_signal_event :: "esif_queue_instance option \<Rightarrow> esif_queue_instance option" where
  "esif_queue_signal_event self = map_option (\<lambda>q. q\<lparr>event_signaled := True\<rparr>) self"

definition esif_queue_requeue ::
    "esif_queue_instance option \<Rightarrow> 'd option \<Rightarrow> ('d, 'z) ll_heap_scheme
     \<Rightarrow> (esif_rc \<times> esif_queue_instance option \<times> ('d, 'z) ll_heap_scheme) option" where
  "esif_queue_requeue self d h =
     (case self of
        None \<Rightarrow> Some (ESIF_E_NO_MEMORY, self, h)
      | Some q \<Rightarrow>
          if max_size q \<le> current_size q then Some (ESIF_E_NO_MEMORY, self, h)
          else (case esif_link_list_create_node d h of
             (None, h1) \<Rightarrow> Some (ESIF_E_NO_MEMORY, self, h1)
           | (Some a, h1) \<Rightarrow> do {
               (l', h2) \<leftarrow> esif_link_list_add_node_at_front (queue_list_ptr q) (Some a) h1;
               Some (ESIF_OK,
                 esif_queue_signal_event
                   (Some (q\<lparr>queue_list_ptr := l', current_size := current_size q + 1\<rparr>)), h2)
             }))"

text \<open>
  \<^verbatim>\<open>esif_queue_pull\<close> first waits. With an infinite timeout it proceeds only when the event is
  signalled (\<open>Blocked\<close> otherwise); with a finite one it proceeds when the event is signalled
  or the time is up, and dequeues in both cases.
\<close>

datatype 'd pulled = Blocked | Pulled "'d option"

definition esif_queue_pull ::
    "esif_queue_instance option \<Rightarrow> ('d, 'z) ll_heap_scheme
     \<Rightarrow> ('d pulled \<times> esif_queue_instance option \<times> ('d, 'z) ll_heap_scheme) option" where
  "esif_queue_pull self h =
     (case self of
        None \<Rightarrow> Some (Pulled None, self, h)
      | Some q \<Rightarrow>
          if ms_timeout q = ESIF_QUEUE_TIMEOUT_INFINITE \<and> \<not> event_signaled q
          then Some (Blocked, self, h)
          else do {
            (d, q', h') \<leftarrow> esif_queue_dequeue self h;
            Some (Pulled d, q', h') })"

definition esif_queue_size :: "esif_queue_instance option \<Rightarrow> u32" where
  "esif_queue_size self = (case self of None \<Rightarrow> 0 | Some q \<Rightarrow> current_size q)"

section \<open>Invariant and refinement\<close>

text \<open>
  The queue represents the sequence \<open>xs\<close> of data: its list does, its size counter is the
  length of the sequence, the capacity is respected, and a non-empty queue has its event
  signalled, so that no reader sleeps while there is work.
\<close>

definition queue_inv ::
    "esif_queue_instance \<Rightarrow> ('d, 'z) ll_heap_scheme \<Rightarrow> 'd option list \<Rightarrow> bool" where
  "queue_inv q h xs \<longleftrightarrow>
     heap_ok h
     \<and> (\<exists>l ns. queue_list_ptr q = Some l \<and> ll_rep h l ns \<and> map snd ns = xs)
     \<and> unat (current_size q) = length xs \<and> length xs \<le> unat (max_size q)
     \<and> (xs \<noteq> [] \<longrightarrow> event_signaled q)"

lemma queue_inv_listE:
  assumes "queue_inv q h xs"
  obtains l ns where "queue_list_ptr q = Some l" "ll_rep h l ns" "map snd ns = xs" "heap_ok h"
  using assms by (auto simp: queue_inv_def)

lemma enqueue_full:
  assumes "queue_inv q h xs" "length xs = unat (max_size q)"
  shows "esif_queue_enqueue (Some q) d h = Some (ESIF_E_NO_MEMORY, Some q, h)"
  using assms by (auto simp: esif_queue_enqueue_def queue_inv_def word_le_nat_alt)

lemma size_plus_1:
  assumes "queue_inv q h xs" "length xs \<noteq> unat (max_size q)"
  shows "\<not> max_size q \<le> current_size q" "unat (current_size q + 1) = Suc (length xs)"
    "Suc (length xs) \<le> unat (max_size q)"
proof -
  have lt: "length xs < unat (max_size q)" using assms by (auto simp: queue_inv_def)
  then show "\<not> max_size q \<le> current_size q" "Suc (length xs) \<le> unat (max_size q)"
    using assms by (auto simp: queue_inv_def word_le_nat_alt)
  have "Suc (unat (current_size q)) < 2 ^ LENGTH(32)"
    using lt assms(1) unat_less_2p [of "max_size q"] by (simp add: queue_inv_def)
  then show "unat (current_size q + 1) = Suc (length xs)"
    using assms(1) by (simp add: unat_plus_1 queue_inv_def)
qed

lemma enqueue_refines:
  assumes "queue_inv q h xs"
  shows "\<exists>rc q' h'. esif_queue_enqueue (Some q) d h = Some (rc, Some q', h') \<and> max_size q' = max_size q
    \<and> rc = (if length xs < unat (max_size q) \<and> alloc_ok h (next_addr h) then ESIF_OK else ESIF_E_NO_MEMORY)
    \<and> queue_inv q' h' (if rc = ESIF_OK then xs @ [d] else xs)"
proof (cases "length xs = unat (max_size q)")
  case True
  with enqueue_full [OF assms True, of d] assms show ?thesis by auto
next
  case False
  note sz = size_plus_1 [OF assms False]
  from assms obtain l ns where l: "queue_list_ptr q = Some l" "ll_rep h l ns" "map snd ns = xs" "heap_ok h"
    by (rule queue_inv_listE)
  from add_at_back_rep [OF l(2,4), of d] obtain rc l' h' where
    a: "esif_link_list_add_at_back (Some l) d h = Some (rc, Some l', h')" "heap_ok h'"
      "if alloc_ok h (next_addr h) then rc = ESIF_OK \<and> ll_rep h' l' (ns @ [(next_addr h, d)])
       else rc = ESIF_E_NO_MEMORY \<and> l' = l \<and> ll_rep h' l ns \<and> node_mem h' = node_mem h" by blast
  show ?thesis
  proof (cases "alloc_ok h (next_addr h)")
    case True
    with a sz l assms show ?thesis by (auto simp: esif_queue_enqueue_def queue_inv_def)
  next
    case False
    with a sz l assms show ?thesis by (auto simp: esif_queue_enqueue_def queue_inv_def)
  qed
qed

lemma requeue_add_at_front:
  assumes "queue_list_ptr q = Some l" "\<not> max_size q \<le> current_size q"
  shows "esif_queue_requeue (Some q) d h = do {
     (rc, l', h') \<leftarrow> esif_link_list_add_at_front (Some l) d h;
     if rc = ESIF_OK
     then Some (ESIF_OK, Some (q\<lparr>queue_list_ptr := l', current_size := current_size q + 1,
                                  event_signaled := True\<rparr>), h')
     else Some (ESIF_E_NO_MEMORY, Some q, h') }"
proof (cases "esif_link_list_create_node d h")
  case (Pair p h1)
  show ?thesis
  proof (cases p)
    case None
    with Pair assms show ?thesis
      by (simp add: esif_queue_requeue_def esif_link_list_add_at_front_def)
  next
    case (Some a)
    with Pair assms show ?thesis
      by (cases "esif_link_list_add_node_at_front (Some l) (Some a) h1")
        (auto simp: esif_queue_requeue_def esif_link_list_add_at_front_def esif_queue_signal_event_def)
  qed
qed

lemma requeue_refines:
  assumes "queue_inv q h xs"
  shows "\<exists>rc q' h'. esif_queue_requeue (Some q) d h = Some (rc, Some q', h') \<and> max_size q' = max_size q
    \<and> rc = (if length xs < unat (max_size q) \<and> alloc_ok h (next_addr h) then ESIF_OK else ESIF_E_NO_MEMORY)
    \<and> queue_inv q' h' (if rc = ESIF_OK then d # xs else xs)"
proof (cases "length xs = unat (max_size q)")
  case True
  with assms show ?thesis by (auto simp: esif_queue_requeue_def queue_inv_def word_le_nat_alt)
next
  case False
  note sz = size_plus_1 [OF assms False]
  from assms obtain l ns where l: "queue_list_ptr q = Some l" "ll_rep h l ns" "map snd ns = xs" "heap_ok h"
    by (rule queue_inv_listE)
  from add_at_front_rep [OF l(2,4), of d] obtain rc l' h' where
    a: "esif_link_list_add_at_front (Some l) d h = Some (rc, Some l', h')" "heap_ok h'"
      "if alloc_ok h (next_addr h) then rc = ESIF_OK \<and> ll_rep h' l' ((next_addr h, d) # ns)
       else rc = ESIF_E_NO_MEMORY \<and> l' = l \<and> ll_rep h' l ns \<and> node_mem h' = node_mem h" by blast
  show ?thesis
  proof (cases "alloc_ok h (next_addr h)")
    case True
    with a sz l assms show ?thesis by (auto simp: requeue_add_at_front queue_inv_def)
  next
    case False
    with a sz l assms show ?thesis by (auto simp: requeue_add_at_front queue_inv_def)
  qed
qed

lemma dequeue_nodes:
  assumes "queue_inv q h xs" "queue_list_ptr q = Some l" "ll_rep h l ns" "map snd ns = xs"
  shows "\<exists>q' h' l'. esif_queue_dequeue (Some q) h = Some (case xs of [] \<Rightarrow> None | x # _ \<Rightarrow> x, Some q', h')
    \<and> max_size q' = max_size q \<and> queue_inv q' h' (tl xs)
    \<and> queue_list_ptr q' = Some l' \<and> ll_rep h' l' (tl ns)
    \<and> dom (node_mem h') = dom (node_mem h) - fst ` set (take 1 ns)"
proof (cases ns)
  case Nil
  with assms have "head_ptr l = None" by (simp add: ll_rep_head_None)
  with Nil assms show ?thesis by (auto simp: esif_queue_dequeue_def queue_inv_def)
next
  case (Cons n ns')
  have ok: "heap_ok h" using assms(1) by (simp add: queue_inv_def)
  obtain a d where n: "n = (a, d)" by (cases n)
  with assms Cons obtain nd where hd: "head_ptr l = Some a" "node_mem h a = Some nd" "data_ptr nd = d"
    by (auto dest: ll_rep_Cons)
  from node_remove_rep [of h l "[]" a d ns'] assms Cons n obtain l' h' where
    r: "esif_link_list_node_remove (Some l) (Some a) h = Some (Some l', h')" "ll_rep h' l' ns'"
      "dom (node_mem h') = dom (node_mem h) - {a}" "next_addr h' = next_addr h" by auto
  have "heap_ok h'" by (rule heap_ok_after_remove [OF ok r(3,4)])
  moreover have "current_size q \<noteq> 0" "length xs = Suc (length ns')"
    using assms Cons by (auto simp: queue_inv_def)
  moreover from this have "unat (current_size q - 1) = length ns'"
    using assms by (simp add: unat_minus_1 queue_inv_def)
  ultimately show ?thesis using assms Cons n hd r
    by (auto simp: esif_queue_dequeue_def queue_inv_def Let_def unat_eq_zero)
qed

lemma dequeue_refines:
  assumes "queue_inv q h xs"
  shows "\<exists>q' h'. esif_queue_dequeue (Some q) h = Some (case xs of [] \<Rightarrow> None | x # _ \<Rightarrow> x, Some q', h')
    \<and> max_size q' = max_size q \<and> queue_inv q' h' (tl xs)"
  using queue_inv_listE [OF assms] dequeue_nodes [OF assms] by metis

text \<open>The queue operations allocate, but never change which allocations succeed.\<close>

lemma enqueue_alloc:
  assumes "queue_inv q h xs" "esif_queue_enqueue (Some q) d h = Some (rc, q', h')"
  shows "alloc_ok h' = alloc_ok h"
proof -
  from assms(1) obtain l ns where l: "queue_list_ptr q = Some l" "ll_rep h l ns" "heap_ok h" by (rule queue_inv_listE)
  from add_at_back_rep [OF l(2,3), of d] assms(2) l(1) show ?thesis
    by (auto simp: esif_queue_enqueue_def split: if_splits)
qed

lemma requeue_alloc:
  assumes "queue_inv q h xs" "esif_queue_requeue (Some q) d h = Some (rc, q', h')"
  shows "alloc_ok h' = alloc_ok h"
proof (cases "max_size q \<le> current_size q")
  case True
  with assms(2) show ?thesis by (simp add: esif_queue_requeue_def)
next
  case False
  from assms(1) obtain l ns where l: "queue_list_ptr q = Some l" "ll_rep h l ns" "heap_ok h" by (rule queue_inv_listE)
  from add_at_front_rep [OF l(2,3), of d] assms(2) [unfolded requeue_add_at_front [OF l(1) False]] show ?thesis
    by (auto split: if_splits)
qed

lemma dequeue_alloc:
  assumes "queue_inv q h xs" "esif_queue_dequeue (Some q) h = Some (d, q', h')"
  shows "alloc_ok h' = alloc_ok h"
proof -
  from assms(1) obtain l ns where l: "queue_list_ptr q = Some l" "ll_rep h l ns" by (rule queue_inv_listE)
  show ?thesis
  proof (cases ns)
    case Nil
    with l(2) have "head_ptr l = None" by (simp add: ll_rep_head_None)
    with l assms(2) show ?thesis by (auto simp: esif_queue_dequeue_def)
  next
    case (Cons n ns')
    then obtain a e where n: "ns = [] @ (a, e) # ns'" by (cases n) auto
    with l(2) have "head_ptr l = Some a" using ll_rep_Cons by fastforce
    with node_remove_rep [OF l(2) [unfolded n]] assms(2) l(1) show ?thesis
      by (auto simp: esif_queue_dequeue_def Let_def elim!: bind_eq_SomeE)
  qed
qed

section \<open>Creation, waiting and destruction\<close>

lemma create_refines:
  assumes "heap_ok h"
  shows "\<exists>qo h'. esif_queue_create depth name timeout h = Some (qo, h') \<and> heap_ok h'
    \<and> (\<forall>q. qo = Some q \<longrightarrow> queue_inv q h' [] \<and> max_size q = depth \<and> ms_timeout q = timeout)"
proof -
  have ok: "heap_ok (h\<lparr>next_addr := Suc (next_addr h)\<rparr>)"
      "heap_ok (h\<lparr>next_addr := Suc (Suc (next_addr h))\<rparr>)"
    using assms by (auto simp: heap_ok_def less_Suc_eq)
  have drain: "queue_drain False q h2 [] = Some (h2, [])" if "queue_list_ptr q = None" for q h2
    using that by (subst queue_drain.simps) (simp add: esif_queue_dequeue_def)
  show ?thesis using ok
    by (auto simp: esif_queue_create_def esif_ccb_malloc_def esif_queue_destroy_def Let_def drain
        esif_link_list_create_def queue_inv_def ll_rep_def)
qed

lemma pull_refines:
  assumes "queue_inv q h xs"
  shows "if xs = [] \<and> ms_timeout q = ESIF_QUEUE_TIMEOUT_INFINITE \<and> \<not> event_signaled q
    then esif_queue_pull (Some q) h = Some (Blocked, Some q, h)
    else \<exists>q' h'. esif_queue_pull (Some q) h
           = Some (Pulled (case xs of [] \<Rightarrow> None | x # _ \<Rightarrow> x), Some q', h')
         \<and> max_size q' = max_size q \<and> queue_inv q' h' (tl xs)"
proof -
  have "xs \<noteq> [] \<Longrightarrow> event_signaled q" using assms by (simp add: queue_inv_def)
  with dequeue_refines [OF assms] show ?thesis by (auto simp: esif_queue_pull_def)
qed

lemma queue_drain_refines:
  assumes "queue_inv q h (map Some xs)" "queue_list_ptr q = Some l" "ll_rep h l ns"
    "map snd ns = map Some xs"
  shows "\<exists>h'. queue_drain f q h acc = Some (h', if f then acc @ xs else acc)
    \<and> dom (node_mem h') = dom (node_mem h) - fst ` set ns"
  using assms
proof (induction xs arbitrary: q h acc l ns)
  case Nil
  with dequeue_nodes [OF Nil] show ?case by (subst queue_drain.simps) auto
next
  case (Cons x xs)
  then obtain n ns' where ns: "ns = n # ns'" "map snd ns' = map Some xs" by (cases ns) auto
  from dequeue_nodes [OF Cons.prems] ns obtain q' h' l' where
    d: "esif_queue_dequeue (Some q) h = Some (Some x, Some q', h')" "queue_inv q' h' (map Some xs)"
      "queue_list_ptr q' = Some l'" "ll_rep h' l' ns'" "dom (node_mem h') = dom (node_mem h) - {fst n}"
    by auto
  from Cons.IH [OF d(2-4) ns(2), of "if f then acc @ [x] else acc"] d(1,5) ns(1) show ?case
    by (subst queue_drain.simps) (auto split: if_splits)
qed

section \<open>The queue as a bounded FIFO\<close>

definition fifo_inv :: "esif_queue_instance \<times> ('d, 'z) ll_heap_scheme \<Rightarrow> 'd list \<Rightarrow> bool" where
  "fifo_inv s xs = (case s of (q, h) \<Rightarrow> queue_inv q h (map Some xs))"

definition fifo_cap :: "esif_queue_instance \<times> ('d, 'z) ll_heap_scheme \<Rightarrow> nat" where
  "fifo_cap s = unat (max_size (fst s))"

definition fifo_enq ::
    "'d \<Rightarrow> esif_queue_instance \<times> ('d, 'z) ll_heap_scheme
     \<Rightarrow> (esif_rc \<times> esif_queue_instance \<times> ('d, 'z) ll_heap_scheme) option" where
  "fifo_enq x s = do {
     (rc, q', h') \<leftarrow> esif_queue_enqueue (Some (fst s)) (Some x) (snd s); q'' \<leftarrow> q'; Some (rc, q'', h') }"

definition fifo_deq ::
    "esif_queue_instance \<times> ('d, 'z) ll_heap_scheme
     \<Rightarrow> ('d option \<times> esif_queue_instance \<times> ('d, 'z) ll_heap_scheme) option" where
  "fifo_deq s = do {
     (d, q', h') \<leftarrow> esif_queue_dequeue (Some (fst s)) (snd s); q'' \<leftarrow> q'; Some (d, q'', h') }"

lemmas fifo_defs = fifo_inv_def fifo_cap_def fifo_enq_def fifo_deq_def

interpretation esif_fifo: bounded_fifo fifo_inv fifo_cap fifo_enq fifo_deq
proof (unfold_locales, goal_cases)
  case (1 s xs x)
  obtain q h where s: "s = (q, h)" by (cases s)
  with 1 enqueue_refines [of q h "map Some xs" "Some x"] show ?case
    by (auto simp: fifo_defs split: if_splits)
next
  case (2 s xs)
  obtain q h where s: "s = (q, h)" by (cases s)
  with 2 dequeue_refines [of q h "map Some xs"] show ?case
    by (auto simp: fifo_defs map_tl split: list.splits)
next
  case (3 s xs)
  then show ?case by (auto simp: fifo_defs queue_inv_def split: prod.splits)
qed

section \<open>Interleavings of the queue's users\<close>

text \<open>
  Any thread may enqueue, requeue, pull or signal at any time; every call is one critical
  section. A thread that is \<open>Blocked\<close> does not step.
\<close>

inductive queue_step ::
    "esif_queue_instance \<times> ('d, 'z) ll_heap_scheme \<Rightarrow> esif_queue_instance \<times> ('d, 'z) ll_heap_scheme \<Rightarrow> bool"
where
  step_enqueue: "esif_queue_enqueue (Some q) d h = Some (rc, Some q', h') \<Longrightarrow> queue_step (q, h) (q', h')"
| step_requeue: "esif_queue_requeue (Some q) d h = Some (rc, Some q', h') \<Longrightarrow> queue_step (q, h) (q', h')"
| step_pull: "esif_queue_pull (Some q) h = Some (Pulled d, Some q', h') \<Longrightarrow> queue_step (q, h) (q', h')"
| step_signal: "esif_queue_signal_event (Some q) = Some q' \<Longrightarrow> queue_step (q, h) (q', h)"

lemma queue_step_inv:
  assumes "queue_inv (fst s) (snd s) xs" "queue_step s t"
  shows "\<exists>ys. queue_inv (fst t) (snd t) ys"
  using assms(2)
proof (cases rule: queue_step.cases)
  case (step_enqueue q d h rc q' h')
  with enqueue_refines [of q h xs d] assms(1) show ?thesis by auto
next
  case (step_requeue q d h rc q' h')
  with requeue_refines [of q h xs d] assms(1) show ?thesis by auto
next
  case (step_pull q h d q' h')
  with pull_refines [of q h xs] assms(1) show ?thesis by (auto split: if_splits)
next
  case step_signal
  with assms(1) have "queue_inv (fst t) (snd t) xs"
    by (auto simp: esif_queue_signal_event_def queue_inv_def)
  then show ?thesis ..
qed

definition queue_created :: "esif_queue_instance \<times> ('d, 'z) ll_heap_scheme \<Rightarrow> bool" where
  "queue_created = (\<lambda>(q, h). \<exists>depth name timeout h0.
     heap_ok h0 \<and> esif_queue_create depth name timeout h0 = Some (Some q, h))"

lemma queue_created_inv:
  assumes "queue_created s"
  shows "queue_inv (fst s) (snd s) []"
proof -
  from assms obtain depth name timeout h0 where
    "heap_ok h0" "esif_queue_create depth name timeout h0 = Some (Some (fst s), snd s)"
    by (auto simp: queue_created_def split: prod.splits)
  with create_refines [of h0 depth name timeout] show ?thesis by auto
qed

interpretation esif_queue_sys:
  step_system queue_created queue_step "\<lambda>s. \<exists>xs. queue_inv (fst s) (snd s) xs"
  by unfold_locales (use queue_created_inv queue_step_inv in blast)+

section \<open>Properties\<close>

text \<open>
  C12. Any sequence of \<^verbatim>\<open>esif_queue_enqueue\<close> and \<^verbatim>\<open>esif_queue_dequeue\<close> calls terminates without a
  memory error, and what comes out is, in order, a prefix of what was queued before followed
  by what was accepted; the rest is still queued and never exceeds \<^verbatim>\<open>max_size\<close>.
\<close>

theorem queue_fifo_order:
  assumes "queue_inv q h (map Some xs)"
  shows "\<exists>ins outs q' h' rest. fifo_run fifo_enq fifo_deq ops (q, h) = Some (ins, outs, q', h')
    \<and> xs @ ins = outs @ rest \<and> queue_inv q' h' (map Some rest) \<and> length rest \<le> unat (max_size q)"
  using esif_fifo.run_fifo [of "(q, h)" xs ops] assms by (auto simp: fifo_inv_def fifo_cap_def)

definition queue_example :: esif_queue_instance where
  "queue_example = \<lparr>ms_timeout = 0, max_size = 2, current_size = 2, event_signaled = True,
     queue_list_ptr = Some ll_example, queue_name = ''q''\<rparr>"

lemma queue_example_inv: "queue_inv queue_example ll_example_heap (map Some [10, 30])"
  using ll_example_rep ll_example_ok
  by (auto simp: queue_inv_def queue_example_def intro!: exI [of _ "[(1, Some 10), (2, Some 30)]"])

theorem queue_fifo_order_witness:
  "queue_inv queue_example ll_example_heap (map Some [10, 30]) \<and>
   (\<exists>ins outs q' h' rest. fifo_run fifo_enq fifo_deq [Enq 5, Deq, Enq 6, Deq] (queue_example, ll_example_heap)
      = Some (ins, outs, q', h') \<and> [10, 30] @ ins = outs @ rest \<and> length rest \<le> 2)"
  using queue_fifo_order [OF queue_example_inv, of "[Enq 5, Deq, Enq 6, Deq]"] queue_example_inv
  by (auto simp: queue_example_def)

text \<open>
  C10. No wake-up is lost: in every state reached from a freshly created queue by any
  interleaving of enqueue, requeue, pull and signal calls, a non-empty queue has its event
  signalled, and a pull by any thread returns the oldest item instead of blocking. This includes
  requeued items: a successful requeue signals the event and the next pull returns the item, although
  the comment on \<^verbatim>\<open>esif_queue_requeue\<close> says that it does not wake the waiting thread.
\<close>

theorem queue_no_lost_wakeup:
  assumes "queue_created s" "queue_step\<^sup>*\<^sup>* s (q, h)"
  shows "(esif_queue_size (Some q) \<noteq> 0 \<longrightarrow> event_signaled q \<and> (\<exists>x xs q' h'. queue_inv q h (x # xs)
      \<and> esif_queue_pull (Some q) h = Some (Pulled x, Some q', h') \<and> queue_inv q' h' xs))
    \<and> (\<forall>d q1 h1. esif_queue_requeue (Some q) d h = Some (ESIF_OK, Some q1, h1)
      \<longrightarrow> event_signaled q1 \<and> (\<exists>q2 h2. esif_queue_pull (Some q1) h1 = Some (Pulled d, Some q2, h2)))"
proof (intro conjI impI allI)
  assume size: "esif_queue_size (Some q) \<noteq> 0"
  from esif_queue_sys.reachable_inv [OF assms(1,2)] obtain xs where xs: "queue_inv q h xs" by auto
  with size obtain x ys where ys: "xs = x # ys"
    by (cases xs) (auto simp: queue_inv_def esif_queue_size_def unat_eq_zero)
  then show "event_signaled q" using xs by (simp add: queue_inv_def)
  from ys show "\<exists>x xs q' h'. queue_inv q h (x # xs)
      \<and> esif_queue_pull (Some q) h = Some (Pulled x, Some q', h') \<and> queue_inv q' h' xs"
    using pull_refines [OF xs] xs by auto
next
  fix d q1 h1 assume r: "esif_queue_requeue (Some q) d h = Some (ESIF_OK, Some q1, h1)"
  from esif_queue_sys.reachable_inv [OF assms] obtain xs where xs: "queue_inv q h xs" by auto
  from requeue_refines [OF xs, of d] r have inv: "queue_inv q1 h1 (d # xs)" by auto
  then show "event_signaled q1" by (simp add: queue_inv_def)
  from pull_refines [OF inv] show "\<exists>q2 h2. esif_queue_pull (Some q1) h1 = Some (Pulled d, Some q2, h2)" by auto
qed

definition empty_heap :: "nat ll_heap" where
  "empty_heap = \<lparr>next_addr = 0, alloc_ok = (\<lambda>_. True), node_mem = Map.empty\<rparr>"

definition fresh_queue :: esif_queue_instance where
  "fresh_queue = \<lparr>ms_timeout = 0, max_size = 1, current_size = 0, event_signaled = False,
     queue_list_ptr = Some \<lparr>head_ptr = None, tail_ptr = None, nodes = 0\<rparr>, queue_name = ''q''\<rparr>"

lemma fresh_queue_created: "queue_created (fresh_queue, empty_heap\<lparr>next_addr := 2\<rparr>)"
  unfolding queue_created_def
  by (simp, intro exI [of _ 1] exI [of _ "''q''"] exI [of _ 0] exI [of _ empty_heap])
    (simp add: esif_queue_create_def empty_heap_def fresh_queue_def esif_ccb_malloc_def
      esif_link_list_create_def heap_ok_def)

theorem queue_no_lost_wakeup_witness:
  "\<exists>q h x xs q' h'. queue_created (fresh_queue, empty_heap\<lparr>next_addr := 2\<rparr>)
     \<and> queue_step (fresh_queue, empty_heap\<lparr>next_addr := 2\<rparr>) (q, h) \<and> esif_queue_size (Some q) = 1
     \<and> queue_inv q h (x # xs) \<and> esif_queue_pull (Some q) h = Some (Pulled x, Some q', h')"
proof -
  let ?h = "empty_heap\<lparr>next_addr := 2\<rparr>"
  have inv: "queue_inv fresh_queue ?h []" using queue_created_inv [OF fresh_queue_created] by simp
  from enqueue_refines [OF inv, of "Some 7"] obtain q h where
    e: "esif_queue_enqueue (Some fresh_queue) (Some 7) ?h = Some (ESIF_OK, Some q, h)" "queue_inv q h [Some 7]"
    by (auto simp: fresh_queue_def empty_heap_def)
  then have step: "queue_step (fresh_queue, ?h) (q, h)" by (blast intro: step_enqueue)
  have "unat (current_size q) = 1" using e(2) by (simp add: queue_inv_def)
  then have sz: "esif_queue_size (Some q) = 1" by (simp add: esif_queue_size_def word_unat_eq_iff)
  with queue_no_lost_wakeup [OF fresh_queue_created r_into_rtranclp [of queue_step, OF step]] step fresh_queue_created
  show ?thesis by fastforce
qed

text \<open>
  Destroying a queue (\<^verbatim>\<open>esif_queue_destroy\<close>) that holds no \<^verbatim>\<open>NULL\<close> item terminates, calls the
  destroy function exactly once on every queued item, oldest first, and leaves no node of the
  queue in memory.
\<close>

theorem queue_destroy_releases_all:
  assumes "queue_inv q h (map Some xs)"
  shows "\<exists>h' l ns. esif_queue_destroy (Some q) True h = Some (h', xs)
    \<and> queue_list_ptr q = Some l \<and> ll_rep h l ns
    \<and> dom (node_mem h') = dom (node_mem h) - fst ` set ns"
proof -
  from assms obtain l ns where
    l: "queue_list_ptr q = Some l" "ll_rep h l ns" "map snd ns = map Some xs"
    by (rule queue_inv_listE)
  from queue_drain_refines [OF assms l, of True "[]"] l show ?thesis
    by (auto simp: esif_queue_destroy_def)
qed

theorem queue_destroy_releases_all_witness:
  "queue_inv queue_example ll_example_heap (map Some [10, 30]) \<and>
   (\<exists>h'. esif_queue_destroy (Some queue_example) True ll_example_heap = Some (h', [10, 30]))"
  using queue_destroy_releases_all [OF queue_example_inv] queue_example_inv by auto

end
