(* ===== verification/Hash_Table.thy ===== *)
theory Hash_Table
  imports Link_List Interfaces
begin

text \<open>
  The hash table of \<^verbatim>\<open>src/ESIF/Products/ESIF_CM/Sources/esif_hash_table.c\<close>: an array of linked lists
  of \<open>esif_ht_node\<close>s, indexed by an FNV hash of the key. A key is a byte buffer with a separate
  32-bit length; a read past the end of a buffer, a division by a zero table size and an index
  outside the array are undefined (\<open>None\<close>). A hash node is owned by exactly one list node, so it
  is modelled as the data of that node; the two allocations that create it (node and key copy)
  still draw on the allocator, and its release (\<^verbatim>\<open>esif_destroy_ht_node\<close>) is no step of its own: the
  data is gone with the list node, or, in the loop that destroys a whole list, cleared from it. The properties show that the table behaves as a map from keys to
  the sequence of values stored under them, whatever the hash collisions.
\<close>

section \<open>State\<close>

record 'v esif_ht_node =
  key_ptr :: "u8 list option"
  key_length :: u32
  item_ptr :: "'v option"

record esif_ht =
  ht_size :: u32
  table :: "esif_link_list option list"

type_synonym ('v, 'z) ht_heap = "('v esif_ht_node, 'z) ll_heap_scheme"

section \<open>Operations\<close>

abbreviation (input) FNV_PRIME :: u32 where "FNV_PRIME \<equiv> 16777619"

definition esif_compute_hash :: "u8 list \<Rightarrow> u32 \<Rightarrow> u32 option" where
  "esif_compute_hash data len =
     (if unat len \<le> length data
      then Some (foldl (\<lambda>hash_value b. (hash_value XOR ucast b) * FNV_PRIME) 0 (take (unat len) data))
      else None)"

definition esif_cmp_keys :: "u8 list option \<Rightarrow> u32 \<Rightarrow> u8 list option \<Rightarrow> u32 \<Rightarrow> bool option" where
  "esif_cmp_keys key1 len1 key2 len2 =
     (case (key1, key2) of
        (Some k1, Some k2) \<Rightarrow>
          if len1 \<noteq> len2 then Some False
          else if unat len1 \<le> length k1 \<and> unat len1 \<le> length k2
          then Some (take (unat len1) k1 = take (unat len1) k2)
          else None
      | _ \<Rightarrow> Some False)"

text \<open>The list of a key, with its index in the table.\<close>

definition esif_ht_get_ll :: "esif_ht \<Rightarrow> u8 list \<Rightarrow> u32 \<Rightarrow> (nat \<times> esif_link_list option) option" where
  "esif_ht_get_ll self key len = do {
     hash \<leftarrow> esif_compute_hash key len;
     if ht_size self = 0 then None
     else let hash_index = unat (hash mod ht_size self) in
       if hash_index < length (table self) then Some (hash_index, table self ! hash_index) else None
   }"

partial_function (option) find_node_loop ::
    "u8 list \<Rightarrow> u32 \<Rightarrow> addr option \<Rightarrow> ('v, 'z) ht_heap \<Rightarrow> addr option option" where
  "find_node_loop key len cur h =
     (case cur of
        None \<Rightarrow> Some None
      | Some _ \<Rightarrow> do {
          n \<leftarrow> deref h cur;
          found \<leftarrow> (case data_ptr n of
                     None \<Rightarrow> Some False
                   | Some ht \<Rightarrow> esif_cmp_keys (Some key) len (key_ptr ht) (key_length ht));
          if found then Some cur else find_node_loop key len (next_ptr n) h
        })"

definition esif_find_node_in_ht_ll ::
    "esif_link_list \<Rightarrow> u8 list \<Rightarrow> u32 \<Rightarrow> ('v, 'z) ht_heap \<Rightarrow> addr option option" where
  "esif_find_node_in_ht_ll ll key len h = find_node_loop key len (head_ptr ll) h"

definition esif_ht_get_ht_node ::
    "esif_ht \<Rightarrow> u8 list \<Rightarrow> u32 \<Rightarrow> ('v, 'z) ht_heap \<Rightarrow> 'v esif_ht_node option option" where
  "esif_ht_get_ht_node self key len h = do {
     (_, ll_ptr) \<leftarrow> esif_ht_get_ll self key len;
     (case ll_ptr of
        None \<Rightarrow> Some None
      | Some ll \<Rightarrow> do {
          ll_node \<leftarrow> esif_find_node_in_ht_ll ll key len h;
          (case ll_node of None \<Rightarrow> Some None | Some a \<Rightarrow> map_option data_ptr (deref h (Some a)))
        })
   }"

definition esif_alloc_ht_node ::
    "u8 list \<Rightarrow> u32 \<Rightarrow> 'v option \<Rightarrow> ('v, 'z) ht_heap \<Rightarrow> ('v esif_ht_node option \<times> ('v, 'z) ht_heap) option" where
  "esif_alloc_ht_node key len item h =
     (case esif_ccb_malloc h of
        (None, h1) \<Rightarrow> Some (None, h1)
      | (Some _, h1) \<Rightarrow>
          (case esif_ccb_malloc h1 of
             (None, h2) \<Rightarrow> Some (None, h2)
           | (Some _, h2) \<Rightarrow>
               if unat len \<le> length key
               then Some (Some \<lparr>key_ptr = Some (take (unat len) key), key_length = len, item_ptr = item\<rparr>, h2)
               else None))"

partial_function (option) destroy_ht_nodes_loop ::
    "bool \<Rightarrow> addr option \<Rightarrow> ('v, 'z) ht_heap \<Rightarrow> 'v option list \<Rightarrow> (('v, 'z) ht_heap \<times> 'v option list) option" where
  "destroy_ht_nodes_loop has_destroy cur h destroyed =
     (case cur of
        None \<Rightarrow> Some (h, destroyed)
      | Some _ \<Rightarrow> do {
          n \<leftarrow> deref h cur;
          (h', destroyed') \<leftarrow> (case data_ptr n of
             None \<Rightarrow> Some (h, destroyed)
           | Some ht \<Rightarrow> do {
               h1 \<leftarrow> node_write h cur (\<lambda>m. m\<lparr>data_ptr := None\<rparr>);
               Some (h1, if has_destroy then destroyed @ [item_ptr ht] else destroyed) });
          destroy_ht_nodes_loop has_destroy (next_ptr n) h' destroyed'
        })"

definition esif_destroy_ht_nodes ::
    "esif_link_list option \<Rightarrow> bool \<Rightarrow> ('v, 'z) ht_heap \<Rightarrow> (('v, 'z) ht_heap \<times> 'v option list) option" where
  "esif_destroy_ht_nodes ll_ptr has_destroy h =
     (case ll_ptr of None \<Rightarrow> Some (h, []) | Some ll \<Rightarrow> destroy_ht_nodes_loop has_destroy (head_ptr ll) h [])"

definition esif_ht_add_item ::
    "esif_ht option \<Rightarrow> u8 list option \<Rightarrow> u32 \<Rightarrow> 'v option \<Rightarrow> ('v, 'z) ht_heap
     \<Rightarrow> (esif_rc \<times> esif_ht option \<times> ('v, 'z) ht_heap) option" where
  "esif_ht_add_item self_ptr keyp len item h =
     (case (keyp, self_ptr) of
        (Some key, Some self) \<Rightarrow> do {
          (i, ll_ptr) \<leftarrow> esif_ht_get_ll self key len;
          if ll_ptr = None then Some (ESIF_E_NOT_FOUND, self_ptr, h)
          else do {
            (ht_node, h1) \<leftarrow> esif_alloc_ht_node key len item h;
            (case ht_node of
               None \<Rightarrow> Some (ESIF_E_NO_MEMORY, self_ptr, h1)
             | Some node \<Rightarrow> do {
                 (rc, ll', h2) \<leftarrow> esif_link_list_add_at_back ll_ptr ht_node h1;
                 Some (rc, Some (self\<lparr>table := (table self)[i := ll']\<rparr>), h2)
               })
          }
        }
      | _ \<Rightarrow> Some (ESIF_E_PARAMETER_IS_NULL, self_ptr, h))"

definition esif_ht_remove_item ::
    "esif_ht option \<Rightarrow> u8 list option \<Rightarrow> u32 \<Rightarrow> ('v, 'z) ht_heap
     \<Rightarrow> (esif_rc \<times> esif_ht option \<times> ('v, 'z) ht_heap) option" where
  "esif_ht_remove_item self_ptr keyp len h =
     (case (keyp, self_ptr) of
        (Some key, Some self) \<Rightarrow> do {
          (i, ll_ptr) \<leftarrow> esif_ht_get_ll self key len;
          (case ll_ptr of
             None \<Rightarrow> Some (ESIF_E_NOT_FOUND, self_ptr, h)
           | Some ll \<Rightarrow> do {
               ll_node \<leftarrow> esif_find_node_in_ht_ll ll key len h;
               (case ll_node of
                  None \<Rightarrow> Some (ESIF_E_NOT_FOUND, self_ptr, h)
                | Some a \<Rightarrow> do {
                    n \<leftarrow> deref h ll_node;
                    (case data_ptr n of
                       None \<Rightarrow> Some (ESIF_E_PARAMETER_IS_NULL, self_ptr, h)
                     | Some ht_node \<Rightarrow> do {
                         (ll', h') \<leftarrow> esif_link_list_node_remove ll_ptr ll_node h;
                         Some (ESIF_OK, Some (self\<lparr>table := (table self)[i := ll']\<rparr>), h') })
                  })
             })
        }
      | _ \<Rightarrow> Some (ESIF_E_PARAMETER_IS_NULL, self_ptr, h))"

definition esif_ht_get_item ::
    "esif_ht option \<Rightarrow> u8 list option \<Rightarrow> u32 \<Rightarrow> ('v, 'z) ht_heap \<Rightarrow> 'v option option" where
  "esif_ht_get_item self_ptr keyp len h =
     (case (keyp, self_ptr) of
        (Some key, Some self) \<Rightarrow> do {
          ht_node \<leftarrow> esif_ht_get_ht_node self key len h;
          Some (case ht_node of None \<Rightarrow> None | Some n \<Rightarrow> item_ptr n) }
      | _ \<Rightarrow> Some None)"

fun ht_destroy_loop ::
    "bool \<Rightarrow> esif_link_list option list \<Rightarrow> ('v, 'z) ht_heap \<Rightarrow> (('v, 'z) ht_heap \<times> 'v option list) option" where
  "ht_destroy_loop has_destroy [] h = Some (h, [])"
| "ht_destroy_loop has_destroy (None # lls) h = ht_destroy_loop has_destroy lls h"
| "ht_destroy_loop has_destroy (Some ll # lls) h = do {
     (h1, r) \<leftarrow> esif_destroy_ht_nodes (Some ll) has_destroy h;
     h2 \<leftarrow> esif_link_list_destroy (Some ll) h1;
     (h3, rs) \<leftarrow> ht_destroy_loop has_destroy lls h2;
     Some (h3, r @ rs) }"

definition esif_ht_destroy ::
    "esif_ht option \<Rightarrow> bool \<Rightarrow> ('v, 'z) ht_heap \<Rightarrow> (('v, 'z) ht_heap \<times> 'v option list) option" where
  "esif_ht_destroy self_ptr has_destroy h =
     (case self_ptr of
        None \<Rightarrow> Some (h, [])
      | Some self \<Rightarrow>
          if length (table self) < unat (ht_size self) then None
          else ht_destroy_loop has_destroy (take (unat (ht_size self)) (table self)) h)"

text \<open>The creation loop: a failed list allocation destroys the partly filled table.\<close>

fun ht_create_loop ::
    "nat \<Rightarrow> nat \<Rightarrow> esif_ht \<Rightarrow> ('v, 'z) ht_heap \<Rightarrow> (esif_ht option \<times> ('v, 'z) ht_heap) option" where
  "ht_create_loop 0 index ht h = Some (Some ht, h)"
| "ht_create_loop (Suc left) index ht h =
     (case esif_link_list_create h of
        (None, h1) \<Rightarrow> do { (h2, _) \<leftarrow> esif_ht_destroy (Some ht) False h1; Some (None, h2) }
      | (Some ll, h1) \<Rightarrow>
          ht_create_loop left (Suc index) (ht\<lparr>table := (table ht)[index := Some ll]\<rparr>) h1)"

definition esif_ht_create :: "u32 \<Rightarrow> ('v, 'z) ht_heap \<Rightarrow> (esif_ht option \<times> ('v, 'z) ht_heap) option" where
  "esif_ht_create sz h =
     (case esif_ccb_malloc h of
        (None, h1) \<Rightarrow> Some (None, h1)
      | (Some _, h1) \<Rightarrow>
          (case esif_ccb_malloc h1 of
             (None, h2) \<Rightarrow> Some (None, h2)
           | (Some _, h2) \<Rightarrow>
               ht_create_loop (unat sz) 0 \<lparr>ht_size = sz, table = replicate (unat sz) None\<rparr> h2))"

section \<open>Representation\<close>

text \<open>The hash of a whole key, the values under a key in a bucket, and well-formed nodes.\<close>

definition valid_key :: "u8 list \<Rightarrow> bool" where
  "valid_key k \<longleftrightarrow> length k < 2 ^ 32"

definition key_len :: "u8 list \<Rightarrow> u32" where
  "key_len k = of_nat (length k)"

definition ht_index :: "esif_ht \<Rightarrow> u8 list \<Rightarrow> nat" where
  "ht_index t k = unat (foldl (\<lambda>hv b. (hv XOR ucast b) * FNV_PRIME) 0 k mod ht_size t)"

definition has_key :: "u8 list \<Rightarrow> 'v esif_ht_node option \<Rightarrow> bool" where
  "has_key k d = (case d of None \<Rightarrow> False | Some n \<Rightarrow> key_ptr n = Some k)"

definition node_ok :: "'v esif_ht_node option \<Rightarrow> bool" where
  "node_ok d = (case d of None \<Rightarrow> False
     | Some n \<Rightarrow> (case key_ptr n of None \<Rightarrow> False | Some k \<Rightarrow> length k = unat (key_length n) \<and> item_ptr n \<noteq> None))"

definition node_item :: "'v esif_ht_node option \<Rightarrow> 'v option" where
  "node_item d = (case d of None \<Rightarrow> None | Some n \<Rightarrow> item_ptr n)"

definition ht_vals :: "u8 list \<Rightarrow> (addr \<times> 'v esif_ht_node option) list \<Rightarrow> 'v list" where
  "ht_vals k ns = map (the \<circ> node_item \<circ> snd) (filter (has_key k \<circ> snd) ns)"

definition ht_rep :: "esif_ht \<Rightarrow> ('v, 'z) ht_heap \<Rightarrow> (addr \<times> 'v esif_ht_node option) list list \<Rightarrow> bool" where
  "ht_rep t h bs \<longleftrightarrow>
     heap_ok h \<and> ht_size t \<noteq> 0 \<and> length (table t) = unat (ht_size t)
     \<and> list_all2 (\<lambda>lo ns. \<exists>l. lo = Some l \<and> ll_rep h l ns) (table t) bs
     \<and> sorted_wrt (\<lambda>x y. fst ` set x \<inter> fst ` set y = {}) bs
     \<and> (\<forall>ns\<in>set bs. \<forall>x\<in>set ns. node_ok (snd x))"

definition ht_contains :: "esif_ht \<times> ('v, 'z) ht_heap \<Rightarrow> (u8 list \<Rightarrow> 'v list) \<Rightarrow> bool" where
  "ht_contains s m \<longleftrightarrow> (\<exists>bs. ht_rep (fst s) (snd s) bs
     \<and> (\<forall>k. valid_key k \<longrightarrow> m k = ht_vals k (bs ! ht_index (fst s) k)))"

lemma key_len_unat [simp]: "valid_key k \<Longrightarrow> unat (key_len k) = length k"
  by (simp add: valid_key_def key_len_def unat_of_nat_eq_len)

lemma ht_index_less: "ht_size t \<noteq> 0 \<Longrightarrow> ht_index t k < unat (ht_size t)"
  by (simp add: ht_index_def unat_mod_distrib word_neq_0_conv unat_gt_0)

lemma ht_rep_bucket:
  assumes "ht_rep t h bs" "i < unat (ht_size t)"
  obtains l where "i < length (table t)" "length bs = length (table t)" "table t ! i = Some l"
    "ll_rep h l (bs ! i)" "bs ! i \<in> set bs" "heap_ok h"
  using assms by (fastforce simp: ht_rep_def list_all2_conv_all_nth)

lemma get_ll_rep:
  assumes "ht_rep t h bs" "valid_key k"
  obtains l where "esif_ht_get_ll t k (key_len k) = Some (ht_index t k, Some l)"
    "ll_rep h l (bs ! ht_index t k)" "table t ! ht_index t k = Some l"
    "ht_index t k < length (table t)" "length bs = length (table t)"
    "\<forall>x\<in>set (bs ! ht_index t k). node_ok (snd x)" "heap_ok h"
proof -
  have sz: "ht_size t \<noteq> 0" using assms(1) by (simp add: ht_rep_def)
  from ht_rep_bucket [OF assms(1) ht_index_less [OF sz, of k]] obtain l where
    l: "ht_index t k < length (table t)" "table t ! ht_index t k = Some l" "length bs = length (table t)"
      "ll_rep h l (bs ! ht_index t k)" "bs ! ht_index t k \<in> set bs" "heap_ok h" by metis
  have "esif_ht_get_ll t k (key_len k) = Some (ht_index t k, Some l)"
    using l sz assms(2) by (simp add: esif_ht_get_ll_def esif_compute_hash_def Let_def ht_index_def)
  moreover have "\<forall>x\<in>set (bs ! ht_index t k). node_ok (snd x)"
    using l(5) assms(1) by (auto simp: ht_rep_def)
  ultimately show thesis using l that by blast
qed

lemma cmp_keys_ok:
  assumes "valid_key k" "node_ok (Some n)"
  shows "esif_cmp_keys (Some k) (key_len k) (key_ptr n) (key_length n) = Some (has_key k (Some n))"
proof -
  from assms(2) obtain k' where k': "key_ptr n = Some k'" "length k' = unat (key_length n)"
    by (auto simp: node_ok_def split: option.splits)
  have len: "key_len k = key_length n \<longleftrightarrow> length k = length k'"
    using assms(1) k'(2) by (metis key_len_unat word_unat_eq_iff)
  then show ?thesis using assms(1) k'
    by (cases "length k = length k'") (auto simp: esif_cmp_keys_def has_key_def)
qed

lemma find_node_loop_seg:
  assumes "ll_seg (node_mem h) pv p xs lst None" "valid_key k" "\<forall>x\<in>set xs. node_ok (snd x)"
  shows "find_node_loop k (key_len k) p h = Some (map_option fst (List.find (has_key k \<circ> snd) xs))"
  using assms
proof (induction xs arbitrary: pv p)
  case Nil
  then show ?case by (subst find_node_loop.simps) simp
next
  case (Cons x xs)
  obtain a d where x: "x = (a, d)" by (cases x)
  with Cons.prems obtain nd where nd: "d = Some nd" "node_ok (Some nd)"
    by (cases d) (auto simp: node_ok_def)
  with Cons x show ?case by (subst find_node_loop.simps) (auto simp: cmp_keys_ok comp_def)
qed

lemma find_node_rep:
  assumes "ll_rep h l xs" "valid_key k" "\<forall>x\<in>set xs. node_ok (snd x)"
  shows "esif_find_node_in_ht_ll l k (key_len k) h = Some (map_option fst (List.find (has_key k \<circ> snd) xs))"
  using assms find_node_loop_seg by (auto simp: esif_find_node_in_ht_ll_def ll_rep_def)

text \<open>Replacing one bucket.\<close>

lemma ht_rep_update:
  assumes rep: "ht_rep t h bs" and i: "i < length bs"
    and same: "same_except (insert (next_addr h) (fst ` set (bs ! i))) h h'" and ok: "heap_ok h'"
    and l': "ll_rep h' l' ns'" and sub: "fst ` set ns' \<subseteq> insert (next_addr h) (fst ` set (bs ! i))"
    and nodes: "\<forall>x\<in>set ns'. node_ok (snd x)"
  shows "ht_rep (t\<lparr>table := (table t)[i := Some l']\<rparr>) h' (bs[i := ns'])"
proof -
  have len: "length (table t) = length bs" and hok: "heap_ok h"
    and reps: "\<And>j. j < length bs \<Longrightarrow> \<exists>l. table t ! j = Some l \<and> ll_rep h l (bs ! j)"
    and pw: "\<And>a b. a < b \<Longrightarrow> b < length bs \<Longrightarrow> fst ` set (bs ! a) \<inter> fst ` set (bs ! b) = {}"
    using rep by (simp_all add: ht_rep_def list_all2_conv_all_nth sorted_wrt_iff_nth_less)
  have disj: "fst ` set (bs ! i) \<inter> fst ` set (bs ! j) = {}" if "j < length bs" "j \<noteq> i" for j
    using pw [of i j] pw [of j i] that i by (cases "i < j") (auto simp: Int_commute)
  have out: "insert (next_addr h) (fst ` set (bs ! i)) \<inter> fst ` set (bs ! j) = {}"
    if j: "j < length bs" "j \<noteq> i" for j
  proof -
    from reps [OF j(1)] obtain l where "ll_rep h l (bs ! j)" by blast
    with ll_rep_fresh [OF this hok] disj [OF j] show ?thesis by blast
  qed
  have "list_all2 (\<lambda>lo ns. \<exists>l. lo = Some l \<and> ll_rep h' l ns) ((table t)[i := Some l']) (bs[i := ns'])"
    unfolding list_all2_conv_all_nth
  proof (intro conjI allI impI)
    fix j assume "j < length ((table t)[i := Some l'])"
    then have j: "j < length bs" using len by simp
    show "\<exists>l. (table t)[i := Some l'] ! j = Some l \<and> ll_rep h' l (bs[i := ns'] ! j)"
    proof (cases "j = i")
      case True
      with l' i len show ?thesis by simp
    next
      case False
      with reps [OF j] ll_rep_frame [OF _ same out [OF j False]] show ?thesis by auto
    qed
  qed (use len in simp)
  moreover have "sorted_wrt (\<lambda>x y. fst ` set x \<inter> fst ` set y = {}) (bs[i := ns'])"
    unfolding sorted_wrt_iff_nth_less
  proof (intro allI impI)
    fix a b assume ab: "a < b" "b < length (bs[i := ns'])"
    have old: "fst ` set (bs ! a) \<inter> fst ` set (bs ! b) = {}" using pw [of a b] ab by simp
    show "fst ` set (bs[i := ns'] ! a) \<inter> fst ` set (bs[i := ns'] ! b) = {}"
    proof -
      have new: "fst ` set ns' \<inter> fst ` set (bs ! j) = {}" if "j < length bs" "j \<noteq> i" for j
        using sub out [OF that] by blast
      consider "a = i" "b \<noteq> i" | "b = i" "a \<noteq> i" | "a \<noteq> i" "b \<noteq> i" using ab by linarith
      then show ?thesis
      proof cases
        case 1
        with new [of b] ab i show ?thesis by simp
      next
        case 2
        with new [of a] ab i show ?thesis by (simp add: Int_commute)
      next
        case 3
        with old show ?thesis by simp
      qed
    qed
  qed
  moreover have "\<forall>ns\<in>set (bs[i := ns']). \<forall>x\<in>set ns. node_ok (snd x)"
    using rep nodes by (auto simp: ht_rep_def dest: set_update_subset_insert [THEN subsetD])
  ultimately show ?thesis using rep ok by (simp add: ht_rep_def)
qed

lemma ht_rep_malloc:
  assumes "ht_rep t h bs" "node_mem h' = node_mem h" "next_addr h \<le> next_addr h'"
  shows "ht_rep t h' bs"
  using assms by (fastforce simp: ht_rep_def heap_ok_def ll_rep_def)

section \<open>The three operations\<close>

lemma find_vals:
  assumes "\<forall>x\<in>set xs. node_ok (snd x)"
  shows "(case List.find (has_key k \<circ> snd) xs of None \<Rightarrow> None | Some x \<Rightarrow> node_item (snd x))
    = (case ht_vals k xs of [] \<Rightarrow> None | v # _ \<Rightarrow> Some v)"
  using assms
proof (induction xs)
  case (Cons x xs)
  then show ?case
    by (auto simp: ht_vals_def node_ok_def node_item_def has_key_def split: option.splits)
qed (simp add: ht_vals_def)

lemma get_item_rep:
  assumes "ht_rep t h bs" "valid_key k"
  shows "esif_ht_get_item (Some t) (Some k) (key_len k) h
    = Some (case ht_vals k (bs ! ht_index t k) of [] \<Rightarrow> None | v # _ \<Rightarrow> Some v)"
proof -
  from get_ll_rep [OF assms] obtain l where
    l: "esif_ht_get_ll t k (key_len k) = Some (ht_index t k, Some l)" "ll_rep h l (bs ! ht_index t k)"
      "\<forall>x\<in>set (bs ! ht_index t k). node_ok (snd x)" by metis
  note f = find_node_rep [OF l(2) assms(2) l(3)]
  show ?thesis
  proof (cases "List.find (has_key k \<circ> snd) (bs ! ht_index t k)")
    case None
    with l f find_vals [OF l(3), of k] show ?thesis
      by (simp add: esif_ht_get_item_def esif_ht_get_ht_node_def)
  next
    case (Some x)
    then have "x \<in> set (bs ! ht_index t k)" by (auto simp: find_Some_iff)
    with ll_rep_mem [OF l(2), of "fst x" "snd x"] obtain n where
      "node_mem h (fst x) = Some n" "data_ptr n = snd x" by auto
    with Some l f find_vals [OF l(3), of k] show ?thesis
      by (auto simp: esif_ht_get_item_def esif_ht_get_ht_node_def node_item_def)
  qed
qed

lemma ht_vals_append: "ht_vals k (xs @ ys) = ht_vals k xs @ ht_vals k ys"
  by (simp add: ht_vals_def)

lemma ht_vals_same_index:
  assumes "i = ht_index t k0" "i < length bs" "key_ptr n = Some k0"
  shows "ht_vals k (bs[i := bs ! i @ [(a, Some n)]] ! ht_index t k)
    = ht_vals k (bs ! ht_index t k) @ (if k = k0 then [the (item_ptr n)] else [])"
  using assms
  by (cases "ht_index t k = i") (auto simp: ht_vals_append, auto simp: ht_vals_def has_key_def node_item_def)

lemma add_item_rep:
  assumes "ht_rep t h bs" "valid_key k0"
  shows "\<exists>rc t' h' bs'. esif_ht_add_item (Some t) (Some k0) (key_len k0) (Some v) h = Some (rc, Some t', h')
    \<and> ht_rep t' h' bs' \<and> ht_size t' = ht_size t
    \<and> rc = (if alloc_ok h (next_addr h) \<and> alloc_ok h (Suc (next_addr h)) \<and> alloc_ok h (Suc (Suc (next_addr h)))
            then ESIF_OK else ESIF_E_NO_MEMORY)
    \<and> (\<forall>k. ht_vals k (bs' ! ht_index t k)
          = ht_vals k (bs ! ht_index t k) @ (if rc = ESIF_OK \<and> k = k0 then [v] else []))"
proof -
  from get_ll_rep [OF assms] obtain l where
    l: "esif_ht_get_ll t k0 (key_len k0) = Some (ht_index t k0, Some l)" "ll_rep h l (bs ! ht_index t k0)"
      "table t ! ht_index t k0 = Some l" "ht_index t k0 < length (table t)" "length bs = length (table t)"
      "\<forall>x\<in>set (bs ! ht_index t k0). node_ok (snd x)" "heap_ok h" by metis
  let ?i = "ht_index t k0" and ?n = "next_addr h"
  let ?h2 = "h\<lparr>next_addr := Suc (Suc ?n)\<rparr>"
  let ?nd = "\<lparr>key_ptr = Some k0, key_length = key_len k0, item_ptr = Some v\<rparr>"
  have rep1: "ht_rep t (h\<lparr>next_addr := Suc ?n\<rparr>) bs" and rep2: "ht_rep t ?h2 bs"
    by (rule ht_rep_malloc [OF assms(1)], simp_all)+
  show ?thesis
  proof (cases "alloc_ok h ?n \<and> alloc_ok h (Suc ?n)")
    case False
    with l rep1 rep2 show ?thesis
      by (auto simp: esif_ht_add_item_def esif_alloc_ht_node_def esif_ccb_malloc_def)
  next
    case True
    have ll2: "ll_rep ?h2 l (bs ! ?i)" "heap_ok ?h2"
      using l(2,7) by (auto simp: ll_rep_def heap_ok_def less_Suc_eq)
    from add_at_back_rep [OF ll2, of "Some ?nd"] obtain rc l' h' where
      a: "esif_link_list_add_at_back (Some l) (Some ?nd) ?h2 = Some (rc, Some l', h')" "heap_ok h'"
        "same_except (insert (next_addr ?h2) (fst ` set (bs ! ?i))) ?h2 h'"
        "if alloc_ok ?h2 (next_addr ?h2) then rc = ESIF_OK \<and> ll_rep h' l' (bs ! ?i @ [(next_addr ?h2, Some ?nd)])
         else rc = ESIF_E_NO_MEMORY \<and> l' = l \<and> ll_rep h' l (bs ! ?i) \<and> node_mem h' = node_mem ?h2"
      by blast
    let ?t' = "t\<lparr>table := (table t)[?i := Some l']\<rparr>"
    have run: "esif_ht_add_item (Some t) (Some k0) (key_len k0) (Some v) h = Some (rc, Some ?t', h')"
      using l(1) a(1) True assms(2)
      by (simp add: esif_ht_add_item_def esif_alloc_ht_node_def esif_ccb_malloc_def)
    have i: "?i < length bs" using l(4,5) by simp
    show ?thesis
    proof (cases "alloc_ok h (Suc (Suc ?n))")
      case True
      let ?ns = "bs ! ?i @ [(Suc (Suc ?n), Some ?nd)]"
      have nodes: "\<forall>x\<in>set ?ns. node_ok (snd x)" using l(6) assms(2) by (auto simp: node_ok_def)
      have "ht_rep ?t' h' (bs[?i := ?ns])"
        by (rule ht_rep_update [OF rep2 i a(3,2) _ _ nodes]) (use a(4) True in auto)
      moreover have "ht_vals k (bs[?i := ?ns] ! ht_index t k)
          = ht_vals k (bs ! ht_index t k) @ (if k = k0 then [v] else [])" for k
        using ht_vals_same_index [OF refl i, of ?nd k "Suc (Suc ?n)"] by simp
      ultimately show ?thesis using run a(4) True \<open>alloc_ok h ?n \<and> alloc_ok h (Suc ?n)\<close>
        by (intro exI [of _ rc] exI [of _ ?t'] exI [of _ h'] exI [of _ "bs[?i := ?ns]"]) simp
    next
      case False
      have "ht_rep ?t' h' (bs[?i := bs ! ?i])"
        by (rule ht_rep_update [OF rep2 i a(3,2) _ _ l(6)]) (use a(4) False in auto)
      then show ?thesis using run a(4) False
        by (intro exI [of _ rc] exI [of _ ?t'] exI [of _ h'] exI [of _ bs]) simp
    qed
  qed
qed

lemma ht_vals_remove:
  assumes "has_key k0 d" "\<forall>y\<in>set ys. \<not> has_key k0 (snd y)"
  shows "ht_vals k (ys @ zs) = (if k = k0 then tl (ht_vals k (ys @ (a, d) # zs)) else ht_vals k (ys @ (a, d) # zs))"
proof (cases "k = k0")
  case True
  then have "filter (has_key k \<circ> snd) ys = []" using assms(2) by (simp add: filter_empty_conv)
  with True assms(1) show ?thesis by (simp add: ht_vals_def)
next
  case False
  with assms(1) have "\<not> has_key k d" by (auto simp: has_key_def split: option.splits)
  with False show ?thesis by (simp add: ht_vals_def)
qed

lemma find_None_vals: "List.find (has_key k \<circ> snd) xs = None \<Longrightarrow> ht_vals k xs = []"
  by (auto simp: find_None_iff ht_vals_def filter_empty_conv)

lemma remove_item_rep:
  assumes "ht_rep t h bs" "valid_key k0"
  shows "\<exists>t' h' bs'. esif_ht_remove_item (Some t) (Some k0) (key_len k0) h
      = Some (if ht_vals k0 (bs ! ht_index t k0) = [] then ESIF_E_NOT_FOUND else ESIF_OK, Some t', h')
    \<and> ht_rep t' h' bs' \<and> ht_size t' = ht_size t
    \<and> (\<forall>k. ht_vals k (bs' ! ht_index t k)
          = (if k = k0 then tl (ht_vals k (bs ! ht_index t k)) else ht_vals k (bs ! ht_index t k)))"
proof -
  from get_ll_rep [OF assms] obtain l where
    l: "esif_ht_get_ll t k0 (key_len k0) = Some (ht_index t k0, Some l)" "ll_rep h l (bs ! ht_index t k0)"
      "table t ! ht_index t k0 = Some l" "ht_index t k0 < length (table t)" "length bs = length (table t)"
      "\<forall>x\<in>set (bs ! ht_index t k0). node_ok (snd x)" "heap_ok h" by metis
  let ?i = "ht_index t k0"
  note f = find_node_rep [OF l(2) assms(2) l(6)]
  show ?thesis
  proof (cases "List.find (has_key k0 \<circ> snd) (bs ! ?i)")
    case None
    with find_None_vals [OF None] l(1) f assms(1) show ?thesis
      by (auto simp: esif_ht_remove_item_def)
  next
    case (Some x)
    obtain a d where x: "x = (a, d)" by (cases x)
    from Some x obtain ys zs where sp: "bs ! ?i = ys @ (a, d) # zs" "has_key k0 d"
      "\<forall>y\<in>set ys. \<not> has_key k0 (snd y)" by (auto elim!: find_splitE)
    from ll_rep_mem [OF l(2), of a d] sp(1) obtain n where n: "node_mem h a = Some n" "data_ptr n = d" by auto
    from sp(2) obtain nd where nd: "d = Some nd" by (auto simp: has_key_def split: option.splits)
    from node_remove_rep [of h l ys a d zs] l(2) sp(1) obtain l' h' where
      r: "esif_link_list_node_remove (Some l) (Some a) h = Some (Some l', h')" "ll_rep h' l' (ys @ zs)"
        "dom (node_mem h') = dom (node_mem h) - {a}" "next_addr h' = next_addr h"
        "same_except (fst ` set (bs ! ?i)) h h'" by auto
    let ?t' = "t\<lparr>table := (table t)[?i := Some l']\<rparr>"
    have i: "?i < length bs" using l(4,5) by simp
    have "ht_rep ?t' h' (bs[?i := ys @ zs])"
      by (rule ht_rep_update [OF assms(1) i same_except_mono [OF r(5)] heap_ok_after_remove [OF l(7) r(3,4)] r(2)])
        (use sp(1) l(6) in auto)
    moreover have "esif_ht_remove_item (Some t) (Some k0) (key_len k0) h = Some (ESIF_OK, Some ?t', h')"
      using l(1) f Some x n nd r(1) by (simp add: esif_ht_remove_item_def)
    moreover have "ht_vals k0 (bs ! ?i) \<noteq> []" using sp(1,2) by (simp add: ht_vals_def)
    moreover have "ht_vals k (bs[?i := ys @ zs] ! ht_index t k)
        = (if k = k0 then tl (ht_vals k (bs ! ht_index t k)) else ht_vals k (bs ! ht_index t k))" for k
      using ht_vals_remove [OF sp(2,3), of k zs a] i sp(1) by (cases "ht_index t k = ?i") auto
    ultimately show ?thesis by (intro exI [of _ ?t'] exI [of _ h'] exI [of _ "bs[?i := ys @ zs]"]) simp
  qed
qed

section \<open>Creation and destruction\<close>

abbreviation empty_ll :: esif_link_list where
  "empty_ll \<equiv> \<lparr>head_ptr = None, tail_ptr = None, nodes = 0\<rparr>"

lemma ht_destroy_loop_empty:
  assumes "\<forall>lo\<in>set lls. lo = None \<or> lo = Some empty_ll"
  shows "ht_destroy_loop f lls h = Some (h, [])"
proof -
  have e: "destroy_ht_nodes_loop f None h [] = Some (h, [])" "destroy_loop empty_ll h = Some h"
    by (subst destroy_ht_nodes_loop.simps destroy_loop.simps, simp)+
  from assms show ?thesis
  proof (induction lls)
    case (Cons lo lls)
    then show ?case
      by (cases lo) (auto simp: esif_destroy_ht_nodes_def esif_link_list_destroy_def e)
  qed simp
qed

lemma ht_create_loop_spec:
  assumes "table ht = replicate index (Some empty_ll) @ replicate left None"
    "unat (ht_size ht) = index + left"
  shows "\<exists>h' r. ht_create_loop left index ht h = Some (r, h') \<and> node_mem h' = node_mem h
    \<and> next_addr h \<le> next_addr h'
    \<and> (r = None \<or> r = Some (ht\<lparr>table := replicate (index + left) (Some empty_ll)\<rparr>))"
  using assms
proof (induction left arbitrary: index ht h)
  case 0
  then show ?case by auto
next
  case (Suc left)
  show ?case
  proof (cases "alloc_ok h (next_addr h)")
    case False
    have "ht_destroy_loop False (take (unat (ht_size ht)) (table ht)) (h\<lparr>next_addr := Suc (next_addr h)\<rparr>)
        = Some (h\<lparr>next_addr := Suc (next_addr h)\<rparr>, [])"
      by (rule ht_destroy_loop_empty) (use Suc.prems in \<open>auto dest: in_set_takeD\<close>)
    with False Suc.prems show ?thesis
      by (simp add: esif_link_list_create_def esif_ccb_malloc_def esif_ht_destroy_def)
  next
    case True
    let ?h1 = "h\<lparr>next_addr := Suc (next_addr h)\<rparr>"
    let ?ht = "ht\<lparr>table := (table ht)[index := Some empty_ll]\<rparr>"
    have "table ?ht = replicate (Suc index) (Some empty_ll) @ replicate left None"
      using Suc.prems(1) by (simp add: list_update_append replicate_append_same)
    from Suc.IH [OF this, of ?h1] Suc.prems(2) True show ?thesis
      by (auto simp: esif_link_list_create_def esif_ccb_malloc_def)
  qed
qed

lemma create_rep:
  assumes "heap_ok h" "sz \<noteq> 0"
  shows "\<exists>r h'. esif_ht_create sz h = Some (r, h') \<and> node_mem h' = node_mem h \<and> next_addr h \<le> next_addr h'
    \<and> (\<forall>t. r = Some t \<longrightarrow> ht_size t = sz \<and> ht_rep t h' (replicate (unat sz) []))"
proof -
  let ?n = "next_addr h"
  let ?t0 = "\<lparr>ht_size = sz, table = replicate (unat sz) None\<rparr>"
  obtain h' r where c: "ht_create_loop (unat sz) 0 ?t0 (h\<lparr>next_addr := Suc (Suc ?n)\<rparr>) = Some (r, h')"
    "node_mem h' = node_mem h" "Suc (Suc ?n) \<le> next_addr h'"
    "r = None \<or> r = Some (?t0\<lparr>table := replicate (unat sz) (Some empty_ll)\<rparr>)"
    using ht_create_loop_spec [of ?t0 0 "unat sz" "h\<lparr>next_addr := Suc (Suc ?n)\<rparr>"] by auto
  have "heap_ok h'" using assms(1) c(2,3) by (fastforce simp: heap_ok_def)
  moreover have "sorted_wrt (\<lambda>x y. fst ` set x \<inter> fst ` set y = {}) (replicate (unat sz) [])"
    by (simp add: sorted_wrt_iff_nth_less)
  ultimately show ?thesis using c assms(2)
    by (auto simp: esif_ht_create_def esif_ccb_malloc_def ht_rep_def ll_rep_def list_all2_conv_all_nth)
qed

lemma destroy_nodes_seg:
  assumes "ll_seg (node_mem h) pv p xs lst None" "distinct (map fst xs)" "\<forall>x\<in>set xs. node_ok (snd x)"
  shows "\<exists>h'. destroy_ht_nodes_loop f p h acc
      = Some (h', acc @ (if f then map (node_item \<circ> snd) xs else []))
    \<and> ll_seg (node_mem h') pv p (map (\<lambda>x. (fst x, None)) xs) lst None
    \<and> same_except (fst ` set xs) h h' \<and> dom (node_mem h') = dom (node_mem h)
    \<and> next_addr h' = next_addr h"
  using assms
proof (induction xs arbitrary: pv p h acc)
  case Nil
  then show ?case by (subst destroy_ht_nodes_loop.simps) (auto simp: same_except_def)
next
  case (Cons x xs)
  obtain a d where x: "x = (a, d)" by (cases x)
  with Cons.prems obtain nd where nd: "d = Some nd" by (cases d) (auto simp: node_ok_def)
  from Cons.prems x obtain n where n: "p = Some a" "node_mem h a = Some n" "data_ptr n = d" "prev_ptr n = pv"
    "ll_seg (node_mem h) (Some a) (next_ptr n) xs lst None" "a \<notin> fst ` set xs" by auto
  let ?h1 = "h\<lparr>node_mem := (node_mem h)(a \<mapsto> n\<lparr>data_ptr := None\<rparr>)\<rparr>"
  have seg: "ll_seg (node_mem ?h1) (Some a) (next_ptr n) xs lst None" using n by simp
  have dom1: "dom (node_mem ?h1) = dom (node_mem h)" using n(2) by auto
  from Cons.IH [OF seg, of "acc @ (if f then [node_item d] else [])"] Cons.prems(2,3) obtain h' where
    ih: "destroy_ht_nodes_loop f (next_ptr n) ?h1 (acc @ (if f then [node_item d] else []))
        = Some (h', (acc @ (if f then [node_item d] else [])) @ (if f then map (node_item \<circ> snd) xs else []))"
      "ll_seg (node_mem h') (Some a) (next_ptr n) (map (\<lambda>x. (fst x, None)) xs) lst None"
      "same_except (fst ` set xs) ?h1 h'" "dom (node_mem h') = dom (node_mem ?h1)"
      "next_addr h' = next_addr ?h1" by (fastforce simp del: fun_upd_apply dom_fun_upd)
  have a': "node_mem h' a = Some (n\<lparr>data_ptr := None\<rparr>)" using ih(3) n(6) by (simp add: same_except_def)
  have "destroy_ht_nodes_loop f p h acc = Some (h', acc @ (if f then map (node_item \<circ> snd) (x # xs) else []))"
    using ih(1) n x nd
    by (subst destroy_ht_nodes_loop.simps) (auto simp: node_item_def)
  moreover have "same_except (fst ` set (x # xs)) h h'" using ih(3) x by (auto simp: same_except_def)
  moreover have "dom (node_mem h') = dom (node_mem h)" using ih(4) dom1 by simp
  ultimately show ?case using ih(2,5) a' n(1,4) x by simp
qed

lemma destroy_bucket_rep:
  assumes "ll_rep h l xs" "\<forall>x\<in>set xs. node_ok (snd x)"
  shows "\<exists>h1 h2. esif_destroy_ht_nodes (Some l) f h = Some (h1, if f then map (node_item \<circ> snd) xs else [])
    \<and> esif_link_list_destroy (Some l) h1 = Some h2 \<and> dom (node_mem h2) = dom (node_mem h) - fst ` set xs
    \<and> same_except (fst ` set xs) h h2"
proof -
  from assms(1) have seg: "ll_seg (node_mem h) None (head_ptr l) xs (tail_ptr l) None" "distinct (map fst xs)"
    "nodes l = of_nat (length xs)" by (auto simp: ll_rep_def)
  from destroy_nodes_seg [OF seg(1,2) assms(2), of f "[]"] obtain h1 where
    h1: "destroy_ht_nodes_loop f (head_ptr l) h [] = Some (h1, if f then map (node_item \<circ> snd) xs else [])"
      "ll_seg (node_mem h1) None (head_ptr l) (map (\<lambda>x. (fst x, None)) xs) (tail_ptr l) None"
      "same_except (fst ` set xs) h h1" "dom (node_mem h1) = dom (node_mem h)" by auto
  have fsts: "map fst (map (\<lambda>x. (fst x, None)) xs) = map fst xs" by (induction xs) auto
  have "ll_rep h1 l (map (\<lambda>x. (fst x, None)) xs)" using h1(2) seg(2,3) by (simp add: ll_rep_def comp_def)
  from destroy_loop_rep [OF this] obtain h2 where
    h2: "destroy_loop l h1 = Some h2" "dom (node_mem h2) = dom (node_mem h1) - fst ` set xs"
      "same_except (fst ` set xs) h1 h2" by (auto simp: image_image)
  then show ?thesis using h1
    by (auto simp: esif_destroy_ht_nodes_def esif_link_list_destroy_def same_except_def)
qed

lemma ht_destroy_loop_rep:
  assumes "list_all2 (\<lambda>lo ns. \<exists>l. lo = Some l \<and> ll_rep h l ns) lls bs"
    "sorted_wrt (\<lambda>x y. fst ` set x \<inter> fst ` set y = {}) bs" "\<forall>ns\<in>set bs. \<forall>x\<in>set ns. node_ok (snd x)"
  shows "\<exists>h'. ht_destroy_loop f lls h = Some (h', if f then map (node_item \<circ> snd) (concat bs) else [])
    \<and> dom (node_mem h') = dom (node_mem h) - fst ` set (concat bs)"
  using assms
proof (induction bs arbitrary: h lls rule: list.induct)
  case Nil
  then show ?case by simp
next
  case (Cons ns bs)
  from Cons.prems(1) obtain l lls' where
    l: "lls = Some l # lls'" "ll_rep h l ns" "list_all2 (\<lambda>lo ns. \<exists>l. lo = Some l \<and> ll_rep h l ns) lls' bs"
    by (auto simp: list_all2_Cons2)
  from destroy_bucket_rep [OF l(2), of f] Cons.prems obtain h1 h2 where
    d: "esif_destroy_ht_nodes (Some l) f h = Some (h1, if f then map (node_item \<circ> snd) ns else [])"
      "esif_link_list_destroy (Some l) h1 = Some h2" "dom (node_mem h2) = dom (node_mem h) - fst ` set ns"
      "same_except (fst ` set ns) h h2" by auto
  have "list_all2 (\<lambda>lo ns. \<exists>l. lo = Some l \<and> ll_rep h2 l ns) lls' bs"
    unfolding list_all2_conv_all_nth
  proof (intro conjI allI impI)
    show "length lls' = length bs" using l(3) by (rule list_all2_lengthD)
    fix i assume i: "i < length lls'"
    with l(3) obtain m where m: "lls' ! i = Some m" "ll_rep h m (bs ! i)" "i < length bs"
      by (auto simp: list_all2_conv_all_nth)
    then have "fst ` set ns \<inter> fst ` set (bs ! i) = {}" using Cons.prems(2) by simp
    from m(1) ll_rep_frame [OF m(2) d(4) this] show "\<exists>l. lls' ! i = Some l \<and> ll_rep h2 l (bs ! i)" by blast
  qed
  from Cons.IH [OF this] Cons.prems(2,3) obtain h' where
    "ht_destroy_loop f lls' h2 = Some (h', if f then map (node_item \<circ> snd) (concat bs) else [])"
    "dom (node_mem h') = dom (node_mem h2) - fst ` set (concat bs)" by auto
  with d l(1) show ?case by (auto simp del: set_concat)
qed

section \<open>The table as a keyed collection\<close>

definition ht_add :: "u8 list \<Rightarrow> 'v \<Rightarrow> esif_ht \<times> ('v, 'z) ht_heap \<Rightarrow> (esif_rc \<times> esif_ht \<times> ('v, 'z) ht_heap) option" where
  "ht_add k v s = do {
     (rc, t', h') \<leftarrow> esif_ht_add_item (Some (fst s)) (Some k) (key_len k) (Some v) (snd s);
     t'' \<leftarrow> t'; Some (rc, t'', h') }"

definition ht_del :: "u8 list \<Rightarrow> esif_ht \<times> ('v, 'z) ht_heap \<Rightarrow> (esif_rc \<times> esif_ht \<times> ('v, 'z) ht_heap) option" where
  "ht_del k s = do {
     (rc, t', h') \<leftarrow> esif_ht_remove_item (Some (fst s)) (Some k) (key_len k) (snd s);
     t'' \<leftarrow> t'; Some (rc, t'', h') }"

definition ht_get :: "u8 list \<Rightarrow> esif_ht \<times> ('v, 'z) ht_heap \<Rightarrow> 'v option option" where
  "ht_get k s = esif_ht_get_item (Some (fst s)) (Some k) (key_len k) (snd s)"

lemma ht_index_cong: "ht_size t' = ht_size t \<Longrightarrow> ht_index t' k = ht_index t k"
  by (simp add: ht_index_def)

interpretation hash_store: keyed_store ht_contains valid_key ht_add ht_del ht_get
proof (unfold_locales, goal_cases)
  case (1 s m k v)
  then obtain bs where bs: "ht_rep (fst s) (snd s) bs"
    "\<forall>k. valid_key k \<longrightarrow> m k = ht_vals k (bs ! ht_index (fst s) k)" by (auto simp: ht_contains_def)
  from add_item_rep [OF bs(1) 1(2), of v] obtain rc t' h' bs' where
    a: "esif_ht_add_item (Some (fst s)) (Some k) (key_len k) (Some v) (snd s) = Some (rc, Some t', h')"
      "ht_rep t' h' bs'" "ht_size t' = ht_size (fst s)"
      "\<And>k'. ht_vals k' (bs' ! ht_index (fst s) k')
          = ht_vals k' (bs ! ht_index (fst s) k') @ (if rc = ESIF_OK \<and> k' = k then [v] else [])" by blast
  have "ht_contains (t', h') (if rc = ESIF_OK then m(k := m k @ [v]) else m)"
    unfolding ht_contains_def
    by (rule exI [of _ bs']) (simp add: a ht_index_cong [OF a(3)] bs(2))
  then show ?case using a(1) by (simp add: ht_add_def)
next
  case (2 s m k)
  then obtain bs where bs: "ht_rep (fst s) (snd s) bs"
    "\<forall>k. valid_key k \<longrightarrow> m k = ht_vals k (bs ! ht_index (fst s) k)" by (auto simp: ht_contains_def)
  from remove_item_rep [OF bs(1) 2(2)] obtain t' h' bs' where
    r: "esif_ht_remove_item (Some (fst s)) (Some k) (key_len k) (snd s)
        = Some (if ht_vals k (bs ! ht_index (fst s) k) = [] then ESIF_E_NOT_FOUND else ESIF_OK, Some t', h')"
      "ht_rep t' h' bs'" "ht_size t' = ht_size (fst s)"
      "\<And>k'. ht_vals k' (bs' ! ht_index (fst s) k')
          = (if k' = k then tl (ht_vals k' (bs ! ht_index (fst s) k')) else ht_vals k' (bs ! ht_index (fst s) k'))"
    by blast
  have "ht_contains (t', h') (m(k := tl (m k)))"
    unfolding ht_contains_def
    by (rule exI [of _ bs']) (simp add: r ht_index_cong [OF r(3)] bs(2))
  then show ?case using r(1) bs(2) 2(2) by (simp add: ht_del_def)
next
  case (3 s m k)
  then show ?case using get_item_rep by (auto simp: ht_contains_def ht_get_def)
qed

section \<open>Properties\<close>

text \<open>
  C9. For every sequence of \<^verbatim>\<open>esif_ht_add_item\<close>, \<^verbatim>\<open>esif_ht_remove_item\<close> and \<^verbatim>\<open>esif_ht_get_item\<close> calls the
  hash table is memory safe, terminates and returns exactly what a map from keys to the
  sequence of their values returns: a lookup finds the oldest value added under that key, a
  removal takes that one out, and a key is never confused with another that collides with it.
\<close>

theorem hash_table_simulates_map:
  assumes "ht_rep t h bs" "\<forall>op\<in>set ops. valid_key (op_key op)"
  shows "\<exists>obs t' h' bs'. store_run ht_add ht_del ht_get ops (t, h) = Some (obs, t', h')
    \<and> store_spec (\<lambda>k. ht_vals k (bs ! ht_index t k)) ops obs \<and> ht_rep t' h' bs'"
proof -
  have "ht_contains (t, h) (\<lambda>k. ht_vals k (bs ! ht_index t k))"
    using assms(1) by (auto simp: ht_contains_def)
  from hash_store.run_store [OF this assms(2)] show ?thesis by (force simp: ht_contains_def)
qed

definition ht_example :: esif_ht where
  "ht_example = \<lparr>ht_size = 2, table = [Some empty_ll, Some empty_ll]\<rparr>"

definition ht_example_heap :: "nat esif_ht_node ll_heap" where
  "ht_example_heap = \<lparr>next_addr = 0, alloc_ok = (\<lambda>_. True), node_mem = Map.empty\<rparr>"

lemma ht_example_rep: "ht_rep ht_example ht_example_heap [[], []]"
  by (simp add: ht_rep_def ht_example_def ht_example_heap_def heap_ok_def ll_rep_def)

theorem hash_table_simulates_map_witness:
  "\<exists>obs t' h'. store_run ht_add ht_del ht_get [StoreAdd [1] 5, StoreAdd [3] 6, StoreGet [1], StoreDel [1], StoreGet [1]]
       (ht_example, ht_example_heap) = Some (obs, t', h')
     \<and> store_spec (\<lambda>_ :: u8 list. []) [StoreAdd [1] 5, StoreAdd [3] 6, StoreGet [1], StoreDel [1], StoreGet [1]] obs"
proof -
  let ?ops = "[StoreAdd [1 :: u8] 5, StoreAdd [3] 6, StoreGet [1], StoreDel [1], StoreGet [1]]"
  have "ht_vals k ([[], []] ! ht_index ht_example k) = ([] :: nat list)" for k :: "u8 list"
    using ht_index_less [of ht_example k]
    by (auto simp: ht_example_def ht_vals_def nth_Cons' less_Suc_eq_0_disj)
  then have "(\<lambda>k. ht_vals k ([[], []] ! ht_index ht_example k)) = (\<lambda>_. [] :: nat list)" by auto
  with hash_table_simulates_map [OF ht_example_rep, of ?ops] show ?thesis
    by (auto simp: valid_key_def simp del: store_run.simps)
qed

text \<open>
  \<^verbatim>\<open>esif_ht_create\<close> with a non-zero size returns either \<^verbatim>\<open>NULL\<close> or an empty well-formed
  table of that size, whichever allocation fails and without a memory error.
\<close>

theorem hash_table_create:
  assumes "heap_ok h" "sz \<noteq> 0"
  shows "\<exists>r h'. esif_ht_create sz h = Some (r, h') \<and> node_mem h' = node_mem h
    \<and> (\<forall>t. r = Some t \<longrightarrow> ht_size t = sz \<and> ht_rep t h' (replicate (unat sz) []))"
  using create_rep [OF assms] by blast

theorem hash_table_create_witness:
  "heap_ok ht_example_heap \<and> (\<exists>r h'. esif_ht_create 2 ht_example_heap = Some (r, h')
     \<and> node_mem h' = node_mem ht_example_heap)"
proof -
  have "heap_ok ht_example_heap" by (simp add: heap_ok_def ht_example_heap_def)
  with hash_table_create [of ht_example_heap 2] show ?thesis by auto
qed

text \<open>
  Destroying a hash table (\<^verbatim>\<open>esif_ht_destroy\<close>) terminates, hands every stored item to the
  destroy function exactly once, bucket by bucket, and frees every list node of the table and
  no other node.
\<close>

theorem hash_table_destroy:
  assumes "ht_rep t h bs"
  shows "\<exists>h'. esif_ht_destroy (Some t) True h = Some (h', map (node_item \<circ> snd) (concat bs))
    \<and> dom (node_mem h') = dom (node_mem h) - fst ` set (concat bs)"
proof -
  from assms have "length (table t) = unat (ht_size t)" by (simp add: ht_rep_def)
  then show ?thesis using assms ht_destroy_loop_rep [of h "table t" bs True]
    by (simp add: ht_rep_def esif_ht_destroy_def del: set_concat)
qed

theorem hash_table_destroy_witness:
  "\<exists>t h bs h'. esif_ht_add_item (Some ht_example) (Some [7]) 1 (Some 42) ht_example_heap = Some (ESIF_OK, Some t, h)
     \<and> ht_rep t h bs \<and> esif_ht_destroy (Some t) True h = Some (h', map (node_item \<circ> snd) (concat bs))"
proof -
  have k: "valid_key [7 :: u8]" "key_len [7] = 1" by (simp_all add: valid_key_def key_len_def)
  from add_item_rep [OF ht_example_rep k(1), of 42] k(2) obtain t h bs where
    "esif_ht_add_item (Some ht_example) (Some [7]) 1 (Some 42) ht_example_heap = Some (ESIF_OK, Some t, h)"
    "ht_rep t h bs" by (auto simp: ht_example_heap_def)
  with hash_table_destroy [of t h bs] show ?thesis by blast
qed

end
