(* ===== verification/Base64.thy ===== *)
theory Base64
  imports Interfaces
begin

text \<open>
  Base64 encoding and decoding, \<^verbatim>\<open>src/Common/esif_sdk_base64_enc.c\<close> and \<^verbatim>\<open>esif_sdk_base64_dec.c\<close>.
  Text is a \<open>string\<close>, binary data a list of bytes, and a target buffer is the list of its
  current contents: a write outside it, or a read past the end of a source buffer, is
  undefined (\<open>None\<close>). The size checks of the encoder are computed on \<open>size_t\<close>, wrap-around
  included; in the decoder the first check bounds \<^verbatim>\<open>encoded_len\<close>, so the loop counters of the
  remaining code cannot wrap and are natural numbers.
\<close>

section \<open>Encoder\<close>

definition BASE64_ENCODED_LENGTH :: "size_t \<Rightarrow> size_t" where
  "BASE64_ENCODED_LENGTH bytes = (((bytes + 2) div 3) * 4) + 1"

abbreviation (input) MAX_BASE64_ENCODED_LEN :: nat where
  "MAX_BASE64_ENCODED_LEN \<equiv> ((((32 * 1024 * 1024) div 3 + 2) * 4) div 64 + 1) * 66"

definition base64_asciimap :: string where
  "base64_asciimap = ''ABCDEFGHIJKLMNOPQRSTUVWXYZabcdefghijklmnopqrstuvwxyz0123456789+/''"

definition ascii :: "u8 \<Rightarrow> char" where
  "ascii block = base64_asciimap ! unat block"

text \<open>
  The six-bit groups of a block, with the shifts done in \<^verbatim>\<open>int\<close> and the result stored in a
  byte, as in C.
\<close>

abbreviation to_int :: "u8 \<Rightarrow> u32" where "to_int b \<equiv> ucast b"

definition sextet0 :: "u8 \<Rightarrow> u8" where
  "sextet0 a = ucast (drop_bit 2 (to_int a))"

definition sextet1 :: "u8 \<Rightarrow> u8 \<Rightarrow> u8" where
  "sextet1 a b = ucast ((push_bit 4 (to_int a) OR drop_bit 4 (to_int b)) AND 0x3F)"

definition sextet2 :: "u8 \<Rightarrow> u8 \<Rightarrow> u8" where
  "sextet2 b c = ucast ((push_bit 2 (to_int b) OR drop_bit 6 (to_int c)) AND 0x3F)"

definition sextet3 :: "u8 \<Rightarrow> u8" where
  "sextet3 c = ucast (to_int c AND 0x3F)"

definition encode_block :: "u8 list \<Rightarrow> nat \<Rightarrow> string" where
  "encode_block data i =
     [ascii (sextet0 (data ! (i * 3))),
      ascii (sextet1 (data ! (i * 3)) (data ! (i * 3 + 1))),
      ascii (sextet2 (data ! (i * 3 + 1)) (data ! (i * 3 + 2))),
      ascii (sextet3 (data ! (i * 3 + 2)))]"

definition encode_tail :: "u8 list \<Rightarrow> nat \<Rightarrow> nat \<Rightarrow> string" where
  "encode_tail data i left =
     (if left = 1 then
        [ascii (sextet0 (data ! (i * 3))),
         ascii (ucast (push_bit 4 (to_int (data ! (i * 3))) AND 0x3F)), CHR ''='', CHR ''='']
      else if left = 2 then
        [ascii (sextet0 (data ! (i * 3))),
         ascii (sextet1 (data ! (i * 3)) (data ! (i * 3 + 1))),
         ascii (ucast (push_bit 2 (to_int (data ! (i * 3 + 1))) AND 0x3F)), CHR ''='']
      else [])"

definition encoded_text :: "u8 list \<Rightarrow> nat \<Rightarrow> string" where
  "encoded_text data n =
     concat (map (encode_block data) [0..<n div 3]) @ encode_tail data (n div 3) (n mod 3)"

definition esif_base64_encode ::
    "string option \<Rightarrow> size_t \<Rightarrow> u8 list option \<Rightarrow> size_t \<Rightarrow> (esif_rc \<times> string option) option" where
  "esif_base64_encode target_str target_len source_buf source_len =
     (if unat (BASE64_ENCODED_LENGTH source_len) > MAX_BASE64_ENCODED_LEN
      then Some (ESIF_E_PARAMETER_IS_OUT_OF_BOUNDS, target_str)
      else if target_len < BASE64_ENCODED_LENGTH source_len
      then Some (ESIF_E_NEED_LARGER_BUFFER, target_str)
      else (case (source_buf, target_str) of
              (Some data, Some target) \<Rightarrow>
                let out = encoded_text data (unat source_len) @ [CHR 0x00] in
                if length data < unat source_len \<or> length target < length out then None
                else Some (ESIF_OK, Some (out @ drop (length out) target))
            | _ \<Rightarrow> Some (ESIF_E_PARAMETER_IS_NULL, target_str)))"

section \<open>Decoder\<close>

definition BASE64_DECODED_BUFFER_LEN :: "nat \<Rightarrow> nat" where
  "BASE64_DECODED_BUFFER_LEN encoded_len = ((encoded_len + 3) div 4) * 3"

definition is_digit :: "char \<Rightarrow> bool" where
  "is_digit ch \<longleftrightarrow> of_char CHR ''0'' \<le> (of_char ch :: nat) \<and> of_char ch \<le> (of_char CHR ''9'' :: nat)"

definition is_lower :: "char \<Rightarrow> bool" where
  "is_lower ch \<longleftrightarrow> of_char CHR ''a'' \<le> (of_char ch :: nat) \<and> of_char ch \<le> (of_char CHR ''z'' :: nat)"

definition is_upper :: "char \<Rightarrow> bool" where
  "is_upper ch \<longleftrightarrow> of_char CHR ''A'' \<le> (of_char ch :: nat) \<and> of_char ch \<le> (of_char CHR ''Z'' :: nat)"

definition BASE64_DECODED_ISVALID :: "char \<Rightarrow> bool" where
  "BASE64_DECODED_ISVALID ch \<longleftrightarrow>
     (is_lower ch \<or> is_upper ch) \<or> is_digit ch \<or> ch = CHR ''+'' \<or> ch = CHR ''/''"

definition BASE64_DECODED_BYTE :: "char \<Rightarrow> u8" where
  "BASE64_DECODED_BYTE ch =
     (if ch = CHR ''='' then 0
      else if ch = CHR ''/'' then 0x3F
      else if ch = CHR ''+'' then 0x3E
      else if is_digit ch then of_char ch - of_char CHR ''0'' + 0x34
      else if is_lower ch then of_char ch - of_char CHR ''a'' + 0x1A
      else of_char ch - of_char CHR ''A'')"

text \<open>\<^verbatim>\<open>strchr\<close> also finds the terminating NUL of the white space string.\<close>

definition is_whitespace :: "char \<Rightarrow> bool" where
  "is_whitespace ch \<longleftrightarrow> ch \<in> {CHR 0x0D, CHR 0x0A, CHR 0x09, CHR '' '', CHR 0x00}"

fun trim_trailing :: "string \<Rightarrow> nat \<Rightarrow> nat \<Rightarrow> nat \<times> nat" where
  "trim_trailing buf 0 whitespace = (0, whitespace)"
| "trim_trailing buf (Suc n) whitespace =
     (if is_whitespace (buf ! n) then trim_trailing buf n (whitespace + 1) else (Suc n, whitespace))"

function skip_whitespace :: "string \<Rightarrow> nat \<Rightarrow> nat \<Rightarrow> nat \<Rightarrow> nat \<times> nat" where
  "skip_whitespace buf len j whitespace =
     (if j + 4 < len \<and> is_whitespace (buf ! (j + 4))
      then skip_whitespace buf len (j + 1) (whitespace + 1) else (j, whitespace))"
  by auto
termination by (relation "measure (\<lambda>(buf, len, j, w). len - j)") auto

declare skip_whitespace.simps [simp del]

definition chunk_valid :: "string \<Rightarrow> nat \<Rightarrow> nat \<Rightarrow> bool" where
  "chunk_valid buf len j \<longleftrightarrow>
     \<not> (\<not> BASE64_DECODED_ISVALID (buf ! j)
        \<or> \<not> BASE64_DECODED_ISVALID (buf ! (j + 1))
        \<or> (\<not> BASE64_DECODED_ISVALID (buf ! (j + 2)) \<and> (j + 2 < len - 2 \<or> buf ! (j + 2) \<noteq> CHR ''=''))
        \<or> (\<not> BASE64_DECODED_ISVALID (buf ! (j + 3)) \<and> (j + 3 < len - 2 \<or> buf ! (j + 3) \<noteq> CHR ''='')))"

definition decode_chunk :: "string \<Rightarrow> nat \<Rightarrow> u8 list" where
  "decode_chunk buf j =
     (let d0 = BASE64_DECODED_BYTE (buf ! j); d1 = BASE64_DECODED_BYTE (buf ! (j + 1));
          d2 = BASE64_DECODED_BYTE (buf ! (j + 2)); d3 = BASE64_DECODED_BYTE (buf ! (j + 3)) in
      [push_bit 2 (d0 AND 0x3F) OR drop_bit 4 (d1 AND 0x30),
       push_bit 4 (d1 AND 0x0F) OR drop_bit 2 (d2 AND 0x3C),
       push_bit 6 (d2 AND 0x03) OR (d3 AND 0x3F)])"

definition chunk_padding :: "string \<Rightarrow> nat \<Rightarrow> nat \<Rightarrow> nat" where
  "chunk_padding buf len j =
     (if j + 4 = len
      then (if buf ! (j + 2) = CHR ''='' then 1 else 0) + (if buf ! (j + 3) = CHR ''='' then 1 else 0)
      else 0)"

lemma skip_whitespace_ge: "j \<le> fst (skip_whitespace buf len j w)"
proof (induction buf len j w rule: skip_whitespace.induct)
  case (1 buf len j w)
  then show ?case by (subst skip_whitespace.simps) auto
qed

text \<open>The decoding loop, with the target buffer \<open>out\<close>: the final \<open>(j, k, padding, whitespace, out)\<close>.\<close>

function decode_loop ::
    "string \<Rightarrow> nat \<Rightarrow> nat \<Rightarrow> nat \<Rightarrow> nat \<Rightarrow> nat \<Rightarrow> nat \<Rightarrow> u8 list \<Rightarrow> (nat \<times> nat \<times> nat \<times> nat \<times> u8 list) option" where
  "decode_loop buf len target_len j k padding whitespace out =
     (if j + 3 < len \<and> k + 2 < target_len then
        if \<not> chunk_valid buf len j then Some (j, k, padding, whitespace, out)
        else if length out \<le> k + 2 then None
        else (case skip_whitespace buf len j whitespace of (j', whitespace') \<Rightarrow>
                decode_loop buf len target_len (j' + 4) (k + 3) (padding + chunk_padding buf len j) whitespace'
                  (take k out @ decode_chunk buf j @ drop (k + 3) out))
      else Some (j, k, padding, whitespace, out))"
  by auto
termination
proof (relation "measure (\<lambda>(buf, len, tl, j, k, p, w, out). len - j)", goal_cases)
  case (2 buf len target_len j k padding whitespace out j' whitespace')
  then have "j \<le> j'" using skip_whitespace_ge [of j buf len whitespace] by (metis fst_conv)
  with 2 show ?case by auto
qed simp

declare decode_loop.simps [simp del]

definition esif_base64_decode ::
    "u8 list option \<Rightarrow> size_t option \<Rightarrow> string option \<Rightarrow> size_t
     \<Rightarrow> (esif_rc \<times> u8 list option \<times> size_t option) option" where
  "esif_base64_decode target_buf target_len encoded_buf encoded_len =
     (if unat encoded_len > MAX_BASE64_ENCODED_LEN
      then Some (ESIF_E_PARAMETER_IS_OUT_OF_BOUNDS, target_buf, target_len)
      else if target_len \<noteq> None \<and> unat (the target_len) < BASE64_DECODED_BUFFER_LEN (unat encoded_len)
      then Some (ESIF_E_NEED_LARGER_BUFFER, target_buf,
                 Some (of_nat (BASE64_DECODED_BUFFER_LEN (unat encoded_len))))
      else (case (target_buf, target_len, encoded_buf) of
              (Some out, Some tlen, Some buf) \<Rightarrow>
                if length buf < unat encoded_len then None
                else (case trim_trailing buf (unat encoded_len) 0 of (len, ws) \<Rightarrow> do {
                  (j, k, padding, whitespace, out') \<leftarrow> decode_loop buf len (unat tlen) 0 0 0 ws out;
                  if j = len \<and> of_nat k = tlen - of_nat (BASE64_DECODED_BUFFER_LEN whitespace)
                  then Some (ESIF_OK, Some out', Some (of_nat (k - padding)))
                  else Some (ESIF_E_COMMAND_DATA_INVALID, Some out', Some tlen) })
            | _ \<Rightarrow> Some (ESIF_E_PARAMETER_IS_NULL, target_buf, target_len)))"

section \<open>The alphabet and the bit arithmetic\<close>

lemma asciimap_facts:
  "list_all (\<lambda>(i, c). BASE64_DECODED_ISVALID c \<and> \<not> is_whitespace c
     \<and> c \<noteq> CHR ''='' \<and> BASE64_DECODED_BYTE c = i) (zip (map of_nat [0..<64]) base64_asciimap)"
  by (simp add: base64_asciimap_def BASE64_DECODED_BYTE_def is_digit_def is_lower_def is_upper_def
      BASE64_DECODED_ISVALID_def is_whitespace_def upt_conv_Cons)

lemma ascii_facts [simp]:
  assumes "unat x < 64"
  shows "BASE64_DECODED_ISVALID (ascii x)" "\<not> is_whitespace (ascii x)" "ascii x \<noteq> CHR ''=''"
    "BASE64_DECODED_BYTE (ascii x) = x"
proof -
  have "length base64_asciimap = 64" by (simp add: base64_asciimap_def)
  then have "(x, ascii x) \<in> set (zip (map of_nat [0..<64]) base64_asciimap)"
    using assms by (auto simp: in_set_zip ascii_def intro!: exI [of _ "unat x"])
  with asciimap_facts show "BASE64_DECODED_ISVALID (ascii x)" "\<not> is_whitespace (ascii x)"
    "ascii x \<noteq> CHR ''=''" "BASE64_DECODED_BYTE (ascii x) = x" by (auto simp: list_all_iff)
qed

lemma pad_facts [simp]:
  "\<not> is_whitespace (CHR ''='')" "BASE64_DECODED_BYTE (CHR ''='') = 0"
  by (simp_all add: is_whitespace_def BASE64_DECODED_BYTE_def)

lemma byte_eqI:
  assumes "bit (v :: u8) 0 = bit w 0" "bit v 1 = bit w 1" "bit v 2 = bit w 2" "bit v 3 = bit w 3"
    "bit v 4 = bit w 4" "bit v 5 = bit w 5" "bit v 6 = bit w 6" "bit v 7 = bit w 7"
  shows "v = w"
proof (rule bit_word_eqI)
  fix n assume "n < LENGTH(8)"
  then consider "n = 0" | "n = 1" | "n = 2" | "n = 3" | "n = 4" | "n = 5" | "n = 6" | "n = 7" by fastforce
  then show "bit v n = bit w n" using assms by cases simp_all
qed

lemma bit_byte_ge: "8 \<le> n \<Longrightarrow> \<not> bit (a :: u8) n"
  using bit_imp_le_length [of a n] by auto

lemmas sextet_defs = sextet0_def sextet1_def sextet2_def sextet3_def
lemmas bit_evals = bit_and_iff bit_or_iff bit_push_bit_iff bit_drop_bit_eq bit_unsigned_iff bit_ucast_iff bit_byte_ge possible_bit_word

lemma octet0: "push_bit 2 (sextet0 a AND 0x3F) OR drop_bit 4 (sextet1 a b AND 0x30) = a"
  by (rule byte_eqI; simp add: sextet_defs bit_evals)


lemma octet1: "push_bit 4 (sextet1 a b AND 0x0F) OR drop_bit 2 (sextet2 b c AND 0x3C) = b"
  by (rule byte_eqI; simp add: sextet_defs bit_evals)

lemma octet2: "push_bit 6 (sextet2 b c AND 0x03) OR (sextet3 c AND 0x3F) = c"
  by (rule byte_eqI; simp add: sextet_defs bit_evals)

lemma sextet1_0: "ucast (push_bit 4 (to_int a) AND 0x3F) = sextet1 a 0" by (simp add: sextet1_def)
lemma sextet2_0: "ucast (push_bit 2 (to_int b) AND 0x3F) = sextet2 b 0" by (simp add: sextet2_def)
lemma sextet_0: "sextet2 0 0 = 0" "sextet3 0 = 0" by (simp_all add: sextet_defs)

lemmas octets = octet0 octet1 octet2 octet1 [where c = 0, unfolded sextet2_0]

lemma unat_6bit: "unat (w AND 0x3F :: 'a::len word) < 64"
proof -
  have "w AND 0x3F = take_bit 6 w" by (simp add: take_bit_eq_mask mask_eq_exp_minus_1)
  then show ?thesis using take_bit_nat_less_exp [of 6 "unat w"] by (simp add: unsigned_take_bit_eq)
qed

lemma sextet_less [simp]:
  "unat (sextet0 a) < 64" "unat (sextet1 a b) < 64" "unat (sextet2 a b) < 64" "unat (sextet3 a) < 64"
proof -
  have "sextet0 a = sextet0 a AND 0x3F" "sextet1 a b = sextet1 a b AND 0x3F"
     "sextet2 a b = sextet2 a b AND 0x3F" "sextet3 a = sextet3 a AND 0x3F"
    by (rule byte_eqI; simp add: sextet_defs bit_evals)+
  then show "unat (sextet0 a) < 64" "unat (sextet1 a b) < 64" "unat (sextet2 a b) < 64" "unat (sextet3 a) < 64"
    by (metis unat_6bit)+
qed

section \<open>A list view of the encoder\<close>

fun enc_list :: "u8 list \<Rightarrow> string" where
  "enc_list (a # b # c # rest) =
     ascii (sextet0 a) # ascii (sextet1 a b) # ascii (sextet2 b c) # ascii (sextet3 c) # enc_list rest"
| "enc_list [a, b] = [ascii (sextet0 a), ascii (sextet1 a b), ascii (sextet2 b 0), CHR ''='']"
| "enc_list [a] = [ascii (sextet0 a), ascii (sextet1 a 0), CHR ''='', CHR ''='']"
| "enc_list [] = []"

lemma encoded_text_enc_list: "encoded_text data (length data) = enc_list data"
proof (induction data rule: enc_list.induct)
  case (1 a b c rest)
  have blk: "encode_block (a # b # c # rest) (Suc i) = encode_block rest i" for i
    by (simp add: encode_block_def)
  have tl: "encode_tail (a # b # c # rest) (Suc i) r = encode_tail rest i r" for i r
    by (simp add: encode_tail_def)
  have "encode_block (a # b # c # rest) 0 = [ascii (sextet0 a), ascii (sextet1 a b), ascii (sextet2 b c), ascii (sextet3 c)]"
    by (simp add: encode_block_def)
  moreover have "length (a # b # c # rest) div 3 = Suc (length rest div 3)"
    "length (a # b # c # rest) mod 3 = length rest mod 3" by simp_all
  moreover have "[0..<Suc m] = 0 # map Suc [0..<m]" for m
    by (simp add: upt_conv_Cons map_Suc_upt del: upt_Suc)
  ultimately show ?case using 1
    by (simp only: encoded_text_def list.map concat.simps map_map comp_def blk tl) simp
qed (auto simp: encoded_text_def encode_tail_def sextet1_0 sextet2_0)

lemma length_enc_list: "length (enc_list data) = 4 * ((length data + 2) div 3)"
proof (induction data rule: enc_list.induct)
  case (1 a b c rest)
  have "(length (a # b # c # rest) + 2) div 3 = Suc ((length rest + 2) div 3)" by simp
  with 1 show ?case by (simp only: enc_list.simps list.size) simp
qed auto

lemma enc_list_no_ws: "\<forall>c\<in>set (enc_list data). \<not> is_whitespace c"
  by (induction data rule: enc_list.induct) auto

definition pad_count :: "u8 list \<Rightarrow> nat" where
  "pad_count data = (3 - length data mod 3) mod 3"

lemma length_pad: "length data + pad_count data = 3 * ((length data + 2) div 3)"
proof (induction data rule: enc_list.induct)
  case (1 a b c rest)
  have "(length (a # b # c # rest) + 2) div 3 = Suc ((length rest + 2) div 3)"
    "pad_count (a # b # c # rest) = pad_count rest" by (simp_all add: pad_count_def)
  with 1 show ?case by (simp only: list.size) simp
qed (auto simp: pad_count_def)

section \<open>Decoding what was encoded\<close>

lemma skip_none:
  "(j + 4 < len \<Longrightarrow> \<not> is_whitespace (buf ! (j + 4))) \<Longrightarrow> skip_whitespace buf len j w = (j, w)"
  by (subst skip_whitespace.simps) auto

lemma decode_loop_chunk:
  assumes "j + 3 < len" "k + 2 < tlen" "chunk_valid buf len j" "k + 2 < length out"
    "j + 4 < len \<Longrightarrow> \<not> is_whitespace (buf ! (j + 4))"
  shows "decode_loop buf len tlen j k p w out =
    decode_loop buf len tlen (j + 4) (k + 3) (p + chunk_padding buf len j) w
      (take k out @ decode_chunk buf j @ drop (k + 3) out)"
  using assms by (subst decode_loop.simps) (simp add: skip_none)

lemma decode_loop_stop:
  "\<not> (j + 3 < len \<and> k + 2 < tlen) \<Longrightarrow> decode_loop buf len tlen j k p w out = Some (j, k, p, w, out)"
  by (subst decode_loop.simps) (simp only: if_False)

lemma nth_suffix:
  "length pre = j \<Longrightarrow> (pre @ x # xs) ! j = x"
  "length pre = j \<Longrightarrow> (pre @ x # y # xs) ! (j + 1) = y"
  "length pre = j \<Longrightarrow> (pre @ x # y # z # xs) ! (j + 2) = z"
  "length pre = j \<Longrightarrow> (pre @ x # y # z # u # xs) ! (j + 3) = u"
  by (auto simp: nth_append)

lemma chunk_suffix:
  assumes "length pre = j"
  shows "chunk_valid (pre @ c0 # c1 # c2 # c3 # post) len j \<longleftrightarrow>
      BASE64_DECODED_ISVALID c0 \<and> BASE64_DECODED_ISVALID c1
      \<and> (BASE64_DECODED_ISVALID c2 \<or> len - 2 \<le> j + 2 \<and> c2 = CHR ''='')
      \<and> (BASE64_DECODED_ISVALID c3 \<or> len - 2 \<le> j + 3 \<and> c3 = CHR ''='')"
    and "chunk_padding (pre @ c0 # c1 # c2 # c3 # post) len j =
      (if j + 4 = len then (if c2 = CHR ''='' then 1 else 0) + (if c3 = CHR ''='' then 1 else 0) else 0)"
    and "decode_chunk (pre @ c0 # c1 # c2 # c3 # post) j =
      decode_chunk [c0, c1, c2, c3] 0"
  by (simp_all only: chunk_valid_def chunk_padding_def decode_chunk_def nth_suffix [OF assms])
    (auto simp: not_less nth_Cons')

lemma decode_ascii:
  "decode_chunk [ascii (sextet0 a), ascii (sextet1 a b), ascii (sextet2 b c), ascii (sextet3 c)] 0 = [a, b, c]"
  "decode_chunk [ascii (sextet0 a), ascii (sextet1 a b), ascii (sextet2 b 0), CHR ''=''] 0 = [a, b, 0]"
  "decode_chunk [ascii (sextet0 a), ascii (sextet1 a 0), CHR ''='', CHR ''=''] 0 = [a, 0, 0]"
  using octets(1) [of a b] octets(2) [of a b c] octets(3) [of b c] octets(1) [of a 0] octets(2) [of a b 0]
    octets(3) [of b 0] octets(2) [of a 0 0] sextet_0
  by (simp_all only: decode_chunk_def Let_def nth_Cons_0 nth_Cons_Suc One_nat_def numeral_2_eq_2 numeral_3_eq_3
      add_0 ascii_facts [OF sextet_less(1)] ascii_facts [OF sextet_less(2)] ascii_facts [OF sextet_less(3)]
      ascii_facts [OF sextet_less(4)] pad_facts) simp_all

lemma decode_loop_enc_list:
  assumes "length orest = 3 * ((length data + 2) div 3)" "length pre = j" "length opre = k"
  shows "decode_loop (pre @ enc_list data) (j + length (enc_list data)) (k + length orest) j k p w (opre @ orest)
    = Some (j + length (enc_list data), k + length orest, p + pad_count data, w,
            opre @ data @ replicate (pad_count data) 0)"
  using assms
proof (induction data arbitrary: pre opre orest j k p rule: enc_list.induct)
  case (1 a b c rest)
  let ?e = "[ascii (sextet0 a), ascii (sextet1 a b), ascii (sextet2 b c), ascii (sextet3 c)]"
  let ?buf = "pre @ enc_list (a # b # c # rest)" and ?len = "j + length (enc_list (a # b # c # rest))"
  have "(length (a # b # c # rest) + 2) div 3 = Suc ((length rest + 2) div 3)" by simp
  with 1 have olen: "length orest = 3 + 3 * ((length rest + 2) div 3)" by simp
  have cv: "chunk_valid ?buf ?len j" "chunk_padding ?buf ?len j = 0" "decode_chunk ?buf j = [a, b, c]"
    using "1.prems"(2) by (simp_all add: chunk_suffix decode_ascii)
  have ws: "\<not> is_whitespace (?buf ! (j + 4))" if "j + 4 < ?len"
  proof -
    have "?buf ! (j + 4) = enc_list rest ! 0" using "1.prems"(2) by (simp add: nth_append)
    with that enc_list_no_ws [of rest] show ?thesis by (simp add: nth_mem)
  qed
  have len: "?len = (j + 4) + length (enc_list rest)" by simp
  have "decode_loop ?buf ?len (k + length orest) j k p w (opre @ orest) =
      decode_loop ((pre @ ?e) @ enc_list rest) ((j + 4) + length (enc_list rest))
        ((k + 3) + length (drop 3 orest)) (j + 4) (k + 3) p w ((opre @ [a, b, c]) @ drop 3 orest)"
    using decode_loop_chunk [of j ?len k "k + length orest" ?buf "opre @ orest" p w] cv ws olen "1.prems"
    unfolding len by (simp add: algebra_simps)
  also have "\<dots> = Some ((j + 4) + length (enc_list rest), (k + 3) + length (drop 3 orest), p + pad_count rest, w,
      (opre @ [a, b, c]) @ rest @ replicate (pad_count rest) 0)"
    by (rule "1.IH") (use olen "1.prems" in auto)
  finally show ?case using olen by (simp add: pad_count_def)
next
  case (2 a b)
  then show ?case
    by (simp add: decode_loop_chunk decode_loop_stop chunk_suffix decode_ascii pad_count_def)
next
  case (3 a)
  then show ?case
    by (simp add: decode_loop_chunk decode_loop_stop chunk_suffix decode_ascii pad_count_def numeral_2_eq_2)
next
  case 4
  then show ?case by (simp add: decode_loop_stop pad_count_def)
qed

section \<open>Round trip\<close>

text \<open>The two calls as a client makes them: with buffers of the sizes the macros prescribe.\<close>

definition base64_fits :: "u8 list \<Rightarrow> bool" where
  "base64_fits data \<longleftrightarrow> 4 * ((length data + 2) div 3) + 1 \<le> MAX_BASE64_ENCODED_LEN"

definition encode_client :: "u8 list \<Rightarrow> string option" where
  "encode_client data =
     (let n = of_nat (length data); cap = BASE64_ENCODED_LENGTH n in
      case esif_base64_encode (Some (replicate (unat cap) CHR 0x00)) cap (Some data) n of
        Some (rc, Some text) \<Rightarrow> if rc = ESIF_OK then Some (takeWhile (\<lambda>c. c \<noteq> CHR 0x00) text) else None
      | _ \<Rightarrow> None)"

definition decode_client :: "string \<Rightarrow> u8 list option" where
  "decode_client text =
     (let cap = BASE64_DECODED_BUFFER_LEN (length text) in
      case esif_base64_decode (Some (replicate cap 0)) (Some (of_nat cap)) (Some text) (of_nat (length text)) of
        Some (rc, Some out, Some n) \<Rightarrow> if rc = ESIF_OK then Some (take (unat n) out) else None
      | _ \<Rightarrow> None)"

lemma encoded_length_word:
  assumes "base64_fits data"
  shows "unat (of_nat (length data) :: size_t) = length data"
    "unat (BASE64_ENCODED_LENGTH (of_nat (length data))) = 4 * ((length data + 2) div 3) + 1"
proof -
  have small: "length data + 2 < 2 ^ 40" "4 * ((length data + 2) div 3) + 1 < 2 ^ 40"
    using assms by (simp_all add: base64_fits_def)
  show n: "unat (of_nat (length data) :: size_t) = length data"
    using small by (simp add: unat_of_nat_eq_len)
  have "unat ((of_nat (length data + 2) :: size_t) div 3) = (length data + 2) div 3"
    using small unat_of_nat_eq_len [of "length data + 2", where 'a = 64]
    by (simp only: unat_div_distrib) simp
  then have "(of_nat (length data + 2) :: size_t) div 3 = of_nat ((length data + 2) div 3)"
    by (metis of_nat_unat ucast_id)
  then have "BASE64_ENCODED_LENGTH (of_nat (length data)) = of_nat (4 * ((length data + 2) div 3) + 1)"
    by (simp add: BASE64_ENCODED_LENGTH_def add.commute)
  moreover have "4 * ((length data + 2) div 3) + 1 < 2 ^ LENGTH(64)" using small by simp
  ultimately show "unat (BASE64_ENCODED_LENGTH (of_nat (length data))) = 4 * ((length data + 2) div 3) + 1"
    by (simp only: unat_of_nat_eq_len)
qed

lemma enc_list_chars: "c \<in> set (enc_list data) \<Longrightarrow> c \<noteq> CHR 0x00"
  using enc_list_no_ws [of data] by (auto simp: is_whitespace_def)

lemma encode_ok:
  assumes "base64_fits data" "length target = unat tlen"
    "4 * ((length data + 2) div 3) + 1 \<le> unat tlen"
  shows "esif_base64_encode (Some target) tlen (Some data) (of_nat (length data))
    = Some (ESIF_OK, Some (enc_list data @ CHR 0x00 # drop (length (enc_list data) + 1) target))"
proof -
  have "\<not> tlen < BASE64_ENCODED_LENGTH (of_nat (length data))"
    using assms encoded_length_word(2) [OF assms(1)] by (simp add: word_less_nat_alt)
  with assms encoded_length_word [OF assms(1)] show ?thesis
    by (simp add: esif_base64_encode_def Let_def encoded_text_enc_list length_enc_list base64_fits_def)
qed

lemma encode_client_eq: "base64_fits data \<Longrightarrow> encode_client data = Some (enc_list data)"
  using encoded_length_word(2) [of data] enc_list_chars [of _ data]
  by (simp add: encode_client_def Let_def encode_ok takeWhile_append2)

lemma trim_none:
  assumes "length buf = n" "\<forall>c\<in>set buf. \<not> is_whitespace c"
  shows "trim_trailing buf n w = (n, w)"
  using assms by (cases n) auto

lemma decode_enc_list:
  assumes "base64_fits data" "length out = 3 * ((length data + 2) div 3)"
  shows "esif_base64_decode (Some out) (Some (of_nat (length out))) (Some (enc_list data))
      (of_nat (length (enc_list data)))
    = Some (ESIF_OK, Some (data @ replicate (pad_count data) 0), Some (of_nat (length data)))"
proof -
  have small: "length (enc_list data) < 2 ^ 40" "length (enc_list data) \<le> MAX_BASE64_ENCODED_LEN"
    using assms(1) by (simp_all add: base64_fits_def length_enc_list)
  then have u: "unat (of_nat (length (enc_list data)) :: size_t) = length (enc_list data)"
    by (simp add: unat_of_nat_eq_len)
  have cap: "BASE64_DECODED_BUFFER_LEN (length (enc_list data)) = length out"
    using assms(2) by (simp add: BASE64_DECODED_BUFFER_LEN_def length_enc_list)
  have ou: "unat (of_nat (length out) :: size_t) = length out"
  proof -
    have "length out < 2 ^ 40" using small(1) assms(2) by (simp add: length_enc_list)
    then show ?thesis by (simp add: unat_of_nat_eq_len)
  qed
  have loop: "decode_loop (enc_list data) (length (enc_list data)) (length out) 0 0 0 0 out
      = Some (length (enc_list data), length out, pad_count data, 0, data @ replicate (pad_count data) 0)"
    using decode_loop_enc_list [of out data "[]" 0 "[]" 0 0 0] assms(2) by simp
  have pad: "length out - pad_count data = length data"
    using assms(2) length_pad [of data] by simp
  show ?thesis using small u cap ou loop pad trim_none [OF refl enc_list_no_ws [of data]]
    by (simp add: esif_base64_decode_def BASE64_DECODED_BUFFER_LEN_def [of 0])
qed

lemma decode_client_enc_list: "base64_fits data \<Longrightarrow> decode_client (enc_list data) = Some data"
  using decode_enc_list [of data "replicate (3 * ((length data + 2) div 3)) 0"]
  by (simp add: decode_client_def Let_def BASE64_DECODED_BUFFER_LEN_def length_enc_list encoded_length_word(1)
      mult.commute [of _ 3])

interpretation base64: codec base64_fits encode_client decode_client
  by unfold_locales (auto simp: encode_client_eq decode_client_enc_list)

section \<open>The decoder on arbitrary input\<close>

lemma skip_whitespace_spec:
  "skip_whitespace buf len j w = (j', w') \<Longrightarrow> j' + w = j + w' \<and> w \<le> w' \<and> (j + 3 < len \<longrightarrow> j' + 3 < len)"
proof (induction buf len j w rule: skip_whitespace.induct)
  case (1 buf len j w)
  then show ?case by (subst (asm) (2) skip_whitespace.simps) (auto split: if_splits)
qed

lemma decode_loop_total:
  assumes "target_len \<le> length out" "4 * k + 3 * w = 3 * j + 3 * w0" "j \<le> len" "w0 \<le> w"
  shows "\<exists>j' k' p' w' out'. decode_loop buf len target_len j k p w out = Some (j', k', p', w', out')
    \<and> length out' = length out \<and> 4 * k' + 3 * w' = 3 * j' + 3 * w0 \<and> j' \<le> len \<and> w0 \<le> w'"
  using assms
proof (induction buf len target_len j k p w out rule: decode_loop.induct)
  case (1 buf len tlen j k p w out)
  show ?case
  proof (cases "j + 3 < len \<and> k + 2 < tlen \<and> chunk_valid buf len j")
    case False
    with "1.prems" show ?thesis by (subst decode_loop.simps) auto
  next
    case True
    obtain j1 w1 where sk: "skip_whitespace buf len j w = (j1, w1)" by fastforce
    let ?out = "take k out @ decode_chunk buf j @ drop (k + 3) out"
    have "length ?out = length out" using True "1.prems"(1) by (auto simp: decode_chunk_def Let_def)
    moreover have "\<exists>j' k' p' w' out'. decode_loop buf len tlen (j1 + 4) (k + 3) (p + chunk_padding buf len j) w1 ?out
        = Some (j', k', p', w', out')
      \<and> length out' = length ?out \<and> 4 * k' + 3 * w' = 3 * j' + 3 * w0 \<and> j' \<le> len \<and> w0 \<le> w'"
      by (rule "1.IH" [OF _ _ _ sk [symmetric]])
        (use True "1.prems" skip_whitespace_spec [OF sk] calculation in auto)
    ultimately show ?thesis using True sk "1.prems"(1) by (subst decode_loop.simps) simp
  qed
qed

lemma trim_trailing_spec:
  "trim_trailing buf n w = (len, w') \<Longrightarrow> len + w' = n + w \<and> w \<le> w'"
  by (induction buf n w rule: trim_trailing.induct) (auto split: if_splits)

lemma buffer_len_split: "BASE64_DECODED_BUFFER_LEN (4 * n + w) = 3 * n + BASE64_DECODED_BUFFER_LEN w"
proof -
  have "(4 * n + w + 3) div 4 = n + (w + 3) div 4" by presburger
  then show ?thesis by (simp add: BASE64_DECODED_BUFFER_LEN_def)
qed

lemma buffer_len_mono: "m \<le> n \<Longrightarrow> BASE64_DECODED_BUFFER_LEN m \<le> BASE64_DECODED_BUFFER_LEN n"
  by (simp add: BASE64_DECODED_BUFFER_LEN_def div_le_mono)

lemma decode_run:
  assumes "unat encoded_len \<le> MAX_BASE64_ENCODED_LEN" "length buf = unat encoded_len"
    "length out = unat tlen" "BASE64_DECODED_BUFFER_LEN (unat encoded_len) \<le> unat tlen"
  shows "\<exists>out' n. length out' = length out \<and>
    (esif_base64_decode (Some out) (Some tlen) (Some buf) encoded_len = Some (ESIF_E_COMMAND_DATA_INVALID, Some out', Some tlen)
     \<or> esif_base64_decode (Some out) (Some tlen) (Some buf) encoded_len = Some (ESIF_OK, Some out', Some n)
       \<and> unat n \<le> unat tlen \<and> unat tlen = BASE64_DECODED_BUFFER_LEN (unat encoded_len))"
proof -
  obtain len ws where tr: "trim_trailing buf (unat encoded_len) 0 = (len, ws)" by fastforce
  note sp = trim_trailing_spec [OF tr]
  from decode_loop_total [of "unat tlen" out 0 ws 0 ws len buf 0] assms(3) obtain j k p w out' where
    lp: "decode_loop buf len (unat tlen) 0 0 0 ws out = Some (j, k, p, w, out')" "length out' = length out"
      "4 * k + 3 * w = 3 * j + 3 * ws" "j \<le> len" "ws \<le> w" by auto
  let ?ok = "j = len \<and> of_nat k = tlen - of_nat (BASE64_DECODED_BUFFER_LEN w)"
  have run: "esif_base64_decode (Some out) (Some tlen) (Some buf) encoded_len =
    (if ?ok then Some (ESIF_OK, Some out', Some (of_nat (k - p)))
     else Some (ESIF_E_COMMAND_DATA_INVALID, Some out', Some tlen))"
    using assms tr lp(1) by (simp add: esif_base64_decode_def)
  show ?thesis
  proof (cases ?ok)
    case True
    from lp(3) sp True have k4: "4 * k + 3 * w = 3 * unat encoded_len" by simp
    then obtain n where n: "k = 3 * n" by (metis coprime_dvd_mult_right_iff dvdE dvd_add_left_iff dvd_triv_left
          coprime_Suc_right_nat numeral_eq_Suc pred_numeral_simps(2) pred_numeral_simps(3) BitM.simps)
    with k4 have el: "unat encoded_len = 4 * n + w" by simp
    then have cap: "BASE64_DECODED_BUFFER_LEN (unat encoded_len) = k + BASE64_DECODED_BUFFER_LEN w"
      using n buffer_len_split by simp
    have ktl: "k + BASE64_DECODED_BUFFER_LEN w \<le> unat tlen" using assms(4) cap by simp
    from True have "tlen = of_nat (k + BASE64_DECODED_BUFFER_LEN w)" by (simp add: eq_diff_eq)
    moreover have "k + BASE64_DECODED_BUFFER_LEN w < 2 ^ LENGTH(64)"
      using ktl unat_less_2p [of tlen] by linarith
    ultimately have tl: "unat tlen = k + BASE64_DECODED_BUFFER_LEN w" by (simp only: unat_of_nat_eq_len)
    have "k - p < 2 ^ LENGTH(64)" using ktl unat_less_2p [of tlen] by linarith
    then have "unat (of_nat (k - p) :: size_t) = k - p" by (rule unat_of_nat_eq_len)
    with run True lp(2) tl cap show ?thesis by (intro exI [of _ out'] exI [of _ "of_nat (k - p)"]) simp
  next
    case False
    with run lp(2) show ?thesis by auto
  qed
qed

section \<open>Properties\<close>

text \<open>
  C13. Base64 round trip: for data within the supported size, \<^verbatim>\<open>esif_base64_encode\<close> into a buffer
  of the size given by \<^verbatim>\<open>BASE64_ENCODED_LENGTH\<close> succeeds, and \<^verbatim>\<open>esif_base64_decode\<close> of that text
  into a buffer of the size it asks for returns exactly the original bytes and length.
\<close>

theorem base64_roundtrip:
  assumes "base64_fits data"
  shows "Option.bind (encode_client data) decode_client = Some data"
  using base64.roundtrip [OF assms] .

theorem base64_roundtrip_witness:
  "base64_fits [0x4D, 0x61, 0x6E, 0xFF] \<and> encode_client [0x4D, 0x61, 0x6E, 0xFF] = Some ''TWFu/w==''
   \<and> Option.bind (encode_client [0x4D, 0x61, 0x6E, 0xFF]) decode_client = Some [0x4D, 0x61, 0x6E, 0xFF]"
proof -
  have fits: "base64_fits [0x4D, 0x61, 0x6E, 0xFF]" by (simp add: base64_fits_def)
  have "enc_list [0x4D, 0x61, 0x6E, 0xFF] = ''TWFu/w==''"
    by (simp add: ascii_def sextet_defs base64_asciimap_def)
  with fits encode_client_eq [OF fits] base64_roundtrip [OF fits] show ?thesis by simp
qed

text \<open>
  \<^verbatim>\<open>esif_base64_encode\<close> writes exactly the encoded text and its NUL into a sufficiently large
  target and leaves the rest of the target as it was; the length is
  \<open>4 * \<lceil>n / 3\<rceil> + 1\<close>, and no access is outside the two buffers.
\<close>

theorem base64_encode_in_bounds:
  assumes "base64_fits data" "length target = unat tlen" "4 * ((length data + 2) div 3) + 1 \<le> unat tlen"
  shows "\<exists>text. esif_base64_encode (Some target) tlen (Some data) (of_nat (length data))
      = Some (ESIF_OK, Some (text @ CHR 0x00 # drop (length text + 1) target))
    \<and> length text = 4 * ((length data + 2) div 3) \<and> CHR 0x00 \<notin> set text"
  using encode_ok [OF assms] enc_list_chars [of "CHR 0x00" data] length_enc_list [of data] by blast

theorem base64_encode_in_bounds_witness:
  "\<exists>text. esif_base64_encode (Some (replicate 8 CHR ''x'')) 8 (Some [0x4D]) 1
      = Some (ESIF_OK, Some (text @ CHR 0x00 # drop (length text + 1) (replicate 8 CHR ''x''))) \<and> length text = 4"
  using base64_encode_in_bounds [of "[0x4D]" "replicate 8 CHR ''x''" 8] by (auto simp: base64_fits_def)

text \<open>
  C23. \<^verbatim>\<open>esif_base64_decode\<close> is memory safe on arbitrary text: with buffers of the stated lengths it
  always returns, never accesses memory outside them, reports at most the target length on
  success, and success implies that the target length was exactly the size computed from the
  encoded length (a larger target buffer is refused as invalid data).
\<close>

theorem base64_decode_safe:
  assumes "length buf = unat encoded_len" "length out = unat tlen"
  shows "\<exists>rc out' n. esif_base64_decode (Some out) (Some tlen) (Some buf) encoded_len = Some (rc, Some out', Some n)
    \<and> length out' = length out
    \<and> (rc = ESIF_OK \<longrightarrow> unat n \<le> unat tlen \<and> unat tlen = BASE64_DECODED_BUFFER_LEN (unat encoded_len))"
proof (cases "unat encoded_len \<le> MAX_BASE64_ENCODED_LEN \<and> BASE64_DECODED_BUFFER_LEN (unat encoded_len) \<le> unat tlen")
  case True
  with decode_run [OF _ assms] show ?thesis by blast
next
  case False
  then show ?thesis by (auto simp: esif_base64_decode_def)
qed

theorem base64_decode_safe_witness:
  "\<exists>rc out' n. esif_base64_decode (Some [0, 0, 0, 0]) (Some 4) (Some ''TWFu'') 4 = Some (rc, Some out', Some n)
     \<and> rc \<noteq> ESIF_OK"
  using base64_decode_safe [of "''TWFu''" 4 "[0, 0, 0, 0]" 4] by (auto simp: BASE64_DECODED_BUFFER_LEN_def)

end
