(* ===== verification/Handle_Mgr.thy ===== *)
theory Handle_Mgr
  imports Interfaces
begin

text \<open>
  The handle manager of \<^verbatim>\<open>src/ESIF/Products/ESIF_UF/Sources/esif_uf_handlemgr.c\<close>: a growing bit map of
  slots in use, scanned round-robin from the last position; a handle is a slot number combined
  with an instance counter that counts the wrap-arounds. The singleton \<^verbatim>\<open>g_EsifHandleMgr\<close> is the
  state, passed explicitly. Words keep their widths; reading a line outside the allocated map
  is undefined (\<open>None\<close>). The properties show that two outstanding handles never coincide and
  that a free slot is always found.
\<close>

section \<open>State\<close>

record EsifHandleMgr =
  handleMapPtr :: "u64 list option"
  handleMapSize :: size_t
  numAvailableHandles :: u64
  curLine :: size_t
  curPos :: u32
  instanceCounter :: u64

abbreviation (input) ESIF_HNDLMGR_NUM_HANDLE_BITS :: nat where "ESIF_HNDLMGR_NUM_HANDLE_BITS \<equiv> 16"
abbreviation (input) ESIF_HNDLMGR_MAX_HANDLE_MAP_SIZE :: size_t where "ESIF_HNDLMGR_MAX_HANDLE_MAP_SIZE \<equiv> 8192"
abbreviation (input) ESIF_HNDLMGR_HANDLES_PER_LINE :: nat where "ESIF_HNDLMGR_HANDLES_PER_LINE \<equiv> 64"
abbreviation (input) ESIF_HNDLMGR_LINE_SIZE :: size_t where "ESIF_HNDLMGR_LINE_SIZE \<equiv> 8"
abbreviation (input) ESIF_HNDLMGR_HANDLE_MASK :: u64 where "ESIF_HNDLMGR_HANDLE_MASK \<equiv> 0xFFFF"

section \<open>Operations\<close>

definition EsifHandleMgr_IsReservedHandle :: "esif_handle_t \<Rightarrow> bool" where
  "EsifHandleMgr_IsReservedHandle handle \<longleftrightarrow>
     handle = ESIF_HANDLE_DEFAULT \<or> handle = ESIF_HANDLE_PRIMARY_PARTICIPANT
     \<or> handle = ESIF_HANDLE_MATCH_ANY_EVENT \<or> handle = ESIF_INVALID_HANDLE"

definition make_handle :: "u64 \<Rightarrow> nat \<Rightarrow> nat \<Rightarrow> esif_handle_t" where
  "make_handle counter lineNum pos =
     of_nat (lineNum * ESIF_HNDLMGR_HANDLES_PER_LINE + pos) OR push_bit ESIF_HNDLMGR_NUM_HANDLE_BITS counter"

text \<open>The inner loop over the positions of a line: the first free, not reserved one.\<close>

function find_pos :: "u64 \<Rightarrow> u64 \<Rightarrow> nat \<Rightarrow> nat \<Rightarrow> nat \<Rightarrow> nat option" where
  "find_pos counter line lineNum pos lastPos =
     (if pos \<le> lastPos then
        if \<not> bit line pos \<and> \<not> EsifHandleMgr_IsReservedHandle (make_handle counter lineNum pos)
        then Some pos else find_pos counter line lineNum (pos + 1) lastPos
      else None)"
  by auto
termination by (relation "measure (\<lambda>(c, l, n, pos, lastPos). Suc lastPos - pos)") auto

declare find_pos.simps [simp del]

function find_line :: "u64 \<Rightarrow> u64 list \<Rightarrow> nat \<Rightarrow> nat \<Rightarrow> nat \<Rightarrow> nat \<Rightarrow> (nat \<times> nat) option option" where
  "find_line counter lines lineNum stopLineNum pos stopPos =
     (if lineNum \<le> stopLineNum then
        if length lines \<le> lineNum then None
        else (case find_pos counter (lines ! lineNum) lineNum pos
                     (if lineNum = stopLineNum then stopPos else ESIF_HNDLMGR_HANDLES_PER_LINE - 1) of
                Some p \<Rightarrow> Some (Some (lineNum, p))
              | None \<Rightarrow> find_line counter lines (lineNum + 1) stopLineNum 0 stopPos)
      else Some None)"
  by auto
termination by (relation "measure (\<lambda>(c, ls, n, stop, pos, sp). Suc stop - n)") auto

declare find_line.simps [simp del]

definition EsifHandleMgr_FindHandleInRegion ::
    "EsifHandleMgr \<Rightarrow> size_t \<Rightarrow> size_t \<Rightarrow> u32 \<Rightarrow> u32
     \<Rightarrow> (esif_rc \<times> EsifHandleMgr \<times> esif_handle_t option) option" where
  "EsifHandleMgr_FindHandleInRegion self startLineNum stopLineNum startPos stopPos = do {
     lines \<leftarrow> handleMapPtr self;
     found \<leftarrow> find_line (instanceCounter self) lines (unat startLineNum) (unat stopLineNum)
                (unat startPos) (unat stopPos);
     (case found of
        None \<Rightarrow> Some (ESIF_E_INVALID_HANDLE, self, None)
      | Some (lineNum, pos) \<Rightarrow>
          Some (ESIF_OK,
                self\<lparr>handleMapPtr := Some (lines[lineNum := set_bit pos (lines ! lineNum)]),
                     curLine := of_nat lineNum, curPos := of_nat pos,
                     numAvailableHandles := numAvailableHandles self - 1\<rparr>,
                Some (make_handle (instanceCounter self) lineNum pos)))
   }"

definition EsifHandleMgr_FindHandle ::
    "EsifHandleMgr \<Rightarrow> (esif_rc \<times> EsifHandleMgr \<times> esif_handle_t option) option" where
  "EsifHandleMgr_FindHandle self = do {
     (rc, self1, handle) \<leftarrow>
       (if curPos self \<noteq> of_nat (ESIF_HNDLMGR_HANDLES_PER_LINE - 1)
           \<or> curLine self \<noteq> handleMapSize self div ESIF_HNDLMGR_LINE_SIZE - 1
        then EsifHandleMgr_FindHandleInRegion self (curLine self)
               (handleMapSize self div ESIF_HNDLMGR_LINE_SIZE - 1) (curPos self)
               (of_nat (ESIF_HNDLMGR_HANDLES_PER_LINE - 1))
        else Some (ESIF_E_INVALID_HANDLE, self, None));
     if rc \<noteq> ESIF_OK then
       let self2 = self1\<lparr>instanceCounter := instanceCounter self1 + 1\<rparr> in
       EsifHandleMgr_FindHandleInRegion self2 0 (curLine self2) 0 (curPos self2)
     else Some (rc, self1, handle)
   }"

definition EsifHandleMgr_AllocateAdditionalHandles ::
    "EsifHandleMgr \<Rightarrow> allocator \<Rightarrow> esif_rc \<times> EsifHandleMgr \<times> allocator" where
  "EsifHandleMgr_AllocateAdditionalHandles self m =
     (case esif_ccb_malloc m of
        (None, m') \<Rightarrow> (ESIF_E_NO_MEMORY, self, m')
      | (Some _, m') \<Rightarrow>
          (ESIF_OK,
           self\<lparr>handleMapPtr := Some ((case handleMapPtr self of None \<Rightarrow> [] | Some lines \<Rightarrow> lines) @ [0]),
                handleMapSize := handleMapSize self + ESIF_HNDLMGR_LINE_SIZE,
                numAvailableHandles := numAvailableHandles self + of_nat ESIF_HNDLMGR_HANDLES_PER_LINE\<rparr>, m'))"

definition EsifHandleMgr_GetHandle ::
    "EsifHandleMgr \<Rightarrow> allocator \<Rightarrow> (esif_rc \<times> EsifHandleMgr \<times> esif_handle_t \<times> allocator) option" where
  "EsifHandleMgr_GetHandle self m =
     (if numAvailableHandles self = 0 \<and> ESIF_HNDLMGR_MAX_HANDLE_MAP_SIZE \<le> handleMapSize self
      then Some (ESIF_E_INVALID_HANDLE, self, ESIF_INVALID_HANDLE, m)
      else
        let (rc, self1, m1) =
          (if numAvailableHandles self < of_nat ESIF_HNDLMGR_HANDLES_PER_LINE
              \<and> handleMapSize self < ESIF_HNDLMGR_MAX_HANDLE_MAP_SIZE
           then EsifHandleMgr_AllocateAdditionalHandles self m
           else (ESIF_OK, self, m)) in
        if rc \<noteq> ESIF_OK then Some (rc, self1, ESIF_INVALID_HANDLE, m1)
        else do {
          (rc', self2, handle) \<leftarrow> EsifHandleMgr_FindHandle self1;
          Some (rc', self2, case handle of Some h \<Rightarrow> h | None \<Rightarrow> ESIF_INVALID_HANDLE, m1)
        })"

text \<open>The public functions work on the singleton; an output pointer may be \<^verbatim>\<open>NULL\<close>.\<close>

definition EsifHandleMgr_GetNextHandle ::
    "EsifHandleMgr option \<Rightarrow> bool \<Rightarrow> allocator
     \<Rightarrow> (esif_rc \<times> EsifHandleMgr option \<times> esif_handle_t option \<times> allocator) option" where
  "EsifHandleMgr_GetNextHandle g has_handlePtr m =
     (case g of
        Some self \<Rightarrow>
          if has_handlePtr then do {
            (rc, self', handle, m') \<leftarrow> EsifHandleMgr_GetHandle self m;
            Some (rc, Some self', Some handle, m') }
          else Some (ESIF_E_PARAMETER_IS_NULL, g, None, m)
      | None \<Rightarrow> Some (ESIF_E_PARAMETER_IS_NULL, g, None, m))"

definition EsifHandleMgr_PutHandle ::
    "EsifHandleMgr option \<Rightarrow> esif_handle_t \<Rightarrow> (esif_rc \<times> EsifHandleMgr option) option" where
  "EsifHandleMgr_PutHandle g handle =
     (if EsifHandleMgr_IsReservedHandle handle then Some (ESIF_E_UNSPECIFIED, g)
      else (case g of
        None \<Rightarrow> Some (ESIF_E_UNSPECIFIED, g)
      | Some self \<Rightarrow>
          (case handleMapPtr self of
             None \<Rightarrow> Some (ESIF_E_UNSPECIFIED, g)
           | Some lines \<Rightarrow>
               let handleValue = handle AND ESIF_HNDLMGR_HANDLE_MASK;
                   lineNum = handleValue div of_nat ESIF_HNDLMGR_HANDLES_PER_LINE;
                   pos = unat (handleValue mod of_nat ESIF_HNDLMGR_HANDLES_PER_LINE) in
               if lineNum < handleMapSize self div ESIF_HNDLMGR_LINE_SIZE then
                 if length lines \<le> unat lineNum then None
                 else Some (ESIF_E_UNSPECIFIED,
                        Some (self\<lparr>handleMapPtr :=
                                     Some (lines[unat lineNum := unset_bit pos (lines ! unat lineNum)]),
                                   numAvailableHandles := numAvailableHandles self + 1\<rparr>))
               else Some (ESIF_E_UNSPECIFIED, g))))"

text \<open>Destroying the manager frees its map; nothing of the model remains.\<close>

definition EsifHandleMgr_Destroy :: "EsifHandleMgr option \<Rightarrow> unit" where
  "EsifHandleMgr_Destroy self = ()"

definition EsifHandleMgr_Create :: "allocator \<Rightarrow> EsifHandleMgr option \<times> allocator" where
  "EsifHandleMgr_Create m =
     (case esif_ccb_malloc m of
        (None, m1) \<Rightarrow> (None, m1)
      | (Some _, m1) \<Rightarrow>
          (case esif_ccb_malloc m1 of
             (None, m2) \<Rightarrow> (None, m2)
           | (Some _, m2) \<Rightarrow>
               (Some \<lparr>handleMapPtr = Some [0], handleMapSize = 1 * ESIF_HNDLMGR_LINE_SIZE,
                      numAvailableHandles = of_nat ESIF_HNDLMGR_HANDLES_PER_LINE, curLine = 0, curPos = 0,
                      instanceCounter = 0\<rparr>, m2)))"

definition EsifHandleMgr_Init ::
    "EsifHandleMgr option \<Rightarrow> allocator \<Rightarrow> esif_rc \<times> EsifHandleMgr option \<times> allocator" where
  "EsifHandleMgr_Init g m =
     (case g of
        Some _ \<Rightarrow> (ESIF_OK, g, m)
      | None \<Rightarrow> (case EsifHandleMgr_Create m of
                  (None, m') \<Rightarrow> (ESIF_E_NO_MEMORY, None, m')
                | (Some self, m') \<Rightarrow> (ESIF_OK, Some self, m')))"

definition EsifHandleMgr_Exit :: "EsifHandleMgr option \<Rightarrow> EsifHandleMgr option" where
  "EsifHandleMgr_Exit g = (let _ = EsifHandleMgr_Destroy g in None)"

section \<open>Slots and the invariant\<close>

definition slot :: "esif_handle_t \<Rightarrow> nat" where
  "slot h = unat (h AND ESIF_HNDLMGR_HANDLE_MASK)"

definition slot_used :: "u64 list \<Rightarrow> nat \<Rightarrow> bool" where
  "slot_used lines k \<longleftrightarrow> bit (lines ! (k div 64)) (k mod 64)"

definition mgr_lines :: "EsifHandleMgr \<Rightarrow> u64 list" where
  "mgr_lines s = (case handleMapPtr s of None \<Rightarrow> [] | Some lines \<Rightarrow> lines)"

definition mgr_ok :: "EsifHandleMgr \<Rightarrow> bool" where
  "mgr_ok s \<longleftrightarrow>
     handleMapPtr s \<noteq> None \<and> unat (handleMapSize s) = 8 * length (mgr_lines s)
     \<and> 1 \<le> length (mgr_lines s) \<and> length (mgr_lines s) \<le> 1024
     \<and> unat (curLine s) < length (mgr_lines s) \<and> unat (curPos s) < 64"

lemma mask_take_bit: "h AND ESIF_HNDLMGR_HANDLE_MASK = take_bit 16 h"
  by (simp add: take_bit_eq_mask mask_eq_exp_minus_1)

lemma slot_less: "slot h < 65536"
proof -
  have "slot h = take_bit 16 (unat h)" by (simp add: slot_def mask_take_bit unsigned_take_bit_eq)
  then show ?thesis using take_bit_nat_less_exp [of 16 "unat h"] by simp
qed

lemma slot_make_handle:
  assumes "n < 1024" "p < 64"
  shows "slot (make_handle c n p) = n * 64 + p"
proof -
  have "take_bit 16 (make_handle c n p) = take_bit 16 (of_nat (n * 64 + p))"
    by (simp add: make_handle_def take_bit_or take_bit_push_bit del: of_nat_add of_nat_mult)
  then have "slot (make_handle c n p) = take_bit 16 (unat (of_nat (n * 64 + p) :: u64))"
    by (simp add: slot_def mask_take_bit unsigned_take_bit_eq del: of_nat_add of_nat_mult)
  moreover have "n * 64 + p < 65536" using assms by simp
  moreover have "unat (of_nat (n * 64 + p) :: u64) = n * 64 + p"
    by (rule unat_of_nat_eq_len) (use assms in simp)
  ultimately show ?thesis by (simp add: take_bit_nat_eq_self del: of_nat_add of_nat_mult)
qed

lemma reserved_slot: "EsifHandleMgr_IsReservedHandle h \<Longrightarrow> slot h \<in> {0, 1, 65534, 65535}"
  by (auto simp: EsifHandleMgr_IsReservedHandle_def slot_def)

section \<open>The search\<close>

lemma find_pos_Some:
  "find_pos c line n pos lst = Some p \<Longrightarrow>
   pos \<le> p \<and> p \<le> lst \<and> \<not> bit line p \<and> \<not> EsifHandleMgr_IsReservedHandle (make_handle c n p)"
proof (induction c line n pos lst rule: find_pos.induct)
  case (1 c line n pos lst)
  then show ?case by (subst (asm) (2) find_pos.simps) (auto split: if_splits)
qed

lemma find_pos_None:
  "find_pos c line n pos lst = None \<Longrightarrow>
   \<forall>p. pos \<le> p \<and> p \<le> lst \<longrightarrow> bit line p \<or> EsifHandleMgr_IsReservedHandle (make_handle c n p)"
proof (induction c line n pos lst rule: find_pos.induct)
  case (1 c line n pos lst)
  show ?case
  proof (cases "pos \<le> lst")
    case True
    with "1.prems" have here: "bit line pos \<or> EsifHandleMgr_IsReservedHandle (make_handle c n pos)"
      and rest: "find_pos c line n (pos + 1) lst = None"
      by (subst (asm) find_pos.simps, auto split: if_splits)+
    from "1.IH" [OF True _ rest] here show ?thesis by (metis Suc_eq_plus1 le_antisym not_less_eq_eq)
  qed auto
qed

text \<open>The positions of a region, in the order of the scan.\<close>

definition in_region :: "nat \<Rightarrow> nat \<Rightarrow> nat \<Rightarrow> nat \<Rightarrow> nat \<Rightarrow> nat \<Rightarrow> bool" where
  "in_region start stop pos stopPos n p \<longleftrightarrow>
     start \<le> n \<and> n \<le> stop \<and> (n = start \<longrightarrow> pos \<le> p) \<and> p \<le> (if n = stop then stopPos else 63)"

lemma find_line_spec:
  assumes "stop < length lines"
  shows "\<exists>r. find_line c lines start stop pos stopPos = Some r \<and>
    (case r of
       Some (n, p) \<Rightarrow> in_region start stop pos stopPos n p \<and> \<not> bit (lines ! n) p
         \<and> \<not> EsifHandleMgr_IsReservedHandle (make_handle c n p)
     | None \<Rightarrow> \<forall>n p. in_region start stop pos stopPos n p \<longrightarrow>
         bit (lines ! n) p \<or> EsifHandleMgr_IsReservedHandle (make_handle c n p))"
  using assms
proof (induction c lines start stop pos stopPos rule: find_line.induct)
  case (1 c lines start stop pos stopPos)
  let ?lst = "if start = stop then stopPos else ESIF_HNDLMGR_HANDLES_PER_LINE - 1"
  show ?case
  proof (cases "start \<le> stop")
    case False
    then show ?thesis by (subst find_line.simps) (auto simp: in_region_def)
  next
    case le: True
    show ?thesis
    proof (cases "find_pos c (lines ! start) start pos ?lst")
      case (Some p)
      with find_pos_Some [OF Some] le "1.prems" show ?thesis
        by (subst find_line.simps) (auto simp: in_region_def)
    next
      case None
      have "\<not> length lines \<le> start" using le "1.prems" by simp
      from "1.IH" [OF le this None "1.prems"] obtain r where
        r: "find_line c lines (start + 1) stop 0 stopPos = Some r"
          "case r of
             Some (n, p) \<Rightarrow> in_region (start + 1) stop 0 stopPos n p \<and> \<not> bit (lines ! n) p
               \<and> \<not> EsifHandleMgr_IsReservedHandle (make_handle c n p)
           | None \<Rightarrow> \<forall>n p. in_region (start + 1) stop 0 stopPos n p \<longrightarrow>
               bit (lines ! n) p \<or> EsifHandleMgr_IsReservedHandle (make_handle c n p)" by blast
      have run: "find_line c lines start stop pos stopPos = Some r"
        using le None r(1) "1.prems" by (subst find_line.simps) simp
      have split: "in_region start stop pos stopPos n p \<longleftrightarrow>
          n = start \<and> pos \<le> p \<and> p \<le> ?lst \<or> in_region (start + 1) stop 0 stopPos n p" for n p
        using le by (auto simp: in_region_def)
      show ?thesis
      proof (cases r)
        case r': None
        with r(2) find_pos_None [OF None] split run show ?thesis by auto
      next
        case (Some np)
        with r(2) run split show ?thesis by (cases np) auto
      qed
    qed
  qed
qed

section \<open>Allocation and release\<close>

definition free_slot :: "EsifHandleMgr \<Rightarrow> u64 \<Rightarrow> nat \<Rightarrow> nat \<Rightarrow> bool" where
  "free_slot s c n p \<longleftrightarrow> n < length (mgr_lines s) \<and> p < 64 \<and> \<not> bit (mgr_lines s ! n) p
     \<and> \<not> EsifHandleMgr_IsReservedHandle (make_handle c n p)"

text \<open>The state after slot \<open>(n, p)\<close> has been taken with instance counter \<open>c\<close>.\<close>

definition slot_taken :: "EsifHandleMgr \<Rightarrow> u64 \<Rightarrow> nat \<Rightarrow> nat \<Rightarrow> EsifHandleMgr" where
  "slot_taken s c n p =
     s\<lparr>handleMapPtr := Some ((mgr_lines s)[n := set_bit p (mgr_lines s ! n)]),
       curLine := of_nat n, curPos := of_nat p,
       numAvailableHandles := numAvailableHandles s - 1, instanceCounter := c\<rparr>"

lemma region_spec:
  assumes "mgr_ok s" "unat stop < length (mgr_lines s)" "unat stopPos < 64"
  shows "(EsifHandleMgr_FindHandleInRegion s start stop pos stopPos = Some (ESIF_E_INVALID_HANDLE, s, None)
      \<and> (\<forall>n p. in_region (unat start) (unat stop) (unat pos) (unat stopPos) n p
            \<longrightarrow> \<not> free_slot s (instanceCounter s) n p))
    \<or> (\<exists>n p. free_slot s (instanceCounter s) n p
      \<and> EsifHandleMgr_FindHandleInRegion s start stop pos stopPos
        = Some (ESIF_OK, slot_taken s (instanceCounter s) n p, Some (make_handle (instanceCounter s) n p)))"
proof -
  have l: "handleMapPtr s = Some (mgr_lines s)" using assms(1) by (auto simp: mgr_ok_def mgr_lines_def)
  from find_line_spec [OF assms(2), of "instanceCounter s" "unat start" "unat pos" "unat stopPos"] obtain r where
    r: "find_line (instanceCounter s) (mgr_lines s) (unat start) (unat stop) (unat pos) (unat stopPos) = Some r"
      "case r of
         Some (n, p) \<Rightarrow> in_region (unat start) (unat stop) (unat pos) (unat stopPos) n p \<and> \<not> bit (mgr_lines s ! n) p
           \<and> \<not> EsifHandleMgr_IsReservedHandle (make_handle (instanceCounter s) n p)
       | None \<Rightarrow> \<forall>n p. in_region (unat start) (unat stop) (unat pos) (unat stopPos) n p \<longrightarrow>
           bit (mgr_lines s ! n) p \<or> EsifHandleMgr_IsReservedHandle (make_handle (instanceCounter s) n p)" by blast
  show ?thesis
  proof (cases r)
    case None
    with r l show ?thesis by (auto simp: EsifHandleMgr_FindHandleInRegion_def free_slot_def)
  next
    case (Some np)
    obtain n p where np: "np = (n, p)" by (cases np)
    with r Some assms(2,3) have "free_slot s (instanceCounter s) n p"
      by (auto simp: free_slot_def in_region_def split: if_splits)
    moreover have "EsifHandleMgr_FindHandleInRegion s start stop pos stopPos
        = Some (ESIF_OK, slot_taken s (instanceCounter s) n p, Some (make_handle (instanceCounter s) n p))"
      using r(1) l Some np by (simp add: EsifHandleMgr_FindHandleInRegion_def slot_taken_def)
    ultimately show ?thesis by blast
  qed
qed

lemma lines_minus_1:
  assumes "mgr_ok s"
  shows "unat (handleMapSize s div ESIF_HNDLMGR_LINE_SIZE - 1) = length (mgr_lines s) - 1"
proof -
  have d: "unat (handleMapSize s div ESIF_HNDLMGR_LINE_SIZE) = length (mgr_lines s)"
    using assms by (simp add: mgr_ok_def unat_div_distrib)
  then have "handleMapSize s div ESIF_HNDLMGR_LINE_SIZE \<noteq> 0" using assms by (auto simp: mgr_ok_def)
  with d show ?thesis by (simp add: unat_minus_1)
qed

lemma mgr_ok_counter [simp]:
  "mgr_ok (s\<lparr>instanceCounter := c\<rparr>) = mgr_ok s" "mgr_lines (s\<lparr>instanceCounter := c\<rparr>) = mgr_lines s"
  "free_slot (s\<lparr>instanceCounter := c\<rparr>) c' n p = free_slot s c' n p"
  "slot_taken (s\<lparr>instanceCounter := c'\<rparr>) c n p = slot_taken s c n p"
  by (simp_all add: mgr_ok_def mgr_lines_def free_slot_def slot_taken_def)

lemma regions_cover:
  assumes "n < len" "p < (64::nat)" "cl < len" "cp < 64"
  shows "in_region cl (len - 1) cp 63 n p \<or> in_region 0 cl 0 cp n p"
  using assms by (auto simp: in_region_def)

lemma find_handle_spec:
  assumes "mgr_ok s"
  shows "(\<exists>c n p. free_slot s c n p
      \<and> EsifHandleMgr_FindHandle s = Some (ESIF_OK, slot_taken s c n p, Some (make_handle c n p)))
    \<or> (\<exists>s'. EsifHandleMgr_FindHandle s = Some (ESIF_E_INVALID_HANDLE, s', None)
      \<and> s' = s\<lparr>instanceCounter := instanceCounter s + 1\<rparr>
      \<and> (\<forall>n p. \<not> (free_slot s (instanceCounter s) n p \<and> free_slot s (instanceCounter s + 1) n p)))"
proof -
  let ?c = "instanceCounter s" and ?stop = "handleMapSize s div ESIF_HNDLMGR_LINE_SIZE - 1"
  let ?s2 = "s\<lparr>instanceCounter := ?c + 1\<rparr>"
  have bounds: "unat ?stop = length (mgr_lines s) - 1" "unat ?stop < length (mgr_lines s)"
    "unat (curLine s) < length (mgr_lines s)" "unat (curPos s) < 64"
    "unat (of_nat (ESIF_HNDLMGR_HANDLES_PER_LINE - 1) :: u32) = 63"
    using lines_minus_1 [OF assms] assms by (auto simp: mgr_ok_def)
  let ?R1 = "EsifHandleMgr_FindHandleInRegion s (curLine s) ?stop (curPos s) (of_nat (ESIF_HNDLMGR_HANDLES_PER_LINE - 1))"
  let ?first = "if curPos s \<noteq> of_nat (ESIF_HNDLMGR_HANDLES_PER_LINE - 1) \<or> curLine s \<noteq> ?stop
      then ?R1 else Some (ESIF_E_INVALID_HANDLE, s, None)"
  let ?in2 = "in_region 0 (unat (curLine s)) 0 (unat (curPos s))"
  have first: "(\<exists>n p. free_slot s ?c n p \<and> ?first = Some (ESIF_OK, slot_taken s ?c n p, Some (make_handle ?c n p)))
    \<or> (?first = Some (ESIF_E_INVALID_HANDLE, s, None) \<and> (\<forall>n p. free_slot s ?c n p \<longrightarrow> ?in2 n p))"
  proof (cases "curPos s \<noteq> of_nat (ESIF_HNDLMGR_HANDLES_PER_LINE - 1) \<or> curLine s \<noteq> ?stop")
    case True
    have "?in2 n p" if "free_slot s ?c n p"
      "\<forall>n p. in_region (unat (curLine s)) (unat ?stop) (unat (curPos s)) 63 n p \<longrightarrow> \<not> free_slot s ?c n p" for n p
      using that regions_cover [of n "length (mgr_lines s)" p "unat (curLine s)" "unat (curPos s)"] bounds
      by (auto simp: free_slot_def)
    with True region_spec [OF assms bounds(2), of "of_nat (ESIF_HNDLMGR_HANDLES_PER_LINE - 1)" "curLine s" "curPos s"]
      bounds(5) show ?thesis by (simp only: if_True) auto
  next
    case False
    then have "unat (curPos s) = 63" "unat (curLine s) = length (mgr_lines s) - 1" using bounds by simp_all
    then have "?in2 n p" if "free_slot s ?c n p" for n p
      using that by (auto simp: free_slot_def in_region_def)
    with False show ?thesis by (simp only: if_False) auto
  qed
  have second: "(\<exists>n p. free_slot s (?c + 1) n p \<and> EsifHandleMgr_FindHandleInRegion ?s2 0 (curLine ?s2) 0 (curPos ?s2)
        = Some (ESIF_OK, slot_taken s (?c + 1) n p, Some (make_handle (?c + 1) n p)))
    \<or> (EsifHandleMgr_FindHandleInRegion ?s2 0 (curLine ?s2) 0 (curPos ?s2) = Some (ESIF_E_INVALID_HANDLE, ?s2, None)
      \<and> (\<forall>n p. ?in2 n p \<longrightarrow> \<not> free_slot s (?c + 1) n p))"
    using region_spec [of ?s2 "curLine s" "curPos s" 0 0] assms bounds by auto
  have run: "EsifHandleMgr_FindHandle s = Option.bind ?first (\<lambda>(rc, s1, h).
      if rc \<noteq> ESIF_OK then let s2 = s1\<lparr>instanceCounter := instanceCounter s1 + 1\<rparr> in
        EsifHandleMgr_FindHandleInRegion s2 0 (curLine s2) 0 (curPos s2) else Some (rc, s1, h))"
    by (simp only: EsifHandleMgr_FindHandle_def)
  from first show ?thesis
  proof (elim disjE exE conjE)
    fix n p assume "free_slot s ?c n p" "?first = Some (ESIF_OK, slot_taken s ?c n p, Some (make_handle ?c n p))"
    with run show ?thesis by (simp only: bind.simps prod.case) auto
  next
    assume f: "?first = Some (ESIF_E_INVALID_HANDLE, s, None)" "\<forall>n p. free_slot s ?c n p \<longrightarrow> ?in2 n p"
    then have "EsifHandleMgr_FindHandle s = EsifHandleMgr_FindHandleInRegion ?s2 0 (curLine ?s2) 0 (curPos ?s2)"
      using run by (simp only: bind.simps prod.case Let_def) simp
    with second f(2) show ?thesis by metis
  qed
qed

section \<open>The abstract view: the set of slots in use\<close>

definition used_slots :: "EsifHandleMgr \<Rightarrow> nat set" where
  "used_slots s = {k. k < 64 * length (mgr_lines s) \<and> slot_used (mgr_lines s) k}"

definition avail_ok :: "EsifHandleMgr \<Rightarrow> bool" where
  "avail_ok s \<longleftrightarrow> unat (numAvailableHandles s) + card (used_slots s) = 64 * length (mgr_lines s)"

lemma finite_used [simp]: "finite (used_slots s)"
  by (simp add: used_slots_def)

lemma lines_upd:
  assumes "n < length lines" "p < 64"
  shows "slot_used (lines[n := set_bit p (lines ! n)]) k \<longleftrightarrow> k = n * 64 + p \<or> slot_used lines k"
    "slot_used (lines[n := unset_bit p (lines ! n)]) k \<longleftrightarrow> k \<noteq> n * 64 + p \<and> slot_used lines k"
proof -
  have k: "k = n * 64 + p \<longleftrightarrow> k div 64 = n \<and> k mod 64 = p"
    using assms(2) by (metis div_mod_decomp div_mult_self3 div_less add.right_neutral mod_less mod_mult_self3
        zero_neq_numeral)
  show "slot_used (lines[n := set_bit p (lines ! n)]) k \<longleftrightarrow> k = n * 64 + p \<or> slot_used lines k"
    using assms by (auto simp: slot_used_def k nth_list_update bit_set_bit_iff)
  show "slot_used (lines[n := unset_bit p (lines ! n)]) k \<longleftrightarrow> k \<noteq> n * 64 + p \<and> slot_used lines k"
    using assms by (auto simp: slot_used_def k nth_list_update bit_unset_bit_iff)
qed

lemma slot_taken_spec:
  assumes "mgr_ok s" "free_slot s c n p"
  shows "mgr_ok (slot_taken s c n p)" "slot (make_handle c n p) = n * 64 + p" "n * 64 + p \<notin> used_slots s"
    "used_slots (slot_taken s c n p) = insert (n * 64 + p) (used_slots s)"
    "avail_ok s \<Longrightarrow> avail_ok (slot_taken s c n p)"
proof -
  let ?t = "slot_taken s c n p"
  have b: "n < length (mgr_lines s)" "p < 64" "length (mgr_lines s) \<le> 1024" "\<not> bit (mgr_lines s ! n) p"
    using assms by (auto simp: mgr_ok_def free_slot_def)
  have l: "mgr_lines ?t = (mgr_lines s)[n := set_bit p (mgr_lines s ! n)]"
    by (simp add: slot_taken_def mgr_lines_def)
  have "unat (of_nat n :: size_t) = n" "unat (of_nat p :: u32) = p"
    using b by (simp_all add: unat_of_nat_eq_len)
  with assms b show "mgr_ok ?t" by (auto simp: mgr_ok_def slot_taken_def mgr_lines_def)
  show "slot (make_handle c n p) = n * 64 + p" using b by (intro slot_make_handle) auto
  show new: "n * 64 + p \<notin> used_slots s" using b by (simp add: used_slots_def slot_used_def)
  show used: "used_slots ?t = insert (n * 64 + p) (used_slots s)"
    using b by (auto simp: used_slots_def l lines_upd)
  show "avail_ok ?t" if "avail_ok s"
  proof -
    have "used_slots ?t \<subseteq> {..<64 * length (mgr_lines s)}" by (auto simp: used_slots_def l)
    then have "Suc (card (used_slots s)) \<le> 64 * length (mgr_lines s)"
      using used new card_mono [of "{..<64 * length (mgr_lines s)}" "used_slots ?t"] by simp
    with that have "numAvailableHandles s \<noteq> 0" by (auto simp: avail_ok_def)
    then have "unat (numAvailableHandles ?t) = unat (numAvailableHandles s) - 1"
      by (simp add: slot_taken_def unat_minus_1)
    moreover have "unat (numAvailableHandles s) \<noteq> 0" using \<open>numAvailableHandles s \<noteq> 0\<close> by (simp add: unat_eq_zero)
    ultimately show ?thesis using that used new by (simp add: avail_ok_def l)
  qed
qed

lemma more_handles_spec:
  assumes "mgr_ok s" "handleMapSize s < ESIF_HNDLMGR_MAX_HANDLE_MAP_SIZE" "alloc_ok m (next_addr m)"
  shows "\<exists>s' m'. EsifHandleMgr_AllocateAdditionalHandles s m = (ESIF_OK, s', m') \<and> mgr_ok s'
    \<and> used_slots s' = used_slots s \<and> mgr_lines s' = mgr_lines s @ [0] \<and> (avail_ok s \<longrightarrow> avail_ok s')"
proof -
  from assms(1) have l: "handleMapPtr s = Some (mgr_lines s)" by (auto simp: mgr_ok_def mgr_lines_def)
  let ?s' = "s\<lparr>handleMapPtr := Some (mgr_lines s @ [0]), handleMapSize := handleMapSize s + 8,
     numAvailableHandles := numAvailableHandles s + 64\<rparr>"
  have run: "EsifHandleMgr_AllocateAdditionalHandles s m = (ESIF_OK, ?s', m\<lparr>next_addr := Suc (next_addr m)\<rparr>)"
    using assms(3) l by (simp add: EsifHandleMgr_AllocateAdditionalHandles_def esif_ccb_malloc_def)
  have lt: "8 * length (mgr_lines s) < 8192"
    using assms(1,2) by (simp add: mgr_ok_def word_less_nat_alt)
  have lines: "mgr_lines ?s' = mgr_lines s @ [0]" by (simp add: mgr_lines_def)
  have "unat (handleMapSize s + 8) = unat (handleMapSize s) + 8"
    using lt assms(1) by (subst unat_add_lem [THEN iffD1]) (simp_all add: mgr_ok_def)
  with assms(1) lt have ok: "mgr_ok ?s'" by (simp add: mgr_ok_def lines)
  have used: "used_slots ?s' = used_slots s"
    by (auto simp: used_slots_def slot_used_def lines nth_append nth_Cons' less_Suc_eq_le)
  have "avail_ok ?s'" if "avail_ok s"
  proof -
    from that have "unat (numAvailableHandles s) \<le> 64 * 1024" using lt by (simp add: avail_ok_def)
    then have "unat (numAvailableHandles s + 64) = unat (numAvailableHandles s) + 64"
      by (subst unat_add_lem [THEN iffD1]) simp_all
    with that used show ?thesis by (simp add: avail_ok_def lines)
  qed
  with run ok used lines show ?thesis by blast
qed

lemma common_free_slot:
  assumes "mgr_ok s" "k < 64 * length (mgr_lines s)" "k \<notin> used_slots s" "2 \<le> k" "k < 65534"
  shows "free_slot s c (k div 64) (k mod 64)"
proof -
  have len: "k div 64 < length (mgr_lines s)" "length (mgr_lines s) \<le> 1024"
    using assms(1,2) by (auto simp: mgr_ok_def less_mult_imp_div_less mult.commute)
  then have "slot (make_handle c (k div 64) (k mod 64)) = k"
    by (subst slot_make_handle) auto
  then have "\<not> EsifHandleMgr_IsReservedHandle (make_handle c (k div 64) (k mod 64))"
    using reserved_slot assms(4,5) by force
  with len assms(2,3) show ?thesis by (simp add: free_slot_def used_slots_def slot_used_def)
qed

lemma get_handle_spec:
  assumes "mgr_ok s"
  shows "\<exists>rc s' h m'. EsifHandleMgr_GetHandle s m = Some (rc, s', h, m') \<and> mgr_ok s'
    \<and> (avail_ok s \<longrightarrow> avail_ok s')
    \<and> (if rc = ESIF_OK then \<not> EsifHandleMgr_IsReservedHandle h \<and> slot h \<notin> used_slots s
          \<and> used_slots s' = insert (slot h) (used_slots s)
       else h = ESIF_INVALID_HANDLE \<and> used_slots s' = used_slots s
          \<and> (avail_ok s \<and> alloc_ok m (next_addr m) \<longrightarrow>
               (\<forall>k. 2 \<le> k \<and> k < 65534 \<and> k < 64 * length (mgr_lines s) \<longrightarrow> k \<in> used_slots s)))"
    (is "\<exists>rc s' h m'. _ = Some (rc, s', h, m') \<and> ?Q rc s' h")
proof -
  have find: "\<exists>rc s' h. EsifHandleMgr_FindHandle s1 = Some (rc, s', h) \<and>
      ?Q rc s' (case h of Some x \<Rightarrow> x | None \<Rightarrow> ESIF_INVALID_HANDLE)"
    if s1: "mgr_ok s1" "used_slots s1 = used_slots s" "avail_ok s \<longrightarrow> avail_ok s1"
      "length (mgr_lines s) \<le> length (mgr_lines s1)" for s1
    using find_handle_spec [OF s1(1)]
  proof (elim disjE exE conjE)
    fix c n p assume f: "free_slot s1 c n p"
      "EsifHandleMgr_FindHandle s1 = Some (ESIF_OK, slot_taken s1 c n p, Some (make_handle c n p))"
    have "\<not> EsifHandleMgr_IsReservedHandle (make_handle c n p)" using f(1) by (simp add: free_slot_def)
    with f slot_taken_spec [OF s1(1) f(1)] s1(2,3) show ?thesis by simp
  next
    fix s' assume f: "EsifHandleMgr_FindHandle s1 = Some (ESIF_E_INVALID_HANDLE, s', None)"
      "s' = s1\<lparr>instanceCounter := instanceCounter s1 + 1\<rparr>"
      "\<forall>n p. \<not> (free_slot s1 (instanceCounter s1) n p \<and> free_slot s1 (instanceCounter s1 + 1) n p)"
    have "k \<in> used_slots s" if "2 \<le> k" "k < 65534" "k < 64 * length (mgr_lines s)" for k
      using common_free_slot [OF s1(1), of k] f(3) that s1(2,4) by fastforce
    with f(1,2) s1 show ?thesis by (simp add: used_slots_def avail_ok_def)
  qed
  consider (full) "numAvailableHandles s = 0" "ESIF_HNDLMGR_MAX_HANDLE_MAP_SIZE \<le> handleMapSize s"
    | (grow) "handleMapSize s < ESIF_HNDLMGR_MAX_HANDLE_MAP_SIZE" "numAvailableHandles s < 64"
    | (plain) "\<not> (numAvailableHandles s = 0 \<and> ESIF_HNDLMGR_MAX_HANDLE_MAP_SIZE \<le> handleMapSize s)"
        "\<not> (numAvailableHandles s < 64 \<and> handleMapSize s < ESIF_HNDLMGR_MAX_HANDLE_MAP_SIZE)"
    by auto
  then show ?thesis
  proof cases
    case full
    have "k \<in> used_slots s" if "avail_ok s" "k < 64 * length (mgr_lines s)" for k
    proof -
      have "used_slots s \<subseteq> {..<64 * length (mgr_lines s)}" by (auto simp: used_slots_def)
      moreover have "card (used_slots s) = card {..<64 * length (mgr_lines s)}"
        using that(1) full(1) by (simp add: avail_ok_def)
      ultimately have "used_slots s = {..<64 * length (mgr_lines s)}" by (intro card_subset_eq) auto
      with that(2) show ?thesis by simp
    qed
    with full assms show ?thesis by (simp add: EsifHandleMgr_GetHandle_def)
  next
    case grow
    then have ng: "\<not> (numAvailableHandles s = 0 \<and> ESIF_HNDLMGR_MAX_HANDLE_MAP_SIZE \<le> handleMapSize s)" by auto
    show ?thesis
    proof (cases "alloc_ok m (next_addr m)")
      case True
      from more_handles_spec [OF assms grow(1) True] obtain s1 m1 where
        a: "EsifHandleMgr_AllocateAdditionalHandles s m = (ESIF_OK, s1, m1)" "mgr_ok s1"
          "used_slots s1 = used_slots s" "mgr_lines s1 = mgr_lines s @ [0]" "avail_ok s \<longrightarrow> avail_ok s1" by blast
      from find [OF a(2,3,5)] a(4) obtain rc s' h where
        "EsifHandleMgr_FindHandle s1 = Some (rc, s', h)"
        "?Q rc s' (case h of Some x \<Rightarrow> x | None \<Rightarrow> ESIF_INVALID_HANDLE)" by auto
      moreover from this a(1) grow have "EsifHandleMgr_GetHandle s m =
          Some (rc, s', case h of Some x \<Rightarrow> x | None \<Rightarrow> ESIF_INVALID_HANDLE, m1)"
        by (simp add: EsifHandleMgr_GetHandle_def if_not_P [OF ng])
      ultimately show ?thesis by blast
    next
      case False
      then have "EsifHandleMgr_AllocateAdditionalHandles s m = (ESIF_E_NO_MEMORY, s, m\<lparr>next_addr := Suc (next_addr m)\<rparr>)"
        by (simp add: EsifHandleMgr_AllocateAdditionalHandles_def esif_ccb_malloc_def)
      with grow have "EsifHandleMgr_GetHandle s m =
          Some (ESIF_E_NO_MEMORY, s, ESIF_INVALID_HANDLE, m\<lparr>next_addr := Suc (next_addr m)\<rparr>)"
        by (simp add: EsifHandleMgr_GetHandle_def if_not_P [OF ng])
      with False assms show ?thesis by simp
    qed
  next
    case plain
    from find [OF assms refl] obtain rc s' h where
      "EsifHandleMgr_FindHandle s = Some (rc, s', h)"
      "?Q rc s' (case h of Some x \<Rightarrow> x | None \<Rightarrow> ESIF_INVALID_HANDLE)" by auto
    moreover from this have "EsifHandleMgr_GetHandle s m =
        Some (rc, s', case h of Some x \<Rightarrow> x | None \<Rightarrow> ESIF_INVALID_HANDLE, m)"
      unfolding EsifHandleMgr_GetHandle_def if_not_P [OF plain(1)] using plain(2) by auto
    ultimately show ?thesis by blast
  qed
qed

text \<open>With memory available a handle is refused only when all but the reserved slots of the largest map are in use.\<close>

lemma find_handle_full:
  assumes "mgr_ok s" "EsifHandleMgr_FindHandle s = Some (rc, s', h)" "rc \<noteq> ESIF_OK"
  shows "{2..<min 65534 (64 * length (mgr_lines s))} \<subseteq> used_slots s"
proof
  fix k assume k: "k \<in> {2..<min 65534 (64 * length (mgr_lines s))}"
  from find_handle_spec [OF assms(1)] assms(2,3)
  have "\<forall>n p. \<not> (free_slot s (instanceCounter s) n p \<and> free_slot s (instanceCounter s + 1) n p)" by auto
  with common_free_slot [OF assms(1), of k] k show "k \<in> used_slots s" by fastforce
qed

lemma get_handle_full:
  assumes "mgr_ok s" "avail_ok s" "alloc_ok m (next_addr m)" "EsifHandleMgr_GetHandle s m = Some (rc, s', h, m')" "rc \<noteq> ESIF_OK"
  shows "65532 \<le> card (used_slots s)"
proof -
  let ?n = "length (mgr_lines s)"
  have sub: "used_slots s \<subseteq> {..<64 * ?n}" by (auto simp: used_slots_def)
  have big: "ESIF_HNDLMGR_MAX_HANDLE_MAP_SIZE \<le> handleMapSize s \<longleftrightarrow> 1024 \<le> ?n"
    using assms(1) by (auto simp: mgr_ok_def word_le_nat_alt)
  have n: "?n \<le> 1024" "1 \<le> ?n" using assms(1) by (simp_all add: mgr_ok_def)
  have card: "min 65534 (64 * ?n) - 2 \<le> card (used_slots s)" if "{2..<min 65534 (64 * ?n)} \<subseteq> used_slots s"
    using card_mono [OF finite_used that] by simp
  consider (full) "numAvailableHandles s = 0" "1024 \<le> ?n" | (grow) "?n < 1024" "numAvailableHandles s < 64"
    | (plain) "\<not> (numAvailableHandles s = 0 \<and> 1024 \<le> ?n)" "\<not> (numAvailableHandles s < 64 \<and> ?n < 1024)" by linarith
  then show ?thesis
  proof cases
    case full
    then show ?thesis using assms(2) by (simp add: avail_ok_def)
  next
    case grow
    then have lt: "handleMapSize s < ESIF_HNDLMGR_MAX_HANDLE_MAP_SIZE" using big by (simp add: not_le [symmetric])
    from more_handles_spec [OF assms(1) lt assms(3)] obtain s1 m1 where
      a: "EsifHandleMgr_AllocateAdditionalHandles s m = (ESIF_OK, s1, m1)" "mgr_ok s1" "used_slots s1 = used_slots s"
        "mgr_lines s1 = mgr_lines s @ [0]" by blast
    have ng: "\<not> (numAvailableHandles s = 0 \<and> ESIF_HNDLMGR_MAX_HANDLE_MAP_SIZE \<le> handleMapSize s)" using lt by auto
    obtain s2 h2 where f: "EsifHandleMgr_FindHandle s1 = Some (rc, s2, h2)"
      using assms(4) a(1) grow(2) lt unfolding EsifHandleMgr_GetHandle_def if_not_P [OF ng]
      by (auto simp: Let_def bind_eq_Some_conv)
    have "64 * ?n \<in> {2..<min 65534 (64 * length (mgr_lines s1))}" using a(4) n grow(1) by auto
    with find_handle_full [OF a(2) f assms(5)] a(3) sub have False by blast
    then show ?thesis ..
  next
    case plain
    then have ng: "\<not> (numAvailableHandles s = 0 \<and> ESIF_HNDLMGR_MAX_HANDLE_MAP_SIZE \<le> handleMapSize s)"
      "\<not> (numAvailableHandles s < 64 \<and> handleMapSize s < ESIF_HNDLMGR_MAX_HANDLE_MAP_SIZE)" using big by auto
    obtain s2 h2 where f: "EsifHandleMgr_FindHandle s = Some (rc, s2, h2)"
      using assms(4,5) ng(2) unfolding EsifHandleMgr_GetHandle_def if_not_P [OF ng(1)]
      by (auto simp: Let_def bind_eq_Some_conv)
    note c = card [OF find_handle_full [OF assms(1) f assms(5)]]
    show ?thesis
    proof (cases "?n = 1024")
      case True
      with c show ?thesis by simp
    next
      case False
      then have "64 \<le> unat (numAvailableHandles s)" using plain(2) n by (auto simp: word_less_nat_alt not_less)
      then have "card (used_slots s) + 64 \<le> 64 * ?n" using assms(2) by (simp add: avail_ok_def)
      with c n have False by auto
      then show ?thesis ..
    qed
  qed
qed

lemma put_handle_spec:
  assumes "mgr_ok s" "\<not> EsifHandleMgr_IsReservedHandle h" "slot h \<in> used_slots s"
  shows "\<exists>s'. EsifHandleMgr_PutHandle (Some s) h = Some (ESIF_E_UNSPECIFIED, Some s') \<and> mgr_ok s'
    \<and> used_slots s' = used_slots s - {slot h} \<and> (avail_ok s \<longrightarrow> avail_ok s')"
proof -
  from assms(1) have l: "handleMapPtr s = Some (mgr_lines s)" by (auto simp: mgr_ok_def mgr_lines_def)
  let ?n = "slot h div 64" and ?p = "slot h mod 64"
  have n: "?n < length (mgr_lines s)"
    using assms(3) by (auto simp: used_slots_def less_mult_imp_div_less mult.commute)
  let ?lines = "(mgr_lines s)[?n := unset_bit ?p (mgr_lines s ! ?n)]"
  let ?s' = "s\<lparr>handleMapPtr := Some ?lines, numAvailableHandles := numAvailableHandles s + 1\<rparr>"
  have u: "unat ((h AND 0xFFFF) div 64) = ?n" "unat ((h AND 0xFFFF) mod 64) = ?p"
    "unat (handleMapSize s div 8) = length (mgr_lines s)"
    using assms(1) by (simp_all add: slot_def unat_div_distrib unat_mod_distrib mgr_ok_def)
  then have "(h AND 0xFFFF) div 64 < handleMapSize s div 8" using n by (simp add: word_less_nat_alt)
  then have run: "EsifHandleMgr_PutHandle (Some s) h = Some (ESIF_E_UNSPECIFIED, Some ?s')"
    using assms(2) l n u by (simp add: EsifHandleMgr_PutHandle_def Let_def)
  have lines: "mgr_lines ?s' = ?lines" by (simp add: mgr_lines_def)
  have ok: "mgr_ok ?s'" using assms(1) by (auto simp: mgr_ok_def mgr_lines_def)
  have "slot_used ?lines k \<longleftrightarrow> k \<noteq> slot h \<and> slot_used (mgr_lines s) k" for k
    using lines_upd(2) [OF n, of ?p k] by simp
  then have used: "used_slots ?s' = used_slots s - {slot h}" by (auto simp: used_slots_def lines)
  have "avail_ok ?s'" if "avail_ok s"
  proof -
    have "card (used_slots s) = Suc (card (used_slots ?s'))"
      using card_Suc_Diff1 [OF finite_used assms(3)] used by simp
    moreover have "unat (numAvailableHandles s) \<le> 65536" using that assms(1) by (auto simp: avail_ok_def mgr_ok_def)
    then have "unat (numAvailableHandles s + 1) = Suc (unat (numAvailableHandles s))" by (intro unat_plus_1) simp
    ultimately show ?thesis using that by (simp add: avail_ok_def lines)
  qed
  with run ok used show ?thesis by blast
qed

section \<open>Outstanding handles\<close>

text \<open>
  The clients: handles that have been returned by a successful get and not yet put back.
\<close>

inductive handle_step ::
    "EsifHandleMgr \<times> allocator \<times> esif_handle_t set \<Rightarrow> EsifHandleMgr \<times> allocator \<times> esif_handle_t set \<Rightarrow> bool"
where
  step_get: "EsifHandleMgr_GetNextHandle (Some s) True m = Some (ESIF_OK, Some s', Some h, m')
    \<Longrightarrow> handle_step (s, m, out) (s', m', insert h out)"
| step_get_fail: "EsifHandleMgr_GetNextHandle (Some s) True m = Some (rc, Some s', h, m') \<Longrightarrow> rc \<noteq> ESIF_OK
    \<Longrightarrow> handle_step (s, m, out) (s', m', out)"
| step_put: "h \<in> out \<Longrightarrow> EsifHandleMgr_PutHandle (Some s) h = Some (rc, Some s')
    \<Longrightarrow> handle_step (s, m, out) (s', m, out - {h})"

definition outstanding_ok :: "EsifHandleMgr \<times> allocator \<times> esif_handle_t set \<Rightarrow> bool" where
  "outstanding_ok = (\<lambda>(s, m, out). mgr_ok s \<and> avail_ok s \<and> used_slots s = slot ` out \<and> inj_on slot out
     \<and> (\<forall>h\<in>out. \<not> EsifHandleMgr_IsReservedHandle h))"

definition handle_mgr_started :: "EsifHandleMgr \<times> allocator \<times> esif_handle_t set \<Rightarrow> bool" where
  "handle_mgr_started = (\<lambda>(s, m, out). out = {} \<and> (\<exists>m0. EsifHandleMgr_Init None m0 = (ESIF_OK, Some s, m)))"

lemma get_next_spec:
  assumes "mgr_ok s"
  shows "\<exists>rc s' h m'. EsifHandleMgr_GetNextHandle (Some s) True m = Some (rc, Some s', Some h, m')
    \<and> EsifHandleMgr_GetHandle s m = Some (rc, s', h, m')"
  using get_handle_spec [OF assms, of m] by (auto simp: EsifHandleMgr_GetNextHandle_def)

lemma handle_step_ok:
  assumes "outstanding_ok a" "handle_step a b"
  shows "outstanding_ok b"
  using assms(2)
proof (cases rule: handle_step.cases)
  case (step_get s m s' h m' out)
  with assms(1) have s: "mgr_ok s" "avail_ok s" "used_slots s = slot ` out" "inj_on slot out"
    by (auto simp: outstanding_ok_def)
  from get_handle_spec [OF s(1), of m] step_get(3) s show ?thesis
    using assms(1) step_get(1,2) by (auto simp: EsifHandleMgr_GetNextHandle_def outstanding_ok_def)
next
  case (step_get_fail s m rc s' h m' out)
  with assms(1) have s: "mgr_ok s" "avail_ok s" by (auto simp: outstanding_ok_def)
  from get_handle_spec [OF s(1), of m] step_get_fail s assms(1) show ?thesis
    by (auto simp: EsifHandleMgr_GetNextHandle_def outstanding_ok_def)
next
  case (step_put h out s rc s' m)
  with assms(1) have s: "mgr_ok s" "avail_ok s" "slot h \<in> used_slots s" "\<not> EsifHandleMgr_IsReservedHandle h"
    "used_slots s = slot ` out" "inj_on slot out" "\<forall>h\<in>out. \<not> EsifHandleMgr_IsReservedHandle h"
    by (auto simp: outstanding_ok_def)
  from put_handle_spec [OF s(1,4,3)] step_put(4) have
    s': "mgr_ok s'" "avail_ok s'" "used_slots s' = used_slots s - {slot h}" using s(2) by auto
  have "slot ` (out - {h}) = slot ` out - {slot h}"
    using s(6) step_put(3) inj_on_image_set_diff [of slot out out "{h}"] by auto
  with s s' step_put(2) show ?thesis by (auto simp: outstanding_ok_def intro: inj_on_subset)
qed

lemma started_ok:
  assumes "handle_mgr_started a"
  shows "outstanding_ok a"
proof -
  from assms obtain m0 s m where a: "a = (s, m, {})" "EsifHandleMgr_Init None m0 = (ESIF_OK, Some s, m)"
    by (auto simp: handle_mgr_started_def split: prod.splits)
  then have "s = \<lparr>handleMapPtr = Some [0], handleMapSize = 8, numAvailableHandles = 64, curLine = 0, curPos = 0,
      instanceCounter = 0\<rparr>"
    by (auto simp: EsifHandleMgr_Init_def EsifHandleMgr_Create_def split: prod.splits option.splits)
  then show ?thesis using a(1)
    by (auto simp: outstanding_ok_def mgr_ok_def avail_ok_def used_slots_def slot_used_def mgr_lines_def)
qed

interpretation handle_sys: step_system handle_mgr_started handle_step outstanding_ok
  by unfold_locales (use started_ok handle_step_ok in blast)+

section \<open>Properties\<close>

text \<open>
  C8. Handles are unique: after any sequence of successful and failed gets and of puts of
  outstanding handles, a handle returned by \<^verbatim>\<open>EsifHandleMgr_GetNextHandle\<close> is not reserved and
  differs, already in its slot number, from every handle that is still outstanding.
\<close>

theorem handle_mgr_unique:
  assumes "handle_mgr_started a" "handle_step\<^sup>*\<^sup>* a (s, m, out)"
    "EsifHandleMgr_GetNextHandle (Some s) True m = Some (ESIF_OK, Some s', Some h, m')"
  shows "\<not> EsifHandleMgr_IsReservedHandle h \<and> h \<notin> out \<and> (\<forall>g\<in>out. slot g \<noteq> slot h)"
proof -
  have ok: "mgr_ok s" "used_slots s = slot ` out"
    using handle_sys.reachable_inv [OF assms(1,2)] by (auto simp: outstanding_ok_def)
  from get_handle_spec [OF ok(1), of m] assms(3)
  have "\<not> EsifHandleMgr_IsReservedHandle h \<and> slot h \<notin> used_slots s"
    by (auto simp: EsifHandleMgr_GetNextHandle_def)
  with ok(2) show ?thesis by (metis image_eqI)
qed

text \<open>A manager that has just been started, and after one handle was taken.\<close>

definition mgr_fresh :: EsifHandleMgr where
  "mgr_fresh = \<lparr>handleMapPtr = Some [0], handleMapSize = 8, numAvailableHandles = 64, curLine = 0, curPos = 0,
     instanceCounter = 0\<rparr>"

definition mgr_one :: EsifHandleMgr where
  "mgr_one = \<lparr>handleMapPtr = Some [4], handleMapSize = 8, numAvailableHandles = 63, curLine = 0, curPos = 2,
     instanceCounter = 0\<rparr>"

lemma mgr_fresh_started: "handle_mgr_started (mgr_fresh, roomy\<lparr>next_addr := 3\<rparr>, {})"
  by (auto simp: handle_mgr_started_def mgr_fresh_def roomy_def EsifHandleMgr_Init_def EsifHandleMgr_Create_def
      esif_ccb_malloc_def intro!: exI [of _ roomy])

lemmas find_evals = find_line.simps find_pos.simps make_handle_def EsifHandleMgr_IsReservedHandle_def
  EsifHandleMgr_FindHandleInRegion_def EsifHandleMgr_FindHandle_def EsifHandleMgr_GetHandle_def
  EsifHandleMgr_GetNextHandle_def EsifHandleMgr_AllocateAdditionalHandles_def esif_ccb_malloc_def

lemma get_fresh:
  "EsifHandleMgr_GetNextHandle (Some mgr_fresh) True (roomy\<lparr>next_addr := 3\<rparr>)
   = Some (ESIF_OK, Some mgr_one, Some 2, roomy\<lparr>next_addr := 3\<rparr>)"
  by (simp add: find_evals mgr_fresh_def mgr_one_def)

lemma get_one:
  "\<exists>s' m'. EsifHandleMgr_GetNextHandle (Some mgr_one) True (roomy\<lparr>next_addr := 3\<rparr>)
   = Some (ESIF_OK, Some s', Some 3, m')"
  by (simp add: find_evals mgr_one_def roomy_def)

lemma mgr_one_reached:
  "handle_step\<^sup>*\<^sup>* (mgr_fresh, roomy\<lparr>next_addr := 3\<rparr>, {}) (mgr_one, roomy\<lparr>next_addr := 3\<rparr>, {2})"
  using step_get [OF get_fresh, of "{}"] by auto

theorem handle_mgr_unique_witness:
  "\<exists>s' m'. EsifHandleMgr_GetNextHandle (Some mgr_one) True (roomy\<lparr>next_addr := 3\<rparr>)
      = Some (ESIF_OK, Some s', Some 3, m') \<and> (3 :: esif_handle_t) \<notin> {2}"
  using get_one handle_mgr_unique [OF mgr_fresh_started mgr_one_reached] by metis

text \<open>
  C21. A free slot is always found: in every reachable state, if memory for one more line is
  available and some slot between 2 and 65533 of the current map is not in use, then
  \<^verbatim>\<open>EsifHandleMgr_GetNextHandle\<close> succeeds, whatever the scan position and instance counter.
\<close>

theorem handle_mgr_complete:
  assumes "handle_mgr_started a" "handle_step\<^sup>*\<^sup>* a (s, m, out)" "alloc_ok m (next_addr m)"
    "2 \<le> k" "k < 65534" "k < 64 * length (mgr_lines s)" "k \<notin> slot ` out"
  shows "\<exists>s' h m'. EsifHandleMgr_GetNextHandle (Some s) True m = Some (ESIF_OK, Some s', Some h, m')"
proof -
  have ok: "mgr_ok s" "avail_ok s" "used_slots s = slot ` out"
    using handle_sys.reachable_inv [OF assms(1,2)] by (auto simp: outstanding_ok_def)
  from get_handle_spec [OF ok(1), of m] assms(3-) ok(2,3) show ?thesis
    by (auto simp: EsifHandleMgr_GetNextHandle_def split: if_splits)
qed

theorem handle_mgr_complete_witness:
  "\<exists>s' h m'. EsifHandleMgr_GetNextHandle (Some mgr_one) True (roomy\<lparr>next_addr := 3\<rparr>)
     = Some (ESIF_OK, Some s', Some h, m')"
  by (rule handle_mgr_complete [OF mgr_fresh_started mgr_one_reached, where k = 63])
    (simp_all add: roomy_def mgr_lines_def mgr_one_def slot_def)

text \<open>
  \<^verbatim>\<open>EsifHandleMgr_PutHandle\<close> of a handle in use frees exactly its slot and counts it as
  available again, so that the map and the counter stay consistent; the return code is
  \<^verbatim>\<open>ESIF_E_UNSPECIFIED\<close> even so.
\<close>

theorem handle_mgr_put:
  assumes "mgr_ok s" "avail_ok s" "\<not> EsifHandleMgr_IsReservedHandle h" "slot h \<in> used_slots s"
  shows "\<exists>s'. EsifHandleMgr_PutHandle (Some s) h = Some (ESIF_E_UNSPECIFIED, Some s') \<and> mgr_ok s' \<and> avail_ok s'
    \<and> used_slots s' = used_slots s - {slot h}"
  using put_handle_spec [OF assms(1,3,4)] assms(2) by blast

theorem handle_mgr_put_witness:
  "\<exists>s'. EsifHandleMgr_PutHandle (Some mgr_one) 2 = Some (ESIF_E_UNSPECIFIED, Some s') \<and> mgr_ok s'
     \<and> used_slots s' = used_slots mgr_one - {2}"
proof -
  have ok: "mgr_ok mgr_one" "avail_ok mgr_one" "used_slots mgr_one = {2}"
    using handle_sys.reachable_inv [OF mgr_fresh_started mgr_one_reached] by (auto simp: outstanding_ok_def slot_def)
  show ?thesis
    using handle_mgr_put [OF ok(1,2), of 2] ok(3) by (auto simp: EsifHandleMgr_IsReservedHandle_def slot_def)
qed

end
