(* ===== verification/IBinary.thy ===== *)
theory IBinary
  imports Interfaces
begin

text \<open>
  The growable byte buffer of \<^verbatim>\<open>src/IPF/Sources/Common/ipf_ibinary.c\<close>. The object's buffer is the
  list of its \<^verbatim>\<open>buf_len\<close> bytes (\<open>None\<close> for \<^verbatim>\<open>NULL\<close>), of which the first \<^verbatim>\<open>data_len\<close> are data.
  All length arithmetic is on \<open>size_t\<close> and wraps. A copy or move outside the buffer is
  undefined (\<open>None\<close>); memory that \<^verbatim>\<open>realloc\<close> adds is uninitialised and holds an arbitrary
  byte until it is wiped. Every method returns whether its result pointer is non-\<^verbatim>\<open>NULL\<close>.
\<close>

section \<open>State\<close>

record IBinary =
  buf_ptr :: "u8 list option"
  buf_len :: size_t
  data_len :: size_t
  growby_len :: size_t

abbreviation (input) IBINARY_DEFAULT_GROWBY :: size_t where "IBINARY_DEFAULT_GROWBY \<equiv> 256"

definition uninit_byte :: u8 where "uninit_byte = 0xCD"

section \<open>Memory primitives\<close>

definition esif_ccb_realloc ::
    "u8 list option \<Rightarrow> nat \<Rightarrow> allocator \<Rightarrow> u8 list option \<times> allocator" where
  "esif_ccb_realloc old n m =
     (case esif_ccb_malloc m of
        (None, m') \<Rightarrow> (None, m')
      | (Some _, m') \<Rightarrow>
          (case old of
             None \<Rightarrow> (Some (replicate n 0), m')
           | Some b \<Rightarrow> (Some (take n b @ replicate (n - length b) uninit_byte), m')))"

text \<open>\<^verbatim>\<open>memmove\<close> within a buffer, and \<^verbatim>\<open>memset\<close> to zero.\<close>

definition mem_move :: "u8 list \<Rightarrow> nat \<Rightarrow> nat \<Rightarrow> nat \<Rightarrow> u8 list option" where
  "mem_move buf dst src n =
     (if src + n \<le> length buf then mem_put buf dst (take n (drop src buf)) else None)"

definition IBinary_WipeMemory :: "u8 list \<Rightarrow> nat \<Rightarrow> nat \<Rightarrow> u8 list option" where
  "IBinary_WipeMemory buf off n = mem_put buf off (replicate n 0)"

section \<open>Methods\<close>

definition IBinary_Create :: "'z allocator_scheme \<Rightarrow> IBinary option \<times> 'z allocator_scheme" where
  "IBinary_Create m =
     (case esif_ccb_malloc m of
        (None, m') \<Rightarrow> (None, m')
      | (Some _, m') \<Rightarrow>
          (Some \<lparr>buf_ptr = None, buf_len = 0, data_len = 0, growby_len = IBINARY_DEFAULT_GROWBY\<rparr>, m'))"

text \<open>Destruction wipes the buffer before it is freed: the result is the freed contents.\<close>

definition IBinary_Destroy :: "IBinary option \<Rightarrow> u8 list option option" where
  "IBinary_Destroy self =
     (case self of
        None \<Rightarrow> Some None
      | Some s \<Rightarrow>
          (case buf_ptr s of
             None \<Rightarrow> Some None
           | Some b \<Rightarrow> if buf_len s \<noteq> 0 then map_option Some (IBinary_WipeMemory b 0 (unat (buf_len s)))
                       else Some (Some b)))"

definition IBinary_Realloc ::
    "IBinary option \<Rightarrow> size_t \<Rightarrow> allocator \<Rightarrow> (bool \<times> IBinary option \<times> allocator) option" where
  "IBinary_Realloc self len m =
     (case self of
        None \<Rightarrow> Some (False, self, m)
      | Some s \<Rightarrow>
          if len = buf_len s then Some (buf_ptr s \<noteq> None, self, m)
          else if len = 0 then Some (False, Some (s\<lparr>buf_ptr := None, buf_len := 0, data_len := 0\<rparr>), m)
          else (case esif_ccb_realloc (buf_ptr s) (unat len) m of
                  (None, m') \<Rightarrow> Some (False, self, m')
                | (Some b, m') \<Rightarrow> do {
                    b' \<leftarrow> (if buf_len s < len \<and> 0 < buf_len s
                          then IBinary_WipeMemory b (unat (buf_len s)) (unat (len - buf_len s)) else Some b);
                    Some (True, Some (s\<lparr>buf_ptr := Some b', buf_len := len,
                                        data_len := if len < data_len s then len else data_len s\<rparr>), m') }))"

text \<open>The size of a grown buffer: \<open>need\<close> rounded up to the grow-by boundary.\<close>

definition grow_len :: "IBinary \<Rightarrow> size_t \<Rightarrow> size_t" where
  "grow_len s need =
     ((need div growby_len s + 1 - (if need mod growby_len s = 0 then 1 else 0)) * growby_len s) - buf_len s"

definition IBinary_Insert ::
    "IBinary option \<Rightarrow> u8 list option \<Rightarrow> size_t \<Rightarrow> size_t \<Rightarrow> allocator \<Rightarrow> (bool \<times> IBinary option \<times> allocator) option" where
  "IBinary_Insert self buffer bytes offset m =
     (case self of
        None \<Rightarrow> Some (False, self, m)
      | Some s \<Rightarrow>
          (case buffer of
             None \<Rightarrow> Some (buf_ptr s \<noteq> None, self, m)
           | Some src \<Rightarrow>
               if bytes \<noteq> 0 \<and> offset \<le> data_len s then do {
                 (ok, self1, m1) \<leftarrow>
                   (if buf_len s < data_len s + bytes then
                      if growby_len s \<noteq> 0
                      then IBinary_Realloc self (buf_len s + grow_len s (data_len s + bytes)) m
                      else Some (False, self, m)
                    else Some (buf_ptr s \<noteq> None, self, m));
                 s1 \<leftarrow> self1;
                 if \<not> ok then Some (False, self1, m1)
                 else do {
                   b \<leftarrow> buf_ptr s1;
                   b1 \<leftarrow> (if offset < data_len s1
                         then mem_move b (unat offset + unat bytes) (unat offset) (unat (data_len s1 - offset))
                         else Some b);
                   b2 \<leftarrow> (if length src < unat bytes then None
                         else mem_put b1 (unat offset) (take (unat bytes) src));
                   Some (True, Some (s1\<lparr>buf_ptr := Some b2, data_len := data_len s1 + bytes\<rparr>), m1)
                 }
               }
               else Some (buf_ptr s \<noteq> None, self, m)))"

definition IBinary_CopyOver ::
    "IBinary option \<Rightarrow> u8 list option \<Rightarrow> size_t \<Rightarrow> size_t \<Rightarrow> allocator \<Rightarrow> (bool \<times> IBinary option \<times> allocator) option" where
  "IBinary_CopyOver self buffer bytes offset m =
     (case self of
        None \<Rightarrow> Some (False, self, m)
      | Some s \<Rightarrow>
          (case buffer of
             None \<Rightarrow> Some (buf_ptr s \<noteq> None, self, m)
           | Some src \<Rightarrow>
               if bytes \<noteq> 0 \<and> offset \<le> data_len s then do {
                 (ok, self1, m1) \<leftarrow>
                   (if buf_len s < offset + bytes then
                      if growby_len s \<noteq> 0
                      then IBinary_Realloc self (buf_len s + grow_len s (offset + bytes)) m
                      else Some (False, self, m)
                    else Some (buf_ptr s \<noteq> None, self, m));
                 s1 \<leftarrow> self1;
                 if \<not> ok then Some (False, self1, m1)
                 else do {
                   b \<leftarrow> buf_ptr s1;
                   b1 \<leftarrow> (if length src < unat bytes then None
                         else mem_put b (unat offset) (take (unat bytes) src));
                   Some (True, Some (s1\<lparr>buf_ptr := Some b1,
                            data_len := if data_len s1 < offset + bytes
                                        then data_len s1 + (bytes - offset) else data_len s1\<rparr>), m1)
                 }
               }
               else Some (buf_ptr s \<noteq> None, self, m)))"

definition IBinary_Truncate :: "IBinary option \<Rightarrow> size_t \<Rightarrow> (bool \<times> IBinary option) option" where
  "IBinary_Truncate self len =
     (case self of
        None \<Rightarrow> Some (False, self)
      | Some s \<Rightarrow>
          (case buf_ptr s of
             None \<Rightarrow> Some (False, self)
           | Some b \<Rightarrow>
               if len < data_len s then do {
                 b' \<leftarrow> IBinary_WipeMemory b (unat len) (unat (buf_len s - len));
                 Some (True, Some (s\<lparr>buf_ptr := Some b', data_len := len\<rparr>)) }
               else Some (True, self)))"

definition IBinary_Copy ::
    "IBinary option \<Rightarrow> u8 list option \<Rightarrow> size_t \<Rightarrow> allocator \<Rightarrow> (bool \<times> IBinary option \<times> allocator) option" where
  "IBinary_Copy self buffer bytes m = do {
     (_, self1) \<leftarrow> IBinary_Truncate self 0;
     IBinary_Insert self1 buffer bytes 0 m }"

definition IBinary_Clone ::
    "IBinary option \<Rightarrow> u8 list option \<Rightarrow> size_t \<Rightarrow> allocator \<Rightarrow> (bool \<times> IBinary option \<times> allocator) option" where
  "IBinary_Clone self buffer bytes m = do {
     (_, self1) \<leftarrow> IBinary_Truncate self 0;
     (_, self2, m1) \<leftarrow> IBinary_Realloc self1 bytes m;
     IBinary_Insert self2 buffer bytes 0 m1 }"

definition IBinary_Append ::
    "IBinary option \<Rightarrow> u8 list option \<Rightarrow> size_t \<Rightarrow> allocator \<Rightarrow> (bool \<times> IBinary option \<times> allocator) option" where
  "IBinary_Append self buffer bytes m =
     IBinary_Insert self buffer bytes (case self of None \<Rightarrow> 0 | Some s \<Rightarrow> data_len s) m"

definition IBinary_Delete :: "IBinary option \<Rightarrow> size_t \<Rightarrow> size_t \<Rightarrow> (bool \<times> IBinary option) option" where
  "IBinary_Delete self offset bytes =
     (case self of
        None \<Rightarrow> Some (False, self)
      | Some s \<Rightarrow>
          (case buf_ptr s of
             None \<Rightarrow> Some (False, self)
           | Some b \<Rightarrow>
               if bytes \<noteq> 0 \<and> offset + bytes \<le> data_len s then
                 let len = data_len s - bytes in do {
                   b1 \<leftarrow> mem_move b (unat offset) (unat offset + unat bytes) (unat (data_len s - offset - bytes));
                   b2 \<leftarrow> IBinary_WipeMemory b1 (unat len) (unat bytes);
                   Some (True, Some (s\<lparr>buf_ptr := Some b2, data_len := len\<rparr>)) }
               else Some (True, self)))"

definition IBinary_Shrink :: "IBinary option \<Rightarrow> size_t \<Rightarrow> allocator \<Rightarrow> (bool \<times> IBinary option \<times> allocator) option" where
  "IBinary_Shrink self len m = do {
     (ok, self1) \<leftarrow> IBinary_Truncate self len;
     (case self1 of
        None \<Rightarrow> Some (ok, self1, m)
      | Some s \<Rightarrow>
          if len = 0 \<or> growby_len s < buf_len s - data_len s
          then IBinary_Realloc self1
                 (if len \<noteq> 0 \<and> growby_len s \<noteq> 0
                  then (data_len s + growby_len s - 1) div growby_len s * growby_len s else 0) m
          else Some (ok, self1, m)) }"

definition IBinary_GetBuf :: "IBinary option \<Rightarrow> u8 list option" where
  "IBinary_GetBuf self = (case self of None \<Rightarrow> None | Some s \<Rightarrow> buf_ptr s)"

definition IBinary_Resize :: "IBinary option \<Rightarrow> size_t \<Rightarrow> allocator \<Rightarrow> (bool \<times> IBinary option \<times> allocator) option" where
  "IBinary_Resize self len m =
     (case self of
        None \<Rightarrow> Some (IBinary_GetBuf self \<noteq> None, self, m)
      | Some s \<Rightarrow>
          IBinary_Realloc self
            (if len \<noteq> 0 \<and> growby_len s \<noteq> 0 then (len + growby_len s - 1) div growby_len s * growby_len s else 0) m)"

definition IBinary_GetBufLen :: "IBinary option \<Rightarrow> size_t" where
  "IBinary_GetBufLen self = (case self of None \<Rightarrow> 0 | Some s \<Rightarrow> buf_len s)"

definition IBinary_GetLen :: "IBinary option \<Rightarrow> size_t" where
  "IBinary_GetLen self = (case self of None \<Rightarrow> 0 | Some s \<Rightarrow> data_len s)"

definition IBinary_GetGrowBy :: "IBinary option \<Rightarrow> size_t" where
  "IBinary_GetGrowBy self = (case self of None \<Rightarrow> 0 | Some s \<Rightarrow> growby_len s)"

definition IBinary_SetGrowBy :: "IBinary option \<Rightarrow> size_t \<Rightarrow> IBinary option" where
  "IBinary_SetGrowBy self len =
     (case self of None \<Rightarrow> None | Some s \<Rightarrow> if len \<noteq> 0 then Some (s\<lparr>growby_len := len\<rparr>) else self)"

section \<open>Representation\<close>

text \<open>The object holds the data \<open>xs\<close>: they start the buffer, and the rest of it is wiped.\<close>

definition ib_rep :: "IBinary \<Rightarrow> u8 list \<Rightarrow> bool" where
  "ib_rep s xs \<longleftrightarrow> unat (data_len s) = length xs \<and> length xs \<le> unat (buf_len s) \<and>
     (case buf_ptr s of
        None \<Rightarrow> buf_len s = 0
      | Some b \<Rightarrow> buf_len s \<noteq> 0 \<and> b = xs @ replicate (unat (buf_len s) - length xs) 0)"

lemma ib_rep_Nil: "ib_rep s xs \<Longrightarrow> buf_ptr s = None \<Longrightarrow> xs = []"
  by (auto simp: ib_rep_def)

lemma ib_repD:
  assumes "ib_rep s xs" "buf_ptr s = Some b"
  shows "b = xs @ replicate (unat (buf_len s) - length xs) 0" "length b = unat (buf_len s)" "buf_len s \<noteq> 0"
    "length xs \<le> unat (buf_len s)" "unat (data_len s) = length xs"
  using assms by (auto simp: ib_rep_def)

lemma realloc_okI:
  assumes "r = Some (True, Some s', m')" "growby_len s' = growby_len s" "ib_rep s' ys" "buf_len s' = len"
    "buf_ptr s' \<noteq> None"
  shows "\<exists>ok t n. r = Some (ok, Some t, n) \<and> growby_len t = growby_len s
    \<and> (if ok then ib_rep t ys \<and> buf_len t = len else t = s) \<and> (P \<longrightarrow> ok) \<and> buf_ptr t \<noteq> None = (ok \<or> Q)"
  using assms by auto

lemma realloc_rep:
  assumes "ib_rep s xs" "len \<noteq> 0"
  shows "\<exists>ok s' m'. IBinary_Realloc (Some s) len m = Some (ok, Some s', m') \<and> growby_len s' = growby_len s
    \<and> (if ok then ib_rep s' (take (unat len) xs) \<and> buf_len s' = len else s' = s)
    \<and> (alloc_ok m (next_addr m) \<longrightarrow> ok) \<and> buf_ptr s' \<noteq> None = (ok \<or> buf_ptr s \<noteq> None)"
proof (cases "len = buf_len s")
  case True
  with assms show ?thesis by (auto simp: IBinary_Realloc_def ib_rep_def split: option.splits)
next
  case ne: False
  show ?thesis
  proof (cases "alloc_ok m (next_addr m)")
    case False
    with ne assms show ?thesis
      by (auto simp: IBinary_Realloc_def esif_ccb_realloc_def esif_ccb_malloc_def)
  next
    case ok: True
    let ?dl = "if len < data_len s then len else data_len s"
    have dl: "unat ?dl = min (unat len) (length xs)"
      using assms(1) by (auto simp: ib_rep_def word_less_nat_alt)
    show ?thesis
    proof (cases "buf_ptr s")
      case None
      then have "buf_len s = 0" "xs = []" "data_len s = 0"
        using assms(1) by (auto simp: ib_rep_def unat_eq_zero)
      with None ne ok assms(2) show ?thesis
        by (auto simp: IBinary_Realloc_def esif_ccb_realloc_def esif_ccb_malloc_def ib_rep_def)
    next
      case (Some b)
      note b = ib_repD [OF assms(1) Some]
      show ?thesis
      proof (cases "buf_len s < len")
        case True
        have diff: "unat (len - buf_len s) = unat len - unat (buf_len s)"
          using True by (simp add: unat_sub word_less_nat_alt less_imp_le)
        have pos: "0 < buf_len s" using b(3) by (simp add: word_neq_0_conv)
        have lt: "unat (buf_len s) < unat len" using True by (simp add: word_less_nat_alt)
        have "IBinary_WipeMemory (b @ replicate (unat len - unat (buf_len s)) uninit_byte) (unat (buf_len s))
            (unat len - unat (buf_len s)) = Some (b @ replicate (unat len - unat (buf_len s)) 0)"
          using mem_put_append [of "replicate (unat len - unat (buf_len s)) uninit_byte"
              "replicate (unat len - unat (buf_len s)) 0" b "unat (buf_len s)" "[]"] b(2)
          by (simp add: IBinary_WipeMemory_def)
        then have "IBinary_Realloc (Some s) len m = Some (True, Some (s\<lparr>
            buf_ptr := Some (b @ replicate (unat len - unat (buf_len s)) 0), buf_len := len, data_len := ?dl\<rparr>),
            m\<lparr>next_addr := Suc (next_addr m)\<rparr>)"
          using ne assms(2) ok Some True pos diff b(2) lt
          by (simp add: IBinary_Realloc_def esif_ccb_realloc_def esif_ccb_malloc_def)
        moreover have "b @ replicate (unat len - unat (buf_len s)) 0 = xs @ replicate (unat len - length xs) 0"
          using b(1,4) lt by (simp add: replicate_add [symmetric])
        moreover have "ib_rep (s\<lparr>buf_ptr := Some (xs @ replicate (unat len - length xs) 0), buf_len := len,
            data_len := ?dl\<rparr>) (take (unat len) xs)"
          using dl lt b(4) assms(2) by (simp add: ib_rep_def del: if_split)
        ultimately show ?thesis
          by (intro realloc_okI [where s' = "s\<lparr>buf_ptr := Some (xs @ replicate (unat len - length xs) 0), buf_len := len,
            data_len := ?dl\<rparr>" and m' = "m\<lparr>next_addr := Suc (next_addr m)\<rparr>"]) (simp_all del: if_split)
      next
        case False
        then have le: "unat len \<le> unat (buf_len s)" by (simp add: word_less_nat_alt)
        then have "IBinary_Realloc (Some s) len m = Some (True, Some (s\<lparr>
            buf_ptr := Some (take (unat len) b), buf_len := len, data_len := ?dl\<rparr>),
            m\<lparr>next_addr := Suc (next_addr m)\<rparr>)"
          using ne assms(2) ok Some False b(2)
          by (simp add: IBinary_Realloc_def esif_ccb_realloc_def esif_ccb_malloc_def)
        moreover have "take (unat len) b = take (unat len) xs @ replicate (unat len - length xs) 0"
          using b(1) le by (simp add: min_def)
        moreover have "ib_rep (s\<lparr>buf_ptr := Some (take (unat len) xs @ replicate (unat len - length xs) 0),
            buf_len := len, data_len := ?dl\<rparr>) (take (unat len) xs)"
          using dl assms(2) by (simp add: ib_rep_def min_def del: if_split)
        ultimately show ?thesis
          by (intro realloc_okI [where s' = "s\<lparr>buf_ptr := Some (take (unat len) xs @ replicate (unat len - length xs) 0),
            buf_len := len, data_len := ?dl\<rparr>" and m' = "m\<lparr>next_addr := Suc (next_addr m)\<rparr>"]) (simp_all del: if_split)
      qed
    qed
  qed
qed

lemma round_up_bounds:
  fixes n g :: nat
  assumes "0 < g"
  shows "n \<le> (n div g + 1 - (if n mod g = 0 then 1 else 0)) * g"
    "(n div g + 1 - (if n mod g = 0 then 1 else 0)) * g < n + g"
proof -
  define d r where "d = n div g" and "r = n mod g"
  then have n: "n = d * g + r" and r: "r < g" using assms by simp_all
  show "n \<le> (n div g + 1 - (if n mod g = 0 then 1 else 0)) * g"
    "(n div g + 1 - (if n mod g = 0 then 1 else 0)) * g < n + g"
    unfolding d_def [symmetric] r_def [symmetric] using r n assms by (auto simp: algebra_simps)
qed

lemma grow_len_spec:
  assumes "growby_len s \<noteq> 0" "unat need + unat (growby_len s) < 2 ^ 64" "need \<noteq> 0"
  shows "unat need \<le> unat (buf_len s + grow_len s need)" "buf_len s + grow_len s need \<noteq> 0"
proof -
  let ?n = "unat need" and ?g = "unat (growby_len s)"
  have g: "0 < ?g" using assms(1) by (simp add: unat_gt_0)
  let ?q = "?n div ?g + 1 - (if ?n mod ?g = 0 then 1 else 0)"
  have q: "?n \<le> ?q * ?g" "?q * ?g < 2 ^ 64"
    using round_up_bounds [OF g, of ?n] assms(2) by linarith+
  have "buf_len s + grow_len s need
      = (need div growby_len s + 1 - (if need mod growby_len s = 0 then 1 else 0)) * growby_len s"
    by (simp add: grow_len_def)
  also have "\<dots> = of_nat (?q * ?g)"
  proof -
    have "need div growby_len s = of_nat (?n div ?g)" by (metis of_nat_unat ucast_id unat_div_distrib)
    moreover have "need mod growby_len s = 0 \<longleftrightarrow> ?n mod ?g = 0"
      by (metis unat_mod_distrib unat_eq_zero)
    ultimately show ?thesis by (simp add: add.commute)
  qed
  finally have eq: "unat (buf_len s + grow_len s need) = ?q * ?g"
    using q(2) unat_of_nat_eq_len [of "?q * ?g", where 'a = 64] by simp
  with q(1) show "?n \<le> unat (buf_len s + grow_len s need)" by simp
  with assms(3) show "buf_len s + grow_len s need \<noteq> 0" by (auto simp: unat_eq_zero)
qed

section \<open>Insertion\<close>

text \<open>The copy phase of an insertion, once the buffer is large enough.\<close>

lemma insert_copy:
  assumes "ib_rep s xs" "buf_ptr s = Some b" "off \<le> length xs" "length xs + length src \<le> unat (buf_len s)"
  shows "\<exists>b1. (if off < length xs then mem_move b (off + length src) off (length xs - off) else Some b) = Some b1
    \<and> mem_put b1 off src = Some ((take off xs @ src @ drop off xs)
        @ replicate (unat (buf_len s) - length (take off xs @ src @ drop off xs)) 0)"
proof -
  let ?z = "unat (buf_len s) - length xs"
  have b: "b = xs @ replicate ?z 0" using ib_repD(1) [OF assms(1,2)] .
  then have lenb: "length b = length xs + ?z" by simp
  have z: "length src \<le> ?z" using assms(4) by simp
  show ?thesis
  proof (cases "off < length xs")
    case True
    let ?mid = "take (length src) (drop off xs @ replicate ?z 0)"
    have src: "take (length xs - off) (drop off b) = drop off xs" by (simp add: b)
    have pre: "take (off + length src) b = take off xs @ ?mid"
      unfolding take_add using True by (simp add: b)
    have post: "drop (off + length src + (length xs - off)) b = replicate (?z - length src) 0"
      using True z by (simp add: b)
    have "mem_move b (off + length src) off (length xs - off)
        = Some (take off xs @ ?mid @ drop off xs @ replicate (?z - length src) 0)"
      using True z lenb unfolding mem_move_def mem_put_def src pre length_drop post by simp
    moreover have "length ?mid = length src" using z by simp
    then have "mem_put (take off xs @ ?mid @ drop off xs @ replicate (?z - length src) 0) off src
        = Some (take off xs @ src @ drop off xs @ replicate (?z - length src) 0)"
      using True by (intro mem_put_append) simp_all
    ultimately show ?thesis using True z by (simp add: add.commute)
  next
    case False
    with assms(3) have off: "off = length xs" by simp
    have "b = xs @ replicate (length src) 0 @ replicate (?z - length src) 0"
      using z by (simp add: b replicate_add [symmetric])
    then have "mem_put b off src = Some (xs @ src @ replicate (?z - length src) 0)"
      using off by (simp add: mem_put_append)
    with off show ?thesis by (simp add: add.commute)
  qed
qed

lemma insert_rep:
  assumes "ib_rep s xs" "unat bytes = length src" "src \<noteq> []" "offset \<le> data_len s"
    "length xs + length src + unat (growby_len s) < 2 ^ 64" "growby_len s \<noteq> 0"
  shows "\<exists>ok s' m'. IBinary_Insert (Some s) (Some src) bytes offset m = Some (ok, Some s', m')
    \<and> growby_len s' = growby_len s
    \<and> (if ok then ib_rep s' (take (unat offset) xs @ src @ drop (unat offset) xs) else s' = s)
    \<and> (alloc_ok m (next_addr m) \<longrightarrow> ok)"
proof -
  have xs: "unat (data_len s) = length xs" using assms(1) by (simp add: ib_rep_def)
  have off: "unat offset \<le> length xs" using assms(4) xs by (simp add: word_le_nat_alt)
  have need: "unat (data_len s + bytes) = length xs + length src"
    using assms(2,5) xs by (subst unat_add_lem [THEN iffD1]) simp_all
  have nz: "bytes \<noteq> 0" using assms(2,3) by (auto simp: unat_eq_zero)
  define grown where "grown = (if buf_len s < data_len s + bytes
      then IBinary_Realloc (Some s) (buf_len s + grow_len s (data_len s + bytes)) m
      else Some (buf_ptr s \<noteq> None, Some s, m))"
  have "\<exists>ok s1 m1. grown = Some (ok, Some s1, m1) \<and> growby_len s1 = growby_len s
      \<and> (if ok then ib_rep s1 xs \<and> length xs + length src \<le> unat (buf_len s1) \<and> buf_ptr s1 \<noteq> None else s1 = s)
      \<and> (alloc_ok m (next_addr m) \<longrightarrow> ok)"
  proof (cases "buf_len s < data_len s + bytes")
    case True
    have g: "length xs + length src \<le> unat (buf_len s + grow_len s (data_len s + bytes))"
      "buf_len s + grow_len s (data_len s + bytes) \<noteq> 0"
    proof -
      have "data_len s + bytes \<noteq> 0" using need assms(3) by auto
      with grow_len_spec [OF assms(6), of "data_len s + bytes"] need assms(5)
      show "length xs + length src \<le> unat (buf_len s + grow_len s (data_len s + bytes))"
        "buf_len s + grow_len s (data_len s + bytes) \<noteq> 0" by simp_all
    qed
    from realloc_rep [OF assms(1) g(2), of m] obtain ok s1 m1 where
      r: "grown = Some (ok, Some s1, m1)" "growby_len s1 = growby_len s" "alloc_ok m (next_addr m) \<longrightarrow> ok"
        "if ok then ib_rep s1 (take (unat (buf_len s + grow_len s (data_len s + bytes))) xs)
           \<and> buf_len s1 = buf_len s + grow_len s (data_len s + bytes) else s1 = s"
        "buf_ptr s1 \<noteq> None = (ok \<or> buf_ptr s \<noteq> None)"
      unfolding grown_def if_P [OF True] by blast
    have "if ok then ib_rep s1 xs \<and> length xs + length src \<le> unat (buf_len s1) \<and> buf_ptr s1 \<noteq> None else s1 = s"
      using r(4,5) g(1) by (cases ok) simp_all
    with r(1-3) show ?thesis by blast
  next
    case False
    then have le: "length xs + length src \<le> unat (buf_len s)" using need by (simp add: word_less_nat_alt)
    then have "buf_ptr s \<noteq> None" using assms(1,3) by (auto simp: ib_rep_def split: option.splits)
    with False le assms(1) show ?thesis by (auto simp: grown_def)
  qed
  then obtain ok s1 m1 where gr: "grown = Some (ok, Some s1, m1)" "growby_len s1 = growby_len s"
    "if ok then ib_rep s1 xs \<and> length xs + length src \<le> unat (buf_len s1) \<and> buf_ptr s1 \<noteq> None else s1 = s"
    "alloc_ok m (next_addr m) \<longrightarrow> ok" by blast
  have run: "IBinary_Insert (Some s) (Some src) bytes offset m = do {
      (ok, self1, m1) \<leftarrow> grown; s1 \<leftarrow> self1;
      if \<not> ok then Some (False, self1, m1)
      else do {
        b \<leftarrow> buf_ptr s1;
        b1 \<leftarrow> (if offset < data_len s1
              then mem_move b (unat offset + unat bytes) (unat offset) (unat (data_len s1 - offset)) else Some b);
        b2 \<leftarrow> (if length src < unat bytes then None else mem_put b1 (unat offset) (take (unat bytes) src));
        Some (True, Some (s1\<lparr>buf_ptr := Some b2, data_len := data_len s1 + bytes\<rparr>), m1) } }"
    using nz assms(4,6) by (simp add: IBinary_Insert_def grown_def)
  show ?thesis
  proof (cases ok)
    case False
    with run gr show ?thesis by auto
  next
    case True
    with gr(3) obtain b where s1: "ib_rep s1 xs" "length xs + length src \<le> unat (buf_len s1)" "buf_ptr s1 = Some b"
      by auto
    note d = ib_repD [OF s1(1,3)]
    let ?ys = "take (unat offset) xs @ src @ drop (unat offset) xs"
    have lt: "offset < data_len s1 \<longleftrightarrow> unat offset < length xs" using d(5) by (simp add: word_less_nat_alt)
    have le: "offset \<le> data_len s1" using d(5) off by (simp add: word_le_nat_alt)
    have df: "unat (data_len s1 - offset) = length xs - unat offset" using le d(5) by (simp add: unat_sub)
    have dl: "unat (data_len s1 + bytes) = length ?ys"
      using assms(2,5) d(5) off by (subst unat_add_lem [THEN iffD1]) simp_all
    define B where "B = ?ys @ replicate (unat (buf_len s1) - length ?ys) 0"
    from insert_copy [OF s1(1,3) off s1(2)] obtain b1 where
      b1: "(if unat offset < length xs then mem_move b (unat offset + length src) (unat offset) (length xs - unat offset)
          else Some b) = Some b1" "mem_put b1 (unat offset) src = Some B" unfolding B_def by blast
    have "IBinary_Insert (Some s) (Some src) bytes offset m
        = Some (True, Some (s1\<lparr>buf_ptr := Some B, data_len := data_len s1 + bytes\<rparr>), m1)"
      unfolding run gr(1) using b1(1)
      by (cases "unat offset < length xs") (simp_all add: True s1(3) b1(2) lt df assms(2))
    moreover have "length ?ys \<le> unat (buf_len s1)" using s1(2) off by simp
    then have "ib_rep (s1\<lparr>buf_ptr := Some B, data_len := data_len s1 + bytes\<rparr>) ?ys"
      using dl d(3) by (simp add: ib_rep_def B_def)
    ultimately show ?thesis using gr(2) by (intro exI [of _ True] exI conjI) simp_all
  qed
qed

section \<open>The other methods\<close>

lemma truncate_rep:
  assumes "ib_rep s xs"
  shows "\<exists>s'. IBinary_Truncate (Some s) len = Some (buf_ptr s \<noteq> None, Some s')
    \<and> ib_rep s' (take (unat len) xs) \<and> growby_len s' = growby_len s \<and> buf_len s' = buf_len s"
proof (cases "buf_ptr s")
  case None
  with ib_rep_Nil [OF assms None] assms show ?thesis by (simp add: IBinary_Truncate_def)
next
  case (Some b)
  note d = ib_repD [OF assms Some]
  show ?thesis
  proof (cases "len < data_len s")
    case True
    then have lt: "unat len < length xs" using d(5) by (simp add: word_less_nat_alt)
    then have "len \<le> buf_len s" using d(4) by (simp add: word_le_nat_alt)
    then have df: "unat (buf_len s - len) = unat (buf_len s) - unat len" by (simp add: unat_sub)
    have "b = take (unat len) b @ drop (unat len) b" by simp
    moreover have "length (drop (unat len) b) = unat (buf_len s) - unat len" using d(2) by simp
    ultimately have "IBinary_WipeMemory b (unat len) (unat (buf_len s) - unat len)
        = Some (take (unat len) b @ replicate (unat (buf_len s) - unat len) 0)"
      using mem_put_append [of "drop (unat len) b" "replicate (unat (buf_len s) - unat len) 0" "take (unat len) b"
          "unat len" "[]"] lt d(2,4) by (simp add: IBinary_WipeMemory_def)
    moreover have "take (unat len) b = take (unat len) xs" using lt by (simp add: d(1))
    ultimately show ?thesis using Some True lt d(3,4) df by (simp add: IBinary_Truncate_def ib_rep_def)
  next
    case False
    then have "length xs \<le> unat len" using d(5) by (simp add: word_less_nat_alt)
    with False Some assms show ?thesis by (simp add: IBinary_Truncate_def)
  qed
qed

lemma delete_rep:
  assumes "ib_rep s xs" "unat offset + unat bytes \<le> length xs"
  shows "\<exists>s' r. IBinary_Delete (Some s) offset bytes = Some (r, Some s')
    \<and> ib_rep s' (take (unat offset) xs @ drop (unat offset + unat bytes) xs) \<and> growby_len s' = growby_len s"
proof (cases "bytes = 0 \<or> buf_ptr s = None")
  case True
  with assms show ?thesis
    by (cases "buf_ptr s") (use ib_rep_Nil [OF assms(1)] in \<open>auto simp: IBinary_Delete_def\<close>)
next
  case False
  then obtain b where b: "buf_ptr s = Some b" "bytes \<noteq> 0" by auto
  note d = ib_repD [OF assms(1) b(1)]
  let ?o = "unat offset" and ?n = "unat bytes" and ?len = "unat (buf_len s)"
  have on: "unat (offset + bytes) = ?o + ?n"
    using assms(2) d(4) unat_less_2p [of "buf_len s"] by (subst unat_add_lem [THEN iffD1]) simp_all
  have le: "offset + bytes \<le> data_len s" using on d(5) assms(2) by (simp add: word_le_nat_alt)
  have l1: "unat (data_len s - bytes) = length xs - ?n" "unat (data_len s - offset - bytes) = length xs - ?o - ?n"
    using assms(2) d(5) by (simp_all add: unat_sub word_le_nat_alt)
  let ?ys = "take ?o xs @ drop (?o + ?n) xs"
  have yl: "length ?ys = length xs - ?n" using assms(2) by simp
  have mv: "take (length xs - ?o - ?n) (drop (?o + ?n) b) = drop (?o + ?n) xs" using assms(2) by (simp add: d(1))
  have "mem_move b ?o (?o + ?n) (length xs - ?o - ?n)
      = Some (take ?o b @ drop (?o + ?n) xs @ drop (length xs - ?n) b)"
    using assms(2) d(2,4) unfolding mem_move_def mem_put_def mv by (simp add: add.commute)
  moreover have "take ?o b = take ?o xs" using assms(2) by (simp add: d(1))
  moreover have "drop (length xs - ?n) b = drop (length xs - ?n) xs @ replicate (?len - length xs) 0"
    by (simp add: d(1))
  ultimately have m1: "mem_move b ?o (?o + ?n) (length xs - ?o - ?n)
      = Some (?ys @ drop (length xs - ?n) xs @ replicate (?len - length xs) 0)" by simp
  have m2: "IBinary_WipeMemory (?ys @ drop (length xs - ?n) xs @ replicate (?len - length xs) 0) (length xs - ?n) ?n
      = Some (?ys @ replicate ?n 0 @ replicate (?len - length xs) 0)"
    unfolding IBinary_WipeMemory_def by (rule mem_put_append) (use assms(2) yl in auto)
  have "IBinary_Delete (Some s) offset bytes = Some (True, Some (s\<lparr>
      buf_ptr := Some (?ys @ replicate ?n 0 @ replicate (?len - length xs) 0), data_len := data_len s - bytes\<rparr>))"
    using b le l1 m1 m2 by (simp add: IBinary_Delete_def Let_def)
  moreover have "replicate ?n 0 @ replicate (?len - length xs) 0 = replicate (?len - length ?ys) 0"
    using assms(2) d(4) unfolding yl by (simp add: replicate_add [symmetric])
  ultimately show ?thesis using d(3,4) l1(1) assms(2) by (auto simp: ib_rep_def)
qed

lemma copyover_rep:
  assumes "ib_rep s xs" "unat bytes = length src" "src \<noteq> []" "offset \<le> data_len s"
    "unat offset + length src \<le> unat (buf_len s)"
  shows "\<exists>s'. IBinary_CopyOver (Some s) (Some src) bytes offset m = Some (True, Some s', m)
    \<and> data_len s' = (if unat offset + length src \<le> length xs then data_len s else data_len s + (bytes - offset))
    \<and> (unat offset + length src \<le> length xs
        \<longrightarrow> ib_rep s' (take (unat offset) xs @ src @ drop (unat offset + length src) xs))"
proof -
  let ?o = "unat offset"
  have on: "unat (offset + bytes) = ?o + length src"
    using assms(2,5) unat_less_2p [of "buf_len s"] by (subst unat_add_lem [THEN iffD1]) simp_all
  have nz: "bytes \<noteq> 0" using assms(2,3) by (auto simp: unat_eq_zero)
  have "0 < unat (buf_len s)" using assms(3,5) by (cases src) auto
  then obtain b where b: "buf_ptr s = Some b" using assms(1) by (auto simp: ib_rep_def split: option.splits)
  note d = ib_repD [OF assms(1) b]
  have fit: "\<not> buf_len s < offset + bytes" using on assms(5) by (simp add: word_less_nat_alt)
  have dl: "data_len s < offset + bytes \<longleftrightarrow> \<not> ?o + length src \<le> length xs"
    using on d(5) by (auto simp: word_less_nat_alt)
  define B where "B = take ?o b @ src @ drop (?o + length src) b"
  have put: "mem_put b ?o src = Some B" using assms(5) d(2) by (simp add: mem_put_def B_def)
  define s' where "s' = s\<lparr>buf_ptr := Some B, data_len := if data_len s < offset + bytes
      then data_len s + (bytes - offset) else data_len s\<rparr>"
  have "IBinary_CopyOver (Some s) (Some src) bytes offset m = Some (True, Some s', m)"
    using nz assms(2,4) b fit put by (simp add: IBinary_CopyOver_def s'_def)
  moreover have "ib_rep s' (take ?o xs @ src @ drop (?o + length src) xs)" if "?o + length src \<le> length xs"
    using that d dl by (simp add: ib_rep_def s'_def B_def)
  ultimately show ?thesis using dl by (auto simp: s'_def)
qed

section \<open>Properties\<close>

text \<open>
  \<^verbatim>\<open>IBinary_Insert\<close> puts the new bytes at the offset and keeps all other data in order, growing
  the buffer to the grow-by boundary when needed; it never writes outside the buffer. If the
  buffer cannot grow, the object is unchanged and the result is \<^verbatim>\<open>NULL\<close>. Sizes that would
  overflow \<^verbatim>\<open>size_t\<close> are excluded.
\<close>

theorem ibinary_insert:
  assumes "ib_rep s xs" "unat bytes = length src" "src \<noteq> []" "offset \<le> data_len s"
    "length xs + length src + unat (growby_len s) < 2 ^ 64" "growby_len s \<noteq> 0"
  shows "\<exists>ok s' m'. IBinary_Insert (Some s) (Some src) bytes offset m = Some (ok, Some s', m')
    \<and> (if ok then ib_rep s' (take (unat offset) xs @ src @ drop (unat offset) xs) else s' = s)
    \<and> (alloc_ok m (next_addr m) \<longrightarrow> ok)"
  using insert_rep [OF assms, of m] by blast

definition ib_example :: IBinary where
  "ib_example = \<lparr>buf_ptr = Some [1, 2, 3, 4, 0, 0, 0, 0], buf_len = 8, data_len = 4, growby_len = 8\<rparr>"

lemma ib_example_rep: "ib_rep ib_example [1, 2, 3, 4]"
proof -
  have "replicate 4 (0 :: u8) = [0, 0, 0, 0]" by (simp add: numeral_eq_Suc)
  then show ?thesis by (simp add: ib_rep_def ib_example_def)
qed

theorem ibinary_insert_witness:
  "\<exists>s' m'. IBinary_Insert (Some ib_example) (Some [9, 9, 9, 9, 9]) 5 2 roomy = Some (True, Some s', m')
     \<and> ib_rep s' [1, 2, 9, 9, 9, 9, 9, 3, 4]"
  using ibinary_insert [OF ib_example_rep, of 5 "[9, 9, 9, 9, 9]" 2 roomy]
  by (auto simp: ib_example_def roomy_def split: if_splits)

text \<open>
  \<^verbatim>\<open>IBinary_Delete\<close> removes exactly the given range of the data and wipes the bytes that
  become unused (the rest of the buffer is zero afterwards).
\<close>

theorem ibinary_delete:
  assumes "ib_rep s xs" "unat offset + unat bytes \<le> length xs"
  shows "\<exists>s' r. IBinary_Delete (Some s) offset bytes = Some (r, Some s')
    \<and> ib_rep s' (take (unat offset) xs @ drop (unat offset + unat bytes) xs)"
  using delete_rep [OF assms] by blast

theorem ibinary_delete_witness:
  "\<exists>s' r. IBinary_Delete (Some ib_example) 1 2 = Some (r, Some s') \<and> ib_rep s' [1, 4]"
  using ibinary_delete [OF ib_example_rep, of 1 2] by auto

text \<open>
  \<^verbatim>\<open>IBinary_CopyOver\<close> within the data overwrites exactly the addressed bytes. When the copy
  extends the data, the recorded length becomes \<^verbatim>\<open>data_len + (bytes - offset)\<close>, which is the
  end of the copied bytes only if \<^verbatim>\<open>data_len == 2 * offset\<close>.
\<close>

theorem ibinary_copyover:
  assumes "ib_rep s xs" "unat bytes = length src" "src \<noteq> []" "offset \<le> data_len s"
    "unat offset + length src \<le> unat (buf_len s)"
  shows "\<exists>s'. IBinary_CopyOver (Some s) (Some src) bytes offset m = Some (True, Some s', m)
    \<and> (if unat offset + length src \<le> length xs
       then ib_rep s' (take (unat offset) xs @ src @ drop (unat offset + length src) xs)
       else IBinary_GetLen (Some s') = data_len s + (bytes - offset)
         \<and> (IBinary_GetLen (Some s') = offset + bytes \<longleftrightarrow> data_len s = 2 * offset))"
proof -
  have "data_len s + (bytes - offset) = offset + bytes \<longleftrightarrow> data_len s = 2 * offset"
    by (simp add: algebra_simps)
  with copyover_rep [OF assms, of m] show ?thesis by (auto simp: IBinary_GetLen_def)
qed

theorem ibinary_copyover_witness:
  "\<exists>s'. IBinary_CopyOver (Some ib_example) (Some [7, 7, 7]) 3 4 roomy = Some (True, Some s', roomy)
     \<and> IBinary_GetLen (Some s') = 3"
  using ibinary_copyover [OF ib_example_rep, of 3 "[7, 7, 7]" 4 roomy]
  by (auto simp: ib_example_def split: if_splits)

end
