(* ===== verification/Trx_Mgr.thy ===== *)
theory Trx_Mgr
  imports IBinary
begin

text \<open>
  RPC transactions and the transaction manager, \<^verbatim>\<open>src/IPF/Sources/Common/ipf_ipc_trxmgr.c\<close>. Transactions
  are reference counted objects in the \<open>trx_mem\<close> of a heap that also keeps the transaction id
  generator (a static variable of the code); the manager's pool holds pointers to them. The
  semaphore \<^verbatim>\<open>sync\<close> is its count, the time of day is an argument, and so is the resolution of
  the clock. An access to a transaction that has been freed is undefined (\<open>None\<close>). The
  properties show that reference counting makes every access of the manager safe, that a
  waiting thread is always woken, and that transaction ids never collide with the wild card.
\<close>

section \<open>State\<close>

datatype eIrpcMsgType =
  IrpcMsg_None | IrpcMsg_ProcRequest | IrpcMsg_ProcResponse | IrpcMsg_AuthRequest | IrpcMsg_AuthResponse

record esif_ccb_realtime_t =
  clockticks :: u64
  clocktime :: u64

record IrpcTransaction =
  ipfHandle :: esif_handle_t
  refCount :: u64
  trxId :: u64
  timestamp :: esif_ccb_realtime_t
  sync :: nat
  request :: "IBinary option"
  response :: "IBinary option"
  trx_result :: esif_rc

record trx_heap = allocator +
  trx_mem :: "addr \<Rightarrow> IrpcTransaction option"
  trxIdGenerator :: u64

record IpfTrxMgr =
  trxPool :: "addr option list option"
  poolSize :: size_t
  rpcTimeout :: u64

abbreviation (input) TRXID_MIN :: u64 where "TRXID_MIN \<equiv> 0x8000000000000000"
abbreviation (input) TRXID_MAX :: u64 where "TRXID_MAX \<equiv> 0xffffffffffff0000"
abbreviation (input) IPFTRX_MATCHANY :: u64 where "IPFTRX_MATCHANY \<equiv> 0xffffffffffffffff"
abbreviation (input) TRX_POOL_INITIAL :: nat where "TRX_POOL_INITIAL \<equiv> 32"
abbreviation (input) TRX_POOL_GROWBY :: nat where "TRX_POOL_GROWBY \<equiv> 2"
abbreviation (input) TRX_POOL_MAXSIZE :: nat where "TRX_POOL_MAXSIZE \<equiv> 2048"
abbreviation (input) TRX_EXPIRE_TIMEOUT_SECONDS :: u64 where "TRX_EXPIRE_TIMEOUT_SECONDS \<equiv> 45"
abbreviation (input) TRX_EXPIRE_ALL :: u64 where "TRX_EXPIRE_ALL \<equiv> 0"
abbreviation (input) TRX_EXPIRE_TIMEOUT_NEVER :: u64 where "TRX_EXPIRE_TIMEOUT_NEVER \<equiv> 0x7fffffff"

definition esif_ccb_realtime_diff_sec :: "u64 \<Rightarrow> esif_ccb_realtime_t \<Rightarrow> esif_ccb_realtime_t \<Rightarrow> u64" where
  "esif_ccb_realtime_diff_sec res t1 t2 = (clockticks t2 - clockticks t1) div res div 1000000000"

section \<open>Transactions\<close>

text \<open>Access to a transaction through a pointer.\<close>

definition trx_update :: "addr \<Rightarrow> (IrpcTransaction \<Rightarrow> IrpcTransaction) \<Rightarrow> trx_heap \<Rightarrow> trx_heap option" where
  "trx_update a f h =
     (case trx_mem h a of None \<Rightarrow> None | Some t \<Rightarrow> Some (h\<lparr>trx_mem := (trx_mem h)(a \<mapsto> f t)\<rparr>))"

definition IrpcTransaction_Destroy :: "addr option \<Rightarrow> trx_heap \<Rightarrow> trx_heap option" where
  "IrpcTransaction_Destroy self h =
     (case self of
        None \<Rightarrow> Some h
      | Some a \<Rightarrow> do {
          t \<leftarrow> trx_mem h a;
          _ \<leftarrow> IBinary_Destroy (request t);
          _ \<leftarrow> IBinary_Destroy (response t);
          Some (h\<lparr>trx_mem := (trx_mem h)(a := None)\<rparr>) })"

definition IrpcTransaction_GetRef :: "addr option \<Rightarrow> trx_heap \<Rightarrow> trx_heap option" where
  "IrpcTransaction_GetRef self h =
     (case self of None \<Rightarrow> Some h | Some a \<Rightarrow> trx_update a (\<lambda>t. t\<lparr>refCount := refCount t + 1\<rparr>) h)"

definition IrpcTransaction_PutRef :: "addr option \<Rightarrow> trx_heap \<Rightarrow> trx_heap option" where
  "IrpcTransaction_PutRef self h =
     (case self of
        None \<Rightarrow> Some h
      | Some a \<Rightarrow> do {
          t \<leftarrow> trx_mem h a;
          h1 \<leftarrow> trx_update a (\<lambda>t. t\<lparr>refCount := refCount t - 1\<rparr>) h;
          if refCount t - 1 = 0 then IrpcTransaction_Destroy self h1 else Some h1 })"

definition IrpcTransaction_Signal :: "addr option \<Rightarrow> trx_heap \<Rightarrow> trx_heap option" where
  "IrpcTransaction_Signal self h =
     (case self of None \<Rightarrow> Some h | Some a \<Rightarrow> trx_update a (\<lambda>t. t\<lparr>sync := sync t + 1\<rparr>) h)"

text \<open>
  A waiting thread returns only once the semaphore has been posted (\<open>None\<close> as the first
  component while it is blocked).
\<close>

definition IrpcTransaction_Wait :: "addr option \<Rightarrow> trx_heap \<Rightarrow> (esif_rc option \<times> trx_heap) option" where
  "IrpcTransaction_Wait self h =
     (case self of
        None \<Rightarrow> Some (Some ESIF_E_PARAMETER_IS_NULL, h)
      | Some a \<Rightarrow> do {
          t \<leftarrow> trx_mem h a;
          if sync t = 0 then Some (None, h)
          else do {
            h1 \<leftarrow> trx_update a (\<lambda>t. t\<lparr>sync := sync t - 1\<rparr>) h;
            let rc = trx_result t in
            Some (Some (if rc = ESIF_OK \<and> response t = None then ESIF_E_SESSION_REQUEST_FAILED else rc), h1) } })"

definition IrpcTransaction_Create ::
    "eIrpcMsgType \<Rightarrow> esif_ccb_realtime_t \<Rightarrow> trx_heap \<Rightarrow> (addr option \<times> trx_heap) option" where
  "IrpcTransaction_Create msgType now h =
     (case esif_ccb_malloc h of
        (None, h1) \<Rightarrow> Some (None, h1)
      | (Some a, h1) \<Rightarrow> do {
          let zeroed = \<lparr>ipfHandle = 0, refCount = 0, trxId = 0, timestamp = \<lparr>clockticks = 0, clocktime = 0\<rparr>,
            sync = 0, request = None, response = None, trx_result = ESIF_OK\<rparr>;
          h2 \<leftarrow> IrpcTransaction_GetRef (Some a) (h1\<lparr>trx_mem := (trx_mem h1)(a \<mapsto> zeroed)\<rparr>);
          h3 \<leftarrow> trx_update a (\<lambda>t. t\<lparr>timestamp := now, trx_result := ESIF_OK\<rparr>) h2;
          let (req, h4) = (if msgType = IrpcMsg_ProcRequest then IBinary_Create h3 else (None, h3));
          let (resp, h5) = (if msgType = IrpcMsg_ProcResponse then IBinary_Create h4 else (None, h4));
          h6 \<leftarrow> trx_update a (\<lambda>t. t\<lparr>request := req, response := resp\<rparr>) h5;
          if msgType = IrpcMsg_ProcRequest \<and> req = None \<or> msgType = IrpcMsg_ProcResponse \<and> resp = None
          then do { h7 \<leftarrow> IrpcTransaction_Destroy (Some a) h6; Some (None, h7) }
          else do {
            let newId = trxIdGenerator h6 + 1;
            h7 \<leftarrow> trx_update a (\<lambda>t. t\<lparr>trxId := newId\<rparr>) (h6\<lparr>trxIdGenerator := newId\<rparr>);
            Some (Some a, if newId = TRXID_MAX then h7\<lparr>trxIdGenerator := TRXID_MIN\<rparr> else h7) } })"

section \<open>The transaction manager\<close>

definition IpfTrxMgr_Init :: "IpfTrxMgr option \<Rightarrow> trx_heap \<Rightarrow> esif_rc \<times> IpfTrxMgr option \<times> trx_heap" where
  "IpfTrxMgr_Init self h =
     (case self of
        None \<Rightarrow> (ESIF_E_PARAMETER_IS_NULL, self, h)
      | Some m \<Rightarrow>
          (case esif_ccb_malloc h of
             (None, h1) \<Rightarrow> (ESIF_E_NO_MEMORY, Some (m\<lparr>trxPool := None\<rparr>), h1)
           | (Some _, h1) \<Rightarrow>
               (ESIF_OK, Some (m\<lparr>trxPool := Some (replicate TRX_POOL_INITIAL None),
                  poolSize := of_nat TRX_POOL_INITIAL, rpcTimeout := TRX_EXPIRE_TIMEOUT_SECONDS\<rparr>), h1)))"

text \<open>The array behind the pool pointer, of at least \<^verbatim>\<open>poolSize\<close> entries.\<close>

definition pool_of :: "IpfTrxMgr \<Rightarrow> addr option list option" where
  "pool_of m =
     (case trxPool m of
        None \<Rightarrow> if poolSize m = 0 then Some [] else None
      | Some p \<Rightarrow> if length p = unat (poolSize m) then Some p else None)"

text \<open>One entry expires: detach it, drop its messages, wake the waiter, release the reference.\<close>

definition expire_trx :: "addr \<Rightarrow> trx_heap \<Rightarrow> trx_heap option" where
  "expire_trx a h = do {
     t \<leftarrow> trx_mem h a;
     _ \<leftarrow> IBinary_Destroy (request t);
     _ \<leftarrow> IBinary_Destroy (response t);
     h1 \<leftarrow> trx_update a (\<lambda>t. t\<lparr>request := None, response := None\<rparr>) h;
     h2 \<leftarrow> IrpcTransaction_Signal (Some a) h1;
     IrpcTransaction_PutRef (Some a) h2 }"

fun expire_loop ::
    "u64 \<Rightarrow> u64 \<Rightarrow> esif_ccb_realtime_t \<Rightarrow> addr option list \<Rightarrow> trx_heap \<Rightarrow> (addr option list \<times> trx_heap) option" where
  "expire_loop seconds res now [] h = Some ([], h)"
| "expire_loop seconds res now (None # pool) h = do {
     (pool', h') \<leftarrow> expire_loop seconds res now pool h;
     Some (None # pool', h') }"
| "expire_loop seconds res now (Some a # pool) h = do {
     t \<leftarrow> trx_mem h a;
     if seconds = TRX_EXPIRE_ALL \<or> seconds \<le> esif_ccb_realtime_diff_sec res (timestamp t) now
     then do {
       h1 \<leftarrow> expire_trx a h;
       (pool', h') \<leftarrow> expire_loop seconds res now pool h1;
       Some (None # pool', h') }
     else do {
       (pool', h') \<leftarrow> expire_loop seconds res now pool h;
       Some (Some a # pool', h') } }"

definition IpfTrxMgr_ExpireTimeout ::
    "IpfTrxMgr option \<Rightarrow> u64 \<Rightarrow> u64 \<Rightarrow> esif_ccb_realtime_t \<Rightarrow> trx_heap \<Rightarrow> (IpfTrxMgr option \<times> trx_heap) option" where
  "IpfTrxMgr_ExpireTimeout self seconds res now h =
     (case self of
        None \<Rightarrow> Some (self, h)
      | Some m \<Rightarrow>
          if seconds < TRX_EXPIRE_TIMEOUT_NEVER then do {
            pool \<leftarrow> pool_of m;
            (pool', h') \<leftarrow> expire_loop seconds res now pool h;
            Some (Some (if trxPool m = None then m else m\<lparr>trxPool := Some pool'\<rparr>), h') }
          else Some (self, h))"

definition IpfTrxMgr_ExpireInactive ::
    "IpfTrxMgr \<Rightarrow> u64 \<Rightarrow> esif_ccb_realtime_t \<Rightarrow> trx_heap \<Rightarrow> (IpfTrxMgr option \<times> trx_heap) option" where
  "IpfTrxMgr_ExpireInactive m res now h = IpfTrxMgr_ExpireTimeout (Some m) (rpcTimeout m) res now h"

definition IpfTrxMgr_ExpireAll ::
    "IpfTrxMgr option \<Rightarrow> u64 \<Rightarrow> esif_ccb_realtime_t \<Rightarrow> trx_heap \<Rightarrow> (IpfTrxMgr option \<times> trx_heap) option" where
  "IpfTrxMgr_ExpireAll self res now h = IpfTrxMgr_ExpireTimeout self TRX_EXPIRE_ALL res now h"

definition IpfTrxMgr_Uninit ::
    "IpfTrxMgr option \<Rightarrow> u64 \<Rightarrow> esif_ccb_realtime_t \<Rightarrow> trx_heap \<Rightarrow> (IpfTrxMgr option \<times> trx_heap) option" where
  "IpfTrxMgr_Uninit self res now h =
     (case self of
        None \<Rightarrow> Some (self, h)
      | Some _ \<Rightarrow> do {
          (self', h') \<leftarrow> IpfTrxMgr_ExpireAll self res now h;
          m \<leftarrow> self';
          Some (Some (m\<lparr>trxPool := None, poolSize := 0\<rparr>), h') })"

definition IpfTrxMgr_AddTransaction ::
    "IpfTrxMgr option \<Rightarrow> addr option \<Rightarrow> trx_heap \<Rightarrow> (esif_rc \<times> IpfTrxMgr option \<times> trx_heap) option" where
  "IpfTrxMgr_AddTransaction self trx h =
     (case (self, trx) of
        (Some m, Some a) \<Rightarrow> do {
          pool \<leftarrow> pool_of m;
          (case first_index (\<lambda>e. e = None) pool of
             Some j \<Rightarrow> do {
               h1 \<leftarrow> IrpcTransaction_GetRef trx h;
               Some (ESIF_OK, Some (m\<lparr>trxPool := Some (pool[j := trx])\<rparr>), h1) }
           | None \<Rightarrow>
               if poolSize m + of_nat TRX_POOL_GROWBY \<le> of_nat TRX_POOL_MAXSIZE then
                 (case esif_ccb_malloc h of
                    (None, h1) \<Rightarrow> Some (ESIF_E_MAXIMUM_CAPACITY_REACHED, self, h1)
                  | (Some _, h1) \<Rightarrow> do {
                      h2 \<leftarrow> IrpcTransaction_GetRef trx h1;
                      Some (ESIF_OK, Some (m\<lparr>trxPool := Some (pool @ [trx, None]),
                              poolSize := poolSize m + of_nat TRX_POOL_GROWBY\<rparr>), h2) })
               else Some (ESIF_E_MAXIMUM_CAPACITY_REACHED, self, h)) }
      | _ \<Rightarrow> Some (ESIF_E_PARAMETER_IS_NULL, self, h))"

text \<open>The search of \<^verbatim>\<open>GetTransaction\<close>: \<open>Some None\<close> when nothing matches.\<close>

definition trx_matches :: "esif_handle_t \<Rightarrow> u64 \<Rightarrow> IrpcTransaction \<Rightarrow> bool" where
  "trx_matches handle tid t \<longleftrightarrow>
     (ipfHandle t = handle \<or> handle = ESIF_INVALID_HANDLE) \<and> (trxId t = tid \<or> tid = IPFTRX_MATCHANY)"

fun get_loop :: "esif_handle_t \<Rightarrow> u64 \<Rightarrow> addr option list \<Rightarrow> trx_heap \<Rightarrow> (nat \<times> addr) option option" where
  "get_loop handle tid [] h = Some None"
| "get_loop handle tid (None # pool) h =
     map_option (map_option (\<lambda>(j, a). (Suc j, a))) (get_loop handle tid pool h)"
| "get_loop handle tid (Some a # pool) h = do {
     t \<leftarrow> trx_mem h a;
     if trx_matches handle tid t then Some (Some (0, a))
     else map_option (map_option (\<lambda>(j, a). (Suc j, a))) (get_loop handle tid pool h) }"

definition IpfTrxMgr_GetTransaction ::
    "IpfTrxMgr option \<Rightarrow> esif_handle_t \<Rightarrow> u64 \<Rightarrow> trx_heap \<Rightarrow> (addr option \<times> IpfTrxMgr option \<times> trx_heap) option" where
  "IpfTrxMgr_GetTransaction self handle tid h =
     (case self of
        None \<Rightarrow> Some (None, self, h)
      | Some m \<Rightarrow> do {
          pool \<leftarrow> pool_of m;
          found \<leftarrow> get_loop handle tid pool h;
          (case found of
             None \<Rightarrow> Some (None, self, h)
           | Some (j, a) \<Rightarrow> do {
               h1 \<leftarrow> IrpcTransaction_PutRef (Some a) h;
               Some (Some a, Some (m\<lparr>trxPool := Some (pool[j := None])\<rparr>), h1) }) })"

definition IpfTrxMgr_GetTimeout :: "IpfTrxMgr option \<Rightarrow> u64" where
  "IpfTrxMgr_GetTimeout self = (case self of None \<Rightarrow> 0 | Some m \<Rightarrow> rpcTimeout m)"

definition IpfTrxMgr_SetTimeout :: "IpfTrxMgr option \<Rightarrow> u64 \<Rightarrow> IpfTrxMgr option" where
  "IpfTrxMgr_SetTimeout self timeout =
     map_option (\<lambda>m. m\<lparr>rpcTimeout := if timeout \<noteq> 0 then timeout else TRX_EXPIRE_TIMEOUT_SECONDS\<rparr>) self"

fun reset_loop :: "esif_ccb_realtime_t \<Rightarrow> addr option list \<Rightarrow> trx_heap \<Rightarrow> trx_heap option" where
  "reset_loop now [] h = Some h"
| "reset_loop now (None # pool) h = reset_loop now pool h"
| "reset_loop now (Some a # pool) h = do {
     h1 \<leftarrow> trx_update a (\<lambda>t. t\<lparr>timestamp := now\<rparr>) h;
     reset_loop now pool h1 }"

definition IpfTrxMgr_ResetTimeouts :: "IpfTrxMgr option \<Rightarrow> esif_ccb_realtime_t \<Rightarrow> trx_heap \<Rightarrow> trx_heap option" where
  "IpfTrxMgr_ResetTimeouts self now h =
     (case self of None \<Rightarrow> Some h | Some m \<Rightarrow> do { pool \<leftarrow> pool_of m; reset_loop now pool h })"

section \<open>Reference counts\<close>

definition bin_ok :: "IBinary option \<Rightarrow> bool" where
  "bin_ok b \<longleftrightarrow> (case b of None \<Rightarrow> True | Some x \<Rightarrow> \<exists>xs. ib_rep x xs)"

text \<open>
  \<open>ext a\<close> references to transaction \<open>a\<close> are held by threads; the others are the pool's. The
  counter is their sum, and an object exists exactly as long as a reference does.
\<close>

definition ref_at :: "trx_heap \<Rightarrow> addr option list \<Rightarrow> (addr \<Rightarrow> nat) \<Rightarrow> addr \<Rightarrow> bool" where
  "ref_at h p ext a \<longleftrightarrow> ext a \<le> 2 ^ 32 \<and>
     (case trx_mem h a of
        None \<Rightarrow> ext a = 0 \<and> count_list p (Some a) = 0
      | Some t \<Rightarrow> a < next_addr h \<and> unat (refCount t) = ext a + count_list p (Some a)
          \<and> 0 < ext a + count_list p (Some a) \<and> bin_ok (request t) \<and> bin_ok (response t))"

definition ref_ok :: "trx_heap \<Rightarrow> addr option list \<Rightarrow> (addr \<Rightarrow> nat) \<Rightarrow> bool" where
  "ref_ok h p ext \<longleftrightarrow> (\<forall>a. ref_at h p ext a)"

definition trx_inv :: "IpfTrxMgr \<times> trx_heap \<times> (addr \<Rightarrow> nat) \<Rightarrow> bool" where
  "trx_inv = (\<lambda>(m, h, ext). \<exists>p. trxPool m = Some p \<and> length p = unat (poolSize m)
     \<and> length p \<le> TRX_POOL_MAXSIZE \<and> ref_ok h p ext)"

lemma destroy_bin: "bin_ok b \<Longrightarrow> \<exists>r. IBinary_Destroy b = Some r"
  by (auto simp: bin_ok_def IBinary_Destroy_def IBinary_WipeMemory_def mem_put_def ib_rep_def split: option.splits)

lemma ref_ok_at:
  assumes "ref_ok h p ext" "0 < ext a + count_list p (Some a)"
  obtains t where "trx_mem h a = Some t" "unat (refCount t) = ext a + count_list p (Some a)"
    "bin_ok (request t)" "bin_ok (response t)" "a < next_addr h" "ext a \<le> 2 ^ 32"
proof -
  from assms(1) have "ref_at h p ext a" by (simp add: ref_ok_def)
  with assms(2) that show thesis by (cases "trx_mem h a") (auto simp: ref_at_def)
qed

lemma ref_ok_upd:
  assumes "ref_ok h p ext" "ref_at (h\<lparr>trx_mem := (trx_mem h)(a := v)\<rparr>) p' ext' a"
    "\<And>b. b \<noteq> a \<Longrightarrow> count_list p' (Some b) = count_list p (Some b) \<and> ext' b = ext b"
  shows "ref_ok (h\<lparr>trx_mem := (trx_mem h)(a := v)\<rparr>) p' ext'"
  unfolding ref_ok_def
proof
  fix b
  show "ref_at (h\<lparr>trx_mem := (trx_mem h)(a := v)\<rparr>) p' ext' b"
  proof (cases "b = a")
    case True
    with assms(2) show ?thesis by simp
  next
    case False
    moreover have "ref_at h p ext b" using assms(1) by (simp add: ref_ok_def)
    ultimately show ?thesis using assms(3) [OF False] by (cases "trx_mem h b") (simp_all add: ref_at_def)
  qed
qed

lemma putref_spec:
  assumes "trx_mem h a = Some t" "unat (refCount t) = Suc n" "bin_ok (request t)" "bin_ok (response t)"
  shows "IrpcTransaction_PutRef (Some a) h = Some (h\<lparr>trx_mem := (trx_mem h)
      (a := if n = 0 then None else Some (t\<lparr>refCount := refCount t - 1\<rparr>))\<rparr>)"
proof -
  have "refCount t \<noteq> 0" using assms(2) by auto
  then have u: "unat (refCount t - 1) = n" using assms(2) by (simp add: unat_minus_1)
  then have z: "refCount t - 1 = 0 \<longleftrightarrow> n = 0" by (metis unat_eq_zero)
  from destroy_bin [OF assms(3)] destroy_bin [OF assms(4)] obtain r1 r2 where
    "IBinary_Destroy (request t) = Some r1" "IBinary_Destroy (response t) = Some r2" by blast
  with assms(1) z show ?thesis
    by (simp add: IrpcTransaction_PutRef_def IrpcTransaction_Destroy_def trx_update_def)
qed

lemma expire_trx_spec:
  assumes "trx_mem h a = Some t" "unat (refCount t) = Suc n" "bin_ok (request t)" "bin_ok (response t)"
  shows "expire_trx a h = Some (h\<lparr>trx_mem := (trx_mem h)
      (a := if n = 0 then None else Some (t\<lparr>request := None, response := None, sync := sync t + 1,
                                             refCount := refCount t - 1\<rparr>))\<rparr>)"
proof -
  let ?t = "t\<lparr>request := None, response := None, sync := sync t + 1\<rparr>"
  from destroy_bin [OF assms(3)] destroy_bin [OF assms(4)] obtain r1 r2 where
    d: "IBinary_Destroy (request t) = Some r1" "IBinary_Destroy (response t) = Some r2" by blast
  have "expire_trx a h = IrpcTransaction_PutRef (Some a) (h\<lparr>trx_mem := (trx_mem h)(a \<mapsto> ?t)\<rparr>)"
    using assms(1) d by (simp add: expire_trx_def trx_update_def IrpcTransaction_Signal_def)
  then show ?thesis
    using putref_spec [of "h\<lparr>trx_mem := (trx_mem h)(a \<mapsto> ?t)\<rparr>" a ?t n] assms(2) by (simp add: bin_ok_def)
qed

text \<open>The pool gives up one of its references.\<close>

lemma ref_ok_drop:
  assumes "ref_ok h (pre @ Some a # post) ext" "trx_mem h a = Some t"
    "refCount t' = refCount t - 1" "bin_ok (request t')" "bin_ok (response t')"
    "n = ext a + count_list (pre @ post) (Some a)"
  shows "ref_ok (h\<lparr>trx_mem := (trx_mem h)(a := if n = 0 then None else Some t')\<rparr>) (pre @ None # post) ext"
proof (rule ref_ok_upd [OF assms(1)])
  have at: "unat (refCount t) = Suc n" "a < next_addr h" "ext a \<le> 2 ^ 32"
    using assms(1,2,6) by (auto simp: ref_ok_def ref_at_def dest: spec [of _ a])
  then have "refCount t \<noteq> 0" by auto
  then have "unat (refCount t') = n" using at(1) assms(3) by (simp add: unat_minus_1)
  with assms at show "ref_at (h\<lparr>trx_mem := (trx_mem h)(a := if n = 0 then None else Some t')\<rparr>) (pre @ None # post) ext a"
    by (simp add: ref_at_def)
qed simp

lemma ref_ok_add:
  assumes "ref_ok h (pre @ None # post) ext" "trx_mem h a = Some t" "length (pre @ post) < 2 ^ 32"
  shows "ref_ok (h\<lparr>trx_mem := (trx_mem h)(a \<mapsto> t\<lparr>refCount := refCount t + 1\<rparr>)\<rparr>) (pre @ Some a # post) ext"
proof (rule ref_ok_upd [OF assms(1)])
  have at: "ref_at h (pre @ None # post) ext a" using assms(1) by (simp add: ref_ok_def)
  have "count_list (pre @ post) (Some a) \<le> length (pre @ post)" by (rule count_le_length)
  moreover have "unat (refCount t) = ext a + count_list (pre @ post) (Some a)" "ext a \<le> 2 ^ 32"
    using at assms(2) by (simp_all add: ref_at_def)
  ultimately have "unat (refCount t + 1) = Suc (ext a + count_list (pre @ post) (Some a))"
    using assms(3) by (subst unat_plus_1) simp_all
  with at assms(2) show "ref_at (h\<lparr>trx_mem := (trx_mem h)(a \<mapsto> t\<lparr>refCount := refCount t + 1\<rparr>)\<rparr>)
      (pre @ Some a # post) ext a" by (simp add: ref_at_def)
qed simp

section \<open>The loops\<close>

lemma expire_loop_ok:
  assumes "ref_ok h (pre @ p) ext"
  shows "\<exists>p' h'. expire_loop s r now p h = Some (p', h') \<and> ref_ok h' (pre @ p') ext \<and> length p' = length p
    \<and> next_addr h' = next_addr h
    \<and> (s = TRX_EXPIRE_ALL \<longrightarrow> p' = replicate (length p) None
        \<and> (\<forall>a t. trx_mem h a = Some t \<and> 0 < ext a \<longrightarrow>
             (\<exists>t'. trx_mem h' a = Some t' \<and> sync t' = sync t + count_list p (Some a))))"
  using assms
proof (induction p arbitrary: h pre)
  case Nil
  then show ?case by simp
next
  case (Cons x p)
  show ?case
  proof (cases x)
    case None
    from Cons.IH [of h "pre @ [None]"] Cons.prems None obtain p' h' where
      "expire_loop s r now p h = Some (p', h')" "ref_ok h' (pre @ None # p') ext" "length p' = length p"
      "next_addr h' = next_addr h"
      "s = TRX_EXPIRE_ALL \<longrightarrow> p' = replicate (length p) None
        \<and> (\<forall>a t. trx_mem h a = Some t \<and> 0 < ext a \<longrightarrow>
             (\<exists>t'. trx_mem h' a = Some t' \<and> sync t' = sync t + count_list p (Some a)))" by auto
    with None show ?thesis by auto
  next
    case (Some a)
    define n where "n = ext a + count_list (pre @ p) (Some a)"
    from ref_ok_at [OF Cons.prems, of a] Some obtain t where
      t: "trx_mem h a = Some t" "unat (refCount t) = Suc n" "bin_ok (request t)" "bin_ok (response t)"
      unfolding n_def by auto
    show ?thesis
    proof (cases "s = TRX_EXPIRE_ALL \<or> s \<le> esif_ccb_realtime_diff_sec r (timestamp t) now")
      case False
      from Cons.IH [of h "pre @ [Some a]"] Cons.prems Some obtain p' h' where
        "expire_loop s r now p h = Some (p', h')" "ref_ok h' (pre @ Some a # p') ext" "length p' = length p"
        "next_addr h' = next_addr h" by auto
      with Some False t(1) show ?thesis by auto
    next
      case True
      let ?t' = "t\<lparr>request := None, response := None, sync := sync t + 1, refCount := refCount t - 1\<rparr>"
      let ?h1 = "h\<lparr>trx_mem := (trx_mem h)(a := if n = 0 then None else Some ?t')\<rparr>"
      have ex: "expire_trx a h = Some ?h1" by (rule expire_trx_spec [OF t])
      have pr: "ref_ok h (pre @ Some a # p) ext" using Cons.prems Some by simp
      have "ref_ok ?h1 (pre @ None # p) ext"
        by (rule ref_ok_drop [OF pr t(1) _ _ _ n_def]) (simp_all add: bin_ok_def)
      with Cons.IH [of ?h1 "pre @ [None]"] obtain p' h' where
        ih: "expire_loop s r now p ?h1 = Some (p', h')" "ref_ok h' (pre @ None # p') ext" "length p' = length p"
          "next_addr h' = next_addr h"
          "s = TRX_EXPIRE_ALL \<longrightarrow> p' = replicate (length p) None
            \<and> (\<forall>b t. trx_mem ?h1 b = Some t \<and> 0 < ext b \<longrightarrow>
                 (\<exists>t'. trx_mem h' b = Some t' \<and> sync t' = sync t + count_list p (Some b)))" by auto
      have "expire_loop s r now (x # p) h = Some (None # p', h')" using Some t(1) True ex ih(1) by simp
      moreover have "\<exists>t'. trx_mem h' b = Some t' \<and> sync t' = sync u + count_list (x # p) (Some b)"
        if "s = TRX_EXPIRE_ALL" "trx_mem h b = Some u" "0 < ext b" for b u
      proof (cases "b = a")
        case True
        then have "trx_mem ?h1 b = Some ?t'" using that(3) by (simp add: n_def)
        with ih(5) that True Some t(1) show ?thesis by fastforce
      next
        case False
        with ih(5) that Some show ?thesis by simp
      qed
      ultimately show ?thesis using ih by (intro exI [of _ "None # p'"] exI [of _ h']) auto
    qed
  qed
qed

lemma get_loop_ok:
  assumes "ref_ok h (pre @ p) ext"
  shows "\<exists>r. get_loop hnd tid p h = Some r \<and>
    (case r of None \<Rightarrow> True | Some (j, a) \<Rightarrow> j < length p \<and> p ! j = Some a
       \<and> (\<exists>t. trx_mem h a = Some t \<and> trx_matches hnd tid t))"
  using assms
proof (induction p arbitrary: pre)
  case Nil
  then show ?case by simp
next
  case (Cons x p)
  from Cons.IH [of "pre @ [x]"] Cons.prems obtain r where
    r: "get_loop hnd tid p h = Some r"
      "case r of None \<Rightarrow> True | Some (j, a) \<Rightarrow> j < length p \<and> p ! j = Some a
         \<and> (\<exists>t. trx_mem h a = Some t \<and> trx_matches hnd tid t)" by auto
  show ?case
  proof (cases x)
    case None
    with r show ?thesis by (cases r) auto
  next
    case (Some a)
    with ref_ok_at [OF Cons.prems, of a] obtain t where "trx_mem h a = Some t" by auto
    with r Some show ?thesis by (cases r) auto
  qed
qed

section \<open>The manager's operations keep the counts\<close>

lemma pool_of_inv:
  assumes "trx_inv (m, h, ext)"
  obtains p where "pool_of m = Some p" "trxPool m = Some p" "length p = unat (poolSize m)"
    "length p \<le> TRX_POOL_MAXSIZE" "ref_ok h p ext"
  using assms by (auto simp: trx_inv_def pool_of_def)

lemma ref_ok_mono:
  assumes "ref_ok h p ext" "trx_mem h' = trx_mem h" "next_addr h \<le> next_addr h'"
    "\<And>a. count_list p' (Some a) = count_list p (Some a)"
  shows "ref_ok h' p' ext"
  unfolding ref_ok_def
proof
  fix a
  have "ref_at h p ext a" using assms(1) by (simp add: ref_ok_def)
  then show "ref_at h' p' ext a" using assms(2-) by (cases "trx_mem h a") (auto simp: ref_at_def)
qed

lemma add_ok:
  assumes "trx_inv (m, h, ext)" "0 < ext a"
  shows "\<exists>rc m' h'. IpfTrxMgr_AddTransaction (Some m) (Some a) h = Some (rc, Some m', h') \<and> trx_inv (m', h', ext)"
proof -
  from assms(1) obtain p where p: "pool_of m = Some p" "trxPool m = Some p" "length p = unat (poolSize m)"
    "length p \<le> TRX_POOL_MAXSIZE" "ref_ok h p ext" by (rule pool_of_inv)
  from ref_ok_at [OF p(5), of a] assms(2) obtain t where t: "trx_mem h a = Some t" by auto
  show ?thesis
  proof (cases "first_index (\<lambda>e. e = None) p")
    case (Some j)
    with first_index_spec [where P = "\<lambda>e. e = None" and xs = p] have j: "j < length p" "p ! j = None" by auto
    let ?h1 = "h\<lparr>trx_mem := (trx_mem h)(a \<mapsto> t\<lparr>refCount := refCount t + 1\<rparr>)\<rparr>"
    have "ref_ok ?h1 (take j p @ Some a # drop (Suc j) p) ext"
      using ref_ok_add [of h "take j p" "drop (Suc j) p" ext a t] p(4,5) t j id_take_nth_drop [OF j(1)] by auto
    then have "ref_ok ?h1 (p[j := Some a]) ext" using j(1) by (simp add: upd_conv_take_nth_drop)
    with Some p t show ?thesis
      by (auto simp: IpfTrxMgr_AddTransaction_def IrpcTransaction_GetRef_def trx_update_def trx_inv_def)
  next
    case None
    show ?thesis
    proof (cases "poolSize m + of_nat TRX_POOL_GROWBY \<le> of_nat TRX_POOL_MAXSIZE \<and> alloc_ok h (next_addr h)")
      case False
      have "ref_ok (h\<lparr>next_addr := Suc (next_addr h)\<rparr>) p ext" by (rule ref_ok_mono [OF p(5)]) simp_all
      with False None p assms(1) show ?thesis
        by (auto simp: IpfTrxMgr_AddTransaction_def esif_ccb_malloc_def trx_inv_def)
    next
      case True
      have le: "unat (poolSize m) + 2 \<le> 2048"
      proof -
        have "unat (poolSize m + 2) = unat (poolSize m) + 2"
          using p(3,4) by (subst unat_add_lem [THEN iffD1]) simp_all
        with True show ?thesis by (simp add: word_le_nat_alt)
      qed
      then have sz: "unat (poolSize m + 2) = unat (poolSize m) + 2"
        by (subst unat_add_lem [THEN iffD1]) simp_all
      let ?h1 = "h\<lparr>next_addr := Suc (next_addr h)\<rparr>"
      have r: "ref_ok ?h1 (p @ None # [None]) ext" by (rule ref_ok_mono [OF p(5)]) simp_all
      have "ref_ok (?h1\<lparr>trx_mem := (trx_mem ?h1)(a \<mapsto> t\<lparr>refCount := refCount t + 1\<rparr>)\<rparr>) (p @ Some a # [None]) ext"
        by (rule ref_ok_add [OF r]) (use t p(4) in simp_all)
      with True None p t sz le show ?thesis
        by (auto simp: IpfTrxMgr_AddTransaction_def esif_ccb_malloc_def IrpcTransaction_GetRef_def trx_update_def
            trx_inv_def)
    qed
  qed
qed

lemma get_ok:
  assumes "trx_inv (m, h, ext)"
  shows "\<exists>r m' h'. IpfTrxMgr_GetTransaction (Some m) hnd tid h = Some (r, Some m', h') \<and> trx_inv (m', h', ext)
    \<and> (\<forall>a. r = Some a \<longrightarrow> (\<exists>t. trx_mem h a = Some t \<and> trx_matches hnd tid t)
        \<and> (\<exists>p j. trxPool m = Some p \<and> j < length p \<and> p ! j = Some a \<and> trxPool m' = Some (p[j := None])))"
proof -
  from assms obtain p where p: "pool_of m = Some p" "trxPool m = Some p" "length p = unat (poolSize m)"
    "length p \<le> TRX_POOL_MAXSIZE" "ref_ok h p ext" by (rule pool_of_inv)
  from get_loop_ok [of h "[]" p ext hnd tid] p(5) obtain r where
    r: "get_loop hnd tid p h = Some r" "case r of None \<Rightarrow> True | Some (j, a) \<Rightarrow> j < length p \<and> p ! j = Some a
       \<and> (\<exists>t. trx_mem h a = Some t \<and> trx_matches hnd tid t)" by auto
  show ?thesis
  proof (cases r)
    case None
    with r p assms show ?thesis by (auto simp: IpfTrxMgr_GetTransaction_def)
  next
    case (Some ja)
    obtain j a where ja: "ja = (j, a)" by (cases ja)
    with r Some have j: "j < length p" "p ! j = Some a" by auto
    have sp: "p = take j p @ Some a # drop (Suc j) p" using id_take_nth_drop [OF j(1)] j(2) by simp
    define n where "n = ext a + count_list (take j p @ drop (Suc j) p) (Some a)"
    have cnt: "ext a + count_list p (Some a) = Suc n"
      unfolding n_def by (subst sp) simp
    from ref_ok_at [OF p(5), of a] cnt obtain t where
      t: "trx_mem h a = Some t" "unat (refCount t) = Suc n" "bin_ok (request t)" "bin_ok (response t)" by auto
    let ?t' = "t\<lparr>refCount := refCount t - 1\<rparr>"
    let ?h' = "h\<lparr>trx_mem := (trx_mem h)(a := if n = 0 then None else Some ?t')\<rparr>"
    have pr: "ref_ok h (take j p @ Some a # drop (Suc j) p) ext" using p(5) sp by simp
    have "ref_ok ?h' (take j p @ None # drop (Suc j) p) ext"
      by (rule ref_ok_drop [OF pr t(1) _ _ _ n_def]) (use t in simp_all)
    then have "ref_ok ?h' (p[j := None]) ext" using j(1) by (simp add: upd_conv_take_nth_drop)
    moreover have "IpfTrxMgr_GetTransaction (Some m) hnd tid h
        = Some (Some a, Some (m\<lparr>trxPool := Some (p[j := None])\<rparr>), ?h')"
      using p(1) r(1) Some ja putref_spec [OF t] by (simp add: IpfTrxMgr_GetTransaction_def)
    ultimately show ?thesis using p r(2) Some ja
      by (intro exI [of _ "Some a"] exI [of _ "m\<lparr>trxPool := Some (p[j := None])\<rparr>"] exI [of _ ?h'])
        (auto simp: trx_inv_def)
  qed
qed

lemma expire_ok:
  assumes "trx_inv (m, h, ext)"
  shows "\<exists>m' h'. IpfTrxMgr_ExpireTimeout (Some m) s r now h = Some (Some m', h') \<and> trx_inv (m', h', ext)"
proof -
  from assms obtain p where p: "pool_of m = Some p" "trxPool m = Some p" "length p = unat (poolSize m)"
    "length p \<le> TRX_POOL_MAXSIZE" "ref_ok h p ext" by (rule pool_of_inv)
  from expire_loop_ok [of h "[]" p ext s r now] p(5) obtain p' h' where
    "expire_loop s r now p h = Some (p', h')" "ref_ok h' p' ext" "length p' = length p" by auto
  with p assms show ?thesis by (auto simp: IpfTrxMgr_ExpireTimeout_def trx_inv_def)
qed

section \<open>Creation\<close>

lemma bin_ok_fresh: "bin_ok (Some \<lparr>buf_ptr = None, buf_len = 0, data_len = 0, growby_len = g\<rparr>)" "bin_ok None"
  by (auto simp: bin_ok_def ib_rep_def intro!: exI [of _ "[]"])

lemma create_run:
  assumes "trx_mem h (next_addr h) = None"
  shows "\<exists>r h'. IrpcTransaction_Create ty now h = Some (r, h') \<and> next_addr h < next_addr h' \<and>
    (case r of
       None \<Rightarrow> trx_mem h' = trx_mem h
     | Some a \<Rightarrow> a = next_addr h \<and>
         (let t = the (trx_mem h' a) in
            trx_mem h' = (trx_mem h)(a \<mapsto> t) \<and> refCount t = 1 \<and> bin_ok (request t) \<and> bin_ok (response t)
            \<and> trxId t = trxIdGenerator h + 1
            \<and> trxIdGenerator h' = (if trxId t = TRXID_MAX then TRXID_MIN else trxId t)))"
proof (cases "alloc_ok h (next_addr h)")
  case False
  then show ?thesis by (simp add: IrpcTransaction_Create_def esif_ccb_malloc_def)
next
  case ok: True
  have keep: "(trx_mem h)(next_addr h := None) = trx_mem h" using assms by (simp add: fun_upd_idem)
  show ?thesis
  proof (cases "alloc_ok h (Suc (next_addr h))")
    case True
    with ok show ?thesis
      by (cases ty) (auto simp: IrpcTransaction_Create_def esif_ccb_malloc_def IrpcTransaction_GetRef_def
          trx_update_def IBinary_Create_def Let_def bin_ok_fresh)
  next
    case False
    with ok keep show ?thesis
      by (cases ty) (auto simp: IrpcTransaction_Create_def esif_ccb_malloc_def IrpcTransaction_GetRef_def
          trx_update_def IBinary_Create_def IrpcTransaction_Destroy_def IBinary_Destroy_def Let_def bin_ok_fresh)
  qed
qed

lemma create_ok:
  assumes "trx_inv (m, h, ext)"
  shows "\<exists>r h'. IrpcTransaction_Create ty now h = Some (r, h') \<and>
    (case r of None \<Rightarrow> trx_inv (m, h', ext) | Some a \<Rightarrow> trx_inv (m, h', ext(a := 1)))"
proof -
  from assms obtain p where p: "trxPool m = Some p" "length p = unat (poolSize m)"
    "length p \<le> TRX_POOL_MAXSIZE" "ref_ok h p ext" by (auto simp: trx_inv_def)
  let ?a = "next_addr h"
  have at: "ref_at h p ext ?a" using p(4) by (simp add: ref_ok_def)
  then have none: "trx_mem h ?a = None" "ext ?a = 0" "count_list p (Some ?a) = 0"
    by (cases "trx_mem h ?a"; simp add: ref_at_def)+
  from create_run [OF none(1), of ty now] obtain r h' where
    r: "IrpcTransaction_Create ty now h = Some (r, h')" "?a < next_addr h'"
      "case r of None \<Rightarrow> trx_mem h' = trx_mem h
       | Some a \<Rightarrow> a = ?a \<and> (\<exists>t. trx_mem h' = (trx_mem h)(a \<mapsto> t) \<and> refCount t = 1
            \<and> bin_ok (request t) \<and> bin_ok (response t))" by (fastforce simp: Let_def split: option.splits)
  show ?thesis
  proof (cases r)
    case None
    with r have "ref_ok h' p ext" by (intro ref_ok_mono [OF p(4)]) simp_all
    with None r p show ?thesis by (auto simp: trx_inv_def)
  next
    case (Some a)
    with r(3) obtain t where t: "a = ?a" "trx_mem h' = (trx_mem h)(a \<mapsto> t)" "refCount t = 1"
      "bin_ok (request t)" "bin_ok (response t)" by auto
    have "ref_at (h'\<lparr>trx_mem := (trx_mem h')(a := Some t)\<rparr>) p (ext(a := 1)) a"
      using t none r(2) by (simp add: ref_at_def)
    moreover have "ref_ok (h'\<lparr>trx_mem := trx_mem h\<rparr>) p ext"
      by (rule ref_ok_mono [OF p(4)]) (use r(2) in simp_all)
    ultimately have "ref_ok (h'\<lparr>trx_mem := trx_mem h, trx_mem := (trx_mem h)(a := Some t)\<rparr>) p (ext(a := 1))"
      using ref_ok_upd [of "h'\<lparr>trx_mem := trx_mem h\<rparr>" p ext a "Some t" p "ext(a := 1)"] t(2) by simp
    then have "ref_ok h' p (ext(a := 1))" by (rule ref_ok_mono) (simp_all add: t(2))
    with Some r p show ?thesis by (auto simp: trx_inv_def)
  qed
qed

section \<open>Threads that share the manager\<close>

text \<open>
  A thread may create a transaction (and then holds its reference), add a transaction it holds
  to the pool, take another reference, release one, write the fields of a transaction it holds,
  look a transaction up, or expire old ones. The third component counts the references that
  threads hold.
\<close>

type_synonym trx_state = "IpfTrxMgr \<times> trx_heap \<times> (addr \<Rightarrow> nat)"

inductive trx_step :: "trx_state \<Rightarrow> trx_state \<Rightarrow> bool" where
  step_create: "IrpcTransaction_Create ty now h = Some (Some a, h') \<Longrightarrow> trx_step (m, h, ext) (m, h', ext(a := 1))"
| step_create_fail: "IrpcTransaction_Create ty now h = Some (None, h') \<Longrightarrow> trx_step (m, h, ext) (m, h', ext)"
| step_add: "0 < ext a \<Longrightarrow> IpfTrxMgr_AddTransaction (Some m) (Some a) h = Some (rc, Some m', h')
    \<Longrightarrow> trx_step (m, h, ext) (m', h', ext)"
| step_ref: "0 < ext a \<Longrightarrow> ext a < 2 ^ 32 \<Longrightarrow> IrpcTransaction_GetRef (Some a) h = Some h'
    \<Longrightarrow> trx_step (m, h, ext) (m, h', ext(a := ext a + 1))"
| step_unref: "0 < ext a \<Longrightarrow> IrpcTransaction_PutRef (Some a) h = Some h'
    \<Longrightarrow> trx_step (m, h, ext) (m, h', ext(a := ext a - 1))"
| step_write: "0 < ext a \<Longrightarrow> bin_ok resp
    \<Longrightarrow> trx_update a (\<lambda>t. t\<lparr>ipfHandle := hnd, response := resp, trx_result := rc\<rparr>) h = Some h'
    \<Longrightarrow> trx_step (m, h, ext) (m, h', ext)"
| step_lookup: "IpfTrxMgr_GetTransaction (Some m) hnd tid h = Some (r, Some m', h')
    \<Longrightarrow> trx_step (m, h, ext) (m', h', ext)"
| step_expire: "IpfTrxMgr_ExpireTimeout (Some m) s res now h = Some (Some m', h')
    \<Longrightarrow> trx_step (m, h, ext) (m', h', ext)"

definition trx_started :: "trx_state \<Rightarrow> bool" where
  "trx_started = (\<lambda>(m, h, ext). ext = (\<lambda>_. 0) \<and> trx_mem h = Map.empty
     \<and> (\<exists>m0 h0. IpfTrxMgr_Init (Some m0) h0 = (ESIF_OK, Some m, h)))"

lemma trx_started_inv: "trx_started s \<Longrightarrow> trx_inv s"
  by (auto simp: trx_started_def trx_inv_def IpfTrxMgr_Init_def esif_ccb_malloc_def ref_ok_def ref_at_def
      count_list_0_iff split: if_splits)

lemma ref_own:
  assumes "trx_inv (m, h, ext)" "0 < ext a"
  obtains p t where "trxPool m = Some p" "length p = unat (poolSize m)" "length p \<le> TRX_POOL_MAXSIZE" "ref_ok h p ext"
    "trx_mem h a = Some t" "unat (refCount t) = ext a + count_list p (Some a)"
    "bin_ok (request t)" "bin_ok (response t)" "a < next_addr h" "ext a \<le> 2 ^ 32"
proof -
  from assms(1) obtain p where p: "trxPool m = Some p" "length p = unat (poolSize m)"
    "length p \<le> TRX_POOL_MAXSIZE" "ref_ok h p ext" by (auto simp: trx_inv_def)
  from ref_ok_at [OF p(4), of a] assms(2) that p show thesis by auto
qed

lemma own_step_inv:
  assumes "trx_inv (m, h, ext)" "0 < ext a"
  shows "ext a < 2 ^ 32 \<Longrightarrow> IrpcTransaction_GetRef (Some a) h = Some h' \<Longrightarrow> trx_inv (m, h', ext(a := ext a + 1))"
    and "IrpcTransaction_PutRef (Some a) h = Some h' \<Longrightarrow> trx_inv (m, h', ext(a := ext a - 1))"
    and "bin_ok resp \<Longrightarrow> trx_update a (\<lambda>t. t\<lparr>ipfHandle := hnd, response := resp, trx_result := rc\<rparr>) h = Some h'
      \<Longrightarrow> trx_inv (m, h', ext)"
proof -
  from ref_own [OF assms] obtain p t where p: "trxPool m = Some p" "length p = unat (poolSize m)"
      "length p \<le> TRX_POOL_MAXSIZE" "ref_ok h p ext"
    and t: "trx_mem h a = Some t" "unat (refCount t) = ext a + count_list p (Some a)"
      "bin_ok (request t)" "bin_ok (response t)" "a < next_addr h" "ext a \<le> 2 ^ 32" by metis
  have cnt: "count_list p (Some a) \<le> 2048" using p(3) count_le_length [of p "Some a"] by linarith
  { assume "ext a < 2 ^ 32" and run: "IrpcTransaction_GetRef (Some a) h = Some h'"
    have "unat (refCount t + 1) = Suc (unat (refCount t))" using t(2,6) cnt by (intro unat_plus_1) simp
    then have "ref_ok (h\<lparr>trx_mem := (trx_mem h)(a := Some (t\<lparr>refCount := refCount t + 1\<rparr>))\<rparr>) p (ext(a := ext a + 1))"
      using t \<open>ext a < 2 ^ 32\<close> by (intro ref_ok_upd [OF p(4)]) (simp_all add: ref_at_def)
    then show "trx_inv (m, h', ext(a := ext a + 1))"
      using run t(1) p by (auto simp: trx_inv_def IrpcTransaction_GetRef_def trx_update_def) }
  { assume run: "IrpcTransaction_PutRef (Some a) h = Some h'"
    define n where "n = ext a - 1 + count_list p (Some a)"
    have n: "unat (refCount t) = Suc n" using t(2) assms(2) by (simp add: n_def)
    then have "refCount t \<noteq> 0" by auto
    then have u: "unat (refCount t - 1) = n" using n by (simp add: unat_minus_1)
    have "ref_at (h\<lparr>trx_mem := (trx_mem h)(a := if n = 0 then None else Some (t\<lparr>refCount := refCount t - 1\<rparr>))\<rparr>) p
        (ext(a := ext a - 1)) a" using u t by (auto simp: ref_at_def n_def)
    then have "ref_ok (h\<lparr>trx_mem := (trx_mem h)(a := if n = 0 then None else Some (t\<lparr>refCount := refCount t - 1\<rparr>))\<rparr>) p
        (ext(a := ext a - 1))" by (intro ref_ok_upd [OF p(4)]) simp_all
    then show "trx_inv (m, h', ext(a := ext a - 1))"
      using run putref_spec [OF t(1) n t(3,4)] p by (auto simp: trx_inv_def) }
  { assume "bin_ok resp" and run: "trx_update a (\<lambda>t. t\<lparr>ipfHandle := hnd, response := resp, trx_result := rc\<rparr>) h = Some h'"
    then have "ref_ok (h\<lparr>trx_mem := (trx_mem h)(a := Some (t\<lparr>ipfHandle := hnd, response := resp, trx_result := rc\<rparr>))\<rparr>) p ext"
      using t assms(2) by (intro ref_ok_upd [OF p(4)]) (simp_all add: ref_at_def)
    then show "trx_inv (m, h', ext)" using run t(1) p by (auto simp: trx_inv_def trx_update_def) }
qed

lemma trx_step_inv:
  assumes "trx_inv s" "trx_step s s'"
  shows "trx_inv s'"
  using assms(2)
proof (cases rule: trx_step.cases)
  case (step_create ty now h a h' m ext)
  with assms(1) create_ok [of m h ext ty now] show ?thesis by auto
next
  case (step_create_fail ty now h h' m ext)
  with assms(1) create_ok [of m h ext ty now] show ?thesis by auto
next
  case (step_add ext a m h rc m' h')
  with assms(1) add_ok [of m h ext a] show ?thesis by auto
next
  case (step_ref ext a h h' m)
  with assms(1) own_step_inv(1) show ?thesis by blast
next
  case (step_unref ext a h h' m)
  with assms(1) own_step_inv(2) show ?thesis by blast
next
  case (step_write ext a resp hnd rc h h' m)
  with assms(1) own_step_inv(3) show ?thesis by blast
next
  case (step_lookup m hnd tid h r m' h' ext)
  with assms(1) get_ok [of m h ext hnd tid] show ?thesis by auto
next
  case (step_expire m s res now h m' h' ext)
  with assms(1) expire_ok [of m h ext s res now] show ?thesis by auto
qed

interpretation trx_sys: step_system trx_started trx_step trx_inv
  by unfold_locales (use trx_started_inv trx_step_inv in blast)+

text \<open>A thread that holds a reference can use it.\<close>

lemma held_in_memory: "trx_inv (m, h, ext) \<Longrightarrow> 0 < ext a \<Longrightarrow> trx_mem h a \<noteq> None"
  using ref_own by (metis option.distinct(1))

lemma held_ops:
  assumes "trx_inv (m, h, ext)" "0 < ext a"
  shows "\<exists>h'. IrpcTransaction_GetRef (Some a) h = Some h'"
    "\<exists>h'. IrpcTransaction_PutRef (Some a) h = Some h' \<and> (1 < ext a \<longrightarrow> trx_mem h' a \<noteq> None)"
    "\<exists>h'. IrpcTransaction_Signal (Some a) h = Some h'"
    "\<forall>f. \<exists>h'. trx_update a f h = Some h'"
proof -
  from ref_own [OF assms] obtain p t where
    t: "trx_mem h a = Some t" "unat (refCount t) = ext a + count_list p (Some a)" "bin_ok (request t)" "bin_ok (response t)" by metis
  then have "unat (refCount t) = Suc (ext a - 1 + count_list p (Some a))" using assms(2) by simp
  from putref_spec [OF t(1) this t(3,4)] show
    "\<exists>h'. IrpcTransaction_PutRef (Some a) h = Some h' \<and> (1 < ext a \<longrightarrow> trx_mem h' a \<noteq> None)" by auto
  show "\<exists>h'. IrpcTransaction_GetRef (Some a) h = Some h'" "\<exists>h'. IrpcTransaction_Signal (Some a) h = Some h'"
    "\<forall>f. \<exists>h'. trx_update a f h = Some h'"
    using t(1) by (simp_all add: IrpcTransaction_GetRef_def IrpcTransaction_Signal_def trx_update_def)
qed

section \<open>Properties\<close>

text \<open>
  C11. Reference counting is sound: whatever the interleaving of creating, adding, referencing,
  releasing, writing, looking up and expiring transactions, a transaction to which a thread holds a
  reference is in memory, and none of the operations touches a freed one: adding, referencing,
  releasing, signalling and writing a transaction by a thread that holds it, creating one, looking one
  up and expiring the old ones all go through. A release frees nothing while another reference is held.
  A lookup returns only a transaction that was in the pool and matches, and clears its place there.
\<close>

theorem trx_refcount_safe:
  assumes "trx_started s" "trx_step\<^sup>*\<^sup>* s (m, h, ext)"
  shows "(\<forall>a. 0 < ext a \<longrightarrow> trx_mem h a \<noteq> None
        \<and> (\<exists>rc m' h'. IpfTrxMgr_AddTransaction (Some m) (Some a) h = Some (rc, Some m', h') \<and> trx_mem h' a \<noteq> None)
        \<and> (\<exists>h'. IrpcTransaction_GetRef (Some a) h = Some h')
        \<and> (\<exists>h'. IrpcTransaction_PutRef (Some a) h = Some h' \<and> (1 < ext a \<longrightarrow> trx_mem h' a \<noteq> None))
        \<and> (\<exists>h'. IrpcTransaction_Signal (Some a) h = Some h')
        \<and> (\<forall>f. \<exists>h'. trx_update a f h = Some h'))
    \<and> (\<exists>r h'. IrpcTransaction_Create ty now h = Some (r, h'))
    \<and> (\<exists>r m' h'. IpfTrxMgr_GetTransaction (Some m) hnd tid h = Some (r, Some m', h')
        \<and> (\<forall>a. 0 < ext a \<longrightarrow> trx_mem h' a \<noteq> None)
        \<and> (\<forall>a. r = Some a \<longrightarrow> (\<exists>t. trx_mem h a = Some t \<and> trx_matches hnd tid t)
             \<and> (\<exists>p j. trxPool m = Some p \<and> j < length p \<and> p ! j = Some a \<and> trxPool m' = Some (p[j := None]))))
    \<and> (\<exists>m' h'. IpfTrxMgr_ExpireTimeout (Some m) secs res now h = Some (Some m', h')
        \<and> (\<forall>a. 0 < ext a \<longrightarrow> trx_mem h' a \<noteq> None))"
proof -
  have inv: "trx_inv (m, h, ext)" by (rule trx_sys.reachable_inv [OF assms])
  have own: "(\<exists>rc m' h'. IpfTrxMgr_AddTransaction (Some m) (Some a) h = Some (rc, Some m', h') \<and> trx_mem h' a \<noteq> None)
      \<and> (\<exists>h'. IrpcTransaction_GetRef (Some a) h = Some h')
      \<and> (\<exists>h'. IrpcTransaction_PutRef (Some a) h = Some h' \<and> (1 < ext a \<longrightarrow> trx_mem h' a \<noteq> None))
      \<and> (\<exists>h'. IrpcTransaction_Signal (Some a) h = Some h') \<and> (\<forall>f. \<exists>h'. trx_update a f h = Some h')" if "0 < ext a" for a
    using add_ok [OF inv that] held_in_memory that held_ops [OF inv that] by metis
  from get_ok [OF inv, of hnd tid] obtain r m' h' where
    g: "IpfTrxMgr_GetTransaction (Some m) hnd tid h = Some (r, Some m', h')" "trx_inv (m', h', ext)"
    "\<forall>a. r = Some a \<longrightarrow> (\<exists>t. trx_mem h a = Some t \<and> trx_matches hnd tid t)
       \<and> (\<exists>p j. trxPool m = Some p \<and> j < length p \<and> p ! j = Some a \<and> trxPool m' = Some (p[j := None]))" by blast
  from expire_ok [OF inv, of secs res now] obtain m2 h2 where
    ex: "IpfTrxMgr_ExpireTimeout (Some m) secs res now h = Some (Some m2, h2)" "trx_inv (m2, h2, ext)" by blast
  from create_ok [OF inv, of ty now] have "\<exists>r h'. IrpcTransaction_Create ty now h = Some (r, h')" by blast
  then show ?thesis
    using own g(1,3) ex(1) held_in_memory [OF inv] held_in_memory [OF g(2)] held_in_memory [OF ex(2)] by blast
qed

text \<open>A started manager, and a heap in which one transaction was created and is held.\<close>

definition trx_heap_init :: trx_heap where
  "trx_heap_init = \<lparr>next_addr = 0, alloc_ok = (\<lambda>_. True), trx_mem = Map.empty, trxIdGenerator = TRXID_MIN\<rparr>"

definition trx_mgr_init :: IpfTrxMgr where
  "trx_mgr_init = \<lparr>trxPool = Some (replicate TRX_POOL_INITIAL None), poolSize = 32,
     rpcTimeout = TRX_EXPIRE_TIMEOUT_SECONDS\<rparr>"

abbreviation time_zero :: esif_ccb_realtime_t where "time_zero \<equiv> \<lparr>clockticks = 0, clocktime = 0\<rparr>"

lemma trx_init_started: "trx_started (trx_mgr_init, trx_heap_init\<lparr>next_addr := 1\<rparr>, \<lambda>_. 0)"
  by (auto simp: trx_started_def trx_mgr_init_def trx_heap_init_def IpfTrxMgr_Init_def esif_ccb_malloc_def
      intro!: exI [of _ "\<lparr>trxPool = None, poolSize = 0, rpcTimeout = 0\<rparr>"] exI [of _ trx_heap_init])

lemma trx_one_created:
  obtains h t where "IrpcTransaction_Create IrpcMsg_None time_zero (trx_heap_init\<lparr>next_addr := 1\<rparr>) = Some (Some 1, h)"
    "trx_mem h 1 = Some t" "trxIdGenerator h = TRXID_MIN + 1"
  by (simp add: IrpcTransaction_Create_def esif_ccb_malloc_def IrpcTransaction_GetRef_def trx_update_def
      trx_heap_init_def Let_def)

theorem trx_refcount_safe_witness:
  "\<exists>h ext. trx_started (trx_mgr_init, trx_heap_init\<lparr>next_addr := 1\<rparr>, \<lambda>_. 0)
     \<and> trx_step\<^sup>*\<^sup>* (trx_mgr_init, trx_heap_init\<lparr>next_addr := 1\<rparr>, \<lambda>_. 0) (trx_mgr_init, h, ext)
     \<and> 0 < ext 1 \<and> trx_mem h 1 \<noteq> None
     \<and> (\<exists>rc m' h'. IpfTrxMgr_AddTransaction (Some trx_mgr_init) (Some 1) h = Some (rc, Some m', h'))"
proof -
  obtain h t where c: "IrpcTransaction_Create IrpcMsg_None time_zero (trx_heap_init\<lparr>next_addr := 1\<rparr>) = Some (Some 1, h)"
    by (rule trx_one_created)
  from step_create [OF c] have "trx_step\<^sup>*\<^sup>* (trx_mgr_init, trx_heap_init\<lparr>next_addr := 1\<rparr>, \<lambda>_. 0)
      (trx_mgr_init, h, (\<lambda>_. 0)(1 := 1))" by blast
  with trx_refcount_safe [OF trx_init_started this, THEN conjunct1, rule_format, of 1] trx_init_started show ?thesis
    by (intro exI [of _ h] exI [of _ "(\<lambda>_. 0)(1 := 1)"]) auto
qed

text \<open>
  C22. \<^verbatim>\<open>IpfTrxMgr_ExpireAll\<close> empties the pool and posts the semaphore of every transaction to which
  a thread holds a reference exactly once for each pool entry (and of no other of them), so that a
  thread that waits on one of the pool does not stay blocked.
\<close>

theorem trx_expire_all_wakes:
  assumes "trx_inv (m, h, ext)"
  shows "\<exists>m' h' p. trxPool m = Some p \<and> IpfTrxMgr_ExpireAll (Some m) res now h = Some (Some m', h')
    \<and> trxPool m' = Some (replicate (length p) None)
    \<and> (\<forall>a t. 0 < ext a \<and> trx_mem h a = Some t \<longrightarrow>
         (\<exists>t'. trx_mem h' a = Some t' \<and> sync t' = sync t + count_list p (Some a)
            \<and> (Some a \<in> set p \<longrightarrow> fst (the (IrpcTransaction_Wait (Some a) h')) \<noteq> None)))"
proof -
  from assms obtain p where p: "pool_of m = Some p" "trxPool m = Some p" "ref_ok h p ext" by (rule pool_of_inv)
  from expire_loop_ok [of h "[]" p ext TRX_EXPIRE_ALL res now] p(3) obtain h' where
    e: "expire_loop TRX_EXPIRE_ALL res now p h = Some (replicate (length p) None, h')"
      "\<forall>a t. trx_mem h a = Some t \<and> 0 < ext a \<longrightarrow>
        (\<exists>t'. trx_mem h' a = Some t' \<and> sync t' = sync t + count_list p (Some a))" by auto
  have "\<exists>t'. trx_mem h' a = Some t' \<and> sync t' = sync t + count_list p (Some a)
      \<and> (Some a \<in> set p \<longrightarrow> fst (the (IrpcTransaction_Wait (Some a) h')) \<noteq> None)"
    if "0 < ext a" "trx_mem h a = Some t" for a t
  proof -
    from e(2) that obtain t' where t': "trx_mem h' a = Some t'" "sync t' = sync t + count_list p (Some a)" by blast
    moreover have "0 < count_list p (Some a)" if "Some a \<in> set p" using that by (simp add: count_list_0_iff neq0_conv [symmetric])
    ultimately show ?thesis by (fastforce simp: IrpcTransaction_Wait_def trx_update_def Let_def)
  qed
  with e(1) p show ?thesis
    by (auto simp: IpfTrxMgr_ExpireAll_def IpfTrxMgr_ExpireTimeout_def)
qed

text \<open>A transaction is created and put into the pool of a new manager.\<close>

lemma trx_one_added:
  obtains m h ext t where "trx_inv (m, h, ext)" "trxPool m = Some (Some 1 # replicate 31 None)" "ext 1 = 1" "trx_mem h 1 = Some t"
proof -
  obtain h t where c: "IrpcTransaction_Create IrpcMsg_None time_zero (trx_heap_init\<lparr>next_addr := 1\<rparr>) = Some (Some 1, h)"
    "trx_mem h 1 = Some t" by (rule trx_one_created)
  let ?ext = "(\<lambda>_. 0)(1 := 1::nat)"
  from create_ok [OF trx_started_inv [OF trx_init_started], of IrpcMsg_None time_zero] c(1)
  have inv: "trx_inv (trx_mgr_init, h, ?ext)" by simp
  from add_ok [OF inv, of 1] obtain rc m' h' where
    a: "IpfTrxMgr_AddTransaction (Some trx_mgr_init) (Some 1) h = Some (rc, Some m', h')" "trx_inv (m', h', ?ext)" by auto
  have "trxPool m' = Some (Some 1 # replicate 31 None)"
    using a(1) c(2) by (auto simp: IpfTrxMgr_AddTransaction_def pool_of_def trx_mgr_init_def IrpcTransaction_GetRef_def
        trx_update_def numeral_eq_Suc split: if_splits)
  moreover obtain t' where "trx_mem h' 1 = Some t'" using held_in_memory [OF a(2), of 1] by auto
  ultimately show thesis using a(2) that by (metis fun_upd_same)
qed

theorem trx_expire_all_wakes_witness:
  "\<exists>m h m' h' t t'. trxPool m = Some (Some 1 # replicate 31 None) \<and> trx_mem h 1 = Some t
     \<and> IpfTrxMgr_ExpireAll (Some m) 1 time_zero h = Some (Some m', h')
     \<and> trxPool m' = Some (replicate 32 None)
     \<and> trx_mem h' 1 = Some t' \<and> sync t' = sync t + 1 \<and> fst (the (IrpcTransaction_Wait (Some 1) h')) \<noteq> None"
proof -
  obtain m h ext t where w: "trx_inv (m, h, ext)" "trxPool m = Some (Some 1 # replicate 31 None)" "ext 1 = 1" "trx_mem h 1 = Some t"
    by (rule trx_one_added)
  from trx_expire_all_wakes [OF w(1), of 1 time_zero] w(2) obtain m' h' where
    e: "IpfTrxMgr_ExpireAll (Some m) 1 time_zero h = Some (Some m', h')" "trxPool m' = Some (replicate 32 None)"
      "\<forall>a t. 0 < ext a \<and> trx_mem h a = Some t \<longrightarrow> (\<exists>t'. trx_mem h' a = Some t'
         \<and> sync t' = sync t + count_list (Some 1 # replicate 31 None) (Some a)
         \<and> (Some a \<in> set (Some 1 # replicate 31 None) \<longrightarrow> fst (the (IrpcTransaction_Wait (Some a) h')) \<noteq> None))" by auto
  have "count_list (replicate n None) (Some (1::addr)) = 0" for n by (induction n) simp_all
  with e(3) [rule_format, of 1 t] w(3,4) obtain t' where "trx_mem h' 1 = Some t'" "sync t' = sync t + 1"
    "fst (the (IrpcTransaction_Wait (Some 1) h')) \<noteq> None" by auto
  with e(1,2) w(2,4) show ?thesis by blast
qed

text \<open>
  Transaction ids: as long as the generator is within its range, every created transaction
  gets the next id of the range, which is never the wild card \<^verbatim>\<open>IPFTRX_MATCHANY\<close>, and the generator
  stays within its range across the rollover.
\<close>

theorem trx_id_range:
  assumes "trx_mem h (next_addr h) = None" "TRXID_MIN \<le> trxIdGenerator h" "trxIdGenerator h < TRXID_MAX"
    "IrpcTransaction_Create ty now h = Some (Some a, h')"
  shows "\<exists>t. trx_mem h' a = Some t \<and> trxId t = trxIdGenerator h + 1 \<and> trxId t \<noteq> IPFTRX_MATCHANY
    \<and> TRXID_MIN < trxId t \<and> trxId t \<le> TRXID_MAX
    \<and> TRXID_MIN \<le> trxIdGenerator h' \<and> trxIdGenerator h' < TRXID_MAX"
proof -
  from create_run [OF assms(1), of ty now] assms(4) obtain t where
    t: "trx_mem h' a = Some t" "trxId t = trxIdGenerator h + 1"
      "trxIdGenerator h' = (if trxId t = TRXID_MAX then TRXID_MIN else trxId t)"
    by (auto simp: Let_def) (metis fun_upd_same option.sel)
  have "unat (trxIdGenerator h + 1) = Suc (unat (trxIdGenerator h))"
    using assms(3) by (intro unat_plus_1) (simp add: word_less_nat_alt)
  then have "TRXID_MIN < trxId t" "trxId t \<le> TRXID_MAX" "trxId t \<noteq> IPFTRX_MATCHANY"
    using assms(2,3) t(2) by (auto simp: word_less_nat_alt word_le_nat_alt)
  with t show ?thesis by (auto simp: less_le)
qed

theorem trx_id_range_witness:
  "\<exists>h t. IrpcTransaction_Create IrpcMsg_None time_zero (trx_heap_init\<lparr>next_addr := 1\<rparr>) = Some (Some 1, h)
     \<and> trx_mem h 1 = Some t \<and> trxId t = TRXID_MIN + 1"
proof -
  obtain h t where c: "IrpcTransaction_Create IrpcMsg_None time_zero (trx_heap_init\<lparr>next_addr := 1\<rparr>) = Some (Some 1, h)"
    by (rule trx_one_created)
  with trx_id_range [OF _ _ _ c] show ?thesis by (auto simp: trx_heap_init_def)
qed

end
