(* ===== verification/Esif_Data.thy ===== *)
theory Esif_Data
  imports Interfaces
begin

text \<open>
  The variant \<^verbatim>\<open>EsifData\<close> of \<^verbatim>\<open>src/Common/esif_sdk_data.h\<close>: a typed buffer with its allocated and its
  used length. The buffer is the list of its bytes; \<open>None\<close> is the \<^verbatim>\<open>NULL\<close> pointer.
\<close>

record EsifData =
  esif_type :: u32
  buf_ptr :: "u8 list option"
  buf_len :: u32
  data_len :: u32

text \<open>\<^verbatim>\<open>memcpy (dst, src, n)\<close>: both buffers must hold \<open>n\<close> bytes; \<open>n = 0\<close> touches nothing.\<close>

definition copy_bytes :: "u8 list option \<Rightarrow> u8 list option \<Rightarrow> nat \<Rightarrow> u8 list option option" where
  "copy_bytes dst src n =
     (if n = 0 then Some dst
      else case (dst, src) of
        (Some d, Some s) \<Rightarrow> if n \<le> length s then map_option Some (mem_put d 0 (take n s)) else None
      | _ \<Rightarrow> None)"

lemma copy_bytes_ok:
  assumes "n \<le> length s" "n \<le> length d"
  shows "copy_bytes (Some d) (Some s) n = Some (Some (take n s @ drop n d))"
  using assms by (auto simp: copy_bytes_def mem_put_def)

text \<open>
  \<^verbatim>\<open>EsifData_Clone\<close>: a new object (its address and its value) with a buffer of its own, as large as
  the larger of the two lengths; the bytes beyond the copied data are the zeros of the allocator.
\<close>

type_synonym EsifDataPtr = "(addr \<times> EsifData) option"

definition EsifData_Clone ::
    "EsifData option \<Rightarrow> 'a allocator_scheme \<Rightarrow> (EsifDataPtr \<times> 'a allocator_scheme) option" where
  "EsifData_Clone self m =
     (case self of
        None \<Rightarrow> Some (None, m)
      | Some d \<Rightarrow>
          (case esif_ccb_malloc m of
             (None, m1) \<Rightarrow> Some (None, m1)
           | (Some a, m1) \<Rightarrow>
               (case buf_ptr d of
                  None \<Rightarrow> Some (Some (a, d), m1)
                | Some src \<Rightarrow>
                    (let n = max (buf_len d) (data_len d) in
                     if n = 0 then Some (Some (a, d\<lparr>buf_ptr := None\<rparr>), m1)
                     else (case esif_ccb_malloc m1 of
                        (None, m2) \<Rightarrow> Some (None, m2)
                      | (Some _, m2) \<Rightarrow> do {
                          b \<leftarrow> copy_bytes (Some (replicate (unat n) 0)) (Some src) (unat (data_len d));
                          Some (Some (a, d\<lparr>buf_ptr := b, buf_len := n\<rparr>), m2) })))))"

text \<open>The 32-bit word at the start of a buffer, in the byte order of the machine (little endian).\<close>

definition get_u32 :: "u8 list \<Rightarrow> u32 option" where
  "get_u32 b = (case b of
     b0 # b1 # b2 # b3 # _ \<Rightarrow>
       Some (ucast b0 OR push_bit 8 (ucast b1) OR push_bit 16 (ucast b2) OR push_bit 24 (ucast b3))
   | _ \<Rightarrow> None)"

definition put_u32 :: "u32 \<Rightarrow> u8 list \<Rightarrow> u8 list" where
  "put_u32 v b = [ucast v, ucast (drop_bit 8 v), ucast (drop_bit 16 v), ucast (drop_bit 24 v)] @ drop 4 b"

section \<open>Words in buffers\<close>

lemma get_put_u32: "get_u32 (put_u32 v b) = Some v"
proof -
  have "(ucast (ucast v :: u8) OR push_bit 8 (ucast (ucast (drop_bit 8 v) :: u8))
      OR push_bit 16 (ucast (ucast (drop_bit 16 v) :: u8)) OR push_bit 24 (ucast (ucast (drop_bit 24 v) :: u8))) = v"
    apply (rule bit_word_eqI)
    subgoal for n by (cases "24 \<le> n"; cases "16 \<le> n") (auto simp: bit_simps not_less)
    done
  then show ?thesis by (simp add: get_u32_def put_u32_def)
qed

lemma put_get_u32: "get_u32 b = Some v \<Longrightarrow> put_u32 v b = b"
proof -
  assume g: "get_u32 b = Some v"
  then obtain b0 b1 b2 b3 r where b: "b = b0 # b1 # b2 # b3 # r"
    by (auto simp: get_u32_def split: list.splits)
  with g have v: "v = ucast b0 OR push_bit 8 (ucast b1) OR push_bit 16 (ucast b2) OR push_bit 24 (ucast b3)"
    by (simp add: get_u32_def)
  have "ucast v = b0" "ucast (drop_bit 8 v) = b1" "ucast (drop_bit 16 v) = b2" "ucast (drop_bit 24 v) = b3"
    unfolding v by ((rule bit_word_eqI, auto simp: bit_simps dest: bit_imp_le_length)[1])+
  then show ?thesis by (simp add: b put_u32_def)
qed

lemma get_u32_ok: "4 \<le> length b \<Longrightarrow> \<exists>v. get_u32 b = Some v"
  by (auto simp: get_u32_def Suc_le_length_iff numeral_eq_Suc)

section \<open>Clones\<close>

text \<open>A datum can be copied when its buffer holds the bytes it claims to hold.\<close>

definition data_ok :: "EsifData \<Rightarrow> bool" where
  "data_ok d \<longleftrightarrow> (case buf_ptr d of None \<Rightarrow> True
     | Some b \<Rightarrow> unat (data_len d) \<le> length b \<and> (buf_len d \<noteq> 0 \<longrightarrow> unat (buf_len d) \<le> length b))"

text \<open>The value a clone has.\<close>

definition clone_of :: "EsifData \<Rightarrow> EsifData" where
  "clone_of d = (case buf_ptr d of None \<Rightarrow> d
     | Some b \<Rightarrow> let n = max (buf_len d) (data_len d) in
         if n = 0 then d\<lparr>buf_ptr := None\<rparr>
         else d\<lparr>buf_ptr := Some (take (unat (data_len d)) b @ replicate (unat n - unat (data_len d)) 0), buf_len := n\<rparr>)"

lemma max_unat: "unat (max a b :: 'a::len word) = max (unat a) (unat b)"
  by (simp add: max_def word_le_nat_alt)

lemma clone_spec:
  assumes "data_ok d"
  shows "\<exists>p m'. EsifData_Clone (Some d) m = Some (p, m')
    \<and> (\<exists>n. m' = m\<lparr>next_addr := n\<rparr> \<and> next_addr m < n \<and> n \<le> next_addr m + 2)
    \<and> (p = None \<or> p = Some (next_addr m, clone_of d))
    \<and> ((\<forall>a. alloc_ok m a) \<longrightarrow> p \<noteq> None)"
proof (cases "buf_ptr d")
  case None
  then show ?thesis 
    by (auto simp: EsifData_Clone_def esif_ccb_malloc_def clone_of_def intro: exI [of _ "Suc (next_addr m)"])
next
  case (Some b)
  let ?n = "max (buf_len d) (data_len d)"
  have "copy_bytes (Some (replicate (unat ?n) 0)) (Some b) (unat (data_len d))
      = Some (Some (take (unat (data_len d)) b @ replicate (unat ?n - unat (data_len d)) 0))"
    using assms Some by (subst copy_bytes_ok) (auto simp: data_ok_def max_unat)
  then show ?thesis using Some
    by (auto simp: EsifData_Clone_def esif_ccb_malloc_def clone_of_def Let_def)
qed

lemma clone_of_ok:
  "data_ok d \<Longrightarrow> data_ok (clone_of d)"
  by (auto simp: data_ok_def clone_of_def Let_def max_unat split: option.splits)

lemma clone_of_clone: "data_ok d \<Longrightarrow> clone_of (clone_of d) = clone_of d"
  by (auto simp: data_ok_def clone_of_def Let_def max_unat max_def split: option.splits)

end
