(* ===== verification/Event_Cache.thy ===== *)
theory Event_Cache
  imports Esif_Data
begin

text \<open>
  The event cache, \<^verbatim>\<open>src/ESIF/Products/ESIF_UF/Sources/esif_uf_event_cache.c\<close>: a fixed table of events whose
  last payload is kept, filled by the event callback and read by value or as a clone. The
  static table and the manager struct are the state; the calls that register the callback with
  the event manager are recorded in \<open>registered\<close>. The feature macro that compiles the start
  code in is defined in this code base.
\<close>

section \<open>State\<close>

record EsifEventCacheEntry =
  eventType :: u32
  mustRegister :: bool
  entry_data :: EsifData

record EsifEventCacheMgr =
  isStarted :: bool
  cached :: "EsifEventCacheEntry list"
  registered :: "u32 list"

abbreviation (input) no_data :: EsifData where
  "no_data \<equiv> \<lparr>esif_type = 0, buf_ptr = None, buf_len = 0, data_len = 0\<rparr>"

text \<open>The table, with the numeric event types of \<^verbatim>\<open>esif_sdk_event_type.h\<close>.\<close>

definition g_CachedEvents :: "EsifEventCacheEntry list" where
  "g_CachedEvents =
     map (\<lambda>(t, r). \<lparr>eventType = t, mustRegister = r, entry_data = no_data\<rparr>)
       [(44, True), (46, True), (48, True), (109, True), (45, True), (106, True), (99, True), (29, True),
        (47, True), (72, True), (97, True), (158, True), (174, True), (100, False), (27, False), (28, False),
        (26, False), (156, False), (122, False)]"

definition g_EventCacheMgr :: EsifEventCacheMgr where
  "g_EventCacheMgr = \<lparr>isStarted = False, cached = g_CachedEvents, registered = []\<rparr>"

section \<open>Operations\<close>

definition find_entry :: "u32 \<Rightarrow> EsifEventCacheMgr \<Rightarrow> nat option" where
  "find_entry ty c = first_index (\<lambda>e. eventType e = ty) (cached c)"

definition EsifEventCache_GetValue ::
    "EsifEventCacheMgr \<Rightarrow> u32 \<Rightarrow> EsifData option \<Rightarrow> (esif_rc \<times> EsifData option) option" where
  "EsifEventCache_GetValue c ty dataPtr =
     (if \<not> isStarted c then Some (ESIF_E_NOT_SUPPORTED, dataPtr)
      else case dataPtr of
        None \<Rightarrow> Some (ESIF_E_PARAMETER_IS_NULL, dataPtr)
      | Some d \<Rightarrow>
          (case find_entry ty c of
             None \<Rightarrow> Some (ESIF_E_NOT_FOUND, dataPtr)
           | Some i \<Rightarrow>
               let e = entry_data (cached c ! i) in
               if buf_ptr e = None then Some (ESIF_E_NOT_FOUND, dataPtr)
               else if data_len e \<le> buf_len d then do {
                 b \<leftarrow> copy_bytes (buf_ptr d) (buf_ptr e) (unat (data_len e));
                 Some (ESIF_OK, Some (d\<lparr>buf_ptr := b, data_len := data_len e\<rparr>)) }
               else Some (ESIF_E_NEED_LARGER_BUFFER, Some (d\<lparr>data_len := data_len e\<rparr>))))"

definition EsifEventCache_GetValueClone ::
    "EsifEventCacheMgr \<Rightarrow> u32 \<Rightarrow> EsifData option \<Rightarrow> allocator \<Rightarrow> (esif_rc \<times> EsifData option \<times> allocator) option" where
  "EsifEventCache_GetValueClone c ty dataPtr m =
     (if \<not> isStarted c then Some (ESIF_E_NOT_SUPPORTED, dataPtr, m)
      else case dataPtr of
        None \<Rightarrow> Some (ESIF_E_PARAMETER_IS_NULL, dataPtr, m)
      | Some d \<Rightarrow>
          (case find_entry ty c of
             None \<Rightarrow> Some (ESIF_E_NOT_FOUND, dataPtr, m)
           | Some i \<Rightarrow>
               let e = entry_data (cached c ! i) in
               if buf_ptr e = None then Some (ESIF_E_NOT_FOUND, dataPtr, m)
               else (case esif_ccb_malloc m of
                 (None, m') \<Rightarrow> Some (ESIF_E_NO_MEMORY, Some (d\<lparr>buf_ptr := None\<rparr>), m')
               | (Some _, m') \<Rightarrow> do {
                   b \<leftarrow> copy_bytes (Some (replicate (unat (data_len e)) 0)) (buf_ptr e) (unat (data_len e));
                   Some (ESIF_OK, Some (d\<lparr>esif_type := esif_type e, buf_ptr := b, buf_len := data_len e,
                                           data_len := data_len e\<rparr>), m') })))"

definition UpdateData_Locked ::
    "EsifEventCacheEntry \<Rightarrow> EsifData \<Rightarrow> allocator \<Rightarrow> (esif_rc \<times> EsifEventCacheEntry \<times> allocator) option" where
  "UpdateData_Locked entry d m =
     (let e = entry_data entry in
      if buf_ptr e = None \<or> buf_len e < data_len d then
        if data_len d = 0 then Some (ESIF_E_PARAMETER_IS_OUT_OF_BOUNDS, entry, m)
        else (case esif_ccb_malloc m of
          (None, m') \<Rightarrow> Some (ESIF_E_NO_MEMORY, entry\<lparr>entry_data := e\<lparr>buf_ptr := None\<rparr>\<rparr>, m')
        | (Some _, m') \<Rightarrow> do {
            b \<leftarrow> copy_bytes (Some (replicate (unat (data_len d)) 0)) (buf_ptr d) (unat (data_len d));
            Some (ESIF_OK, entry\<lparr>entry_data := \<lparr>esif_type = esif_type d, buf_ptr = b, buf_len = data_len d,
                                                 data_len = data_len d\<rparr>\<rparr>, m') })
      else do {
        b \<leftarrow> copy_bytes (buf_ptr e) (buf_ptr d) (unat (data_len d));
        Some (ESIF_OK, entry\<lparr>entry_data := e\<lparr>buf_ptr := b\<rparr>\<rparr>, m) })"

definition EsifEventCache_EventCallback ::
    "EsifEventCacheMgr \<Rightarrow> u32 option \<Rightarrow> EsifData option \<Rightarrow> allocator
     \<Rightarrow> (esif_rc \<times> EsifEventCacheMgr \<times> allocator) option" where
  "EsifEventCache_EventCallback c fpcEvent eventData m =
     (case (fpcEvent, eventData) of
        (Some ty, Some d) \<Rightarrow>
          (case find_entry ty c of
             None \<Rightarrow> Some (ESIF_OK, c, m)
           | Some i \<Rightarrow> do {
               (_, e', m') \<leftarrow> UpdateData_Locked (cached c ! i) d m;
               Some (ESIF_OK, c\<lparr>cached := (cached c)[i := e']\<rparr>, m') })
      | _ \<Rightarrow> Some (ESIF_E_PARAMETER_IS_NULL, c, m))"

definition EsifEventCache_UpdateData ::
    "EsifEventCacheMgr \<Rightarrow> u32 \<Rightarrow> esif_handle_t \<Rightarrow> EsifData option \<Rightarrow> allocator
     \<Rightarrow> (esif_rc \<times> EsifEventCacheMgr \<times> allocator) option" where
  "EsifEventCache_UpdateData c ty participantId eventData m =
     (if EsifUpPm_IsPrimaryParticipantId participantId
      then EsifEventCache_EventCallback c (Some ty) eventData m else Some (ESIF_OK, c, m))"

definition EsifEventCache_IsEventCacheable :: "EsifEventCacheMgr \<Rightarrow> u32 \<Rightarrow> bool" where
  "EsifEventCache_IsEventCacheable c ty = (find_entry ty c \<noteq> None)"

definition EsifEventCache_Start :: "EsifEventCacheMgr \<Rightarrow> esif_rc \<times> EsifEventCacheMgr" where
  "EsifEventCache_Start c =
     (ESIF_OK, c\<lparr>isStarted := True,
                 registered := registered c @ map eventType (filter mustRegister (cached c))\<rparr>)"

definition EsifEventCache_Stop :: "EsifEventCacheMgr \<Rightarrow> EsifEventCacheMgr" where
  "EsifEventCache_Stop c =
     (if isStarted c
      then c\<lparr>registered := filter (\<lambda>t. t \<notin> set (map eventType (filter mustRegister (cached c)))) (registered c),
             cached := map (\<lambda>e. e\<lparr>entry_data := (entry_data e)\<lparr>buf_ptr := None\<rparr>\<rparr>) (cached c)\<rparr>
      else c)"

section \<open>Invariant\<close>

text \<open>A cached payload fills its buffer, and no event type occurs twice in the table.\<close>

definition entry_ok :: "EsifEventCacheEntry \<Rightarrow> bool" where
  "entry_ok e \<longleftrightarrow>
     (case buf_ptr (entry_data e) of
        None \<Rightarrow> True
      | Some b \<Rightarrow> length b = unat (data_len (entry_data e)) \<and> buf_len (entry_data e) = data_len (entry_data e))"

definition cache_ok :: "EsifEventCacheMgr \<Rightarrow> bool" where
  "cache_ok c \<longleftrightarrow> (\<forall>e\<in>set (cached c). entry_ok e) \<and> distinct (map eventType (cached c))"

definition cached_value :: "EsifEventCacheMgr \<Rightarrow> u32 \<Rightarrow> u8 list option" where
  "cached_value c ty = (case find_entry ty c of None \<Rightarrow> None | Some i \<Rightarrow> buf_ptr (entry_data (cached c ! i)))"

lemma first_index_map: "first_index (\<lambda>e. P (f e)) xs = first_index P (map f xs)"
  by (induction xs) auto

lemma find_entry_cong:
  "map eventType (cached c') = map eventType (cached c) \<Longrightarrow> find_entry ty c' = find_entry ty c"
  using first_index_map [of "\<lambda>t. t = ty" eventType] by (metis find_entry_def)

lemma find_entryD:
  assumes "find_entry ty c = Some i"
  shows "i < length (cached c)" "eventType (cached c ! i) = ty" "cache_ok c \<Longrightarrow> entry_ok (cached c ! i)"
  using first_index_spec [where P = "\<lambda>e. eventType e = ty" and xs = "cached c"] assms
  by (auto simp: find_entry_def cache_ok_def)

lemma update_entry:
  assumes "entry_ok e" "buf_ptr d = Some src" "length src = unat (data_len d)" "src \<noteq> []" "alloc_ok m (next_addr m)"
  shows "\<exists>e' m'. UpdateData_Locked e d m = Some (ESIF_OK, e', m') \<and> entry_ok e' \<and> eventType e' = eventType e
    \<and> buf_ptr (entry_data e') = Some (case buf_ptr (entry_data e) of None \<Rightarrow> src
        | Some old \<Rightarrow> if length old < length src then src else src @ drop (length src) old)"
proof (cases "buf_ptr (entry_data e) = None \<or> buf_len (entry_data e) < data_len d")
  case True
  have "data_len d \<noteq> 0" using assms(3,4) by auto
  moreover have "length old < length src" if "buf_ptr (entry_data e) = Some old" for old
    using True that assms(1,3) by (auto simp: entry_ok_def word_less_nat_alt)
  ultimately show ?thesis using True assms
    by (auto simp: UpdateData_Locked_def Let_def esif_ccb_malloc_def copy_bytes_ok entry_ok_def split: option.splits)
next
  case False
  then obtain old where old: "buf_ptr (entry_data e) = Some old" by auto
  with False assms(1,3) have "length src \<le> length old"
    by (auto simp: entry_ok_def word_less_nat_alt not_less)
  with False old assms show ?thesis
    by (auto simp: UpdateData_Locked_def Let_def copy_bytes_ok entry_ok_def)
qed

section \<open>Properties\<close>

text \<open>
  An event of the primary participant with a non-empty payload updates exactly the entry of
  its type: the cached value becomes the payload, unless the old value was longer, in which case
  only its first bytes are overwritten and the old length and tail remain. Every other
  entry is unchanged and the table stays well formed.
\<close>

theorem event_cache_update:
  assumes "cache_ok c" "EsifEventCache_IsEventCacheable c ty" "EsifUpPm_IsPrimaryParticipantId part"
    "buf_ptr d = Some src" "length src = unat (data_len d)" "src \<noteq> []" "alloc_ok m (next_addr m)"
  shows "\<exists>c' m'. EsifEventCache_UpdateData c ty part (Some d) m = Some (ESIF_OK, c', m') \<and> cache_ok c'
    \<and> cached_value c' ty = Some (case cached_value c ty of None \<Rightarrow> src
        | Some old \<Rightarrow> if length old < length src then src else src @ drop (length src) old)
    \<and> (\<forall>ty'. ty' \<noteq> ty \<longrightarrow> cached_value c' ty' = cached_value c ty')"
proof -
  from assms(2) obtain i where i: "find_entry ty c = Some i" by (auto simp: EsifEventCache_IsEventCacheable_def)
  note fi = find_entryD [OF i]
  from update_entry [OF fi(3) [OF assms(1)] assms(4-7)] obtain e' m' where
    u: "UpdateData_Locked (cached c ! i) d m = Some (ESIF_OK, e', m')" "entry_ok e'" "eventType e' = ty"
      "buf_ptr (entry_data e') = Some (case cached_value c ty of None \<Rightarrow> src
        | Some old \<Rightarrow> if length old < length src then src else src @ drop (length src) old)"
    using fi(2) i by (auto simp: cached_value_def)
  let ?c' = "c\<lparr>cached := (cached c)[i := e']\<rparr>"
  have same: "map eventType (cached ?c') = map eventType (cached c)"
    using fi(1,2) u(3) by (simp add: map_update list_update_same_conv)
  have "cache_ok ?c'"
    using assms(1) u(2) same by (auto simp: cache_ok_def dest: set_update_subset_insert [THEN subsetD])
  moreover have "cached_value ?c' ty' = cached_value c ty'" if "ty' \<noteq> ty" for ty'
  proof (cases "find_entry ty' c")
    case (Some j)
    with find_entryD(2) [OF Some] fi(2) that have "j \<noteq> i" by auto
    with Some find_entry_cong [OF same] show ?thesis by (simp add: cached_value_def)
  qed (simp add: cached_value_def find_entry_cong [OF same])
  moreover have "cached_value ?c' ty = buf_ptr (entry_data e')"
    using i fi(1) by (simp add: cached_value_def find_entry_cong [OF same])
  moreover have "EsifEventCache_UpdateData c ty part (Some d) m = Some (ESIF_OK, ?c', m')"
    using assms(3) i u(1) by (simp add: EsifEventCache_UpdateData_def EsifEventCache_EventCallback_def)
  ultimately show ?thesis using u(4) by auto
qed

definition cache_started :: EsifEventCacheMgr where
  "cache_started = snd (EsifEventCache_Start g_EventCacheMgr)"

lemma cache_started_ok: "cache_ok cache_started" "isStarted cache_started"
  by (simp_all add: cache_started_def EsifEventCache_Start_def g_EventCacheMgr_def g_CachedEvents_def cache_ok_def entry_ok_def)

lemma lid_cacheable: "find_entry 45 cache_started = Some 4"
  by (simp add: find_entry_def cache_started_def EsifEventCache_Start_def g_EventCacheMgr_def g_CachedEvents_def)

abbreviation lid_payload :: EsifData where
  "lid_payload \<equiv> \<lparr>esif_type = 3, buf_ptr = Some [1, 0, 0, 0], buf_len = 4, data_len = 4\<rparr>"

theorem event_cache_update_witness:
  "\<exists>c' m'. EsifEventCache_UpdateData cache_started 45 1 (Some lid_payload) roomy = Some (ESIF_OK, c', m')
     \<and> cached_value c' 45 = Some [1, 0, 0, 0]"
proof -
  have none: "cached_value cache_started 45 = None"
    unfolding cached_value_def lid_cacheable
    by (simp add: cache_started_def EsifEventCache_Start_def g_EventCacheMgr_def g_CachedEvents_def)
  have "EsifEventCache_IsEventCacheable cache_started 45"
    by (simp add: EsifEventCache_IsEventCacheable_def lid_cacheable)
  from event_cache_update [OF cache_started_ok(1) this, of 1 lid_payload "[1, 0, 0, 0]" roomy] none
  show ?thesis by (auto simp: EsifUpPm_IsPrimaryParticipantId_def roomy_def)
qed

text \<open>
  \<^verbatim>\<open>EsifEventCache_GetValue\<close> on a started cache copies the whole cached payload to the caller's
  buffer if it fits and reports its length; if it does not fit, it reports the required length
  and leaves the buffer alone; it never writes past the caller's buffer.
\<close>

theorem event_cache_get_value:
  assumes "cache_ok c" "isStarted c" "cached_value c ty = Some v" "buf_ptr d = Some out" "length out = unat (buf_len d)"
  shows "\<exists>d'. EsifEventCache_GetValue c ty (Some d)
      = Some (if length v \<le> length out then ESIF_OK else ESIF_E_NEED_LARGER_BUFFER, Some d')
    \<and> unat (data_len d') = length v
    \<and> buf_ptr d' = Some (if length v \<le> length out then v @ drop (length v) out else out)"
proof -
  from assms(3) obtain i where i: "find_entry ty c = Some i" "buf_ptr (entry_data (cached c ! i)) = Some v"
    by (auto simp: cached_value_def split: option.splits)
  have len: "length v = unat (data_len (entry_data (cached c ! i)))"
    using find_entryD(3) [OF i(1) assms(1)] i(2) by (simp add: entry_ok_def)
  have fits: "data_len (entry_data (cached c ! i)) \<le> buf_len d \<longleftrightarrow> length v \<le> length out"
    using len assms(5) by (simp add: word_le_nat_alt)
  show ?thesis
  proof (cases "length v \<le> length out")
    case True
    with fits have "copy_bytes (Some out) (Some v) (unat (data_len (entry_data (cached c ! i))))
        = Some (Some (v @ drop (length v) out))" using len copy_bytes_ok [of "length v" v out] by simp
    with True fits i assms(2,4) len show ?thesis by (simp add: EsifEventCache_GetValue_def Let_def)
  next
    case False
    with fits i assms(2,4) len show ?thesis by (simp add: EsifEventCache_GetValue_def Let_def)
  qed
qed

theorem event_cache_get_value_witness:
  "\<exists>c' m' d'. EsifEventCache_UpdateData cache_started 45 1 (Some lid_payload) roomy = Some (ESIF_OK, c', m')
     \<and> EsifEventCache_GetValue c' 45 (Some \<lparr>esif_type = 0, buf_ptr = Some [9, 9, 9, 9, 9], buf_len = 5, data_len = 0\<rparr>)
         = Some (ESIF_OK, Some d') \<and> buf_ptr d' = Some [1, 0, 0, 0, 9]"
proof -
  let ?e = "(cached cache_started ! 4)\<lparr>entry_data := lid_payload\<rparr>"
  let ?c = "cache_started\<lparr>cached := (cached cache_started)[4 := ?e]\<rparr>"
  have eval: "EsifEventCache_UpdateData cache_started 45 1 (Some lid_payload) roomy = Some (ESIF_OK, ?c, roomy\<lparr>next_addr := 2\<rparr>)"
    "cache_ok ?c" "isStarted ?c" "cached_value ?c 45 = Some [1, 0, 0, 0]"
    by (simp_all add: EsifEventCache_UpdateData_def EsifEventCache_EventCallback_def UpdateData_Locked_def Let_def
        EsifUpPm_IsPrimaryParticipantId_def find_entry_def cache_started_def EsifEventCache_Start_def g_EventCacheMgr_def
        g_CachedEvents_def esif_ccb_malloc_def roomy_def copy_bytes_def mem_put_def cache_ok_def entry_ok_def cached_value_def)
  from event_cache_get_value [OF eval(2-4), of "\<lparr>esif_type = 0, buf_ptr = Some [9, 9, 9, 9, 9], buf_len = 5, data_len = 0\<rparr>"
      "[9, 9, 9, 9, 9]"] eval(1) show ?thesis by auto
qed

end
