(* ===== verification/Bisection.thy ===== *)
theory Bisection
  imports Interfaces "HOL-Library.Signed_Division"
begin

text \<open>
  The bisection loop that the code base writes out wherever it searches a sorted array: the rows
  of a data vault (\<^verbatim>\<open>esif_lib_datacache.c\<close>) and the tables that pair the primitives
  (\<^verbatim>\<open>esif_uf_primitive_type.h\<close>). Three ints hold the bounds and the probe, and the division rounds
  towards zero. \<open>cmp node\<close> compares the key with the array at \<open>node\<close>; an access outside the array
  is \<open>None\<close>. \<open>Inl\<close> is the exit on an equal element, \<open>Inr\<close> the exit of the loop condition.
\<close>

partial_function (option) bisect_loop ::
    "(int \<Rightarrow> int option) \<Rightarrow> int \<Rightarrow> int \<Rightarrow> int \<Rightarrow> (int + int) option" where
  "bisect_loop cmp start fin node =
     (if start \<le> fin then
        Option.bind (cmp node) (\<lambda>comp.
          if comp = 0 then Some (Inl node)
          else if comp > 0 then bisect_loop cmp (node + 1) fin ((fin - (node + 1)) sdiv 2 + (node + 1))
          else bisect_loop cmp start (node - 1) ((node - 1 - start) sdiv 2 + start))
      else Some (Inr node))"

text \<open>The loop as it is entered: the whole array, with the probe in the middle.\<close>

definition bisect :: "(int \<Rightarrow> int option) \<Rightarrow> int \<Rightarrow> (int + int) option" where
  "bisect cmp items = bisect_loop cmp 0 (items - 1) (items sdiv 2)"

lemma sdiv_two: "(0::int) \<le> d \<Longrightarrow> d sdiv 2 = d div 2" "(- 1 :: int) sdiv 2 = 0"
  by (cases "d = 0") (simp_all add: signed_divide_int_def)

lemma midpoint:
  "(a::int) \<le> b \<Longrightarrow> a \<le> (b - a) sdiv 2 + a \<and> (b - a) sdiv 2 + a \<le> b"
  "a = b + 1 \<Longrightarrow> (b - a) sdiv 2 + a = a"
proof -
  assume "a \<le> b"
  then have "(b - a) sdiv 2 = (b - a) div 2" using sdiv_two(1) [of "b - a"] by simp
  with \<open>a \<le> b\<close> show "a \<le> (b - a) sdiv 2 + a \<and> (b - a) sdiv 2 + a \<le> b" by linarith
qed (simp add: sdiv_two)

text \<open>
  What the search relies on: every element can be compared, and the elements smaller than the key
  come before the equal ones and those before the larger ones.
\<close>

locale sorted_array =
  fixes len :: nat and cmp :: "int \<Rightarrow> int option"
  assumes cmp_total: "i < len \<Longrightarrow> cmp (int i) \<noteq> None"
    and cmp_above: "i \<le> j \<Longrightarrow> j < len \<Longrightarrow> cmp (int j) = Some c \<Longrightarrow> 0 < c \<Longrightarrow> \<exists>d>0. cmp (int i) = Some d"
    and cmp_below: "i \<le> j \<Longrightarrow> j < len \<Longrightarrow> cmp (int i) = Some c \<Longrightarrow> c < 0 \<Longrightarrow> \<exists>d<0. cmp (int j) = Some d"
begin

definition larger_key :: "nat \<Rightarrow> bool" where "larger_key i \<longleftrightarrow> (\<exists>d>0. cmp (int i) = Some d)"

definition smaller_key :: "nat \<Rightarrow> bool" where "smaller_key i \<longleftrightarrow> (\<exists>d<0. cmp (int i) = Some d)"

lemma loop_spec:
  assumes "0 \<le> start" "fin < int len" "start \<le> fin + 1"
    "start \<le> fin \<Longrightarrow> start \<le> node \<and> node \<le> fin" "start = fin + 1 \<Longrightarrow> node = start"
    "\<forall>i < nat start. larger_key i" "\<forall>i < len. fin < int i \<longrightarrow> smaller_key i"
  shows "(\<exists>n<len. bisect_loop cmp start fin node = Some (Inl (int n)) \<and> cmp (int n) = Some 0)
    \<or> (\<exists>n\<le>len. bisect_loop cmp start fin node = Some (Inr (int n))
        \<and> (\<forall>i<n. larger_key i) \<and> (\<forall>i<len. n \<le> i \<longrightarrow> smaller_key i))"
  using assms
proof (induction "nat (fin + 1 - start)" arbitrary: start fin node rule: less_induct)
  case less
  show ?case
  proof (cases "start \<le> fin")
    case False
    with less.prems have eq: "start = fin + 1" "node = start" by auto
    have "bisect_loop cmp start fin node = Some (Inr (int (nat start)))"
      using False less.prems eq by (subst bisect_loop.simps) simp
    moreover have "nat start \<le> len" using less.prems eq by simp
    moreover have "smaller_key i" if "i < len" "nat start \<le> i" for i
      using less.prems(7) that eq by auto
    ultimately show ?thesis using less.prems(6) by blast
  next
    case True
    with less.prems(4) have nd: "start \<le> node" "node \<le> fin" by auto
    then obtain k where k: "node = int k" "k < len" using less.prems by (metis nat_0_le nat_less_iff order.trans order_le_less_trans)
    obtain c where c: "cmp node = Some c" using cmp_total k by auto
    consider "c = 0" | "c > 0" | "c < 0" by linarith
    then show ?thesis
    proof cases
      case 1
      then have "bisect_loop cmp start fin node = Some (Inl (int k))"
        using True c k by (subst bisect_loop.simps) simp
      with 1 c k show ?thesis by blast
    next
      case 2
      let ?nd = "(fin - (node + 1)) sdiv 2 + (node + 1)"
      have "larger_key i" if "i < nat (node + 1)" for i
        using cmp_above [of i k c] that c k 2 by (simp add: larger_key_def)
      then have low: "\<forall>i < nat (node + 1). larger_key i" by blast
      have "bisect_loop cmp start fin node = bisect_loop cmp (node + 1) fin ?nd"
        using True c 2 by (subst bisect_loop.simps) simp
      then show ?thesis
        using less.hyps [of fin "node + 1" ?nd] nd less.prems low midpoint(1) [of "node + 1" fin]
          midpoint(2) [of "node + 1" fin] by auto
    next
      case 3
      let ?nd = "(node - 1 - start) sdiv 2 + start"
      have "smaller_key i" if "i < len" "node - 1 < int i" for i
        using cmp_below [of k i c] that c k 3 by (simp add: smaller_key_def)
      then have high: "\<forall>i < len. node - 1 < int i \<longrightarrow> smaller_key i" by blast
      have "bisect_loop cmp start fin node = bisect_loop cmp start (node - 1) ?nd"
        using True c 3 by (subst bisect_loop.simps) simp
      then show ?thesis
        using less.hyps [of "node - 1" start ?nd] nd less.prems high midpoint(1) [of start "node - 1"]
          midpoint(2) [of start "node - 1"] by auto
    qed
  qed
qed

lemma bisect_spec:
  "(\<exists>n<len. bisect cmp (int len) = Some (Inl (int n)) \<and> cmp (int n) = Some 0)
   \<or> (\<exists>n\<le>len. bisect cmp (int len) = Some (Inr (int n))
       \<and> (\<forall>i<n. larger_key i) \<and> (\<forall>i<len. n \<le> i \<longrightarrow> smaller_key i))"
proof -
  have "int len div 2 < int len" if "len \<noteq> 0" using that by linarith
  then show ?thesis unfolding bisect_def
    by (intro loop_spec) (auto simp: sdiv_two)
qed

lemma bisect_misses:
  assumes "bisect cmp (int len) = Some (Inr n)" "i < len"
  shows "cmp (int i) \<noteq> Some 0"
  using bisect_spec assms by (cases "i < nat n") (auto simp: larger_key_def smaller_key_def dest!: spec [of _ i])

end

end
