(* ===== verification/Data_Cache.thy ===== *)
theory Data_Cache
  imports Esif_Data Bisection "HOL-Library.List_Lexorder"
begin

text \<open>
  The in-memory cache of a data vault, \<^verbatim>\<open>src/ESIF/Products/ESIF_LIB/Sources/esif_lib_datacache.c\<close>: an array
  of key/value rows kept in the order of their keys without regard to case and searched by
  bisection. A value is either owned bytes or, when \<^verbatim>\<open>buf_len\<close> is 0, the file offset of
  the bytes, kept in the pointer itself. The C strings are byte lists; a stored key is
  its buffer with the terminating zero.
\<close>

section \<open>Strings without regard to case\<close>

definition c_tolower :: "u8 \<Rightarrow> u8" where
  "c_tolower c = (if 0x41 \<le> c \<and> c \<le> 0x5A then c + 0x20 else c)"

text \<open>\<^verbatim>\<open>strcasecmp\<close> of two C strings: the difference at the first place where they differ.\<close>

fun strcasecmp :: "u8 list \<Rightarrow> u8 list \<Rightarrow> int" where
  "strcasecmp [] [] = 0"
| "strcasecmp [] (y # ys) = - uint (c_tolower y)"
| "strcasecmp (x # xs) [] = uint (c_tolower x)"
| "strcasecmp (x # xs) (y # ys) =
     (if c_tolower x = c_tolower y then strcasecmp xs ys else uint (c_tolower x) - uint (c_tolower y))"

text \<open>The characters of a buffer up to its terminator; a buffer without one is read past its end.\<close>

definition c_string :: "u8 list option \<Rightarrow> u8 list option" where
  "c_string p = (case p of None \<Rightarrow> None
     | Some b \<Rightarrow> if 0 \<in> set b then Some (takeWhile (\<lambda>x. x \<noteq> 0) b) else None)"

section \<open>State\<close>

datatype cache_ptr = CacheBytes "u8 list" | CacheOffset u64

record CacheData =
  cd_type :: u32
  cd_buf_ptr :: "cache_ptr option"
  cd_buf_len :: u32
  cd_data_len :: u32

record DataCacheEntry =
  flags :: u32
  key :: EsifData
  cvalue :: CacheData

text \<open>The array is the list of its rows; the \<^verbatim>\<open>NULL\<close> array is the empty one.\<close>

record DataCache =
  csize :: u32
  elements :: "DataCacheEntry list"

abbreviation (input) ESIF_DATA_STRING :: u32 where "ESIF_DATA_STRING \<equiv> 8"
abbreviation (input) ESIFAUTOLEN :: u32 where "ESIFAUTOLEN \<equiv> 0x80000000"
abbreviation (input) MAXAUTOLEN :: nat where "MAXAUTOLEN \<equiv> 65536"
abbreviation (input) ESIF_SERVICE_CONFIG_NOCACHE :: u32 where "ESIF_SERVICE_CONFIG_NOCACHE \<equiv> 8"

definition EsifData_ctor :: EsifData where
  "EsifData_ctor = \<lparr>esif_type = 0, buf_ptr = None, buf_len = 0, data_len = 0\<rparr>"

definition wiped_value :: CacheData where
  "wiped_value = \<lparr>cd_type = 0, cd_buf_ptr = None, cd_buf_len = 0, cd_data_len = 0\<rparr>"

definition wiped_entry :: DataCacheEntry where
  "wiped_entry = \<lparr>flags = 0, key = EsifData_ctor, cvalue = wiped_value\<rparr>"

definition EsifData_Set :: "EsifData \<Rightarrow> u32 \<Rightarrow> u8 list option \<Rightarrow> u32 \<Rightarrow> u32 \<Rightarrow> EsifData" where
  "EsifData_Set self ty p blen dlen =
     (let bytes = (case p of
            None \<Rightarrow> 0
          | Some b \<Rightarrow> if blen = ESIFAUTOLEN \<or> dlen = ESIFAUTOLEN
                    then of_nat (length (takeWhile (\<lambda>x. x \<noteq> 0) (take MAXAUTOLEN b))) + 1 else 0)
      in self\<lparr>esif_type := ty, buf_ptr := p,
              buf_len := if blen = ESIFAUTOLEN then bytes else blen,
              data_len := if dlen = ESIFAUTOLEN then bytes else dlen\<rparr>)"

text \<open>\<^verbatim>\<open>memmove\<close> of \<open>n\<close> rows within the array, and the array after a successful \<^verbatim>\<open>realloc\<close>.\<close>

definition move_rows :: "DataCacheEntry list \<Rightarrow> nat \<Rightarrow> nat \<Rightarrow> nat \<Rightarrow> DataCacheEntry list option" where
  "move_rows es dst src n =
     (if src + n \<le> length es \<and> dst + n \<le> length es
      then Some (take dst es @ take n (drop src es) @ drop (dst + n) es) else None)"

definition resize_rows :: "DataCacheEntry list \<Rightarrow> nat \<Rightarrow> DataCacheEntry list" where
  "resize_rows es n = take n es @ replicate (n - length es) wiped_entry"

section \<open>Operations\<close>

definition DataCache_Create :: "allocator \<Rightarrow> DataCache option \<times> allocator" where
  "DataCache_Create m =
     (case esif_ccb_malloc m of
        (None, m') \<Rightarrow> (None, m')
      | (Some _, m') \<Rightarrow> (Some \<lparr>csize = 0, elements = []\<rparr>, m'))"

text \<open>
  \<^verbatim>\<open>EsifData_dtor\<close> frees the buffer of a datum that owns one (\<^verbatim>\<open>buf_len\<close> is not 0). The result of the
  destructor of the cache is what it frees; freeing a pointer that is a file offset is undefined.
\<close>

definition EsifData_dtor :: "cache_ptr option \<Rightarrow> u32 \<Rightarrow> u8 list list option" where
  "EsifData_dtor p len =
     (if len = 0 then Some []
      else case p of None \<Rightarrow> Some [] | Some (CacheBytes b) \<Rightarrow> Some [b] | Some (CacheOffset _) \<Rightarrow> None)"

fun destroy_rows :: "DataCacheEntry list \<Rightarrow> nat \<Rightarrow> u8 list list option" where
  "destroy_rows es 0 = Some []"
| "destroy_rows [] (Suc n) = None"
| "destroy_rows (e # es) (Suc n) = do {
     f1 \<leftarrow> EsifData_dtor (map_option CacheBytes (buf_ptr (key e))) (buf_len (key e));
     f2 \<leftarrow> EsifData_dtor (cd_buf_ptr (cvalue e)) (cd_buf_len (cvalue e));
     fs \<leftarrow> destroy_rows es n;
     Some (f1 @ f2 @ fs) }"

definition DataCache_Destroy :: "DataCache option \<Rightarrow> u8 list list option" where
  "DataCache_Destroy self = (case self of None \<Rightarrow> Some [] | Some c \<Rightarrow> destroy_rows (elements c) (unat (csize c)))"

definition esif_ccb_stricmp :: "u8 list \<Rightarrow> u8 list option \<Rightarrow> int option" where
  "esif_ccb_stricmp k p = map_option (strcasecmp k) (c_string p)"

text \<open>The comparison in the bisection that the search and the choice of the insertion point share.\<close>

definition row_cmp :: "DataCacheEntry list \<Rightarrow> u8 list \<Rightarrow> int \<Rightarrow> int option" where
  "row_cmp es k node =
     (if 0 \<le> node \<and> nat node < length es then esif_ccb_stricmp k (buf_ptr (key (es ! nat node))) else None)"

definition DataCache_Search :: "DataCache \<Rightarrow> u8 list \<Rightarrow> nat option option" where
  "DataCache_Search self k =
     (let items = sint (csize self) in
      map_option (\<lambda>r. case r of Inl node \<Rightarrow> Some (nat node) | Inr _ \<Rightarrow> None)
        (bisect (row_cmp (elements self) k) items))"

definition DataCache_FindInsertionPoint :: "DataCache \<Rightarrow> u8 list \<Rightarrow> int option" where
  "DataCache_FindInsertionPoint self k =
     (let items = sint (csize self) in
      map_option (\<lambda>r. case r of Inl node \<Rightarrow> node | Inr node \<Rightarrow> node)
        (bisect (row_cmp (elements self) k) items))"

text \<open>A pointer into the array is the index of the row.\<close>

definition DataCache_GetValue :: "DataCache option \<Rightarrow> u8 list \<Rightarrow> nat option option" where
  "DataCache_GetValue self k = (case self of None \<Rightarrow> Some None | Some c \<Rightarrow> DataCache_Search c k)"

definition CloneCacheData :: "CacheData option \<Rightarrow> allocator \<Rightarrow> (CacheData option \<times> allocator) option" where
  "CloneCacheData dataPtr m =
     (case dataPtr of
        None \<Rightarrow> Some (None, m)
      | Some d \<Rightarrow>
          (case esif_ccb_malloc m of
             (None, m1) \<Rightarrow> Some (None, m1)
           | (Some _, m1) \<Rightarrow>
               if cd_buf_ptr d = None \<or> cd_buf_len d = 0 then Some (Some d, m1)
               else (case esif_ccb_malloc m1 of
                  (None, m2) \<Rightarrow> Some (None, m2)
                | (Some _, m2) \<Rightarrow>
                    (case cd_buf_ptr d of
                       Some (CacheBytes b) \<Rightarrow> do {
                         b' \<leftarrow> copy_bytes (Some (replicate (unat (max (cd_buf_len d) (cd_data_len d))) 0)) (Some b)
                                (unat (cd_data_len d));
                         Some (Some (d\<lparr>cd_buf_ptr := map_option CacheBytes b'\<rparr>), m2) }
                     | _ \<Rightarrow> None))))"

definition esif_ccb_strdup :: "u8 list \<Rightarrow> allocator \<Rightarrow> u8 list option \<times> allocator" where
  "esif_ccb_strdup s m =
     (case esif_ccb_malloc m of (None, m') \<Rightarrow> (None, m') | (Some _, m') \<Rightarrow> (Some (s @ [0]), m'))"

definition DataCache_InsertValue ::
    "DataCache option \<Rightarrow> u8 list \<Rightarrow> CacheData option \<Rightarrow> u32 \<Rightarrow> allocator
     \<Rightarrow> (esif_rc \<times> DataCache option \<times> allocator) option" where
  "DataCache_InsertValue self k valuePtr fl m =
     (case (self, valuePtr) of
        (Some c, Some v) \<Rightarrow> do {
          (valueClonePtr, m1) \<leftarrow> CloneCacheData valuePtr m;
          case valueClonePtr of
            None \<Rightarrow> Some (ESIF_E_NO_MEMORY, self, m1)
          | Some v' \<Rightarrow> do {
              node \<leftarrow> DataCache_FindInsertionPoint c k;
              case esif_ccb_malloc m1 of
                (None, m2) \<Rightarrow> Some (ESIF_E_NO_MEMORY, self, m2)
              | (Some _, m2) \<Rightarrow> do {
                  let es = resize_rows (elements c) (unat (csize c + 1));
                  es1 \<leftarrow> (if node < sint (csize c)
                         then move_rows es (nat (node + 1)) (nat node) (unat (csize c - of_int node)) else Some es);
                  let (s, m3) = esif_ccb_strdup k m2;
                  let keydata = EsifData_Set EsifData_ctor ESIF_DATA_STRING s ESIFAUTOLEN ESIFAUTOLEN;
                  if 0 \<le> node \<and> nat node < length es1
                  then Some (ESIF_OK,
                         Some (c\<lparr>elements := es1[nat node := \<lparr>flags = fl, key = keydata, cvalue = v'\<rparr>],
                                 csize := csize c + 1\<rparr>), m3)
                  else None } } }
      | _ \<Rightarrow> Some (ESIF_E_PARAMETER_IS_NULL, self, m))"

definition DataCache_DeleteValue ::
    "DataCache option \<Rightarrow> u8 list \<Rightarrow> allocator \<Rightarrow> (esif_rc \<times> DataCache option \<times> allocator) option" where
  "DataCache_DeleteValue self k m =
     (case self of
        None \<Rightarrow> Some (ESIF_E_PARAMETER_IS_NULL, self, m)
      | Some c \<Rightarrow> do {
          found \<leftarrow> DataCache_Search c k;
          case found of
            None \<Rightarrow> Some (ESIF_E_NOT_FOUND, self, m)
          | Some node \<Rightarrow> do {
              let es = (elements c)[node := (elements c ! node)\<lparr>key := EsifData_ctor, cvalue := wiped_value\<rparr>];
              es1 \<leftarrow> (if node < unat (csize c - 1)
                     then map_option (\<lambda>xs. xs[unat (csize c - 1) := wiped_entry])
                            (move_rows es node (node + 1) (unat (csize c) - node - 1))
                     else Some es);
              if csize c > 1
              then (case esif_ccb_malloc m of
                      (None, m') \<Rightarrow> Some (ESIF_E_NO_MEMORY, Some (c\<lparr>elements := es1\<rparr>), m')
                    | (Some _, m') \<Rightarrow>
                        Some (ESIF_OK, Some (c\<lparr>elements := resize_rows es1 (unat (csize c - 1)), csize := csize c - 1\<rparr>), m'))
              else Some (ESIF_OK, Some (c\<lparr>elements := [], csize := csize c - 1\<rparr>), m) } })"

definition DataCache_GetCount :: "DataCache option \<Rightarrow> u32" where
  "DataCache_GetCount self = (case self of None \<Rightarrow> 0 | Some c \<Rightarrow> csize c)"

text \<open>The loop of \<^verbatim>\<open>DataCache_CloneOffsets\<close> over the rows of the source cache; it stops at the first failure.\<close>

fun clone_offsets_loop ::
    "DataCacheEntry list \<Rightarrow> DataCache option \<Rightarrow> allocator \<Rightarrow> (esif_rc \<times> DataCache option \<times> allocator) option" where
  "clone_offsets_loop [] clone m = Some (ESIF_OK, clone, m)"
| "clone_offsets_loop (e # es) clone m =
     (if flags e AND ESIF_SERVICE_CONFIG_NOCACHE \<noteq> 0 then do {
        k \<leftarrow> c_string (buf_ptr (key e));
        (rc, clone', m') \<leftarrow> DataCache_InsertValue clone k (Some (cvalue e)) (flags e) m;
        if rc \<noteq> ESIF_OK then Some (rc, clone', m') else clone_offsets_loop es clone' m' }
      else clone_offsets_loop es clone m)"

definition DataCache_CloneOffsets :: "DataCache option \<Rightarrow> allocator \<Rightarrow> (DataCache option \<times> allocator) option" where
  "DataCache_CloneOffsets self m =
     (case self of
        None \<Rightarrow> Some (None, m)
      | Some c \<Rightarrow>
          (case DataCache_Create m of
             (None, m1) \<Rightarrow> Some (None, m1)
           | (Some clone, m1) \<Rightarrow> do {
               (rc, clone', m2) \<leftarrow> clone_offsets_loop (take (unat (csize c)) (elements c)) (Some clone) m1;
               Some (if rc = ESIF_OK then clone' else None, m2) }))"

text \<open>The loop of \<^verbatim>\<open>DataCache_RestoreOffsets\<close>: the value moves from the backup, whose row is wiped.\<close>

fun restore_loop :: "DataCacheEntry list \<Rightarrow> DataCache \<Rightarrow> (DataCacheEntry list \<times> DataCache) option" where
  "restore_loop [] c = Some ([], c)"
| "restore_loop (b # bs) c = do {
     k \<leftarrow> c_string (buf_ptr (key b));
     found \<leftarrow> DataCache_Search c k;
     let (b', c') = (case found of
        None \<Rightarrow> (b, c)
      | Some i \<Rightarrow>
          let e = elements c ! i in
          if flags e AND ESIF_SERVICE_CONFIG_NOCACHE \<noteq> 0 then
            (b\<lparr>cvalue := wiped_value\<rparr>,
             c\<lparr>elements := (elements c)[i := e\<lparr>cvalue := (cvalue e)\<lparr>cd_buf_ptr := cd_buf_ptr (cvalue b),
                 cd_data_len := cd_data_len (cvalue b), cd_buf_len := cd_buf_len (cvalue b)\<rparr>\<rparr>]\<rparr>)
          else (b, c));
     (bs', c'') \<leftarrow> restore_loop bs c';
     Some (b' # bs', c'') }"

definition DataCache_RestoreOffsets ::
    "DataCache option \<Rightarrow> DataCache option \<Rightarrow> (esif_rc \<times> DataCache option \<times> DataCache option) option" where
  "DataCache_RestoreOffsets self clonePtr =
     (case (self, clonePtr) of
        (Some c, Some b) \<Rightarrow> do {
          (bs, c') \<leftarrow> restore_loop (take (unat (csize b)) (elements b)) c;
          Some (ESIF_OK, Some c', Some (b\<lparr>elements := bs\<rparr>)) }
      | _ \<Rightarrow> Some (ESIF_E_PARAMETER_IS_NULL, self, clonePtr))"

section \<open>Order of keys\<close>

abbreviation lower :: "u8 list \<Rightarrow> u8 list" where "lower \<equiv> map c_tolower"

lemma c_tolower_pos: "c \<noteq> 0 \<Longrightarrow> 0 < c_tolower c"
proof -
  assume "c \<noteq> 0"
  moreover have "0 < c + 0x20" if "0x41 \<le> c" "c \<le> 0x5A"
    using that by (simp add: word_le_nat_alt word_less_nat_alt unat_word_ariths)
  ultimately show ?thesis by (auto simp: c_tolower_def word_gt_0)
qed

lemma strcasecmp_order:
  assumes "0 \<notin> set a" "0 \<notin> set b"
  shows "(strcasecmp a b = 0 \<longleftrightarrow> lower a = lower b) \<and> (strcasecmp a b < 0 \<longleftrightarrow> lower a < lower b)"
  using assms
proof (induction a b rule: strcasecmp.induct)
  case (2 y ys)
  then have "0 < c_tolower y" using c_tolower_pos [of y] by simp
  then show ?case by (simp add: word_less_def)
next
  case (3 x xs)
  then have "0 < c_tolower x" using c_tolower_pos [of x] by simp
  then show ?case by (simp add: word_less_def)
next
  case (4 x xs y ys)
  then show ?case by (auto simp: word_less_def word_uint_eq_iff)
qed simp

section \<open>Invariant\<close>

text \<open>
  Every row has a proper key, the rows are in the order of their lower-case keys, and the count is
  the length of the array and fits an int.
\<close>

definition row_key :: "DataCacheEntry \<Rightarrow> u8 list" where
  "row_key e = (case c_string (buf_ptr (key e)) of None \<Rightarrow> [] | Some s \<Rightarrow> lower s)"

definition row_ok :: "DataCacheEntry \<Rightarrow> bool" where
  "row_ok e \<longleftrightarrow> c_string (buf_ptr (key e)) \<noteq> None"

definition dc_ok :: "DataCache \<Rightarrow> bool" where
  "dc_ok c \<longleftrightarrow> length (elements c) < 2 ^ 31 \<and> csize c = of_nat (length (elements c))
     \<and> (\<forall>e\<in>set (elements c). row_ok e) \<and> sorted (map row_key (elements c))"

lemma c_string_nz: "c_string p = Some s \<Longrightarrow> 0 \<notin> set s"
  by (auto simp: c_string_def split: option.splits if_splits dest: set_takeWhileD)

lemma stricmp_row:
  assumes "row_ok e" "0 \<notin> set k"
  shows "\<exists>n. esif_ccb_stricmp k (buf_ptr (key e)) = Some n
    \<and> (n = 0 \<longleftrightarrow> row_key e = lower k) \<and> (n > 0 \<longleftrightarrow> row_key e < lower k)"
proof -
  obtain s where s: "c_string (buf_ptr (key e)) = Some s" using assms(1) by (auto simp: row_ok_def)
  from strcasecmp_order [OF assms(2) c_string_nz [OF s]] show ?thesis
    by (auto simp: esif_ccb_stricmp_def s row_key_def)
qed

lemma sint_of_nat_32: "n < 2 ^ 31 \<Longrightarrow> sint (of_nat n :: u32) = int n"
  by (simp add: sint_uint signed_take_bit_int_eq_self unsigned_of_nat take_bit_nat_eq_self)

lemma dc_ok_size:
  assumes "dc_ok c"
  shows "sint (csize c) = int (length (elements c))" "unat (csize c) = length (elements c)"
    "unat (csize c + 1) = Suc (length (elements c))"
  using assms unat_plus_1 [of "csize c"]
  by (auto simp: dc_ok_def sint_of_nat_32 unat_of_nat_eq_len)

section \<open>The bisection\<close>

lemma row_cmp_at: "i < length es \<Longrightarrow> row_cmp es k (int i) = esif_ccb_stricmp k (buf_ptr (key (es ! i)))"
  by (simp add: row_cmp_def)

lemma rows_sorted_array:
  assumes "dc_ok c" "0 \<notin> set k"
  shows "sorted_array (length (elements c)) (row_cmp (elements c) k)"
proof
  let ?es = "elements c"
  have ok: "row_ok (?es ! i)" if "i < length ?es" for i using assms(1) that by (simp add: dc_ok_def)
  have srt: "row_key (?es ! i) \<le> row_key (?es ! j)" if "i \<le> j" "j < length ?es" for i j
    using assms(1) sorted_nth_mono [of "map row_key ?es" i j] that by (simp add: dc_ok_def)
  have cmp: "\<exists>n. row_cmp ?es k (int i) = Some n \<and> (n > 0 \<longleftrightarrow> row_key (?es ! i) < lower k)
      \<and> (n < 0 \<longleftrightarrow> lower k < row_key (?es ! i))" if il: "i < length ?es" for i
  proof -
    obtain n where "row_cmp ?es k (int i) = Some n" "n = 0 \<longleftrightarrow> row_key (?es ! i) = lower k"
      "n > 0 \<longleftrightarrow> row_key (?es ! i) < lower k"
      using stricmp_row [OF ok [OF il] assms(2)] il by (auto simp: row_cmp_at)
    then show ?thesis using linorder_less_linear [of "lower k" "row_key (?es ! i)"] by (intro exI [of _ n]) auto
  qed
  show "row_cmp ?es k (int i) \<noteq> None" if "i < length ?es" for i using cmp [OF that] by auto
  show "\<exists>d>0. row_cmp ?es k (int i) = Some d"
    if "i \<le> j" "j < length ?es" "row_cmp ?es k (int j) = Some n" "0 < n" for i j n
  proof -
    have "row_key (?es ! j) < lower k" using cmp [OF that(2)] that(3,4) by auto
    then have "row_key (?es ! i) < lower k" using srt [OF that(1,2)] by (meson le_less_trans)
    then show ?thesis using cmp [of i] that(1,2) by auto
  qed
  show "\<exists>d<0. row_cmp ?es k (int j) = Some d"
    if "i \<le> j" "j < length ?es" "row_cmp ?es k (int i) = Some n" "n < 0" for i j n
  proof -
    have "lower k < row_key (?es ! i)" using cmp [of i] that by auto
    then have "lower k < row_key (?es ! j)" using srt [OF that(1,2)] by (meson less_le_trans)
    then show ?thesis using cmp [OF that(2)] by auto
  qed
qed

lemma row_cmp_key:
  assumes "dc_ok c" "0 \<notin> set k" "i < length (elements c)" "row_cmp (elements c) k (int i) = Some n"
  shows "n = 0 \<longleftrightarrow> row_key (elements c ! i) = lower k" "n > 0 \<longleftrightarrow> row_key (elements c ! i) < lower k"
    "n < 0 \<longleftrightarrow> lower k < row_key (elements c ! i)"
proof -
  have "row_ok (elements c ! i)" using assms(1,3) by (simp add: dc_ok_def)
  from stricmp_row [OF this assms(2)] assms(3,4)
  show a: "n = 0 \<longleftrightarrow> row_key (elements c ! i) = lower k" "n > 0 \<longleftrightarrow> row_key (elements c ! i) < lower k"
    by (auto simp: row_cmp_at)
  from this show "n < 0 \<longleftrightarrow> lower k < row_key (elements c ! i)"
    using linorder_less_linear [of "lower k" "row_key (elements c ! i)"] by auto
qed

lemma search_start:
  assumes "dc_ok c" "0 \<notin> set k"
  defines "r \<equiv> bisect (row_cmp (elements c) k) (sint (csize c))"
  shows "(\<exists>n. r = Some (Inl (int n)) \<and> n < length (elements c) \<and> row_key (elements c ! n) = lower k)
    \<or> (\<exists>n. r = Some (Inr (int n)) \<and> n \<le> length (elements c) \<and> (\<forall>i<n. row_key (elements c ! i) < lower k)
        \<and> (\<forall>i<length (elements c). n \<le> i \<longrightarrow> lower k < row_key (elements c ! i)))"
proof -
  note sa = rows_sorted_array [OF assms(1,2)]
  note key = row_cmp_key [OF assms(1,2)]
  have r: "r = bisect (row_cmp (elements c) k) (int (length (elements c)))"
    by (simp add: r_def dc_ok_size(1) [OF assms(1)])
  from sorted_array.bisect_spec [OF sa] show ?thesis unfolding r [symmetric]
  proof (elim disjE exE conjE)
    fix n assume n: "n < length (elements c)" "r = Some (Inl (int n))" "row_cmp (elements c) k (int n) = Some 0"
    have "row_key (elements c ! n) = lower k" using key(1) [OF n(1,3)] by simp
    with n(1,2) show ?thesis by blast
  next
    fix n assume n: "n \<le> length (elements c)" "r = Some (Inr (int n))"
      "\<forall>i<n. sorted_array.larger_key (row_cmp (elements c) k) i"
      "\<forall>i<length (elements c). n \<le> i \<longrightarrow> sorted_array.smaller_key (row_cmp (elements c) k) i"
    have "row_key (elements c ! i) < lower k" if il: "i < n" for i
    proof -
      obtain d where "d > 0" "row_cmp (elements c) k (int i) = Some d"
        using n(3) [rule_format, OF il] by (auto simp: sorted_array.larger_key_def [OF sa])
      with key(2) [of i d] less_le_trans [OF il n(1)] show ?thesis by blast
    qed
    moreover have "lower k < row_key (elements c ! i)" if il: "i < length (elements c)" "n \<le> i" for i
    proof -
      obtain d where "d < 0" "row_cmp (elements c) k (int i) = Some d"
        using n(4) [rule_format, OF il] by (auto simp: sorted_array.smaller_key_def [OF sa])
      with key(3) [of i d] il(1) show ?thesis by blast
    qed
    ultimately show ?thesis using n(1,2) by blast
  qed
qed

lemma search_ok:
  assumes "dc_ok c" "0 \<notin> set k"
  shows "\<exists>r. DataCache_Search c k = Some r
    \<and> (case r of None \<Rightarrow> lower k \<notin> row_key ` set (elements c)
        | Some n \<Rightarrow> n < length (elements c) \<and> row_key (elements c ! n) = lower k)"
  using search_start [OF assms]
proof (elim disjE exE conjE)
  fix n
  assume r: "bisect (row_cmp (elements c) k) (sint (csize c)) = Some (Inr (int n))"
    and b: "\<forall>i<n. row_key (elements c ! i) < lower k"
      "\<forall>i<length (elements c). n \<le> i \<longrightarrow> lower k < row_key (elements c ! i)"
  have "row_key (elements c ! i) \<noteq> lower k" if "i < length (elements c)" for i
    using b that by (cases "i < n") auto
  then have "lower k \<notin> row_key ` set (elements c)"
    by (metis imageE in_set_conv_nth)
  with r show ?thesis by (simp add: DataCache_Search_def)
qed (auto simp: DataCache_Search_def)

lemma insertion_point:
  assumes "dc_ok c" "0 \<notin> set k"
  shows "\<exists>n\<le>length (elements c). DataCache_FindInsertionPoint c k = Some (int n)
    \<and> (\<forall>i<n. row_key (elements c ! i) \<le> lower k)
    \<and> (\<forall>i<length (elements c). n \<le> i \<longrightarrow> lower k \<le> row_key (elements c ! i))"
  using search_start [OF assms]
proof (elim disjE exE conjE)
  fix n
  assume r: "bisect (row_cmp (elements c) k) (sint (csize c)) = Some (Inl (int n))"
    and n: "n < length (elements c)" "row_key (elements c ! n) = lower k"
  have s: "sorted (map row_key (elements c))" using assms(1) by (simp add: dc_ok_def)
  have "row_key (elements c ! i) \<le> row_key (elements c ! j)" if "i \<le> j" "j < length (elements c)" for i j
    using sorted_nth_mono [OF s, of i j] that by simp
  with n have "\<forall>i<n. row_key (elements c ! i) \<le> lower k"
    "\<forall>i<length (elements c). n \<le> i \<longrightarrow> lower k \<le> row_key (elements c ! i)"
    by (metis less_imp_le_nat, metis)
  with r n show ?thesis by (intro exI [of _ n]) (simp add: DataCache_FindInsertionPoint_def)
qed (auto simp: DataCache_FindInsertionPoint_def intro!: exI less_imp_le)

lemma sorted_insert_at:
  assumes "sorted xs" "\<forall>i<n. xs ! i \<le> x" "\<forall>i<length xs. n \<le> i \<longrightarrow> x \<le> xs ! i" "n \<le> length xs"
  shows "sorted (take n xs @ x # drop n xs)"
proof -
  have "\<forall>y\<in>set (take n xs). y \<le> x" using assms(2) by (auto simp: in_set_conv_nth)
  moreover have "\<forall>y\<in>set (drop n xs). x \<le> y" using assms(3) by (auto simp: in_set_conv_nth)
  moreover have "sorted (take n xs)" "sorted (drop n xs)" using assms(1) by (simp_all add: sorted_wrt_take sorted_wrt_drop)
  ultimately show ?thesis by (force simp: sorted_append)
qed

text \<open>What a value must be to be stored, and what its copy in the cache is.\<close>

definition value_ok :: "CacheData \<Rightarrow> bool" where
  "value_ok v \<longleftrightarrow> cd_buf_ptr v = None \<or> cd_buf_len v = 0
     \<or> (\<exists>b. cd_buf_ptr v = Some (CacheBytes b) \<and> unat (cd_data_len v) \<le> length b)"

definition stored_value :: "CacheData \<Rightarrow> CacheData" where
  "stored_value v = (case cd_buf_ptr v of
     Some (CacheBytes b) \<Rightarrow> if cd_buf_len v = 0 then v
       else v\<lparr>cd_buf_ptr := Some (CacheBytes (take (unat (cd_data_len v)) b
              @ replicate (unat (cd_buf_len v) - unat (cd_data_len v)) 0))\<rparr>
   | _ \<Rightarrow> v)"

lemma malloc_ok: "alloc_ok m (next_addr m) \<Longrightarrow> esif_ccb_malloc m = (Some (next_addr m), m\<lparr>next_addr := Suc (next_addr m)\<rparr>)"
  by (simp add: esif_ccb_malloc_def)

lemma clone_value:
  assumes "value_ok v" "\<forall>a. alloc_ok m a"
  shows "\<exists>m'. CloneCacheData (Some v) m = Some (Some (stored_value v), m') \<and> (\<forall>a. alloc_ok m' a)"
proof -
  have "unat (max (cd_buf_len v) (cd_data_len v)) - unat (cd_data_len v) = unat (cd_buf_len v) - unat (cd_data_len v)"
    "unat (cd_data_len v) \<le> unat (max (cd_buf_len v) (cd_data_len v))"
    by (auto simp: max_def word_le_nat_alt)
  then show ?thesis using assms
    by (auto simp: CloneCacheData_def value_ok_def stored_value_def malloc_ok copy_bytes_ok split: option.splits cache_ptr.splits)
qed

lemma resize_grow: "resize_rows es (Suc (length es)) = es @ [wiped_entry]"
  by (simp add: resize_rows_def)

lemma move_insert:
  assumes "n < length es"
  shows "move_rows (es @ [wiped_entry]) (Suc n) n (length es - n) = Some (take n es @ es ! n # drop n es)"
proof -
  have "take (Suc n) es = take n es @ [es ! n]" using assms by (simp add: take_Suc_conv_app_nth)
  with assms show ?thesis by (simp add: move_rows_def)
qed

definition new_row :: "u8 list \<Rightarrow> CacheData \<Rightarrow> u32 \<Rightarrow> DataCacheEntry" where
  "new_row k v fl = \<lparr>flags = fl,
     key = EsifData_Set EsifData_ctor ESIF_DATA_STRING (Some (k @ [0])) ESIFAUTOLEN ESIFAUTOLEN,
     cvalue = stored_value v\<rparr>"

lemma new_row_key:
  assumes "0 \<notin> set k"
  shows "c_string (buf_ptr (key (new_row k v fl))) = Some k" "row_ok (new_row k v fl)" "row_key (new_row k v fl) = lower k"
proof -
  have "takeWhile (\<lambda>x. x \<noteq> 0) (k @ [0]) = k" using assms by (subst takeWhile_append2) auto
  then show "c_string (buf_ptr (key (new_row k v fl))) = Some k"
    by (simp add: new_row_def EsifData_Set_def c_string_def Let_def)
  then show "row_ok (new_row k v fl)" "row_key (new_row k v fl) = lower k" by (simp_all add: row_ok_def row_key_def)
qed

lemma insert_row:
  assumes "dc_ok c" "0 \<notin> set k" "value_ok v" "\<forall>a. alloc_ok m a" "Suc (length (elements c)) < 2 ^ 31"
  shows "\<exists>n m' c'. DataCache_InsertValue (Some c) k (Some v) fl m = Some (ESIF_OK, Some c', m')
    \<and> n \<le> length (elements c) \<and> elements c' = take n (elements c) @ new_row k v fl # drop n (elements c)
    \<and> dc_ok c' \<and> (\<forall>a. alloc_ok m' a) \<and> (\<forall>i<length (elements c). n \<le> i \<longrightarrow> lower k \<le> row_key (elements c ! i))"
proof -
  let ?es = "elements c"
  obtain n where n: "n \<le> length ?es" "DataCache_FindInsertionPoint c k = Some (int n)"
    "\<forall>i<n. row_key (?es ! i) \<le> lower k" "\<forall>i<length ?es. n \<le> i \<longrightarrow> lower k \<le> row_key (?es ! i)"
    using insertion_point [OF assms(1,2)] by blast
  obtain m1 where cl: "CloneCacheData (Some v) m = Some (Some (stored_value v), m1)" "\<forall>a. alloc_ok m1 a"
    using clone_value [OF assms(3,4)] by blast
  have cnt: "unat (csize c - of_int (int n)) = length ?es - n"
    using assms(1,5) n(1) unat_of_nat_eq_len [of "length ?es - n", where 'a = 32]
    by (simp add: dc_ok_def of_nat_diff)
  let ?c' = "c\<lparr>elements := take n ?es @ new_row k v fl # drop n ?es, csize := csize c + 1\<rparr>"
  have "\<exists>m'. DataCache_InsertValue (Some c) k (Some v) fl m = Some (ESIF_OK, Some ?c', m') \<and> (\<forall>a. alloc_ok m' a)"
  proof (cases "n < length ?es")
    case True
    then show ?thesis using cl n(2) move_insert [OF True] cnt
      by (simp add: DataCache_InsertValue_def malloc_ok esif_ccb_strdup_def dc_ok_size [OF assms(1)]
          new_row_def list_update_append Let_def resize_grow nat_add_distrib)
  next
    case False
    then show ?thesis using cl n(1,2)
      by (simp add: DataCache_InsertValue_def malloc_ok esif_ccb_strdup_def dc_ok_size [OF assms(1)]
          new_row_def list_update_append Let_def resize_grow)
  qed
  moreover have "sorted (map row_key (elements ?c'))"
    using sorted_insert_at [of "map row_key ?es" n "lower k"] n assms(1)
    by (simp add: dc_ok_def new_row_key(3) [OF assms(2)] take_map drop_map)
  moreover have "\<forall>e\<in>set (elements ?c'). row_ok e"
    using assms(1) new_row_key(2) [OF assms(2)] by (auto simp: dc_ok_def dest: in_set_takeD in_set_dropD)
  moreover have "length (elements ?c') < 2 ^ 31" "csize ?c' = of_nat (length (elements ?c'))"
    using assms(1,5) n(1) by (simp_all add: dc_ok_def)
  ultimately show ?thesis using n by (intro exI [of _ n]) (auto simp: dc_ok_def)
qed

text \<open>Whatever the allocator does, the cache is as before, or has one row more, whose key may be missing.\<close>

lemma clone_value_any:
  assumes "value_ok v"
  shows "\<exists>r m'. CloneCacheData (Some v) m = Some (r, m') \<and> (r = None \<or> r = Some (stored_value v))"
proof -
  have "unat (max (cd_buf_len v) (cd_data_len v)) - unat (cd_data_len v) = unat (cd_buf_len v) - unat (cd_data_len v)"
    "unat (cd_data_len v) \<le> unat (max (cd_buf_len v) (cd_data_len v))"
    by (auto simp: max_def word_le_nat_alt)
  then show ?thesis using assms
    by (auto simp: CloneCacheData_def value_ok_def stored_value_def esif_ccb_malloc_def copy_bytes_ok split: option.splits cache_ptr.splits)
qed

lemma insert_any:
  assumes "dc_ok c" "0 \<notin> set k" "value_ok v" "Suc (length (elements c)) < 2 ^ 31"
  shows "\<exists>rc c' m'. DataCache_InsertValue (Some c) k (Some v) fl m = Some (rc, Some c', m')
    \<and> (rc = ESIF_E_NO_MEMORY \<and> c' = c
       \<or> rc = ESIF_OK \<and> (\<exists>n e. n \<le> length (elements c) \<and> elements c' = take n (elements c) @ e # drop n (elements c)
            \<and> csize c' = csize c + 1 \<and> flags e = fl \<and> cvalue e = stored_value v
            \<and> (buf_ptr (key e) = None \<or> c_string (buf_ptr (key e)) = Some k)))"
proof -
  let ?es = "elements c"
  obtain n where n: "n \<le> length ?es" "DataCache_FindInsertionPoint c k = Some (int n)"
    using insertion_point [OF assms(1,2)] by blast
  from clone_value_any [OF assms(3), of m] obtain r m1 where
    cl: "CloneCacheData (Some v) m = Some (r, m1)" "r = None \<or> r = Some (stored_value v)" by blast
  consider "r = None" | "r = Some (stored_value v)" "\<not> alloc_ok m1 (next_addr m1)" | "r = Some (stored_value v)" "alloc_ok m1 (next_addr m1)"
    using cl(2) by blast
  then show ?thesis
  proof cases
    case 3
    have cnt: "unat (csize c - of_int (int n)) = length ?es - n"
      using assms(1,4) n(1) unat_of_nat_eq_len [of "length ?es - n", where 'a = 32]
      by (simp add: dc_ok_def of_nat_diff)
    obtain s m3 where s: "esif_ccb_strdup k (m1\<lparr>next_addr := Suc (next_addr m1)\<rparr>) = (s, m3)" by fastforce
    then have s': "s = None \<or> s = Some (k @ [0])" by (auto simp: esif_ccb_strdup_def split: prod.splits option.splits)
    let ?e = "\<lparr>flags = fl, key = EsifData_Set EsifData_ctor ESIF_DATA_STRING s ESIFAUTOLEN ESIFAUTOLEN, cvalue = stored_value v\<rparr>"
    let ?c' = "c\<lparr>elements := take n ?es @ ?e # drop n ?es, csize := csize c + 1\<rparr>"
    have i: "DataCache_InsertValue (Some c) k (Some v) fl m = Some (ESIF_OK, Some ?c', m3)"
    proof (cases "n < length ?es")
      case True
      then show ?thesis using cl n(2) move_insert [OF True] cnt 3 s
        by (simp add: DataCache_InsertValue_def malloc_ok dc_ok_size [OF assms(1)] list_update_append Let_def resize_grow nat_add_distrib)
    next
      case False
      then show ?thesis using cl n(1,2) 3 s
        by (simp add: DataCache_InsertValue_def malloc_ok dc_ok_size [OF assms(1)] list_update_append Let_def resize_grow)
    qed
    have key: "buf_ptr (key ?e) = None \<or> c_string (buf_ptr (key ?e)) = Some k"
      using s' new_row_key(1) [OF assms(2), of v fl] by (auto simp: new_row_def EsifData_Set_def Let_def)
    have "\<exists>n e. n \<le> length ?es \<and> elements ?c' = take n ?es @ e # drop n ?es \<and> csize ?c' = csize c + 1
        \<and> flags e = fl \<and> cvalue e = stored_value v \<and> (buf_ptr (key e) = None \<or> c_string (buf_ptr (key e)) = Some k)"
      by (rule exI [of _ n], rule exI [of _ ?e]) (use n(1) key in simp)
    with i show ?thesis by blast
  qed (use cl n(2) in \<open>simp_all add: DataCache_InsertValue_def esif_ccb_malloc_def\<close>)
qed

text \<open>
  C16. Search of a well-formed cache: the bisection ends, reads only valid keys, and finds a row
  whose key equals the requested one up to case exactly when there is one.
\<close>

theorem data_cache_get_value:
  assumes "dc_ok c" "0 \<notin> set k"
  shows "\<exists>r. DataCache_GetValue (Some c) k = Some r
    \<and> (case r of None \<Rightarrow> \<forall>e\<in>set (elements c). row_key e \<noteq> lower k
        | Some n \<Rightarrow> n < length (elements c) \<and> row_key (elements c ! n) = lower k)"
proof -
  obtain r where r: "DataCache_Search c k = Some r"
    "case r of None \<Rightarrow> lower k \<notin> row_key ` set (elements c)
      | Some n \<Rightarrow> n < length (elements c) \<and> row_key (elements c ! n) = lower k"
    using search_ok [OF assms] by blast
  then show ?thesis by (cases r) (auto simp: DataCache_GetValue_def image_iff)
qed

text \<open>
  C17. An insert into a well-formed cache with room for another row. With memory available it puts one new
  row, with a copy of the key, the flags and a copy of the value, between the rows it has to stand between:
  every other row keeps its contents and its order, the cache stays well formed, and when the key was not
  there yet the next lookup of it finds the new row. Whatever the allocator does, either the status is
  \<^verbatim>\<open>ESIF_E_NO_MEMORY\<close> and the cache is unchanged, or the status is \<^verbatim>\<open>ESIF_OK\<close> and there is one new row, whose
  key is then the copy or, as the result of \<^verbatim>\<open>esif_ccb_strdup\<close> is not tested, \<^verbatim>\<open>NULL\<close>.
\<close>

theorem data_cache_insert:
  assumes "dc_ok c" "0 \<notin> set k" "value_ok v" "Suc (length (elements c)) < 2 ^ 31"
  shows "((\<forall>a. alloc_ok m a) \<longrightarrow>
      (\<exists>n c' m' e. DataCache_InsertValue (Some c) k (Some v) fl m = Some (ESIF_OK, Some c', m')
        \<and> elements c' = take n (elements c) @ e # drop n (elements c) \<and> n \<le> length (elements c) \<and> dc_ok c'
        \<and> c_string (buf_ptr (key e)) = Some k \<and> flags e = fl \<and> cvalue e = stored_value v
        \<and> (lower k \<notin> row_key ` set (elements c) \<longrightarrow> DataCache_GetValue (Some c') k = Some (Some n))))
    \<and> (\<exists>rc c' m'. DataCache_InsertValue (Some c) k (Some v) fl m = Some (rc, Some c', m')
        \<and> (rc = ESIF_E_NO_MEMORY \<and> c' = c
           \<or> rc = ESIF_OK \<and> (\<exists>n e. n \<le> length (elements c) \<and> elements c' = take n (elements c) @ e # drop n (elements c)
                \<and> csize c' = csize c + 1 \<and> flags e = fl \<and> cvalue e = stored_value v
                \<and> (buf_ptr (key e) = None \<or> c_string (buf_ptr (key e)) = Some k))))"
proof (rule conjI [OF impI insert_any [OF assms]])
  assume mem: "\<forall>a. alloc_ok m a"
  show "\<exists>n c' m' e. DataCache_InsertValue (Some c) k (Some v) fl m = Some (ESIF_OK, Some c', m')
        \<and> elements c' = take n (elements c) @ e # drop n (elements c) \<and> n \<le> length (elements c) \<and> dc_ok c'
        \<and> c_string (buf_ptr (key e)) = Some k \<and> flags e = fl \<and> cvalue e = stored_value v
        \<and> (lower k \<notin> row_key ` set (elements c) \<longrightarrow> DataCache_GetValue (Some c') k = Some (Some n))"
  proof -
  obtain n c' m' where i: "DataCache_InsertValue (Some c) k (Some v) fl m = Some (ESIF_OK, Some c', m')"
    "n \<le> length (elements c)" "elements c' = take n (elements c) @ new_row k v fl # drop n (elements c)" "dc_ok c'"
    using insert_row [OF assms(1-3) mem assms(4), of fl] by blast
  have "DataCache_GetValue (Some c') k = Some (Some n)" if fresh: "lower k \<notin> row_key ` set (elements c)"
  proof -
    have at: "elements c' ! n = new_row k v fl" using i(2,3) by (simp add: nth_append)
    have "n < length (elements c')" using i(2,3) by simp
    with at have "lower k \<in> row_key ` set (elements c')"
      by (metis image_eqI new_row_key(3) [OF assms(2)] nth_mem)
    then obtain j where j: "DataCache_Search c' k = Some (Some j)" "j < length (elements c')" "row_key (elements c' ! j) = lower k"
      using search_ok [OF i(4) assms(2)] by (auto split: option.splits)
    have "j = n"
    proof (rule ccontr)
      assume "j \<noteq> n"
      with j(2) i(2,3) have "elements c' ! j \<in> set (elements c)"
        by (cases "j < n") (auto simp: nth_append nth_Cons' less_diff_conv min_def)
      with j(3) fresh show False by (metis image_eqI)
    qed
    with j(1) show ?thesis by (simp add: DataCache_GetValue_def)
  qed
  moreover have "flags (new_row k v fl) = fl" "cvalue (new_row k v fl) = stored_value v" by (simp_all add: new_row_def)
  ultimately show ?thesis using i new_row_key(1) [OF assms(2)] by blast
  qed
qed

text \<open>The array after the row at \<open>n\<close> was wiped and the rows behind it moved up.\<close>

lemma delete_rows:
  fixes es n defines "wiped \<equiv> es[n := (es ! n)\<lparr>key := EsifData_ctor, cvalue := wiped_value\<rparr>]"
  assumes "n < length es"
  obtains es1 where "(if n < length es - 1
      then map_option (\<lambda>xs. xs[length es - 1 := wiped_entry]) (move_rows wiped n (n + 1) (length es - n - 1))
      else Some wiped) = Some es1"
    "length es1 = length es" "take (length es - 1) es1 = take n es @ drop (Suc n) es" "buf_ptr (key (last es1)) = None"
proof (cases "n < length es - 1")
  case True
  have last: "drop (length es - 1) wiped = [es ! (length es - 1)]"
    using True Cons_nth_drop_Suc [of "length es - 1" wiped] by (simp add: wiped_def)
  have "move_rows wiped n (n + 1) (length es - n - 1) = Some (take n es @ drop (Suc n) es @ [es ! (length es - 1)])"
    using True last by (simp add: move_rows_def wiped_def)
  moreover have "(take n es @ drop (Suc n) es @ [es ! (length es - 1)])[length es - 1 := wiped_entry]
      = take n es @ drop (Suc n) es @ [wiped_entry]"
    using True by (simp add: list_update_append)
  ultimately show ?thesis using True
    by (intro that [of "take n es @ drop (Suc n) es @ [wiped_entry]"])
      (simp_all add: wiped_entry_def EsifData_ctor_def)
next
  case False
  then have "n = length es - 1" using assms by simp
  moreover have "last wiped = (es ! n)\<lparr>key := EsifData_ctor, cvalue := wiped_value\<rparr>"
    using assms(2) calculation last_conv_nth [of wiped] by (cases es rule: rev_cases) (auto simp: wiped_def)
  ultimately show ?thesis using assms(2) False
    by (intro that [of wiped]) (simp_all add: wiped_def EsifData_ctor_def)
qed

lemma delete_ok:
  assumes "dc_ok c" "n < length (elements c)"
  shows "dc_ok (c\<lparr>elements := take n (elements c) @ drop (Suc n) (elements c), csize := csize c - 1\<rparr>)"
proof -
  let ?es = "elements c"
  have "?es = take n ?es @ ?es ! n # drop (Suc n) ?es" using assms(2) by (rule id_take_nth_drop)
  moreover have "sorted (map row_key (xs @ y # ys)) \<Longrightarrow> sorted (map row_key (xs @ ys))" for xs y ys
    by (auto simp: sorted_append)
  ultimately have "sorted (map row_key (take n ?es @ drop (Suc n) ?es))"
    using assms(1) by (metis dc_ok_def)
  moreover have "csize c - 1 = of_nat (length ?es - 1)" using assms by (simp add: dc_ok_def of_nat_diff)
  ultimately show ?thesis using assms by (auto simp: dc_ok_def dest: in_set_takeD in_set_dropD)
qed

text \<open>
  Delete takes out exactly one row with the requested key and keeps the order of the others,
  or reports \<^verbatim>\<open>ESIF_E_NOT_FOUND\<close> and changes nothing. When the allocator refuses to shrink the array,
  the row is gone but the count still includes it: the last row is left without a key.
\<close>

theorem data_cache_delete:
  assumes "dc_ok c" "0 \<notin> set k"
  shows "\<exists>rc c' m'. DataCache_DeleteValue (Some c) k m = Some (rc, Some c', m')
    \<and> (if lower k \<notin> row_key ` set (elements c) then rc = ESIF_E_NOT_FOUND \<and> c' = c
       else \<exists>n<length (elements c). row_key (elements c ! n) = lower k \<and>
         (if length (elements c) = 1 \<or> alloc_ok m (next_addr m)
          then rc = ESIF_OK \<and> dc_ok c' \<and> elements c' = take n (elements c) @ drop (Suc n) (elements c)
          else rc = ESIF_E_NO_MEMORY \<and> csize c' = csize c \<and> buf_ptr (key (last (elements c'))) = None))"
proof -
  let ?es = "elements c"
  obtain r where r: "DataCache_Search c k = Some r"
    "case r of None \<Rightarrow> lower k \<notin> row_key ` set ?es | Some n \<Rightarrow> n < length ?es \<and> row_key (?es ! n) = lower k"
    using search_ok [OF assms] by blast
  show ?thesis
  proof (cases r)
    case None
    with r show ?thesis by (simp add: DataCache_DeleteValue_def)
  next
    case (Some n)
    with r have n: "n < length ?es" "row_key (?es ! n) = lower k" by auto
    then have mem: "lower k \<in> row_key ` set ?es" by (metis image_eqI nth_mem)
    have len: "unat (csize c - 1) = length ?es - 1"
      using n(1) dc_ok_size(2) [OF assms(1)] unat_minus_1 [of "csize c"] by (metis length_greater_0_conv list.size(3) not_less_zero unat_0)
    have gt: "csize c > 1 \<longleftrightarrow> length ?es > 1"
      using dc_ok_size(2) [OF assms(1)] by (simp add: word_less_nat_alt)
    obtain es1 where es1: "(if n < length ?es - 1
        then map_option (\<lambda>xs. xs[length ?es - 1 := wiped_entry])
          (move_rows (?es[n := (?es ! n)\<lparr>key := EsifData_ctor, cvalue := wiped_value\<rparr>]) n (n + 1) (length ?es - n - 1))
        else Some (?es[n := (?es ! n)\<lparr>key := EsifData_ctor, cvalue := wiped_value\<rparr>])) = Some es1"
      "length es1 = length ?es" "take (length ?es - 1) es1 = take n ?es @ drop (Suc n) ?es" "buf_ptr (key (last es1)) = None"
      using delete_rows [OF n(1)] by blast
    have step: "DataCache_DeleteValue (Some c) k m =
        (if length ?es > 1 then (case esif_ccb_malloc m of
            (None, m') \<Rightarrow> Some (ESIF_E_NO_MEMORY, Some (c\<lparr>elements := es1\<rparr>), m')
          | (Some _, m') \<Rightarrow> Some (ESIF_OK, Some (c\<lparr>elements := resize_rows es1 (length ?es - 1), csize := csize c - 1\<rparr>), m'))
         else Some (ESIF_OK, Some (c\<lparr>elements := [], csize := csize c - 1\<rparr>), m))"
      by (simp only: DataCache_DeleteValue_def r(1) Some len gt dc_ok_size(2) [OF assms(1)] Let_def
          option.case bind.bind_lunit es1(1))
    have res: "resize_rows es1 (length ?es - 1) = take n ?es @ drop (Suc n) ?es"
      using es1(2,3) by (simp add: resize_rows_def)
    have one: "take n ?es @ drop (Suc n) ?es = []" if "\<not> length ?es > 1" using n(1) that by simp
    note ok = delete_ok [OF assms(1) n(1)]
    consider "\<not> length ?es > 1" | "length ?es > 1" "alloc_ok m (next_addr m)" | "length ?es > 1" "\<not> alloc_ok m (next_addr m)" by blast
    then show ?thesis
    proof cases
      case 1
      then have d: "DataCache_DeleteValue (Some c) k m =
          Some (ESIF_OK, Some (c\<lparr>elements := take n ?es @ drop (Suc n) ?es, csize := csize c - 1\<rparr>), m)"
        "length ?es = 1" using step one n(1) by simp_all
      show ?thesis by (intro exI conjI, rule d(1)) (use n mem ok d(2) in auto)
    next
      case 2
      with n mem ok step res show ?thesis by (simp add: esif_ccb_malloc_def) blast
    next
      case 3
      with n mem step es1(4) show ?thesis by (simp add: esif_ccb_malloc_def) blast
    qed
  qed
qed

section \<open>Backup and restore of uncached rows\<close>

definition nocache :: "DataCacheEntry \<Rightarrow> bool" where
  "nocache e \<longleftrightarrow> flags e AND ESIF_SERVICE_CONFIG_NOCACHE \<noteq> 0"

definition copy_row :: "DataCacheEntry \<Rightarrow> DataCacheEntry" where
  "copy_row e = new_row (the (c_string (buf_ptr (key e)))) (cvalue e) (flags e)"

definition restored :: "DataCacheEntry \<Rightarrow> DataCacheEntry \<Rightarrow> DataCacheEntry" where
  "restored e e' = (if nocache e
     then e'\<lparr>cvalue := (stored_value (cvalue e))\<lparr>cd_type := cd_type (cvalue e')\<rparr>\<rparr> else e')"

lemma value_merge:
  "v\<lparr>cd_buf_ptr := cd_buf_ptr w, cd_data_len := cd_data_len w, cd_buf_len := cd_buf_len w\<rparr>
   = (w :: CacheData)\<lparr>cd_type := cd_type v\<rparr>"
  by (cases v, cases w) simp

lemma row_okD: "row_ok e \<Longrightarrow> \<exists>k. c_string (buf_ptr (key e)) = Some k \<and> 0 \<notin> set k \<and> row_key e = lower k"
  by (auto simp: row_ok_def row_key_def dest: c_string_nz)

lemma clone_offsets_spec:
  assumes "dc_ok b" "\<forall>e\<in>set es. row_ok e \<and> value_ok (cvalue e)" "sorted_wrt (<) (map row_key es)"
    "\<forall>x\<in>set (elements b). \<forall>e\<in>set es. row_key x < row_key e" "\<forall>a. alloc_ok m a"
    "length (elements b) + length es < 2 ^ 31"
  shows "\<exists>b' m'. clone_offsets_loop es (Some b) m = Some (ESIF_OK, Some b', m')
    \<and> elements b' = elements b @ map copy_row (filter nocache es) \<and> dc_ok b'"
  using assms
proof (induction es arbitrary: b m)
  case (Cons e es)
  show ?case
  proof (cases "nocache e")
    case False
    from Cons.IH [OF Cons.prems(1)] Cons.prems False show ?thesis by (simp add: nocache_def)
  next
    case True
    obtain k where k: "c_string (buf_ptr (key e)) = Some k" "0 \<notin> set k" "row_key e = lower k"
      using row_okD Cons.prems(2) by (metis list.set_intros(1))
    have "Suc (length (elements b)) < 2 ^ 31" "value_ok (cvalue e)" using Cons.prems by simp_all
    then obtain n m1 b1 where i: "DataCache_InsertValue (Some b) k (Some (cvalue e)) (flags e) m = Some (ESIF_OK, Some b1, m1)"
      "n \<le> length (elements b)" "elements b1 = take n (elements b) @ new_row k (cvalue e) (flags e) # drop n (elements b)"
      "dc_ok b1" "\<forall>a. alloc_ok m1 a" "\<forall>i<length (elements b). n \<le> i \<longrightarrow> lower k \<le> row_key (elements b ! i)"
      using insert_row [OF Cons.prems(1) k(2) _ Cons.prems(5)] by blast
    have "n = length (elements b)"
    proof (rule ccontr)
      assume "n \<noteq> length (elements b)"
      with i(2,6) have "n < length (elements b)" "lower k \<le> row_key (elements b ! n)" by auto
      moreover have "row_key (elements b ! n) < lower k"
        using Cons.prems(4) k(3) calculation(1) nth_mem by (metis list.set_intros(1))
      ultimately show False by (metis not_le)
    qed
    with i(3) k(1) have el: "elements b1 = elements b @ [copy_row e]" by (simp add: copy_row_def)
    have rk: "row_key (copy_row e) = row_key e" using k by (simp add: copy_row_def new_row_key)
    have "\<exists>b' m'. clone_offsets_loop es (Some b1) m1 = Some (ESIF_OK, Some b', m')
        \<and> elements b' = elements b1 @ map copy_row (filter nocache es) \<and> dc_ok b'"
      using Cons.prems el rk by (intro Cons.IH [OF i(4) _ _ _ i(5)]) auto
    moreover have "flags e AND ESIF_SERVICE_CONFIG_NOCACHE \<noteq> 0" using True by (simp add: nocache_def)
    ultimately show ?thesis using True k(1) i(1) el by simp
  qed
qed simp

lemma strict_search:
  assumes "dc_ok c" "sorted_wrt (<) (map row_key (elements c))" "0 \<notin> set k"
    "i < length (elements c)" "row_key (elements c ! i) = lower k"
  shows "DataCache_Search c k = Some (Some i)"
proof -
  have "lower k \<in> row_key ` set (elements c)" using assms(4,5) by (metis image_eqI nth_mem)
  then obtain j where j: "DataCache_Search c k = Some (Some j)" "j < length (elements c)" "row_key (elements c ! j) = lower k"
    using search_ok [OF assms(1,3)] by (auto split: option.splits)
  have "distinct (map row_key (elements c))" using assms(2) strict_sorted_iff by blast
  with j(2,3) assms(4,5) have "i = j" by (simp add: distinct_conv_nth) metis
  with j(1) show ?thesis by simp
qed

lemma dc_ok_same_keys:
  assumes "dc_ok c" "map row_key es = map row_key (elements c)" "\<forall>e\<in>set es. row_ok e"
  shows "dc_ok (c\<lparr>elements := es\<rparr>)"
  using assms map_eq_imp_length_eq [OF assms(2)] by (simp add: dc_ok_def)

lemma restore_loop_spec:
  assumes "list_all2 (\<lambda>e e'. row_key e' = row_key e \<and> flags e' = flags e) suf suf'" "\<forall>e\<in>set suf. row_ok e"
    "dc_ok c" "elements c = pre @ suf'" "sorted_wrt (<) (map row_key (elements c))"
  shows "\<exists>bs c'. restore_loop (map copy_row (filter nocache suf)) c = Some (bs, c')
    \<and> elements c' = pre @ map2 restored suf suf' \<and> csize c' = csize c"
  using assms
proof (induction suf suf' arbitrary: c pre rule: list_all2_induct)
  case (Cons e suf e' suf')
  obtain k where k: "c_string (buf_ptr (key e)) = Some k" "0 \<notin> set k" "row_key e = lower k"
    using row_okD Cons.prems(1) by (metis list.set_intros(1))
  let ?c = "c\<lparr>elements := (elements c)[length pre := restored e e']\<rparr>"
  have eq: "elements ?c = (pre @ [restored e e']) @ suf'" using Cons.prems(3) by (simp add: list_update_append)
  have rk: "row_key (restored e e') = row_key e'" "row_ok (restored e e') = row_ok e'"
    by (simp_all add: restored_def row_key_def row_ok_def)
  have keys: "map row_key (elements ?c) = map row_key (elements c)" using Cons.prems(3) eq rk by simp
  have "\<forall>x\<in>set (elements ?c). row_ok x"
    unfolding eq using Cons.prems(2,3) rk by (auto simp: dc_ok_def)
  with dc_ok_same_keys [OF Cons.prems(2) keys] have "dc_ok ?c" by simp
  with Cons.IH [of ?c "pre @ [restored e e']"] eq keys Cons.prems obtain bs c' where
    r: "restore_loop (map copy_row (filter nocache suf)) ?c = Some (bs, c')"
      "elements c' = (pre @ [restored e e']) @ map2 restored suf suf'" "csize c' = csize c" by auto
  show ?case
  proof (cases "nocache e")
    case False
    then have "?c = c" using Cons.prems(3) by (simp add: restored_def)
    with r False show ?thesis by simp
  next
    case True
    have s: "DataCache_Search c k = Some (Some (length pre))"
      using Cons.hyps(1) Cons.prems k by (intro strict_search) auto
    have "(elements c)[length pre := e'\<lparr>cvalue := (cvalue e')\<lparr>cd_buf_ptr := cd_buf_ptr (cvalue (copy_row e)),
        cd_data_len := cd_data_len (cvalue (copy_row e)), cd_buf_len := cd_buf_len (cvalue (copy_row e))\<rparr>\<rparr>]
        = elements ?c"
      using True by (simp add: restored_def copy_row_def new_row_def value_merge)
    moreover have "c_string (buf_ptr (key (copy_row e))) = Some k" using k by (simp add: copy_row_def new_row_key)
    moreover have "flags e' AND ESIF_SERVICE_CONFIG_NOCACHE \<noteq> 0" using True Cons.hyps(1) by (simp add: nocache_def)
    ultimately show ?thesis using True s r Cons.prems(3) by (simp add: Let_def)
  qed
qed simp

text \<open>
  C18. Backup and restore: for a cache with distinct keys the backup holds a copy of every
  row that is not cached in memory, in order; restoring it into any later state of the cache with the
  same keys and flags gives each of these rows the length and the pointer it had
  and leaves every other row alone.
\<close>

theorem data_cache_backup:
  assumes "dc_ok c" "\<forall>e\<in>set (elements c). value_ok (cvalue e)" "\<forall>a. alloc_ok m a"
    "dc_ok c'" "list_all2 (\<lambda>e e'. row_key e' = row_key e \<and> flags e' = flags e) (elements c) (elements c')"
    "sorted_wrt (<) (map row_key (elements c))"
  shows "\<exists>clone m' clone' c''. DataCache_CloneOffsets (Some c) m = Some (Some clone, m')
    \<and> elements clone = map copy_row (filter nocache (elements c))
    \<and> DataCache_RestoreOffsets (Some c') (Some clone) = Some (ESIF_OK, Some c'', Some clone')
    \<and> elements c'' = map2 restored (elements c) (elements c') \<and> csize c'' = csize c'"
proof -
  let ?m1 = "m\<lparr>next_addr := Suc (next_addr m)\<rparr>"
  have rows: "\<forall>e\<in>set (elements c). row_ok e" "length (elements c) < 2 ^ 31" using assms(1) by (simp_all add: dc_ok_def)
  have "dc_ok \<lparr>csize = 0, elements = []\<rparr>" by (simp add: dc_ok_def)
  then obtain b m2 where b: "clone_offsets_loop (elements c) (Some \<lparr>csize = 0, elements = []\<rparr>) ?m1 = Some (ESIF_OK, Some b, m2)"
    "elements b = map copy_row (filter nocache (elements c))" "dc_ok b"
    using clone_offsets_spec [of "\<lparr>csize = 0, elements = []\<rparr>" "elements c" ?m1] assms(2,3,6) rows by auto
  then have cl: "DataCache_CloneOffsets (Some c) m = Some (Some b, m2)"
    using assms(3) by (simp add: DataCache_CloneOffsets_def DataCache_Create_def malloc_ok dc_ok_size [OF assms(1)])
  have "map row_key (elements c') = map row_key (elements c)"
    using assms(5) by (induction rule: list_all2_induct) simp_all
  then obtain bs c'' where "restore_loop (map copy_row (filter nocache (elements c))) c' = Some (bs, c'')"
    "elements c'' = map2 restored (elements c) (elements c')" "csize c'' = csize c'"
    using restore_loop_spec [OF assms(5) rows(1) assms(4), of "[]"] assms(6) by auto
  then have "DataCache_RestoreOffsets (Some c') (Some b) = Some (ESIF_OK, Some c'', Some (b\<lparr>elements := bs\<rparr>))"
    "elements c'' = map2 restored (elements c) (elements c')" "csize c'' = csize c'"
    using b dc_ok_size(2) [OF b(3)] by (simp_all add: DataCache_RestoreOffsets_def)
  with cl b(2) show ?thesis by blast
qed

section \<open>Concrete caches\<close>

text \<open>Two rows, \<^verbatim>\<open>"a"\<close> with bytes in memory and \<^verbatim>\<open>"C"\<close> whose value is at file offset 64.\<close>

definition demo_cache :: DataCache where
  "demo_cache = \<lparr>csize = 2, elements =
     [new_row [0x61] \<lparr>cd_type = 8, cd_buf_ptr = Some (CacheBytes [1, 2]), cd_buf_len = 2, cd_data_len = 2\<rparr> 0,
      new_row [0x43] \<lparr>cd_type = 8, cd_buf_ptr = Some (CacheOffset 64), cd_buf_len = 0, cd_data_len = 5\<rparr> 8]\<rparr>"

lemma demo_ok: "dc_ok demo_cache" "sorted_wrt (<) (map row_key (elements demo_cache))"
  by (simp_all add: dc_ok_def demo_cache_def new_row_key c_tolower_def)

lemma demo_values: "\<forall>e\<in>set (elements demo_cache). value_ok (cvalue e)"
  by (simp add: demo_cache_def new_row_def stored_value_def value_ok_def)

theorem data_cache_get_value_witness: "\<exists>n. DataCache_GetValue (Some demo_cache) [0x63] = Some (Some n)"
proof -
  have "row_key (elements demo_cache ! 1) = lower [0x63]" "elements demo_cache ! 1 \<in> set (elements demo_cache)"
    by (simp_all add: demo_cache_def new_row_key c_tolower_def)
  with data_cache_get_value [OF demo_ok(1), of "[0x63]"] show ?thesis by (auto split: option.splits)
qed

theorem data_cache_insert_witness:
  "\<exists>c' m'. DataCache_InsertValue (Some demo_cache) [0x42] (Some wiped_value) 0 roomy = Some (ESIF_OK, Some c', m')
    \<and> length (elements c') = 3"
proof -
  have "0 \<notin> set [0x42::u8]" "value_ok wiped_value" "Suc (length (elements demo_cache)) < 2 ^ 31" "\<forall>a. alloc_ok roomy a"
    by (simp_all add: value_ok_def wiped_value_def roomy_def demo_cache_def)
  with data_cache_insert [OF demo_ok(1) this(1-3), of roomy 0] obtain n c' m' e where
    "DataCache_InsertValue (Some demo_cache) [0x42] (Some wiped_value) 0 roomy = Some (ESIF_OK, Some c', m')"
    "elements c' = take n (elements demo_cache) @ e # drop n (elements demo_cache)" "n \<le> length (elements demo_cache)" by blast
  then show ?thesis by (simp add: demo_cache_def)
qed

theorem data_cache_delete_witness:
  "\<exists>rc c' m'. DataCache_DeleteValue (Some demo_cache) [0x41] roomy = Some (rc, Some c', m') \<and> rc = ESIF_OK
    \<and> length (elements c') = 1"
proof -
  have "lower [0x41] \<in> row_key ` set (elements demo_cache)"
    by (simp add: demo_cache_def new_row_key c_tolower_def)
  with data_cache_delete [OF demo_ok(1), of "[0x41]" roomy] show ?thesis
    by (auto simp: roomy_def demo_cache_def)
qed

theorem data_cache_backup_witness:
  "\<exists>clone m' clone' c''. DataCache_CloneOffsets (Some demo_cache) roomy = Some (Some clone, m')
    \<and> length (elements clone) = 1
    \<and> DataCache_RestoreOffsets (Some demo_cache) (Some clone) = Some (ESIF_OK, Some c'', Some clone')"
proof -
  have "list_all2 (\<lambda>e e'. row_key e' = row_key e \<and> flags e' = flags e) (elements demo_cache) (elements demo_cache)"
    by (simp add: list_all2_same)
  moreover have "length (filter nocache (elements demo_cache)) = 1"
    by (simp add: demo_cache_def nocache_def new_row_def)
  moreover have "\<forall>a. alloc_ok roomy a" by (simp add: roomy_def)
  ultimately show ?thesis
    using data_cache_backup [OF demo_ok(1) demo_values _ demo_ok(1) _ demo_ok(2), of roomy] by fastforce
qed

end
