(* ===== verification/Xform.thy ===== *)
theory Xform
  imports Esif_Data "HOL-Library.Signed_Division"
begin

text \<open>
  Unit conversion between a device and the policies: \<^verbatim>\<open>esif_temp.h\<close>, \<^verbatim>\<open>esif_power.h\<close>,
  \<^verbatim>\<open>esif_time.h\<close> and \<^verbatim>\<open>esif_percent.h\<close> of \<^verbatim>\<open>src/ESIF/Products/ESIF_CM/Sources\<close> and the transforms of
  \<^verbatim>\<open>src/ESIF/Products/ESIF_UF/Sources/esif_uf_xform.c\<close> that call them. All values are 32-bit words. A temperature may be
  negative (in Celsius) and then is kept in two's complement; the code relies on the wrap-around.
  A signed addition that overflows is undefined in C and is \<open>None\<close> here.
\<close>

section \<open>Units\<close>

datatype esif_temperature_type = ESIF_TEMP_K | ESIF_TEMP_DECIK | ESIF_TEMP_CENTIK | ESIF_TEMP_MILLIK
  | ESIF_TEMP_C | ESIF_TEMP_DECIC | ESIF_TEMP_CENTIC | ESIF_TEMP_MILLIC | ESIF_TEMP_THERMISTOR

datatype esif_power_unit_type = ESIF_POWER_W | ESIF_POWER_DECIW | ESIF_POWER_CENTIW | ESIF_POWER_MILLIW
  | ESIF_POWER_MICROW

datatype esif_time_type = ESIF_TIME_S | ESIF_TIME_DECIS | ESIF_TIME_CENTIS | ESIF_TIME_MILLIS | ESIF_TIME_MICROS

datatype esif_percent_type = ESIF_PERCENT | ESIF_PERCENT_DECI | ESIF_PERCENT_CENTI | ESIF_PERCENT_MILLI
  | ESIF_PERCENT_BYTE

datatype esif_primitive_opcode = ESIF_PRIMITIVE_OP_GET | ESIF_PRIMITIVE_OP_SET

section \<open>Temperature\<close>

abbreviation (input) DPTF_KELVIN_BASE :: u32 where "DPTF_KELVIN_BASE \<equiv> 2732"

definition esif_temp_mc2c :: "esif_temperature_type \<Rightarrow> u32 \<Rightarrow> u32" where
  "esif_temp_mc2c out val =
     (case out of
        ESIF_TEMP_C \<Rightarrow> (val + 500) div 1000
      | ESIF_TEMP_DECIC \<Rightarrow> (val + 50) div 100
      | ESIF_TEMP_CENTIC \<Rightarrow> (val + 5) div 10
      | _ \<Rightarrow> val)"

text \<open>\<open>(v + half) / unit\<close> of an int for \<open>v \<ge> 0\<close>, \<open>(v - half) / unit\<close> below, rounding towards zero.\<close>

definition s32_round :: "int \<Rightarrow> int \<Rightarrow> int \<Rightarrow> u32 option" where
  "s32_round v half unit =
     (let r = (if v \<ge> 0 then v + half else v - half) in
      if - (2 ^ 31) \<le> r \<and> r < 2 ^ 31 then Some (word_of_int (r sdiv unit)) else None)"

definition esif_temp_mk2c :: "esif_temperature_type \<Rightarrow> u32 \<Rightarrow> u32 option" where
  "esif_temp_mk2c out val =
     (let signedVal = sint (val - DPTF_KELVIN_BASE * 100) in
      case out of
        ESIF_TEMP_C \<Rightarrow> s32_round signedVal 500 1000
      | ESIF_TEMP_DECIC \<Rightarrow> s32_round signedVal 50 100
      | ESIF_TEMP_CENTIC \<Rightarrow> s32_round signedVal 5 10
      | ESIF_TEMP_MILLIC \<Rightarrow> Some (word_of_int signedVal)
      | _ \<Rightarrow> Some val)"

definition esif_temp_mc2k :: "esif_temperature_type \<Rightarrow> u32 \<Rightarrow> u32" where
  "esif_temp_mc2k out val =
     (case out of
        ESIF_TEMP_K \<Rightarrow> (val + DPTF_KELVIN_BASE * 100 + 500) div 1000
      | ESIF_TEMP_DECIK \<Rightarrow> (val + DPTF_KELVIN_BASE * 100 + 50) div 100
      | ESIF_TEMP_CENTIK \<Rightarrow> (val + DPTF_KELVIN_BASE * 100 + 5) div 10
      | ESIF_TEMP_MILLIK \<Rightarrow> val + DPTF_KELVIN_BASE * 100
      | _ \<Rightarrow> val)"

definition esif_temp_mk2k :: "esif_temperature_type \<Rightarrow> u32 \<Rightarrow> u32" where
  "esif_temp_mk2k out val =
     (case out of
        ESIF_TEMP_K \<Rightarrow> (val + 500) div 1000
      | ESIF_TEMP_DECIK \<Rightarrow> (val + 50) div 100
      | ESIF_TEMP_CENTIK \<Rightarrow> (val + 5) div 10
      | _ \<Rightarrow> val)"

definition is_kelvin :: "esif_temperature_type \<Rightarrow> bool" where
  "is_kelvin t = (t \<in> {ESIF_TEMP_K, ESIF_TEMP_DECIK, ESIF_TEMP_CENTIK, ESIF_TEMP_MILLIK})"

text \<open>A pointer argument is the value it points to, \<open>None\<close> for \<^verbatim>\<open>NULL\<close>; the result has the value afterwards.\<close>

definition esif_convert_temp ::
    "esif_temperature_type \<Rightarrow> esif_temperature_type \<Rightarrow> u32 option \<Rightarrow> (esif_rc \<times> u32 option) option" where
  "esif_convert_temp inp out temp_ptr =
     (case temp_ptr of
        None \<Rightarrow> Some (ESIF_E_PARAMETER_IS_NULL, None)
      | Some t \<Rightarrow>
          if inp = out then Some (ESIF_OK, temp_ptr)
          else if inp = ESIF_TEMP_THERMISTOR \<or> out = ESIF_TEMP_THERMISTOR
          then Some (ESIF_E_UNSUPPORTED_REQUEST_TEMP_TYPE, temp_ptr)
          else do {
            let val = (case inp of
                ESIF_TEMP_C \<Rightarrow> t * 1000 | ESIF_TEMP_K \<Rightarrow> t * 1000
              | ESIF_TEMP_DECIC \<Rightarrow> t * 100 | ESIF_TEMP_DECIK \<Rightarrow> t * 100
              | ESIF_TEMP_CENTIC \<Rightarrow> t * 10 | ESIF_TEMP_CENTIK \<Rightarrow> t * 10
              | _ \<Rightarrow> t);
            val' \<leftarrow> (if is_kelvin out
                    then Some (if is_kelvin inp then esif_temp_mk2k out val else esif_temp_mc2k out val)
                    else if is_kelvin inp then esif_temp_mk2c out val else Some (esif_temp_mc2c out val));
            Some (ESIF_OK, Some val') })"

definition esif_temp_rel_to_abs :: "u32 \<Rightarrow> u32" where
  "esif_temp_rel_to_abs rel_temp = rel_temp + DPTF_KELVIN_BASE"

definition esif_temp_abs_to_rel :: "u32 \<Rightarrow> u32" where
  "esif_temp_abs_to_rel abs_temp =
     (let rel_temp = abs_temp - DPTF_KELVIN_BASE in if sint rel_temp < 0 then 0 else rel_temp)"

section \<open>Power, time and percentage\<close>

definition esif_convert_power ::
    "esif_power_unit_type \<Rightarrow> esif_power_unit_type \<Rightarrow> u32 option \<Rightarrow> esif_rc \<times> u32 option" where
  "esif_convert_power inp out power_ptr =
     (case power_ptr of
        None \<Rightarrow> (ESIF_E_PARAMETER_IS_NULL, None)
      | Some p \<Rightarrow>
          let val = (ucast p :: u64) in
          if val = 0 \<or> inp = out then (ESIF_OK, power_ptr)
          else
            let val1 = (case out of
                ESIF_POWER_MICROW \<Rightarrow> val * 1000000 | ESIF_POWER_MILLIW \<Rightarrow> val * 1000
              | ESIF_POWER_CENTIW \<Rightarrow> val * 100 | ESIF_POWER_DECIW \<Rightarrow> val * 10 | ESIF_POWER_W \<Rightarrow> val);
              val2 = (case inp of
                ESIF_POWER_MICROW \<Rightarrow> val1 div 1000000 | ESIF_POWER_MILLIW \<Rightarrow> val1 div 1000
              | ESIF_POWER_CENTIW \<Rightarrow> val1 div 100 | ESIF_POWER_DECIW \<Rightarrow> val1 div 10 | ESIF_POWER_W \<Rightarrow> val1)
            in (ESIF_OK, Some (ucast val2)))"

definition esif_convert_time ::
    "esif_time_type \<Rightarrow> esif_time_type \<Rightarrow> u32 option \<Rightarrow> esif_rc \<times> u32 option" where
  "esif_convert_time inp out time_ptr =
     (case time_ptr of
        None \<Rightarrow> (ESIF_E_PARAMETER_IS_NULL, None)
      | Some t \<Rightarrow>
          let val = (ucast t :: u64) in
          if val = 0 \<or> inp = out then (ESIF_OK, time_ptr)
          else
            let val1 = (case inp of
                ESIF_TIME_S \<Rightarrow> val * 1000000 | ESIF_TIME_DECIS \<Rightarrow> val * 100000
              | ESIF_TIME_CENTIS \<Rightarrow> val * 10000 | ESIF_TIME_MILLIS \<Rightarrow> val * 1000 | ESIF_TIME_MICROS \<Rightarrow> val);
              val2 = (case out of
                ESIF_TIME_S \<Rightarrow> val1 div 1000000 | ESIF_TIME_DECIS \<Rightarrow> val1 div 100000
              | ESIF_TIME_CENTIS \<Rightarrow> val1 div 10000 | ESIF_TIME_MILLIS \<Rightarrow> val1 div 1000 | ESIF_TIME_MICROS \<Rightarrow> val1)
            in if val2 \<ge> push_bit 32 1 then (ESIF_E_OVERFLOWED_RESULT_TYPE, time_ptr)
               else (ESIF_OK, Some (ucast val2)))"

definition esif_convert_percent ::
    "esif_percent_type \<Rightarrow> esif_percent_type \<Rightarrow> u32 option \<Rightarrow> esif_rc \<times> u32 option" where
  "esif_convert_percent inp out value_ptr =
     (case value_ptr of
        None \<Rightarrow> (ESIF_E_PARAMETER_IS_NULL, None)
      | Some v \<Rightarrow>
          let val = (ucast v :: u64) in
          if val = 0 \<or> inp = out then (ESIF_OK, value_ptr)
          else
            let val1 = (case inp of
                ESIF_PERCENT \<Rightarrow> val * 1000 | ESIF_PERCENT_DECI \<Rightarrow> val * 100
              | ESIF_PERCENT_CENTI \<Rightarrow> val * 10 | ESIF_PERCENT_MILLI \<Rightarrow> val
              | ESIF_PERCENT_BYTE \<Rightarrow> val * 100 * 1000 div 255);
              val2 = (case out of
                ESIF_PERCENT \<Rightarrow> val1 div 1000 | ESIF_PERCENT_DECI \<Rightarrow> val1 div 100
              | ESIF_PERCENT_CENTI \<Rightarrow> val1 div 10 | ESIF_PERCENT_MILLI \<Rightarrow> val1
              | ESIF_PERCENT_BYTE \<Rightarrow> (val1 * 255 div 100 + 500) div 1000)
            in if val2 \<ge> push_bit 32 1 then (ESIF_E_OVERFLOWED_RESULT_TYPE, value_ptr)
               else (ESIF_OK, Some (ucast val2)))"

section \<open>Transforms\<close>

text \<open>
  What the transforms use of a participant: its DSP and the algorithm the DSP has for an action.
  The numbers of the algorithm types are those of \<^verbatim>\<open>esif_enum_algorithm_type.h\<close>.
\<close>

record esif_fpc_algorithm =
  temp_xform :: u32
  percent_xform :: u32
  power_xform :: u32
  time_xform :: u32

record EsifUp =
  dsp :: "(u32 \<Rightarrow> esif_fpc_algorithm option) option"

abbreviation (input) ESIF_ALGORITHM_TYPE_POWER_DECIW :: u32 where "ESIF_ALGORITHM_TYPE_POWER_DECIW \<equiv> 0"
abbreviation (input) ESIF_ALGORITHM_TYPE_POWER_MILLIW :: u32 where "ESIF_ALGORITHM_TYPE_POWER_MILLIW \<equiv> 1"
abbreviation (input) ESIF_ALGORITHM_TYPE_POWER_NONE :: u32 where "ESIF_ALGORITHM_TYPE_POWER_NONE \<equiv> 2"
abbreviation (input) ESIF_ALGORITHM_TYPE_TEMP_DECIK :: u32 where "ESIF_ALGORITHM_TYPE_TEMP_DECIK \<equiv> 5"
abbreviation (input) ESIF_ALGORITHM_TYPE_TEMP_NONE :: u32 where "ESIF_ALGORITHM_TYPE_TEMP_NONE \<equiv> 6"
abbreviation (input) ESIF_ALGORITHM_TYPE_TIME_NONE :: u32 where "ESIF_ALGORITHM_TYPE_TIME_NONE \<equiv> 8"
abbreviation (input) ESIF_ALGORITHM_TYPE_TEMP_MILLIC :: u32 where "ESIF_ALGORITHM_TYPE_TEMP_MILLIC \<equiv> 9"
abbreviation (input) ESIF_ALGORITHM_TYPE_TEMP_DECIC :: u32 where "ESIF_ALGORITHM_TYPE_TEMP_DECIC \<equiv> 14"
abbreviation (input) ESIF_ALGORITHM_TYPE_TIME_DECIS :: u32 where "ESIF_ALGORITHM_TYPE_TIME_DECIS \<equiv> 16"
abbreviation (input) ESIF_ALGORITHM_TYPE_TIME_MILLIS :: u32 where "ESIF_ALGORITHM_TYPE_TIME_MILLIS \<equiv> 17"
abbreviation (input) ESIF_ALGORITHM_TYPE_TEMP_C :: u32 where "ESIF_ALGORITHM_TYPE_TEMP_C \<equiv> 18"
abbreviation (input) ESIF_ALGORITHM_TYPE_PERCENT_NONE :: u32 where "ESIF_ALGORITHM_TYPE_PERCENT_NONE \<equiv> 20"
abbreviation (input) ESIF_ALGORITHM_TYPE_PERCENT_CENTI :: u32 where "ESIF_ALGORITHM_TYPE_PERCENT_CENTI \<equiv> 21"
abbreviation (input) ESIF_ALGORITHM_TYPE_PERCENT_DECI :: u32 where "ESIF_ALGORITHM_TYPE_PERCENT_DECI \<equiv> 23"
abbreviation (input) ESIF_ALGORITHM_TYPE_PERCENT_WHOLE :: u32 where "ESIF_ALGORITHM_TYPE_PERCENT_WHOLE \<equiv> 24"
abbreviation (input) ESIF_ALGORITHM_TYPE_POWER_MICROW :: u32 where "ESIF_ALGORITHM_TYPE_POWER_MICROW \<equiv> 25"

abbreviation (input) NORMALIZE_TEMP_TYPE :: esif_temperature_type where "NORMALIZE_TEMP_TYPE \<equiv> ESIF_TEMP_DECIK"
abbreviation (input) NORMALIZE_POWER_UNIT_TYPE :: esif_power_unit_type where "NORMALIZE_POWER_UNIT_TYPE \<equiv> ESIF_POWER_MILLIW"
abbreviation (input) NORMALIZE_TIME_TYPE :: esif_time_type where "NORMALIZE_TIME_TYPE \<equiv> ESIF_TIME_MILLIS"
abbreviation (input) NORMALIZE_PERCENT_TYPE :: esif_percent_type where "NORMALIZE_PERCENT_TYPE \<equiv> ESIF_PERCENT_CENTI"

abbreviation (input) ESIF_DATA_TEMPERATURE :: u32 where "ESIF_DATA_TEMPERATURE \<equiv> 6"
abbreviation (input) ESIF_DATA_POWER :: u32 where "ESIF_DATA_POWER \<equiv> 26"
abbreviation (input) ESIF_DATA_PERCENT :: u32 where "ESIF_DATA_PERCENT \<equiv> 29"
abbreviation (input) ESIF_DATA_TIME :: u32 where "ESIF_DATA_TIME \<equiv> 31"

definition EsifUfXformTemp ::
    "esif_temperature_type \<Rightarrow> u32 \<Rightarrow> esif_primitive_opcode \<Rightarrow> EsifUp option \<Rightarrow> u32 option \<Rightarrow> (esif_rc \<times> u32 option) option" where
  "EsifUfXformTemp tempType algoType opcode upPtr tempPtr =
     (case (tempPtr, upPtr) of
        (Some t, Some up) \<Rightarrow>
          if dsp up = None then Some (ESIF_E_NEED_DSP, tempPtr)
          else
            let convert = (\<lambda>device.
                  do { (_, tempOut) \<leftarrow> (if opcode = ESIF_PRIMITIVE_OP_GET
                         then esif_convert_temp device tempType tempPtr
                         else esif_convert_temp tempType device tempPtr);
                       Some (ESIF_OK, tempOut) })
            in if algoType = ESIF_ALGORITHM_TYPE_TEMP_C then convert ESIF_TEMP_C
               else if algoType = ESIF_ALGORITHM_TYPE_TEMP_MILLIC then convert ESIF_TEMP_MILLIC
               else if algoType = ESIF_ALGORITHM_TYPE_TEMP_DECIC then convert ESIF_TEMP_DECIC
               else if algoType = ESIF_ALGORITHM_TYPE_TEMP_DECIK then convert ESIF_TEMP_DECIK
               else if algoType = ESIF_ALGORITHM_TYPE_TEMP_NONE then Some (ESIF_OK, tempPtr)
               else Some (ESIF_E_UNSUPPORTED_ALGORITHM, tempPtr)
      | _ \<Rightarrow> Some (ESIF_E_PARAMETER_IS_NULL, tempPtr))"

definition EsifUfXformPower ::
    "esif_power_unit_type \<Rightarrow> u32 \<Rightarrow> esif_primitive_opcode \<Rightarrow> EsifUp option \<Rightarrow> u32 option \<Rightarrow> esif_rc \<times> u32 option" where
  "EsifUfXformPower powerType algoType opcode upPtr powerPtr =
     (if powerPtr = None \<or> upPtr = None then (ESIF_E_PARAMETER_IS_NULL, powerPtr)
      else
        let convert = (\<lambda>device.
              (ESIF_OK, snd (if opcode = ESIF_PRIMITIVE_OP_GET
                 then esif_convert_power device powerType powerPtr
                 else esif_convert_power powerType device powerPtr)))
        in if algoType = ESIF_ALGORITHM_TYPE_POWER_DECIW then convert ESIF_POWER_DECIW
           else if algoType = ESIF_ALGORITHM_TYPE_POWER_MICROW then convert ESIF_POWER_MICROW
           else if algoType = ESIF_ALGORITHM_TYPE_POWER_MILLIW then convert ESIF_POWER_MILLIW
           else if algoType = ESIF_ALGORITHM_TYPE_POWER_NONE then (ESIF_OK, powerPtr)
           else (ESIF_E_UNSUPPORTED_ALGORITHM, powerPtr))"

definition EsifUfXformTime ::
    "esif_time_type \<Rightarrow> u32 \<Rightarrow> esif_primitive_opcode \<Rightarrow> u32 option \<Rightarrow> esif_rc \<times> u32 option" where
  "EsifUfXformTime timeType algoType opcode time_ptr =
     (if time_ptr = None then (ESIF_E_PARAMETER_IS_NULL, time_ptr)
      else
        let convert = (\<lambda>device.
              (ESIF_OK, snd (if opcode = ESIF_PRIMITIVE_OP_GET
                 then esif_convert_time device timeType time_ptr
                 else esif_convert_time timeType device time_ptr)))
        in if algoType = ESIF_ALGORITHM_TYPE_TIME_DECIS then convert ESIF_TIME_DECIS
           else if algoType = ESIF_ALGORITHM_TYPE_TIME_MILLIS then convert ESIF_TIME_MILLIS
           else if algoType = ESIF_ALGORITHM_TYPE_TIME_NONE then (ESIF_OK, time_ptr)
           else (ESIF_E_UNSUPPORTED_ALGORITHM, time_ptr))"

definition EsifUfXformPercent ::
    "u32 \<Rightarrow> esif_primitive_opcode \<Rightarrow> u32 option \<Rightarrow> esif_rc \<times> u32 option" where
  "EsifUfXformPercent algoType opcode valuePtr =
     (if valuePtr = None then (ESIF_E_PARAMETER_IS_NULL, valuePtr)
      else
        let convert = (\<lambda>device.
              (ESIF_OK, snd (if opcode = ESIF_PRIMITIVE_OP_GET
                 then esif_convert_percent device NORMALIZE_PERCENT_TYPE valuePtr
                 else esif_convert_percent NORMALIZE_PERCENT_TYPE device valuePtr)))
        in if algoType = ESIF_ALGORITHM_TYPE_PERCENT_WHOLE then convert ESIF_PERCENT
           else if algoType = ESIF_ALGORITHM_TYPE_PERCENT_DECI then convert ESIF_PERCENT_DECI
           else if algoType = ESIF_ALGORITHM_TYPE_PERCENT_CENTI then convert ESIF_PERCENT_CENTI
           else if algoType = ESIF_ALGORITHM_TYPE_PERCENT_NONE then (ESIF_OK, valuePtr)
           else (ESIF_E_UNSUPPORTED_ALGORITHM, valuePtr))"

definition EsifUfExecuteTransform ::
    "EsifData option \<Rightarrow> EsifUp option \<Rightarrow> u32 \<Rightarrow> esif_primitive_opcode \<Rightarrow> (esif_rc \<times> EsifData option) option" where
  "EsifUfExecuteTransform transformDataPtr upPtr actionType opcode =
     (case (transformDataPtr, upPtr) of
        (Some d, Some up) \<Rightarrow>
          if esif_type d \<noteq> ESIF_DATA_TEMPERATURE \<and> esif_type d \<noteq> ESIF_DATA_POWER
             \<and> esif_type d \<noteq> ESIF_DATA_TIME \<and> esif_type d \<noteq> ESIF_DATA_PERCENT
          then Some (ESIF_OK, transformDataPtr)
          else (case dsp up of
            None \<Rightarrow> Some (ESIF_E_NEED_DSP, transformDataPtr)
          | Some get_algorithm \<Rightarrow>
              (case get_algorithm actionType of
                 None \<Rightarrow> Some (ESIF_E_NEED_ALGORITHM, transformDataPtr)
               | Some algo \<Rightarrow> do {
                   vp \<leftarrow> (case buf_ptr d of None \<Rightarrow> Some None | Some b \<Rightarrow> map_option Some (get_u32 b));
                   (rc, vp') \<leftarrow>
                     (if esif_type d = ESIF_DATA_TEMPERATURE then
                        EsifUfXformTemp NORMALIZE_TEMP_TYPE (temp_xform algo) opcode upPtr vp
                      else if esif_type d = ESIF_DATA_POWER then
                        Some (EsifUfXformPower NORMALIZE_POWER_UNIT_TYPE (power_xform algo) opcode upPtr vp)
                      else if esif_type d = ESIF_DATA_TIME then
                        Some (EsifUfXformTime NORMALIZE_TIME_TYPE (time_xform algo) opcode vp)
                      else Some (EsifUfXformPercent (percent_xform algo) opcode vp));
                   Some (rc, Some (d\<lparr>buf_ptr := (case vp' of
                       None \<Rightarrow> buf_ptr d
                     | Some v \<Rightarrow> map_option (put_u32 v) (buf_ptr d))\<rparr>)) }))
      | _ \<Rightarrow> Some (ESIF_E_PARAMETER_IS_NULL, transformDataPtr))"

section \<open>Arithmetic of the conversions\<close>

lemma word_of_int_div:
  assumes "0 \<le> a" "a < 2 ^ 32" "0 < b" "b < 2 ^ 32"
  shows "(word_of_int a :: u32) div word_of_int b = word_of_int (a div b)"
proof -
  have "uint (word_of_int a :: u32) = a" "uint (word_of_int b :: u32) = b"
    using assms by (simp_all add: uint_word_of_int)
  moreover have "0 \<le> a div b" "a div b \<le> a"
    using assms zdiv_mono2 [of a 1 b] by (simp_all add: pos_imp_zdiv_nonneg_iff)
  ultimately show ?thesis using assms(2) by (simp add: word_uint_eq_iff uint_div uint_word_of_int)
qed

lemma sint_word_of_int_32: "- (2 ^ 31) \<le> i \<Longrightarrow> i < 2 ^ 31 \<Longrightarrow> sint (word_of_int i :: u32) = i"
  by (simp add: signed_of_int signed_take_bit_int_eq_self)

lemma round_exact:
  assumes "0 < s" "0 \<le> h" "h < s" "- (2 ^ 31) \<le> s * t - h" "s * t + h < 2 ^ 31"
  shows "s32_round (s * t) h s = Some (word_of_int t)"
proof (cases "t \<ge> 0")
  case True
  then have pos: "s * t \<ge> 0" using assms(1) by simp
  have "(h + s * t) div s = t" using assms(1,2,3) by simp
  moreover have "t = 0" if "h + s * t = 0"
    using that assms(1,2) pos by (metis add_nonneg_eq_0_iff less_irrefl mult_eq_0_iff)
  ultimately have "(s * t + h) sdiv s = t" using assms pos by (auto simp: signed_divide_int_def sgn_if add.commute)
  with pos show ?thesis using assms by (simp add: s32_round_def Let_def)
next
  case False
  then have neg: "s * t < 0" using assms(1) by (simp add: mult_pos_neg)
  have "\<bar>s * t - h\<bar> = h + s * (- t)" using neg assms(2) by simp
  then have "\<bar>s * t - h\<bar> div s = - t" using assms(1,2,3) by (simp only: div_mult_self2 [OF less_imp_neq [OF assms(1), symmetric]]) simp
  then have "(s * t - h) sdiv s = t" using neg assms by (simp add: signed_divide_int_def)
  with neg assms show ?thesis by (simp add: s32_round_def Let_def)
qed

text \<open>A reading of the device in a Celsius unit of \<open>s\<close> milli-degrees, normalized and written back.\<close>

definition celsius_scale :: "u32 \<Rightarrow> (esif_temperature_type \<times> int) option" where
  "celsius_scale algo =
     (if algo = ESIF_ALGORITHM_TYPE_TEMP_C then Some (ESIF_TEMP_C, 1000)
      else if algo = ESIF_ALGORITHM_TYPE_TEMP_DECIC then Some (ESIF_TEMP_DECIC, 100)
      else if algo = ESIF_ALGORITHM_TYPE_TEMP_MILLIC then Some (ESIF_TEMP_MILLIC, 1) else None)"

lemma celsius_to_decik:
  assumes "(ty, s) \<in> {(ESIF_TEMP_C, 1000), (ESIF_TEMP_DECIC, 100), (ESIF_TEMP_MILLIC, 1)}"
    "- 273200 \<le> s * t" "s * t \<le> 2000000000"
  shows "esif_convert_temp ty ESIF_TEMP_DECIK (Some (word_of_int t))
    = Some (ESIF_OK, Some (word_of_int ((s * t + 273250) div 100)))"
proof -
  have sc: "(word_of_int t :: u32) * word_of_int s + DPTF_KELVIN_BASE * 100 + 50 = word_of_int (s * t + 273250)"
    by (simp add: mult.commute)
  have "(word_of_int (s * t + 273250) :: u32) div word_of_int 100 = word_of_int ((s * t + 273250) div 100)"
    using assms by (intro word_of_int_div) auto
  with sc assms(1) show ?thesis
    by (auto simp: esif_convert_temp_def is_kelvin_def esif_temp_mc2k_def ac_simps)
qed

lemma decik_to_celsius:
  assumes "- 2732 \<le> x - 2732" "x \<le> 20000000"
  shows "esif_convert_temp ESIF_TEMP_DECIK ESIF_TEMP_DECIC (Some (word_of_int x)) = Some (ESIF_OK, Some (word_of_int (x - 2732)))"
    "esif_convert_temp ESIF_TEMP_DECIK ESIF_TEMP_MILLIC (Some (word_of_int x)) = Some (ESIF_OK, Some (word_of_int (100 * (x - 2732))))"
    "x = 10 * t + 2732 \<Longrightarrow> esif_convert_temp ESIF_TEMP_DECIK ESIF_TEMP_C (Some (word_of_int x)) = Some (ESIF_OK, Some (word_of_int t))"
proof -
  have "(word_of_int x :: u32) * 100 - DPTF_KELVIN_BASE * 100 = word_of_int (100 * (x - 2732))"
    by (simp add: algebra_simps)
  then have sv: "sint ((word_of_int x :: u32) * 100 - DPTF_KELVIN_BASE * 100) = 100 * (x - 2732)"
    using assms by (simp only:) (rule sint_word_of_int_32; simp)
  have "s32_round (100 * (x - 2732)) 50 100 = Some (word_of_int (x - 2732))"
    by (rule round_exact) (use assms in auto)
  with sv show "esif_convert_temp ESIF_TEMP_DECIK ESIF_TEMP_DECIC (Some (word_of_int x)) = Some (ESIF_OK, Some (word_of_int (x - 2732)))"
    by (simp add: esif_convert_temp_def is_kelvin_def esif_temp_mk2c_def Let_def)
  show "esif_convert_temp ESIF_TEMP_DECIK ESIF_TEMP_MILLIC (Some (word_of_int x)) = Some (ESIF_OK, Some (word_of_int (100 * (x - 2732))))"
    using sv by (simp add: esif_convert_temp_def is_kelvin_def esif_temp_mk2c_def Let_def)
  assume x: "x = 10 * t + 2732"
  have "s32_round (1000 * t) 500 1000 = Some (word_of_int t)"
    by (rule round_exact) (use assms x in auto)
  moreover have "100 * (x - 2732) = 1000 * t" using x by simp
  ultimately show "esif_convert_temp ESIF_TEMP_DECIK ESIF_TEMP_C (Some (word_of_int x)) = Some (ESIF_OK, Some (word_of_int t))"
    using sv by (simp add: esif_convert_temp_def is_kelvin_def esif_temp_mk2c_def Let_def)
qed

section \<open>Units as ratios\<close>

text \<open>How many of the unit make one watt, microseconds per unit, milli-percent per unit.\<close>

fun per_watt :: "esif_power_unit_type \<Rightarrow> nat" where
  "per_watt ESIF_POWER_W = 1" | "per_watt ESIF_POWER_DECIW = 10" | "per_watt ESIF_POWER_CENTIW = 100"
| "per_watt ESIF_POWER_MILLIW = 1000" | "per_watt ESIF_POWER_MICROW = 1000000"

fun micros :: "esif_time_type \<Rightarrow> nat" where
  "micros ESIF_TIME_S = 1000000" | "micros ESIF_TIME_DECIS = 100000" | "micros ESIF_TIME_CENTIS = 10000"
| "micros ESIF_TIME_MILLIS = 1000" | "micros ESIF_TIME_MICROS = 1"

lemma u64_of_u32: "(ucast (p :: u32) :: u64) = of_nat (unat p)"
  by (rule of_nat_unat [symmetric])

lemma scaled_less:
  assumes "a < 4294967296" "k \<le> 1000000"
  shows "a * k < (18446744073709551616::nat)"
proof -
  have "a * k \<le> 4294967296 * 1000000" using assms by (intro mult_le_mono) simp_all
  then show ?thesis by linarith
qed

lemma convert_scale:
  assumes "n \<le> 1000000" "1 \<le> d" "d \<le> 1000000"
  shows "unat ((ucast (p :: u32) :: u64) * of_nat n div of_nat d) = unat p * n div d"
proof -
  have "unat p * n < 18446744073709551616" using scaled_less [OF _ assms(1), of "unat p"] unat_less_2p [of p] by simp
  then have "unat (of_nat (unat p * n) :: u64) = unat p * n" by (intro unat_of_nat_eq_len) simp
  then have "unat ((ucast p :: u64) * of_nat n) = unat p * n" by (simp only: u64_of_u32 of_nat_mult)
  moreover have "unat (of_nat d :: u64) = d" using assms(3) by (intro unat_of_nat_eq_len) simp
  ultimately show ?thesis by (simp add: unat_div)
qed

lemma ucast_eq_0_64: "(ucast (p :: u32) :: u64) = 0 \<longleftrightarrow> p = 0"
proof -
  have "unat (ucast p :: u64) = unat p" using convert_scale [of 1 1 p] by simp
  then show ?thesis by (metis unat_0 unsigned_eq_0_iff)
qed

lemma power_cases:
  "(case u of ESIF_POWER_MICROW \<Rightarrow> (v :: u64) * 1000000 | ESIF_POWER_MILLIW \<Rightarrow> v * 1000
     | ESIF_POWER_CENTIW \<Rightarrow> v * 100 | ESIF_POWER_DECIW \<Rightarrow> v * 10 | ESIF_POWER_W \<Rightarrow> v) = v * of_nat (per_watt u)"
  "(case u of ESIF_POWER_MICROW \<Rightarrow> v div 1000000 | ESIF_POWER_MILLIW \<Rightarrow> v div 1000
     | ESIF_POWER_CENTIW \<Rightarrow> v div 100 | ESIF_POWER_DECIW \<Rightarrow> v div 10 | ESIF_POWER_W \<Rightarrow> v) = v div of_nat (per_watt u)"
  "1 \<le> per_watt u" "per_watt u \<le> 1000000"
  by (cases u; simp)+

lemma time_cases:
  "(case u of ESIF_TIME_S \<Rightarrow> (v :: u64) * 1000000 | ESIF_TIME_DECIS \<Rightarrow> v * 100000
     | ESIF_TIME_CENTIS \<Rightarrow> v * 10000 | ESIF_TIME_MILLIS \<Rightarrow> v * 1000 | ESIF_TIME_MICROS \<Rightarrow> v) = v * of_nat (micros u)"
  "(case u of ESIF_TIME_S \<Rightarrow> v div 1000000 | ESIF_TIME_DECIS \<Rightarrow> v div 100000
     | ESIF_TIME_CENTIS \<Rightarrow> v div 10000 | ESIF_TIME_MILLIS \<Rightarrow> v div 1000 | ESIF_TIME_MICROS \<Rightarrow> v) = v div of_nat (micros u)"
  "1 \<le> micros u" "micros u \<le> 1000000"
  by (cases u; simp)+

lemma ucast_of_nat_unat: "(ucast (v :: u64) :: u32) = of_nat (unat v)"
  by (rule of_nat_unat [symmetric])

text \<open>The value the power conversion computes, and the two ways it keeps it.\<close>

lemma convert_power_value:
  "esif_convert_power inp out (Some p) = (ESIF_OK, Some (of_nat (unat p * per_watt out div per_watt inp)))"
proof (cases "p = 0 \<or> inp = out")
  case True
  have "unat p * per_watt out div per_watt out = unat p"
    using power_cases(3) [of out] by (intro nonzero_mult_div_cancel_right) simp
  with True show ?thesis by (auto simp: esif_convert_power_def ucast_eq_0_64)
next
  case False
  let ?v = "(ucast p :: u64) * of_nat (per_watt out) div of_nat (per_watt inp)"
  have "esif_convert_power inp out (Some p) = (ESIF_OK, Some (ucast ?v))"
    using False by (simp add: esif_convert_power_def Let_def power_cases ucast_eq_0_64)
  moreover have "unat ?v = unat p * per_watt out div per_watt inp"
    by (rule convert_scale [OF power_cases(4,3,4)])
  ultimately show ?thesis by (simp only: ucast_of_nat_unat)
qed

lemma convert_time_value:
  "esif_convert_time inp out (Some t) =
     (if unat t * micros inp div micros out < 2 ^ 32
      then (ESIF_OK, Some (of_nat (unat t * micros inp div micros out)))
      else (ESIF_E_OVERFLOWED_RESULT_TYPE, Some t))"
proof (cases "t = 0 \<or> inp = out")
  case True
  have "unat t * micros out div micros out = unat t"
    using time_cases(3) [of out] by (intro nonzero_mult_div_cancel_right) simp
  with True unat_less_2p [of t] show ?thesis by (auto simp: esif_convert_time_def ucast_eq_0_64)
next
  case False
  let ?v = "(ucast t :: u64) * of_nat (micros inp) div of_nat (micros out)"
  have "esif_convert_time inp out (Some t) =
      (if ?v \<ge> push_bit 32 1 then (ESIF_E_OVERFLOWED_RESULT_TYPE, Some t) else (ESIF_OK, Some (ucast ?v)))"
    using False by (simp add: esif_convert_time_def Let_def time_cases ucast_eq_0_64)
  moreover have "unat ?v = unat t * micros inp div micros out"
    by (rule convert_scale [OF time_cases(4,3,4)])
  moreover have "(push_bit 32 1 :: u64) \<le> ?v \<longleftrightarrow> 2 ^ 32 \<le> unat ?v" by (simp add: word_le_nat_alt)
  ultimately show ?thesis by (simp only: ucast_of_nat_unat not_le [symmetric] if_not_P) simp
qed

section \<open>Properties\<close>

text \<open>
  C19. Temperature: a device reading \<open>t\<close> in Celsius, deci-Celsius or milli-Celsius (possibly
  negative, from absolute zero up to two million degrees) becomes the nearest tenth of a Kelvin,
  and writing that value back gives the device the same reading, up to half a
  tenth of a degree for milli-Celsius.
\<close>

theorem xform_temp_roundtrip:
  assumes "celsius_scale algo = Some (ty, s)" "dsp up \<noteq> None" "- 273200 \<le> s * t" "s * t \<le> 1990000000"
  defines "k \<equiv> (s * t + 273250) div 100"
  shows "EsifUfXformTemp NORMALIZE_TEMP_TYPE algo ESIF_PRIMITIVE_OP_GET (Some up) (Some (word_of_int t))
      = Some (ESIF_OK, Some (word_of_int k))
    \<and> (\<exists>r. EsifUfXformTemp NORMALIZE_TEMP_TYPE algo ESIF_PRIMITIVE_OP_SET (Some up) (Some (word_of_int k))
        = Some (ESIF_OK, Some (word_of_int r)) \<and> \<bar>s * r - s * t\<bar> \<le> 50 \<and> (1 < s \<longrightarrow> r = t))"
proof -
  have ts: "(ty, s) \<in> {(ESIF_TEMP_C, 1000), (ESIF_TEMP_DECIC, 100), (ESIF_TEMP_MILLIC, 1)}"
    using assms(1) by (auto simp: celsius_scale_def split: if_splits)
  have xf: "EsifUfXformTemp NORMALIZE_TEMP_TYPE algo op (Some up) (Some v) =
      do { (_, w) \<leftarrow> (if op = ESIF_PRIMITIVE_OP_GET then esif_convert_temp ty ESIF_TEMP_DECIK (Some v)
                     else esif_convert_temp ESIF_TEMP_DECIK ty (Some v)); Some (ESIF_OK, w) }" for op v
    using assms(1,2) by (auto simp: EsifUfXformTemp_def celsius_scale_def Let_def split: if_splits)
  have g: "esif_convert_temp ty ESIF_TEMP_DECIK (Some (word_of_int t)) = Some (ESIF_OK, Some (word_of_int k))"
    unfolding k_def using celsius_to_decik [OF ts assms(3)] assms(4) by simp
  have kb: "- 2732 \<le> k - 2732" "k \<le> 20000000" unfolding k_def using assms(3,4) by auto
  note bk = decik_to_celsius [OF kb]
  have "\<exists>r. esif_convert_temp ESIF_TEMP_DECIK ty (Some (word_of_int k)) = Some (ESIF_OK, Some (word_of_int r))
      \<and> \<bar>s * r - s * t\<bar> \<le> 50 \<and> (1 < s \<longrightarrow> r = t)"
    using ts
  proof (elim insertE emptyE Pair_inject)
    assume c: "ty = ESIF_TEMP_C" "s = 1000"
    then have "k = 10 * t + 2732" by (simp add: k_def)
    from bk(3) [OF this] c show ?thesis by (intro exI [of _ t]) simp
  next
    assume c: "ty = ESIF_TEMP_DECIC" "s = 100"
    then have "k - 2732 = t" by (simp add: k_def)
    with bk(1) c show ?thesis by (intro exI [of _ t]) simp
  next
    assume c: "ty = ESIF_TEMP_MILLIC" "s = 1"
    have "\<bar>100 * (k - 2732) - t\<bar> \<le> 50" using c(2) by (simp add: k_def)
    with bk(2) c show ?thesis by (intro exI [of _ "100 * (k - 2732)"]) simp
  qed
  with g xf show ?thesis by auto
qed

theorem xform_temp_roundtrip_witness:
  "EsifUfXformTemp NORMALIZE_TEMP_TYPE ESIF_ALGORITHM_TYPE_TEMP_C ESIF_PRIMITIVE_OP_GET
     (Some \<lparr>dsp = Some (\<lambda>_. None)\<rparr>) (Some (word_of_int (- 40))) = Some (ESIF_OK, Some 2332)"
  using xform_temp_roundtrip [of ESIF_ALGORITHM_TYPE_TEMP_C ESIF_TEMP_C 1000 "\<lparr>dsp = Some (\<lambda>_. None)\<rparr>" "- 40"]
  by (simp add: celsius_scale_def)

definition power_algo :: "u32 \<Rightarrow> esif_power_unit_type option" where
  "power_algo algo =
     (if algo = ESIF_ALGORITHM_TYPE_POWER_DECIW then Some ESIF_POWER_DECIW
      else if algo = ESIF_ALGORITHM_TYPE_POWER_MICROW then Some ESIF_POWER_MICROW
      else if algo = ESIF_ALGORITHM_TYPE_POWER_MILLIW then Some ESIF_POWER_MILLIW else None)"

definition time_algo :: "u32 \<Rightarrow> esif_time_type option" where
  "time_algo algo =
     (if algo = ESIF_ALGORITHM_TYPE_TIME_DECIS then Some ESIF_TIME_DECIS
      else if algo = ESIF_ALGORITHM_TYPE_TIME_MILLIS then Some ESIF_TIME_MILLIS else None)"

text \<open>
  Power and time: with the algorithm of a device unit, a read is scaled to milliwatts or
  milliseconds and a write back to the device's unit, multiplying before dividing, so the result
  is the exact quotient rounded down. Power keeps its low 32 bits. A time that
  does not fit is left in the unit it came in, and success is reported all the same.
\<close>

theorem xform_power_time:
  assumes "power_algo pa = Some pu" "time_algo ta = Some tu"
  shows "EsifUfXformPower NORMALIZE_POWER_UNIT_TYPE pa op (Some up) (Some p) =
      (ESIF_OK, Some (of_nat (if op = ESIF_PRIMITIVE_OP_GET then unat p * 1000 div per_watt pu
                              else unat p * per_watt pu div 1000)))
    \<and> EsifUfXformTime NORMALIZE_TIME_TYPE ta op (Some t) =
      (let ms = (if op = ESIF_PRIMITIVE_OP_GET then unat t * micros tu div 1000 else unat t * 1000 div micros tu)
       in (ESIF_OK, Some (if ms < 2 ^ 32 then of_nat ms else t)))"
proof
  show "EsifUfXformPower NORMALIZE_POWER_UNIT_TYPE pa op (Some up) (Some p) =
      (ESIF_OK, Some (of_nat (if op = ESIF_PRIMITIVE_OP_GET then unat p * 1000 div per_watt pu
                              else unat p * per_watt pu div 1000)))"
    using assms(1) by (auto simp: EsifUfXformPower_def power_algo_def convert_power_value Let_def split: if_splits)
  show "EsifUfXformTime NORMALIZE_TIME_TYPE ta op (Some t) =
      (let ms = (if op = ESIF_PRIMITIVE_OP_GET then unat t * micros tu div 1000 else unat t * 1000 div micros tu)
       in (ESIF_OK, Some (if ms < 2 ^ 32 then of_nat ms else t)))"
    using assms(2) by (auto simp: EsifUfXformTime_def time_algo_def convert_time_value Let_def split: if_splits)
qed

theorem xform_power_time_witness:
  "EsifUfXformPower NORMALIZE_POWER_UNIT_TYPE 0 ESIF_PRIMITIVE_OP_GET (Some \<lparr>dsp = None\<rparr>) (Some 150) = (ESIF_OK, Some 15000)
    \<and> EsifUfXformTime NORMALIZE_TIME_TYPE 16 ESIF_PRIMITIVE_OP_GET (Some 50000000) = (ESIF_OK, Some 50000000)"
  using xform_power_time [of 0 ESIF_POWER_DECIW 16 ESIF_TIME_DECIS ESIF_PRIMITIVE_OP_GET "\<lparr>dsp = None\<rparr>" 150 50000000]
  by (simp add: power_algo_def time_algo_def)

text \<open>Why a request is refused (or, for other types of data, succeeds without a transform).\<close>

definition xform_refusal :: "EsifData \<Rightarrow> EsifUp \<Rightarrow> u32 \<Rightarrow> esif_rc option" where
  "xform_refusal d up act =
     (if esif_type d \<notin> {ESIF_DATA_TEMPERATURE, ESIF_DATA_POWER, ESIF_DATA_TIME, ESIF_DATA_PERCENT} then Some ESIF_OK
      else case dsp up of
        None \<Rightarrow> Some ESIF_E_NEED_DSP
      | Some get_algorithm \<Rightarrow>
          (case get_algorithm act of
             None \<Rightarrow> Some ESIF_E_NEED_ALGORITHM
           | Some algo \<Rightarrow>
               if esif_type d = ESIF_DATA_TEMPERATURE \<and> temp_xform algo \<in> {5, 6, 9, 14, 18}
                \<or> esif_type d = ESIF_DATA_POWER \<and> power_xform algo \<in> {0, 1, 2, 25}
                \<or> esif_type d = ESIF_DATA_TIME \<and> time_xform algo \<in> {8, 16, 17}
                \<or> esif_type d = ESIF_DATA_PERCENT \<and> percent_xform algo \<in> {20, 21, 23, 24}
               then None else Some ESIF_E_UNSUPPORTED_ALGORITHM))"

lemma convert_temp_get:
  assumes "ty \<in> {ESIF_TEMP_C, ESIF_TEMP_MILLIC, ESIF_TEMP_DECIC, ESIF_TEMP_DECIK}"
  shows "\<exists>w. esif_convert_temp ty ESIF_TEMP_DECIK (Some v) = Some (ESIF_OK, Some w)"
  using assms by (auto simp: esif_convert_temp_def is_kelvin_def)

lemma convert_percent_some: "\<exists>rc w. esif_convert_percent inp out (Some v) = (rc, Some w)"
  by (auto simp: esif_convert_percent_def Let_def)

text \<open>The transforms leave a value where there was one.\<close>

lemma xform_some:
  "temp_xform algo \<in> {5, 6, 9, 14, 18} \<Longrightarrow> dsp up \<noteq> None \<Longrightarrow>
     \<exists>w. EsifUfXformTemp NORMALIZE_TEMP_TYPE (temp_xform algo) ESIF_PRIMITIVE_OP_GET (Some up) (Some v) = Some (ESIF_OK, Some w)"
  "power_xform algo \<in> {0, 1, 2, 25} \<Longrightarrow>
     \<exists>w. EsifUfXformPower NORMALIZE_POWER_UNIT_TYPE (power_xform algo) op (Some up) (Some v) = (ESIF_OK, Some w)"
  "time_xform algo \<in> {8, 16, 17} \<Longrightarrow>
     \<exists>w. EsifUfXformTime NORMALIZE_TIME_TYPE (time_xform algo) op (Some v) = (ESIF_OK, Some w)"
  "percent_xform algo \<in> {20, 21, 23, 24} \<Longrightarrow>
     \<exists>w. EsifUfXformPercent (percent_xform algo) op (Some v) = (ESIF_OK, Some w)"
proof -
  have t: "\<exists>w. esif_convert_temp ESIF_TEMP_C ESIF_TEMP_DECIK (Some v) = Some (ESIF_OK, Some w)"
    "\<exists>w. esif_convert_temp ESIF_TEMP_DECIC ESIF_TEMP_DECIK (Some v) = Some (ESIF_OK, Some w)"
    "\<exists>w. esif_convert_temp ESIF_TEMP_MILLIC ESIF_TEMP_DECIK (Some v) = Some (ESIF_OK, Some w)"
    "\<exists>w. esif_convert_temp ESIF_TEMP_DECIK ESIF_TEMP_DECIK (Some v) = Some (ESIF_OK, Some w)"
    by (rule convert_temp_get, simp)+
  show "\<exists>w. EsifUfXformTemp NORMALIZE_TEMP_TYPE (temp_xform algo) ESIF_PRIMITIVE_OP_GET (Some up) (Some v) = Some (ESIF_OK, Some w)"
    if "temp_xform algo \<in> {5, 6, 9, 14, 18}" "dsp up \<noteq> None"
    using that t by (auto simp: EsifUfXformTemp_def Let_def)
  show "\<exists>w. EsifUfXformPower NORMALIZE_POWER_UNIT_TYPE (power_xform algo) op (Some up) (Some v) = (ESIF_OK, Some w)"
    if "power_xform algo \<in> {0, 1, 2, 25}"
    using that by (auto simp: EsifUfXformPower_def Let_def convert_power_value)
  show "\<exists>w. EsifUfXformTime NORMALIZE_TIME_TYPE (time_xform algo) op (Some v) = (ESIF_OK, Some w)"
    if "time_xform algo \<in> {8, 16, 17}"
    using that by (auto simp: EsifUfXformTime_def Let_def convert_time_value)
  have "\<exists>w. snd (esif_convert_percent inp out (Some v)) = Some w" for inp out
    using convert_percent_some [of inp out v] by auto
  then show "\<exists>w. EsifUfXformPercent (percent_xform algo) op (Some v) = (ESIF_OK, Some w)"
    if "percent_xform algo \<in> {20, 21, 23, 24}"
    using that by (auto simp: EsifUfXformPercent_def Let_def)
qed

lemma xform_unknown:
  "temp_xform algo \<notin> {5, 6, 9, 14, 18} \<Longrightarrow> dsp up \<noteq> None \<Longrightarrow>
     EsifUfXformTemp NORMALIZE_TEMP_TYPE (temp_xform algo) op (Some up) (Some v) = Some (ESIF_E_UNSUPPORTED_ALGORITHM, Some v)"
  "power_xform algo \<notin> {0, 1, 2, 25} \<Longrightarrow>
     EsifUfXformPower NORMALIZE_POWER_UNIT_TYPE (power_xform algo) op (Some up) (Some v) = (ESIF_E_UNSUPPORTED_ALGORITHM, Some v)"
  "time_xform algo \<notin> {8, 16, 17} \<Longrightarrow>
     EsifUfXformTime NORMALIZE_TIME_TYPE (time_xform algo) op (Some v) = (ESIF_E_UNSUPPORTED_ALGORITHM, Some v)"
  "percent_xform algo \<notin> {20, 21, 23, 24} \<Longrightarrow>
     EsifUfXformPercent (percent_xform algo) op (Some v) = (ESIF_E_UNSUPPORTED_ALGORITHM, Some v)"
  by (simp_all add: EsifUfXformTemp_def EsifUfXformPower_def EsifUfXformTime_def EsifUfXformPercent_def Let_def)

text \<open>The transform the dispatcher calls.\<close>

definition xform_call ::
    "u32 \<Rightarrow> esif_fpc_algorithm \<Rightarrow> esif_primitive_opcode \<Rightarrow> EsifUp \<Rightarrow> u32 \<Rightarrow> (esif_rc \<times> u32 option) option" where
  "xform_call ty algo op up v =
     (if ty = ESIF_DATA_TEMPERATURE then EsifUfXformTemp NORMALIZE_TEMP_TYPE (temp_xform algo) op (Some up) (Some v)
      else if ty = ESIF_DATA_POWER then Some (EsifUfXformPower NORMALIZE_POWER_UNIT_TYPE (power_xform algo) op (Some up) (Some v))
      else if ty = ESIF_DATA_TIME then Some (EsifUfXformTime NORMALIZE_TIME_TYPE (time_xform algo) op (Some v))
      else Some (EsifUfXformPercent (percent_xform algo) op (Some v)))"

abbreviation xform_type :: "u32 \<Rightarrow> bool" where
  "xform_type ty \<equiv> ty = ESIF_DATA_TEMPERATURE \<or> ty = ESIF_DATA_POWER \<or> ty = ESIF_DATA_TIME \<or> ty = ESIF_DATA_PERCENT"

lemma xform_call_known:
  assumes "xform_refusal d up act = None" "dsp up = Some ga" "ga act = Some algo"
    "esif_type d = ESIF_DATA_TEMPERATURE \<longrightarrow> op = ESIF_PRIMITIVE_OP_GET"
  shows "\<exists>w. xform_call (esif_type d) algo op up v = Some (ESIF_OK, Some w)"
proof -
  have "esif_type d = ESIF_DATA_TEMPERATURE \<and> temp_xform algo \<in> {5, 6, 9, 14, 18}
      \<or> esif_type d = ESIF_DATA_POWER \<and> power_xform algo \<in> {0, 1, 2, 25}
      \<or> esif_type d = ESIF_DATA_TIME \<and> time_xform algo \<in> {8, 16, 17}
      \<or> esif_type d = ESIF_DATA_PERCENT \<and> percent_xform algo \<in> {20, 21, 23, 24}"
    using assms(1-3) by (simp add: xform_refusal_def split: if_splits)
  then show ?thesis
  proof (elim disjE conjE)
    assume "esif_type d = ESIF_DATA_TEMPERATURE" "temp_xform algo \<in> {5, 6, 9, 14, 18}"
    with assms xform_some(1) [of algo up v] show ?thesis by (simp add: xform_call_def)
  next
    assume "esif_type d = ESIF_DATA_POWER" "power_xform algo \<in> {0, 1, 2, 25}"
    with xform_some(2) [of algo op up v] show ?thesis by (simp add: xform_call_def)
  next
    assume "esif_type d = ESIF_DATA_TIME" "time_xform algo \<in> {8, 16, 17}"
    with xform_some(3) [of algo op v] show ?thesis by (simp add: xform_call_def)
  next
    assume "esif_type d = ESIF_DATA_PERCENT" "percent_xform algo \<in> {20, 21, 23, 24}"
    with xform_some(4) [of algo op v] show ?thesis by (simp add: xform_call_def)
  qed
qed

lemma xform_call_unknown:
  assumes "xform_refusal d up act = Some e" "dsp up = Some ga" "ga act = Some algo" "xform_type (esif_type d)"
  shows "e = ESIF_E_UNSUPPORTED_ALGORITHM \<and> xform_call (esif_type d) algo op up v = Some (e, Some v)"
proof -
  have r: "e = ESIF_E_UNSUPPORTED_ALGORITHM" "\<not> (esif_type d = ESIF_DATA_TEMPERATURE \<and> temp_xform algo \<in> {5, 6, 9, 14, 18}
      \<or> esif_type d = ESIF_DATA_POWER \<and> power_xform algo \<in> {0, 1, 2, 25}
      \<or> esif_type d = ESIF_DATA_TIME \<and> time_xform algo \<in> {8, 16, 17}
      \<or> esif_type d = ESIF_DATA_PERCENT \<and> percent_xform algo \<in> {20, 21, 23, 24})"
    using assms by (auto simp: xform_refusal_def split: if_splits)
  have "dsp up \<noteq> None" using assms(2) by simp
  from assms(4) show ?thesis
  proof (elim disjE)
    assume "esif_type d = ESIF_DATA_TEMPERATURE"
    with r \<open>dsp up \<noteq> None\<close> show ?thesis by (simp add: xform_call_def xform_unknown(1))
  next
    assume "esif_type d = ESIF_DATA_POWER"
    with r show ?thesis by (simp add: xform_call_def xform_unknown(2))
  next
    assume "esif_type d = ESIF_DATA_TIME"
    with r show ?thesis by (simp add: xform_call_def xform_unknown(3))
  next
    assume "esif_type d = ESIF_DATA_PERCENT"
    with r show ?thesis by (simp add: xform_call_def xform_unknown(4))
  qed
qed

lemma execute_calls:
  assumes "buf_ptr d = Some b" "get_u32 b = Some v" "dsp up = Some ga" "ga act = Some algo" "xform_type (esif_type d)"
    "xform_call (esif_type d) algo op up v = Some (rc, Some w)"
  shows "EsifUfExecuteTransform (Some d) (Some up) act op = Some (rc, Some (d\<lparr>buf_ptr := Some (put_u32 w b)\<rparr>))"
proof -
  have "EsifUfExecuteTransform (Some d) (Some up) act op =
      do { (rc, vp') \<leftarrow> xform_call (esif_type d) algo op up v;
           Some (rc, Some (d\<lparr>buf_ptr := (case vp' of None \<Rightarrow> buf_ptr d | Some v \<Rightarrow> map_option (put_u32 v) (buf_ptr d))\<rparr>)) }"
    unfolding EsifUfExecuteTransform_def xform_call_def using assms(1-5) by (simp only: option.simps prod.case bind.bind_lunit if_False if_True simp_thms de_Morgan_conj) auto
  then show ?thesis by (simp add: assms(1,6))
qed

lemma execute_refused:
  assumes "\<not> (\<exists>ga algo. dsp up = Some ga \<and> ga act = Some algo \<and> xform_type (esif_type d))"
  shows "\<exists>e. xform_refusal d up act = Some e \<and> EsifUfExecuteTransform (Some d) (Some up) act op = Some (e, Some d)"
proof (cases "xform_type (esif_type d)")
  case False
  then show ?thesis by (simp add: EsifUfExecuteTransform_def xform_refusal_def)
next
  case True
  then have "xform_refusal d up act = Some (if dsp up = None then ESIF_E_NEED_DSP else ESIF_E_NEED_ALGORITHM)"
    "EsifUfExecuteTransform (Some d) (Some up) act op = Some (if dsp up = None then ESIF_E_NEED_DSP else ESIF_E_NEED_ALGORITHM, Some d)"
    using assms by (cases "dsp up"; cases "the (dsp up) act"; auto simp: EsifUfExecuteTransform_def xform_refusal_def)+
  then show ?thesis by blast
qed

text \<open>
  C26. The dispatcher: data that is not a temperature, power, time or percentage is left alone;
  without a DSP, without an algorithm for the action, or with an algorithm number that the
  transform does not know, the caller gets the error and the data is unchanged. Otherwise the
  request succeeds and only the first four bytes of the buffer may change. (Writing a temperature
  is left out: there the subtraction of the Kelvin base can overflow for values near the
  end of the range.)
\<close>

theorem xform_execute_frame:
  assumes "buf_ptr d = Some b" "4 \<le> length b" "esif_type d = ESIF_DATA_TEMPERATURE \<longrightarrow> op = ESIF_PRIMITIVE_OP_GET"
  shows "\<exists>rc b'. EsifUfExecuteTransform (Some d) (Some up) act op = Some (rc, Some (d\<lparr>buf_ptr := Some b'\<rparr>))
    \<and> (case xform_refusal d up act of Some e \<Rightarrow> rc = e \<and> b' = b
        | None \<Rightarrow> rc = ESIF_OK \<and> length b' = length b \<and> drop 4 b' = drop 4 b)"
proof (cases "\<exists>ga algo. dsp up = Some ga \<and> ga act = Some algo \<and> xform_type (esif_type d)")
  case False
  have same: "d\<lparr>buf_ptr := Some b\<rparr> = d" using assms(1) by (cases d) simp
  obtain e where "xform_refusal d up act = Some e" "EsifUfExecuteTransform (Some d) (Some up) act op = Some (e, Some d)"
    using execute_refused [OF False] by blast
  with same show ?thesis by (intro exI [of _ e] exI [of _ b]) simp
next
  case True
  then obtain ga algo where ga: "dsp up = Some ga" "ga act = Some algo" "xform_type (esif_type d)" by blast
  obtain v where v: "get_u32 b = Some v" using get_u32_ok [OF assms(2)] by blast
  note ex = execute_calls [OF assms(1) v ga]
  show ?thesis
  proof (cases "xform_refusal d up act")
    case (Some e)
    from ex [of op, OF conjunct2 [OF xform_call_unknown [OF Some ga]]] Some put_get_u32 [OF v]
    show ?thesis by (intro exI [of _ e] exI [of _ b]) simp
  next
    case None
    then obtain w where "xform_call (esif_type d) algo op up v = Some (ESIF_OK, Some w)"
      using xform_call_known [OF None ga(1,2) assms(3)] by blast
    from ex [OF this] None assms(2) show ?thesis
      by (intro exI [of _ ESIF_OK] exI [of _ "put_u32 w b"]) (simp add: put_u32_def)
  qed
qed

theorem xform_execute_frame_witness:
  "\<exists>rc b'. EsifUfExecuteTransform (Some \<lparr>esif_type = 26, buf_ptr = Some [1, 0, 0, 0, 7], buf_len = 5, data_len = 4\<rparr>)
      (Some \<lparr>dsp = Some (\<lambda>_. Some \<lparr>temp_xform = 6, percent_xform = 20, power_xform = 99, time_xform = 8\<rparr>)\<rparr>) 3 ESIF_PRIMITIVE_OP_SET
    = Some (rc, Some \<lparr>esif_type = 26, buf_ptr = Some b', buf_len = 5, data_len = 4\<rparr>)
    \<and> rc = ESIF_E_UNSUPPORTED_ALGORITHM \<and> b' = [1, 0, 0, 0, 7]"
  using xform_execute_frame [of "\<lparr>esif_type = 26, buf_ptr = Some [1, 0, 0, 0, 7], buf_len = 5, data_len = 4\<rparr>" "[1, 0, 0, 0, 7]"
    ESIF_PRIMITIVE_OP_SET "\<lparr>dsp = Some (\<lambda>_. Some \<lparr>temp_xform = 6, percent_xform = 20, power_xform = 99, time_xform = 8\<rparr>)\<rparr>" 3]
  by (simp add: xform_refusal_def)

end
