(* ===== verification/Primitive_Type.thy ===== *)
theory Primitive_Type
  imports Bisection
begin

text \<open>
  The association between the primitives that set a value and those that read it,
  \<^verbatim>\<open>src/ESIF/Products/ESIF_UF/Sources/esif_uf_primitive_type.h\<close>: two tables, each in the order of the numbers of
  \<^verbatim>\<open>src/Common/esif_sdk_primitive_type.h\<close>, and a bisection of each. The names of the header are replaced
  by their numbers. The arbitration manager delays a read while the associated write is queued.
\<close>

definition set2get_map :: "(nat \<times> nat) list" where
  "set2get_map =
    [(47, 143), (130, 38), (163, 157), (202, 1), (203, 13), (204, 12), (205, 177), (206, 11), (222, 126),
     (229, 228), (232, 15), (241, 14), (275, 55), (276, 61), (301, 300), (329, 159), (330, 160), (334, 331),
     (335, 332), (336, 333), (338, 337), (340, 339), (342, 341), (343, 76), (355, 356), (382, 291),
     (383, 294), (397, 396), (399, 398), (401, 400), (403, 402), (405, 404), (413, 412), (415, 414),
     (417, 416), (419, 418), (421, 420), (437, 298), (438, 296), (448, 447), (452, 451), (455, 35),
     (457, 456), (459, 458), (461, 460), (467, 466), (469, 468), (471, 470), (473, 472), (474, 443),
     (476, 128), (478, 477), (480, 479), (489, 482), (493, 486), (506, 505), (512, 511), (514, 513),
     (516, 515), (523, 522), (525, 524), (528, 527), (529, 530), (532, 531), (533, 436), (539, 537),
     (540, 538), (542, 541), (557, 556), (559, 558), (561, 560), (563, 562), (565, 564), (567, 566),
     (569, 568), (571, 570), (655, 654), (662, 660), (668, 667), (670, 671), (718, 686), (725, 724),
     (734, 733), (738, 737), (740, 739), (743, 742), (750, 747), (751, 748), (777, 776), (780, 779),
     (782, 781), (784, 783), (786, 785), (797, 793), (799, 795), (810, 801), (811, 802), (814, 806),
     (819, 815), (820, 817), (822, 821), (834, 833), (839, 838), (877, 874), (879, 875), (882, 22),
     (884, 139), (889, 887), (906, 902), (907, 903), (908, 904), (909, 905), (914, 913), (916, 915),
     (932, 924), (933, 925), (934, 926), (935, 927), (936, 928), (942, 941), (948, 947), (951, 950),
     (971, 920), (972, 911)]"

definition get2set_map :: "(nat \<times> nat) list" where
  "get2set_map =
    [(1, 202), (11, 206), (12, 204), (13, 203), (14, 241), (15, 232), (22, 882), (35, 455), (38, 130),
     (55, 275), (61, 276), (76, 343), (126, 222), (128, 476), (139, 884), (143, 47), (157, 163), (159, 329),
     (160, 330), (177, 205), (228, 229), (291, 382), (294, 383), (296, 438), (298, 437), (300, 301),
     (331, 334), (332, 335), (333, 336), (337, 338), (339, 340), (341, 342), (356, 355), (396, 397),
     (398, 399), (400, 401), (402, 403), (404, 405), (412, 413), (414, 415), (416, 417), (418, 419),
     (420, 421), (436, 533), (443, 474), (447, 448), (451, 452), (456, 457), (458, 459), (460, 461),
     (466, 467), (468, 469), (470, 471), (472, 473), (477, 478), (479, 480), (482, 489), (486, 493),
     (505, 506), (511, 512), (513, 514), (515, 516), (522, 523), (524, 525), (527, 528), (530, 529),
     (531, 532), (537, 539), (538, 540), (541, 542), (556, 557), (558, 559), (560, 561), (562, 563),
     (564, 565), (566, 567), (568, 569), (570, 571), (654, 655), (660, 662), (667, 668), (671, 670),
     (686, 718), (724, 725), (733, 734), (737, 738), (739, 740), (742, 743), (747, 750), (748, 751),
     (776, 777), (779, 780), (781, 782), (783, 784), (785, 786), (793, 797), (795, 799), (801, 810),
     (802, 811), (806, 814), (815, 819), (817, 820), (821, 822), (833, 834), (838, 839), (874, 877),
     (875, 879), (887, 889), (902, 906), (903, 907), (904, 908), (905, 909), (911, 972), (913, 914),
     (915, 916), (920, 971), (924, 932), (925, 933), (926, 934), (927, 935), (928, 936), (941, 942),
     (947, 948), (950, 951)]"

text \<open>The three-way comparison of the code, at an index of the table.\<close>

definition type_cmp :: "(nat \<times> nat) list \<Rightarrow> u32 \<Rightarrow> int \<Rightarrow> int option" where
  "type_cmp tab ty node =
     (if 0 \<le> node \<and> nat node < length tab
      then Some (if unat ty < fst (tab ! nat node) then -1 else if unat ty > fst (tab ! nat node) then 1 else 0)
      else None)"

definition lookup_type :: "(nat \<times> nat) list \<Rightarrow> u32 \<Rightarrow> u32 option" where
  "lookup_type tab ty =
     map_option (\<lambda>r. case r of Inl node \<Rightarrow> of_nat (snd (tab ! nat node)) | Inr _ \<Rightarrow> 0)
       (bisect (type_cmp tab ty) (int (length tab)))"

definition esif_primitive_type_set2get :: "u32 \<Rightarrow> u32 option" where
  "esif_primitive_type_set2get ty = lookup_type set2get_map ty"

definition esif_primitive_type_get2set :: "u32 \<Rightarrow> u32 option" where
  "esif_primitive_type_get2set ty = lookup_type get2set_map ty"

section \<open>The tables are in order\<close>

lemmas sorted_adjacent = sorted_wrt2 [OF transp_on_less] sorted_wrt1

lemma set2get_sorted: "sorted_wrt (<) (map fst set2get_map)"
  unfolding set2get_map_def list.map fst_conv sorted_adjacent by (intro conjI TrueI) simp_all

lemma get2set_sorted: "sorted_wrt (<) (map fst get2set_map)"
  unfolding get2set_map_def list.map fst_conv sorted_adjacent by (intro conjI TrueI) simp_all

lemma sorted_table:
  assumes "sorted_wrt (<) (map fst tab)"
  shows "sorted_array (length tab) (type_cmp tab ty)"
proof
  have mono: "fst (tab ! i) \<le> fst (tab ! j)" if "i \<le> j" "j < length tab" for i j
    using sorted_wrt_nth_less [OF assms, of i j] that by (cases "i = j") auto
  show "type_cmp tab ty (int i) \<noteq> None" if "i < length tab" for i using that by (simp add: type_cmp_def)
  show "\<exists>d>0. type_cmp tab ty (int i) = Some d"
    if "i \<le> j" "j < length tab" "type_cmp tab ty (int j) = Some c" "0 < c" for i j c
    using that mono [OF that(1,2)] by (auto simp: type_cmp_def split: if_splits)
  show "\<exists>d<0. type_cmp tab ty (int j) = Some d"
    if "i \<le> j" "j < length tab" "type_cmp tab ty (int i) = Some c" "c < 0" for i j c
    using that mono [OF that(1,2)] by (auto simp: type_cmp_def split: if_splits)
qed

interpretation set2get: sorted_array "length set2get_map" "type_cmp set2get_map ty" for ty
  by (rule sorted_table [OF set2get_sorted])

interpretation get2set: sorted_array "length get2set_map" "type_cmp get2set_map ty" for ty
  by (rule sorted_table [OF get2set_sorted])

lemma lookup_type_spec:
  assumes "sorted_wrt (<) (map fst tab)"
  shows "lookup_type tab ty = Some (case map_of tab (unat ty) of None \<Rightarrow> 0 | Some g \<Rightarrow> of_nat g)"
proof -
  note sa = sorted_table [OF assms, of ty]
  have d: "distinct (map fst tab)" using assms strict_sorted_iff by blast
  from sorted_array.bisect_spec [OF sa] show ?thesis
  proof (elim disjE exE conjE)
    fix n assume n: "n < length tab" "bisect (type_cmp tab ty) (int (length tab)) = Some (Inl (int n))"
      "type_cmp tab ty (int n) = Some 0"
    then have "fst (tab ! n) = unat ty" by (auto simp: type_cmp_def split: if_splits)
    then have "(unat ty, snd (tab ! n)) \<in> set tab" using n(1) by (metis nth_mem prod.collapse)
    then have "map_of tab (unat ty) = Some (snd (tab ! n))" by (rule map_of_is_SomeI [OF d])
    with n show ?thesis by (simp add: lookup_type_def)
  next
    fix n assume n: "bisect (type_cmp tab ty) (int (length tab)) = Some (Inr (int n))"
    have "fst (tab ! i) \<noteq> unat ty" if "i < length tab" for i
      using sorted_array.bisect_misses [OF sa n that] that by (auto simp: type_cmp_def)
    then have "unat ty \<notin> fst ` set tab" by (metis imageE in_set_conv_nth)
    then have "map_of tab (unat ty) = None" by (simp add: map_of_eq_None_iff)
    with n show ?thesis by (simp add: lookup_type_def)
  qed
qed

text \<open>The two tables are inverse to each other.\<close>

lemma swapped_table: "sort_key fst (map prod.swap set2get_map) = get2set_map"
  unfolding set2get_map_def get2set_map_def by simp

lemma get2set_bound: "list_all (\<lambda>(g, s). g < 2 ^ 32) get2set_map"
  unfolding get2set_map_def list.pred_inject prod.case by (intro conjI TrueI) simp_all

lemma tables_inverse:
  assumes "map_of set2get_map s = Some g"
  shows "map_of get2set_map g = Some s" "g < 2 ^ 32"
proof -
  have "(g, s) \<in> set (map prod.swap set2get_map)" using map_of_SomeD [OF assms] by force
  then have mem: "(g, s) \<in> set get2set_map" using swapped_table set_sort by metis
  show "map_of get2set_map g = Some s"
    using get2set_sorted strict_sorted_iff by (intro map_of_is_SomeI mem) blast
  show "g < 2 ^ 32" using get2set_bound mem by (auto simp: list_all_iff)
qed

text \<open>
  C20. Both searches agree with their tables on every number, so no entry is hidden by a wrong
  order, and reading the association back gives the primitive one started from.
\<close>

theorem primitive_type_tables:
  "esif_primitive_type_set2get s = Some (case map_of set2get_map (unat s) of None \<Rightarrow> 0 | Some g \<Rightarrow> of_nat g)
   \<and> esif_primitive_type_get2set g = Some (case map_of get2set_map (unat g) of None \<Rightarrow> 0 | Some s \<Rightarrow> of_nat s)
   \<and> (map_of set2get_map (unat s) = None
      \<or> Option.bind (esif_primitive_type_set2get s) esif_primitive_type_get2set = Some s)"
proof (intro conjI)
  note s2g = lookup_type_spec [OF set2get_sorted, folded esif_primitive_type_set2get_def]
  note g2s = lookup_type_spec [OF get2set_sorted, folded esif_primitive_type_get2set_def]
  show "esif_primitive_type_set2get s = Some (case map_of set2get_map (unat s) of None \<Rightarrow> 0 | Some g \<Rightarrow> of_nat g)"
    by (rule s2g)
  show "esif_primitive_type_get2set g = Some (case map_of get2set_map (unat g) of None \<Rightarrow> 0 | Some s \<Rightarrow> of_nat s)"
    by (rule g2s)
  show "map_of set2get_map (unat s) = None
      \<or> Option.bind (esif_primitive_type_set2get s) esif_primitive_type_get2set = Some s"
  proof (cases "map_of set2get_map (unat s)")
    case (Some g)
    note g = tables_inverse [OF Some]
    then have "unat (of_nat g :: u32) = g" by (simp add: unat_of_nat_eq_len)
    with Some g(1) show ?thesis by (simp add: s2g g2s)
  qed simp
qed

end
