(* ===== verification/Arb_Entry.thy ===== *)
theory Arb_Entry
  imports Esif_Queue Esif_Data Primitive_Type
begin

text \<open>
  Arbitration entries of \<^verbatim>\<open>src/ESIF/Products/ESIF_UF/Sources/esif_uf_arbmgr.c\<close>. The policies that run as
  applications ask for different values of the same control; for each primitive, domain and instance
  an \<open>EsifArbEntry\<close> keeps one request per application in a linked list, the winner first, and queues the
  winner's value, cut to the limits of the entry, for a thread that executes it.

  A request is a value that carries the address of its data: the code compares those addresses to
  see whether the winner has changed. Requests live in the nodes of \<open>req_heap\<close>, queued primitives in the
  nodes of \<open>prim_heap\<close>; both are heaps of the list theory, each with its allocator. The names kept for
  tracing are left out.
\<close>

section \<open>State\<close>

type_synonym esif_arbitration_type_t = u32

abbreviation (input) ESIF_ARBITRATION_UIN32_GREATER_THAN :: esif_arbitration_type_t where
  "ESIF_ARBITRATION_UIN32_GREATER_THAN \<equiv> 1"
abbreviation (input) ESIF_ARBITRATION_UIN32_LESS_THAN :: esif_arbitration_type_t where
  "ESIF_ARBITRATION_UIN32_LESS_THAN \<equiv> 2"
abbreviation (input) ESIF_ARB_LIMIT_MIN :: u32 where "ESIF_ARB_LIMIT_MIN \<equiv> 0"
abbreviation (input) ESIF_ARB_LIMIT_MAX :: u32 where "ESIF_ARB_LIMIT_MAX \<equiv> -1"

record EsifArbReq =
  appHandle :: esif_handle_t
  reqPtr :: EsifDataPtr

record EsifArbEntryParams =
  par_primitiveId :: u32
  par_domain :: u16
  par_instance :: u8
  par_arbType :: esif_arbitration_type_t
  par_upperLimit :: u32
  par_lowerLimit :: u32

record EsifArbEntry =
  primitiveId :: u32
  domain :: u16
  entry_instance :: u8
  arbType :: esif_arbitration_type_t
  upperLimit :: u32
  lowerLimit :: u32
  arbitrationEnabled :: bool
  arbRequests :: esif_link_list
  participantId :: esif_handle_t
  refCount :: u32
  markedForDelete :: bool
  deleteEvent :: bool

record EsifArbPrimReq =
  pr_participantId :: esif_handle_t
  pr_primitiveId :: u32
  pr_domain :: u16
  pr_instance :: u8
  reqDataPtr :: EsifDataPtr
  rspDataPtr :: "addr option"
  completionEventPtr :: "addr option"
  completionStatusPtr :: "addr option"
  reqDataRequiresRelease :: bool
  requiresDelay :: bool
  delayedPrimitiveId :: u32
  isDummyRequest :: bool

record EsifArbMgr =
  mgr_arbitrationEnabled :: bool
  primitiveQueuePtr :: "esif_queue_instance option"
  primitiveQueueExitFlag :: bool

text \<open>The manager, the two heaps, and the completion events that have been set so far.\<close>

record arb_world =
  g_arbMgr :: EsifArbMgr
  req_heap :: "EsifArbReq ll_heap"
  prim_heap :: "EsifArbPrimReq ll_heap"
  set_events :: "addr list"

abbreviation upd_queue :: "esif_queue_instance option \<Rightarrow> arb_world \<Rightarrow> arb_world" where
  "upd_queue q w \<equiv> w\<lparr>g_arbMgr := (g_arbMgr w)\<lparr>primitiveQueuePtr := q\<rparr>\<rparr>"

section \<open>Arbitration functions\<close>

text \<open>
  The bitwise or of two status codes. Only 0, 2300 (\<^verbatim>\<open>ESIF_E_PARAMETER_IS_NULL\<close>) and 2301
  (\<^verbatim>\<open>ESIF_E_PARAMETER_IS_OUT_OF_BOUNDS\<close>) occur, and 2300 or 2301 is 2301.
\<close>

definition rc_or :: "esif_rc \<Rightarrow> esif_rc \<Rightarrow> esif_rc" where
  "rc_or a b = (if a = ESIF_OK then b else if b = ESIF_OK then a
     else if a = ESIF_E_PARAMETER_IS_NULL \<and> b = ESIF_E_PARAMETER_IS_NULL then ESIF_E_PARAMETER_IS_NULL
     else ESIF_E_PARAMETER_IS_OUT_OF_BOUNDS)"

text \<open>
  What both functions read of a request: whether there is a buffer at all, and the value when the
  buffer is large enough. Reading a value from a buffer that is shorter than it claims is undefined.
\<close>

datatype arb_value = NoData | ShortData | Value u32

definition req_value :: "EsifArbReq option \<Rightarrow> arb_value option" where
  "req_value req =
     (case req of None \<Rightarrow> Some NoData
      | Some r \<Rightarrow>
          (case reqPtr r of None \<Rightarrow> Some NoData
           | Some (_, d) \<Rightarrow>
               (case buf_ptr d of None \<Rightarrow> Some NoData
                | Some b \<Rightarrow> if 4 \<le> buf_len d then map_option Value (get_u32 b) else Some ShortData)))"

text \<open>
  The result is the status, whether each request is valid, and the outcome. The second block of the
  code also writes \<^verbatim>\<open>req1Rc\<close>: a second request with data makes the status of the first out of bounds
  unless both are valid.
\<close>

type_synonym arb_func = "EsifArbReq option \<Rightarrow> EsifArbReq option \<Rightarrow> (esif_rc \<times> bool \<times> bool \<times> int) option"

definition arb_function :: "(u32 \<Rightarrow> u32 \<Rightarrow> int) \<Rightarrow> arb_func" where
  "arb_function compare req1 req2 = do {
     v1 \<leftarrow> req_value req1;
     v2 \<leftarrow> req_value req2;
     let req1Rc = (case v1 of NoData \<Rightarrow> ESIF_E_PARAMETER_IS_NULL
                   | ShortData \<Rightarrow> ESIF_E_PARAMETER_IS_OUT_OF_BOUNDS | Value _ \<Rightarrow> ESIF_OK);
         req1Rc' = (case v2 of NoData \<Rightarrow> req1Rc | _ \<Rightarrow> ESIF_E_PARAMETER_IS_OUT_OF_BOUNDS);
         req2Rc = (case v2 of Value _ \<Rightarrow> ESIF_OK | _ \<Rightarrow> ESIF_E_PARAMETER_IS_NULL);
         rc = rc_or req1Rc' req2Rc in
     (case (v1, v2) of
        (Value a, Value b) \<Rightarrow> Some (ESIF_OK, True, True, compare a b)
      | (Value _, _) \<Rightarrow> Some (rc, True, False, 0)
      | (_, Value _) \<Rightarrow> Some (rc, False, True, 0)
      | _ \<Rightarrow> Some (rc, False, False, 0)) }"

definition EsifArbFunction_UInt32_GreaterThan :: arb_func where
  "EsifArbFunction_UInt32_GreaterThan =
     arb_function (\<lambda>data1 data2. if data1 > data2 then 1 else if data1 < data2 then -1 else 0)"

definition EsifArbFunction_UInt32_LessThan :: arb_func where
  "EsifArbFunction_UInt32_LessThan =
     arb_function (\<lambda>data1 data2. if data1 < data2 then 1 else if data1 > data2 then -1 else 0)"

definition g_arbitrationFunctions :: "arb_func option list" where
  "g_arbitrationFunctions =
     [None, Some EsifArbFunction_UInt32_GreaterThan, Some EsifArbFunction_UInt32_LessThan]"

definition GetArbitrationFunction :: "esif_arbitration_type_t \<Rightarrow> arb_func option" where
  "GetArbitrationFunction funcType =
     (if unat funcType < length g_arbitrationFunctions then g_arbitrationFunctions ! unat funcType else None)"

section \<open>Requests\<close>

definition EsifArbReq_GetAppHandle :: "EsifArbReq option \<Rightarrow> esif_handle_t" where
  "EsifArbReq_GetAppHandle self = (case self of None \<Rightarrow> ESIF_INVALID_HANDLE | Some r \<Rightarrow> appHandle r)"

definition EsifArbReq_GetRequestData :: "EsifArbReq option \<Rightarrow> EsifDataPtr" where
  "EsifArbReq_GetRequestData self = (case self of None \<Rightarrow> None | Some r \<Rightarrow> reqPtr r)"

definition EsifArbReq_Create ::
    "esif_handle_t \<Rightarrow> EsifData option \<Rightarrow> EsifArbReq ll_heap \<Rightarrow> (EsifArbReq option \<times> EsifArbReq ll_heap) option" where
  "EsifArbReq_Create app req h =
     (case esif_ccb_malloc h of
        (None, h1) \<Rightarrow> Some (None, h1)
      | (Some _, h1) \<Rightarrow> do {
          (p, h2) \<leftarrow> EsifData_Clone req h1;
          Some (if p = None then None else Some \<lparr>appHandle = app, reqPtr = p\<rparr>, h2) })"

section \<open>Primitive requests\<close>

definition EsifArbPrimReq_Destroy :: "EsifArbPrimReq option \<Rightarrow> arb_world \<Rightarrow> arb_world" where
  "EsifArbPrimReq_Destroy self w =
     (case self of None \<Rightarrow> w
      | Some r \<Rightarrow> if isDummyRequest r then w
                  else (case completionEventPtr r of None \<Rightarrow> w
                        | Some e \<Rightarrow> w\<lparr>set_events := set_events w @ [e]\<rparr>))"

definition EsifArbPrimReq_Create ::
    "esif_handle_t \<Rightarrow> u32 \<Rightarrow> u16 \<Rightarrow> u8 \<Rightarrow> EsifData option \<Rightarrow> addr option \<Rightarrow> addr option \<Rightarrow> addr option \<Rightarrow> bool
     \<Rightarrow> arb_world \<Rightarrow> (EsifArbPrimReq option \<times> arb_world) option" where
  "EsifArbPrimReq_Create part prim dmn inst request response event status delay w =
     (case esif_ccb_malloc (prim_heap w) of
        (None, h1) \<Rightarrow> Some (None, w\<lparr>prim_heap := h1\<rparr>)
      | (Some _, h1) \<Rightarrow>
          let self = \<lparr>pr_participantId = part, pr_primitiveId = prim, pr_domain = dmn, pr_instance = inst,
                reqDataPtr = None, rspDataPtr = response, completionEventPtr = event,
                completionStatusPtr = status, reqDataRequiresRelease = False, requiresDelay = delay,
                delayedPrimitiveId = 0, isDummyRequest = False\<rparr> in
          (case request of
             None \<Rightarrow> Some (Some self, w\<lparr>prim_heap := h1\<rparr>)
           | Some _ \<Rightarrow> do {
               (p, h2) \<leftarrow> EsifData_Clone request h1;
               delayed \<leftarrow> (if delay then esif_primitive_type_set2get prim else Some 0);
               let self1 = self\<lparr>reqDataPtr := p, delayedPrimitiveId := delayed\<rparr>;
                   w1 = w\<lparr>prim_heap := h2\<rparr> in
               if p = None then Some (None, EsifArbPrimReq_Destroy (Some self1) w1)
               else Some (Some (self1\<lparr>reqDataRequiresRelease := True\<rparr>), w1) }))"

text \<open>
  The queue takes the request and, when reads of the same control must wait for it, a copy marked as
  a dummy right behind it. The status of the second enqueue is not looked at.
\<close>

definition queue_dummy :: "EsifArbPrimReq \<Rightarrow> arb_world \<Rightarrow> arb_world option" where
  "queue_dummy r w =
     (if requiresDelay r \<and> delayedPrimitiveId r \<noteq> 0
      then (case esif_ccb_malloc (prim_heap w) of
          (None, h) \<Rightarrow> Some (w\<lparr>prim_heap := h\<rparr>)
        | (Some _, h) \<Rightarrow> do {
            (_, q', h') \<leftarrow> esif_queue_enqueue (primitiveQueuePtr (g_arbMgr w)) (Some (r\<lparr>isDummyRequest := True\<rparr>)) h;
            Some (upd_queue q' w\<lparr>prim_heap := h'\<rparr>) })
      else Some w)"

definition EsifArbMgr_QueuePrimitiveRequest_Locked ::
    "esif_handle_t \<Rightarrow> u32 \<Rightarrow> u16 \<Rightarrow> u8 \<Rightarrow> EsifData option \<Rightarrow> addr option \<Rightarrow> addr option \<Rightarrow> addr option \<Rightarrow> bool
     \<Rightarrow> arb_world \<Rightarrow> (esif_rc \<times> arb_world) option" where
  "EsifArbMgr_QueuePrimitiveRequest_Locked part prim dmn inst request response event status delay w = do {
     (pr, w1) \<leftarrow> EsifArbPrimReq_Create part prim dmn inst request response event status delay w;
     (case pr of
        None \<Rightarrow> Some (ESIF_E_NO_MEMORY, w1)
      | Some r \<Rightarrow> do {
          (rc, q', h') \<leftarrow> esif_queue_enqueue (primitiveQueuePtr (g_arbMgr w1)) (Some r) (prim_heap w1);
          w2 \<leftarrow> queue_dummy r (upd_queue q' w1\<lparr>prim_heap := h'\<rparr>);
          Some (rc, w2) }) }"

section \<open>Entries\<close>

definition EsifArbEntry_GetRef :: "EsifArbEntry option \<Rightarrow> esif_rc \<times> EsifArbEntry option" where
  "EsifArbEntry_GetRef self =
     (case self of None \<Rightarrow> (ESIF_E_PARAMETER_IS_NULL, None)
      | Some e \<Rightarrow> if \<not> markedForDelete e then (ESIF_OK, Some (e\<lparr>refCount := refCount e + 1\<rparr>))
                  else (ESIF_E_UNSPECIFIED, Some e))"

definition EsifArbEntry_PutRef :: "EsifArbEntry option \<Rightarrow> EsifArbEntry option" where
  "EsifArbEntry_PutRef self =
     (case self of None \<Rightarrow> None
      | Some e \<Rightarrow> let e1 = e\<lparr>refCount := refCount e - 1\<rparr> in
          Some (if refCount e1 = 0 \<and> markedForDelete e1 then e1\<lparr>deleteEvent := True\<rparr> else e1))"

definition EsifArbEntry_Create ::
    "EsifArbEntryParams option \<Rightarrow> esif_handle_t \<Rightarrow> arb_world \<Rightarrow> (addr \<times> EsifArbEntry) option \<times> arb_world" where
  "EsifArbEntry_Create params part w =
     (case esif_ccb_malloc (req_heap w) of
        (None, h) \<Rightarrow> (None, w\<lparr>req_heap := h\<rparr>)
      | (Some a, h) \<Rightarrow>
          (let zero = \<lparr>primitiveId = 0, domain = 0, entry_instance = 0, arbType = 0, upperLimit = 0, lowerLimit = 0,
                 arbitrationEnabled = False, arbRequests = \<lparr>head_ptr = None, tail_ptr = None, nodes = 0\<rparr>,
                 participantId = 0, refCount = 0, markedForDelete = False, deleteEvent = False\<rparr>
           in (Some (a, case params of None \<Rightarrow> zero
                | Some p \<Rightarrow> zero\<lparr>arbType := par_arbType p, entry_instance := par_instance p, domain := par_domain p,
                    lowerLimit := par_lowerLimit p, upperLimit := par_upperLimit p, primitiveId := par_primitiveId p,
                    arbitrationEnabled := True, refCount := 1, participantId := part\<rparr>),
               w\<lparr>req_heap := h\<rparr>)))"

text \<open>
  Destruction waits until the last reference is gone. The result is \<open>None\<close> once the entry is freed;
  \<open>Some e\<close> is the entry of a caller that sits in the wait because somebody still holds a reference.
\<close>

definition EsifArbEntry_Destroy ::
    "EsifArbEntry option \<Rightarrow> arb_world \<Rightarrow> (EsifArbEntry option \<times> arb_world) option" where
  "EsifArbEntry_Destroy self w =
     (case self of
        None \<Rightarrow> Some (None, w)
      | Some e \<Rightarrow>
          (case EsifArbEntry_PutRef (Some (e\<lparr>markedForDelete := True\<rparr>)) of
             None \<Rightarrow> None
           | Some e1 \<Rightarrow>
               if deleteEvent e1 then do {
                 (_, h, _) \<leftarrow> esif_link_list_free_data (Some (arbRequests e1)) True (req_heap w);
                 Some (None, w\<lparr>req_heap := h\<rparr>) }
               else Some (Some e1, w)))"

text \<open>
  The loop of \<^verbatim>\<open>EsifArbEntry_ArbitrateRequest_Locked\<close>: the application's old request is removed, and the
  new one takes the node of the first request it beats, whose data move to a new node behind it.
\<close>

partial_function (option) arbitrate_loop ::
    "arb_func option \<Rightarrow> EsifArbReq \<Rightarrow> esif_link_list \<Rightarrow> addr option \<Rightarrow> bool \<Rightarrow> bool \<Rightarrow> EsifArbReq ll_heap
     \<Rightarrow> (esif_link_list \<times> bool \<times> EsifArbReq ll_heap) option" where
  "arbitrate_loop arbFunc req l cur isInserted isOldRemoved h =
     (case cur of
        None \<Rightarrow> Some (l, isInserted, h)
      | Some c \<Rightarrow>
          if isInserted \<and> isOldRemoved then Some (l, isInserted, h)
          else do {
            n \<leftarrow> deref h cur;
            (case data_ptr n of
               None \<Rightarrow> arbitrate_loop arbFunc req l (next_ptr n) isInserted isOldRemoved h
             | Some curReq \<Rightarrow>
                 if EsifArbReq_GetAppHandle (Some curReq) = EsifArbReq_GetAppHandle (Some req) then do {
                   (l', h') \<leftarrow> esif_link_list_node_remove (Some l) cur h;
                   arbitrate_loop arbFunc req (the l') (next_ptr n) isInserted True h' }
                 else (case arbFunc of
                     None \<Rightarrow> arbitrate_loop arbFunc req l (next_ptr n) isInserted isOldRemoved h
                   | Some f \<Rightarrow>
                       if isInserted then arbitrate_loop arbFunc req l (next_ptr n) isInserted isOldRemoved h
                       else do {
                         (rc, isArbitable, _, arbResult) \<leftarrow> f (Some req) (Some curReq);
                         if (rc = ESIF_OK \<and> arbResult > 0) \<or> (rc \<noteq> ESIF_OK \<and> isArbitable) then do {
                           (_, l', h1) \<leftarrow> esif_link_list_add_after (Some l) cur (Some curReq) h;
                           h2 \<leftarrow> node_write h1 cur (\<lambda>m. m\<lparr>data_ptr := Some req\<rparr>);
                           arbitrate_loop arbFunc req (the l') (next_ptr n) True isOldRemoved h2 }
                         else arbitrate_loop arbFunc req l (next_ptr n) isInserted isOldRemoved h }))
          })"

definition EsifArbEntry_ArbitrateRequest_Locked ::
    "EsifArbEntry option \<Rightarrow> EsifArbReq option \<Rightarrow> EsifArbReq ll_heap
     \<Rightarrow> (esif_rc \<times> EsifArbEntry option \<times> EsifArbReq ll_heap) option" where
  "EsifArbEntry_ArbitrateRequest_Locked self req h =
     (case (self, req) of
        (Some e, Some r) \<Rightarrow> do {
          (l, isInserted, h1) \<leftarrow>
            arbitrate_loop (GetArbitrationFunction (arbType e)) r (arbRequests e) (head_ptr (arbRequests e)) False False h;
          if isInserted then Some (ESIF_OK, Some (e\<lparr>arbRequests := l\<rparr>), h1)
          else do {
            (_, l', h2) \<leftarrow> esif_link_list_add_at_back (Some l) (Some r) h1;
            Some (ESIF_OK, Some (e\<lparr>arbRequests := the l'\<rparr>), h2) } }
      | _ \<Rightarrow> Some (ESIF_E_PARAMETER_IS_NULL, self, h))"

definition EsifArbEntry_InsertRequest_Locked ::
    "EsifArbEntry option \<Rightarrow> esif_handle_t \<Rightarrow> EsifData option \<Rightarrow> EsifArbReq ll_heap
     \<Rightarrow> (esif_rc \<times> EsifArbEntry option \<times> EsifArbReq ll_heap) option" where
  "EsifArbEntry_InsertRequest_Locked self app request h =
     (if self \<noteq> None \<and> request \<noteq> None then do {
        (req, h1) \<leftarrow> EsifArbReq_Create app request h;
        EsifArbEntry_ArbitrateRequest_Locked self req h1 }
      else Some (ESIF_E_PARAMETER_IS_NULL, self, h))"

definition EsifArbEntry_GetArbitratedRequestData_Locked ::
    "EsifArbEntry option \<Rightarrow> EsifArbReq ll_heap \<Rightarrow> EsifDataPtr option" where
  "EsifArbEntry_GetArbitratedRequestData_Locked self h =
     (case self of None \<Rightarrow> Some None
      | Some e \<Rightarrow> if head_ptr (arbRequests e) = None then Some None
                  else do { n \<leftarrow> deref h (head_ptr (arbRequests e));
                            Some (EsifArbReq_GetRequestData (data_ptr n)) })"

definition EsifArbEntry_CreateLimitedData_Locked ::
    "EsifArbEntry option \<Rightarrow> EsifData option \<Rightarrow> EsifArbReq ll_heap \<Rightarrow> (EsifDataPtr \<times> EsifArbReq ll_heap) option" where
  "EsifArbEntry_CreateLimitedData_Locked self dataPtr h =
     (case (self, dataPtr) of
        (Some e, Some d) \<Rightarrow>
          (case buf_ptr d of
             None \<Rightarrow> Some (None, h)
           | Some b \<Rightarrow>
               if 4 \<le> buf_len d then do {
                 unlimitedValue \<leftarrow> get_u32 b;
                 let limitedValue = min (max unlimitedValue (lowerLimit e)) (upperLimit e) in
                 if unlimitedValue \<noteq> limitedValue then do {
                   (p, h1) \<leftarrow> EsifData_Clone dataPtr h;
                   (case p of
                      None \<Rightarrow> Some (None, h1)
                    | Some (a, c) \<Rightarrow>
                        (case buf_ptr c of
                           None \<Rightarrow> None
                         | Some cb \<Rightarrow> if 4 \<le> length cb
                             then Some (Some (a, c\<lparr>buf_ptr := Some (put_u32 limitedValue cb)\<rparr>), h1) else None)) }
                 else Some (None, h) }
               else Some (None, h))
      | _ \<Rightarrow> Some (None, h))"

definition EsifArbEntry_QueueLimitedPrimitiveRequest_Locked ::
    "EsifArbEntry option \<Rightarrow> EsifDataPtr \<Rightarrow> bool \<Rightarrow> arb_world \<Rightarrow> (esif_rc \<times> arb_world) option" where
  "EsifArbEntry_QueueLimitedPrimitiveRequest_Locked self request delay w =
     (case (self, request) of
        (Some e, Some (_, d)) \<Rightarrow> do {
          (limited, h) \<leftarrow> EsifArbEntry_CreateLimitedData_Locked self (Some d) (req_heap w);
          EsifArbMgr_QueuePrimitiveRequest_Locked (participantId e) (primitiveId e) (domain e) (entry_instance e)
            (Some (case limited of Some (_, c) \<Rightarrow> c | None \<Rightarrow> d)) None None None delay (w\<lparr>req_heap := h\<rparr>) }
      | _ \<Rightarrow> Some (ESIF_E_PARAMETER_IS_NULL, w))"

text \<open>The comparison of the addresses of the winner's data before and after a change.\<close>

definition queue_if_changed ::
    "EsifArbEntry option \<Rightarrow> EsifDataPtr \<Rightarrow> bool \<Rightarrow> arb_world \<Rightarrow> (esif_rc \<times> arb_world) option" where
  "queue_if_changed self prev delay w = do {
     cur \<leftarrow> EsifArbEntry_GetArbitratedRequestData_Locked self (req_heap w);
     if cur \<noteq> None \<and> map_option fst cur \<noteq> map_option fst prev
     then EsifArbEntry_QueueLimitedPrimitiveRequest_Locked self cur delay w
     else Some (ESIF_OK, w) }"

definition EsifArbEntry_ExecutePrimitive ::
    "EsifArbEntry option \<Rightarrow> esif_handle_t \<Rightarrow> EsifData option \<Rightarrow> arb_world
     \<Rightarrow> (esif_rc \<times> EsifArbEntry option \<times> arb_world) option" where
  "EsifArbEntry_ExecutePrimitive self app request w =
     (case self of
        None \<Rightarrow> Some (ESIF_E_PARAMETER_IS_NULL, self, w)
      | Some e \<Rightarrow>
          if arbitrationEnabled e then do {
            prev \<leftarrow> EsifArbEntry_GetArbitratedRequestData_Locked self (req_heap w);
            (rc, self1, h) \<leftarrow> EsifArbEntry_InsertRequest_Locked self app request (req_heap w);
            let w1 = w\<lparr>req_heap := h\<rparr> in
            if rc = ESIF_OK then do {
              (rc', w2) \<leftarrow> queue_if_changed self1 prev True w1;
              Some (rc', self1, w2) }
            else Some (rc, self1, w1) }
          else Some (ESIF_E_NOT_SUPPORTED, self, w))"

definition EsifArbEntry_SetLimits ::
    "EsifArbEntry option \<Rightarrow> u32 option \<Rightarrow> u32 option \<Rightarrow> arb_world
     \<Rightarrow> (esif_rc \<times> EsifArbEntry option \<times> arb_world) option" where
  "EsifArbEntry_SetLimits self upper lower w =
     (case self of
        None \<Rightarrow> Some (ESIF_E_PARAMETER_IS_NULL, self, w)
      | Some e \<Rightarrow>
          (let newUpper = (case upper of Some u \<Rightarrow> u | None \<Rightarrow> upperLimit e);
               newLower = (case lower of Some l \<Rightarrow> l | None \<Rightarrow> lowerLimit e) in
           if newUpper \<ge> newLower then
             if upperLimit e \<noteq> newUpper \<or> lowerLimit e \<noteq> newLower then
               (let e1 = e\<lparr>upperLimit := newUpper, lowerLimit := newLower\<rparr> in do {
                 d \<leftarrow> EsifArbEntry_GetArbitratedRequestData_Locked (Some e1) (req_heap w);
                 (_, w1) \<leftarrow> EsifArbEntry_QueueLimitedPrimitiveRequest_Locked (Some e1) d False w;
                 Some (ESIF_OK, Some e1, w1) })
             else Some (ESIF_OK, self, w)
           else Some (ESIF_E_PARAMETER_IS_OUT_OF_BOUNDS, self, w)))"

definition EsifArbEntry_PurgeRequests_Locked ::
    "EsifArbEntry option \<Rightarrow> arb_world \<Rightarrow> (EsifArbEntry option \<times> arb_world) option" where
  "EsifArbEntry_PurgeRequests_Locked self w =
     (case self of
        None \<Rightarrow> Some (None, w)
      | Some e \<Rightarrow> do {
          (l, h, _) \<leftarrow> esif_link_list_free_data (Some (arbRequests e)) True (req_heap w);
          Some (Some (e\<lparr>arbRequests := the l\<rparr>), w\<lparr>req_heap := h\<rparr>) })"

definition EsifArbEntry_PurgeRequests ::
    "EsifArbEntry option \<Rightarrow> arb_world \<Rightarrow> (EsifArbEntry option \<times> arb_world) option" where
  "EsifArbEntry_PurgeRequests self w =
     (case self of None \<Rightarrow> Some (None, w) | Some _ \<Rightarrow> EsifArbEntry_PurgeRequests_Locked self w)"

definition EsifArbEntry_SetArbitrationState ::
    "EsifArbEntry option \<Rightarrow> bool \<Rightarrow> arb_world \<Rightarrow> (esif_rc \<times> EsifArbEntry option \<times> arb_world) option" where
  "EsifArbEntry_SetArbitrationState self isEnabled w =
     (case self of
        None \<Rightarrow> Some (ESIF_E_PARAMETER_IS_NULL, self, w)
      | Some e \<Rightarrow>
          (let e1 = e\<lparr>arbitrationEnabled := isEnabled\<rparr> in
           if isEnabled then Some (ESIF_OK, Some e1, w)
           else do { (e2, w1) \<leftarrow> EsifArbEntry_PurgeRequests_Locked (Some e1) w; Some (ESIF_OK, e2, w1) }))"

text \<open>Rearbitration empties the list of the entry and inserts the nodes of the old list one by one.\<close>

partial_function (option) rearbitrate_loop ::
    "EsifArbEntry option \<Rightarrow> esif_link_list \<Rightarrow> EsifArbReq ll_heap
     \<Rightarrow> (EsifArbEntry option \<times> EsifArbReq ll_heap) option" where
  "rearbitrate_loop self temp h =
     (case head_ptr temp of
        None \<Rightarrow> Some (self, h)
      | Some c \<Rightarrow> do {
          n \<leftarrow> deref h (Some c);
          (_, self1, h1) \<leftarrow> EsifArbEntry_ArbitrateRequest_Locked self (data_ptr n) h;
          (temp1, h2) \<leftarrow> esif_link_list_node_remove (Some temp) (Some c) h1;
          rearbitrate_loop self1 (the temp1) h2 })"

definition EsifArbEntry_RearbitrateRequests_Locked ::
    "EsifArbEntry option \<Rightarrow> EsifArbReq ll_heap \<Rightarrow> (esif_rc \<times> EsifArbEntry option \<times> EsifArbReq ll_heap) option" where
  "EsifArbEntry_RearbitrateRequests_Locked self h =
     (case self of
        None \<Rightarrow> Some (ESIF_E_PARAMETER_IS_NULL, self, h)
      | Some e \<Rightarrow> do {
          (self1, h1) \<leftarrow> rearbitrate_loop
             (Some (e\<lparr>arbRequests := \<lparr>head_ptr = None, tail_ptr = None, nodes = 0\<rparr>\<rparr>)) (arbRequests e) h;
          Some (ESIF_OK, self1, h1) })"

definition EsifArbEntry_SetArbitrationFunction ::
    "EsifArbEntry option \<Rightarrow> esif_arbitration_type_t \<Rightarrow> arb_world
     \<Rightarrow> (esif_rc \<times> EsifArbEntry option \<times> arb_world) option" where
  "EsifArbEntry_SetArbitrationFunction self ty w =
     (case self of
        None \<Rightarrow> Some (ESIF_E_PARAMETER_IS_NULL, self, w)
      | Some e \<Rightarrow>
          (case GetArbitrationFunction ty of
             None \<Rightarrow> Some (ESIF_E_PARAMETER_IS_OUT_OF_BOUNDS, self, w)
           | Some _ \<Rightarrow> do {
               let e1 = e\<lparr>arbType := ty\<rparr>;
               prev \<leftarrow> EsifArbEntry_GetArbitratedRequestData_Locked (Some e1) (req_heap w);
               (rc, self1, h) \<leftarrow> EsifArbEntry_RearbitrateRequests_Locked (Some e1) (req_heap w);
               let w1 = w\<lparr>req_heap := h\<rparr>;
               if rc = ESIF_OK then do {
                 (rc', w2) \<leftarrow> queue_if_changed self1 prev False w1;
                 Some (rc', self1, w2) }
               else Some (rc, self1, w1) }))"

partial_function (option) remove_app_loop ::
    "esif_handle_t \<Rightarrow> esif_link_list \<Rightarrow> addr option \<Rightarrow> EsifArbReq ll_heap
     \<Rightarrow> (esif_link_list \<times> EsifArbReq ll_heap) option" where
  "remove_app_loop app l cur h =
     (case cur of
        None \<Rightarrow> Some (l, h)
      | Some c \<Rightarrow> do {
          n \<leftarrow> deref h cur;
          if app = EsifArbReq_GetAppHandle (data_ptr n) then do {
            (l', h') \<leftarrow> esif_link_list_node_remove (Some l) cur h;
            remove_app_loop app (the l') (next_ptr n) h' }
          else remove_app_loop app l (next_ptr n) h })"

definition EsifArbEntry_RemoveApp ::
    "EsifArbEntry option \<Rightarrow> esif_handle_t \<Rightarrow> arb_world \<Rightarrow> (EsifArbEntry option \<times> arb_world) option" where
  "EsifArbEntry_RemoveApp self app w =
     (case self of
        None \<Rightarrow> Some (None, w)
      | Some e \<Rightarrow> do {
          prev \<leftarrow> EsifArbEntry_GetArbitratedRequestData_Locked self (req_heap w);
          (l, h) \<leftarrow> remove_app_loop app (arbRequests e) (head_ptr (arbRequests e)) (req_heap w);
          let self1 = Some (e\<lparr>arbRequests := l\<rparr>);
          (_, w1) \<leftarrow> queue_if_changed self1 prev False (w\<lparr>req_heap := h\<rparr>);
          Some (self1, w1) })"

definition EsifArbEntry_IsMatchingEntry :: "EsifArbEntry option \<Rightarrow> u32 \<Rightarrow> u16 \<Rightarrow> u8 \<Rightarrow> bool" where
  "EsifArbEntry_IsMatchingEntry self prim dmn inst =
     (case self of None \<Rightarrow> False
      | Some e \<Rightarrow> prim = primitiveId e \<and> dmn = domain e \<and> inst = entry_instance e)"

end
