(* ===== verification/Arb_List.thy ===== *)
theory Arb_List
  imports Arb_Entry "HOL-Library.Multiset"
begin

text \<open>
  What the list operations of an arbitration entry do, seen as operations on the sequence of its
  requests. \<open>rank\<close> orders the requests the way an arbitration function does; \<open>insert_req\<close> is the
  insertion the loop performs, and with one request per application the list is at any time the
  stable sort, by rank, of the latest request of every application.
\<close>

section \<open>Ranks\<close>

definition req_val :: "EsifArbReq \<Rightarrow> u32 option" where
  "req_val r = (case reqPtr r of None \<Rightarrow> None
     | Some (_, d) \<Rightarrow> (case buf_ptr d of None \<Rightarrow> None | Some b \<Rightarrow> if 4 \<le> buf_len d then get_u32 b else None))"

definition rank :: "esif_arbitration_type_t \<Rightarrow> EsifArbReq \<Rightarrow> nat" where
  "rank ty r =
     (case req_val r of None \<Rightarrow> 0
      | Some v \<Rightarrow> if ty = ESIF_ARBITRATION_UIN32_GREATER_THAN then Suc (unat v)
                  else if ty = ESIF_ARBITRATION_UIN32_LESS_THAN then 2 ^ 32 - unat v else 0)"

definition req_ok :: "EsifArbReq \<Rightarrow> bool" where
  "req_ok r \<longleftrightarrow> (case reqPtr r of None \<Rightarrow> False | Some (_, d) \<Rightarrow> data_ok d)"

lemma data_ok_u32:
  assumes "data_ok d" "buf_ptr d = Some b" "4 \<le> buf_len d"
  shows "\<exists>v. get_u32 b = Some v" "4 \<le> length b"
proof -
  have "4 \<le> unat (buf_len d)" using assms(3) by (simp add: word_le_nat_alt)
  moreover from this have "buf_len d \<noteq> 0" by auto
  ultimately show "4 \<le> length b" using assms(1,2) by (auto simp: data_ok_def)
  then show "\<exists>v. get_u32 b = Some v" by (rule get_u32_ok)
qed

lemma req_value_ok:
  assumes "req_ok r"
  shows "\<exists>v. req_value (Some r) = Some v \<and> req_val r = (case v of Value x \<Rightarrow> Some x | _ \<Rightarrow> None)"
proof -
  obtain a d where d: "reqPtr r = Some (a, d)" "data_ok d" using assms by (auto simp: req_ok_def split: option.splits)
  show ?thesis
  proof (cases "buf_ptr d")
    case (Some b)
    then show ?thesis using d data_ok_u32 [OF d(2) Some] by (auto simp: req_value_def req_val_def)
  qed (use d in \<open>simp add: req_value_def req_val_def\<close>)
qed

text \<open>The test of the loop is the comparison of ranks.\<close>

definition beats :: "esif_rc \<times> bool \<times> bool \<times> int \<Rightarrow> bool" where
  "beats = (\<lambda>(rc, isArbitable, _, arbResult). (rc = ESIF_OK \<and> arbResult > 0) \<or> (rc \<noteq> ESIF_OK \<and> isArbitable))"

lemma function_cases:
  assumes "GetArbitrationFunction ty = Some f"
  obtains "ty = ESIF_ARBITRATION_UIN32_GREATER_THAN" "f = EsifArbFunction_UInt32_GreaterThan"
    | "ty = ESIF_ARBITRATION_UIN32_LESS_THAN" "f = EsifArbFunction_UInt32_LessThan"
proof -
  have "unat ty < 3" using assms by (auto simp: GetArbitrationFunction_def g_arbitrationFunctions_def split: if_splits)
  then consider "unat ty = 0" | "unat ty = 1" | "unat ty = 2" by linarith
  then show thesis
  proof cases
    case 2
    then have "ty = 1" by (simp add: word_unat_eq_iff)
    with 2 that(1) assms show ?thesis by (simp add: GetArbitrationFunction_def g_arbitrationFunctions_def)
  next
    case 3
    then have "ty = 2" by (simp add: word_unat_eq_iff)
    with 3 that(2) assms show ?thesis by (simp add: GetArbitrationFunction_def g_arbitrationFunctions_def)
  qed (use assms in \<open>simp add: GetArbitrationFunction_def g_arbitrationFunctions_def\<close>)
qed

lemma function_beats:
  assumes "GetArbitrationFunction ty = Some f" "req_ok r" "req_ok x"
  shows "\<exists>res. f (Some r) (Some x) = Some res \<and> beats res = (rank ty x < rank ty r)"
proof -
  obtain u v where u: "req_value (Some r) = Some u" "req_val r = (case u of Value x \<Rightarrow> Some x | _ \<Rightarrow> None)"
    and v: "req_value (Some x) = Some v" "req_val x = (case v of Value x \<Rightarrow> Some x | _ \<Rightarrow> None)"
    using req_value_ok [OF assms(2)] req_value_ok [OF assms(3)] by auto
  have lt: "unat w < 4294967296" for w :: u32 using unat_less_2p [of w] by simp
  from assms(1) show ?thesis
  proof (cases rule: function_cases)
    case 1
    with u v show ?thesis
      by (auto simp: EsifArbFunction_UInt32_GreaterThan_def arb_function_def beats_def rank_def rc_or_def
          word_less_nat_alt split: arb_value.splits)
  next
    case 2
    with u v show ?thesis
      using lt by (auto simp: EsifArbFunction_UInt32_LessThan_def arb_function_def beats_def rank_def rc_or_def
          word_less_nat_alt diff_less_mono2 split: arb_value.splits)
  qed
qed

lemma no_function_rank: "GetArbitrationFunction ty = None \<Longrightarrow> rank ty r = 0"
  by (auto simp: GetArbitrationFunction_def g_arbitrationFunctions_def rank_def split: option.splits if_splits)

section \<open>The insertion loop\<close>

text \<open>
  The insertion as an operation on sequences. \<open>room\<close> says whether the allocation of the new node
  succeeds: without it the beaten request is overwritten, or the new one is dropped at the end.
\<close>

fun insert_req :: "bool \<Rightarrow> ('r \<Rightarrow> nat) \<Rightarrow> 'r \<Rightarrow> 'r list \<Rightarrow> 'r list" where
  "insert_req room k r [] = (if room then [r] else [])"
| "insert_req room k r (x # xs) =
     (if k x < k r then r # (if room then x # xs else xs) else x # insert_req room k r xs)"

abbreviation others :: "EsifArbReq \<Rightarrow> EsifArbReq list \<Rightarrow> EsifArbReq list" where
  "others r rs \<equiv> filter (\<lambda>x. appHandle x \<noteq> appHandle r) rs"

abbreviation one_per_app :: "EsifArbReq list \<Rightarrow> bool" where
  "one_per_app rs \<equiv> distinct (map appHandle rs)"

lemma insert_req_back: "\<forall>x\<in>set xs. \<not> k x < k r \<Longrightarrow> insert_req room k r xs = xs @ (if room then [r] else [])"
  by (induction xs) auto

lemma others_id: "appHandle r \<notin> appHandle ` set rs \<Longrightarrow> others r rs = rs"
  by (induction rs) auto

lemma loop_done: "arbitrate_loop f r l cur True True h = Some (l, True, h)"
  by (subst arbitrate_loop.simps) (simp split: option.split)

text \<open>After the insertion only the old request of the application is still looked for.\<close>

lemma loop_inserted:
  assumes "ll_rep h l (ys @ zs)" "heap_ok h" "map snd zs = map Some rs" "one_per_app rs"
  shows "\<exists>l' h' zs'. arbitrate_loop f r l (first_addr zs) True False h = Some (l', True, h')
    \<and> ll_rep h' l' (ys @ zs') \<and> map snd zs' = map Some (others r rs)
    \<and> evolves (fst ` set (ys @ zs)) h (fst ` set (ys @ zs')) h' \<and> next_addr h' = next_addr h"
  using assms
proof (induction rs arbitrary: ys zs)
  case Nil
  then show ?case by (subst arbitrate_loop.simps) (auto intro: evolves_refl)
next
  case (Cons x rs)
  then obtain a zs1 where zs: "zs = (a, Some x) # zs1" "map snd zs1 = map Some rs" by auto
  from Cons.prems(1) zs obtain n where n: "deref h (Some a) = Some n" "data_ptr n = Some x" "next_ptr n = first_addr zs1"
    by (auto elim: ll_rep_cursorE)
  show ?case
  proof (cases "appHandle x = appHandle r")
    case True
    from node_remove_evolves [of h l ys a "Some x" zs1] Cons.prems(1,2) zs obtain l' h' where
      "esif_link_list_node_remove (Some l) (Some a) h = Some (Some l', h')" "ll_rep h' l' (ys @ zs1)"
      "evolves (fst ` set (ys @ zs)) h (fst ` set (ys @ zs1)) h'" "next_addr h' = next_addr h" by auto
    moreover have "others r (x # rs) = rs" using True Cons.prems(4) by (simp add: others_id)
    ultimately show ?thesis using True n zs
      by (subst arbitrate_loop.simps) (auto simp: EsifArbReq_GetAppHandle_def loop_done intro!: exI [of _ zs1])
  next
    case False
    from Cons.IH [of "ys @ [(a, Some x)]" zs1] Cons.prems zs obtain l' h' zs' where
      r: "arbitrate_loop f r l (first_addr zs1) True False h = Some (l', True, h')"
        "ll_rep h' l' (ys @ (a, Some x) # zs')" "map snd zs' = map Some (others r rs)"
        "evolves (fst ` set (ys @ zs)) h (fst ` set (ys @ (a, Some x) # zs')) h'" "next_addr h' = next_addr h"
      by auto
    have "arbitrate_loop f r l (first_addr zs) True False h = Some (l', True, h')"
      using r(1) n zs False by (subst arbitrate_loop.simps) (auto simp: EsifArbReq_GetAppHandle_def split: option.split)
    with r False show ?thesis by (intro exI [of _ l'] exI [of _ h'] exI [of _ "(a, Some x) # zs'"]) simp
  qed
qed


text \<open>Before the insertion: the scan for the first beaten request.\<close>

lemma loop_step_beaten:
  assumes "ll_rep h l (ys @ (a, Some x) # zs)" "heap_ok h" "map snd zs = map Some rs" "one_per_app (x # rs)"
    "appHandle x \<noteq> appHandle r" "rank ty x < rank ty r" "req_ok r" "req_ok x" "old \<longrightarrow> appHandle r \<notin> appHandle ` set rs"
  shows "\<exists>l' h' zs'. arbitrate_loop (GetArbitrationFunction ty) r l (Some a) False old h = Some (l', True, h')
    \<and> ll_rep h' l' (ys @ zs')
    \<and> map snd zs' = map Some (r # (if alloc_ok h (next_addr h) then x # others r rs else others r rs))
    \<and> evolves (fst ` set (ys @ (a, Some x) # zs)) h (fst ` set (ys @ zs')) h' \<and> next_addr h' = Suc (next_addr h)"
proof -
  obtain n where n: "deref h (Some a) = Some n" "data_ptr n = Some x" "next_ptr n = first_addr zs"
    using assms(1) by (rule ll_rep_cursorE)
  have "GetArbitrationFunction ty \<noteq> None" using assms(6) no_function_rank by fastforce
  then obtain f res where f: "GetArbitrationFunction ty = Some f" "f (Some r) (Some x) = Some res" "beats res"
    using function_beats assms(6-8) by blast
  let ?pre = "ys @ (a, Some r) # (if alloc_ok h (next_addr h) then [(next_addr h, Some x)] else [])"
  from insert_before_evolves [OF assms(1,2), of "Some r"] obtain rc l1 h1 h2 where
    i: "esif_link_list_add_after (Some l) (Some a) (Some x) h = Some (rc, Some l1, h1)"
      "node_write h1 (Some a) (\<lambda>m. m\<lparr>data_ptr := Some r\<rparr>) = Some h2"
      "ll_rep h2 l1 (?pre @ zs)" "next_addr h2 = Suc (next_addr h)"
      "evolves (fst ` set (ys @ (a, Some x) # zs)) h (fst ` set (?pre @ zs)) h2"
    by (auto split: if_splits)
  then have ok2: "heap_ok h2" by (simp add: evolves_def)
  have step: "arbitrate_loop (GetArbitrationFunction ty) r l (Some a) False old h
      = arbitrate_loop (GetArbitrationFunction ty) r l1 (first_addr zs) True old h2"
    using n f i(1,2) assms(5)
    by (subst arbitrate_loop.simps) (auto simp: EsifArbReq_GetAppHandle_def beats_def split: prod.splits)
  obtain l' h' zs' where
    l': "arbitrate_loop (GetArbitrationFunction ty) r l1 (first_addr zs) True old h2 = Some (l', True, h')"
      "ll_rep h' l' (?pre @ zs')" "map snd zs' = map Some (others r rs)"
      "evolves (fst ` set (?pre @ zs)) h2 (fst ` set (?pre @ zs')) h'" "next_addr h' = next_addr h2"
  proof (cases old)
    case True
    then have "others r rs = rs" using assms(9) by (simp add: others_id)
    then show thesis using that [of l1 h2 zs] i(3) assms(3) True ok2 by (simp add: loop_done evolves_refl)
  next
    case False
    then have o: "old = False" by simp
    have "one_per_app rs" using assms(4) by simp
    from loop_inserted [OF i(3) ok2 assms(3) this, of "GetArbitrationFunction ty" r] that [unfolded o] show thesis by blast
  qed
  show ?thesis unfolding step l'(1)
    using l'(2,3,5) i(4) evolves_trans [OF i(5) l'(4)]
    by (intro exI [of _ l'] exI [of _ h'] exI [of _ "drop (length ys) (?pre @ zs')"]) (auto split: if_splits)
qed

lemma arbitrate_loop_spec:
  assumes "ll_rep h l (ys @ zs)" "heap_ok h" "map snd zs = map Some rs" "one_per_app rs"
    "old \<longrightarrow> appHandle r \<notin> appHandle ` set rs" "req_ok r" "\<forall>x\<in>set rs. req_ok x"
  shows "\<exists>l' ins h' zs'. arbitrate_loop (GetArbitrationFunction ty) r l (first_addr zs) False old h = Some (l', ins, h')
    \<and> ll_rep h' l' (ys @ zs') \<and> evolves (fst ` set (ys @ zs)) h (fst ` set (ys @ zs')) h'
    \<and> map snd zs' = map Some (if ins then insert_req (alloc_ok h (next_addr h)) (rank ty) r (others r rs) else others r rs)
    \<and> ins = (\<exists>x\<in>set (others r rs). rank ty x < rank ty r)
    \<and> next_addr h' = (if ins then Suc (next_addr h) else next_addr h)"
  using assms
proof (induction rs arbitrary: ys zs l h old)
  case Nil
  then show ?case by (subst arbitrate_loop.simps) (auto intro: evolves_refl)
next
  case (Cons x rs)
  let ?f = "GetArbitrationFunction ty"
  obtain a zs1 where zs: "zs = (a, Some x) # zs1" "map snd zs1 = map Some rs" using Cons.prems(3) by auto
  have rep: "ll_rep h l (ys @ (a, Some x) # zs1)" using Cons.prems(1) zs by simp
  obtain n where n: "deref h (Some a) = Some n" "data_ptr n = Some x" "next_ptr n = first_addr zs1"
    using rep by (rule ll_rep_cursorE)
  consider (same) "appHandle x = appHandle r" | (beaten) "appHandle x \<noteq> appHandle r" "rank ty x < rank ty r"
    | (stays) "appHandle x \<noteq> appHandle r" "\<not> rank ty x < rank ty r" by blast
  then show ?case
  proof cases
    case same
    from node_remove_evolves [OF rep Cons.prems(2)] obtain l1 h1 where
      r: "esif_link_list_node_remove (Some l) (Some a) h = Some (Some l1, h1)" "ll_rep h1 l1 (ys @ zs1)"
        "evolves (fst ` set (ys @ zs)) h (fst ` set (ys @ zs1)) h1" "next_addr h1 = next_addr h"
      unfolding zs by blast
    then have ok: "heap_ok h1" "alloc_ok h1 = alloc_ok h" by (auto simp: evolves_def)
    have step: "arbitrate_loop ?f r l (first_addr zs) False old h = arbitrate_loop ?f r l1 (first_addr zs1) False True h1"
      using n r(1) same zs by (subst arbitrate_loop.simps) (simp add: EsifArbReq_GetAppHandle_def)
    have "appHandle r \<notin> appHandle ` set rs" using same Cons.prems(4) by simp
    with Cons.IH [OF r(2) ok(1) zs(2), of True] Cons.prems(4,6,7) obtain l' ins h' zs' where
      l': "arbitrate_loop ?f r l1 (first_addr zs1) False True h1 = Some (l', ins, h')"
        "ll_rep h' l' (ys @ zs')" "evolves (fst ` set (ys @ zs1)) h1 (fst ` set (ys @ zs')) h'"
        "map snd zs' = map Some (if ins then insert_req (alloc_ok h1 (next_addr h1)) (rank ty) r (others r rs) else others r rs)"
        "ins = (\<exists>x\<in>set (others r rs). rank ty x < rank ty r)"
        "next_addr h' = (if ins then Suc (next_addr h1) else next_addr h1)" by auto
    have "others r (x # rs) = others r rs" using same by simp
    then show ?thesis unfolding step
      using l' r(4) ok(2) evolves_trans [OF r(3) l'(3)] by (metis (no_types, lifting))
  next
    case beaten
    have "req_ok x" "old \<longrightarrow> appHandle r \<notin> appHandle ` set rs" using Cons.prems(5,7) by auto
    from loop_step_beaten [OF rep Cons.prems(2) zs(2) Cons.prems(4) beaten Cons.prems(6) this] zs
    obtain l' h' zs' where
      l': "arbitrate_loop ?f r l (first_addr zs) False old h = Some (l', True, h')" "ll_rep h' l' (ys @ zs')"
        "map snd zs' = map Some (r # (if alloc_ok h (next_addr h) then x # others r rs else others r rs))"
        "evolves (fst ` set (ys @ zs)) h (fst ` set (ys @ zs')) h'" "next_addr h' = Suc (next_addr h)"
      by auto
    then show ?thesis using beaten
      by (intro exI [of _ l'] exI [of _ True] exI [of _ h'] exI [of _ zs']) auto
  next
    case stays
    have step: "arbitrate_loop ?f r l (first_addr zs) False old h = arbitrate_loop ?f r l (first_addr zs1) False old h"
    proof (cases ?f)
      case None
      then show ?thesis using n zs stays by (subst arbitrate_loop.simps) (simp add: EsifArbReq_GetAppHandle_def)
    next
      case (Some f)
      with function_beats [OF Some Cons.prems(6), of x] stays Cons.prems(7) obtain res where
        "f (Some r) (Some x) = Some res" "\<not> beats res" by auto
      then show ?thesis using Some n zs stays
        by (subst arbitrate_loop.simps) (auto simp: EsifArbReq_GetAppHandle_def beats_def split: prod.splits)
    qed
    have "ll_rep h l ((ys @ [(a, Some x)]) @ zs1)" using rep by simp
    from Cons.IH [OF this Cons.prems(2) zs(2), of old] Cons.prems(4-7) obtain l' ins h' zs' where
      l': "arbitrate_loop ?f r l (first_addr zs1) False old h = Some (l', ins, h')"
        "ll_rep h' l' (ys @ (a, Some x) # zs')" "evolves (fst ` set (ys @ zs)) h (fst ` set (ys @ (a, Some x) # zs')) h'"
        "map snd zs' = map Some (if ins then insert_req (alloc_ok h (next_addr h)) (rank ty) r (others r rs) else others r rs)"
        "ins = (\<exists>x\<in>set (others r rs). rank ty x < rank ty r)"
        "next_addr h' = (if ins then Suc (next_addr h) else next_addr h)" unfolding zs by auto
    then show ?thesis unfolding step using stays
      by (intro exI [of _ l'] exI [of _ ins] exI [of _ h'] exI [of _ "(a, Some x) # zs'"]) auto
  qed
qed

lemma arbitrate_request_spec:
  assumes "ll_rep h (arbRequests e) xs" "heap_ok h" "map snd xs = map Some rs" "one_per_app rs"
    "req_ok r" "\<forall>x\<in>set rs. req_ok x"
  shows "\<exists>l' h' xs'. EsifArbEntry_ArbitrateRequest_Locked (Some e) (Some r) h
        = Some (ESIF_OK, Some (e\<lparr>arbRequests := l'\<rparr>), h')
    \<and> ll_rep h' l' xs' \<and> evolves (fst ` set xs) h (fst ` set xs') h'
    \<and> map snd xs' = map Some (insert_req (alloc_ok h (next_addr h)) (rank (arbType e)) r (others r rs))
    \<and> next_addr h' = Suc (next_addr h)"
proof -
  have "ll_rep h (arbRequests e) ([] @ xs)" "False \<longrightarrow> appHandle r \<notin> appHandle ` set rs" using assms(1) by auto
  from arbitrate_loop_spec [OF this(1) assms(2-4) this(2) assms(5,6), of "arbType e"] obtain l1 ins h1 xs1 where
    s: "arbitrate_loop (GetArbitrationFunction (arbType e)) r (arbRequests e) (head_ptr (arbRequests e)) False False h
        = Some (l1, ins, h1)" "ll_rep h1 l1 xs1" "evolves (fst ` set xs) h (fst ` set xs1) h1"
      "map snd xs1 = map Some (if ins then insert_req (alloc_ok h (next_addr h)) (rank (arbType e)) r (others r rs) else others r rs)"
      "ins = (\<exists>x\<in>set (others r rs). rank (arbType e) x < rank (arbType e) r)"
      "next_addr h1 = (if ins then Suc (next_addr h) else next_addr h)"
    using ll_rep_first [OF assms(1)] by auto
  show ?thesis
  proof (cases ins)
    case True
    with s show ?thesis by (auto simp: EsifArbEntry_ArbitrateRequest_Locked_def)
  next
    case False
    have h1: "heap_ok h1" "alloc_ok h1 = alloc_ok h" "next_addr h1 = next_addr h" using s(3,6) False by (auto simp: evolves_def)
    from add_at_back_evolves [OF s(2) h1(1), of "Some r"] obtain rc l' h' where
      b: "esif_link_list_add_at_back (Some l1) (Some r) h1 = Some (rc, Some l', h')"
        "ll_rep h' l' (xs1 @ (if alloc_ok h (next_addr h) then [(next_addr h, Some r)] else []))"
        "evolves (fst ` set xs1) h1 (fst ` set (xs1 @ (if alloc_ok h (next_addr h) then [(next_addr h, Some r)] else []))) h'"
        "next_addr h' = Suc (next_addr h)" unfolding h1 by blast
    have "insert_req (alloc_ok h (next_addr h)) (rank (arbType e)) r (others r rs)
        = others r rs @ (if alloc_ok h (next_addr h) then [r] else [])"
      using s(5) False by (intro insert_req_back) auto
    then show ?thesis using s(1,4) False b evolves_trans [OF s(3) b(3)]
      by (intro exI [of _ l'] exI [of _ h'] exI [of _ "xs1 @ (if alloc_ok h (next_addr h) then [(next_addr h, Some r)] else [])"])
        (simp add: EsifArbEntry_ArbitrateRequest_Locked_def)
  qed
qed

lemma remove_app_spec:
  assumes "ll_rep h l (ys @ zs)" "heap_ok h" "map snd zs = map Some rs"
  shows "\<exists>l' h' zs'. remove_app_loop app l (first_addr zs) h = Some (l', h')
    \<and> ll_rep h' l' (ys @ zs') \<and> map snd zs' = map Some (filter (\<lambda>x. appHandle x \<noteq> app) rs)
    \<and> evolves (fst ` set (ys @ zs)) h (fst ` set (ys @ zs')) h' \<and> next_addr h' = next_addr h"
  using assms
proof (induction rs arbitrary: ys zs l h)
  case Nil
  then show ?case by (subst remove_app_loop.simps) (auto intro: evolves_refl)
next
  case (Cons x rs)
  then obtain a zs1 where zs: "zs = (a, Some x) # zs1" "map snd zs1 = map Some rs" by auto
  have rep: "ll_rep h l (ys @ (a, Some x) # zs1)" using Cons.prems(1) zs by simp
  obtain n where n: "deref h (Some a) = Some n" "data_ptr n = Some x" "next_ptr n = first_addr zs1"
    using rep by (rule ll_rep_cursorE)
  show ?case
  proof (cases "appHandle x = app")
    case True
    from node_remove_evolves [OF rep Cons.prems(2)] obtain l1 h1 where
      r: "esif_link_list_node_remove (Some l) (Some a) h = Some (Some l1, h1)" "ll_rep h1 l1 (ys @ zs1)"
        "evolves (fst ` set (ys @ zs)) h (fst ` set (ys @ zs1)) h1" "next_addr h1 = next_addr h"
      unfolding zs by blast
    then have ok: "heap_ok h1" by (simp add: evolves_def)
    have step: "remove_app_loop app l (first_addr zs) h = remove_app_loop app l1 (first_addr zs1) h1"
      using n r(1) True zs by (subst remove_app_loop.simps) (simp add: EsifArbReq_GetAppHandle_def)
    from Cons.IH [OF r(2) ok zs(2)] obtain l' h' zs' where
      l': "remove_app_loop app l1 (first_addr zs1) h1 = Some (l', h')" "ll_rep h' l' (ys @ zs')"
        "map snd zs' = map Some (filter (\<lambda>x. appHandle x \<noteq> app) rs)"
        "evolves (fst ` set (ys @ zs1)) h1 (fst ` set (ys @ zs')) h'" "next_addr h' = next_addr h1" by blast
    show ?thesis unfolding step using l' True r(4) evolves_trans [OF r(3) l'(4)] by auto
  next
    case False
    have step: "remove_app_loop app l (first_addr zs) h = remove_app_loop app l (first_addr zs1) h"
      using n False zs by (subst remove_app_loop.simps) (auto simp: EsifArbReq_GetAppHandle_def)
    have "ll_rep h l ((ys @ [(a, Some x)]) @ zs1)" using rep by simp
    from Cons.IH [OF this Cons.prems(2) zs(2)] obtain l' h' zs' where
      "remove_app_loop app l (first_addr zs1) h = Some (l', h')" "ll_rep h' l' (ys @ (a, Some x) # zs')"
      "map snd zs' = map Some (filter (\<lambda>x. appHandle x \<noteq> app) rs)"
      "evolves (fst ` set (ys @ zs)) h (fst ` set (ys @ (a, Some x) # zs')) h'" "next_addr h' = next_addr h"
      unfolding zs by auto
    then show ?thesis unfolding step using False
      by (intro exI [of _ l'] exI [of _ h'] exI [of _ "(a, Some x) # zs'"]) auto
  qed
qed

section \<open>Stable sorting\<close>

text \<open>Best rank first, and among equal ranks in the order of the sequence.\<close>

definition arb_sort :: "esif_arbitration_type_t \<Rightarrow> EsifArbReq list \<Rightarrow> EsifArbReq list" where
  "arb_sort ty ps = sort_key (\<lambda>r. - int (rank ty r)) ps"

lemma insert_req_mset: "mset (insert_req True k r xs) = add_mset r (mset xs)"
  by (induction xs) auto

lemma insert_req_sorted: "sorted (map (\<lambda>x. - int (k x)) xs) \<Longrightarrow> sorted (map (\<lambda>x. - int (k x)) (insert_req True k r xs))"
proof (induction xs)
  case (Cons x xs)
  then show ?case
    using set_mset_mset [of "insert_req True k r xs"] by (auto simp: insert_req_mset simp flip: set_mset_mset)
qed simp

lemma insert_req_class:
  "sorted (map (\<lambda>x. - int (k x)) xs) \<Longrightarrow>
   filter (\<lambda>x. k x = c) (insert_req True k r xs) = filter (\<lambda>x. k x = c) xs @ (if k r = c then [r] else [])"
proof (induction xs)
  case (Cons x xs)
  show ?case
  proof (cases "k x < k r")
    case True
    then have "\<forall>y\<in>set (x # xs). k y \<noteq> k r" using Cons.prems by fastforce
    then have "filter (\<lambda>y. k y = k r) (x # xs) = []" by (auto simp: filter_empty_conv)
    with True show ?thesis by auto
  qed (use Cons in auto)
qed simp

lemma arb_sort_insert: "insert_req True (rank ty) r (arb_sort ty ps) = arb_sort ty (ps @ [r])"
  unfolding arb_sort_def
proof (rule properties_for_sort_key [symmetric])
  let ?f = "\<lambda>r. - int (rank ty r)"
  have eq: "(- int (rank ty r) = - int (rank ty x)) = (rank ty x = rank ty r)" for r x by auto
  show "filter (\<lambda>y. ?f x = ?f y) (insert_req True (rank ty) r (sort_key ?f ps)) = filter (\<lambda>y. ?f x = ?f y) (ps @ [r])" for x
    unfolding eq using sort_key_stable [of ?f "?f x" ps] by (simp add: insert_req_class)
qed (simp_all add: insert_req_mset insert_req_sorted)

lemma arb_sort_sort:
  assumes "\<And>x y. rank ty x = rank ty y \<Longrightarrow> rank ty' x = rank ty' y"
  shows "arb_sort ty (arb_sort ty' ps) = arb_sort ty ps"
  unfolding arb_sort_def
proof (rule properties_for_sort_key)
  let ?f = "\<lambda>ty r. - int (rank ty r)"
  show "filter (\<lambda>y. ?f ty x = ?f ty y) (sort_key (?f ty) ps) = filter (\<lambda>y. ?f ty x = ?f ty y) (sort_key (?f ty') ps)" for x
  proof -
    have "filter (\<lambda>y. ?f ty x = ?f ty y) (sort_key (?f ty') ps) = sort_key (?f ty') (filter (\<lambda>y. ?f ty x = ?f ty y) ps)"
      by (rule filter_sort)
    also have "\<dots> = filter (\<lambda>y. ?f ty x = ?f ty y) ps"
    proof (rule sort_key_id_if_sorted)
      have "?f ty' y = ?f ty' x" if "y \<in> set (filter (\<lambda>y. ?f ty x = ?f ty y) ps)" for y
        using assms [of y x] that by simp
      then have "map (?f ty') (filter (\<lambda>y. ?f ty x = ?f ty y) ps) = map (\<lambda>_. ?f ty' x) (filter (\<lambda>y. ?f ty x = ?f ty y) ps)"
        by (intro map_cong) auto
      then show "sorted (map (?f ty') (filter (\<lambda>y. ?f ty x = ?f ty y) ps))" by (simp add: map_replicate_const)
    qed
    finally show ?thesis using sort_key_stable [of "?f ty" "?f ty x" ps] by (simp add: eq_commute)
  qed
qed simp_all

lemma arb_sort_filter: "filter P (arb_sort ty ps) = arb_sort ty (filter P ps)"
  by (simp add: arb_sort_def filter_sort)

lemma arb_sort_simps [simp]: "set (arb_sort ty ps) = set ps" "arb_sort ty [] = []" "(arb_sort ty ps = []) = (ps = [])"
  by (simp_all add: arb_sort_def) (metis length_0_conv length_sort)

lemma one_per_app_sort [simp]: "one_per_app (arb_sort ty ps) = one_per_app ps"
  by (metis arb_sort_def distinct_map set_sort mset_sort mset_map mset_eq_imp_distinct_iff)

text \<open>The head of the list has the best rank, and stood before all others of that rank.\<close>

lemma arb_sort_hd:
  assumes "arb_sort ty ps = w # rs"
  shows "w \<in> set ps" "x \<in> set ps \<Longrightarrow> rank ty x \<le> rank ty w" "filter (\<lambda>x. rank ty x = rank ty w) ps \<noteq> []"
    "hd (filter (\<lambda>x. rank ty x = rank ty w) ps) = w"
proof -
  show w: "w \<in> set ps" using arb_sort_simps(1) [of ty ps] assms by auto
  have "sorted (map (\<lambda>r. - int (rank ty r)) (w # rs))" unfolding assms [symmetric] by (simp add: arb_sort_def)
  moreover have "set ps = set (w # rs)" using arb_sort_simps(1) [of ty ps] assms by simp
  ultimately show "x \<in> set ps \<Longrightarrow> rank ty x \<le> rank ty w" by auto
  show "filter (\<lambda>x. rank ty x = rank ty w) ps \<noteq> []" using w by (auto simp: filter_empty_conv)
  have "filter (\<lambda>x. rank ty x = rank ty w) ps = filter (\<lambda>x. rank ty x = rank ty w) (w # rs)"
    using sort_key_stable [of "\<lambda>r. - int (rank ty r)" "- int (rank ty w)" ps] assms by (simp add: arb_sort_def)
  then show "hd (filter (\<lambda>x. rank ty x = rank ty w) ps) = w" by simp
qed

section \<open>Rearbitration\<close>

lemma rank_determined:
  assumes "GetArbitrationFunction ty = Some f" "rank ty x = rank ty y"
  shows "rank ty' x = rank ty' y"
proof -
  have lt: "unat w < 4294967296" for w :: u32 using unat_less_2p [of w] by simp
  have inj: "u = v" if "2 ^ 32 - unat u = 2 ^ 32 - unat v" for u v :: u32
    using that lt [of u] lt [of v] by (simp add: word_unat_eq_iff)
  have "req_val x = req_val y"
    using assms(1)
  proof (cases rule: function_cases)
    case 1
    then show ?thesis using assms(2) by (simp add: rank_def word_unat_eq_iff split: option.splits)
  next
    case 2
    then show ?thesis using assms(2) lt inj by (auto simp: rank_def split: option.splits) (metis leD)+
  qed
  then show ?thesis by (simp add: rank_def)
qed

lemma evolves_beside: "evolves A h A' h' \<Longrightarrow> evolves (A \<union> B) h (A' \<union> B) h'"
  by (auto simp: evolves_def)

lemma rearbitrate_loop_spec:
  assumes "ll_rep h (arbRequests e) xs" "map snd xs = map Some (arb_sort (arbType e) ps)"
    "ll_rep h temp zs" "map snd zs = map Some rs" "fst ` set zs \<inter> fst ` set xs = {}" "heap_ok h"
    "one_per_app (ps @ rs)" "\<forall>r\<in>set (ps @ rs). req_ok r" "\<forall>a. alloc_ok h a"
  shows "\<exists>l' h' xs'. rearbitrate_loop (Some e) temp h = Some (Some (e\<lparr>arbRequests := l'\<rparr>), h')
    \<and> ll_rep h' l' xs' \<and> map snd xs' = map Some (arb_sort (arbType e) (ps @ rs))
    \<and> evolves (fst ` set xs \<union> fst ` set zs) h (fst ` set xs') h'"
  using assms
proof (induction rs arbitrary: h e xs ps temp zs)
  case Nil
  have "head_ptr temp = None" using ll_rep_first [OF Nil.prems(3)] Nil.prems(4) by simp
  with Nil show ?case
    by (subst rearbitrate_loop.simps) (auto intro: evolves_refl intro!: exI [of _ "arbRequests e"] exI [of _ h] exI [of _ xs])
next
  case (Cons r rs)
  then obtain c zs1 where zs: "zs = (c, Some r) # zs1" "map snd zs1 = map Some rs" by auto
  have hd: "head_ptr temp = Some c" using ll_rep_first [OF Cons.prems(3)] zs by simp
  have "ll_rep h temp ([] @ (c, Some r) # zs1)" using Cons.prems(3) zs by simp
  then obtain n where n: "deref h (Some c) = Some n" "data_ptr n = Some r" by (rule ll_rep_cursorE)
  have o: "others r (arb_sort (arbType e) ps) = arb_sort (arbType e) ps" using Cons.prems(7) by (intro others_id) auto
  have "one_per_app (arb_sort (arbType e) ps)" "req_ok r" "\<forall>x\<in>set (arb_sort (arbType e) ps). req_ok x"
    using Cons.prems(7,8) by auto
  from arbitrate_request_spec [OF Cons.prems(1,6,2) this] obtain l1 h1 xs1 where
    a: "EsifArbEntry_ArbitrateRequest_Locked (Some e) (Some r) h = Some (ESIF_OK, Some (e\<lparr>arbRequests := l1\<rparr>), h1)"
      "ll_rep h1 l1 xs1" "evolves (fst ` set xs) h (fst ` set xs1) h1"
      "map snd xs1 = map Some (arb_sort (arbType e) (ps @ [r]))"
    using Cons.prems(9) o by (auto simp: arb_sort_insert)
  have temp: "ll_rep h1 temp ([] @ (c, Some r) # zs1)" "fst ` set zs \<inter> fst ` set xs1 = {}"
    using evolves_frame [OF a(3) Cons.prems(3) Cons.prems(5,6)] zs by auto
  have ok1: "heap_ok h1" using a(3) by (simp add: evolves_def)
  from node_remove_evolves [OF temp(1) ok1] obtain t2 h2 where
    t2: "esif_link_list_node_remove (Some temp) (Some c) h1 = Some (Some t2, h2)" "ll_rep h2 t2 zs1"
      "evolves (fst ` set zs) h1 (fst ` set zs1) h2" unfolding zs by auto
  have own: "ll_rep h2 l1 xs1" "fst ` set xs1 \<inter> fst ` set zs1 = {}"
    using evolves_frame [OF t2(3) a(2) _ ok1] temp(2) by auto
  have h2: "heap_ok h2" "\<forall>a. alloc_ok h2 a" using a(3) t2(3) Cons.prems(9) by (simp_all add: evolves_def)
  have both: "evolves (fst ` set xs \<union> fst ` set zs) h (fst ` set xs1 \<union> fst ` set zs1) h2"
    using evolves_trans [OF evolves_beside [OF a(3), of "fst ` set zs"]] evolves_beside [OF t2(3), of "fst ` set xs1"]
    by (simp add: Un_commute)
  let ?e = "e\<lparr>arbRequests := l1\<rparr>"
  have step: "rearbitrate_loop (Some e) temp h = rearbitrate_loop (Some ?e) t2 h2"
    using hd n a(1) t2(1) by (subst rearbitrate_loop.simps) simp
  from Cons.IH [of h2 ?e xs1 "ps @ [r]" t2 zs1] own a(4) t2(2) zs(2) h2 Cons.prems(7,8) obtain l' h' xs' where
    l': "rearbitrate_loop (Some ?e) t2 h2 = Some (Some (?e\<lparr>arbRequests := l'\<rparr>), h')" "ll_rep h' l' xs'"
      "map snd xs' = map Some (arb_sort (arbType e) (ps @ r # rs))"
      "evolves (fst ` set xs1 \<union> fst ` set zs1) h2 (fst ` set xs') h'" by (auto simp: Int_commute)
  show ?case unfolding step using l' evolves_trans [OF both l'(4)] by auto
qed

lemma rearbitrate_spec:
  assumes "ll_rep h (arbRequests e) xs" "map snd xs = map Some rs" "heap_ok h"
    "one_per_app rs" "\<forall>r\<in>set rs. req_ok r" "\<forall>a. alloc_ok h a"
  shows "\<exists>l' h' xs'. EsifArbEntry_RearbitrateRequests_Locked (Some e) h = Some (ESIF_OK, Some (e\<lparr>arbRequests := l'\<rparr>), h')
    \<and> ll_rep h' l' xs' \<and> map snd xs' = map Some (arb_sort (arbType e) rs) \<and> evolves (fst ` set xs) h (fst ` set xs') h'"
proof -
  let ?e = "e\<lparr>arbRequests := \<lparr>head_ptr = None, tail_ptr = None, nodes = 0\<rparr>\<rparr>"
  have "ll_rep h (arbRequests ?e) []" by (simp add: ll_rep_def)
  from rearbitrate_loop_spec [OF this, of "[]" "arbRequests e" xs rs] assms obtain l' h' xs' where
    "rearbitrate_loop (Some ?e) (arbRequests e) h = Some (Some (?e\<lparr>arbRequests := l'\<rparr>), h')"
    "ll_rep h' l' xs'" "map snd xs' = map Some (arb_sort (arbType e) rs)" "evolves (fst ` set xs) h (fst ` set xs') h'"
    by auto
  then show ?thesis by (auto simp: EsifArbEntry_RearbitrateRequests_Locked_def)
qed

lemma winner_data:
  assumes "ll_rep h (arbRequests e) xs" "map snd xs = map Some rs"
  shows "EsifArbEntry_GetArbitratedRequestData_Locked (Some e) h = Some (case rs of [] \<Rightarrow> None | r # _ \<Rightarrow> reqPtr r)"
proof (cases rs)
  case Nil
  with assms show ?thesis by (simp add: EsifArbEntry_GetArbitratedRequestData_Locked_def ll_rep_head_None)
next
  case (Cons r rs')
  with assms obtain a xs' where xs: "xs = (a, Some r) # xs'" by auto
  from ll_rep_Cons [OF assms(1) [unfolded xs]] Cons show ?thesis
    by (auto simp: EsifArbEntry_GetArbitratedRequestData_Locked_def EsifArbReq_GetRequestData_def)
qed

end
