(* ===== verification/Arb_Spec.thy ===== *)
theory Arb_Spec
  imports Arb_List
begin

text \<open>
  The contract of an arbitration entry and its refinement. The abstract entry remembers the latest
  request of every application in the order of arrival and the last value sent to the control; the
  concrete one keeps a sorted list in a heap, compares addresses and queues primitives. The lemmas
  on the queue come first, then the abstract entry, the simulation of every operation, and the
  properties.
\<close>

section \<open>What is queued\<close>

definition prim_request ::
    "esif_handle_t \<Rightarrow> u32 \<Rightarrow> u16 \<Rightarrow> u8 \<Rightarrow> EsifDataPtr \<Rightarrow> addr option \<Rightarrow> addr option \<Rightarrow> addr option \<Rightarrow> bool \<Rightarrow> EsifArbPrimReq" where
  "prim_request part prim dmn inst p response event status delay =
     \<lparr>pr_participantId = part, pr_primitiveId = prim, pr_domain = dmn, pr_instance = inst, reqDataPtr = p,
      rspDataPtr = response, completionEventPtr = event, completionStatusPtr = status,
      reqDataRequiresRelease = (p \<noteq> None), requiresDelay = delay,
      delayedPrimitiveId = (if delay \<and> p \<noteq> None then the (esif_primitive_type_set2get prim) else 0), isDummyRequest = False\<rparr>"

definition with_dummy :: "EsifArbPrimReq \<Rightarrow> EsifArbPrimReq list" where
  "with_dummy r = r # (if requiresDelay r \<and> delayedPrimitiveId r \<noteq> 0 then [r\<lparr>isDummyRequest := True\<rparr>] else [])"

lemma set2get_total: "\<exists>g. esif_primitive_type_set2get ty = Some g"
  using lookup_type_spec [OF set2get_sorted, of ty] by (simp add: esif_primitive_type_set2get_def)

text \<open>The queue of the manager holds the sequence \<open>xs\<close>, and allocations for it succeed.\<close>

definition mgr_queue :: "arb_world \<Rightarrow> EsifArbPrimReq option list \<Rightarrow> bool" where
  "mgr_queue w xs \<longleftrightarrow> (\<exists>q. primitiveQueuePtr (g_arbMgr w) = Some q \<and> queue_inv q (prim_heap w) xs
     \<and> unat (max_size q) = 2 ^ 32 - 1) \<and> (\<forall>a. alloc_ok (prim_heap w) a)"

lemma mgr_enqueue:
  assumes "mgr_queue w xs" "length xs < 2 ^ 32 - 1"
  shows "\<exists>q' h'. esif_queue_enqueue (primitiveQueuePtr (g_arbMgr w)) d (prim_heap w) = Some (ESIF_OK, q', h')
    \<and> mgr_queue (upd_queue q' w\<lparr>prim_heap := h'\<rparr>) (xs @ [d])"
proof -
  from assms obtain q where q: "primitiveQueuePtr (g_arbMgr w) = Some q" "queue_inv q (prim_heap w) xs"
    "unat (max_size q) = 2 ^ 32 - 1" "\<forall>a. alloc_ok (prim_heap w) a" by (auto simp: mgr_queue_def)
  from enqueue_refines [OF q(2), of d] q assms(2) obtain q' h' where
    "esif_queue_enqueue (Some q) d (prim_heap w) = Some (ESIF_OK, Some q', h')" "max_size q' = max_size q"
    "queue_inv q' h' (xs @ [d])" by auto
  moreover from this enqueue_alloc [OF q(2)] have "alloc_ok h' = alloc_ok (prim_heap w)" by blast
  ultimately show ?thesis using q by (auto simp: mgr_queue_def)
qed

lemma mgr_queue_malloc:
  "mgr_queue w xs \<Longrightarrow> \<exists>a h. esif_ccb_malloc (prim_heap w) = (Some a, h) \<and> mgr_queue (w\<lparr>prim_heap := h\<rparr>) xs"
  by (auto simp: mgr_queue_def esif_ccb_malloc_def queue_inv_def ll_rep_def heap_ok_def less_Suc_eq)

lemma mgr_queue_next:
  "mgr_queue w xs \<Longrightarrow> next_addr (prim_heap w) \<le> n \<Longrightarrow> mgr_queue (w\<lparr>prim_heap := (prim_heap w)\<lparr>next_addr := n\<rparr>\<rparr>) xs"
  by (fastforce simp: mgr_queue_def queue_inv_def ll_rep_def heap_ok_def)

lemma mgr_queue_req_heap [simp]: "mgr_queue (w\<lparr>req_heap := h\<rparr>) xs = mgr_queue w xs"
  by (simp add: mgr_queue_def)

lemma queue_dummy_spec:
  assumes "mgr_queue w xs" "length xs < 2 ^ 32 - 1"
  shows "\<exists>w'. queue_dummy r w = Some w' \<and> req_heap w' = req_heap w \<and> set_events w' = set_events w
    \<and> mgr_arbitrationEnabled (g_arbMgr w') = mgr_arbitrationEnabled (g_arbMgr w)
    \<and> primitiveQueueExitFlag (g_arbMgr w') = primitiveQueueExitFlag (g_arbMgr w)
    \<and> mgr_queue w' (xs @ map Some (tl (with_dummy r)))"
proof (cases "requiresDelay r \<and> delayedPrimitiveId r \<noteq> 0")
  case False
  then show ?thesis using assms by (auto simp: queue_dummy_def with_dummy_def)
next
  case True
  from mgr_queue_malloc [OF assms(1)] obtain a h where
    m: "esif_ccb_malloc (prim_heap w) = (Some a, h)" "mgr_queue (w\<lparr>prim_heap := h\<rparr>) xs" by blast
  from mgr_enqueue [OF m(2) assms(2), of "Some (r\<lparr>isDummyRequest := True\<rparr>)"] True m(1)
  show ?thesis by (auto simp: queue_dummy_def with_dummy_def)
qed

lemma queue_primitive_spec:
  assumes "mgr_queue w xs" "length xs + 2 \<le> 2 ^ 32 - 1" "data_ok d"
  shows "\<exists>a w'. EsifArbMgr_QueuePrimitiveRequest_Locked part prim dmn inst (Some d) response event status delay w
        = Some (ESIF_OK, w')
    \<and> req_heap w' = req_heap w \<and> set_events w' = set_events w
    \<and> mgr_arbitrationEnabled (g_arbMgr w') = mgr_arbitrationEnabled (g_arbMgr w)
    \<and> mgr_queue w' (xs @ map Some (with_dummy
        (prim_request part prim dmn inst (Some (a, clone_of d)) response event status delay)))"
proof -
  from mgr_queue_malloc [OF assms(1)] obtain b h1 where
    m: "esif_ccb_malloc (prim_heap w) = (Some b, h1)" "mgr_queue (w\<lparr>prim_heap := h1\<rparr>) xs" by blast
  from clone_spec [OF assms(3), of h1] m(2) obtain n where
    c: "EsifData_Clone (Some d) h1 = Some (Some (next_addr h1, clone_of d), h1\<lparr>next_addr := n\<rparr>)" "next_addr h1 \<le> n"
    by (auto simp: mgr_queue_def)
  obtain g where g: "esif_primitive_type_set2get prim = Some g" using set2get_total by blast
  let ?p = "Some (next_addr h1, clone_of d)"
  let ?r = "prim_request part prim dmn inst ?p response event status delay"
  let ?w1 = "w\<lparr>prim_heap := h1\<lparr>next_addr := n\<rparr>\<rparr>"
  have create: "EsifArbPrimReq_Create part prim dmn inst (Some d) response event status delay w = Some (Some ?r, ?w1)"
    using m(1) c(1) g by (simp add: EsifArbPrimReq_Create_def prim_request_def Let_def)
  have w1: "mgr_queue ?w1 xs" using mgr_queue_next [OF m(2), of n] c(2) by simp
  from mgr_enqueue [OF w1, of "Some ?r"] assms(2) obtain q' h' where
    e: "esif_queue_enqueue (primitiveQueuePtr (g_arbMgr ?w1)) (Some ?r) (prim_heap ?w1) = Some (ESIF_OK, q', h')"
      "mgr_queue (upd_queue q' ?w1\<lparr>prim_heap := h'\<rparr>) (xs @ [Some ?r])" by auto
  from queue_dummy_spec [OF e(2), of ?r] assms(2) obtain w' where
    d: "queue_dummy ?r (upd_queue q' ?w1\<lparr>prim_heap := h'\<rparr>) = Some w'" "req_heap w' = req_heap w"
      "set_events w' = set_events w" "mgr_arbitrationEnabled (g_arbMgr w') = mgr_arbitrationEnabled (g_arbMgr w)"
      "mgr_queue w' ((xs @ [Some ?r]) @ map Some (tl (with_dummy ?r)))" by auto
  have "(xs @ [Some ?r]) @ map Some (tl (with_dummy ?r)) = xs @ map Some (with_dummy ?r)" by (simp add: with_dummy_def)
  with create e(1) d show ?thesis by (auto simp: EsifArbMgr_QueuePrimitiveRequest_Locked_def)
qed

section \<open>Limits\<close>

definition limit_data :: "u32 \<Rightarrow> u32 \<Rightarrow> EsifData \<Rightarrow> EsifData" where
  "limit_data upper lower d =
     (case buf_ptr d of
        None \<Rightarrow> d
      | Some b \<Rightarrow> if 4 \<le> buf_len d then
            (let v = the (get_u32 b); lim = min (max v lower) upper in
             if v \<noteq> lim then (clone_of d)\<lparr>buf_ptr := map_option (put_u32 lim) (buf_ptr (clone_of d))\<rparr> else d)
          else d)"

text \<open>The datum that reaches the control: the limited datum, cloned into the queued request.\<close>

definition limited :: "u32 \<Rightarrow> u32 \<Rightarrow> EsifData \<Rightarrow> EsifData" where
  "limited upper lower d = clone_of (limit_data upper lower d)"

lemma length_put_u32: "4 \<le> length b \<Longrightarrow> length (put_u32 v b) = length b"
  by (simp add: put_u32_def)

lemma clone_of_large:
  assumes "data_ok d" "buf_ptr d = Some b" "4 \<le> buf_len d"
  obtains cb where "clone_of d = d\<lparr>buf_ptr := Some cb, buf_len := max (buf_len d) (data_len d)\<rparr>" "4 \<le> length cb"
    "length cb = max (unat (buf_len d)) (unat (data_len d))"
proof -
  have "4 \<le> unat (buf_len d)" using assms(3) by (simp add: word_le_nat_alt)
  moreover from this have "unat (max (buf_len d) (data_len d)) \<noteq> 0" by (simp add: max_unat)
  then have "max (buf_len d) (data_len d) \<noteq> 0" by (metis unat_0)
  ultimately show thesis using assms(1,2) that by (simp add: clone_of_def Let_def data_ok_def max_unat)
qed

lemma limit_data_ok:
  assumes "data_ok d"
  shows "data_ok (limit_data upper lower d)"
proof (cases "buf_ptr d")
  case None
  with assms show ?thesis by (simp add: limit_data_def)
next
  case (Some b)
  show ?thesis
  proof (cases "4 \<le> buf_len d")
    case True
    from clone_of_large [OF assms Some True] obtain cb where
      "clone_of d = d\<lparr>buf_ptr := Some cb, buf_len := max (buf_len d) (data_len d)\<rparr>" "4 \<le> length cb"
      "length cb = max (unat (buf_len d)) (unat (data_len d))" .
    with Some True assms show ?thesis by (auto simp: limit_data_def Let_def data_ok_def length_put_u32 max_unat)
  qed (use Some assms in \<open>simp add: limit_data_def\<close>)
qed

lemma create_limited_spec:
  assumes "data_ok d" "\<forall>a. alloc_ok h a"
  shows "\<exists>p n. EsifArbEntry_CreateLimitedData_Locked (Some e) (Some d) h = Some (p, h\<lparr>next_addr := n\<rparr>)
    \<and> next_addr h \<le> n
    \<and> (case p of Some (_, c) \<Rightarrow> c | None \<Rightarrow> d) = limit_data (upperLimit e) (lowerLimit e) d"
proof (cases "buf_ptr d")
  case None
  then show ?thesis by (auto simp: EsifArbEntry_CreateLimitedData_Locked_def limit_data_def intro: exI [of _ "next_addr h"])
next
  case (Some b)
  show ?thesis
  proof (cases "4 \<le> buf_len d")
    case False
    with Some show ?thesis by (auto simp: EsifArbEntry_CreateLimitedData_Locked_def limit_data_def intro: exI [of _ "next_addr h"])
  next
    case True
    obtain v where v: "get_u32 b = Some v" using data_ok_u32 [OF assms(1) Some True] by blast
    let ?lim = "min (max v (lowerLimit e)) (upperLimit e)"
    show ?thesis
    proof (cases "v = ?lim")
      case vlim: True
      with v Some True have "EsifArbEntry_CreateLimitedData_Locked (Some e) (Some d) h = Some (None, h)"
        by (simp add: EsifArbEntry_CreateLimitedData_Locked_def Let_def)
      moreover have "limit_data (upperLimit e) (lowerLimit e) d = d" using v Some vlim by (simp add: limit_data_def Let_def)
      ultimately show ?thesis by (auto intro: exI [of _ "next_addr h"])
    next
      case vlim: False
      from clone_of_large [OF assms(1) Some True] obtain cb where
        cb: "clone_of d = d\<lparr>buf_ptr := Some cb, buf_len := max (buf_len d) (data_len d)\<rparr>" "4 \<le> length cb" by blast
      from clone_spec [OF assms(1), of h] assms(2) obtain n where
        c: "EsifData_Clone (Some d) h = Some (Some (next_addr h, clone_of d), h\<lparr>next_addr := n\<rparr>)" "next_addr h \<le> n" by auto
      have "EsifArbEntry_CreateLimitedData_Locked (Some e) (Some d) h
          = Some (Some (next_addr h, (clone_of d)\<lparr>buf_ptr := Some (put_u32 ?lim cb)\<rparr>), h\<lparr>next_addr := n\<rparr>)"
        using v Some True vlim c(1) cb by (simp add: EsifArbEntry_CreateLimitedData_Locked_def Let_def)
      moreover have "limit_data (upperLimit e) (lowerLimit e) d = (clone_of d)\<lparr>buf_ptr := Some (put_u32 ?lim cb)\<rparr>"
        using v Some True vlim cb by (simp add: limit_data_def Let_def)
      ultimately show ?thesis using c(2) by auto
    qed
  qed
qed

text \<open>The value that reaches the control is the requested one cut to the limits.\<close>

definition data_val :: "EsifData \<Rightarrow> u32 option" where
  "data_val d = (case buf_ptr d of None \<Rightarrow> None | Some b \<Rightarrow> if 4 \<le> buf_len d then get_u32 b else None)"

lemma get_u32_take:
  assumes "4 \<le> n" "get_u32 b = Some v"
  shows "get_u32 (take n b @ ys) = Some v"
proof -
  obtain m where "n = 4 + m" using assms(1) le_Suc_ex by blast
  then have n: "n = Suc (Suc (Suc (Suc m)))" by simp
  from assms(2) obtain b0 b1 b2 b3 r where "b = b0 # b1 # b2 # b3 # r" by (auto simp: get_u32_def split: list.splits)
  with assms(2) n show ?thesis by (simp add: get_u32_def)
qed

lemma data_val_clone:
  assumes "data_ok d" "4 \<le> data_len d" "data_val d = Some v"
  shows "data_val (clone_of d) = Some v"
proof -
  from assms(3) obtain b where b: "buf_ptr d = Some b" "4 \<le> buf_len d" "get_u32 b = Some v"
    by (auto simp: data_val_def split: option.splits if_splits)
  have len: "4 \<le> max (buf_len d) (data_len d)" using b(2) by (simp add: le_max_iff_disj)
  then have "max (buf_len d) (data_len d) \<noteq> 0" by auto
  moreover have "4 \<le> unat (data_len d)" using assms(2) by (simp add: word_le_nat_alt)
  ultimately show ?thesis using b len by (simp add: data_val_def clone_of_def Let_def get_u32_take)
qed

lemma limited_value:
  assumes "data_ok d" "4 \<le> data_len d" "data_val d = Some v"
  shows "data_val (limited upper lower d) = Some (min (max v lower) upper)"
proof -
  let ?lim = "min (max v lower) upper"
  from assms(3) obtain b where b: "buf_ptr d = Some b" "4 \<le> buf_len d" "get_u32 b = Some v"
    by (auto simp: data_val_def split: option.splits if_splits)
  show ?thesis
  proof (cases "v = ?lim")
    case True
    then have "limit_data upper lower d = d" using b by (simp add: limit_data_def Let_def)
    with True data_val_clone [OF assms] show ?thesis by (simp add: limited_def)
  next
    case False
    from clone_of_large [OF assms(1) b(1,2)] obtain cb where
      cb: "clone_of d = d\<lparr>buf_ptr := Some cb, buf_len := max (buf_len d) (data_len d)\<rparr>" "4 \<le> length cb" by blast
    let ?d = "(clone_of d)\<lparr>buf_ptr := Some (put_u32 ?lim cb)\<rparr>"
    have ld: "limit_data upper lower d = ?d" using b False cb by (simp add: limit_data_def Let_def)
    have "data_val ?d = Some ?lim" using cb b(2) by (simp add: data_val_def get_put_u32 le_max_iff_disj)
    moreover have "data_ok ?d" using limit_data_ok [OF assms(1)] ld by metis
    moreover have "4 \<le> data_len ?d" using cb(1) assms(2) by simp
    ultimately show ?thesis using data_val_clone ld by (simp add: limited_def)
  qed
qed

section \<open>The abstract entry\<close>

text \<open>
  The pending requests in the order of arrival, the settings, and what was last sent to the control.
\<close>

record arb_spec =
  sp_pending :: "(esif_handle_t \<times> EsifData) list"
  sp_type :: esif_arbitration_type_t
  sp_upper :: u32
  sp_lower :: u32
  sp_enabled :: bool
  sp_sent :: "EsifData option"

definition val_rank :: "esif_arbitration_type_t \<Rightarrow> u32 option \<Rightarrow> nat" where
  "val_rank ty vo = (case vo of None \<Rightarrow> 0
     | Some v \<Rightarrow> if ty = ESIF_ARBITRATION_UIN32_GREATER_THAN then Suc (unat v)
                 else if ty = ESIF_ARBITRATION_UIN32_LESS_THAN then 2 ^ 32 - unat v else 0)"

definition ranked :: "arb_spec \<Rightarrow> (esif_handle_t \<times> EsifData) list" where
  "ranked s = sort_key (\<lambda>p. - int (val_rank (sp_type s) (data_val (snd p)))) (sp_pending s)"

text \<open>After a change the best request, cut to the limits, is what the control was last sent.\<close>

definition settle :: "arb_spec \<Rightarrow> arb_spec" where
  "settle s = (case ranked s of [] \<Rightarrow> s
     | p # _ \<Rightarrow> s\<lparr>sp_sent := Some (limited (sp_upper s) (sp_lower s) (snd p))\<rparr>)"

datatype arb_op =
    Request esif_handle_t EsifData
  | Withdraw esif_handle_t
  | Limits "u32 option" "u32 option"
  | Function esif_arbitration_type_t
  | Enable bool
  | Purge
  | Pull

definition withdrawn :: "esif_handle_t \<Rightarrow> arb_spec \<Rightarrow> arb_spec" where
  "withdrawn app s = s\<lparr>sp_pending := filter (\<lambda>p. fst p \<noteq> app) (sp_pending s)\<rparr>"

fun spec_op :: "arb_op \<Rightarrow> arb_spec \<Rightarrow> esif_rc \<times> arb_spec" where
  "spec_op (Request app d) s =
     (if sp_enabled s
      then (ESIF_OK, settle (withdrawn app s\<lparr>sp_pending := sp_pending (withdrawn app s) @ [(app, clone_of d)]\<rparr>))
      else (ESIF_E_NOT_SUPPORTED, s))"
| "spec_op (Withdraw app) s = (ESIF_OK, settle (withdrawn app s))"
| "spec_op (Limits u l) s =
     (let up = (case u of Some x \<Rightarrow> x | None \<Rightarrow> sp_upper s); lo = (case l of Some x \<Rightarrow> x | None \<Rightarrow> sp_lower s) in
      if lo \<le> up then (ESIF_OK, settle (s\<lparr>sp_upper := up, sp_lower := lo\<rparr>))
      else (ESIF_E_PARAMETER_IS_OUT_OF_BOUNDS, s))"
| "spec_op (Function ty) s =
     (if ty = ESIF_ARBITRATION_UIN32_GREATER_THAN \<or> ty = ESIF_ARBITRATION_UIN32_LESS_THAN
      then (ESIF_OK, settle (s\<lparr>sp_type := ty\<rparr>)) else (ESIF_E_PARAMETER_IS_OUT_OF_BOUNDS, s))"
| "spec_op (Enable b) s = (ESIF_OK, s\<lparr>sp_enabled := b, sp_pending := if b then sp_pending s else []\<rparr>)"
| "spec_op Purge s = (ESIF_OK, s\<lparr>sp_pending := []\<rparr>)"
| "spec_op Pull s = (ESIF_OK, s)"

text \<open>
  The concrete operations. The state also records what the thread has taken from the queue;
  functions that return nothing count as successful.
\<close>

type_synonym arb_state = "EsifArbEntry \<times> arb_world \<times> EsifArbPrimReq option list"

fun entry_fun :: "arb_op \<Rightarrow> EsifArbEntry option \<Rightarrow> arb_world \<Rightarrow> (esif_rc \<times> EsifArbEntry option \<times> arb_world) option" where
  "entry_fun (Request app d) = (\<lambda>self. EsifArbEntry_ExecutePrimitive self app (Some d))"
| "entry_fun (Withdraw app) = (\<lambda>self w. map_option (\<lambda>(e', w'). (ESIF_OK, e', w')) (EsifArbEntry_RemoveApp self app w))"
| "entry_fun (Limits u l) = (\<lambda>self. EsifArbEntry_SetLimits self u l)"
| "entry_fun (Function ty) = (\<lambda>self. EsifArbEntry_SetArbitrationFunction self ty)"
| "entry_fun (Enable b) = (\<lambda>self. EsifArbEntry_SetArbitrationState self b)"
| "entry_fun Purge = (\<lambda>self w. map_option (\<lambda>(e', w'). (ESIF_OK, e', w')) (EsifArbEntry_PurgeRequests self w))"
| "entry_fun Pull = (\<lambda>self w. None)"

definition entry_op :: "arb_op \<Rightarrow> arb_state \<Rightarrow> (esif_rc \<times> arb_state) option" where
  "entry_op x = (\<lambda>(e, w, taken).
     (case x of
        Pull \<Rightarrow> map_option (\<lambda>(r, q, h). (ESIF_OK, e, upd_queue q w\<lparr>prim_heap := h\<rparr>,
            case r of Blocked \<Rightarrow> taken | Pulled d \<Rightarrow> taken @ [d]))
          (esif_queue_pull (primitiveQueuePtr (g_arbMgr w)) (prim_heap w))
      | _ \<Rightarrow> do { (rc, e', w') \<leftarrow> entry_fun x (Some e) w; e1 \<leftarrow> e'; Some (rc, e1, w', taken) }))"

lemma entry_op_simps [simp]:
  "entry_op Pull (e, w, taken) = map_option (\<lambda>(r, q, h). (ESIF_OK, e, upd_queue q w\<lparr>prim_heap := h\<rparr>,
      case r of Blocked \<Rightarrow> taken | Pulled d \<Rightarrow> taken @ [d])) (esif_queue_pull (primitiveQueuePtr (g_arbMgr w)) (prim_heap w))"
  "x \<noteq> Pull \<Longrightarrow> entry_op x (e, w, taken) = do { (rc, e', w') \<leftarrow> entry_fun x (Some e) w; e1 \<leftarrow> e'; Some (rc, e1, w', taken) }"
  by (cases x; simp add: entry_op_def)+

lemma entry_op_fun: "x \<noteq> Pull \<Longrightarrow> entry_op x (e, w, taken) = Some (rc, e1, w1, taken) \<longleftrightarrow> entry_fun x (Some e) w = Some (rc, Some e1, w1)"
  by (auto elim!: bind_eq_SomeE)

fun run_ops :: "(arb_op \<Rightarrow> 's \<Rightarrow> (esif_rc \<times> 's) option) \<Rightarrow> arb_op list \<Rightarrow> 's \<Rightarrow> (esif_rc list \<times> 's) option" where
  "run_ops f [] s = Some ([], s)"
| "run_ops f (x # xs) s = do { (rc, s1) \<leftarrow> f x s; (rcs, s2) \<leftarrow> run_ops f xs s1; Some (rc # rcs, s2) }"

text \<open>The data of the last request for the control of an entry, dummies left aside.\<close>

fun controls :: "EsifArbEntry \<Rightarrow> EsifArbPrimReq option \<Rightarrow> bool" where
  "controls e None = False"
| "controls e (Some r) = (\<not> isDummyRequest r \<and> pr_participantId r = participantId e \<and> pr_primitiveId r = primitiveId e
     \<and> pr_domain r = domain e \<and> pr_instance r = entry_instance e)"

definition last_sent :: "EsifArbEntry \<Rightarrow> EsifArbPrimReq option list \<Rightarrow> EsifData option" where
  "last_sent e items = (let rs = filter (controls e) items in
     if rs = [] then None else Option.bind (last rs) (\<lambda>r. map_option snd (reqDataPtr r)))"

definition req_view :: "EsifArbReq \<Rightarrow> esif_handle_t \<times> EsifData" where
  "req_view r = (appHandle r, snd (the (reqPtr r)))"

section \<open>Simulation\<close>

definition req_key :: "EsifArbReq \<Rightarrow> addr" where "req_key r = fst (the (reqPtr r))"

text \<open>
  The concrete entry represents the pending requests \<open>ps\<close>; the addresses of their data differ, so
  that an address identifies a request.
\<close>

definition entry_rep :: "EsifArbEntry \<Rightarrow> EsifArbReq ll_heap \<Rightarrow> EsifArbReq list \<Rightarrow> bool" where
  "entry_rep e h ps \<longleftrightarrow>
     (\<exists>xs. ll_rep h (arbRequests e) xs \<and> map snd xs = map Some (arb_sort (arbType e) ps))
     \<and> one_per_app ps \<and> (\<forall>r\<in>set ps. req_ok r \<and> req_key r < next_addr h) \<and> distinct (map req_key ps)
     \<and> heap_ok h \<and> (\<forall>a. alloc_ok h a)"

definition simulates :: "arb_state \<Rightarrow> arb_spec \<Rightarrow> EsifArbPrimReq option list \<Rightarrow> bool" where
  "simulates = (\<lambda>(e, w, taken) s queued.
     (\<exists>ps. entry_rep e (req_heap w) ps \<and> map req_view ps = sp_pending s)
     \<and> arbType e = sp_type s \<and> upperLimit e = sp_upper s \<and> lowerLimit e = sp_lower s
     \<and> arbitrationEnabled e = sp_enabled s \<and> mgr_queue w queued
     \<and> last_sent e (taken @ queued) = sp_sent s \<and> settle s = s)"

lemma rank_view: "req_ok r \<Longrightarrow> rank ty r = val_rank ty (data_val (snd (req_view r)))"
  by (auto simp: rank_def val_rank_def req_val_def data_val_def req_view_def req_ok_def split: option.splits)

lemma sort_key_map: "sort_key f (map g xs) = map g (sort_key (f \<circ> g) xs)"
proof (induction xs)
  case (Cons x xs)
  have "insort_key f (g y) (map g ys) = map g (insort_key (f \<circ> g) y ys)" for y ys by (induction ys) auto
  with Cons show ?case by (simp add: comp_def)
qed simp

lemma sort_key_cong: "(\<And>x. x \<in> set xs \<Longrightarrow> f x = g x) \<Longrightarrow> sort_key f xs = sort_key g xs"
proof (induction xs)
  case (Cons x xs)
  have "insort_key f x ys = insort_key g x ys" if "\<forall>y\<in>set ys. f y = g y" for ys
    using that Cons.prems by (induction ys) auto
  with Cons show ?case by simp
qed simp

lemma ranked_view:
  assumes "\<forall>r\<in>set ps. req_ok r" "map req_view ps = sp_pending s"
  shows "ranked s = map req_view (arb_sort (sp_type s) ps)"
  unfolding ranked_def arb_sort_def assms(2) [symmetric] sort_key_map
  using assms(1) rank_view by (intro arg_cong [where f = "map req_view"] sort_key_cong) simp


lemma last_sent_queued:
  "last_sent e (xs @ map Some (with_dummy (prim_request (participantId e) (primitiveId e) (domain e) (entry_instance e)
      (Some (a, d)) None None None delay))) = Some d"
proof -
  let ?r = "prim_request (participantId e) (primitiveId e) (domain e) (entry_instance e) (Some (a, d)) None None None delay"
  have "filter (controls e) (xs @ map Some (with_dummy ?r)) = filter (controls e) xs @ [Some ?r]"
    by (simp add: with_dummy_def prim_request_def)
  then show ?thesis unfolding last_sent_def Let_def by (simp add: prim_request_def)
qed

text \<open>
  What an operation on one entry leaves alone: the nodes of other lists, its own identity and
  references, and the queue, to which it adds at most two requests, for its own control.
\<close>

definition same_entry :: "EsifArbEntry \<Rightarrow> EsifArbEntry \<Rightarrow> bool" where
  "same_entry e e' \<longleftrightarrow> participantId e' = participantId e \<and> primitiveId e' = primitiveId e \<and> domain e' = domain e
     \<and> entry_instance e' = entry_instance e \<and> refCount e' = refCount e \<and> markedForDelete e' = markedForDelete e
     \<and> deleteEvent e' = deleteEvent e"

fun concerns :: "EsifArbEntry \<Rightarrow> EsifArbPrimReq option \<Rightarrow> bool" where
  "concerns e None = False"
| "concerns e (Some r) = (pr_participantId r = participantId e \<and> pr_primitiveId r = primitiveId e
     \<and> pr_domain r = domain e \<and> pr_instance r = entry_instance e)"

definition entry_frame ::
    "EsifArbEntry \<Rightarrow> arb_world \<Rightarrow> EsifArbPrimReq option list \<Rightarrow> EsifArbEntry \<Rightarrow> arb_world \<Rightarrow> EsifArbPrimReq option list \<Rightarrow> bool" where
  "entry_frame e w qs e' w' qs' \<longleftrightarrow> same_entry e e'
     \<and> evolves (nodes_of (req_heap w) (arbRequests e)) (req_heap w) (nodes_of (req_heap w') (arbRequests e')) (req_heap w')
     \<and> (\<exists>items. qs' = qs @ items \<and> length items \<le> 2 \<and> (\<forall>x\<in>set items. concerns e x))"

lemma same_entry_refl [simp]: "same_entry e e"
  by (simp add: same_entry_def)

lemma entry_frame_length: "entry_frame e w qs e' w' qs' \<Longrightarrow> length qs' \<le> length qs + 2"
  by (auto simp: entry_frame_def)

lemma entry_frame_refl: "heap_ok (req_heap w) \<Longrightarrow> entry_frame e w qs e w qs"
  by (auto simp: entry_frame_def evolves_refl)

abbreviation entry_sends :: "EsifArbEntry \<Rightarrow> EsifArbReq \<Rightarrow> EsifData" where
  "entry_sends e r \<equiv> limited (upperLimit e) (lowerLimit e) (snd (the (reqPtr r)))"

lemma queue_limited_spec:
  assumes "mgr_queue w qs" "length qs + 2 \<le> 2 ^ 32 - 1" "req_ok r" "\<forall>a. alloc_ok (req_heap w) a"
  shows "\<exists>w' n items. EsifArbEntry_QueueLimitedPrimitiveRequest_Locked (Some e) (reqPtr r) delay w = Some (ESIF_OK, w')
    \<and> req_heap w' = (req_heap w)\<lparr>next_addr := n\<rparr> \<and> next_addr (req_heap w) \<le> n \<and> set_events w' = set_events w
    \<and> mgr_queue w' (qs @ items) \<and> length items \<le> 2 \<and> (\<forall>x\<in>set items. concerns e x)
    \<and> last_sent e (taken @ qs @ items) = Some (entry_sends e r)"
proof -
  obtain b d where d: "reqPtr r = Some (b, d)" "data_ok d" using assms(3) by (auto simp: req_ok_def split: option.splits)
  from create_limited_spec [OF d(2) assms(4), of e] obtain p n where
    p: "EsifArbEntry_CreateLimitedData_Locked (Some e) (Some d) (req_heap w) = Some (p, (req_heap w)\<lparr>next_addr := n\<rparr>)"
      "next_addr (req_heap w) \<le> n"
      "(case p of Some (_, c) \<Rightarrow> c | None \<Rightarrow> d) = limit_data (upperLimit e) (lowerLimit e) d" by blast
  let ?w = "w\<lparr>req_heap := (req_heap w)\<lparr>next_addr := n\<rparr>\<rparr>"
  have "mgr_queue ?w qs" using assms(1) by simp
  from queue_primitive_spec [OF this assms(2) limit_data_ok [OF d(2), of "upperLimit e" "lowerLimit e"],
      of "participantId e" "primitiveId e" "domain e" "entry_instance e" None None None delay] p(3)
  obtain a w' where w': "EsifArbEntry_QueueLimitedPrimitiveRequest_Locked (Some e) (reqPtr r) delay w = Some (ESIF_OK, w')"
      "req_heap w' = (req_heap w)\<lparr>next_addr := n\<rparr>" "set_events w' = set_events w"
      "mgr_queue w' (qs @ map Some (with_dummy (prim_request (participantId e) (primitiveId e) (domain e) (entry_instance e)
         (Some (a, entry_sends e r)) None None None delay)))"
    using p(1) d(1) by (auto simp: EsifArbEntry_QueueLimitedPrimitiveRequest_Locked_def limited_def)
  let ?items = "map Some (with_dummy (prim_request (participantId e) (primitiveId e) (domain e) (entry_instance e)
         (Some (a, entry_sends e r)) None None None delay))"
  have "length ?items \<le> 2" "\<forall>x\<in>set ?items. concerns e x" by (auto simp: with_dummy_def prim_request_def)
  with w' p(2) last_sent_queued [of e "taken @ qs" a "entry_sends e r" delay] show ?thesis
    by (intro exI [of _ w'] exI [of _ n] exI [of _ ?items]) simp
qed

lemma queue_if_changed_spec:
  assumes "ll_rep (req_heap w) (arbRequests e) xs" "map snd xs = map Some rs" "\<forall>r\<in>set rs. req_ok r"
    "\<forall>a. alloc_ok (req_heap w) a" "mgr_queue w qs" "length qs + 2 \<le> 2 ^ 32 - 1"
    and same: "\<And>r rs'. rs = r # rs' \<Longrightarrow> map_option fst (reqPtr r) = map_option fst prev
      \<Longrightarrow> last_sent e (taken @ qs) = Some (entry_sends e r)"
  shows "\<exists>w' n items. queue_if_changed (Some e) prev delay w = Some (ESIF_OK, w')
    \<and> req_heap w' = (req_heap w)\<lparr>next_addr := n\<rparr> \<and> next_addr (req_heap w) \<le> n \<and> set_events w' = set_events w
    \<and> mgr_queue w' (qs @ items) \<and> length items \<le> 2 \<and> (\<forall>x\<in>set items. concerns e x)
    \<and> last_sent e (taken @ qs @ items)
        = (case rs of [] \<Rightarrow> last_sent e (taken @ qs) | r # _ \<Rightarrow> Some (entry_sends e r))"
proof -
  have none: "queue_if_changed (Some e) prev delay w = Some (ESIF_OK, w) \<Longrightarrow>
      last_sent e (taken @ qs) = (case rs of [] \<Rightarrow> last_sent e (taken @ qs) | r # _ \<Rightarrow> Some (entry_sends e r)) \<Longrightarrow> ?thesis"
    using assms(5) by (intro exI [of _ w] exI [of _ "next_addr (req_heap w)"] exI [of _ "[]"]) simp
  show ?thesis
  proof (cases rs)
    case Nil
    then show ?thesis using winner_data [OF assms(1,2)] by (intro none) (simp_all add: queue_if_changed_def)
  next
    case (Cons r rs')
    then have r: "req_ok r" "reqPtr r \<noteq> None" using assms(3) by (auto simp: req_ok_def split: option.splits)
    show ?thesis
    proof (cases "map_option fst (reqPtr r) = map_option fst prev")
      case True
      then show ?thesis using winner_data [OF assms(1,2)] Cons same [OF Cons True]
        by (intro none) (simp_all add: queue_if_changed_def)
    next
      case False
      then have "queue_if_changed (Some e) prev delay w
          = EsifArbEntry_QueueLimitedPrimitiveRequest_Locked (Some e) (reqPtr r) delay w"
        using winner_data [OF assms(1,2)] Cons r(2) by (simp add: queue_if_changed_def)
      with queue_limited_spec [OF assms(5,6) r(1) assms(4), of e delay taken] Cons show ?thesis by simp
    qed
  qed
qed

subsection \<open>Settled states\<close>

lemma ranked_sent [simp]: "ranked (s\<lparr>sp_sent := x\<rparr>) = ranked s"
  by (simp add: ranked_def)

lemma settle_settle: "settle (settle s) = settle s"
  by (simp add: settle_def split: list.split)

lemma last_sent_cong:
  assumes "participantId e' = participantId e" "primitiveId e' = primitiveId e" "domain e' = domain e"
    "entry_instance e' = entry_instance e"
  shows "last_sent e' xs = last_sent e xs"
proof -
  have "controls e' = controls e"
  proof
    fix r show "controls e' r = controls e r" using assms by (cases r) auto
  qed
  then show ?thesis by (simp add: last_sent_def)
qed

lemma settle_entry:
  assumes "\<forall>r\<in>set ps. req_ok r" "map req_view ps = sp_pending s" "arbType e = sp_type s"
    "upperLimit e = sp_upper s" "lowerLimit e = sp_lower s"
  shows "sp_sent (settle s) = (case arb_sort (arbType e) ps of [] \<Rightarrow> sp_sent s | r # _ \<Rightarrow> Some (entry_sends e r))"
  using ranked_view [OF assms(1,2)] assms(3-5) by (simp add: settle_def req_view_def split: list.split)

lemma simulatesI:
  assumes "entry_rep e (req_heap w) ps" "map req_view ps = sp_pending s" "arbType e = sp_type s"
    "upperLimit e = sp_upper s" "lowerLimit e = sp_lower s" "arbitrationEnabled e = sp_enabled s" "mgr_queue w qs"
    "last_sent e (taken @ qs) = (case arb_sort (arbType e) ps of [] \<Rightarrow> sp_sent s | r # _ \<Rightarrow> Some (entry_sends e r))"
  shows "simulates (e, w, taken) (settle s) qs"
proof -
  have ok: "\<forall>r\<in>set ps. req_ok r" using assms(1) by (simp add: entry_rep_def)
  have same: "sp_pending (settle s) = sp_pending s" "sp_type (settle s) = sp_type s" "sp_upper (settle s) = sp_upper s"
    "sp_lower (settle s) = sp_lower s" "sp_enabled (settle s) = sp_enabled s"
    by (simp_all add: settle_def split: list.split)
  show ?thesis unfolding simulates_def prod.case same settle_settle
    using assms settle_entry [OF ok assms(2-5)] by auto
qed

lemma simulatesE:
  assumes "simulates (e, w, taken) s qs"
  obtains ps where "entry_rep e (req_heap w) ps" "map req_view ps = sp_pending s" "arbType e = sp_type s"
    "upperLimit e = sp_upper s" "lowerLimit e = sp_lower s" "arbitrationEnabled e = sp_enabled s" "mgr_queue w qs"
    "last_sent e (taken @ qs) = sp_sent s" "settle s = s"
    "\<forall>r rs. arb_sort (arbType e) ps = r # rs \<longrightarrow> last_sent e (taken @ qs) = Some (entry_sends e r)"
proof -
  from assms obtain ps where ps: "entry_rep e (req_heap w) ps" "map req_view ps = sp_pending s" "arbType e = sp_type s"
    "upperLimit e = sp_upper s" "lowerLimit e = sp_lower s" "arbitrationEnabled e = sp_enabled s" "mgr_queue w qs"
    "last_sent e (taken @ qs) = sp_sent s" "settle s = s" by (auto simp: simulates_def)
  have "\<forall>r\<in>set ps. req_ok r" using ps(1) by (simp add: entry_rep_def)
  then have "sp_sent s = Some (entry_sends e r)" if "arb_sort (arbType e) ps = r # rs" for r rs
    using settle_entry [OF _ ps(2-5)] ps(9) that by simp
  then have "\<forall>r rs. arb_sort (arbType e) ps = r # rs \<longrightarrow> last_sent e (taken @ qs) = Some (entry_sends e r)"
    using ps(8) by simp
  from that [OF ps this] show thesis .
qed

lemma entry_rep_next: "entry_rep e h ps \<Longrightarrow> next_addr h \<le> n \<Longrightarrow> entry_rep e (h\<lparr>next_addr := n\<rparr>) ps"
  by (fastforce simp: entry_rep_def heap_ok_def ll_rep_def)

definition winner_ptr :: "EsifArbEntry \<Rightarrow> EsifArbReq list \<Rightarrow> EsifDataPtr" where
  "winner_ptr e ps = (case arb_sort (arbType e) ps of [] \<Rightarrow> None | r # _ \<Rightarrow> reqPtr r)"

lemma entry_winner:
  "entry_rep e h ps \<Longrightarrow> EsifArbEntry_GetArbitratedRequestData_Locked (Some e) h = Some (winner_ptr e ps)"
  by (auto simp: entry_rep_def winner_ptr_def dest: winner_data)

text \<open>
  A change of the requests of an entry, followed by the test whether the winner is another one: new
  requests have new addresses, so an equal address means the same request.
\<close>

lemma sim_change:
  assumes old: "entry_rep e (req_heap w) ps"
      "\<forall>r rs. arb_sort (arbType e) ps = r # rs \<longrightarrow> last_sent e (taken @ qs) = Some (entry_sends e r)"
      "last_sent e (taken @ qs) = sp_sent s1"
    and e1: "same_entry e e1" "upperLimit e1 = upperLimit e" "lowerLimit e1 = lowerLimit e"
    and new: "entry_rep e1 h1 ps1" "\<forall>r\<in>set ps1. r \<in> set ps \<or> next_addr (req_heap w) \<le> req_key r"
      "evolves (nodes_of (req_heap w) (arbRequests e)) (req_heap w) (nodes_of h1 (arbRequests e1)) h1"
    and s1: "map req_view ps1 = sp_pending s1" "arbType e1 = sp_type s1" "upperLimit e1 = sp_upper s1"
      "lowerLimit e1 = sp_lower s1" "arbitrationEnabled e1 = sp_enabled s1"
    and q: "mgr_queue w qs" "length qs + 2 \<le> 2 ^ 32 - 1"
  shows "\<exists>w' qs'. queue_if_changed (Some e1) (winner_ptr e ps) delay (w\<lparr>req_heap := h1\<rparr>) = Some (ESIF_OK, w')
    \<and> simulates (e1, w', taken) (settle s1) qs' \<and> entry_frame e w qs e1 w' qs'"
proof -
  let ?rs = "arb_sort (arbType e1) ps1"
  let ?w = "w\<lparr>req_heap := h1\<rparr>"
  from new(1) obtain xs where xs: "ll_rep (req_heap ?w) (arbRequests e1) xs" "map snd xs = map Some ?rs"
    by (auto simp: entry_rep_def)
  have ok: "\<forall>r\<in>set ?rs. req_ok r" "\<forall>a. alloc_ok (req_heap ?w) a" using new(1) by (auto simp: entry_rep_def)
  have sent: "last_sent e1 z = last_sent e z" for z using e1(1) by (intro last_sent_cong) (auto simp: same_entry_def)
  have same: "last_sent e1 (taken @ qs) = Some (entry_sends e1 r)"
    if r: "?rs = r # rs'" "map_option fst (reqPtr r) = map_option fst (winner_ptr e ps)" for r rs'
  proof -
    have r1: "r \<in> set ps1" using arb_sort_simps(1) [of "arbType e1" ps1] r(1) by auto
    then have "reqPtr r \<noteq> None" using ok(1) by (auto simp: req_ok_def split: option.splits)
    with r(2) obtain r0 rs0 where r0: "arb_sort (arbType e) ps = r0 # rs0" "req_key r = req_key r0"
      by (cases "arb_sort (arbType e) ps") (auto simp: winner_ptr_def req_key_def map_option_case split: option.splits)
    then have p0: "r0 \<in> set ps" using arb_sort_simps(1) [of "arbType e" ps] by auto
    then have "req_key r0 < next_addr (req_heap w)" using old(1) by (simp add: entry_rep_def)
    with new(2) r1 r0(2) have "r \<in> set ps" by auto
    then have "r = r0" using p0 r0(2) old(1) by (auto simp: entry_rep_def distinct_map inj_on_def)
    with old(2) r0(1) e1 sent show ?thesis by simp
  qed
  have "mgr_queue ?w qs" using q(1) by simp
  note spec = queue_if_changed_spec [OF xs ok this q(2), where prev = "winner_ptr e ps" and taken = taken and delay = delay]
  obtain w' n items where
    w': "queue_if_changed (Some e1) (winner_ptr e ps) delay ?w = Some (ESIF_OK, w')"
      "req_heap w' = h1\<lparr>next_addr := n\<rparr>" "next_addr h1 \<le> n" "mgr_queue w' (qs @ items)" "length items \<le> 2"
      "\<forall>x\<in>set items. concerns e1 x"
      "last_sent e1 (taken @ qs @ items) = (case ?rs of [] \<Rightarrow> last_sent e1 (taken @ qs) | r # _ \<Rightarrow> Some (entry_sends e1 r))"
    using spec same by auto
  have "simulates (e1, w', taken) (settle s1) (qs @ items)"
    using w'(7) [unfolded sent [of "taken @ qs"] old(3)] w'(2-4) s1 entry_rep_next [OF new(1)]
    by (intro simulatesI [where ps = ps1]) auto
  moreover have "concerns e x" if "x \<in> set items" for x
    using w'(6) that e1(1) by (cases x) (force simp: same_entry_def)+
  then have "entry_frame e w qs e1 w' (qs @ items)"
    using w'(2,3,5) e1(1) evolves_next [OF new(3)] by (auto simp: entry_frame_def)
  ultimately show ?thesis using w'(1) by blast
qed

subsection \<open>The operations\<close>

lemma entry_repI:
  assumes "ll_rep h' l xs" "map snd xs = map Some (arb_sort (arbType e) ps)" "arbRequests e = l"
    "one_per_app ps" "\<forall>r\<in>set ps. req_ok r \<and> req_key r < next_addr h'" "distinct (map req_key ps)"
    "evolves A h A' h'" "\<forall>a. alloc_ok h a"
  shows "entry_rep e h' ps"
  using assms by (auto simp: entry_rep_def evolves_def)

lemma entry_repE:
  assumes "entry_rep e h ps"
  obtains xs where "ll_rep h (arbRequests e) xs" "map snd xs = map Some (arb_sort (arbType e) ps)" "one_per_app ps"
    "\<forall>r\<in>set ps. req_ok r" "\<forall>r\<in>set ps. req_key r < next_addr h" "distinct (map req_key ps)" "heap_ok h" "\<forall>a. alloc_ok h a"
  using assms by (auto simp: entry_rep_def)

lemma create_req_spec:
  assumes "data_ok d" "\<forall>a. alloc_ok h a"
  shows "\<exists>n. EsifArbReq_Create app (Some d) h
      = Some (Some \<lparr>appHandle = app, reqPtr = Some (Suc (next_addr h), clone_of d)\<rparr>, h\<lparr>next_addr := n\<rparr>)
    \<and> Suc (next_addr h) < n"
  using clone_spec [OF assms(1), of "h\<lparr>next_addr := Suc (next_addr h)\<rparr>"] assms(2)
  by (auto simp: EsifArbReq_Create_def esif_ccb_malloc_def)

lemma insert_request_spec:
  assumes "entry_rep e h ps" "data_ok d"
  shows "\<exists>l' h' r. EsifArbEntry_InsertRequest_Locked (Some e) app (Some d) h = Some (ESIF_OK, Some (e\<lparr>arbRequests := l'\<rparr>), h')
    \<and> r = \<lparr>appHandle = app, reqPtr = Some (Suc (next_addr h), clone_of d)\<rparr>
    \<and> entry_rep (e\<lparr>arbRequests := l'\<rparr>) h' (others r ps @ [r])
    \<and> evolves (nodes_of h (arbRequests e)) h (nodes_of h' l') h'"
proof -
  from assms(1) obtain xs where xs: "ll_rep h (arbRequests e) xs" "map snd xs = map Some (arb_sort (arbType e) ps)" "one_per_app ps"
    "\<forall>r\<in>set ps. req_ok r" "\<forall>r\<in>set ps. req_key r < next_addr h" "distinct (map req_key ps)" "heap_ok h" "\<forall>a. alloc_ok h a"
    by (rule entry_repE)
  let ?r = "\<lparr>appHandle = app, reqPtr = Some (Suc (next_addr h), clone_of d)\<rparr>"
  from create_req_spec [OF assms(2) xs(8)] obtain n where
    c: "EsifArbReq_Create app (Some d) h = Some (Some ?r, h\<lparr>next_addr := n\<rparr>)" "Suc (next_addr h) < n" by blast
  let ?h1 = "h\<lparr>next_addr := n\<rparr>"
  have h1: "ll_rep ?h1 (arbRequests e) xs" "heap_ok ?h1" using xs(1,7) c(2) by (auto simp: ll_rep_def heap_ok_def)
  have r: "req_ok ?r" using clone_of_ok [OF assms(2)] by (simp add: req_ok_def)
  have "one_per_app (arb_sort (arbType e) ps)" "\<forall>x\<in>set (arb_sort (arbType e) ps). req_ok x" using xs(3,4) by auto
  from arbitrate_request_spec [OF h1 xs(2) this(1) r this(2)] obtain l' h' xs' where
    a: "EsifArbEntry_ArbitrateRequest_Locked (Some e) (Some ?r) ?h1 = Some (ESIF_OK, Some (e\<lparr>arbRequests := l'\<rparr>), h')"
      "ll_rep h' l' xs'" "evolves (fst ` set xs) ?h1 (fst ` set xs') h'" "next_addr h' = Suc n"
      "map snd xs' = map Some (arb_sort (arbType e) (others ?r ps @ [?r]))"
    using xs(8) by (auto simp: arb_sort_filter arb_sort_insert)
  have "entry_rep (e\<lparr>arbRequests := l'\<rparr>) h' (others ?r ps @ [?r])"
  proof (rule entry_repI [OF a(2) _ _ _ _ _ a(3)])
    show "one_per_app (others ?r ps @ [?r])" using xs(3) by (auto simp: distinct_map_filter)
    have "\<forall>r\<in>set ps. req_key r \<noteq> Suc (next_addr h)" using xs(5) by fastforce
    then show "distinct (map req_key (others ?r ps @ [?r]))" using xs(6) by (auto simp: distinct_map_filter req_key_def)
    show "\<forall>r\<in>set (others ?r ps @ [?r]). req_ok r \<and> req_key r < next_addr h'"
      using xs(4,5) r c(2) a(4) by (fastforce simp: req_key_def)
  qed (use a(5) xs(8) in auto)
  moreover have "evolves (nodes_of h (arbRequests e)) h (nodes_of h' l') h'"
    using evolves_from_next [OF a(3)] c(2) unfolding nodes_of_rep [OF a(2)] nodes_of_rep [OF xs(1)] by simp
  moreover have "EsifArbEntry_InsertRequest_Locked (Some e) app (Some d) h = Some (ESIF_OK, Some (e\<lparr>arbRequests := l'\<rparr>), h')"
    using c(1) a(1) by (simp add: EsifArbEntry_InsertRequest_Locked_def)
  ultimately show ?thesis by blast
qed

lemma simulates_heap: "simulates (e, w, taken) s qs \<Longrightarrow> heap_ok (req_heap w)"
  by (auto simp: simulates_def entry_rep_def)

lemma sim_request:
  assumes "simulates (e, w, taken) s qs" "data_ok d" "length qs + 2 \<le> 2 ^ 32 - 1"
  shows "\<exists>e' w' qs'. entry_op (Request app d) (e, w, taken) = Some (fst (spec_op (Request app d) s), e', w', taken)
    \<and> simulates (e', w', taken) (snd (spec_op (Request app d) s)) qs' \<and> entry_frame e w qs e' w' qs'"
proof (cases "sp_enabled s")
  case False
  then have "\<not> arbitrationEnabled e" using assms(1) by (simp add: simulates_def)
  with False assms(1) entry_frame_refl [OF simulates_heap [OF assms(1)]] show ?thesis
    by (auto simp: EsifArbEntry_ExecutePrimitive_def)
next
  case True
  from assms(1) obtain ps where ps: "entry_rep e (req_heap w) ps" "map req_view ps = sp_pending s" "arbType e = sp_type s"
    "upperLimit e = sp_upper s" "lowerLimit e = sp_lower s" "arbitrationEnabled e = sp_enabled s" "mgr_queue w qs"
    "last_sent e (taken @ qs) = sp_sent s" "settle s = s"
    "\<forall>r rs. arb_sort (arbType e) ps = r # rs \<longrightarrow> last_sent e (taken @ qs) = Some (entry_sends e r)" by (rule simulatesE)
  from insert_request_spec [OF ps(1) assms(2), of app] obtain l' h' r where
    i: "EsifArbEntry_InsertRequest_Locked (Some e) app (Some d) (req_heap w) = Some (ESIF_OK, Some (e\<lparr>arbRequests := l'\<rparr>), h')"
      "r = \<lparr>appHandle = app, reqPtr = Some (Suc (next_addr (req_heap w)), clone_of d)\<rparr>"
      "entry_rep (e\<lparr>arbRequests := l'\<rparr>) h' (others r ps @ [r])"
      "evolves (nodes_of (req_heap w) (arbRequests e)) (req_heap w) (nodes_of h' l') h'" by blast
  let ?e1 = "e\<lparr>arbRequests := l'\<rparr>"
  let ?s1 = "withdrawn app s\<lparr>sp_pending := sp_pending (withdrawn app s) @ [(app, clone_of d)]\<rparr>"
  have "\<forall>x\<in>set (others r ps @ [r]). x \<in> set ps \<or> next_addr (req_heap w) \<le> req_key x"
    using i(2) by (auto simp: req_key_def)
  moreover have "map req_view (others r ps @ [r]) = sp_pending ?s1"
    using i(2) ps(2) by (simp add: withdrawn_def req_view_def filter_map comp_def flip: ps(2))
  ultimately obtain w' qs' where
    "queue_if_changed (Some ?e1) (winner_ptr e ps) True (w\<lparr>req_heap := h'\<rparr>) = Some (ESIF_OK, w')"
    "simulates (?e1, w', taken) (settle ?s1) qs'" "entry_frame e w qs ?e1 w' qs'"
    using sim_change [OF ps(1,10), where ?e1.0 = ?e1 and ?s1.0 = ?s1 and ?h1.0 = h' and ?ps1.0 = "others r ps @ [r]" and delay = True]
      i(3,4) ps(3-8) assms(3) by (auto simp: withdrawn_def same_entry_def)
  with True ps(6) i(1) entry_winner [OF ps(1)] show ?thesis
    by (auto simp: EsifArbEntry_ExecutePrimitive_def Let_def)
qed

lemma sim_withdraw:
  assumes "simulates (e, w, taken) s qs" "length qs + 2 \<le> 2 ^ 32 - 1"
  shows "\<exists>e' w' qs'. entry_op (Withdraw app) (e, w, taken) = Some (fst (spec_op (Withdraw app) s), e', w', taken)
    \<and> simulates (e', w', taken) (snd (spec_op (Withdraw app) s)) qs' \<and> entry_frame e w qs e' w' qs'"
proof -
  from assms(1) obtain ps where ps: "entry_rep e (req_heap w) ps" "map req_view ps = sp_pending s" "arbType e = sp_type s"
    "upperLimit e = sp_upper s" "lowerLimit e = sp_lower s" "arbitrationEnabled e = sp_enabled s" "mgr_queue w qs"
    "last_sent e (taken @ qs) = sp_sent s" "settle s = s"
    "\<forall>r rs. arb_sort (arbType e) ps = r # rs \<longrightarrow> last_sent e (taken @ qs) = Some (entry_sends e r)" by (rule simulatesE)
  from ps(1) obtain xs where xs: "ll_rep (req_heap w) (arbRequests e) xs" "map snd xs = map Some (arb_sort (arbType e) ps)"
    "one_per_app ps" "\<forall>r\<in>set ps. req_ok r" "\<forall>r\<in>set ps. req_key r < next_addr (req_heap w)" "distinct (map req_key ps)"
    "heap_ok (req_heap w)" "\<forall>a. alloc_ok (req_heap w) a" by (rule entry_repE)
  let ?ps1 = "filter (\<lambda>x. appHandle x \<noteq> app) ps"
  from remove_app_spec [of "req_heap w" "arbRequests e" "[]" xs, OF _ xs(7,2), of app] xs(1) ll_rep_first [OF xs(1)]
  obtain l' h' xs' where
    r: "remove_app_loop app (arbRequests e) (head_ptr (arbRequests e)) (req_heap w) = Some (l', h')" "ll_rep h' l' xs'"
      "map snd xs' = map Some (arb_sort (arbType e) ?ps1)" "evolves (fst ` set xs) (req_heap w) (fst ` set xs') h'"
      "next_addr h' = next_addr (req_heap w)" by (auto simp: arb_sort_filter)
  let ?e1 = "e\<lparr>arbRequests := l'\<rparr>"
  have "entry_rep ?e1 h' ?ps1"
    using xs r by (intro entry_repI [OF r(2) _ _ _ _ _ r(4)]) (auto simp: distinct_map_filter)
  moreover have "evolves (nodes_of (req_heap w) (arbRequests e)) (req_heap w) (nodes_of h' (arbRequests ?e1)) h'"
    using r(4) unfolding nodes_of_rep [OF xs(1)] by (simp add: nodes_of_rep [OF r(2)])
  moreover have "map req_view ?ps1 = sp_pending (withdrawn app s)"
    by (simp add: withdrawn_def req_view_def filter_map comp_def flip: ps(2))
  ultimately obtain w' qs' where
    "queue_if_changed (Some ?e1) (winner_ptr e ps) False (w\<lparr>req_heap := h'\<rparr>) = Some (ESIF_OK, w')"
    "simulates (?e1, w', taken) (settle (withdrawn app s)) qs'" "entry_frame e w qs ?e1 w' qs'"
    using sim_change [OF ps(1,10), where ?e1.0 = ?e1 and ?s1.0 = "withdrawn app s" and ?h1.0 = h' and ?ps1.0 = ?ps1 and delay = False]
      ps(3-8) assms(2) by (auto simp: withdrawn_def same_entry_def)
  with r(1) entry_winner [OF ps(1)] show ?thesis by (auto simp: EsifArbEntry_RemoveApp_def)
qed

lemma valid_function:
  "(GetArbitrationFunction ty \<noteq> None) = (ty = ESIF_ARBITRATION_UIN32_GREATER_THAN \<or> ty = ESIF_ARBITRATION_UIN32_LESS_THAN)"
proof
  assume "GetArbitrationFunction ty \<noteq> None"
  then obtain f where "GetArbitrationFunction ty = Some f" by auto
  then show "ty = 1 \<or> ty = 2" by (rule function_cases) simp_all
qed (auto simp: GetArbitrationFunction_def g_arbitrationFunctions_def)

lemma sim_function:
  assumes "simulates (e, w, taken) s qs" "length qs + 2 \<le> 2 ^ 32 - 1"
  shows "\<exists>e' w' qs'. entry_op (Function ty) (e, w, taken) = Some (fst (spec_op (Function ty) s), e', w', taken)
    \<and> simulates (e', w', taken) (snd (spec_op (Function ty) s)) qs' \<and> entry_frame e w qs e' w' qs'"
proof (cases "GetArbitrationFunction ty")
  case None
  then have "\<not> (ty = 1 \<or> ty = 2)" using valid_function [of ty] by simp
  with None assms(1) entry_frame_refl [OF simulates_heap [OF assms(1)]] show ?thesis
    by (auto simp: EsifArbEntry_SetArbitrationFunction_def)
next
  case (Some f)
  then have ty: "ty = 1 \<or> ty = 2" using valid_function [of ty] by simp
  from assms(1) obtain ps where ps: "entry_rep e (req_heap w) ps" "map req_view ps = sp_pending s" "arbType e = sp_type s"
    "upperLimit e = sp_upper s" "lowerLimit e = sp_lower s" "arbitrationEnabled e = sp_enabled s" "mgr_queue w qs"
    "last_sent e (taken @ qs) = sp_sent s" "settle s = s"
    "\<forall>r rs. arb_sort (arbType e) ps = r # rs \<longrightarrow> last_sent e (taken @ qs) = Some (entry_sends e r)" by (rule simulatesE)
  from ps(1) obtain xs where xs: "ll_rep (req_heap w) (arbRequests e) xs" "map snd xs = map Some (arb_sort (arbType e) ps)"
    "one_per_app ps" "\<forall>r\<in>set ps. req_ok r" "\<forall>r\<in>set ps. req_key r < next_addr (req_heap w)" "distinct (map req_key ps)"
    "heap_ok (req_heap w)" "\<forall>a. alloc_ok (req_heap w) a" by (rule entry_repE)
  let ?e0 = "e\<lparr>arbType := ty\<rparr>"
  have "ll_rep (req_heap w) (arbRequests ?e0) xs" "one_per_app (arb_sort (arbType e) ps)" "\<forall>r\<in>set (arb_sort (arbType e) ps). req_ok r"
    using xs by simp_all
  note rearb = rearbitrate_spec [OF this(1) xs(2,7) this(2,3) xs(8)]
  have srt: "arb_sort ty (arb_sort (arbType e) ps) = arb_sort ty ps"
    by (rule arb_sort_sort) (rule rank_determined [OF Some])
  from rearb obtain l' h' xs' where
    r: "EsifArbEntry_RearbitrateRequests_Locked (Some ?e0) (req_heap w) = Some (ESIF_OK, Some (?e0\<lparr>arbRequests := l'\<rparr>), h')"
      "ll_rep h' l' xs'" "map snd xs' = map Some (arb_sort ty ps)" "evolves (fst ` set xs) (req_heap w) (fst ` set xs') h'"
    by (auto simp: srt)
  let ?e1 = "?e0\<lparr>arbRequests := l'\<rparr>" and ?s1 = "s\<lparr>sp_type := ty\<rparr>"
  have nx: "next_addr (req_heap w) \<le> next_addr h'" using r(4) by (simp add: evolves_def)
  have "\<forall>r\<in>set ps. req_ok r \<and> req_key r < next_addr h'" using xs(4,5) nx by auto
  then have "entry_rep ?e1 h' ps"
    using xs r by (intro entry_repI [OF r(2) _ _ _ _ _ r(4)]) auto
  moreover have "evolves (nodes_of (req_heap w) (arbRequests e)) (req_heap w) (nodes_of h' (arbRequests ?e1)) h'"
    using r(4) unfolding nodes_of_rep [OF xs(1)] by (simp add: nodes_of_rep [OF r(2)])
  ultimately obtain w' qs' where
    "queue_if_changed (Some ?e1) (winner_ptr e ps) False (w\<lparr>req_heap := h'\<rparr>) = Some (ESIF_OK, w')"
    "simulates (?e1, w', taken) (settle ?s1) qs'" "entry_frame e w qs ?e1 w' qs'"
    using sim_change [OF ps(1,10), where ?e1.0 = ?e1 and ?s1.0 = ?s1 and ?h1.0 = h' and ?ps1.0 = ps and delay = False]
      ps(2-8) assms(2) by (auto simp: same_entry_def)
  moreover have "EsifArbEntry_GetArbitratedRequestData_Locked (Some ?e0) (req_heap w) = Some (winner_ptr e ps)"
    using entry_winner [OF ps(1)] by (auto simp: EsifArbEntry_GetArbitratedRequestData_Locked_def split: if_splits)
  ultimately show ?thesis using Some ty r(1) by (auto simp: EsifArbEntry_SetArbitrationFunction_def)
qed


lemma sim_limits:
  assumes "simulates (e, w, taken) s qs" "length qs + 2 \<le> 2 ^ 32 - 1"
  shows "\<exists>e' w' qs'. entry_op (Limits u l) (e, w, taken) = Some (fst (spec_op (Limits u l) s), e', w', taken)
    \<and> simulates (e', w', taken) (snd (spec_op (Limits u l) s)) qs' \<and> entry_frame e w qs e' w' qs'"
proof -
  from assms(1) obtain ps where ps: "entry_rep e (req_heap w) ps" "map req_view ps = sp_pending s" "arbType e = sp_type s"
    "upperLimit e = sp_upper s" "lowerLimit e = sp_lower s" "arbitrationEnabled e = sp_enabled s" "mgr_queue w qs"
    "last_sent e (taken @ qs) = sp_sent s" "settle s = s"
    "\<forall>r rs. arb_sort (arbType e) ps = r # rs \<longrightarrow> last_sent e (taken @ qs) = Some (entry_sends e r)" by (rule simulatesE)
  let ?up = "case u of Some x \<Rightarrow> x | None \<Rightarrow> sp_upper s" and ?lo = "case l of Some x \<Rightarrow> x | None \<Rightarrow> sp_lower s"
  let ?e1 = "e\<lparr>upperLimit := ?up, lowerLimit := ?lo\<rparr>" and ?s1 = "s\<lparr>sp_upper := ?up, sp_lower := ?lo\<rparr>"
  consider (bad) "\<not> ?lo \<le> ?up" | (same) "?lo \<le> ?up" "?up = sp_upper s" "?lo = sp_lower s"
    | (new) "?lo \<le> ?up" "?up \<noteq> sp_upper s \<or> ?lo \<noteq> sp_lower s" by blast
  then show ?thesis
  proof cases
    case bad
    with ps(4,5) assms(1) entry_frame_refl [OF simulates_heap [OF assms(1)]] show ?thesis
      by (cases u; cases l) (auto simp: EsifArbEntry_SetLimits_def)
  next
    case same
    then have "settle ?s1 = s" using ps(9) by simp
    with same ps(4,5) assms(1) entry_frame_refl [OF simulates_heap [OF assms(1)]] show ?thesis
      by (cases u; cases l) (auto simp: EsifArbEntry_SetLimits_def)
  next
    case new
    have rep1: "entry_rep ?e1 (req_heap w) ps" using ps(1) by (simp add: entry_rep_def)
    have win: "EsifArbEntry_GetArbitratedRequestData_Locked (Some ?e1) (req_heap w) = Some (winner_ptr ?e1 ps)"
      by (rule entry_winner [OF rep1])
    have sent: "last_sent ?e1 z = last_sent e z" for z by (rule last_sent_cong) simp_all
    have same1: "same_entry e ?e1" by (simp add: same_entry_def)
    have refl: "evolves (nodes_of (req_heap w) (arbRequests e)) (req_heap w) (nodes_of (req_heap w) (arbRequests e)) (req_heap w)"
      using simulates_heap [OF assms(1)] by (simp add: evolves_refl)
    have "\<exists>rc w' qs'. EsifArbEntry_QueueLimitedPrimitiveRequest_Locked (Some ?e1) (winner_ptr ?e1 ps) False w = Some (rc, w')
        \<and> simulates (?e1, w', taken) (settle ?s1) qs' \<and> entry_frame e w qs ?e1 w' qs'"
    proof (cases "arb_sort (arbType e) ps")
      case Nil
      then have "simulates (?e1, w, taken) (settle ?s1) qs"
        using ps rep1 sent by (intro simulatesI [where ps = ps]) auto
      moreover have "winner_ptr ?e1 ps = None" using Nil by (simp add: winner_ptr_def)
      moreover have "entry_frame e w qs ?e1 w qs" using same1 refl by (simp add: entry_frame_def)
      ultimately show ?thesis
        by (auto simp: EsifArbEntry_QueueLimitedPrimitiveRequest_Locked_def intro!: exI [of _ w] exI [of _ qs])
    next
      case (Cons r rs)
      then have "r \<in> set ps" using arb_sort_simps(1) [of "arbType e" ps] by auto
      then have "req_ok r" "\<forall>a. alloc_ok (req_heap w) a" using ps(1) by (auto simp: entry_rep_def)
      from queue_limited_spec [OF ps(7) assms(2) this, of ?e1 False taken] obtain w' n items where
        q: "EsifArbEntry_QueueLimitedPrimitiveRequest_Locked (Some ?e1) (reqPtr r) False w = Some (ESIF_OK, w')"
          "req_heap w' = (req_heap w)\<lparr>next_addr := n\<rparr>" "next_addr (req_heap w) \<le> n" "mgr_queue w' (qs @ items)"
          "length items \<le> 2" "\<forall>x\<in>set items. concerns ?e1 x" "last_sent ?e1 (taken @ qs @ items) = Some (entry_sends ?e1 r)" by blast
      have "simulates (?e1, w', taken) (settle ?s1) (qs @ items)"
        using ps q Cons entry_rep_next [OF rep1 q(3)] by (intro simulatesI [where ps = ps]) auto
      moreover have "winner_ptr ?e1 ps = reqPtr r" using Cons by (simp add: winner_ptr_def)
      moreover have "concerns e x" if "x \<in> set items" for x using q(6) that by (cases x) force+
      then have "entry_frame e w qs ?e1 w' (qs @ items)"
        using q(2,3,5) same1 evolves_next [OF refl] by (auto simp: entry_frame_def)
      ultimately show ?thesis using q(1) by metis
    qed
    with new ps(4,5) win show ?thesis 
      by (cases u; cases l) (auto simp: EsifArbEntry_SetLimits_def)
  qed
qed

lemma sim_cleared:
  assumes "simulates (e, w, taken) s qs"
  shows "\<exists>e' w'. EsifArbEntry_PurgeRequests_Locked (Some (e\<lparr>arbitrationEnabled := b\<rparr>)) w = Some (Some e', w')
    \<and> simulates (e', w', taken) (s\<lparr>sp_enabled := b, sp_pending := []\<rparr>) qs \<and> entry_frame e w qs e' w' qs"
proof -
  from assms(1) obtain ps where ps: "entry_rep e (req_heap w) ps" "map req_view ps = sp_pending s" "arbType e = sp_type s"
    "upperLimit e = sp_upper s" "lowerLimit e = sp_lower s" "arbitrationEnabled e = sp_enabled s" "mgr_queue w qs"
    "last_sent e (taken @ qs) = sp_sent s" "settle s = s"
    "\<forall>r rs. arb_sort (arbType e) ps = r # rs \<longrightarrow> last_sent e (taken @ qs) = Some (entry_sends e r)" by (rule simulatesE)
  from ps(1) obtain xs where xs: "ll_rep (req_heap w) (arbRequests e) xs" "heap_ok (req_heap w)" "\<forall>a. alloc_ok (req_heap w) a"
    by (auto elim: entry_repE)
  from free_data_evolves [OF xs(1,2), of True] obtain l' h' where
    f: "esif_link_list_free_data (Some (arbRequests e)) True (req_heap w) = Some (Some l', h', map (release_data True) (map snd xs))"
      "ll_rep h' l' []" "evolves (fst ` set xs) (req_heap w) {} h'" by blast
  let ?e1 = "e\<lparr>arbitrationEnabled := b, arbRequests := l'\<rparr>" and ?s1 = "s\<lparr>sp_enabled := b, sp_pending := []\<rparr>"
  have "entry_rep ?e1 h' []" using f xs by (intro entry_repI [OF f(2) _ _ _ _ _ f(3)]) auto
  moreover have "last_sent ?e1 z = last_sent e z" for z by (rule last_sent_cong) simp_all
  moreover have "settle ?s1 = ?s1" by (simp add: settle_def ranked_def)
  ultimately have "simulates (?e1, w\<lparr>req_heap := h'\<rparr>, taken) ?s1 qs"
    using ps by (simp add: simulates_def)
  moreover have "entry_frame e w qs ?e1 (w\<lparr>req_heap := h'\<rparr>) qs"
    using f(3) unfolding nodes_of_rep [OF xs(1), symmetric] by (simp add: entry_frame_def same_entry_def nodes_of_rep [OF f(2)])
  ultimately show ?thesis using f(1) by (auto simp: EsifArbEntry_PurgeRequests_Locked_def)
qed

lemma settled_iff:
  "settle s = s \<longleftrightarrow> (case ranked s of [] \<Rightarrow> True
     | p # _ \<Rightarrow> sp_sent s = Some (limited (sp_upper s) (sp_lower s) (snd p)))"
proof -
  have "s\<lparr>sp_sent := x\<rparr> = s \<longleftrightarrow> sp_sent s = x" for x by (cases s) auto
  then show ?thesis by (simp add: settle_def split: list.split)
qed

lemma sim_enable:
  assumes "simulates (e, w, taken) s qs"
  shows "\<exists>e' w'. entry_op (Enable b) (e, w, taken) = Some (fst (spec_op (Enable b) s), e', w', taken)
    \<and> simulates (e', w', taken) (snd (spec_op (Enable b) s)) qs \<and> entry_frame e w qs e' w' qs"
proof (cases b)
  case False
  with sim_cleared [OF assms, of False] show ?thesis by (auto simp: EsifArbEntry_SetArbitrationState_def Let_def)
next
  case True
  have rep: "entry_rep (e\<lparr>arbitrationEnabled := True\<rparr>) h ps = entry_rep e h ps" for h ps by (simp add: entry_rep_def)
  have "last_sent (e\<lparr>arbitrationEnabled := True\<rparr>) z = last_sent e z" for z by (rule last_sent_cong) simp_all
  moreover have "settle (s\<lparr>sp_enabled := True\<rparr>) = s\<lparr>sp_enabled := True\<rparr>" if "settle s = s"
    using that by (simp add: settled_iff ranked_def split: list.splits)
  ultimately have "simulates (e\<lparr>arbitrationEnabled := True\<rparr>, w, taken) (s\<lparr>sp_enabled := True\<rparr>) qs"
    using assms by (auto simp: simulates_def rep)
  moreover have "entry_frame e w qs (e\<lparr>arbitrationEnabled := True\<rparr>) w qs"
    using simulates_heap [OF assms] by (simp add: entry_frame_def same_entry_def evolves_refl)
  ultimately show ?thesis using True by (auto simp: EsifArbEntry_SetArbitrationState_def)
qed

lemma sim_purge:
  assumes "simulates (e, w, taken) s qs"
  shows "\<exists>e' w'. entry_op Purge (e, w, taken) = Some (fst (spec_op Purge s), e', w', taken)
    \<and> simulates (e', w', taken) (snd (spec_op Purge s)) qs \<and> entry_frame e w qs e' w' qs"
proof -
  have "arbitrationEnabled e = sp_enabled s" using assms by (simp add: simulates_def)
  then have "e\<lparr>arbitrationEnabled := sp_enabled s\<rparr> = e" by simp
  with sim_cleared [OF assms, of "sp_enabled s"] show ?thesis by (auto simp: EsifArbEntry_PurgeRequests_def)
qed

lemma mgr_pull:
  assumes "mgr_queue w qs"
  shows "\<exists>r q h qs'. esif_queue_pull (primitiveQueuePtr (g_arbMgr w)) (prim_heap w) = Some (r, q, h)
    \<and> mgr_queue (upd_queue q w\<lparr>prim_heap := h\<rparr>) qs' \<and> qs' = (case r of Blocked \<Rightarrow> qs | Pulled _ \<Rightarrow> tl qs)
    \<and> r = (case r of Blocked \<Rightarrow> Blocked | Pulled _ \<Rightarrow> Pulled (case qs of [] \<Rightarrow> None | x # _ \<Rightarrow> x))"
proof -
  from assms obtain q where q: "primitiveQueuePtr (g_arbMgr w) = Some q" "queue_inv q (prim_heap w) qs"
    "unat (max_size q) = 2 ^ 32 - 1" "\<forall>a. alloc_ok (prim_heap w) a" by (auto simp: mgr_queue_def)
  show ?thesis
  proof (cases "qs = [] \<and> ms_timeout q = ESIF_QUEUE_TIMEOUT_INFINITE \<and> \<not> event_signaled q")
    case True
    with pull_refines [OF q(2)] have "esif_queue_pull (Some q) (prim_heap w) = Some (Blocked, Some q, prim_heap w)"
      by (metis (no_types, lifting))
    with q assms show ?thesis
      by (intro exI [of _ Blocked] exI [of _ "Some q"] exI [of _ "prim_heap w"] exI [of _ qs]) (auto simp: mgr_queue_def)
  next
    case False
    with pull_refines [OF q(2)] obtain q' h' where
      p: "esif_queue_pull (Some q) (prim_heap w) = Some (Pulled (case qs of [] \<Rightarrow> None | x # _ \<Rightarrow> x), Some q', h')"
        "max_size q' = max_size q" "queue_inv q' h' (tl qs)" by (metis (no_types, lifting))
    then have "alloc_ok h' = alloc_ok (prim_heap w)"
      using dequeue_alloc [OF q(2)] by (auto simp: esif_queue_pull_def elim!: bind_eq_SomeE split: if_splits)
    with p q show ?thesis
      by (intro exI [of _ "Pulled (case qs of [] \<Rightarrow> None | x # _ \<Rightarrow> x)"] exI [of _ "Some q'"] exI [of _ h'] exI [of _ "tl qs"])
        (simp add: mgr_queue_def)
  qed
qed

lemma last_sent_None [simp]: "last_sent e (xs @ [None]) = last_sent e xs"
  by (simp add: last_sent_def)

lemma sim_pull:
  assumes "simulates (e, w, taken) s qs"
  shows "\<exists>st' qs'. entry_op Pull (e, w, taken) = Some (fst (spec_op Pull s), st')
    \<and> simulates st' (snd (spec_op Pull s)) qs' \<and> length qs' \<le> length qs"
proof -
  have "mgr_queue w qs" using assms by (simp add: simulates_def)
  from mgr_pull [OF this] obtain r q h qs' where
    p: "esif_queue_pull (primitiveQueuePtr (g_arbMgr w)) (prim_heap w) = Some (r, q, h)"
      "mgr_queue (upd_queue q w\<lparr>prim_heap := h\<rparr>) qs'" "qs' = (case r of Blocked \<Rightarrow> qs | Pulled _ \<Rightarrow> tl qs)"
      "r = (case r of Blocked \<Rightarrow> Blocked | Pulled _ \<Rightarrow> Pulled (case qs of [] \<Rightarrow> None | x # _ \<Rightarrow> x))" by blast
  let ?taken = "case r of Blocked \<Rightarrow> taken | Pulled d \<Rightarrow> taken @ [d]"
  have "last_sent e (?taken @ qs') = last_sent e (taken @ qs)"
    using p(3,4) by (cases r; cases qs) auto
  then have "simulates (e, upd_queue q w\<lparr>prim_heap := h\<rparr>, ?taken) s qs'"
    using assms p(2) by (simp add: simulates_def)
  moreover have "length qs' \<le> length qs" using p(3) by (cases r) auto
  ultimately show ?thesis using p(1) by auto
qed

fun op_ok :: "arb_op \<Rightarrow> bool" where
  "op_ok (Request app d) = data_ok d"
| "op_ok _ = True"

lemma sim_own:
  assumes "simulates (e, w, taken) s qs" "op_ok x" "length qs + 2 \<le> 2 ^ 32 - 1" "x \<noteq> Pull"
  shows "\<exists>e' w' qs'. entry_op x (e, w, taken) = Some (fst (spec_op x s), e', w', taken)
    \<and> simulates (e', w', taken) (snd (spec_op x s)) qs' \<and> entry_frame e w qs e' w' qs'"
proof (cases x)
  case (Request app d)
  with sim_request [OF assms(1) _ assms(3)] assms(2) show ?thesis by simp
next
  case (Withdraw app)
  with sim_withdraw [OF assms(1,3)] show ?thesis by simp
next
  case (Limits u l)
  with sim_limits [OF assms(1,3)] show ?thesis by simp
next
  case (Function ty)
  with sim_function [OF assms(1,3)] show ?thesis by simp
next
  case (Enable b)
  with sim_enable [OF assms(1), of b] show ?thesis by blast
next
  case Purge
  with sim_purge [OF assms(1)] show ?thesis by blast
qed (use assms(4) in simp)

lemma sim_op:
  assumes "simulates st s qs" "op_ok x" "length qs + 2 \<le> 2 ^ 32 - 1"
  shows "\<exists>st' qs'. entry_op x st = Some (fst (spec_op x s), st')
    \<and> simulates st' (snd (spec_op x s)) qs' \<and> length qs' \<le> length qs + 2"
proof -
  obtain e w taken where st: "st = (e, w, taken)" by (cases st)
  note s = assms(1) [unfolded st]
  show ?thesis
  proof (cases "x = Pull")
    case True
    with sim_pull [OF s] st show ?thesis by (metis trans_le_add1)
  next
    case False
    with sim_own [OF s assms(2,3)] st entry_frame_length show ?thesis by metis
  qed
qed

lemma sim_run:
  assumes "simulates st s qs" "\<forall>x\<in>set ops. op_ok x" "length qs + 2 * length ops \<le> 2 ^ 32 - 1"
  shows "\<exists>rcs st' s' qs'. run_ops entry_op ops st = Some (rcs, st')
    \<and> run_ops (\<lambda>x s. Some (spec_op x s)) ops s = Some (rcs, s') \<and> simulates st' s' qs'"
  using assms
proof (induction ops arbitrary: st s qs)
  case (Cons x ops)
  from sim_op [OF Cons.prems(1), of x] Cons.prems(2,3) obtain st1 qs1 where
    1: "entry_op x st = Some (fst (spec_op x s), st1)" "simulates st1 (snd (spec_op x s)) qs1" "length qs1 \<le> length qs + 2" by auto
  from Cons.IH [OF 1(2)] Cons.prems(2,3) 1(3) obtain rcs st' s' qs' where
    "run_ops entry_op ops st1 = Some (rcs, st')" "run_ops (\<lambda>x s. Some (spec_op x s)) ops (snd (spec_op x s)) = Some (rcs, s')"
    "simulates st' s' qs'" by auto
  with 1(1) show ?case by (cases "spec_op x s") auto
qed auto

text \<open>A new entry starts the simulation.\<close>

definition spec_start :: "EsifArbEntryParams \<Rightarrow> EsifData option \<Rightarrow> arb_spec" where
  "spec_start p sent = \<lparr>sp_pending = [], sp_type = par_arbType p, sp_upper = par_upperLimit p, sp_lower = par_lowerLimit p,
     sp_enabled = True, sp_sent = sent\<rparr>"

lemma sim_start:
  assumes "EsifArbEntry_Create (Some p) part w = (Some (a, e), w1)" "heap_ok (req_heap w)" "\<forall>a. alloc_ok (req_heap w) a"
    "mgr_queue w qs"
  shows "simulates (e, w1, taken) (spec_start p (last_sent e (taken @ qs))) qs"
proof -
  have e: "arbRequests e = \<lparr>head_ptr = None, tail_ptr = None, nodes = 0\<rparr>" "arbType e = par_arbType p"
    "upperLimit e = par_upperLimit p" "lowerLimit e = par_lowerLimit p" "arbitrationEnabled e"
    "w1 = w\<lparr>req_heap := (req_heap w)\<lparr>next_addr := Suc (next_addr (req_heap w))\<rparr>\<rparr>"
    using assms(1,3) by (auto simp: EsifArbEntry_Create_def esif_ccb_malloc_def Let_def)
  have "entry_rep e (req_heap w1) []" using e(1,6) assms(2,3) by (auto simp: entry_rep_def ll_rep_def heap_ok_def less_Suc_eq)
  with e assms(4) show ?thesis by (simp add: simulates_def spec_start_def settle_def ranked_def)
qed

section \<open>Properties\<close>

lemma sim_view:
  assumes "simulates (e, w, taken) s qs"
  shows "\<exists>xs. ll_rep (req_heap w) (arbRequests e) xs \<and> map (map_option req_view \<circ> snd) xs = map Some (ranked s)"
    "mgr_queue w qs" "last_sent e (taken @ qs) = sp_sent s" "upperLimit e = sp_upper s" "lowerLimit e = sp_lower s"
proof -
  from assms obtain ps where ps: "entry_rep e (req_heap w) ps" "map req_view ps = sp_pending s" "arbType e = sp_type s"
    by (auto simp: simulates_def)
  from ps(1) obtain xs where xs: "ll_rep (req_heap w) (arbRequests e) xs" "map snd xs = map Some (arb_sort (arbType e) ps)"
    "\<forall>r\<in>set ps. req_ok r" by (auto elim: entry_repE)
  have "map (map_option req_view \<circ> snd) xs = map (map_option req_view) (map snd xs)" by simp
  also have "\<dots> = map Some (ranked s)" using xs(2) ranked_view [OF xs(3) ps(2)] ps(3) by simp
  finally show "\<exists>xs. ll_rep (req_heap w) (arbRequests e) xs \<and> map (map_option req_view \<circ> snd) xs = map Some (ranked s)"
    using xs(1) by blast
qed (use assms in \<open>auto simp: simulates_def\<close>)

text \<open>
  C1. An arbitration entry refines its contract. For every sequence of requests, withdrawals, changes of
  limits, of the arbitration function and of the state, purges and reads by the queue thread, starting
  from a new entry with memory available: no operation faults or hangs, each returns the status of the
  contract, the list in the heap holds the latest request of every application in the order of rank
  (equal ranks in the order of arrival), and the last primitive queued for the control is the winner's
  value cut to the limits, or, when no request is left, what it was before.
\<close>

theorem arb_entry_refines:
  assumes "EsifArbEntry_Create (Some p) part w = (Some (a, e), w1)" "heap_ok (req_heap w)" "\<forall>a. alloc_ok (req_heap w) a"
    "mgr_queue w qs" "\<forall>x\<in>set ops. op_ok x" "length qs + 2 * length ops \<le> 2 ^ 32 - 1"
  shows "\<exists>rcs e' w' taken' s' qs'. run_ops entry_op ops (e, w1, []) = Some (rcs, e', w', taken')
    \<and> run_ops (\<lambda>x s. Some (spec_op x s)) ops (spec_start p (last_sent e qs)) = Some (rcs, s')
    \<and> (\<exists>xs. ll_rep (req_heap w') (arbRequests e') xs \<and> map (map_option req_view \<circ> snd) xs = map Some (ranked s'))
    \<and> mgr_queue w' qs' \<and> last_sent e' (taken' @ qs') = sp_sent s'"
proof -
  have "simulates (e, w1, []) (spec_start p (last_sent e qs)) qs" using sim_start [OF assms(1-4), of "[]"] by simp
  from sim_run [OF this assms(5,6)] obtain rcs e' w' taken' s' qs' where
    r: "run_ops entry_op ops (e, w1, []) = Some (rcs, e', w', taken')"
    "run_ops (\<lambda>x s. Some (spec_op x s)) ops (spec_start p (last_sent e qs)) = Some (rcs, s')"
    "simulates (e', w', taken') s' qs'" by (metis prod_cases3)
  show ?thesis using r(1,2) sim_view(1-3) [OF r(3)] by blast
qed

text \<open>A manager with an empty queue and memory.\<close>

definition arb_example_world :: arb_world where
  "arb_example_world = \<lparr>g_arbMgr = \<lparr>mgr_arbitrationEnabled = True,
       primitiveQueuePtr = Some \<lparr>ms_timeout = 0, max_size = 0xFFFFFFFF, current_size = 0, event_signaled = False,
         queue_list_ptr = Some \<lparr>head_ptr = None, tail_ptr = None, nodes = 0\<rparr>, queue_name = ''Q''\<rparr>,
       primitiveQueueExitFlag = False\<rparr>,
     req_heap = \<lparr>next_addr = 1, alloc_ok = \<lambda>_. True, node_mem = \<lambda>_. None\<rparr>,
     prim_heap = \<lparr>next_addr = 1, alloc_ok = \<lambda>_. True, node_mem = \<lambda>_. None\<rparr>, set_events = []\<rparr>"

definition arb_example_params :: EsifArbEntryParams where
  "arb_example_params = \<lparr>par_primitiveId = 130, par_domain = 0x3044, par_instance = 0, par_arbType = 2,
     par_upperLimit = 100, par_lowerLimit = 10\<rparr>"

definition arb_example_data :: "u8 \<Rightarrow> EsifData" where
  "arb_example_data v = \<lparr>esif_type = 26, buf_ptr = Some [v, 0, 0, 0], buf_len = 4, data_len = 4\<rparr>"

lemma arb_example_ok:
  "heap_ok (req_heap arb_example_world)" "\<forall>a. alloc_ok (req_heap arb_example_world) a" "mgr_queue arb_example_world []"
  "data_ok (arb_example_data v)"
  by (auto simp: arb_example_world_def heap_ok_def mgr_queue_def queue_inv_def ll_rep_def arb_example_data_def data_ok_def)

abbreviation (input) arb_example_ops :: "arb_op list" where
  "arb_example_ops \<equiv> [Request 5 (arb_example_data 40), Request 6 (arb_example_data 7), Withdraw 6, Pull]"

lemma arb_example_spec:
  "run_ops (\<lambda>x s. Some (spec_op x s)) arb_example_ops (spec_start arb_example_params None)
   = Some ([ESIF_OK, ESIF_OK, ESIF_OK, ESIF_OK], spec_start arb_example_params (Some (arb_example_data 40))
       \<lparr>sp_pending := [(5, arb_example_data 40)]\<rparr>)"
  by (simp add: spec_start_def arb_example_params_def arb_example_data_def withdrawn_def settle_def ranked_def data_val_def
      val_rank_def get_u32_def limited_def limit_data_def clone_of_def put_u32_def Let_def)

theorem arb_entry_refines_witness:
  "\<exists>e w1 e' w' taken' qs'. EsifArbEntry_Create (Some arb_example_params) 1 arb_example_world = (Some (1, e), w1)
    \<and> run_ops entry_op arb_example_ops (e, w1, []) = Some ([ESIF_OK, ESIF_OK, ESIF_OK, ESIF_OK], e', w', taken')
    \<and> mgr_queue w' qs' \<and> last_sent e' (taken' @ qs') = Some (arb_example_data 40)"
proof -
  obtain e w1 where c: "EsifArbEntry_Create (Some arb_example_params) 1 arb_example_world = (Some (1, e), w1)"
    by (simp add: EsifArbEntry_Create_def arb_example_world_def esif_ccb_malloc_def Let_def)
  have "last_sent e [] = None" by (simp add: last_sent_def)
  with arb_entry_refines [OF c arb_example_ok(1-3), of arb_example_ops] arb_example_ok(4) arb_example_spec c show ?thesis
    by (auto simp: spec_start_def)
qed

lemma ranked_hd:
  assumes "ranked s = p # ps"
  shows "p \<in> set (sp_pending s)"
    "\<forall>q\<in>set (sp_pending s). val_rank (sp_type s) (data_val (snd q)) \<le> val_rank (sp_type s) (data_val (snd p))"
proof -
  have set: "set (sp_pending s) = set (p # ps)" using assms by (metis ranked_def set_sort)
  then show "p \<in> set (sp_pending s)" by simp
  have "sorted (map (\<lambda>q. - int (val_rank (sp_type s) (data_val (snd q)))) (p # ps))"
    unfolding assms [symmetric] by (simp add: ranked_def)
  then show "\<forall>q\<in>set (sp_pending s). val_rank (sp_type s) (data_val (snd q)) \<le> val_rank (sp_type s) (data_val (snd p))"
    unfolding set by auto
qed

definition pending_values :: "arb_spec \<Rightarrow> u32 set" where
  "pending_values s = (\<lambda>q. the (data_val (snd q))) ` set (sp_pending s)"

lemma ranked_extreme:
  assumes "ranked s = p # ps" "\<forall>q\<in>set (sp_pending s). data_val (snd q) \<noteq> None"
  shows "sp_type s = ESIF_ARBITRATION_UIN32_GREATER_THAN \<Longrightarrow> data_val (snd p) = Some (Max (pending_values s))"
    "sp_type s = ESIF_ARBITRATION_UIN32_LESS_THAN \<Longrightarrow> data_val (snd p) = Some (Min (pending_values s))"
proof -
  note hd = ranked_hd [OF assms(1)]
  obtain v where v: "data_val (snd p) = Some v" using assms(2) hd(1) by auto
  have mem: "v \<in> pending_values s" using hd(1) v by (force simp: pending_values_def)
  have lt: "unat w < 4294967296" for w :: u32 using unat_less_2p [of w] by simp
  have ge: "val_rank (sp_type s) (Some x) \<le> val_rank (sp_type s) (Some v)" if "x \<in> pending_values s" for x
  proof -
    from that obtain q where q: "q \<in> set (sp_pending s)" "x = the (data_val (snd q))" by (auto simp: pending_values_def)
    then have "data_val (snd q) = Some x" using assms(2) by auto
    with q(1) hd(2) v show ?thesis by metis
  qed
  show "data_val (snd p) = Some (Max (pending_values s))" if "sp_type s = ESIF_ARBITRATION_UIN32_GREATER_THAN"
  proof -
    have "x \<le> v" if "x \<in> pending_values s" for x
      using ge [OF that] \<open>sp_type s = _\<close> by (simp add: val_rank_def word_le_nat_alt)
    with mem have "Max (pending_values s) = v" by (intro Max_eqI) (auto simp: pending_values_def)
    with v show ?thesis by simp
  qed
  show "data_val (snd p) = Some (Min (pending_values s))" if "sp_type s = ESIF_ARBITRATION_UIN32_LESS_THAN"
  proof -
    have "v \<le> x" if "x \<in> pending_values s" for x
      using ge [OF that] \<open>sp_type s = _\<close> lt [of v] lt [of x] by (simp add: val_rank_def word_le_nat_alt)
    with mem have "Min (pending_values s) = v" by (intro Min_eqI) (auto simp: pending_values_def)
    with v show ?thesis by simp
  qed
qed

text \<open>
  C2. The control gets the extreme of all requests, within the limits. After any sequence of operations
  that leaves requests with well-formed values pending, the value last queued for the control is the
  largest of them (or the smallest, as the arbitration function says), raised to the lower and cut to
  the upper limit.
\<close>

theorem arb_best_value:
  assumes "EsifArbEntry_Create (Some p) part w = (Some (a, e), w1)" "heap_ok (req_heap w)" "\<forall>a. alloc_ok (req_heap w) a"
    "mgr_queue w qs" "\<forall>x\<in>set ops. op_ok x" "length qs + 2 * length ops \<le> 2 ^ 32 - 1"
    "run_ops entry_op ops (e, w1, []) = Some (rcs, e', w', taken')"
    "run_ops (\<lambda>x s. Some (spec_op x s)) ops (spec_start p (last_sent e qs)) = Some (rcs', s')"
    "sp_pending s' \<noteq> []" "\<forall>q\<in>set (sp_pending s'). 4 \<le> data_len (snd q) \<and> data_val (snd q) \<noteq> None"
    "sp_type s' = ESIF_ARBITRATION_UIN32_GREATER_THAN \<or> sp_type s' = ESIF_ARBITRATION_UIN32_LESS_THAN"
  shows "\<exists>qs' d. mgr_queue w' qs' \<and> last_sent e' (taken' @ qs') = Some d
    \<and> data_val d = Some (min (max (if sp_type s' = ESIF_ARBITRATION_UIN32_GREATER_THAN
        then Max (pending_values s') else Min (pending_values s')) (lowerLimit e')) (upperLimit e'))"
proof -
  have "simulates (e, w1, []) (spec_start p (last_sent e qs)) qs" using sim_start [OF assms(1-4), of "[]"] by simp
  from sim_run [OF this assms(5,6)] assms(7,8) obtain qs' where sim: "simulates (e', w', taken') s' qs'" by auto
  from sim obtain ps where ps: "entry_rep e' (req_heap w') ps" "map req_view ps = sp_pending s'" "settle s' = s'"
    by (auto simp: simulates_def)
  have "ranked s' \<noteq> []" using assms(9) by (metis length_0_conv length_sort ranked_def)
  then obtain q qr where q: "ranked s' = q # qr" by (cases "ranked s'") auto
  have "q \<in> set (map req_view ps)" using ranked_hd(1) [OF q] ps(2) by simp
  then obtain r where r: "r \<in> set ps" "q = req_view r" by auto
  have "req_ok r" using r(1) ps(1) by (simp add: entry_rep_def)
  then have ok: "data_ok (snd q)" using r(2) by (auto simp: req_ok_def req_view_def split: option.splits)
  have len: "4 \<le> data_len (snd q)" using assms(10) ranked_hd(1) [OF q] by auto
  have vals: "\<forall>q\<in>set (sp_pending s'). data_val (snd q) \<noteq> None" using assms(10) by blast
  let ?v = "if sp_type s' = ESIF_ARBITRATION_UIN32_GREATER_THAN then Max (pending_values s') else Min (pending_values s')"
  have "data_val (snd q) = Some ?v" using ranked_extreme [OF q vals] assms(11) by auto
  note lim = limited_value [OF ok len this, of "sp_upper s'" "sp_lower s'"]
  have "sp_sent s' = Some (limited (sp_upper s') (sp_lower s') (snd q))"
    using ps(3) q by (simp add: settled_iff)
  with lim sim_view(2-5) [OF sim] show ?thesis by (intro exI [of _ qs'] exI conjI) simp_all
qed

theorem arb_best_value_witness:
  "\<exists>e w1 rcs e' w' taken' qs' d. EsifArbEntry_Create (Some arb_example_params) 1 arb_example_world = (Some (1, e), w1)
    \<and> run_ops entry_op arb_example_ops (e, w1, []) = Some (rcs, e', w', taken')
    \<and> mgr_queue w' qs' \<and> last_sent e' (taken' @ qs') = Some d \<and> data_val d = Some (min (max 40 (lowerLimit e')) (upperLimit e'))"
proof -
  obtain e w1 where c: "EsifArbEntry_Create (Some arb_example_params) 1 arb_example_world = (Some (1, e), w1)"
    by (simp add: EsifArbEntry_Create_def arb_example_world_def esif_ccb_malloc_def Let_def)
  let ?s = "spec_start arb_example_params (Some (arb_example_data 40))\<lparr>sp_pending := [(5, arb_example_data 40)]\<rparr>"
  have "last_sent e [] = None" by (simp add: last_sent_def)
  then have s: "run_ops (\<lambda>x s. Some (spec_op x s)) arb_example_ops (spec_start arb_example_params (last_sent e []))
      = Some ([ESIF_OK, ESIF_OK, ESIF_OK, ESIF_OK], ?s)" using arb_example_spec by simp
  have ops: "\<forall>x\<in>set arb_example_ops. op_ok x" "length ([]::EsifArbPrimReq option list) + 2 * length arb_example_ops \<le> 2 ^ 32 - 1"
    using arb_example_ok(4) by auto
  from sim_run [OF sim_start [OF c arb_example_ok(1-3), of "[]"] ops] obtain rcs e' w' taken' where
    r: "run_ops entry_op arb_example_ops (e, w1, []) = Some (rcs, e', w', taken')" by (metis prod_cases3)
  have v: "data_val (arb_example_data 40) = Some 40" "data_len (arb_example_data 40) = 4"
    by (simp_all add: arb_example_data_def data_val_def get_u32_def)
  have "sp_pending ?s \<noteq> []" "\<forall>q\<in>set (sp_pending ?s). 4 \<le> data_len (snd q) \<and> data_val (snd q) \<noteq> None"
    "sp_type ?s = ESIF_ARBITRATION_UIN32_GREATER_THAN \<or> sp_type ?s = ESIF_ARBITRATION_UIN32_LESS_THAN"
    using v by (simp_all add: spec_start_def arb_example_params_def)
  from arb_best_value [OF c arb_example_ok(1-3) ops r s this] c r v(1) show ?thesis
    by (auto simp: pending_values_def spec_start_def arb_example_params_def)
qed

text \<open>
  C24. The exact effect of \<^verbatim>\<open>EsifArbEntry_ArbitrateRequest_Locked\<close>, allocation failures included. The old
  request of the application goes; with memory the new one is placed before the first request it
  beats, or last. Without memory the function still returns \<^verbatim>\<open>ESIF_OK\<close>, but the request it beats, of
  another application, is overwritten and lost, and a request that beats none is itself dropped.
\<close>

theorem arb_arbitrate_request:
  assumes "ll_rep h (arbRequests e) xs" "heap_ok h" "map snd xs = map Some rs" "one_per_app rs"
    "req_ok r" "\<forall>x\<in>set rs. req_ok x"
  shows "\<exists>l' h' xs' rs'. EsifArbEntry_ArbitrateRequest_Locked (Some e) (Some r) h
        = Some (ESIF_OK, Some (e\<lparr>arbRequests := l'\<rparr>), h')
    \<and> ll_rep h' l' xs' \<and> heap_ok h' \<and> map snd xs' = map Some rs'
    \<and> (\<exists>ys zs. others r rs = ys @ zs \<and> (\<forall>y\<in>set ys. \<not> rank (arbType e) y < rank (arbType e) r)
         \<and> (zs = [] \<or> rank (arbType e) (hd zs) < rank (arbType e) r)
         \<and> rs' = (if alloc_ok h (next_addr h) then ys @ r # zs else if zs = [] then ys else ys @ r # tl zs))"
proof -
  have split: "\<exists>ys zs. xs = ys @ zs \<and> (\<forall>y\<in>set ys. \<not> k y < k r) \<and> (zs = [] \<or> k (hd zs) < k r)
      \<and> insert_req room k r xs = (if room then ys @ r # zs else if zs = [] then ys else ys @ r # tl zs)"
    for room and k :: "EsifArbReq \<Rightarrow> nat" and xs
  proof (induction xs)
    case (Cons x xs)
    show ?case
    proof (cases "k x < k r")
      case True
      then show ?thesis by (intro exI [of _ "[]"] exI [of _ "x # xs"]) simp
    next
      case False
      from Cons obtain ys zs where "xs = ys @ zs" "\<forall>y\<in>set ys. \<not> k y < k r" "zs = [] \<or> k (hd zs) < k r"
        "insert_req room k r xs = (if room then ys @ r # zs else if zs = [] then ys else ys @ r # tl zs)" by blast
      with False show ?thesis by (intro exI [of _ "x # ys"] exI [of _ zs]) auto
    qed
  qed (intro exI [of _ "[]"], simp)
  from arbitrate_request_spec [OF assms] obtain l' h' xs' where
    "EsifArbEntry_ArbitrateRequest_Locked (Some e) (Some r) h = Some (ESIF_OK, Some (e\<lparr>arbRequests := l'\<rparr>), h')"
    "ll_rep h' l' xs'" "heap_ok h'"
    "map snd xs' = map Some (insert_req (alloc_ok h (next_addr h)) (rank (arbType e)) r (others r rs))"
    by (auto simp: evolves_def)
  with split [of "others r rs" "rank (arbType e)" "alloc_ok h (next_addr h)"] show ?thesis by blast
qed


definition arb_example_req :: "esif_handle_t \<Rightarrow> u8 \<Rightarrow> EsifArbReq" where
  "arb_example_req app v = \<lparr>appHandle = app, reqPtr = Some (unat v, arb_example_data v)\<rparr>"

definition arb_full_heap :: "EsifArbReq ll_heap" where
  "arb_full_heap = \<lparr>next_addr = 2, alloc_ok = \<lambda>_. False,
     node_mem = [1 \<mapsto> \<lparr>data_ptr = Some (arb_example_req 5 40), next_ptr = None, prev_ptr = None\<rparr>]\<rparr>"

definition arb_example_entry :: EsifArbEntry where
  "arb_example_entry = \<lparr>primitiveId = 130, domain = 0x3044, entry_instance = 0, arbType = 2, upperLimit = 100, lowerLimit = 10,
     arbitrationEnabled = True, arbRequests = \<lparr>head_ptr = Some 1, tail_ptr = Some 1, nodes = 1\<rparr>,
     participantId = 1, refCount = 1, markedForDelete = False, deleteEvent = False\<rparr>"

theorem arb_arbitrate_request_witness:
  "\<exists>l' h' xs'. EsifArbEntry_ArbitrateRequest_Locked (Some arb_example_entry) (Some (arb_example_req 6 7)) arb_full_heap
      = Some (ESIF_OK, Some (arb_example_entry\<lparr>arbRequests := l'\<rparr>), h')
    \<and> ll_rep h' l' xs' \<and> map snd xs' = [Some (arb_example_req 6 7)]"
proof -
  have rep: "ll_rep arb_full_heap (arbRequests arb_example_entry) [(1, Some (arb_example_req 5 40))]" "heap_ok arb_full_heap"
    by (auto simp: ll_rep_def arb_full_heap_def arb_example_entry_def heap_ok_def)
  have ok: "req_ok (arb_example_req a v)" for a v using arb_example_ok(4) by (simp add: req_ok_def arb_example_req_def)
  have rank: "rank (arbType arb_example_entry) (arb_example_req 5 40) < rank (arbType arb_example_entry) (arb_example_req 6 7)"
    by (simp add: rank_def req_val_def arb_example_req_def arb_example_data_def arb_example_entry_def get_u32_def)
  have oth: "others (arb_example_req 6 7) [arb_example_req 5 40] = [arb_example_req 5 40]" by (simp add: arb_example_req_def)
  have room: "\<not> alloc_ok arb_full_heap x" for x by (simp add: arb_full_heap_def)
  have p: "map snd [(1::addr, Some (arb_example_req 5 40))] = map Some [arb_example_req 5 40]"
    "one_per_app [arb_example_req 5 40]" "\<forall>x\<in>set [arb_example_req 5 40]. req_ok x" using ok by simp_all
  from arb_arbitrate_request [OF rep p(1,2) ok p(3), of 6 7] obtain l' h' xs' rs' ys zs where
    t: "EsifArbEntry_ArbitrateRequest_Locked (Some arb_example_entry) (Some (arb_example_req 6 7)) arb_full_heap
        = Some (ESIF_OK, Some (arb_example_entry\<lparr>arbRequests := l'\<rparr>), h')"
      "ll_rep h' l' xs'" "map snd xs' = map Some rs'" "[arb_example_req 5 40] = ys @ zs"
      "\<forall>y\<in>set ys. \<not> rank (arbType arb_example_entry) y < rank (arbType arb_example_entry) (arb_example_req 6 7)"
      "rs' = (if zs = [] then ys else ys @ arb_example_req 6 7 # tl zs)"
    unfolding oth using room by metis
  have "ys = []" using t(4,5) rank by (cases ys) auto
  then have "map snd xs' = [Some (arb_example_req 6 7)]" using t(3,4,6) by auto
  with t(1,2) show ?thesis by (intro exI [of _ l'] exI [of _ h'] exI [of _ xs'] conjI)
qed

end
