(* ===== verification/Arb_Thread.thy ===== *)
theory Arb_Thread
  imports Arb_Spec
begin

text \<open>
  The thread of \<^verbatim>\<open>esif_uf_arbmgr.c\<close> that executes the queued primitives, and the callers that must not
  overtake them. A write of a control is queued; a read of the same control that arrives before the
  write is executed must be queued behind it. For this every queued write is followed by a dummy copy,
  which stays in the queue while the write itself is being executed outside the lock.

  The body of the thread is split where it gives up its locks: taking a request, executing it, and
  removing the dummy and releasing the waiter. Between any two of these steps other threads may queue
  requests. Callers queue, and the thread removes dummies, under \<^verbatim>\<open>primitiveQueueLock\<close>, so these steps exclude
  each other. Taking a request is guarded by the lock of the queue only, and the search for a write
  that must not be overtaken walks over the nodes of the queue without that lock: the walk is
  modelled node by node, and the thread may take requests between its steps.
  \<open>EsifUp_ExecutePrimitive\<close> is a parameter of the step that executes.
\<close>

section \<open>Operations\<close>

text \<open>
  The search through the queue: at a node, with the request it has read from the node, about to leave
  the node, with its answer, or after the read of a node or of a request that is no longer there.
  A dummy is freed when it is taken from the queue; a request that is no dummy lives until the thread
  has finished it, which needs the lock the searching caller holds.
\<close>

datatype walk = AtNode "addr option" | Compares addr EsifArbPrimReq | MovesOn addr | Answers bool | Faults

definition must_delay_start :: "arb_world \<Rightarrow> walk" where
  "must_delay_start w =
     (case primitiveQueuePtr (g_arbMgr w) of
        None \<Rightarrow> Answers False
      | Some q \<Rightarrow> (case queue_list_ptr q of
            None \<Rightarrow> Answers False
          | Some l \<Rightarrow> AtNode (head_ptr l)))"

fun must_delay_step :: "u32 \<Rightarrow> walk \<Rightarrow> arb_world \<Rightarrow> walk" where
  "must_delay_step prim (AtNode None) w = Answers False"
| "must_delay_step prim (AtNode (Some a)) w =
     (case node_mem (prim_heap w) a of
        None \<Rightarrow> Faults
      | Some n \<Rightarrow> (case data_ptr n of Some r \<Rightarrow> Compares a r | None \<Rightarrow> MovesOn a))"
| "must_delay_step prim (Compares a r) w =
     (if isDummyRequest r \<and> node_mem (prim_heap w) a = None then Faults
      else if requiresDelay r \<and> prim = delayedPrimitiveId r then Answers True
      else MovesOn a)"
| "must_delay_step prim (MovesOn a) w =
     (case node_mem (prim_heap w) a of None \<Rightarrow> Faults | Some n \<Rightarrow> AtNode (next_ptr n))"
| "must_delay_step prim wk w = wk"

text \<open>
  A call of \<^verbatim>\<open>EsifArbMgr_ExecuteUnarbitratedPrimitive\<close>, with the completion event and status of its stack
  frame, up to the point where it either waits for the event (queued behind the write it must not
  overtake) or goes on to execute the primitive itself.
\<close>

record prim_call =
  call_part :: esif_handle_t
  call_prim :: u32
  call_dmn :: u16
  call_inst :: u8
  call_request :: "EsifData option"
  call_response :: "addr option"
  call_event :: addr
  call_status :: addr

datatype unarbitrated = RunNow | WaitFor addr

definition unarbitrated_end :: "prim_call \<Rightarrow> bool \<Rightarrow> arb_world \<Rightarrow> (unarbitrated \<times> arb_world) option" where
  "unarbitrated_end c delay w =
     (if delay then do {
        (rc, w1) \<leftarrow> EsifArbMgr_QueuePrimitiveRequest_Locked (call_part c) (call_prim c) (call_dmn c) (call_inst c)
          (call_request c) (call_response c) (Some (call_event c)) (Some (call_status c)) False w;
        Some (if rc = ESIF_OK then WaitFor (call_event c) else RunNow, w1) }
      else Some (RunNow, w))"

text \<open>The thread: between requests, with a request it has taken, with a request it has executed.\<close>

datatype thread_phase = Waiting | Holding EsifArbPrimReq | Ran EsifArbPrimReq

definition thread_pull :: "arb_world \<Rightarrow> (thread_phase \<times> arb_world) option" where
  "thread_pull w = do {
     (r, q, h) \<leftarrow> esif_queue_pull (primitiveQueuePtr (g_arbMgr w)) (prim_heap w);
     Some (case r of
         Blocked \<Rightarrow> Waiting
       | Pulled None \<Rightarrow> Waiting
       | Pulled (Some r) \<Rightarrow> if isDummyRequest r then Waiting else Holding r,
       upd_queue q w\<lparr>prim_heap := h\<rparr>) }"

text \<open>The status of the execution goes where the request says.\<close>

definition thread_execute ::
    "(EsifArbPrimReq \<Rightarrow> esif_rc) \<Rightarrow> EsifArbPrimReq \<Rightarrow> (addr \<Rightarrow> esif_rc) \<Rightarrow> (addr \<Rightarrow> esif_rc)" where
  "thread_execute exec_prim r statuses =
     (case completionStatusPtr r of None \<Rightarrow> statuses | Some p \<Rightarrow> statuses(p := exec_prim r))"

definition thread_finish :: "EsifArbPrimReq \<Rightarrow> arb_world \<Rightarrow> arb_world option" where
  "thread_finish r w = do {
     (d, q, h) \<leftarrow> esif_queue_dequeue (primitiveQueuePtr (g_arbMgr w)) (prim_heap w);
     w1 \<leftarrow>
       (if (case d of Some x \<Rightarrow> isDummyRequest x \<and> pr_primitiveId r = pr_primitiveId x | None \<Rightarrow> False)
        then Some (upd_queue q w\<lparr>prim_heap := h\<rparr>)
        else do {
          (_, q', h') \<leftarrow> esif_queue_requeue q d h;
          Some (upd_queue (esif_queue_signal_event q') w\<lparr>prim_heap := h'\<rparr>) });
     Some (EsifArbPrimReq_Destroy (Some r) w1) }"

text \<open>Starting and stopping the manager; the thread is started with the queue and joined at the stop.\<close>

definition EsifArbMgr_Init :: "arb_world \<Rightarrow> (esif_rc \<times> arb_world) option" where
  "EsifArbMgr_Init w = do {
     (q, h) \<leftarrow> esif_queue_create 0xFFFFFFFF ''UfArbMgrPrimitiveQueue'' ESIF_QUEUE_TIMEOUT_INFINITE (prim_heap w);
     Some (if q = None then ESIF_E_NO_MEMORY else ESIF_OK,
       w\<lparr>g_arbMgr := (g_arbMgr w)\<lparr>mgr_arbitrationEnabled := True, primitiveQueuePtr := q\<rparr>, prim_heap := h\<rparr>) }"

definition EsifArbMgr_Stop :: "arb_world \<Rightarrow> arb_world" where
  "EsifArbMgr_Stop w =
     w\<lparr>g_arbMgr := (g_arbMgr w)\<lparr>primitiveQueueExitFlag := True,
         primitiveQueuePtr := esif_queue_signal_event (primitiveQueuePtr (g_arbMgr w))\<rparr>\<rparr>"

fun destroy_requests :: "EsifArbPrimReq list \<Rightarrow> arb_world \<Rightarrow> arb_world" where
  "destroy_requests [] w = w"
| "destroy_requests (r # rs) w = destroy_requests rs (EsifArbPrimReq_Destroy (Some r) w)"

definition EsifArbMgr_Exit :: "arb_world \<Rightarrow> arb_world option" where
  "EsifArbMgr_Exit w = do {
     (h, rs) \<leftarrow> esif_queue_destroy (primitiveQueuePtr (g_arbMgr w)) True (prim_heap w);
     Some (upd_queue None (destroy_requests rs w)\<lparr>prim_heap := h\<rparr>) }"

section \<open>The system of threads\<close>

text \<open>
  The state of the manager together with the thread, and two records of what happened: the requests
  the queue accepted, and the requests the thread executed, in order.
\<close>

record arb_sys =
  sys_world :: arb_world
  sys_phase :: thread_phase
  sys_status :: "addr \<Rightarrow> esif_rc"
  sys_accepted :: "EsifArbPrimReq list"
  sys_ran :: "EsifArbPrimReq list"

text \<open>The thread takes, executes and finishes a request.\<close>

inductive thread_step :: "(EsifArbPrimReq \<Rightarrow> esif_rc) \<Rightarrow> arb_sys \<Rightarrow> arb_sys \<Rightarrow> bool"
  for exec_prim where
  pull: "sys_phase s = Waiting \<Longrightarrow> \<not> primitiveQueueExitFlag (g_arbMgr (sys_world s))
     \<Longrightarrow> thread_pull (sys_world s) = Some (p, w')
     \<Longrightarrow> thread_step exec_prim s (s\<lparr>sys_world := w', sys_phase := p\<rparr>)"
| execute: "sys_phase s = Holding r
     \<Longrightarrow> thread_step exec_prim s (s\<lparr>sys_phase := Ran r, sys_status := thread_execute exec_prim r (sys_status s),
           sys_ran := sys_ran s @ [r]\<rparr>)"
| finish: "sys_phase s = Ran r \<Longrightarrow> thread_finish r (sys_world s) = Some w'
     \<Longrightarrow> thread_step exec_prim s (s\<lparr>sys_world := w', sys_phase := Waiting\<rparr>)"

text \<open>What the thread does next is determined.\<close>

lemma thread_step_deterministic: "thread_step exec_prim s t \<Longrightarrow> thread_step exec_prim s u \<Longrightarrow> t = u"
  by (auto elim!: thread_step.cases)

text \<open>
  Steps of the system. A caller queues a request (with the delay flag for an arbitrated write, without
  it for a delayed read), the thread moves, or the manager is stopped. The guard of the first step
  leaves room for the request and its dummy.
\<close>

inductive arb_sys_step :: "(EsifArbPrimReq \<Rightarrow> esif_rc) \<Rightarrow> arb_sys \<Rightarrow> arb_sys \<Rightarrow> bool"
  for exec_prim where
  queue: "mgr_queue (sys_world s) xs \<Longrightarrow> length xs + 2 < 2 ^ 32 - 1 \<Longrightarrow> pred_option data_ok request
     \<Longrightarrow> EsifArbPrimReq_Create part prim dmn inst request response event status delay (sys_world s) = Some (Some r, w0)
     \<Longrightarrow> EsifArbMgr_QueuePrimitiveRequest_Locked part prim dmn inst request response event status delay (sys_world s)
           = Some (rc, w')
     \<Longrightarrow> arb_sys_step exec_prim s (s\<lparr>sys_world := w',
           sys_accepted := if rc = ESIF_OK then sys_accepted s @ [r] else sys_accepted s\<rparr>)"
| thread: "thread_step exec_prim s t \<Longrightarrow> arb_sys_step exec_prim s t"
| stop: "arb_sys_step exec_prim s (s\<lparr>sys_world := EsifArbMgr_Stop (sys_world s)\<rparr>)"

text \<open>
  A call step by step. The caller's own steps: it takes the lock and starts the search, searches, and
  with the answer queues its request or not.
\<close>

datatype call_phase = Enters | Walks walk | Leaves unarbitrated

definition call_accepted :: "prim_call \<Rightarrow> unarbitrated \<Rightarrow> arb_world \<Rightarrow> EsifArbPrimReq list" where
  "call_accepted c x w =
     (case x of
        RunNow \<Rightarrow> []
      | WaitFor e \<Rightarrow> (case EsifArbPrimReq_Create (call_part c) (call_prim c) (call_dmn c) (call_inst c)
            (call_request c) (call_response c) (Some (call_event c)) (Some (call_status c)) False w of
          Some (Some r, _) \<Rightarrow> [r]
        | _ \<Rightarrow> []))"

inductive call_step :: "prim_call \<Rightarrow> call_phase \<times> arb_sys \<Rightarrow> call_phase \<times> arb_sys \<Rightarrow> bool"
  for c where
  enter: "mgr_arbitrationEnabled (g_arbMgr (sys_world s))
     \<Longrightarrow> call_step c (Enters, s) (Walks (must_delay_start (sys_world s)), s)"
| pass: "\<not> mgr_arbitrationEnabled (g_arbMgr (sys_world s)) \<Longrightarrow> call_step c (Enters, s) (Leaves RunNow, s)"
| walk: "call_step c (Walks wk, s) (Walks (must_delay_step (call_prim c) wk (sys_world s)), s)"
| leave: "unarbitrated_end c delay (sys_world s) = Some (x, w')
     \<Longrightarrow> call_step c (Walks (Answers delay), s)
           (Leaves x, s\<lparr>sys_world := w', sys_accepted := sys_accepted s @ call_accepted c x (sys_world s)\<rparr>)"

text \<open>
  While the caller searches, with the lock held, the thread may take and execute requests, but not
  finish one, and the manager may be stopped.
\<close>

inductive read_step :: "(EsifArbPrimReq \<Rightarrow> esif_rc) \<Rightarrow> prim_call \<Rightarrow> call_phase \<times> arb_sys \<Rightarrow> call_phase \<times> arb_sys \<Rightarrow> bool"
  for exec_prim c where
  own: "call_step c x y \<Longrightarrow> read_step exec_prim c x y"
| thread: "thread_step exec_prim s t \<Longrightarrow> \<forall>r. sys_phase s \<noteq> Ran r \<Longrightarrow> read_step exec_prim c (Walks wk, s) (Walks wk, t)"
| stop: "read_step exec_prim c (Walks wk, s) (Walks wk, s\<lparr>sys_world := EsifArbMgr_Stop (sys_world s)\<rparr>)"

section \<open>The queue during execution\<close>

definition needs_dummy :: "EsifArbPrimReq \<Rightarrow> bool" where
  "needs_dummy r \<longleftrightarrow> requiresDelay r \<and> delayedPrimitiveId r \<noteq> 0"

abbreviation dummy_of :: "EsifArbPrimReq \<Rightarrow> EsifArbPrimReq" where
  "dummy_of r \<equiv> r\<lparr>isDummyRequest := True\<rparr>"

text \<open>The requests of a queue that are not dummies.\<close>

fun real_requests :: "EsifArbPrimReq option list \<Rightarrow> EsifArbPrimReq list" where
  "real_requests [] = []"
| "real_requests (None # xs) = real_requests xs"
| "real_requests (Some r # xs) = (if isDummyRequest r then real_requests xs else r # real_requests xs)"

text \<open>
  The shape of the queue: behind every request that needs one, and nowhere else, is its dummy. While
  such a request is being executed its dummy is the first item.
\<close>

fun paired :: "EsifArbPrimReq option list \<Rightarrow> bool" where
  "paired [] = True"
| "paired (None # xs) = paired xs"
| "paired (Some r # xs) = (\<not> isDummyRequest r
     \<and> (if needs_dummy r then (case xs of Some d # xs' \<Rightarrow> d = dummy_of r \<and> paired xs' | _ \<Rightarrow> False) else paired xs))"

definition busy_with :: "EsifArbPrimReq \<Rightarrow> EsifArbPrimReq option list \<Rightarrow> bool" where
  "busy_with r xs \<longleftrightarrow> \<not> isDummyRequest r
     \<and> (if needs_dummy r then (\<exists>xs'. xs = Some (dummy_of r) # xs' \<and> paired xs') else paired xs)"

definition phase_ok :: "thread_phase \<Rightarrow> EsifArbPrimReq option list \<Rightarrow> bool" where
  "phase_ok p xs = (case p of Waiting \<Rightarrow> paired xs | Holding r \<Rightarrow> busy_with r xs | Ran r \<Rightarrow> busy_with r xs)"

lemma needs_dummy_of [simp]: "with_dummy r = (if needs_dummy r then [r, dummy_of r] else [r])"
  by (simp add: with_dummy_def needs_dummy_def)

lemma paired_append: "paired xs \<Longrightarrow> \<not> isDummyRequest r \<Longrightarrow> paired (xs @ map Some (with_dummy r))"
proof (induction xs rule: paired.induct)
  case (3 x xs)
  show ?case
  proof (cases "needs_dummy x")
    case True
    with 3 obtain d xs' where "xs = Some d # xs'" "d = dummy_of x" "paired xs'" by (auto split: list.splits option.splits)
    with 3 True show ?thesis by auto
  next
    case False
    with 3 show ?thesis by auto
  qed
qed auto

lemma real_requests_append [simp]: "real_requests (xs @ ys) = real_requests xs @ real_requests ys"
  by (induction xs rule: real_requests.induct) auto

lemma paired_tail: "paired (None # xs) = paired xs" "paired (Some r # xs) = (\<not> isDummyRequest r \<and> busy_with r xs)"
  by (auto simp: busy_with_def split: list.splits option.splits)

lemma phase_ok_append: "phase_ok p xs \<Longrightarrow> \<not> isDummyRequest r \<Longrightarrow> phase_ok p (xs @ map Some (with_dummy r))"
  by (auto simp: phase_ok_def busy_with_def paired_append simp del: needs_dummy_of split: thread_phase.splits if_splits)

text \<open>A request that delays the reads of a control is visible in the queue while it waits or is held.\<close>

lemma real_in_queue: "r \<in> set (real_requests xs) \<Longrightarrow> Some r \<in> set xs"
  by (induction xs rule: real_requests.induct) (auto split: if_splits)

text \<open>
  The queue during a search. Of the nodes at the start the first \<open>k\<close> have been taken and freed; the others
  are the list.
\<close>

definition queue_at :: "arb_world \<Rightarrow> (addr \<times> EsifArbPrimReq option) list \<Rightarrow> nat \<Rightarrow> bool" where
  "queue_at w ns k \<longleftrightarrow> k \<le> length ns \<and> mgr_queue w (map snd (drop k ns))
     \<and> (\<exists>q l. primitiveQueuePtr (g_arbMgr w) = Some q \<and> queue_list_ptr q = Some l \<and> ll_rep (prim_heap w) l (drop k ns))
     \<and> (\<forall>x\<in>set (take k ns). node_mem (prim_heap w) (fst x) = None)"

lemma queue_at_start:
  assumes "mgr_queue w xs"
  obtains ns where "queue_at w ns 0" "map snd ns = xs" "must_delay_start w = AtNode (first_addr ns)"
proof -
  from assms obtain q where q: "primitiveQueuePtr (g_arbMgr w) = Some q" "queue_inv q (prim_heap w) xs" by (auto simp: mgr_queue_def)
  from q(2) obtain l ns where l: "queue_list_ptr q = Some l" "ll_rep (prim_heap w) l ns" "map snd ns = xs" by (rule queue_inv_listE)
  show thesis
    by (rule that [of ns]) (use assms q(1) l ll_rep_first [OF l(2)] in \<open>simp_all add: queue_at_def must_delay_start_def\<close>)
qed

text \<open>A node is as it was, or it has been freed.\<close>

lemma queue_at_node:
  assumes "queue_at w ns k" "ns = vis @ (a, d) # rest"
  shows "case node_mem (prim_heap w) a of None \<Rightarrow> k \<noteq> 0 | Some n \<Rightarrow> data_ptr n = d \<and> next_ptr n = first_addr rest"
proof (cases "k \<le> length vis")
  case True
  with assms obtain l where "ll_rep (prim_heap w) l (drop k vis @ (a, d) # rest)" by (auto simp: queue_at_def)
  then obtain n where "deref (prim_heap w) (Some a) = Some n" "data_ptr n = d" "next_ptr n = first_addr rest" by (rule ll_rep_cursorE)
  then show ?thesis by simp
next
  case False
  with assms have "(a, d) \<in> set (take k ns)" by (auto simp: take_Cons')
  with assms(1) False show ?thesis by (force simp: queue_at_def)
qed

definition delays :: "u32 \<Rightarrow> EsifArbPrimReq option \<Rightarrow> bool" where
  "delays prim d \<longleftrightarrow> (\<exists>r. d = Some r \<and> requiresDelay r \<and> prim = delayedPrimitiveId r)"

fun walk_ok :: "u32 \<Rightarrow> (addr \<times> EsifArbPrimReq option) list \<Rightarrow> walk \<Rightarrow> bool" where
  "walk_ok prim ns (AtNode p) = (\<exists>vis rest. ns = vis @ rest \<and> p = first_addr rest \<and> (\<forall>x\<in>set vis. \<not> delays prim (snd x)))"
| "walk_ok prim ns (Compares a r) = (\<exists>vis rest. ns = vis @ (a, Some r) # rest \<and> (\<forall>x\<in>set vis. \<not> delays prim (snd x)))"
| "walk_ok prim ns (MovesOn a) = (\<exists>vis d rest. ns = vis @ (a, d) # rest \<and> (\<forall>x\<in>set (vis @ [(a, d)]). \<not> delays prim (snd x)))"
| "walk_ok prim ns (Answers b) = (b = (\<exists>x\<in>set ns. delays prim (snd x)))"
| "walk_ok prim ns Faults = True"

lemma must_delay_step_ok:
  assumes "queue_at w ns k" "walk_ok prim ns wk" "wk = Faults \<longrightarrow> k \<noteq> 0"
  shows "walk_ok prim ns (must_delay_step prim wk w) \<and> (must_delay_step prim wk w = Faults \<longrightarrow> k \<noteq> 0)"
proof (cases wk)
  case (AtNode p)
  with assms(2) obtain vis rest where r: "ns = vis @ rest" "p = first_addr rest" "\<forall>x\<in>set vis. \<not> delays prim (snd x)" by auto
  show ?thesis
  proof (cases rest)
    case Nil
    with AtNode r show ?thesis by auto
  next
    case (Cons x rest')
    obtain a d where x: "x = (a, d)" by (cases x)
    note n = queue_at_node [OF assms(1) r(1) [unfolded Cons x]]
    show ?thesis
    proof (cases "node_mem (prim_heap w) a")
      case None
      with n AtNode r(2) Cons x show ?thesis by simp
    next
      case (Some n')
      with n have d: "data_ptr n' = d" by simp
      show ?thesis
      proof (cases d)
        case None
        then have "\<forall>y\<in>set (vis @ [(a, d)]). \<not> delays prim (snd y)" using r(3) by (auto simp: delays_def)
        then have "walk_ok prim ns (MovesOn a)" unfolding r(1) Cons x by (simp only: walk_ok.simps) blast
        with None Some d AtNode r(2) Cons x show ?thesis by simp
      next
        case (Some y)
        then have "walk_ok prim ns (Compares a y)" using r(3) unfolding r(1) Cons x by auto
        with Some \<open>node_mem (prim_heap w) a = Some n'\<close> d AtNode r(2) Cons x show ?thesis by simp
      qed
    qed
  qed
next
  case (Compares a r)
  with assms(2) obtain vis rest where c: "ns = vis @ (a, Some r) # rest" "\<forall>x\<in>set vis. \<not> delays prim (snd x)" by auto
  note n = queue_at_node [OF assms(1) c(1)]
  have m: "walk_ok prim ns (MovesOn a)" if "\<not> (requiresDelay r \<and> prim = delayedPrimitiveId r)"
  proof -
    have "\<forall>x\<in>set (vis @ [(a, Some r)]). \<not> delays prim (snd x)" using c(2) that by (auto simp: delays_def)
    with c(1) show ?thesis by (simp only: walk_ok.simps) blast
  qed
  have "walk_ok prim ns (Answers True)" if "requiresDelay r \<and> prim = delayedPrimitiveId r"
    using that unfolding c(1) by (auto simp: delays_def)
  with m n Compares show ?thesis by (auto split: option.splits)
next
  case (MovesOn a)
  with assms(2) obtain vis d rest where c: "ns = vis @ (a, d) # rest" "\<forall>x\<in>set (vis @ [(a, d)]). \<not> delays prim (snd x)" by auto
  have "walk_ok prim ns (AtNode (first_addr rest))"
    using c by (simp only: walk_ok.simps) (intro exI [of _ "vis @ [(a, d)]"] exI [of _ rest], simp)
  with queue_at_node [OF assms(1) c(1)] MovesOn show ?thesis by (auto split: option.splits)
qed (use assms in auto)

lemma phase_delays:
  assumes "phase_ok p xs" "r \<in> set (case p of Holding r \<Rightarrow> [r] | _ \<Rightarrow> []) \<union> set (real_requests xs)" "needs_dummy r"
  shows "\<exists>x. Some x \<in> set xs \<and> requiresDelay x \<and> delayedPrimitiveId x = delayedPrimitiveId r"
proof (cases "r \<in> set (real_requests xs)")
  case True
  with real_in_queue assms(3) show ?thesis by (auto simp: needs_dummy_def)
next
  case False
  with assms(2) have "p = Holding r" by (auto split: thread_phase.splits)
  with assms(1,3) show ?thesis
    by (auto simp: phase_ok_def busy_with_def needs_dummy_def intro!: exI [of _ "dummy_of r"])
qed


section \<open>The steps\<close>

lemma create_request_spec:
  assumes "mgr_queue w xs" "pred_option data_ok request"
  shows "\<exists>p w0. EsifArbPrimReq_Create part prim dmn inst request response event status delay w
      = Some (Some (prim_request part prim dmn inst p response event status delay), w0)
    \<and> w0 = w\<lparr>prim_heap := prim_heap w0\<rparr> \<and> mgr_queue w0 xs"
proof -
  from mgr_queue_malloc [OF assms(1)] obtain b h1 where
    m: "esif_ccb_malloc (prim_heap w) = (Some b, h1)" "mgr_queue (w\<lparr>prim_heap := h1\<rparr>) xs" by blast
  show ?thesis
  proof (cases request)
    case None
    with m show ?thesis
      by (intro exI [of _ None] exI [of _ "w\<lparr>prim_heap := h1\<rparr>"]) (simp add: EsifArbPrimReq_Create_def prim_request_def Let_def)
  next
    case (Some d)
    with assms(2) have "data_ok d" by simp
    from clone_spec [OF this, of h1] m(2) obtain n where
      c: "EsifData_Clone (Some d) h1 = Some (Some (next_addr h1, clone_of d), h1\<lparr>next_addr := n\<rparr>)" "next_addr h1 \<le> n"
      by (auto simp: mgr_queue_def)
    obtain g where g: "esif_primitive_type_set2get prim = Some g" using set2get_total by blast
    have "mgr_queue (w\<lparr>prim_heap := h1\<lparr>next_addr := n\<rparr>\<rparr>) xs" using mgr_queue_next [OF m(2), of n] c(2) by simp
    with Some m(1) c(1) g show ?thesis
      by (intro exI [of _ "Some (next_addr h1, clone_of d)"] exI [of _ "w\<lparr>prim_heap := h1\<lparr>next_addr := n\<rparr>\<rparr>"])
        (simp add: EsifArbPrimReq_Create_def prim_request_def Let_def)
  qed
qed

lemma queue_request_spec:
  assumes "mgr_queue w xs" "length xs + 2 \<le> 2 ^ 32 - 1" "pred_option data_ok request"
  shows "\<exists>r w0 w'. EsifArbPrimReq_Create part prim dmn inst request response event status delay w = Some (Some r, w0)
    \<and> EsifArbMgr_QueuePrimitiveRequest_Locked part prim dmn inst request response event status delay w = Some (ESIF_OK, w')
    \<and> \<not> isDummyRequest r \<and> set_events w' = set_events w
    \<and> mgr_arbitrationEnabled (g_arbMgr w') = mgr_arbitrationEnabled (g_arbMgr w)
    \<and> primitiveQueueExitFlag (g_arbMgr w') = primitiveQueueExitFlag (g_arbMgr w)
    \<and> mgr_queue w' (xs @ map Some (with_dummy r))"
proof -
  from create_request_spec [OF assms(1,3), of part prim dmn inst response event status delay] obtain p w0 where
    c: "EsifArbPrimReq_Create part prim dmn inst request response event status delay w
        = Some (Some (prim_request part prim dmn inst p response event status delay), w0)"
      "w0 = w\<lparr>prim_heap := prim_heap w0\<rparr>" "mgr_queue w0 xs" by blast
  let ?r = "prim_request part prim dmn inst p response event status delay"
  from mgr_enqueue [OF c(3), of "Some ?r"] assms(2) obtain q' h' where
    e: "esif_queue_enqueue (primitiveQueuePtr (g_arbMgr w0)) (Some ?r) (prim_heap w0) = Some (ESIF_OK, q', h')"
      "mgr_queue (upd_queue q' w0\<lparr>prim_heap := h'\<rparr>) (xs @ [Some ?r])" by auto
  have ev: "set_events w0 = set_events w" "g_arbMgr w0 = g_arbMgr w" by (subst c(2), simp)+
  from queue_dummy_spec [OF e(2), of ?r] assms(2) obtain w' where
    d: "queue_dummy ?r (upd_queue q' w0\<lparr>prim_heap := h'\<rparr>) = Some w'" "set_events w' = set_events w"
      "mgr_arbitrationEnabled (g_arbMgr w') = mgr_arbitrationEnabled (g_arbMgr w)"
      "primitiveQueueExitFlag (g_arbMgr w') = primitiveQueueExitFlag (g_arbMgr w)"
      "mgr_queue w' ((xs @ [Some ?r]) @ map Some (tl (with_dummy ?r)))" using ev by auto
  have "(xs @ [Some ?r]) @ map Some (tl (with_dummy ?r)) = xs @ map Some (with_dummy ?r)" by (simp add: with_dummy_def del: needs_dummy_of)
  moreover have "\<not> isDummyRequest ?r" by (simp add: prim_request_def)
  ultimately show ?thesis using c(1) e(1) d by (auto simp: EsifArbMgr_QueuePrimitiveRequest_Locked_def simp del: needs_dummy_of)
qed

lemma thread_pull_spec:
  assumes "mgr_queue w xs" "paired xs"
  shows "\<exists>p w' xs'. thread_pull w = Some (p, w') \<and> mgr_queue w' xs' \<and> phase_ok p xs' \<and> set_events w' = set_events w
    \<and> primitiveQueueExitFlag (g_arbMgr w') = primitiveQueueExitFlag (g_arbMgr w)
    \<and> (case p of Holding r \<Rightarrow> xs = Some r # xs' | Waiting \<Rightarrow> xs' = xs \<and> xs = [] \<or> xs = None # xs' | Ran _ \<Rightarrow> False)"
proof -
  from mgr_pull [OF assms(1)] obtain r q h xs' where
    p: "esif_queue_pull (primitiveQueuePtr (g_arbMgr w)) (prim_heap w) = Some (r, q, h)"
      "mgr_queue (upd_queue q w\<lparr>prim_heap := h\<rparr>) xs'" "xs' = (case r of Blocked \<Rightarrow> xs | Pulled _ \<Rightarrow> tl xs)"
      "r = (case r of Blocked \<Rightarrow> Blocked | Pulled _ \<Rightarrow> Pulled (case xs of [] \<Rightarrow> None | x # _ \<Rightarrow> x))" by blast
  let ?p = "case r of Blocked \<Rightarrow> Waiting | Pulled None \<Rightarrow> Waiting | Pulled (Some r) \<Rightarrow> if isDummyRequest r then Waiting else Holding r"
  have blocked: "r \<noteq> Blocked" if "xs \<noteq> []"
  proof -
    from assms(1) obtain q0 where q0: "primitiveQueuePtr (g_arbMgr w) = Some q0" "queue_inv q0 (prim_heap w) xs" by (auto simp: mgr_queue_def)
    with pull_refines [OF q0(2)] that p(1) show ?thesis by auto
  qed
  have "phase_ok ?p xs' \<and> (case ?p of Holding r \<Rightarrow> xs = Some r # xs' | Waiting \<Rightarrow> xs' = xs \<and> xs = [] \<or> xs = None # xs' | Ran _ \<Rightarrow> False)"
  proof (cases xs)
    case Nil
    with p(3,4) show ?thesis by (cases r) (auto simp: phase_ok_def)
  next
    case (Cons x ys)
    with blocked p(4) have r: "r = Pulled x" by (cases r) auto
    with p(3) Cons have xs': "xs' = ys" by simp
    show ?thesis
    proof (cases x)
      case None
      with r xs' Cons assms(2) show ?thesis by (simp add: phase_ok_def)
    next
      case (Some y)
      with Cons assms(2) have "\<not> isDummyRequest y" "busy_with y ys" by (simp_all add: paired_tail del: paired.simps)
      with r xs' Cons Some show ?thesis by (simp add: phase_ok_def)
    qed
  qed
  with p(1,2) show ?thesis
    by (intro exI [of _ ?p] exI [of _ "upd_queue q w\<lparr>prim_heap := h\<rparr>"] exI [of _ xs']) (simp add: thread_pull_def)
qed


lemma mgr_dequeue:
  assumes "mgr_queue w xs"
  shows "\<exists>q h. esif_queue_dequeue (primitiveQueuePtr (g_arbMgr w)) (prim_heap w) = Some (case xs of [] \<Rightarrow> None | x # _ \<Rightarrow> x, q, h)
    \<and> mgr_queue (upd_queue q w\<lparr>prim_heap := h\<rparr>) (tl xs)"
proof -
  from assms obtain q where q: "primitiveQueuePtr (g_arbMgr w) = Some q" "queue_inv q (prim_heap w) xs"
    "unat (max_size q) = 2 ^ 32 - 1" "\<forall>a. alloc_ok (prim_heap w) a" by (auto simp: mgr_queue_def)
  from dequeue_refines [OF q(2)] obtain q' h' where
    d: "esif_queue_dequeue (Some q) (prim_heap w) = Some (case xs of [] \<Rightarrow> None | x # _ \<Rightarrow> x, Some q', h')"
      "max_size q' = max_size q" "queue_inv q' h' (tl xs)" by blast
  moreover have "alloc_ok h' = alloc_ok (prim_heap w)" by (rule dequeue_alloc [OF q(2) d(1)])
  ultimately show ?thesis using q by (auto simp: mgr_queue_def)
qed

lemma mgr_requeue:
  assumes "mgr_queue w xs" "length xs < 2 ^ 32 - 1"
  shows "\<exists>q' h'. esif_queue_requeue (primitiveQueuePtr (g_arbMgr w)) d (prim_heap w) = Some (ESIF_OK, q', h')
    \<and> mgr_queue (upd_queue q' w\<lparr>prim_heap := h'\<rparr>) (d # xs)"
proof -
  from assms obtain q where q: "primitiveQueuePtr (g_arbMgr w) = Some q" "queue_inv q (prim_heap w) xs"
    "unat (max_size q) = 2 ^ 32 - 1" "\<forall>a. alloc_ok (prim_heap w) a" by (auto simp: mgr_queue_def)
  from requeue_refines [OF q(2), of d] q assms(2) obtain q' h' where
    "esif_queue_requeue (Some q) d (prim_heap w) = Some (ESIF_OK, Some q', h')" "max_size q' = max_size q"
    "queue_inv q' h' (d # xs)" by auto
  moreover from this requeue_alloc [OF q(2)] have "alloc_ok h' = alloc_ok (prim_heap w)" by blast
  ultimately show ?thesis using q by (auto simp: mgr_queue_def)
qed

lemma mgr_signal:
  "mgr_queue w xs \<Longrightarrow> mgr_queue (upd_queue (esif_queue_signal_event (primitiveQueuePtr (g_arbMgr w))) w) xs"
  by (auto simp: mgr_queue_def esif_queue_signal_event_def queue_inv_def)

lemma mgr_queue_length: "mgr_queue w xs \<Longrightarrow> length xs \<le> 2 ^ 32 - 1"
  by (auto simp: mgr_queue_def queue_inv_def)

lemma mgr_queue_destroy:
  "mgr_queue (EsifArbPrimReq_Destroy r w) xs = mgr_queue w xs" "g_arbMgr (EsifArbPrimReq_Destroy r w) = g_arbMgr w"
  by (auto simp: EsifArbPrimReq_Destroy_def mgr_queue_def split: option.splits)

abbreviation events_of :: "EsifArbPrimReq \<Rightarrow> addr list" where
  "events_of r \<equiv> (case completionEventPtr r of None \<Rightarrow> [] | Some e \<Rightarrow> [e])"

lemma thread_finish_spec:
  assumes "mgr_queue w xs" "busy_with r xs"
  shows "\<exists>w' xs'. thread_finish r w = Some w' \<and> mgr_queue w' xs' \<and> paired xs' \<and> real_requests xs' = real_requests xs
    \<and> set_events w' = set_events w @ events_of r
    \<and> primitiveQueueExitFlag (g_arbMgr w') = primitiveQueueExitFlag (g_arbMgr w)"
proof -
  from mgr_dequeue [OF assms(1)] obtain q h where
    d: "esif_queue_dequeue (primitiveQueuePtr (g_arbMgr w)) (prim_heap w) = Some (case xs of [] \<Rightarrow> None | x # _ \<Rightarrow> x, q, h)"
      "mgr_queue (upd_queue q w\<lparr>prim_heap := h\<rparr>) (tl xs)" by blast
  have nd: "\<not> isDummyRequest r" using assms(2) by (simp add: busy_with_def)
  then have ev: "set_events (EsifArbPrimReq_Destroy (Some r) v) = set_events v @ events_of r" for v
    by (simp add: EsifArbPrimReq_Destroy_def split: option.split)
  show ?thesis
  proof (cases "needs_dummy r")
    case True
    with assms(2) obtain ys where ys: "xs = Some (dummy_of r) # ys" "paired ys" by (auto simp: busy_with_def)
    then have "thread_finish r w = Some (EsifArbPrimReq_Destroy (Some r) (upd_queue q w\<lparr>prim_heap := h\<rparr>))"
      using d(1) by (simp add: thread_finish_def)
    with ys d(2) ev show ?thesis by (auto simp: mgr_queue_destroy)
  next
    case False
    with assms(2) have pr: "paired xs" by (simp add: busy_with_def)
    let ?d = "case xs of [] \<Rightarrow> None | x # _ \<Rightarrow> x"
    have len: "length (tl xs) < 2 ^ 32 - 1" using mgr_queue_length [OF assms(1)] by (cases xs) auto
    from mgr_requeue [OF d(2) len, of ?d] obtain q' h' where
      rq: "esif_queue_requeue q ?d h = Some (ESIF_OK, q', h')" "mgr_queue (upd_queue q' w\<lparr>prim_heap := h'\<rparr>) (?d # tl xs)"
      by auto
    let ?w1 = "upd_queue (esif_queue_signal_event q') w\<lparr>prim_heap := h'\<rparr>"
    have not_dummy: "\<not> (case ?d of Some x \<Rightarrow> isDummyRequest x \<and> pr_primitiveId r = pr_primitiveId x | None \<Rightarrow> False)"
      using pr by (cases xs rule: paired.cases) auto
    then have "thread_finish r w = Some (EsifArbPrimReq_Destroy (Some r) ?w1)"
      using d(1) rq(1) by (simp add: thread_finish_def)
    moreover have "mgr_queue ?w1 (?d # tl xs)" using mgr_signal [OF rq(2)] by (simp add: mgr_queue_def)
    moreover have "paired (?d # tl xs)" "real_requests (?d # tl xs) = real_requests xs" using pr by (cases xs; simp)+
    ultimately show ?thesis using ev
      by (intro exI [of _ "EsifArbPrimReq_Destroy (Some r) ?w1"] exI [of _ "?d # tl xs"]) (simp add: mgr_queue_destroy)
  qed
qed


section \<open>The invariant\<close>

definition held :: "thread_phase \<Rightarrow> EsifArbPrimReq list" where
  "held p = (case p of Holding r \<Rightarrow> [r] | _ \<Rightarrow> [])"

text \<open>The requests whose execution is finished, dummies removed and waiters released.\<close>

definition finished :: "thread_phase \<Rightarrow> EsifArbPrimReq list \<Rightarrow> EsifArbPrimReq list" where
  "finished p rs = (case p of Ran _ \<Rightarrow> butlast rs | _ \<Rightarrow> rs)"

definition sys_inv :: "arb_sys \<Rightarrow> bool" where
  "sys_inv s \<longleftrightarrow> (\<exists>xs. mgr_queue (sys_world s) xs \<and> phase_ok (sys_phase s) xs
       \<and> sys_accepted s = sys_ran s @ held (sys_phase s) @ real_requests xs)
     \<and> set_events (sys_world s) = concat (map events_of (finished (sys_phase s) (sys_ran s)))
     \<and> (\<forall>r. sys_phase s = Ran r \<longrightarrow> sys_ran s \<noteq> [] \<and> last (sys_ran s) = r)"

definition sys_init :: "arb_sys \<Rightarrow> bool" where
  "sys_init s \<longleftrightarrow> (\<exists>w. EsifArbMgr_Init w = Some (ESIF_OK, sys_world s) \<and> heap_ok (prim_heap w)
       \<and> (\<forall>a. alloc_ok (prim_heap w) a) \<and> set_events w = [])
     \<and> sys_phase s = Waiting \<and> sys_accepted s = [] \<and> sys_ran s = []"

lemma create_alloc:
  assumes "esif_queue_create depth name timeout h = Some (q, h')" "\<forall>a. alloc_ok h a"
  shows "\<forall>a. alloc_ok h' a" "q \<noteq> None"
  using assms by (auto simp: esif_queue_create_def esif_ccb_malloc_def esif_link_list_create_def Let_def)

lemma sys_init_inv: "sys_init s \<Longrightarrow> sys_inv s"
proof -
  assume "sys_init s"
  then obtain w where w: "EsifArbMgr_Init w = Some (ESIF_OK, sys_world s)" "heap_ok (prim_heap w)" "\<forall>a. alloc_ok (prim_heap w) a"
    "set_events w = []" "sys_phase s = Waiting" "sys_accepted s = []" "sys_ran s = []" by (auto simp: sys_init_def)
  from create_refines [OF w(2), of "0xFFFFFFFF" "''UfArbMgrPrimitiveQueue''" 0] obtain qo h' where
    c: "esif_queue_create 0xFFFFFFFF ''UfArbMgrPrimitiveQueue'' 0 (prim_heap w) = Some (qo, h')"
      "\<forall>q. qo = Some q \<longrightarrow> queue_inv q h' [] \<and> max_size q = 0xFFFFFFFF" by blast
  from create_alloc [OF c(1) w(3)] obtain q where q: "qo = Some q" "\<forall>a. alloc_ok h' a" by auto
  have sw: "sys_world s = w\<lparr>g_arbMgr := (g_arbMgr w)\<lparr>mgr_arbitrationEnabled := True, primitiveQueuePtr := Some q\<rparr>, prim_heap := h'\<rparr>"
    using w(1) c(1) q(1) by (simp add: EsifArbMgr_Init_def)
  have "mgr_queue (sys_world s) []" unfolding sw using c(2) q by (simp add: mgr_queue_def)
  moreover have "set_events (sys_world s) = []" unfolding sw using w(4) by simp
  ultimately show "sys_inv s"
    using w(5-7) by (auto simp: sys_inv_def phase_ok_def held_def finished_def intro!: exI [of _ "[]"])
qed

lemma inv_queue:
  assumes "sys_inv s" "mgr_queue (sys_world s) xs" "length xs + 2 < 2 ^ 32 - 1" "pred_option data_ok request"
    "EsifArbPrimReq_Create part prim dmn inst request response event status delay (sys_world s) = Some (Some r, w0)"
    "EsifArbMgr_QueuePrimitiveRequest_Locked part prim dmn inst request response event status delay (sys_world s) = Some (rc, w')"
  shows "sys_inv (s\<lparr>sys_world := w', sys_accepted := if rc = ESIF_OK then sys_accepted s @ [r] else sys_accepted s\<rparr>)"
proof -
  from assms(1) obtain ys where ys: "mgr_queue (sys_world s) ys" "phase_ok (sys_phase s) ys"
    "sys_accepted s = sys_ran s @ held (sys_phase s) @ real_requests ys" by (auto simp: sys_inv_def)
  have "ys = xs" using ys(1) assms(2) by (auto simp: mgr_queue_def queue_inv_def dest: ll_rep_unique)
  with queue_request_spec [OF ys(1) _ assms(4), of part prim dmn inst response event status delay] assms(3,5,6)
  have w': "rc = ESIF_OK" "\<not> isDummyRequest r" "set_events w' = set_events (sys_world s)"
    "mgr_queue w' (ys @ map Some (with_dummy r))" by auto
  have "phase_ok (sys_phase s) (ys @ map Some (with_dummy r))" by (rule phase_ok_append [OF ys(2) w'(2)])
  moreover have "real_requests (map Some (with_dummy r)) = [r]" using w'(2) by simp
  ultimately show ?thesis
    using assms(1) ys(3) w' by (auto simp: sys_inv_def simp del: needs_dummy_of intro!: exI [of _ "ys @ map Some (with_dummy r)"])
qed

lemma inv_pull:
  assumes "sys_inv s" "sys_phase s = Waiting" "thread_pull (sys_world s) = Some (p, w')"
  shows "sys_inv (s\<lparr>sys_world := w', sys_phase := p\<rparr>)"
proof -
  from assms(1,2) obtain ys where ys: "mgr_queue (sys_world s) ys" "paired ys" "sys_accepted s = sys_ran s @ real_requests ys"
    by (auto simp: sys_inv_def phase_ok_def held_def)
  from thread_pull_spec [OF ys(1,2)] assms(3) obtain xs' where
    t: "mgr_queue w' xs'" "phase_ok p xs'" "set_events w' = set_events (sys_world s)"
      "case p of Holding r \<Rightarrow> ys = Some r # xs' | Waiting \<Rightarrow> xs' = ys \<and> ys = [] \<or> ys = None # xs' | Ran _ \<Rightarrow> False" by auto
  have "sys_accepted s = sys_ran s @ held p @ real_requests xs'"
    using t(2,4) ys(3) by (cases p) (auto simp: held_def phase_ok_def busy_with_def)
  with t assms(1,2) show ?thesis by (cases p) (auto simp: sys_inv_def finished_def)
qed

lemma inv_execute:
  assumes "sys_inv s" "sys_phase s = Holding r"
  shows "sys_inv (s\<lparr>sys_phase := Ran r, sys_status := st, sys_ran := sys_ran s @ [r]\<rparr>)"
  using assms by (auto simp: sys_inv_def finished_def held_def phase_ok_def)

lemma inv_finish:
  assumes "sys_inv s" "sys_phase s = Ran r" "thread_finish r (sys_world s) = Some w'"
  shows "sys_inv (s\<lparr>sys_world := w', sys_phase := Waiting\<rparr>)"
proof -
  from assms(1,2) obtain ys where ys: "mgr_queue (sys_world s) ys" "busy_with r ys" "sys_accepted s = sys_ran s @ real_requests ys"
    by (auto simp: sys_inv_def phase_ok_def held_def)
  from thread_finish_spec [OF ys(1,2)] assms(3) obtain xs' where
    t: "mgr_queue w' xs'" "paired xs'" "real_requests xs' = real_requests ys"
      "set_events w' = set_events (sys_world s) @ events_of r" by auto
  have ran: "sys_ran s = butlast (sys_ran s) @ [r]" using assms(1,2) by (auto simp: sys_inv_def append_butlast_last_id)
  have "set_events w' = concat (map events_of (sys_ran s))"
    using t(4) assms(1,2) by (subst ran) (simp add: sys_inv_def finished_def)
  with t ys(3) show ?thesis by (auto simp: sys_inv_def finished_def held_def phase_ok_def)
qed

lemma inv_stop: "sys_inv s \<Longrightarrow> sys_inv (s\<lparr>sys_world := EsifArbMgr_Stop (sys_world s)\<rparr>)"
proof -
  have "mgr_queue (EsifArbMgr_Stop w) xs = mgr_queue (upd_queue (esif_queue_signal_event (primitiveQueuePtr (g_arbMgr w))) w) xs" for w xs
    by (simp add: mgr_queue_def EsifArbMgr_Stop_def)
  moreover have "set_events (EsifArbMgr_Stop w) = set_events w" for w by (simp add: EsifArbMgr_Stop_def)
  ultimately show "sys_inv s \<Longrightarrow> sys_inv (s\<lparr>sys_world := EsifArbMgr_Stop (sys_world s)\<rparr>)"
    using mgr_signal by (simp add: sys_inv_def) blast
qed

lemma thread_step_inv:
  assumes "thread_step exec_prim s t" "sys_inv s"
  shows "sys_inv t"
  using assms(1)
proof cases
  case pull
  show ?thesis unfolding pull(1) by (rule inv_pull [OF assms(2) pull(2,4)])
next
  case execute
  show ?thesis unfolding execute(1) by (rule inv_execute [OF assms(2) execute(2)])
next
  case finish
  show ?thesis unfolding finish(1) by (rule inv_finish [OF assms(2) finish(2,3)])
qed

lemma sys_step_inv:
  assumes "arb_sys_step exec_prim s t" "sys_inv s"
  shows "sys_inv t"
  using assms(1)
proof cases
  case queue
  show ?thesis unfolding queue(1) by (rule inv_queue [OF assms(2) queue(2-6)])
next
  case thread
  then show ?thesis by (rule thread_step_inv [OF _ assms(2)])
next
  case stop
  show ?thesis unfolding stop by (rule inv_stop [OF assms(2)])
qed

interpretation arb_thread: step_system sys_init "arb_sys_step exec_prim" sys_inv for exec_prim
  by unfold_locales (auto intro: sys_init_inv sys_step_inv)

section \<open>Properties\<close>

text \<open>
  C5. With memory available (a request that is accepted and cannot be followed by its dummy, or a queue
  that cannot take back an item, is not covered), every request the queue accepts is executed exactly
  once and in the order of acceptance, whatever the interleaving of callers and thread: what was
  accepted is what was executed, followed by what is held or queued. The completion events set so far
  are those of the requests whose execution is finished, in that order, so a waiter is released when
  its request is done and not before.
\<close>

theorem arb_thread_fifo:
  assumes "sys_init s" "(arb_sys_step exec_prim)\<^sup>*\<^sup>* s t"
  shows "\<exists>xs. mgr_queue (sys_world t) xs
    \<and> sys_accepted t = sys_ran t @ held (sys_phase t) @ real_requests xs
    \<and> set_events (sys_world t) = concat (map events_of (finished (sys_phase t) (sys_ran t)))"
  using arb_thread.reachable_inv [OF assms] by (auto simp: sys_inv_def)

text \<open>The thread during a search: the nodes at the front go, the others stay.\<close>

lemma queue_at_pull:
  assumes "queue_at w ns k" "thread_pull w = Some (p, w')"
  shows "queue_at w' ns (if k < length ns then Suc k else k)"
proof -
  from assms(1) obtain q l where q: "primitiveQueuePtr (g_arbMgr w) = Some q" "queue_list_ptr q = Some l"
    "ll_rep (prim_heap w) l (drop k ns)" "mgr_queue w (map snd (drop k ns))" "k \<le> length ns"
    "\<forall>x\<in>set (take k ns). node_mem (prim_heap w) (fst x) = None" by (auto simp: queue_at_def)
  then have inv: "queue_inv q (prim_heap w) (map snd (drop k ns))" "unat (max_size q) = 2 ^ 32 - 1"
    "\<forall>a. alloc_ok (prim_heap w) a" by (auto simp: mgr_queue_def)
  from dequeue_nodes [OF inv(1) q(2,3) refl] obtain d q' h' l' where
    d: "esif_queue_dequeue (Some q) (prim_heap w) = Some (d, Some q', h')" "max_size q' = max_size q"
      "queue_inv q' h' (map snd (drop (Suc k) ns))" "queue_list_ptr q' = Some l'" "ll_rep h' l' (drop (Suc k) ns)"
      "dom (node_mem h') = dom (node_mem (prim_heap w)) - fst ` set (take 1 (drop k ns))"
    unfolding map_tl [symmetric] tl_drop drop_Suc [symmetric] by metis
  have alloc: "\<forall>a. alloc_ok h' a" using inv(3) dequeue_alloc [OF inv(1) d(1)] by simp
  show ?thesis
  proof (cases "ms_timeout q = ESIF_QUEUE_TIMEOUT_INFINITE \<and> \<not> event_signaled q")
    case True
    then have "drop k ns = []" using inv(1) by (auto simp: queue_inv_def)
    moreover have "w' = upd_queue (Some q) w"
      using assms(2) q(1) True by (auto simp: thread_pull_def esif_queue_pull_def)
    ultimately show ?thesis using assms(1) q by (auto simp: queue_at_def mgr_queue_def)
  next
    case False
    then have w': "w' = upd_queue (Some q') w\<lparr>prim_heap := h'\<rparr>"
      using assms(2) q(1) d(1) by (auto simp: thread_pull_def esif_queue_pull_def)
    have gone: "\<forall>x\<in>set (take (Suc k) ns). node_mem h' (fst x) = None"
    proof
      fix x assume x: "x \<in> set (take (Suc k) ns)"
      have "set (take (Suc k) ns) \<subseteq> set (take k ns) \<union> set (take 1 (drop k ns))"
        by (metis append_take_drop_id Un_upper1 order_refl set_append take_add plus_1_eq_Suc add.commute)
      with x have "fst x \<notin> dom (node_mem h')" using q(6) unfolding d(6) by auto
      then show "node_mem h' (fst x) = None" by auto
    qed
    show ?thesis
    proof (cases "k < length ns")
      case True
      with w' d gone alloc inv(2) show ?thesis by (simp add: queue_at_def mgr_queue_def)
    next
      case len: False
      then have "take k ns = ns" "drop k ns = []" "drop (Suc k) ns = []" by simp_all
      with w' d gone alloc inv(2) q(5) len show ?thesis by (simp add: queue_at_def mgr_queue_def)
    qed
  qed
qed

lemma queue_at_stop: "queue_at w ns k \<Longrightarrow> queue_at (EsifArbMgr_Stop w) ns k"
proof -
  assume q: "queue_at w ns k"
  then have "mgr_queue (EsifArbMgr_Stop w) (map snd (drop k ns))"
    using mgr_signal [of w] by (simp add: queue_at_def mgr_queue_def EsifArbMgr_Stop_def)
  with q show "queue_at (EsifArbMgr_Stop w) ns k" by (auto simp: queue_at_def EsifArbMgr_Stop_def esif_queue_signal_event_def)
qed

text \<open>A call that entered in \<open>t\<close>, where the nodes of the queue were \<open>ns\<close>.\<close>

definition call_ok :: "prim_call \<Rightarrow> arb_sys \<Rightarrow> (addr \<times> EsifArbPrimReq option) list \<Rightarrow> call_phase \<times> arb_sys \<Rightarrow> bool" where
  "call_ok c t ns y = (case y of
       (Enters, u) \<Rightarrow> u = t
     | (Walks wk, u) \<Rightarrow> sys_accepted u = sys_accepted t
         \<and> (\<exists>k. queue_at (sys_world u) ns k \<and> walk_ok (call_prim c) ns wk \<and> (wk = Faults \<longrightarrow> k \<noteq> 0))
     | (Leaves RunNow, u) \<Rightarrow> sys_accepted u = sys_accepted t \<and> (\<forall>x\<in>set ns. \<not> delays (call_prim c) (snd x))
     | (Leaves (WaitFor e), u) \<Rightarrow> e = call_event c \<and> (\<exists>r ys. sys_accepted u = sys_accepted t @ [r]
         \<and> mgr_queue (sys_world u) (ys @ [Some r]) \<and> completionEventPtr r = Some e
         \<and> completionStatusPtr r = Some (call_status c) \<and> pr_primitiveId r = call_prim c))"

lemma call_leaves:
  assumes "queue_at (sys_world s) ns k" "length ns + 2 \<le> 2 ^ 32 - 1" "pred_option data_ok (call_request c)"
  shows "\<exists>w'. unarbitrated_end c True (sys_world s) = Some (WaitFor (call_event c), w')
    \<and> (\<exists>r. call_accepted c (WaitFor (call_event c)) (sys_world s) = [r]
      \<and> mgr_queue w' (map snd (drop k ns) @ [Some r]) \<and> completionEventPtr r = Some (call_event c)
      \<and> completionStatusPtr r = Some (call_status c) \<and> pr_primitiveId r = call_prim c)"
proof -
  have q: "mgr_queue (sys_world s) (map snd (drop k ns))" "length (map snd (drop k ns)) + 2 \<le> 2 ^ 32 - 1"
    using assms(1,2) by (auto simp: queue_at_def)
  from create_request_spec [OF q(1) assms(3), of "call_part c" "call_prim c" "call_dmn c" "call_inst c" "call_response c"
      "Some (call_event c)" "Some (call_status c)" False]
    queue_request_spec [OF q assms(3), of "call_part c" "call_prim c" "call_dmn c" "call_inst c" "call_response c"
      "Some (call_event c)" "Some (call_status c)" False]
  obtain r w0 w' p where
    r: "EsifArbPrimReq_Create (call_part c) (call_prim c) (call_dmn c) (call_inst c) (call_request c) (call_response c)
        (Some (call_event c)) (Some (call_status c)) False (sys_world s) = Some (Some r, w0)"
      "r = prim_request (call_part c) (call_prim c) (call_dmn c) (call_inst c) p (call_response c)
        (Some (call_event c)) (Some (call_status c)) False"
      "EsifArbMgr_QueuePrimitiveRequest_Locked (call_part c) (call_prim c) (call_dmn c) (call_inst c) (call_request c)
        (call_response c) (Some (call_event c)) (Some (call_status c)) False (sys_world s) = Some (ESIF_OK, w')"
      "mgr_queue w' (map snd (drop k ns) @ map Some (with_dummy r))" by auto
  have "\<not> needs_dummy r" using r(2) by (simp add: prim_request_def needs_dummy_def)
  with r(4) have "mgr_queue w' (map snd (drop k ns) @ [Some r])" by simp
  moreover have "completionEventPtr r = Some (call_event c)" "completionStatusPtr r = Some (call_status c)"
    "pr_primitiveId r = call_prim c" using r(2) by (simp_all add: prim_request_def)
  ultimately show ?thesis using r(1,3) by (simp add: unarbitrated_end_def call_accepted_def)
qed

lemma call_step_ok:
  assumes "call_step c x y" "call_ok c t ns x" "queue_at (sys_world t) ns 0" "mgr_arbitrationEnabled (g_arbMgr (sys_world t))"
    "must_delay_start (sys_world t) = AtNode (first_addr ns)" "length ns + 2 \<le> 2 ^ 32 - 1" "pred_option data_ok (call_request c)"
  shows "call_ok c t ns y"
  using assms(1)
proof cases
  case (enter s)
  with assms(2) have "s = t" by (simp add: call_ok_def)
  moreover have "walk_ok (call_prim c) ns (AtNode (first_addr ns))"
    unfolding walk_ok.simps by (rule exI [of _ "[]"]) simp
  ultimately show ?thesis using enter(2) assms(3,5) by (auto simp: call_ok_def)
next
  case (pass s)
  with assms(2,4) show ?thesis by (simp add: call_ok_def)
next
  case (walk wk s)
  with assms(2) obtain k where k: "queue_at (sys_world s) ns k" "walk_ok (call_prim c) ns wk" "wk = Faults \<longrightarrow> k \<noteq> 0"
    "sys_accepted s = sys_accepted t" by (auto simp: call_ok_def)
  from must_delay_step_ok [OF k(1-3)] k(1,4) walk(2) show ?thesis by (auto simp: call_ok_def)
next
  case (leave delay s r w')
  with assms(2) obtain k where k: "queue_at (sys_world s) ns k" "delay = (\<exists>x\<in>set ns. delays (call_prim c) (snd x))"
    "sys_accepted s = sys_accepted t" by (auto simp: call_ok_def)
  show ?thesis
  proof (cases delay)
    case True
    with call_leaves [OF k(1) assms(6,7)] leave k(3) show ?thesis by (auto simp: call_ok_def)
  next
    case False
    with leave k(2,3) show ?thesis by (auto simp: call_ok_def unarbitrated_end_def call_accepted_def)
  qed
qed

lemma read_step_ok:
  assumes "read_step exec_prim c x y" "call_ok c t ns x" "queue_at (sys_world t) ns 0" "mgr_arbitrationEnabled (g_arbMgr (sys_world t))"
    "must_delay_start (sys_world t) = AtNode (first_addr ns)" "length ns + 2 \<le> 2 ^ 32 - 1" "pred_option data_ok (call_request c)"
  shows "call_ok c t ns y"
  using assms(1)
proof cases
  case own
  then show ?thesis by (rule call_step_ok [OF _ assms(2-7)])
next
  case (thread s u wk)
  with assms(2) obtain k where k: "queue_at (sys_world s) ns k" "walk_ok (call_prim c) ns wk" "wk = Faults \<longrightarrow> k \<noteq> 0"
    "sys_accepted s = sys_accepted t" by (auto simp: call_ok_def)
  from thread(3) have "\<exists>k'. queue_at (sys_world u) ns k' \<and> k \<le> k' \<and> sys_accepted u = sys_accepted s"
  proof cases
    case (pull p w')
    with queue_at_pull [OF k(1) pull(4)] show ?thesis by (auto split: if_splits)
  next
    case (execute r)
    with k(1) show ?thesis by auto
  next
    case (finish r w')
    with thread(4) show ?thesis by simp
  qed
  with k thread(2) show ?thesis by (force simp: call_ok_def)
next
  case (stop wk s)
  with assms(2) queue_at_stop show ?thesis by (force simp: call_ok_def)
qed

lemma read_steps_ok:
  assumes "(read_step exec_prim c)\<^sup>*\<^sup>* (Enters, t) y" "queue_at (sys_world t) ns 0" "mgr_arbitrationEnabled (g_arbMgr (sys_world t))"
    "must_delay_start (sys_world t) = AtNode (first_addr ns)" "length ns + 2 \<le> 2 ^ 32 - 1" "pred_option data_ok (call_request c)"
  shows "call_ok c t ns y"
  using assms(1)
  by (induction rule: rtranclp_induct) (auto simp: call_ok_def [of c t ns "(Enters, t)"] intro: read_step_ok [OF _ _ assms(2-6)])

text \<open>Left alone, the caller gets its answer.\<close>

lemma walk_alone:
  assumes "queue_at (sys_world t) (vis @ rest) 0"
  shows "\<exists>b. (call_step c)\<^sup>*\<^sup>* (Walks (AtNode (first_addr rest)), t) (Walks (Answers b), t)"
  using assms
proof (induction rest arbitrary: vis)
  case Nil
  have "call_step c (Walks (AtNode None), t) (Walks (Answers False), t)" using call_step.walk [of c "AtNode None" t] by simp
  then show ?case by auto
next
  case (Cons x rest)
  obtain a d where x: "x = (a, d)" by (cases x)
  from queue_at_node [OF Cons.prems [unfolded x] refl] obtain n where
    n: "node_mem (prim_heap (sys_world t)) a = Some n" "data_ptr n = d" "next_ptr n = first_addr rest" by (auto split: option.splits)
  from Cons.IH [of "vis @ [x]"] Cons.prems obtain b where
    ih: "(call_step c)\<^sup>*\<^sup>* (Walks (AtNode (first_addr rest)), t) (Walks (Answers b), t)" by auto
  have "call_step c (Walks (MovesOn a), t) (Walks (AtNode (first_addr rest)), t)"
    using call_step.walk [of c "MovesOn a" t] n by simp
  with ih have on: "(call_step c)\<^sup>*\<^sup>* (Walks (MovesOn a), t) (Walks (Answers b), t)" by (rule converse_rtranclp_into_rtranclp [rotated])
  show ?case
  proof (cases d)
    case None
    then have "call_step c (Walks (AtNode (Some a)), t) (Walks (MovesOn a), t)"
      using call_step.walk [of c "AtNode (Some a)" t] n by simp
    with on x show ?thesis by (auto intro: converse_rtranclp_into_rtranclp)
  next
    case (Some r)
    then have st: "call_step c (Walks (AtNode (Some a)), t) (Walks (Compares a r), t)"
      using call_step.walk [of c "AtNode (Some a)" t] n by simp
    have "\<exists>b. (call_step c)\<^sup>*\<^sup>* (Walks (Compares a r), t) (Walks (Answers b), t)"
      using call_step.walk [of c "Compares a r" t] n(1) on
      by (auto split: if_splits intro: converse_rtranclp_into_rtranclp)
    with st x show ?thesis by (auto intro: converse_rtranclp_into_rtranclp)
  qed
qed

lemma call_returns:
  assumes "queue_at (sys_world t) ns 0" "must_delay_start (sys_world t) = AtNode (first_addr ns)"
    "mgr_arbitrationEnabled (g_arbMgr (sys_world t))" "length ns + 2 \<le> 2 ^ 32 - 1" "pred_option data_ok (call_request c)"
  shows "\<exists>x u. (call_step c)\<^sup>*\<^sup>* (Enters, t) (Leaves x, u)"
proof -
  from walk_alone [of t "[]" ns c] assms(1) obtain b where
    "(call_step c)\<^sup>*\<^sup>* (Walks (AtNode (first_addr ns)), t) (Walks (Answers b), t)" by auto
  with call_step.enter [of t c] assms(2,3) have at: "(call_step c)\<^sup>*\<^sup>* (Enters, t) (Walks (Answers b), t)"
    by (auto intro: converse_rtranclp_into_rtranclp)
  have "\<exists>x w'. unarbitrated_end c b (sys_world t) = Some (x, w')"
    using call_leaves [OF assms(1,4,5)] by (cases b) (auto simp: unarbitrated_end_def)
  then show ?thesis using call_step.leave at by (meson rtranclp.rtrancl_into_rtrancl)
qed

lemma call_faults:
  assumes "queue_at (sys_world t) ns 0" "must_delay_start (sys_world t) = AtNode (first_addr ns)"
    "mgr_arbitrationEnabled (g_arbMgr (sys_world t))" "sys_phase t = Waiting"
    "\<not> primitiveQueueExitFlag (g_arbMgr (sys_world t))" "paired (map snd ns)" "ns \<noteq> []"
  shows "\<exists>u. (read_step exec_prim c)\<^sup>*\<^sup>* (Enters, t) (Walks Faults, u)"
proof -
  obtain a d ns' where ns: "ns = (a, d) # ns'" using assms(7) by (cases ns) auto
  have "mgr_queue (sys_world t) (map snd ns)" using assms(1) by (simp add: queue_at_def)
  from thread_pull_spec [OF this assms(6)] obtain p w' where pull: "thread_pull (sys_world t) = Some (p, w')" by blast
  let ?u = "t\<lparr>sys_world := w', sys_phase := p\<rparr>"
  have "queue_at w' ns 1" using queue_at_pull [OF assms(1) pull] ns by simp
  then have gone: "node_mem (prim_heap w') a = None" by (simp add: queue_at_def ns)
  have "read_step exec_prim c (Enters, t) (Walks (AtNode (Some a)), t)"
    using read_step.own [OF call_step.enter [OF assms(3), of c]] assms(2) ns by simp
  moreover have "read_step exec_prim c (Walks (AtNode (Some a)), t) (Walks (AtNode (Some a)), ?u)"
    using thread_step.pull [OF assms(4,5) pull] assms(4) by (intro read_step.thread) simp_all
  moreover have "read_step exec_prim c (Walks (AtNode (Some a)), ?u) (Walks Faults, ?u)"
    using read_step.own [OF call_step.walk [of c "AtNode (Some a)" ?u]] gone by simp
  ultimately have "(read_step exec_prim c)\<^sup>*\<^sup>* (Enters, t) (Walks Faults, ?u)"
    by (meson converse_rtranclp_into_rtranclp rtranclp.rtrancl_refl)
  then show ?thesis by blast
qed

text \<open>
  C4. A read does not overtake a write, if the thread does not free the node the caller is looking at.
  Take any state reached with memory available, arbitration enabled and room for two requests in the
  queue, and let a caller ask for a primitive there, while the thread may take and execute requests
  during the caller's search. When the call gets through its search, it has either queued the primitive
  behind everything accepted so far, to be woken by its own event, or runs it at once, and then every
  accepted write that delays this read had been executed before the call, also the one the thread may
  have been working on. If the thread does not interfere, the call gets through. But the search does
  not hold the lock of the queue: the thread, when it is waiting and the queue is not empty, can free
  the node at which the search is, which then reads freed memory; that happens only when the thread has
  taken an item during the search.
\<close>

theorem arb_read_after_write:
  assumes "sys_init s" "(arb_sys_step exec_prim)\<^sup>*\<^sup>* s t" "mgr_arbitrationEnabled (g_arbMgr (sys_world t))"
    "mgr_queue (sys_world t) xs" "length xs + 2 \<le> 2 ^ 32 - 1" "pred_option data_ok (call_request c)"
  shows "(\<forall>x u. (read_step exec_prim c)\<^sup>*\<^sup>* (Enters, t) (Leaves x, u) \<longrightarrow> (case x of
         RunNow \<Rightarrow> sys_accepted u = sys_accepted t \<and> (\<forall>rest r. sys_accepted t = sys_ran t @ rest \<longrightarrow> r \<in> set rest
           \<longrightarrow> \<not> (needs_dummy r \<and> delayedPrimitiveId r = call_prim c))
       | WaitFor e \<Rightarrow> e = call_event c \<and> (\<exists>r ys. sys_accepted u = sys_accepted t @ [r]
           \<and> mgr_queue (sys_world u) (ys @ [Some r]) \<and> completionEventPtr r = Some e
           \<and> completionStatusPtr r = Some (call_status c) \<and> pr_primitiveId r = call_prim c)))
    \<and> (\<exists>x u. (call_step c)\<^sup>*\<^sup>* (Enters, t) (Leaves x, u))
    \<and> (sys_phase t = Waiting \<and> \<not> primitiveQueueExitFlag (g_arbMgr (sys_world t)) \<and> xs \<noteq> []
       \<longrightarrow> (\<exists>u. (read_step exec_prim c)\<^sup>*\<^sup>* (Enters, t) (Walks Faults, u)))
    \<and> (\<forall>u. (read_step exec_prim c)\<^sup>*\<^sup>* (Enters, t) (Walks Faults, u) \<longrightarrow> \<not> mgr_queue (sys_world u) xs)"
proof -
  from arb_thread.reachable_inv [OF assms(1,2)] obtain ys where
    ys: "mgr_queue (sys_world t) ys" "phase_ok (sys_phase t) ys"
      "sys_accepted t = sys_ran t @ held (sys_phase t) @ real_requests ys" by (auto simp: sys_inv_def)
  have same: "ys = xs" using ys(1) assms(4) by (auto simp: mgr_queue_def queue_inv_def dest: ll_rep_unique)
  from queue_at_start [OF assms(4)] obtain ns where
    ns: "queue_at (sys_world t) ns 0" "map snd ns = xs" "must_delay_start (sys_world t) = AtNode (first_addr ns)" by blast
  have room: "length ns + 2 \<le> 2 ^ 32 - 1" using assms(5) ns(2) by auto
  note ok = read_steps_ok [OF _ ns(1) assms(3) ns(3) room assms(6)]
  have waits: "\<not> (needs_dummy r \<and> delayedPrimitiveId r = call_prim c)"
    if "\<forall>x\<in>set ns. \<not> delays (call_prim c) (snd x)" "sys_accepted t = sys_ran t @ rest" "r \<in> set rest" for rest r
  proof
    assume r: "needs_dummy r \<and> delayedPrimitiveId r = call_prim c"
    have "r \<in> set (case sys_phase t of Holding r \<Rightarrow> [r] | _ \<Rightarrow> []) \<union> set (real_requests ys)"
      using that(2,3) ys(3) by (auto simp: held_def)
    from phase_delays [OF ys(2) this] r same obtain x where "Some x \<in> set xs" "delays (call_prim c) (Some x)" by (auto simp: delays_def)
    with that(1) ns(2) show False by fastforce
  qed
  have "case x of
         RunNow \<Rightarrow> sys_accepted u = sys_accepted t \<and> (\<forall>rest r. sys_accepted t = sys_ran t @ rest \<longrightarrow> r \<in> set rest
           \<longrightarrow> \<not> (needs_dummy r \<and> delayedPrimitiveId r = call_prim c))
       | WaitFor e \<Rightarrow> e = call_event c \<and> (\<exists>r ys. sys_accepted u = sys_accepted t @ [r]
           \<and> mgr_queue (sys_world u) (ys @ [Some r]) \<and> completionEventPtr r = Some e
           \<and> completionStatusPtr r = Some (call_status c) \<and> pr_primitiveId r = call_prim c)"
    if "(read_step exec_prim c)\<^sup>*\<^sup>* (Enters, t) (Leaves x, u)" for x u
    using ok [OF that] waits by (cases x) (simp_all add: call_ok_def)
  moreover have "\<exists>x u. (call_step c)\<^sup>*\<^sup>* (Enters, t) (Leaves x, u)"
    by (rule call_returns [OF ns(1,3) assms(3) room assms(6)])
  moreover have "\<exists>u. (read_step exec_prim c)\<^sup>*\<^sup>* (Enters, t) (Walks Faults, u)"
    if "sys_phase t = Waiting" "\<not> primitiveQueueExitFlag (g_arbMgr (sys_world t))" "xs \<noteq> []"
    by (rule call_faults [OF ns(1,3) assms(3) that(1,2)]) (use ys(2) that same ns(2) in \<open>auto simp: phase_ok_def\<close>)
  moreover have "\<not> mgr_queue (sys_world u) xs" if "(read_step exec_prim c)\<^sup>*\<^sup>* (Enters, t) (Walks Faults, u)" for u
  proof
    assume q: "mgr_queue (sys_world u) xs"
    from ok [OF that] obtain k where k: "queue_at (sys_world u) ns k" "k \<noteq> 0" by (auto simp: call_ok_def)
    then have "map snd (drop k ns) = xs" using q by (auto simp: queue_at_def mgr_queue_def queue_inv_def dest: ll_rep_unique)
    then have "length ns - k = length ns" using ns(2) by (metis length_drop length_map)
    moreover have "k \<le> length ns" using k(1) by (simp add: queue_at_def)
    ultimately show False using k(2) by simp
  qed
  ultimately show ?thesis by blast
qed

lemma progress_waiting:
  assumes "sys_inv s" "sys_phase s = Waiting" "\<not> primitiveQueueExitFlag (g_arbMgr (sys_world s))"
    "mgr_queue (sys_world s) xs" "paired xs" "real_requests xs = r # rest"
  shows "\<exists>t. (thread_step exec_prim)\<^sup>*\<^sup>* s t \<and> sys_ran t = sys_ran s @ [r]"
  using assms
proof (induction xs arbitrary: s)
  case (Cons x xs)
  from thread_pull_spec [OF Cons.prems(4,5)] obtain p w' xs' where
    t: "thread_pull (sys_world s) = Some (p, w')" "mgr_queue w' xs'" "phase_ok p xs'"
      "primitiveQueueExitFlag (g_arbMgr w') = primitiveQueueExitFlag (g_arbMgr (sys_world s))"
      "case p of Holding r \<Rightarrow> x # xs = Some r # xs' | Waiting \<Rightarrow> xs' = x # xs \<and> x # xs = [] \<or> x # xs = None # xs' | Ran _ \<Rightarrow> False"
    by blast
  let ?s1 = "s\<lparr>sys_world := w', sys_phase := p\<rparr>"
  have st: "thread_step exec_prim s ?s1" by (rule thread_step.pull [OF Cons.prems(2,3) t(1)])
  show ?case
  proof (cases p)
    case Waiting
    with t(5) have x: "x = None" "xs' = xs" by auto
    have "sys_inv ?s1" by (rule thread_step_inv [OF st Cons.prems(1)])
    moreover have "paired xs" "real_requests xs = r # rest" using Cons.prems(5,6) x by simp_all
    ultimately obtain t' where "(thread_step exec_prim)\<^sup>*\<^sup>* ?s1 t'" "sys_ran t' = sys_ran s @ [r]"
      using Cons.IH [of ?s1] Waiting t(2,4) x Cons.prems(3) by auto
    with st show ?thesis by (meson converse_rtranclp_into_rtranclp)
  next
    case (Holding y)
    with t(3,5) Cons.prems(6) have y: "y = r" by (auto simp: phase_ok_def busy_with_def split: if_splits)
    have "thread_step exec_prim ?s1 (?s1\<lparr>sys_phase := Ran r, sys_status := thread_execute exec_prim r (sys_status ?s1),
        sys_ran := sys_ran ?s1 @ [r]\<rparr>)" using Holding y by (intro thread_step.execute) simp
    with st show ?thesis
      by (intro exI [of _ "?s1\<lparr>sys_phase := Ran r, sys_status := thread_execute exec_prim r (sys_status ?s1),
        sys_ran := sys_ran ?s1 @ [r]\<rparr>"]) (simp add: converse_rtranclp_into_rtranclp)
  qed (use t(5) in simp)
qed simp

text \<open>
  C6. The thread does not starve a request: in every state that is reached with memory available, while
  the manager is not stopped and an accepted request has not been executed, the thread alone, whose
  steps are determined, gets to a state in which the oldest such request has been executed, and nothing
  else has. In particular none of its steps faults, and NULL items in the queue do not block it.
\<close>

theorem arb_thread_progress:
  assumes "sys_init s" "(arb_sys_step exec_prim)\<^sup>*\<^sup>* s t" "\<not> primitiveQueueExitFlag (g_arbMgr (sys_world t))"
    "sys_accepted t = sys_ran t @ r # rest"
  shows "\<exists>u. (thread_step exec_prim)\<^sup>*\<^sup>* t u \<and> sys_ran u = sys_ran t @ [r]"
proof -
  have inv: "sys_inv t" by (rule arb_thread.reachable_inv [OF assms(1,2)])
  then obtain ys where ys: "mgr_queue (sys_world t) ys" "phase_ok (sys_phase t) ys"
    "held (sys_phase t) @ real_requests ys = r # rest" using assms(4) by (auto simp: sys_inv_def)
  show ?thesis
  proof (cases "sys_phase t")
    case Waiting
    with ys have "paired ys" "real_requests ys = r # rest" by (simp_all add: phase_ok_def held_def)
    with progress_waiting [OF inv Waiting assms(3) ys(1)] show ?thesis by blast
  next
    case (Holding y)
    with ys(3) have "y = r" by (simp add: held_def)
    with Holding show ?thesis using thread_step.execute [of t r exec_prim]
      by (metis arb_sys.select_convs(5) arb_sys.surjective arb_sys.update_convs(2,3,5) r_into_rtranclp)
  next
    case (Ran y)
    with ys(2) have "busy_with y ys" by (simp add: phase_ok_def)
    from thread_finish_spec [OF ys(1) this] obtain w' xs' where
      f: "thread_finish y (sys_world t) = Some w'" "mgr_queue w' xs'" "paired xs'" "real_requests xs' = real_requests ys"
        "primitiveQueueExitFlag (g_arbMgr w') = primitiveQueueExitFlag (g_arbMgr (sys_world t))" by blast
    let ?s1 = "t\<lparr>sys_world := w', sys_phase := Waiting\<rparr>"
    have st: "thread_step exec_prim t ?s1" by (rule thread_step.finish [OF Ran f(1)])
    have "real_requests xs' = r # rest" using ys(3) f(4) Ran by (simp add: held_def)
    with progress_waiting [of ?s1 xs' r rest exec_prim] thread_step_inv [OF st inv] f(2,3,5) assms(3) obtain u where
      "(thread_step exec_prim)\<^sup>*\<^sup>* ?s1 u" "sys_ran u = sys_ran t @ [r]" by auto
    with st show ?thesis by (meson converse_rtranclp_into_rtranclp)
  qed
qed


text \<open>A run: the manager is started and a power limit is written.\<close>

definition arb_example_started :: arb_sys where
  "arb_example_started = \<lparr>sys_world = snd (the (EsifArbMgr_Init arb_example_world)), sys_phase = Waiting,
     sys_status = \<lambda>_. ESIF_OK, sys_accepted = [], sys_ran = []\<rparr>"

lemma arb_example_started_init: "sys_init arb_example_started" "mgr_queue (sys_world arb_example_started) []"
  "mgr_arbitrationEnabled (g_arbMgr (sys_world arb_example_started))"
  "\<not> primitiveQueueExitFlag (g_arbMgr (sys_world arb_example_started))"
proof -
  obtain w where w: "EsifArbMgr_Init arb_example_world = Some (ESIF_OK, w)" "mgr_arbitrationEnabled (g_arbMgr w)"
    "\<not> primitiveQueueExitFlag (g_arbMgr w)" "mgr_queue w []"
    by (simp add: EsifArbMgr_Init_def arb_example_world_def esif_queue_create_def esif_ccb_malloc_def esif_link_list_create_def
        Let_def mgr_queue_def queue_inv_def ll_rep_def heap_ok_def)
  then have sw: "sys_world arb_example_started = w" by (simp add: arb_example_started_def)
  show "sys_init arb_example_started"
    using w(1) sw by (auto simp: sys_init_def arb_example_started_def arb_example_world_def heap_ok_def intro!: exI [of _ arb_example_world])
  show "mgr_queue (sys_world arb_example_started) []" using w(4) sw by simp
  show "mgr_arbitrationEnabled (g_arbMgr (sys_world arb_example_started))"
    "\<not> primitiveQueueExitFlag (g_arbMgr (sys_world arb_example_started))" using w(2,3) sw by simp_all
qed


lemma set2get_power_limit: "esif_primitive_type_set2get 130 = Some 38"
proof -
  have "map_of set2get_map 130 = Some 38" by (simp add: set2get_map_def)
  then show ?thesis using lookup_type_spec [OF set2get_sorted, of 130] by (simp add: esif_primitive_type_set2get_def)
qed

lemma arb_example_write:
  obtains t r where "(arb_sys_step (\<lambda>_. ESIF_OK))\<^sup>*\<^sup>* arb_example_started t" "sys_accepted t = [r]" "sys_ran t = []"
    "mgr_queue (sys_world t) [Some r, Some (dummy_of r)]" "needs_dummy r" "delayedPrimitiveId r = 38"
    "mgr_arbitrationEnabled (g_arbMgr (sys_world t))" "\<not> primitiveQueueExitFlag (g_arbMgr (sys_world t))"
    "sys_phase t = Waiting"
proof -
  let ?s = arb_example_started and ?d = "Some (arb_example_data 40)"
  have d: "pred_option data_ok ?d" using arb_example_ok(4) by simp
  from queue_request_spec [OF arb_example_started_init(2) _ d, where part = 1 and prim = 130 and dmn = "0x3044" and inst = 0 and response = None and event = None and status = None and delay = True]
    create_request_spec [OF arb_example_started_init(2) d, where part = 1 and prim = 130 and dmn = "0x3044" and inst = 0 and response = None and event = None and status = None and delay = True]
  obtain r w0 w' where r: "EsifArbPrimReq_Create 1 130 0x3044 0 ?d None None None True (sys_world ?s) = Some (Some r, w0)"
    "EsifArbMgr_QueuePrimitiveRequest_Locked 1 130 0x3044 0 ?d None None None True (sys_world ?s) = Some (ESIF_OK, w')"
    "mgr_queue w' (map Some (with_dummy r))" "mgr_arbitrationEnabled (g_arbMgr w')" "\<not> primitiveQueueExitFlag (g_arbMgr w')"
    using arb_example_started_init(3,4) by (auto simp del: needs_dummy_of)
  have nd: "needs_dummy r" "delayedPrimitiveId r = 38"
    using r(1) set2get_power_limit
    by (auto simp: EsifArbPrimReq_Create_def needs_dummy_def Let_def split: prod.splits option.splits if_splits elim!: bind_eq_SomeE)
  have "arb_sys_step (\<lambda>_. ESIF_OK) ?s (?s\<lparr>sys_world := w', sys_accepted := [r]\<rparr>)"
    using arb_sys_step.queue [OF arb_example_started_init(2) _ d r(1,2), of "\<lambda>_. ESIF_OK"] by (simp add: arb_example_started_def)
  then have "(arb_sys_step (\<lambda>_. ESIF_OK))\<^sup>*\<^sup>* ?s (?s\<lparr>sys_world := w', sys_accepted := [r]\<rparr>)" by blast
  then show thesis
    by (rule that [where r = r]) (use r(3-5) nd in \<open>simp_all add: arb_example_started_def\<close>)
qed

theorem arb_thread_fifo_witness:
  "\<exists>t r xs. (arb_sys_step (\<lambda>_. ESIF_OK))\<^sup>*\<^sup>* arb_example_started t \<and> mgr_queue (sys_world t) xs
     \<and> [r] = sys_ran t @ held (sys_phase t) @ real_requests xs"
proof -
  obtain t r where t: "(arb_sys_step (\<lambda>_. ESIF_OK))\<^sup>*\<^sup>* arb_example_started t" "sys_accepted t = [r]"
    by (rule arb_example_write)
  from arb_thread_fifo [OF arb_example_started_init(1) t(1)] t show ?thesis by metis
qed

theorem arb_read_after_write_witness:
  "\<exists>t r c. (arb_sys_step (\<lambda>_. ESIF_OK))\<^sup>*\<^sup>* arb_example_started t \<and> sys_accepted t = [r] \<and> sys_ran t = []
     \<and> call_prim c = 38
     \<and> (\<exists>x u. (call_step c)\<^sup>*\<^sup>* (Enters, t) (Leaves x, u))
     \<and> (\<forall>x u. (read_step (\<lambda>_. ESIF_OK) c)\<^sup>*\<^sup>* (Enters, t) (Leaves x, u) \<longrightarrow> x = WaitFor 70)
     \<and> (\<exists>u. (read_step (\<lambda>_. ESIF_OK) c)\<^sup>*\<^sup>* (Enters, t) (Walks Faults, u))"
proof -
  obtain t r where t: "(arb_sys_step (\<lambda>_. ESIF_OK))\<^sup>*\<^sup>* arb_example_started t" "sys_accepted t = [r]" "sys_ran t = []"
    "mgr_queue (sys_world t) [Some r, Some (dummy_of r)]" "needs_dummy r" "delayedPrimitiveId r = 38"
    "mgr_arbitrationEnabled (g_arbMgr (sys_world t))" "\<not> primitiveQueueExitFlag (g_arbMgr (sys_world t))"
    "sys_phase t = Waiting" by (rule arb_example_write)
  let ?c = "\<lparr>call_part = 1, call_prim = 38, call_dmn = 0x3044, call_inst = 0, call_request = None, call_response = None,
      call_event = 70, call_status = 71\<rparr>"
  have p: "length [Some r, Some (dummy_of r)] + 2 \<le> 2 ^ 32 - 1" "pred_option data_ok (call_request ?c)" by simp_all
  note th = arb_read_after_write [OF arb_example_started_init(1) t(1,7,4) p]
  have "x = WaitFor 70" if "(read_step (\<lambda>_. ESIF_OK) ?c)\<^sup>*\<^sup>* (Enters, t) (Leaves x, u)" for x u
    using th that t(2,3,5,6) by (cases x) force+
  moreover have "\<exists>x u. (call_step ?c)\<^sup>*\<^sup>* (Enters, t) (Leaves x, u)"
    "\<exists>u. (read_step (\<lambda>_. ESIF_OK) ?c)\<^sup>*\<^sup>* (Enters, t) (Walks Faults, u)" using th t(8,9) by simp_all
  ultimately show ?thesis using t(1-3) by (intro exI [of _ t] exI [of _ r] exI [of _ ?c]) simp
qed

theorem arb_thread_progress_witness:
  "\<exists>t r u. (arb_sys_step (\<lambda>_. ESIF_OK))\<^sup>*\<^sup>* arb_example_started t \<and> sys_ran t = []
     \<and> (thread_step (\<lambda>_. ESIF_OK))\<^sup>*\<^sup>* t u \<and> sys_ran u = [r]"
proof -
  obtain t r where t: "(arb_sys_step (\<lambda>_. ESIF_OK))\<^sup>*\<^sup>* arb_example_started t" "sys_accepted t = [r]" "sys_ran t = []"
    "\<not> primitiveQueueExitFlag (g_arbMgr (sys_world t))" by (rule arb_example_write)
  from arb_thread_progress [OF arb_example_started_init(1) t(1,4), of r "[]"] t show ?thesis by auto
qed

end
