(* ===== verification/Arb_Ctx.thy ===== *)
theory Arb_Ctx
  imports Arb_Spec
begin

text \<open>
  The arbitration context of a participant (\<^verbatim>\<open>EsifArbCtx\<close> in \<^verbatim>\<open>esif_uf_arbmgr.c\<close>): a table of pointers to
  arbitration entries that grows by ten, the search for the entry of a primitive, and the operations
  that take a reference on an entry, use it and give the reference back.

  Entries live in \<open>entry_mem\<close>, because several places hold pointers to one entry and count references on
  it. Whether a participant supports a primitive is asked of its DSP, which is the parameter
  \<open>supported\<close>. A call that waits for ever for the delete event of an entry has no status: \<open>None\<close>.
\<close>

section \<open>State\<close>

record EsifArbCtx =
  ctx_arbitrationEnabled :: bool
  numEntries :: nat
  entryCapacity :: nat
  entriesPtr :: "addr option list"
  ctx_participantId :: esif_handle_t

record arb_store =
  st_world :: arb_world
  entry_mem :: "addr \<Rightarrow> EsifArbEntry option"

abbreviation (input) ESIF_ARB_CTX_ENTRY_TABLE_GROWTH_RATE :: nat where
  "ESIF_ARB_CTX_ENTRY_TABLE_GROWTH_RATE \<equiv> 10"

text \<open>Using an entry through a pointer: \<^verbatim>\<open>NULL\<close> is handed on, a dangling pointer is undefined.\<close>

definition entry_at :: "addr option \<Rightarrow> arb_store \<Rightarrow> EsifArbEntry option option" where
  "entry_at p s = (case p of None \<Rightarrow> Some None | Some a \<Rightarrow> map_option Some (entry_mem s a))"

definition put_entry :: "addr option \<Rightarrow> EsifArbEntry option \<Rightarrow> arb_store \<Rightarrow> arb_store" where
  "put_entry p e s = (case p of None \<Rightarrow> s | Some a \<Rightarrow> s\<lparr>entry_mem := (entry_mem s)(a := e)\<rparr>)"

definition ref_entry :: "addr option \<Rightarrow> arb_store \<Rightarrow> (esif_rc \<times> arb_store) option" where
  "ref_entry p s = do { e \<leftarrow> entry_at p s; (case EsifArbEntry_GetRef e of (rc, e') \<Rightarrow> Some (rc, put_entry p e' s)) }"

definition unref_entry :: "addr option \<Rightarrow> arb_store \<Rightarrow> arb_store option" where
  "unref_entry p s = do { e \<leftarrow> entry_at p s; Some (put_entry p (EsifArbEntry_PutRef e) s) }"

text \<open>\<^verbatim>\<open>EsifArbEntry_Destroy\<close> through a pointer: whether it returns, and the store.\<close>

definition destroy_entry :: "addr option \<Rightarrow> arb_store \<Rightarrow> (bool \<times> arb_store) option" where
  "destroy_entry p s = do {
     e \<leftarrow> entry_at p s;
     (e', w) \<leftarrow> EsifArbEntry_Destroy e (st_world s);
     Some (e' = None, put_entry p e' (s\<lparr>st_world := w\<rparr>)) }"

section \<open>The table\<close>

fun lookup_loop ::
    "nat \<Rightarrow> nat \<Rightarrow> addr option list \<Rightarrow> u32 \<Rightarrow> u16 \<Rightarrow> u8 \<Rightarrow> arb_store \<Rightarrow> (addr option \<times> arb_store) option" where
  "lookup_loop 0 i arr prim dmn inst s = Some (None, s)"
| "lookup_loop (Suc n) i arr prim dmn inst s =
     (if i < length arr then do {
        e \<leftarrow> entry_at (arr ! i) s;
        if EsifArbEntry_IsMatchingEntry e prim dmn inst then do {
          (rc, s1) \<leftarrow> ref_entry (arr ! i) s;
          if rc = ESIF_OK then Some (arr ! i, s1) else lookup_loop n (Suc i) arr prim dmn inst s1 }
        else lookup_loop n (Suc i) arr prim dmn inst s }
      else None)"

definition EsifArbCtx_LookupArbEntry_Locked ::
    "EsifArbCtx option \<Rightarrow> u32 \<Rightarrow> u16 \<Rightarrow> u8 \<Rightarrow> arb_store \<Rightarrow> (addr option \<times> arb_store) option" where
  "EsifArbCtx_LookupArbEntry_Locked self prim dmn inst s =
     (case self of None \<Rightarrow> Some (None, s)
      | Some c \<Rightarrow> if numEntries c \<noteq> 0 \<and> entriesPtr c \<noteq> []
                  then lookup_loop (numEntries c) 0 (entriesPtr c) prim dmn inst s else Some (None, s))"

text \<open>
  Insertion at the end; a full table is enlarged and the insertion tried again. Cells of the enlarged
  table are written before they are read.
\<close>

function insert_entry :: "EsifArbCtx \<Rightarrow> addr option \<Rightarrow> arb_store \<Rightarrow> (esif_rc \<times> EsifArbCtx \<times> arb_store) option" where
  "insert_entry c p s =
     (if numEntries c < entryCapacity c then
        if numEntries c < length (entriesPtr c)
        then Some (ESIF_OK, c\<lparr>entriesPtr := (entriesPtr c)[numEntries c := p], numEntries := Suc (numEntries c)\<rparr>, s)
        else None
      else (case esif_ccb_malloc (req_heap (st_world s)) of
          (None, h) \<Rightarrow> Some (ESIF_E_NO_MEMORY, c, s\<lparr>st_world := (st_world s)\<lparr>req_heap := h\<rparr>\<rparr>)
        | (Some _, h) \<Rightarrow>
            insert_entry (c\<lparr>entriesPtr := entriesPtr c @ replicate ESIF_ARB_CTX_ENTRY_TABLE_GROWTH_RATE None,
                            entryCapacity := entryCapacity c + ESIF_ARB_CTX_ENTRY_TABLE_GROWTH_RATE\<rparr>)
              p (s\<lparr>st_world := (st_world s)\<lparr>req_heap := h\<rparr>\<rparr>)))"
  by pat_completeness auto

termination by (relation "measure (\<lambda>(c, p, s). numEntries c + 1 - entryCapacity c)") auto

declare insert_entry.simps [simp del]

definition EsifArbCtx_InsertArbEntry_Locked ::
    "EsifArbCtx option \<Rightarrow> addr option \<Rightarrow> arb_store \<Rightarrow> (esif_rc \<times> EsifArbCtx option \<times> arb_store) option" where
  "EsifArbCtx_InsertArbEntry_Locked self p s =
     (case self of None \<Rightarrow> Some (ESIF_E_PARAMETER_IS_NULL, None, s)
      | Some c \<Rightarrow> map_option (\<lambda>(rc, c', s'). (rc, Some c', s')) (insert_entry c p s))"

text \<open>
  A new entry in the table, with a reference for the caller. On a failure the code destroys the entry,
  on which it holds two references by then: the wait for the delete event does not end.
\<close>

definition EsifArbCtx_CreateAndInsertEntry_Locked ::
    "EsifArbCtx \<Rightarrow> EsifArbEntryParams \<Rightarrow> esif_handle_t \<Rightarrow> arb_store
     \<Rightarrow> (esif_rc option \<times> addr option \<times> EsifArbCtx \<times> arb_store) option" where
  "EsifArbCtx_CreateAndInsertEntry_Locked c params part s =
     (case EsifArbEntry_Create (Some params) part (st_world s) of
        (None, w) \<Rightarrow> Some (Some ESIF_E_NO_MEMORY, None, c, s\<lparr>st_world := w\<rparr>)
      | (Some (a, e), w) \<Rightarrow> do {
          let s1 = put_entry (Some a) (Some e) (s\<lparr>st_world := w\<rparr>);
          (rc, s2) \<leftarrow> ref_entry (Some a) s1;
          (rc2, c1, s3) \<leftarrow> (if rc = ESIF_OK then insert_entry c (Some a) s2 else Some (rc, c, s2));
          if rc2 = ESIF_OK then Some (Some ESIF_OK, Some a, c1, s3)
          else do {
            (returns, s4) \<leftarrow> destroy_entry (Some a) s3;
            Some (if returns then Some rc2 else None, None, c1, s4) } })"

text \<open>
  Removal: the entry is searched and its cell cleared, the entries behind it move up by one cell, and a
  table with more than ten free cells is cut by ten, or freed when it is empty. The entries move by
  \<^verbatim>\<open>memcpy\<close>: with two or more of them source and destination overlap, which C leaves undefined, and the
  value is \<^term>\<open>None\<close>; no entry or one entry moves as it should.
\<close>

definition remove_cell :: "addr option \<Rightarrow> EsifArbCtx \<Rightarrow> EsifArbCtx option" where
  "remove_cell p c =
     (case first_index (\<lambda>x. x = p) (take (numEntries c) (entriesPtr c)) of
        None \<Rightarrow> Some c
      | Some i \<Rightarrow>
          let arr = (entriesPtr c)[i := None]; n = numEntries c in
          if n - i - 1 > 1 then None
          else Some (c\<lparr>entriesPtr := take i arr @ drop (Suc i) (take n arr) @ drop (n - 1) arr, numEntries := n - 1\<rparr>))"

definition shrink_table :: "EsifArbCtx \<Rightarrow> arb_store \<Rightarrow> EsifArbCtx \<times> arb_store" where
  "shrink_table c s =
     (if entryCapacity c - numEntries c > ESIF_ARB_CTX_ENTRY_TABLE_GROWTH_RATE then
        if numEntries c = 0 then (c\<lparr>entriesPtr := [], entryCapacity := 0\<rparr>, s)
        else (case esif_ccb_malloc (req_heap (st_world s)) of
            (None, h) \<Rightarrow> (c, s\<lparr>st_world := (st_world s)\<lparr>req_heap := h\<rparr>\<rparr>)
          | (Some _, h) \<Rightarrow>
              (let cap = entryCapacity c - ESIF_ARB_CTX_ENTRY_TABLE_GROWTH_RATE in
               (c\<lparr>entriesPtr := take cap (entriesPtr c), entryCapacity := cap\<rparr>,
                s\<lparr>st_world := (st_world s)\<lparr>req_heap := h\<rparr>\<rparr>)))
      else (c, s))"

definition EsifArbCtx_RemoveArbEntry_Locked ::
    "EsifArbCtx option \<Rightarrow> addr option \<Rightarrow> arb_store \<Rightarrow> (esif_rc \<times> EsifArbCtx option \<times> arb_store) option" where
  "EsifArbCtx_RemoveArbEntry_Locked self p s =
     (case (self, p) of
        (Some c, Some _) \<Rightarrow> do {
          c1 \<leftarrow> remove_cell p c;
          let (c', s') = shrink_table c1 s;
          Some (ESIF_OK, Some c', s') }
      | _ \<Rightarrow> Some (ESIF_E_PARAMETER_IS_NULL, self, s))"

section \<open>Iteration\<close>

record EsifArbEntryIterator =
  iter_marker :: bool
  iter_index :: nat
  iter_valid :: bool
  iter_entryPtr :: "addr option"

text \<open>The status is \<^verbatim>\<open>ESIF_E_PARAMETER_IS_NULL\<close> also on success; no caller looks at it.\<close>

definition EsifArbCtx_InitEntryIterator :: "EsifArbEntryIterator option \<Rightarrow> esif_rc \<times> EsifArbEntryIterator option" where
  "EsifArbCtx_InitEntryIterator it =
     (ESIF_E_PARAMETER_IS_NULL,
      map_option (\<lambda>_. \<lparr>iter_marker = True, iter_index = 0, iter_valid = False, iter_entryPtr = None\<rparr>) it)"

text \<open>An iterator of the callers: zero-filled, then initialised.\<close>

definition new_iterator :: EsifArbEntryIterator where
  "new_iterator = the (snd (EsifArbCtx_InitEntryIterator
     (Some \<lparr>iter_marker = False, iter_index = 0, iter_valid = False, iter_entryPtr = None\<rparr>)))"

text \<open>
  The next entry the caller gets a reference on, behind the one the iterator stands at. The last
  argument of the loop and of the function is the variable of the caller that receives the entry.
\<close>

fun next_entry_loop ::
    "nat \<Rightarrow> EsifArbCtx \<Rightarrow> EsifArbEntryIterator \<Rightarrow> addr option \<Rightarrow> arb_store
     \<Rightarrow> (esif_rc \<times> EsifArbEntryIterator \<times> addr option \<times> arb_store) option" where
  "next_entry_loop 0 c it out s = Some (ESIF_E_ITERATION_DONE, it, out, s)"
| "next_entry_loop (Suc n) c it out s =
     (if iter_index it < length (entriesPtr c) then do {
        let p = entriesPtr c ! iter_index it;
        (rc, s1) \<leftarrow> ref_entry p s;
        if rc = ESIF_OK then Some (ESIF_OK, it\<lparr>iter_entryPtr := p, iter_valid := True\<rparr>, p, s1)
        else next_entry_loop n c (it\<lparr>iter_entryPtr := None, iter_index := Suc (iter_index it)\<rparr>) out s1 }
      else None)"

definition EsifArbCtx_GetNextEntry ::
    "EsifArbCtx option \<Rightarrow> EsifArbEntryIterator \<Rightarrow> addr option \<Rightarrow> arb_store
     \<Rightarrow> (esif_rc \<times> EsifArbEntryIterator \<times> addr option \<times> arb_store) option" where
  "EsifArbCtx_GetNextEntry self it out s =
     (case self of
        None \<Rightarrow> Some (ESIF_E_PARAMETER_IS_NULL, it, out, s)
      | Some c \<Rightarrow>
          if iter_marker it then do {
            (it1, s1) \<leftarrow>
              (if iter_valid it then do {
                 s1 \<leftarrow> unref_entry (iter_entryPtr it) s;
                 Some (it\<lparr>iter_index := Suc (iter_index it), iter_entryPtr := None, iter_valid := False\<rparr>, s1) }
               else Some (it, s));
            next_entry_loop (numEntries c - iter_index it1) c it1 out s1 }
          else Some (ESIF_E_INVALID_HANDLE, it, out, s))"

section \<open>Operations\<close>

text \<open>An operation of an entry, through the pointer the context holds.\<close>

definition with_entry ::
    "addr option \<Rightarrow> (EsifArbEntry option \<Rightarrow> arb_world \<Rightarrow> ('r \<times> EsifArbEntry option \<times> arb_world) option)
     \<Rightarrow> arb_store \<Rightarrow> ('r \<times> arb_store) option" where
  "with_entry p f s = do {
     e \<leftarrow> entry_at p s;
     (r, e', w) \<leftarrow> f e (st_world s);
     Some (r, put_entry p e' (s\<lparr>st_world := w\<rparr>)) }"

definition EsifArbCtx_ExecutePrimitive ::
    "EsifArbCtx option \<Rightarrow> esif_handle_t \<Rightarrow> u32 \<Rightarrow> u16 \<Rightarrow> u8 \<Rightarrow> EsifData option \<Rightarrow> arb_store \<Rightarrow> (esif_rc \<times> arb_store) option" where
  "EsifArbCtx_ExecutePrimitive self app prim dmn inst request s =
     (case self of
        None \<Rightarrow> Some (ESIF_E_PARAMETER_IS_NULL, s)
      | Some c \<Rightarrow>
          if ctx_arbitrationEnabled c then do {
            (p, s1) \<leftarrow> EsifArbCtx_LookupArbEntry_Locked self prim dmn inst s;
            (case p of
               None \<Rightarrow> Some (ESIF_E_NOT_FOUND, s1)
             | Some _ \<Rightarrow> do {
                 (rc, s2) \<leftarrow> with_entry p (\<lambda>e. EsifArbEntry_ExecutePrimitive e app request) s1;
                 s3 \<leftarrow> unref_entry p s2;
                 Some (rc, s3) }) }
          else Some (ESIF_E_NOT_SUPPORTED, s))"

text \<open>The entry of a primitive, created when there is none and the participant supports the primitive.\<close>

definition find_or_create ::
    "(esif_handle_t \<Rightarrow> u32 \<Rightarrow> u16 \<Rightarrow> u8 \<Rightarrow> bool) \<Rightarrow> esif_rc \<Rightarrow> EsifArbEntryParams \<Rightarrow> EsifArbCtx \<Rightarrow> arb_store
     \<Rightarrow> (esif_rc option \<times> addr option \<times> EsifArbCtx \<times> arb_store) option" where
  "find_or_create supported unsupported_rc params c s = do {
     (p, s1) \<leftarrow> EsifArbCtx_LookupArbEntry_Locked (Some c) (par_primitiveId params) (par_domain params) (par_instance params) s;
     (case p of
        Some _ \<Rightarrow> Some (Some ESIF_OK, p, c, s1)
      | None \<Rightarrow>
          if supported (ctx_participantId c) (par_primitiveId params) (par_domain params) (par_instance params)
          then EsifArbCtx_CreateAndInsertEntry_Locked c params (ctx_participantId c) s1
          else Some (Some unsupported_rc, None, c, s1)) }"

definition use_entry ::
    "(EsifArbEntry option \<Rightarrow> arb_world \<Rightarrow> (esif_rc \<times> EsifArbEntry option \<times> arb_world) option)
     \<Rightarrow> esif_rc option \<times> addr option \<times> EsifArbCtx \<times> arb_store \<Rightarrow> (esif_rc option \<times> EsifArbCtx option \<times> arb_store) option" where
  "use_entry f = (\<lambda>(rc, p, c, s).
     (case p of
        None \<Rightarrow> Some (rc, Some c, s)
      | Some _ \<Rightarrow> do {
          (rc1, s1) \<leftarrow> with_entry p f s;
          s2 \<leftarrow> unref_entry p s1;
          Some (Some rc1, Some c, s2) }))"

definition EsifArbCtx_SetArbitrationFunction ::
    "(esif_handle_t \<Rightarrow> u32 \<Rightarrow> u16 \<Rightarrow> u8 \<Rightarrow> bool) \<Rightarrow> EsifArbCtx option \<Rightarrow> u32 \<Rightarrow> u16 \<Rightarrow> u8 \<Rightarrow> esif_arbitration_type_t \<Rightarrow> arb_store
     \<Rightarrow> (esif_rc option \<times> EsifArbCtx option \<times> arb_store) option" where
  "EsifArbCtx_SetArbitrationFunction supported self prim dmn inst ty s =
     (case self of
        None \<Rightarrow> Some (Some ESIF_E_PARAMETER_IS_NULL, None, s)
      | Some c \<Rightarrow> do {
          found \<leftarrow> find_or_create supported ESIF_E_NOT_SUPPORTED
            \<lparr>par_primitiveId = prim, par_domain = dmn, par_instance = inst, par_arbType = ty,
             par_upperLimit = ESIF_ARB_LIMIT_MAX, par_lowerLimit = ESIF_ARB_LIMIT_MIN\<rparr> c s;
          use_entry (\<lambda>e. EsifArbEntry_SetArbitrationFunction e ty) found })"

definition EsifArbCtx_SetLimits ::
    "(esif_handle_t \<Rightarrow> u32 \<Rightarrow> u16 \<Rightarrow> u8 \<Rightarrow> bool) \<Rightarrow> EsifArbCtx option \<Rightarrow> u32 \<Rightarrow> u16 \<Rightarrow> u8 \<Rightarrow> u32 option \<Rightarrow> u32 option \<Rightarrow> arb_store
     \<Rightarrow> (esif_rc option \<times> EsifArbCtx option \<times> arb_store) option" where
  "EsifArbCtx_SetLimits supported self prim dmn inst upper lower s =
     (case self of
        None \<Rightarrow> Some (Some ESIF_E_PARAMETER_IS_NULL, None, s)
      | Some c \<Rightarrow> do {
          found \<leftarrow> find_or_create supported ESIF_E_PRIMITIVE_NOT_FOUND_IN_DSP
            \<lparr>par_primitiveId = prim, par_domain = dmn, par_instance = inst, par_arbType = 0,
             par_upperLimit = ESIF_ARB_LIMIT_MAX, par_lowerLimit = ESIF_ARB_LIMIT_MIN\<rparr> c s;
          use_entry (\<lambda>e. EsifArbEntry_SetLimits e upper lower) found })"

fun purge_loop :: "addr option list \<Rightarrow> arb_store \<Rightarrow> arb_store option" where
  "purge_loop [] s = Some s"
| "purge_loop (p # ps) s = do {
     (_, s1) \<leftarrow> with_entry p (\<lambda>e w. map_option (\<lambda>(e', w'). (ESIF_OK, e', w')) (EsifArbEntry_PurgeRequests e w)) s;
     purge_loop ps s1 }"

definition EsifArbCtx_PurgeRequests_Locked :: "EsifArbCtx option \<Rightarrow> arb_store \<Rightarrow> arb_store option" where
  "EsifArbCtx_PurgeRequests_Locked self s =
     (case self of None \<Rightarrow> Some s
      | Some c \<Rightarrow> if entriesPtr c \<noteq> [] then purge_loop (take (numEntries c) (entriesPtr c)) s else Some s)"

definition EsifArbCtx_PurgeRequests :: "EsifArbCtx option \<Rightarrow> arb_store \<Rightarrow> arb_store option" where
  "EsifArbCtx_PurgeRequests self s =
     (case self of None \<Rightarrow> Some s | Some _ \<Rightarrow> EsifArbCtx_PurgeRequests_Locked self s)"

definition EsifArbCtx_SetArbitrationState ::
    "EsifArbCtx option \<Rightarrow> u32 \<Rightarrow> u16 \<Rightarrow> u8 \<Rightarrow> bool \<Rightarrow> arb_store \<Rightarrow> (esif_rc \<times> EsifArbCtx option \<times> arb_store) option" where
  "EsifArbCtx_SetArbitrationState self prim dmn inst isEnabled s =
     (case self of
        None \<Rightarrow> Some (ESIF_E_PARAMETER_IS_NULL, None, s)
      | Some c \<Rightarrow>
          if prim = 0 then
            (let self1 = Some (c\<lparr>ctx_arbitrationEnabled := isEnabled\<rparr>) in
             if isEnabled then Some (ESIF_OK, self1, s)
             else do { s1 \<leftarrow> EsifArbCtx_PurgeRequests_Locked self1 s; Some (ESIF_OK, self1, s1) })
          else do {
            (p, s1) \<leftarrow> EsifArbCtx_LookupArbEntry_Locked self prim dmn inst s;
            (case p of
               None \<Rightarrow> Some (ESIF_E_NOT_FOUND, self, s1)
             | Some _ \<Rightarrow> do {
                 (rc, s2) \<leftarrow> with_entry p (\<lambda>e. EsifArbEntry_SetArbitrationState e isEnabled) s1;
                 s3 \<leftarrow> unref_entry p s2;
                 Some (rc, if rc = ESIF_OK \<and> isEnabled then Some (c\<lparr>ctx_arbitrationEnabled := isEnabled\<rparr>) else self, s3) }) })"

text \<open>
  The loops over an iterator take as fuel one more than the number of entries; running out of it is
  \<open>None\<close>. The status of the last call for the next entry says whether the iteration was complete.
\<close>

fun remove_app_entries ::
    "nat \<Rightarrow> EsifArbCtx \<Rightarrow> esif_handle_t \<Rightarrow> EsifArbEntryIterator \<Rightarrow> addr option \<Rightarrow> arb_store \<Rightarrow> arb_store option" where
  "remove_app_entries 0 c app it out s = None"
| "remove_app_entries (Suc n) c app it out s = do {
     (iterRc, it1, p, s1) \<leftarrow> EsifArbCtx_GetNextEntry (Some c) it out s;
     if iterRc = ESIF_OK then do {
       (_, s2) \<leftarrow> with_entry p (\<lambda>e w. map_option (\<lambda>(e', w'). (ESIF_OK, e', w')) (EsifArbEntry_RemoveApp e app w)) s1;
       remove_app_entries n c app it1 p s2 }
     else if iterRc \<noteq> ESIF_E_ITERATION_DONE then unref_entry p s1
     else Some s1 }"

definition EsifArbCtx_RemoveApp :: "EsifArbCtx option \<Rightarrow> esif_handle_t \<Rightarrow> arb_store \<Rightarrow> arb_store option" where
  "EsifArbCtx_RemoveApp self app s =
     (case self of None \<Rightarrow> Some s | Some c \<Rightarrow> remove_app_entries (Suc (numEntries c)) c app new_iterator None s)"

text \<open>
  The end of \<^verbatim>\<open>EsifArbCtx_StopArbitration\<close> for an entry that matches: it is destroyed only when it could
  be removed from the table, and the reference of the iterator is given back first.
\<close>

definition stop_entry ::
    "EsifArbCtx \<Rightarrow> addr option \<Rightarrow> arb_store \<Rightarrow> (esif_rc option \<times> EsifArbCtx option \<times> arb_store) option" where
  "stop_entry c p s = do {
     (rc, self1, s1) \<leftarrow> EsifArbCtx_RemoveArbEntry_Locked (Some c) p s;
     s2 \<leftarrow> unref_entry p s1;
     if rc = ESIF_OK then do {
       (returns, s3) \<leftarrow> destroy_entry p s2;
       Some (if returns then Some rc else None, self1, s3) }
     else Some (Some rc, self1, s2) }"

fun stop_loop ::
    "nat \<Rightarrow> EsifArbCtx \<Rightarrow> u32 \<Rightarrow> u16 \<Rightarrow> u8 \<Rightarrow> EsifArbEntryIterator \<Rightarrow> addr option \<Rightarrow> arb_store
     \<Rightarrow> (esif_rc option \<times> EsifArbCtx option \<times> arb_store) option" where
  "stop_loop 0 c prim dmn inst it out s = None"
| "stop_loop (Suc n) c prim dmn inst it out s = do {
     (iterRc, it1, p, s1) \<leftarrow> EsifArbCtx_GetNextEntry (Some c) it out s;
     if iterRc = ESIF_OK then do {
       e \<leftarrow> entry_at p s1;
       if EsifArbEntry_IsMatchingEntry e prim dmn inst then stop_entry c p s1
       else stop_loop n c prim dmn inst it1 p s1 }
     else if iterRc \<noteq> ESIF_E_ITERATION_DONE then do { s2 \<leftarrow> unref_entry p s1; Some (Some iterRc, Some c, s2) }
     else Some (Some ESIF_E_NOT_FOUND, Some c, s1) }"

definition EsifArbCtx_StopArbitration ::
    "EsifArbCtx option \<Rightarrow> u32 \<Rightarrow> u16 \<Rightarrow> u8 \<Rightarrow> arb_store \<Rightarrow> (esif_rc option \<times> EsifArbCtx option \<times> arb_store) option" where
  "EsifArbCtx_StopArbitration self prim dmn inst s =
     (case self of None \<Rightarrow> Some (Some ESIF_E_PARAMETER_IS_NULL, None, s)
      | Some c \<Rightarrow> stop_loop (Suc (numEntries c)) c prim dmn inst new_iterator None s)"

fun populate_loop ::
    "(esif_handle_t \<Rightarrow> u32 \<Rightarrow> u16 \<Rightarrow> u8 \<Rightarrow> bool) \<Rightarrow> EsifArbEntryParams list \<Rightarrow> EsifArbCtx \<Rightarrow> arb_store
     \<Rightarrow> (esif_rc option \<times> EsifArbCtx \<times> arb_store) option" where
  "populate_loop supported [] c s = Some (Some ESIF_OK, c, s)"
| "populate_loop supported (p # ps) c s =
     (if supported (ctx_participantId c) (par_primitiveId p) (par_domain p) (par_instance p) then do {
        (rc, a, c1, s1) \<leftarrow> EsifArbCtx_CreateAndInsertEntry_Locked c p (ctx_participantId c) s;
        (case rc of
           None \<Rightarrow> Some (None, c1, s1)
         | Some _ \<Rightarrow> do { s2 \<leftarrow> unref_entry a s1; populate_loop supported ps c1 s2 }) }
      else populate_loop supported ps c s)"

text \<open>The table ends at the first element whose primitive is 0.\<close>

definition EsifArbCtx_PopulateDefaultArbitrationTable ::
    "(esif_handle_t \<Rightarrow> u32 \<Rightarrow> u16 \<Rightarrow> u8 \<Rightarrow> bool) \<Rightarrow> EsifArbCtx option \<Rightarrow> EsifArbEntryParams list option \<Rightarrow> arb_store
     \<Rightarrow> (esif_rc option \<times> EsifArbCtx option \<times> arb_store) option" where
  "EsifArbCtx_PopulateDefaultArbitrationTable supported self table s =
     (case (self, table) of
        (Some c, Some ps) \<Rightarrow>
          map_option (\<lambda>(rc, c', s'). (rc, Some c', s'))
            (populate_loop supported (takeWhile (\<lambda>p. par_primitiveId p \<noteq> 0) ps) c s)
      | _ \<Rightarrow> Some (Some ESIF_E_PARAMETER_IS_NULL, self, s))"

fun destroy_entries :: "addr option list \<Rightarrow> arb_store \<Rightarrow> (bool \<times> arb_store) option" where
  "destroy_entries [] s = Some (True, s)"
| "destroy_entries (p # ps) s = do {
     (returns, s1) \<leftarrow> destroy_entry p s;
     if returns then destroy_entries ps s1 else Some (False, s1) }"

definition EsifArbCtx_Destroy :: "EsifArbCtx option \<Rightarrow> arb_store \<Rightarrow> (bool \<times> arb_store) option" where
  "EsifArbCtx_Destroy self s =
     (case self of None \<Rightarrow> Some (True, s) | Some c \<Rightarrow> destroy_entries (take (numEntries c) (entriesPtr c)) s)"

end
