(* ===== verification/Arb_Ctx_Spec.thy ===== *)
theory Arb_Ctx_Spec
  imports Arb_Ctx
begin

text \<open>
  The contract of an arbitration context and its refinement. The abstract context is a list of keys
  (primitive, domain, instance) with an abstract arbiter each, and, for every key, what its control was
  last sent. The concrete context holds pointers to entries whose request lists share one heap and
  whose primitives share one queue; the lemmas show that an operation on one entry is a step of its
  arbiter and leaves the others as they are.
\<close>

section \<open>The abstract context\<close>

type_synonym ctx_key = "u32 \<times> u16 \<times> u8"

record ctx_spec =
  cs_enabled :: bool
  cs_entries :: "(ctx_key \<times> arb_spec) list"
  cs_sent :: "ctx_key \<Rightarrow> EsifData option"

datatype ctx_op =
    CtxRequest ctx_key esif_handle_t EsifData
  | CtxLimits ctx_key "u32 option" "u32 option"
  | CtxFunction ctx_key esif_arbitration_type_t
  | CtxState ctx_key bool
  | CtxStop ctx_key
  | CtxRemoveApp esif_handle_t
  | CtxPurge
  | CtxPull

text \<open>A step of the arbiter of a key; a new arbiter; a step of every arbiter.\<close>

definition cell_op :: "arb_op \<Rightarrow> ctx_key \<Rightarrow> arb_spec \<Rightarrow> ctx_spec \<Rightarrow> esif_rc \<times> ctx_spec" where
  "cell_op x k sp cs = (case spec_op x sp of (rc, sp') \<Rightarrow>
     (rc, cs\<lparr>cs_entries := map (\<lambda>(k', s). (k', if k' = k then sp' else s)) (cs_entries cs),
             cs_sent := (cs_sent cs)(k := sp_sent sp')\<rparr>))"

definition new_params :: "ctx_key \<Rightarrow> esif_arbitration_type_t \<Rightarrow> EsifArbEntryParams" where
  "new_params = (\<lambda>(prim, dmn, inst) ty. \<lparr>par_primitiveId = prim, par_domain = dmn, par_instance = inst, par_arbType = ty,
     par_upperLimit = ESIF_ARB_LIMIT_MAX, par_lowerLimit = ESIF_ARB_LIMIT_MIN\<rparr>)"

definition params_key :: "EsifArbEntryParams \<Rightarrow> ctx_key" where
  "params_key p = (par_primitiveId p, par_domain p, par_instance p)"

definition new_cell :: "EsifArbEntryParams \<Rightarrow> ctx_spec \<Rightarrow> ctx_spec" where
  "new_cell p cs = cs\<lparr>cs_entries := cs_entries cs @ [(params_key p, spec_start p (cs_sent cs (params_key p)))]\<rparr>"

definition create_and :: "(ctx_key \<Rightarrow> bool) \<Rightarrow> esif_rc \<Rightarrow> EsifArbEntryParams \<Rightarrow> arb_op \<Rightarrow> ctx_spec \<Rightarrow> esif_rc \<times> ctx_spec" where
  "create_and supported unsupported_rc p x cs =
     (case map_of (cs_entries cs) (params_key p) of
        Some sp \<Rightarrow> cell_op x (params_key p) sp cs
      | None \<Rightarrow> if supported (params_key p)
                then cell_op x (params_key p) (spec_start p (cs_sent cs (params_key p))) (new_cell p cs)
                else (unsupported_rc, cs))"

definition all_cells :: "arb_op \<Rightarrow> ctx_spec \<Rightarrow> ctx_spec" where
  "all_cells x cs = (let entries = map (\<lambda>(k, s). (k, snd (spec_op x s))) (cs_entries cs) in
     cs\<lparr>cs_entries := entries,
        cs_sent := \<lambda>k. case map_of entries k of Some s \<Rightarrow> sp_sent s | None \<Rightarrow> cs_sent cs k\<rparr>)"

fun ctx_spec_op :: "(ctx_key \<Rightarrow> bool) \<Rightarrow> ctx_op \<Rightarrow> ctx_spec \<Rightarrow> esif_rc \<times> ctx_spec" where
  "ctx_spec_op supported (CtxRequest k app d) cs =
     (if cs_enabled cs
      then (case map_of (cs_entries cs) k of None \<Rightarrow> (ESIF_E_NOT_FOUND, cs) | Some sp \<Rightarrow> cell_op (Request app d) k sp cs)
      else (ESIF_E_NOT_SUPPORTED, cs))"
| "ctx_spec_op supported (CtxLimits k u l) cs =
     create_and supported ESIF_E_PRIMITIVE_NOT_FOUND_IN_DSP (new_params k 0) (Limits u l) cs"
| "ctx_spec_op supported (CtxFunction k ty) cs =
     create_and supported ESIF_E_NOT_SUPPORTED (new_params k ty) (Function ty) cs"
| "ctx_spec_op supported (CtxState k b) cs =
     (if fst k = 0 then (ESIF_OK, (if b then cs else all_cells Purge cs)\<lparr>cs_enabled := b\<rparr>)
      else (case map_of (cs_entries cs) k of None \<Rightarrow> (ESIF_E_NOT_FOUND, cs)
            | Some sp \<Rightarrow> (ESIF_OK, (snd (cell_op (Enable b) k sp cs))\<lparr>cs_enabled := cs_enabled cs \<or> b\<rparr>)))"
| "ctx_spec_op supported (CtxStop k) cs =
     (case map_of (cs_entries cs) k of None \<Rightarrow> (ESIF_E_NOT_FOUND, cs)
      | Some _ \<Rightarrow> (ESIF_OK, cs\<lparr>cs_entries := filter (\<lambda>c. fst c \<noteq> k) (cs_entries cs)\<rparr>))"
| "ctx_spec_op supported (CtxRemoveApp app) cs = (ESIF_OK, all_cells (Withdraw app) cs)"
| "ctx_spec_op supported CtxPurge cs = (ESIF_OK, all_cells Purge cs)"
| "ctx_spec_op supported CtxPull cs = (ESIF_OK, cs)"

section \<open>The concrete operations\<close>

text \<open>
  The context, the store and what the thread has taken from the queue. A call that waits for ever has
  no result here.
\<close>

type_synonym ctx_state = "EsifArbCtx \<times> arb_store \<times> EsifArbPrimReq option list"

fun ctx_conc_op ::
    "(esif_handle_t \<Rightarrow> u32 \<Rightarrow> u16 \<Rightarrow> u8 \<Rightarrow> bool) \<Rightarrow> ctx_op \<Rightarrow> ctx_state \<Rightarrow> (esif_rc \<times> ctx_state) option" where
  "ctx_conc_op supported (CtxRequest (prim, dmn, inst) app d) (c, s, taken) = do {
     (rc, s') \<leftarrow> EsifArbCtx_ExecutePrimitive (Some c) app prim dmn inst (Some d) s;
     Some (rc, c, s', taken) }"
| "ctx_conc_op supported (CtxLimits (prim, dmn, inst) u l) (c, s, taken) = do {
     (rco, co, s') \<leftarrow> EsifArbCtx_SetLimits supported (Some c) prim dmn inst u l s;
     rc \<leftarrow> rco; c' \<leftarrow> co;
     Some (rc, c', s', taken) }"
| "ctx_conc_op supported (CtxFunction (prim, dmn, inst) ty) (c, s, taken) = do {
     (rco, co, s') \<leftarrow> EsifArbCtx_SetArbitrationFunction supported (Some c) prim dmn inst ty s;
     rc \<leftarrow> rco; c' \<leftarrow> co;
     Some (rc, c', s', taken) }"
| "ctx_conc_op supported (CtxState (prim, dmn, inst) b) (c, s, taken) = do {
     (rc, co, s') \<leftarrow> EsifArbCtx_SetArbitrationState (Some c) prim dmn inst b s;
     c' \<leftarrow> co;
     Some (rc, c', s', taken) }"
| "ctx_conc_op supported (CtxStop (prim, dmn, inst)) (c, s, taken) = do {
     (rco, co, s') \<leftarrow> EsifArbCtx_StopArbitration (Some c) prim dmn inst s;
     rc \<leftarrow> rco; c' \<leftarrow> co;
     Some (rc, c', s', taken) }"
| "ctx_conc_op supported (CtxRemoveApp app) (c, s, taken) = do {
     s' \<leftarrow> EsifArbCtx_RemoveApp (Some c) app s;
     Some (ESIF_OK, c, s', taken) }"
| "ctx_conc_op supported CtxPurge (c, s, taken) = do {
     s' \<leftarrow> EsifArbCtx_PurgeRequests (Some c) s;
     Some (ESIF_OK, c, s', taken) }"
| "ctx_conc_op supported CtxPull (c, s, taken) = do {
     (r, q, h) \<leftarrow> esif_queue_pull (primitiveQueuePtr (g_arbMgr (st_world s))) (prim_heap (st_world s));
     Some (ESIF_OK, c, s\<lparr>st_world := upd_queue q (st_world s)\<lparr>prim_heap := h\<rparr>\<rparr>,
       case r of Blocked \<Rightarrow> taken | Pulled d \<Rightarrow> taken @ [d]) }"

fun ctx_run ::
    "(ctx_op \<Rightarrow> 's \<Rightarrow> (esif_rc \<times> 's) option) \<Rightarrow> ctx_op list \<Rightarrow> 's \<Rightarrow> (esif_rc list \<times> 's) option" where
  "ctx_run f [] s = Some ([], s)"
| "ctx_run f (x # xs) s = do { (rc, s1) \<leftarrow> f x s; (rcs, s2) \<leftarrow> ctx_run f xs s1; Some (rc # rcs, s2) }"

section \<open>The relation\<close>

definition entry_key :: "EsifArbEntry \<Rightarrow> ctx_key" where
  "entry_key e = (primitiveId e, domain e, entry_instance e)"

fun sent_to :: "esif_handle_t \<Rightarrow> ctx_key \<Rightarrow> EsifArbPrimReq option \<Rightarrow> bool" where
  "sent_to part k None = False"
| "sent_to part k (Some r) = (\<not> isDummyRequest r \<and> pr_participantId r = part
     \<and> k = (pr_primitiveId r, pr_domain r, pr_instance r))"

definition last_sent_to :: "esif_handle_t \<Rightarrow> ctx_key \<Rightarrow> EsifArbPrimReq option list \<Rightarrow> EsifData option" where
  "last_sent_to part k items = (let rs = filter (sent_to part k) items in
     if rs = [] then None else Option.bind (last rs) (\<lambda>r. map_option snd (reqDataPtr r)))"

text \<open>A row of the table is a pointer and the entry in memory; an entry at rest has one reference.\<close>

definition at_rest :: "EsifArbEntry \<Rightarrow> bool" where
  "at_rest e \<longleftrightarrow> refCount e = 1 \<and> \<not> markedForDelete e \<and> \<not> deleteEvent e"

definition row_ok ::
    "esif_handle_t \<Rightarrow> arb_store \<Rightarrow> EsifArbPrimReq option list \<Rightarrow> EsifArbPrimReq option list
     \<Rightarrow> addr \<times> EsifArbEntry \<Rightarrow> ctx_key \<times> arb_spec \<Rightarrow> bool" where
  "row_ok part s taken qs = (\<lambda>(a, e) (k, sp). entry_mem s a = Some e \<and> at_rest e \<and> participantId e = part
     \<and> entry_key e = k \<and> a < next_addr (req_heap (st_world s)) \<and> simulates (e, st_world s, taken) sp qs)"

abbreviation row_nodes :: "arb_store \<Rightarrow> addr \<times> EsifArbEntry \<Rightarrow> addr set" where
  "row_nodes s r \<equiv> nodes_of (req_heap (st_world s)) (arbRequests (snd r))"

definition rows_ok ::
    "esif_handle_t \<Rightarrow> arb_store \<Rightarrow> EsifArbPrimReq option list \<Rightarrow> EsifArbPrimReq option list
     \<Rightarrow> (addr \<times> EsifArbEntry) list \<Rightarrow> (ctx_key \<times> arb_spec) list \<Rightarrow> bool" where
  "rows_ok part s taken qs rows cells \<longleftrightarrow> list_all2 (row_ok part s taken qs) rows cells
     \<and> distinct (map fst rows) \<and> distinct (map fst cells)
     \<and> (\<forall>r\<in>set rows. \<forall>r'\<in>set rows. fst r \<noteq> fst r' \<longrightarrow> row_nodes s r \<inter> row_nodes s r' = {})"

definition table_ok :: "EsifArbCtx \<Rightarrow> (addr \<times> EsifArbEntry) list \<Rightarrow> bool" where
  "table_ok c rows \<longleftrightarrow> length (entriesPtr c) = entryCapacity c \<and> numEntries c = length rows
     \<and> (\<exists>rest. entriesPtr c = map (\<lambda>r. Some (fst r)) rows @ rest)"

definition store_ok :: "arb_store \<Rightarrow> EsifArbPrimReq option list \<Rightarrow> bool" where
  "store_ok s qs \<longleftrightarrow> mgr_queue (st_world s) qs \<and> heap_ok (req_heap (st_world s)) \<and> (\<forall>a. alloc_ok (req_heap (st_world s)) a)"

definition ctx_rows :: "(addr \<times> EsifArbEntry) list \<Rightarrow> ctx_state \<Rightarrow> ctx_spec \<Rightarrow> EsifArbPrimReq option list \<Rightarrow> bool" where
  "ctx_rows rows = (\<lambda>(c, s, taken) cs qs. store_ok s qs
     \<and> table_ok c rows \<and> rows_ok (ctx_participantId c) s taken qs rows (cs_entries cs)
     \<and> ctx_arbitrationEnabled c = cs_enabled cs
     \<and> (\<forall>k. last_sent_to (ctx_participantId c) k (taken @ qs) = cs_sent cs k))"

definition ctx_sim :: "ctx_state \<Rightarrow> ctx_spec \<Rightarrow> EsifArbPrimReq option list \<Rightarrow> bool" where
  "ctx_sim st cs qs \<longleftrightarrow> (\<exists>rows. ctx_rows rows st cs qs)"

section \<open>Frames\<close>

lemma last_sent_to: "last_sent e = last_sent_to (participantId e) (entry_key e)"
proof
  fix items
  have "controls e x = sent_to (participantId e) (entry_key e) x" for x by (cases x) (auto simp: entry_key_def)
  then have "controls e = sent_to (participantId e) (entry_key e)" by (rule ext)
  then show "last_sent e items = last_sent_to (participantId e) (entry_key e) items"
    by (simp add: last_sent_def last_sent_to_def)
qed

lemma last_sent_to_other:
  assumes "\<forall>x\<in>set items. concerns e x" "participantId e = part" "entry_key e \<noteq> k"
  shows "last_sent_to part k (taken @ qs @ items) = last_sent_to part k (taken @ qs)"
proof -
  have "\<not> sent_to part k x" if "x \<in> set items" for x
    using assms that by (cases x) (force simp: entry_key_def)+
  then have "filter (sent_to part k) items = []" by (simp add: filter_empty_conv)
  then show ?thesis by (simp add: last_sent_to_def)
qed

lemma simulates_next:
  assumes "simulates (e, w, taken) s qs" "req_heap w' = (req_heap w)\<lparr>next_addr := n\<rparr>" "next_addr (req_heap w) \<le> n"
    "mgr_queue w' qs"
  shows "simulates (e, w', taken) s qs"
proof -
  from assms(1) obtain ps where "entry_rep e (req_heap w) ps" "map req_view ps = sp_pending s" by (auto simp: simulates_def)
  with entry_rep_next [OF _ assms(3), of e ps] assms show ?thesis by (auto simp: simulates_def)
qed

text \<open>Another entry of the same participant does not notice.\<close>

lemma simulates_frame:
  assumes "entry_frame e w qs e' w' qs'" "mgr_queue w' qs'"
    and sim: "simulates (e2, w, taken) s2 qs"
    and other: "nodes_of (req_heap w) (arbRequests e2) \<inter> nodes_of (req_heap w) (arbRequests e) = {}"
      "participantId e2 = participantId e" "entry_key e2 \<noteq> entry_key e"
  shows "simulates (e2, w', taken) s2 qs'"
    "nodes_of (req_heap w') (arbRequests e2) = nodes_of (req_heap w) (arbRequests e2)"
    "nodes_of (req_heap w') (arbRequests e2) \<inter> nodes_of (req_heap w') (arbRequests e') = {}"
proof -
  let ?h = "req_heap w" and ?h' = "req_heap w'"
  from assms(1) obtain items where
    f: "evolves (nodes_of ?h (arbRequests e)) ?h (nodes_of ?h' (arbRequests e')) ?h'" "qs' = qs @ items"
      "\<forall>x\<in>set items. concerns e x" by (auto simp: entry_frame_def)
  from sim obtain ps where ps: "entry_rep e2 ?h ps" "map req_view ps = sp_pending s2" by (auto simp: simulates_def)
  from ps(1) obtain xs where xs: "ll_rep ?h (arbRequests e2) xs" "map snd xs = map Some (arb_sort (arbType e2) ps)" "one_per_app ps"
    "\<forall>r\<in>set ps. req_ok r" "\<forall>r\<in>set ps. req_key r < next_addr ?h" "distinct (map req_key ps)" "heap_ok ?h" "\<forall>a. alloc_ok ?h a"
    by (rule entry_repE)
  have "fst ` set xs \<inter> nodes_of ?h (arbRequests e) = {}" using other(1) nodes_of_rep [OF xs(1)] by simp
  note fr = evolves_frame [OF f(1) xs(1) this xs(7)]
  show nodes: "nodes_of ?h' (arbRequests e2) = nodes_of ?h (arbRequests e2)"
    using nodes_of_rep [OF fr(1)] nodes_of_rep [OF xs(1)] by simp
  show "nodes_of ?h' (arbRequests e2) \<inter> nodes_of ?h' (arbRequests e') = {}" using fr(2) nodes_of_rep [OF fr(1)] by simp
  have "next_addr ?h \<le> next_addr ?h'" using f(1) by (simp add: evolves_def)
  then have "\<forall>r\<in>set ps. req_ok r \<and> req_key r < next_addr ?h'" using xs(4,5) by auto
  then have "entry_rep e2 ?h' ps" using fr(1) xs by (intro entry_repI [OF fr(1) _ _ _ _ _ f(1)]) auto
  moreover have "last_sent e2 (taken @ qs') = last_sent e2 (taken @ qs)"
    unfolding last_sent_to f(2) using f(3) other(2,3) by (intro last_sent_to_other [where e = e]) auto
  ultimately show "simulates (e2, w', taken) s2 qs'" using sim ps(2) assms(2) by (auto simp: simulates_def)
qed

section \<open>One row\<close>

definition upd_row :: "addr \<Rightarrow> EsifArbEntry \<Rightarrow> arb_world \<Rightarrow> arb_store \<Rightarrow> arb_store" where
  "upd_row a e w s = s\<lparr>st_world := w, entry_mem := (entry_mem s)(a \<mapsto> e)\<rparr>"

lemma upd_row_simps [simp]:
  "st_world (upd_row a e w s) = w" "entry_mem (upd_row a e w s) = (entry_mem s)(a \<mapsto> e)"
  by (simp_all add: upd_row_def)

lemma simulates_ref [simp]: "simulates (e\<lparr>refCount := n\<rparr>, w, taken) sp qs = simulates (e, w, taken) sp qs"
proof -
  have "last_sent (e\<lparr>refCount := n\<rparr>) z = last_sent e z" for z by (rule last_sent_cong) simp_all
  then show ?thesis by (simp add: simulates_def entry_rep_def)
qed

lemma row_frame:
  assumes "row_ok part s taken qs (b, e2) (k2, sp2)" "participantId e = part" "entry_key e \<noteq> k2" "b \<noteq> a"
    "row_nodes s (b, e2) \<inter> row_nodes s (a, e) = {}"
    "entry_frame e (st_world s) qs e' w' qs'" "mgr_queue w' qs'"
  shows "row_ok part (upd_row a e' w' s) taken qs' (b, e2) (k2, sp2)"
    "row_nodes (upd_row a e' w' s) (b, e2) = row_nodes s (b, e2)"
    "row_nodes (upd_row a e' w' s) (b, e2) \<inter> row_nodes (upd_row a e' w' s) (a, e') = {}"
proof -
  have nx: "next_addr (req_heap (st_world s)) \<le> next_addr (req_heap w')" using assms(6) by (simp add: entry_frame_def evolves_def)
  have e2: "simulates (e2, st_world s, taken) sp2 qs" "participantId e2 = participantId e" "entry_key e2 \<noteq> entry_key e"
    using assms(1-3) by (auto simp: row_ok_def)
  note fr = simulates_frame [OF assms(6,7) e2(1) _ e2(2,3)]
  show "row_ok part (upd_row a e' w' s) taken qs' (b, e2) (k2, sp2)"
    using assms(1,4,5) nx fr(1) by (auto simp: row_ok_def)
  show "row_nodes (upd_row a e' w' s) (b, e2) = row_nodes s (b, e2)"
    "row_nodes (upd_row a e' w' s) (b, e2) \<inter> row_nodes (upd_row a e' w' s) (a, e') = {}"
    using fr(2,3) assms(5) by simp_all
qed

lemma rows_update:
  assumes ok: "rows_ok part s taken qs (R1 @ (a, e) # R2) (C1 @ (k, sp) # C2)" "length R1 = length C1"
    and step: "entry_frame e (st_world s) qs e' w' qs'" "simulates (e', w', taken) sp' qs'"
  shows "rows_ok part (upd_row a e' w' s) taken qs' (R1 @ (a, e') # R2) (C1 @ (k, sp') # C2)"
proof -
  let ?s = "upd_row a e' w' s"
  from ok have rows: "list_all2 (row_ok part s taken qs) R1 C1" "row_ok part s taken qs (a, e) (k, sp)"
    "list_all2 (row_ok part s taken qs) R2 C2" by (auto simp: rows_ok_def list_all2_append)
  from ok(1) have dist: "a \<notin> fst ` set (R1 @ R2)" "k \<notin> fst ` set (C1 @ C2)" by (auto simp: rows_ok_def)
  have pair: "\<forall>r\<in>set (R1 @ (a, e) # R2). \<forall>r'\<in>set (R1 @ (a, e) # R2). fst r \<noteq> fst r' \<longrightarrow> row_nodes s r \<inter> row_nodes s r' = {}"
    using ok(1) unfolding rows_ok_def by (elim conjE)
  have disj: "row_nodes s r \<inter> row_nodes s (a, e) = {}" if r: "r \<in> set (R1 @ R2)" for r
  proof -
    have "fst r \<noteq> fst (a, e)" using r dist(1) by (metis fst_conv imageI)
    moreover have "r \<in> set (R1 @ (a, e) # R2)" "(a, e) \<in> set (R1 @ (a, e) # R2)" using r by auto
    ultimately show ?thesis using pair by blast
  qed
  have q: "mgr_queue w' qs'" using step(2) by (simp add: simulates_def)
  have e: "participantId e = part" "entry_key e = k" using rows(2) by (simp_all add: row_ok_def)
  have other: "row_ok part ?s taken qs' r c \<and> row_nodes ?s r = row_nodes s r \<and> row_nodes ?s r \<inter> row_nodes ?s (a, e') = {}"
    if rc: "r \<in> set (R1 @ R2)" "c \<in> set (C1 @ C2)" "row_ok part s taken qs r c" for r c
  proof -
    obtain b e2 k2 sp2 where [simp]: "r = (b, e2)" "c = (k2, sp2)" by (cases r; cases c) auto
    have ba: "b \<noteq> a" using rc(1) dist(1) by (metis fst_conv imageI \<open>r = (b, e2)\<close>)
    have "k2 \<noteq> k" using rc(2) dist(2) by (metis fst_conv imageI \<open>c = (k2, sp2)\<close>)
    then have ek: "entry_key e \<noteq> k2" using e(2) by simp
    have ro: "row_ok part s taken qs (b, e2) (k2, sp2)" using rc(3) by simp
    have "row_nodes s (b, e2) \<inter> row_nodes s (a, e) = {}" using disj [OF rc(1)] by simp
    from row_frame [OF ro e(1) ek ba this step(1) q] show ?thesis by simp
  qed
  have same: "participantId e' = part" "entry_key e' = k" "at_rest e'" "a < next_addr (req_heap w')"
    using rows(2) step(1) by (auto simp: row_ok_def entry_frame_def same_entry_def entry_key_def at_rest_def evolves_def)
  have "list_all2 (row_ok part ?s taken qs') R1 C1" "list_all2 (row_ok part ?s taken qs') R2 C2"
    using rows(1,3) other by (auto elim!: list.rel_mono_strong)
  then have all: "list_all2 (row_ok part ?s taken qs') (R1 @ (a, e') # R2) (C1 @ (k, sp') # C2)"
    using same step(2) ok(2) by (simp add: list_all2_append row_ok_def)
  have "\<exists>c\<in>set (C1 @ C2). row_ok part s taken qs r c" if "r \<in> set (R1 @ R2)" for r
    using list_all2_in [OF rows(1), of r] list_all2_in [OF rows(3), of r] that by (metis Un_iff set_append)
  then have nodes: "row_nodes ?s r = row_nodes s r \<and> row_nodes ?s r \<inter> row_nodes ?s (a, e') = {}" if "r \<in> set (R1 @ R2)" for r
    using other that by blast
  have old: "row_nodes s r \<inter> row_nodes s r' = {}" if "r \<in> set (R1 @ R2)" "r' \<in> set (R1 @ R2)" "fst r \<noteq> fst r'" for r r'
  proof -
    have "r \<in> set (R1 @ (a, e) # R2)" "r' \<in> set (R1 @ (a, e) # R2)" using that by auto
    with pair that(3) show ?thesis by blast
  qed
  have "row_nodes ?s r \<inter> row_nodes ?s r' = {}"
    if r: "r \<in> set (R1 @ (a, e') # R2)" "r' \<in> set (R1 @ (a, e') # R2)" "fst r \<noteq> fst r'" for r r'
  proof -
    consider "r \<in> set (R1 @ R2)" "r' \<in> set (R1 @ R2)" | "r = (a, e')" "r' \<in> set (R1 @ R2)"
      | "r \<in> set (R1 @ R2)" "r' = (a, e')" using r by auto
    then show ?thesis
    proof cases
      case 1
      then show ?thesis using nodes [of r] nodes [of r'] old [OF 1 r(3)] by metis
    next
      case 2
      then show ?thesis using nodes [of r'] by blast
    next
      case 3
      then show ?thesis using nodes [of r] by blast
    qed
  qed
  then have "\<forall>r\<in>set (R1 @ (a, e') # R2). \<forall>r'\<in>set (R1 @ (a, e') # R2). fst r \<noteq> fst r' \<longrightarrow> row_nodes ?s r \<inter> row_nodes ?s r' = {}"
    by blast
  moreover have "distinct (map fst (R1 @ (a, e') # R2))" "distinct (map fst (C1 @ (k, sp') # C2))"
    using ok(1) by (simp_all add: rows_ok_def)
  ultimately show ?thesis using all unfolding rows_ok_def by blast
qed

section \<open>Using a row\<close>

lemma entry_frame_ref:
  assumes "entry_frame (e\<lparr>refCount := refCount e + 1\<rparr>) w qs e' w' qs'"
  shows "entry_frame e w qs (e'\<lparr>refCount := refCount e' - 1\<rparr>) w' qs'"
proof -
  have "concerns (e\<lparr>refCount := n\<rparr>) x = concerns e x" for n x by (cases x) simp_all
  with assms show ?thesis by (simp add: entry_frame_def same_entry_def)
qed

definition with_ref :: "addr \<Rightarrow> EsifArbEntry \<Rightarrow> arb_store \<Rightarrow> arb_store" where
  "with_ref a e s = s\<lparr>entry_mem := (entry_mem s)(a \<mapsto> e\<lparr>refCount := refCount e + 1\<rparr>)\<rparr>"

lemma ref_row:
  "entry_mem s a = Some e \<Longrightarrow> at_rest e \<Longrightarrow> ref_entry (Some a) s = Some (ESIF_OK, with_ref a e s)"
  by (simp add: ref_entry_def entry_at_def put_entry_def EsifArbEntry_GetRef_def at_rest_def with_ref_def)

lemma unref_ref: "entry_mem s a = Some e \<Longrightarrow> at_rest e \<Longrightarrow> unref_entry (Some a) (with_ref a e s) = Some s"
  by (cases s) (auto simp: unref_entry_def entry_at_def put_entry_def EsifArbEntry_PutRef_def at_rest_def with_ref_def Let_def)

text \<open>An operation on an entry at rest, between taking and giving back a reference.\<close>

lemma use_row:
  assumes row: "row_ok part s taken qs (a, e) (k, sp)" and x: "op_ok x" "x \<noteq> Pull" "length qs + 2 \<le> 2 ^ 32 - 1"
  obtains e' w' qs' s2 where "with_entry (Some a) (entry_fun x) (with_ref a e s) = Some (fst (spec_op x sp), s2)"
    "unref_entry (Some a) s2 = Some (upd_row a e' w' s)"
    "entry_frame e (st_world s) qs e' w' qs'" "simulates (e', w', taken) (snd (spec_op x sp)) qs'"
proof -
  let ?e = "e\<lparr>refCount := refCount e + 1\<rparr>"
  have e: "at_rest e" "simulates (?e, st_world s, taken) sp qs" using row by (simp_all add: row_ok_def)
  from sim_own [OF e(2) x(1,3,2)] obtain e' w' qs' where
    o: "entry_op x (?e, st_world s, taken) = Some (fst (spec_op x sp), e', w', taken)"
      "simulates (e', w', taken) (snd (spec_op x sp)) qs'" "entry_frame ?e (st_world s) qs e' w' qs'" by blast
  have f: "entry_fun x (Some ?e) (st_world s) = Some (fst (spec_op x sp), Some e', w')"
    using o(1) entry_op_fun [OF x(2)] by simp
  have "refCount e' = 2" "\<not> markedForDelete e'" "\<not> deleteEvent e'"
    using o(3) e(1) by (simp_all add: entry_frame_def same_entry_def at_rest_def)
  then have u: "EsifArbEntry_PutRef (Some e') = Some (e'\<lparr>refCount := refCount e' - 1\<rparr>)"
    by (simp add: EsifArbEntry_PutRef_def Let_def)
  show thesis
  proof (rule that)
    show "with_entry (Some a) (entry_fun x) (with_ref a e s)
        = Some (fst (spec_op x sp), (with_ref a e s)\<lparr>st_world := w', entry_mem := (entry_mem (with_ref a e s))(a \<mapsto> e')\<rparr>)"
      using f by (simp add: with_entry_def entry_at_def put_entry_def with_ref_def)
    show "unref_entry (Some a) ((with_ref a e s)\<lparr>st_world := w', entry_mem := (entry_mem (with_ref a e s))(a \<mapsto> e')\<rparr>)
        = Some (upd_row a (e'\<lparr>refCount := refCount e' - 1\<rparr>) w' s)"
      using u by (simp add: unref_entry_def entry_at_def put_entry_def with_ref_def upd_row_def)
    show "entry_frame e (st_world s) qs (e'\<lparr>refCount := refCount e' - 1\<rparr>) w' qs'" by (rule entry_frame_ref [OF o(3)])
  qed (use o(2) in simp)
qed

section \<open>Looking up a row\<close>

definition row_keys :: "ctx_key \<Rightarrow> addr \<times> EsifArbEntry \<Rightarrow> bool" where
  "row_keys k r \<longleftrightarrow> entry_key (snd r) = k"

lemma row_keys_pair [simp]: "row_keys k (a, e) \<longleftrightarrow> entry_key e = k"
  by (simp add: row_keys_def)

lemma matching: "EsifArbEntry_IsMatchingEntry (Some e) prim dmn inst \<longleftrightarrow> entry_key e = (prim, dmn, inst)"
  by (auto simp: EsifArbEntry_IsMatchingEntry_def entry_key_def)

lemma lookup_loop_spec:
  assumes "\<forall>(a, e)\<in>set rs. entry_mem s a = Some e \<and> at_rest e"
  shows "lookup_loop (length rs) (length rs0) (map (\<lambda>r. Some (fst r)) (rs0 @ rs) @ rest) prim dmn inst s
    = Some (case find (row_keys (prim, dmn, inst)) rs of None \<Rightarrow> (None, s) | Some (a, e) \<Rightarrow> (Some a, with_ref a e s))"
  using assms
proof (induction rs arbitrary: rs0)
  case (Cons r rs)
  obtain a e where [simp]: "r = (a, e)" by (cases r)
  have e: "entry_mem s a = Some e" "at_rest e" using Cons.prems by simp_all
  have cell: "(map (\<lambda>r. Some (fst r)) (rs0 @ r # rs) @ rest) ! length rs0 = Some a" by (simp add: nth_append)
  have at: "entry_at (Some a) s = Some (Some e)" using e by (simp add: entry_at_def)
  have IH: "lookup_loop (length rs) (Suc (length rs0)) (map (\<lambda>r. Some (fst r)) (rs0 @ r # rs) @ rest) prim dmn inst s
      = Some (case find (row_keys (prim, dmn, inst)) rs of None \<Rightarrow> (None, s) | Some (a, e) \<Rightarrow> (Some a, with_ref a e s))"
    using Cons.IH [of "rs0 @ [r]"] Cons.prems by simp
  show ?case using cell at IH ref_row [OF e] by (simp add: matching del: map_append)
qed simp

lemma table_cells:
  assumes "table_ok c rows"
  obtains rest where "entriesPtr c = map (\<lambda>r. Some (fst r)) rows @ rest" "numEntries c = length rows"
    "take (numEntries c) (entriesPtr c) = map (\<lambda>r. Some (fst r)) rows" "length rest = entryCapacity c - length rows"
    "length rows \<le> entryCapacity c"
  using assms by (auto simp: table_ok_def)

lemma rows_at_rest:
  assumes "rows_ok part s taken qs rows cells"
  shows "\<forall>(a, e)\<in>set rows. entry_mem s a = Some e \<and> at_rest e"
proof -
  have "list_all2 (row_ok part s taken qs) rows cells" using assms by (simp add: rows_ok_def)
  then show ?thesis by (induction rule: list_all2_induct) (auto simp: row_ok_def)
qed

lemma lookup_spec:
  assumes "table_ok c rows" "rows_ok part s taken qs rows cells"
  shows "EsifArbCtx_LookupArbEntry_Locked (Some c) prim dmn inst s
    = Some (case find (row_keys (prim, dmn, inst)) rows of None \<Rightarrow> (None, s) | Some (a, e) \<Rightarrow> (Some a, with_ref a e s))"
proof -
  from assms(1) obtain rest where c: "entriesPtr c = map (\<lambda>r. Some (fst r)) rows @ rest" "numEntries c = length rows"
    by (rule table_cells)
  from lookup_loop_spec [OF rows_at_rest [OF assms(2)], of "[]" rest prim dmn inst] c show ?thesis
    by (cases rows) (auto simp: EsifArbCtx_LookupArbEntry_Locked_def)
qed

text \<open>The row of a key and the arbiter of the key sit at the same place.\<close>

lemma find_cells:
  assumes "list_all2 (row_ok part s taken qs) rows cells" "distinct (map fst cells)"
  shows "find (row_keys k) rows = None \<and> map_of cells k = None
    \<or> (\<exists>R1 a e R2 C1 sp C2. rows = R1 @ (a, e) # R2 \<and> cells = C1 @ (k, sp) # C2 \<and> length R1 = length C1
        \<and> find (row_keys k) rows = Some (a, e) \<and> map_of cells k = Some sp
        \<and> row_ok part s taken qs (a, e) (k, sp))"
  using assms
proof (induction rows cells rule: list_all2_induct)
  case (Cons r rs cell cs)
  obtain a e k1 sp where [simp]: "r = (a, e)" "cell = (k1, sp)" by (cases r; cases cell) auto
  have k1: "entry_key e = k1" using Cons.hyps(1) by (simp add: row_ok_def)
  show ?case
  proof (cases "k1 = k")
    case True
    with k1 Cons.hyps(1) show ?thesis
      by (intro disjI2 exI [of _ "[]"] exI [of _ a] exI [of _ e] exI [of _ rs] exI [of _ sp] exI [of _ cs])
        simp
  next
    case False
    have "distinct (map fst cs)" using Cons.prems by simp
    from Cons.IH [OF this] show ?thesis
    proof (elim disjE exE conjE)
      assume "find (row_keys k) rs = None" "map_of cs k = None"
      with False k1 show ?thesis by simp
    next
      fix R1 b f R2 C1 sp1 C2
      assume "rs = R1 @ (b, f) # R2" "cs = C1 @ (k, sp1) # C2" "length R1 = length C1"
        "find (row_keys k) rs = Some (b, f)" "map_of cs k = Some sp1" "row_ok part s taken qs (b, f) (k, sp1)"
      with False k1 show ?thesis
        by (intro disjI2 exI [of _ "r # R1"] exI [of _ b] exI [of _ f] exI [of _ R2] exI [of _ "cell # C1"] exI [of _ sp1]
            exI [of _ C2]) simp
    qed
  qed
qed simp

section \<open>Steps of one arbiter\<close>

lemma ctx_simE:
  assumes "ctx_sim (c, s, taken) cs qs"
  obtains rows where "store_ok s qs" "table_ok c rows" "rows_ok (ctx_participantId c) s taken qs rows (cs_entries cs)"
    "ctx_arbitrationEnabled c = cs_enabled cs" "\<forall>k. last_sent_to (ctx_participantId c) k (taken @ qs) = cs_sent cs k"
  using assms by (auto simp: ctx_sim_def ctx_rows_def)

lemma ctx_rowsI:
  assumes "store_ok s qs" "table_ok c rows" "rows_ok (ctx_participantId c) s taken qs rows (cs_entries cs)"
    "ctx_arbitrationEnabled c = cs_enabled cs" "\<forall>k. last_sent_to (ctx_participantId c) k (taken @ qs) = cs_sent cs k"
  shows "ctx_rows rows (c, s, taken) cs qs"
  using assms by (simp add: ctx_rows_def)

lemmas ctx_simI = ctx_sim_def [THEN iffD2, OF exI, OF ctx_rowsI]

lemma replace_cell:
  assumes "distinct (map fst (C1 @ (k, sp) # C2))"
  shows "map (\<lambda>(k', s). (k', if k' = k then sp' else s)) (C1 @ (k, sp) # C2) = C1 @ (k, sp') # C2"
proof -
  have "map (\<lambda>(k', s). (k', if k' = k then sp' else s)) C = C" if "k \<notin> fst ` set C" for C
    using that by (induction C) auto
  with assms show ?thesis by simp
qed

lemma sent_frame:
  assumes "entry_frame e w qs e' w' qs'" "simulates (e', w', taken) sp' qs'" "participantId e = part" "entry_key e = k"
  shows "last_sent_to part k' (taken @ qs') = (if k' = k then sp_sent sp' else last_sent_to part k' (taken @ qs))"
proof (cases "k' = k")
  case True
  have "participantId e' = part" "entry_key e' = k" using assms by (auto simp: entry_frame_def same_entry_def entry_key_def)
  then have "last_sent e' (taken @ qs') = last_sent_to part k (taken @ qs')" by (simp add: last_sent_to)
  with assms(2) True show ?thesis by (simp add: simulates_def)
next
  case False
  from assms(1) obtain items where "qs' = qs @ items" "\<forall>x\<in>set items. concerns e x" by (auto simp: entry_frame_def)
  with last_sent_to_other [of items e part k' taken qs] assms(3,4) False show ?thesis by auto
qed

lemma store_frame:
  assumes "store_ok s qs" "entry_frame e (st_world s) qs e' w' qs'" "simulates (e', w', taken) sp' qs'"
  shows "store_ok (upd_row a e' w' s) qs'"
  using assms by (auto simp: store_ok_def entry_frame_def evolves_def simulates_def)

text \<open>The table does not see the entries its pointers lead to.\<close>

lemma table_replace: "table_ok c (R1 @ (a, e) # R2) \<Longrightarrow> table_ok c (R1 @ (a, e') # R2)"
  by (simp add: table_ok_def)

lemma cell_update:
  assumes "store_ok s qs" "table_ok c (R1 @ (a, e) # R2)" "ctx_arbitrationEnabled c = cs_enabled cs"
    "rows_ok (ctx_participantId c) s taken qs (R1 @ (a, e) # R2) (C1 @ (k, sp) # C2)" "length R1 = length C1"
    "cs_entries cs = C1 @ (k, sp) # C2" "\<forall>k. last_sent_to (ctx_participantId c) k (taken @ qs) = cs_sent cs k"
    "entry_frame e (st_world s) qs e' w' qs'" "simulates (e', w', taken) (snd (spec_op x sp)) qs'"
  shows "ctx_rows (R1 @ (a, e') # R2) (c, upd_row a e' w' s, taken) (snd (cell_op x k sp cs)) qs'"
proof (rule ctx_rowsI)
  let ?sp = "snd (spec_op x sp)"
  have d: "distinct (map fst (C1 @ (k, sp) # C2))" using assms(4) by (simp add: rows_ok_def)
  have cs: "snd (cell_op x k sp cs) = cs\<lparr>cs_entries := C1 @ (k, ?sp) # C2, cs_sent := (cs_sent cs)(k := sp_sent ?sp)\<rparr>"
    unfolding cell_op_def assms(6) replace_cell [OF d] by (simp add: case_prod_beta)
  have e: "participantId e = ctx_participantId c" "entry_key e = k"
    using assms(4,5) by (auto simp: rows_ok_def list_all2_append row_ok_def)
  show "store_ok (upd_row a e' w' s) qs'" by (rule store_frame [OF assms(1,8,9)])
  show "table_ok c (R1 @ (a, e') # R2)" using assms(2) by (rule table_replace)
  show "rows_ok (ctx_participantId c) (upd_row a e' w' s) taken qs' (R1 @ (a, e') # R2) (cs_entries (snd (cell_op x k sp cs)))"
    unfolding cs using rows_update [OF assms(4,5,8,9)] by simp
  show "\<forall>k'. last_sent_to (ctx_participantId c) k' (taken @ qs') = cs_sent (snd (cell_op x k sp cs)) k'"
    unfolding cs using sent_frame [OF assms(8,9) e] assms(7) by simp
qed (use assms(3) in \<open>simp add: cell_op_def case_prod_beta\<close>)

lemma cell_step:
  assumes "ctx_sim (c, s, taken) cs qs" "op_ok x" "x \<noteq> Pull" "length qs + 2 \<le> 2 ^ 32 - 1"
  shows "EsifArbCtx_LookupArbEntry_Locked (Some c) prim dmn inst s = Some (None, s) \<and> map_of (cs_entries cs) (prim, dmn, inst) = None
    \<or> (\<exists>a s1 sp s2 s3 qs'. EsifArbCtx_LookupArbEntry_Locked (Some c) prim dmn inst s = Some (Some a, s1)
        \<and> map_of (cs_entries cs) (prim, dmn, inst) = Some sp
        \<and> with_entry (Some a) (entry_fun x) s1 = Some (fst (cell_op x (prim, dmn, inst) sp cs), s2)
        \<and> unref_entry (Some a) s2 = Some s3
        \<and> ctx_sim (c, s3, taken) (snd (cell_op x (prim, dmn, inst) sp cs)) qs' \<and> length qs' \<le> length qs + 2)"
proof -
  let ?k = "(prim, dmn, inst)"
  from assms(1) obtain rows where
    sim: "store_ok s qs" "table_ok c rows" "rows_ok (ctx_participantId c) s taken qs rows (cs_entries cs)"
      "ctx_arbitrationEnabled c = cs_enabled cs" "\<forall>k. last_sent_to (ctx_participantId c) k (taken @ qs) = cs_sent cs k"
    by (rule ctx_simE)
  note look = lookup_spec [OF sim(2,3), of prim dmn inst]
  have "list_all2 (row_ok (ctx_participantId c) s taken qs) rows (cs_entries cs)" "distinct (map fst (cs_entries cs))"
    using sim(3) by (simp_all add: rows_ok_def)
  from find_cells [OF this, of ?k] show ?thesis
  proof (elim disjE exE conjE)
    assume "find (row_keys ?k) rows = None" "map_of (cs_entries cs) ?k = None"
    with look show ?thesis by simp
  next
    fix R1 a e R2 C1 sp C2
    assume f: "rows = R1 @ (a, e) # R2" "cs_entries cs = C1 @ (?k, sp) # C2" "length R1 = length C1"
      "find (row_keys ?k) rows = Some (a, e)" "map_of (cs_entries cs) ?k = Some sp"
      "row_ok (ctx_participantId c) s taken qs (a, e) (?k, sp)"
    obtain e' w' qs' s2 where
      u: "with_entry (Some a) (entry_fun x) (with_ref a e s) = Some (fst (spec_op x sp), s2)"
        "unref_entry (Some a) s2 = Some (upd_row a e' w' s)"
        "entry_frame e (st_world s) qs e' w' qs'" "simulates (e', w', taken) (snd (spec_op x sp)) qs'"
      by (rule use_row [OF f(6) assms(2-4)])
    have "ctx_sim (c, upd_row a e' w' s, taken) (snd (cell_op x ?k sp cs)) qs'"
      using sim(2,3) f(1,2) unfolding ctx_sim_def by (intro exI [of _ "R1 @ (a, e') # R2"] cell_update [OF sim(1) _ sim(4) _ f(3,2) sim(5) u(3,4)]) simp_all
    moreover have "fst (cell_op x ?k sp cs) = fst (spec_op x sp)" by (simp add: cell_op_def case_prod_beta)
    moreover have "EsifArbCtx_LookupArbEntry_Locked (Some c) prim dmn inst s = Some (Some a, with_ref a e s)"
      using look f(4) by simp
    ultimately show ?thesis using f(5) u(1,2) entry_frame_length [OF u(3)]
      by (intro disjI2 exI [of _ a] exI [of _ "with_ref a e s"] exI [of _ sp] exI [of _ s2] exI [of _ "upd_row a e' w' s"]
          exI [of _ qs'] conjI) simp_all
  qed
qed

section \<open>New arbiters\<close>

lemma row_next:
  assumes "row_ok part s taken qs r c" "fst r \<noteq> a" "req_heap w' = (req_heap (st_world s))\<lparr>next_addr := n\<rparr>"
    "next_addr (req_heap (st_world s)) \<le> n" "mgr_queue w' qs"
  shows "row_ok part (upd_row a e w' s) taken qs r c"
  using assms simulates_next [OF _ assms(3-5)] by (cases r; cases c) (auto simp: row_ok_def)

lemma rows_extend:
  assumes ok: "rows_ok part s taken qs rows cells"
    and w': "req_heap w' = (req_heap (st_world s))\<lparr>next_addr := n\<rparr>" "next_addr (req_heap (st_world s)) \<le> a" "a < n" "mgr_queue w' qs"
    and e: "at_rest e" "participantId e = part" "entry_key e = k" "k \<notin> fst ` set cells" "simulates (e, w', taken) sp qs"
      "nodes_of (req_heap w') (arbRequests e) = {}"
  shows "rows_ok part (upd_row a e w' s) taken qs (rows @ [(a, e)]) (cells @ [(k, sp)])"
proof -
  let ?s = "upd_row a e w' s"
  have all: "list_all2 (row_ok part s taken qs) rows cells" using ok by (simp add: rows_ok_def)
  have fresh: "fst r \<noteq> a" if r: "r \<in> set rows" for r
  proof -
    obtain c where "row_ok part s taken qs r c" using list_all2_in [OF all r] by blast
    then have "fst r < next_addr (req_heap (st_world s))" by (auto simp: row_ok_def)
    with w'(2) show ?thesis by simp
  qed
  have le: "next_addr (req_heap (st_world s)) \<le> n" using w'(2,3) by simp
  have "list_all2 (row_ok part ?s taken qs) rows cells"
    using all fresh by (rule_tac list.rel_mono_strong [OF all]) (auto intro: row_next [OF _ _ w'(1) le w'(4)])
  moreover have "row_ok part ?s taken qs (a, e) (k, sp)" using w' e by (simp add: row_ok_def)
  ultimately have "list_all2 (row_ok part ?s taken qs) (rows @ [(a, e)]) (cells @ [(k, sp)])"
    by (simp add: list_all2_append list_all2_lengthD [OF all])
  moreover have "distinct (map fst (rows @ [(a, e)]))" "distinct (map fst (cells @ [(k, sp)]))"
    using ok fresh e(4) by (auto simp: rows_ok_def)
  moreover have "row_nodes ?s r \<inter> row_nodes ?s r' = {}"
    if r: "r \<in> set (rows @ [(a, e)])" "r' \<in> set (rows @ [(a, e)])" "fst r \<noteq> fst r'" for r r'
  proof -
    have same: "row_nodes ?s x = row_nodes s x" for x by (simp add: w'(1))
    consider "r = (a, e)" | "r' = (a, e)" | "r \<in> set rows" "r' \<in> set rows" using r(1,2) by auto
    then show ?thesis
    proof cases
      case 3
      then show ?thesis using ok r(3) unfolding same by (metis rows_ok_def)
    qed (use e(6) in auto)
  qed
  ultimately show ?thesis unfolding rows_ok_def by blast
qed

lemma insert_room:
  assumes "table_ok c rows" "numEntries c < entryCapacity c"
  shows "\<exists>c'. insert_entry c (Some a) s = Some (ESIF_OK, c', s) \<and> table_ok c' (rows @ [(a, e)])
    \<and> ctx_participantId c' = ctx_participantId c \<and> ctx_arbitrationEnabled c' = ctx_arbitrationEnabled c"
proof -
  from assms(1) obtain rest where c: "entriesPtr c = map (\<lambda>r. Some (fst r)) rows @ rest" "numEntries c = length rows"
    "length (entriesPtr c) = entryCapacity c" by (auto simp: table_ok_def)
  with assms(2) obtain y ys where ys: "rest = y # ys" by (cases rest) auto
  with c have "(entriesPtr c)[numEntries c := Some a] = map (\<lambda>r. Some (fst r)) (rows @ [(a, e)]) @ ys"
    by (simp add: list_update_append)
  with assms(2) c ys show ?thesis by (subst insert_entry.simps) (auto simp: table_ok_def)
qed

lemma insert_spec:
  assumes "table_ok c rows" "\<forall>a. alloc_ok (req_heap (st_world s)) a"
  shows "\<exists>c' n. insert_entry c (Some a) s
        = Some (ESIF_OK, c', s\<lparr>st_world := (st_world s)\<lparr>req_heap := (req_heap (st_world s))\<lparr>next_addr := n\<rparr>\<rparr>\<rparr>)
    \<and> next_addr (req_heap (st_world s)) \<le> n \<and> table_ok c' (rows @ [(a, e)])
    \<and> ctx_participantId c' = ctx_participantId c \<and> ctx_arbitrationEnabled c' = ctx_arbitrationEnabled c"
proof (cases "numEntries c < entryCapacity c")
  case True
  from insert_room [OF assms(1) this, of a s e] show ?thesis
    by (auto intro!: exI [of _ "next_addr (req_heap (st_world s))"])
next
  case False
  let ?c = "c\<lparr>entriesPtr := entriesPtr c @ replicate 10 None, entryCapacity := entryCapacity c + 10\<rparr>"
  let ?n = "Suc (next_addr (req_heap (st_world s)))"
  let ?s = "s\<lparr>st_world := (st_world s)\<lparr>req_heap := (req_heap (st_world s))\<lparr>next_addr := ?n\<rparr>\<rparr>\<rparr>"
  have "table_ok ?c rows" "numEntries ?c < entryCapacity ?c" using assms(1) by (auto simp: table_ok_def)
  from insert_room [OF this, of a ?s e] obtain c' where
    "insert_entry ?c (Some a) ?s = Some (ESIF_OK, c', ?s)" "table_ok c' (rows @ [(a, e)])"
    "ctx_participantId c' = ctx_participantId c" "ctx_arbitrationEnabled c' = ctx_arbitrationEnabled c" by auto
  moreover have "insert_entry c (Some a) s = insert_entry ?c (Some a) ?s"
    using False assms(2) by (subst insert_entry.simps) (simp add: esif_ccb_malloc_def)
  ultimately show ?thesis by (intro exI [of _ c'] exI [of _ ?n]) simp
qed

lemma entry_create_spec:
  assumes "\<forall>a. alloc_ok (req_heap w) a"
  obtains e where "EsifArbEntry_Create (Some p) part w
      = (Some (next_addr (req_heap w), e), w\<lparr>req_heap := (req_heap w)\<lparr>next_addr := Suc (next_addr (req_heap w))\<rparr>\<rparr>)"
    "at_rest e" "participantId e = part" "entry_key e = params_key p" "arbRequests e = \<lparr>head_ptr = None, tail_ptr = None, nodes = 0\<rparr>"
  using assms by (auto simp: EsifArbEntry_Create_def esif_ccb_malloc_def Let_def at_rest_def entry_key_def params_key_def)

lemma find_row_last:
  "k \<notin> entry_key ` snd ` set rows \<Longrightarrow> entry_key e = k \<Longrightarrow> find (row_keys k) (rows @ [(a, e)]) = Some (a, e)"
  by (induction rows) (auto simp: row_keys_def)

lemma rows_keys:
  assumes "list_all2 (row_ok part s taken qs) rows cells"
  shows "entry_key ` snd ` set rows = fst ` set cells"
  using assms by (induction rule: list_all2_induct) (auto simp: row_ok_def)

lemma create_spec:
  assumes "ctx_sim (c, s, taken) cs qs" "map_of (cs_entries cs) (params_key p) = None"
  shows "\<exists>a c' s' s1. EsifArbCtx_CreateAndInsertEntry_Locked c p (ctx_participantId c) s = Some (Some ESIF_OK, Some a, c', s1)
    \<and> ctx_sim (c', s', taken) (new_cell p cs) qs
    \<and> EsifArbCtx_LookupArbEntry_Locked (Some c') (par_primitiveId p) (par_domain p) (par_instance p) s' = Some (Some a, s1)
    \<and> unref_entry (Some a) s1 = Some s' \<and> ctx_participantId c' = ctx_participantId c"
proof -
  let ?part = "ctx_participantId c" and ?k = "params_key p" and ?h = "req_heap (st_world s)"
  from assms(1) obtain rows where
    sim: "store_ok s qs" "table_ok c rows" "rows_ok ?part s taken qs rows (cs_entries cs)"
      "ctx_arbitrationEnabled c = cs_enabled cs" "\<forall>k. last_sent_to ?part k (taken @ qs) = cs_sent cs k" by (rule ctx_simE)
  have mem: "\<forall>a. alloc_ok ?h a" "heap_ok ?h" "mgr_queue (st_world s) qs" using sim(1) by (simp_all add: store_ok_def)
  obtain e where e: "EsifArbEntry_Create (Some p) ?part (st_world s)
      = (Some (next_addr ?h, e), (st_world s)\<lparr>req_heap := ?h\<lparr>next_addr := Suc (next_addr ?h)\<rparr>\<rparr>)"
    "at_rest e" "participantId e = ?part" "entry_key e = ?k" "arbRequests e = \<lparr>head_ptr = None, tail_ptr = None, nodes = 0\<rparr>"
    by (rule entry_create_spec [OF mem(1)])
  let ?a = "next_addr ?h" and ?w1 = "(st_world s)\<lparr>req_heap := ?h\<lparr>next_addr := Suc (next_addr ?h)\<rparr>\<rparr>"
  let ?s1 = "with_ref ?a e (upd_row ?a e ?w1 s)"
  have w1: "st_world ?s1 = ?w1" by (simp add: with_ref_def)
  then have "\<forall>a. alloc_ok (req_heap (st_world ?s1)) a" using mem(1) by simp
  from insert_spec [OF sim(2) this, of ?a e] obtain c' n where
    ins: "insert_entry c (Some ?a) ?s1 = Some (ESIF_OK, c', ?s1\<lparr>st_world := (st_world ?s1)\<lparr>req_heap := (req_heap (st_world ?s1))\<lparr>next_addr := n\<rparr>\<rparr>\<rparr>)"
      "next_addr (req_heap (st_world ?s1)) \<le> n" "table_ok c' (rows @ [(?a, e)])" "ctx_participantId c' = ?part"
      "ctx_arbitrationEnabled c' = ctx_arbitrationEnabled c" by (elim exE conjE)
  have i: "insert_entry c (Some ?a) ?s1 = Some (ESIF_OK, c', ?s1\<lparr>st_world := ?w1\<lparr>req_heap := ?h\<lparr>next_addr := n\<rparr>\<rparr>\<rparr>)"
      "?a < n" "table_ok c' (rows @ [(?a, e)])" "ctx_participantId c' = ?part" "ctx_arbitrationEnabled c' = cs_enabled cs"
    using ins sim(4) unfolding w1 by simp_all
  let ?w2 = "?w1\<lparr>req_heap := ?h\<lparr>next_addr := n\<rparr>\<rparr>"
  let ?s' = "upd_row ?a e ?w2 s"
  have create: "EsifArbCtx_CreateAndInsertEntry_Locked c p ?part s = Some (Some ESIF_OK, Some ?a, c', with_ref ?a e ?s')"
    using e(1,2) i(1)
    by (simp add: EsifArbCtx_CreateAndInsertEntry_Locked_def put_entry_def ref_entry_def entry_at_def
        EsifArbEntry_GetRef_def at_rest_def with_ref_def upd_row_def)
  have q2: "mgr_queue ?w2 qs" using mem(3) by (simp add: mgr_queue_def)
  have sim1: "simulates (e, ?w1, taken) (spec_start p (last_sent e (taken @ qs))) qs" by (rule sim_start [OF e(1) mem(2,1,3)])
  have heap2: "req_heap ?w2 = (req_heap ?w1)\<lparr>next_addr := n\<rparr>" "next_addr (req_heap ?w1) \<le> n" using i(2) by simp_all
  have "last_sent e (taken @ qs) = cs_sent cs ?k" unfolding last_sent_to e(3,4) using sim(5) by blast
  with simulates_next [OF sim1 heap2 q2] have sim2: "simulates (e, ?w2, taken) (spec_start p (cs_sent cs ?k)) qs" by metis
  have "ll_rep (req_heap ?w2) (arbRequests e) []" using e(5) by (simp add: ll_rep_def)
  then have none: "nodes_of (req_heap ?w2) (arbRequests e) = {}" by (auto dest: nodes_of_rep)
  have new: "?k \<notin> fst ` set (cs_entries cs)" using assms(2) by (simp add: map_of_eq_None_iff)
  have rows': "rows_ok ?part ?s' taken qs (rows @ [(?a, e)]) (cs_entries (new_cell p cs))"
    using rows_extend [OF sim(3) _ _ i(2) q2 e(2-4) new sim2 none] by (simp add: new_cell_def)
  moreover have "store_ok ?s' qs" using mem i(2) q2 by (auto simp: store_ok_def heap_ok_def intro: less_trans)
  ultimately have "ctx_sim (c', ?s', taken) (new_cell p cs) qs"
    using i(3-5) sim(5) by (intro ctx_simI) (simp_all add: new_cell_def)
  moreover have "?k \<notin> entry_key ` snd ` set rows" using new rows_keys sim(3) unfolding rows_ok_def by metis
  then have "EsifArbCtx_LookupArbEntry_Locked (Some c') (par_primitiveId p) (par_domain p) (par_instance p) ?s'
      = Some (Some ?a, with_ref ?a e ?s')"
    using lookup_spec [OF i(3) rows'] find_row_last [OF _ e(4), of rows ?a] by (simp add: params_key_def)
  moreover have "unref_entry (Some ?a) (with_ref ?a e ?s') = Some ?s'" using e(2) by (intro unref_ref) simp_all
  ultimately show ?thesis using create i(4)
    by (intro exI [of _ ?a] exI [of _ c'] exI [of _ ?s'] exI [of _ "with_ref ?a e ?s'"] conjI)
qed

abbreviation key_supported :: "(esif_handle_t \<Rightarrow> u32 \<Rightarrow> u16 \<Rightarrow> u8 \<Rightarrow> bool) \<Rightarrow> EsifArbCtx \<Rightarrow> ctx_key \<Rightarrow> bool" where
  "key_supported supported c \<equiv> (\<lambda>(prim, dmn, inst). supported (ctx_participantId c) prim dmn inst)"

lemma create_and_step:
  assumes "ctx_sim (c, s, taken) cs qs" "op_ok x" "x \<noteq> Pull" "length qs + 2 \<le> 2 ^ 32 - 1"
  shows "\<exists>found c' s' qs' rc cs'. find_or_create supported unsupported_rc p c s = Some found
    \<and> use_entry (entry_fun x) found = Some (Some rc, Some c', s')
    \<and> create_and (key_supported supported c) unsupported_rc p x cs = (rc, cs')
    \<and> ctx_sim (c', s', taken) cs' qs' \<and> length qs' \<le> length qs + 2 \<and> ctx_participantId c' = ctx_participantId c"
proof -
  let ?k = "(par_primitiveId p, par_domain p, par_instance p)"
  have pk: "params_key p = ?k" by (simp add: params_key_def)
  from cell_step [OF assms, of "par_primitiveId p" "par_domain p" "par_instance p"] show ?thesis
  proof (elim disjE exE conjE)
    fix a s1 sp s2 s3 qs'
    assume a: "EsifArbCtx_LookupArbEntry_Locked (Some c) (par_primitiveId p) (par_domain p) (par_instance p) s = Some (Some a, s1)"
      "map_of (cs_entries cs) ?k = Some sp"
      "with_entry (Some a) (entry_fun x) s1 = Some (fst (cell_op x ?k sp cs), s2)" "unref_entry (Some a) s2 = Some s3"
      "ctx_sim (c, s3, taken) (snd (cell_op x ?k sp cs)) qs'" "length qs' \<le> length qs + 2"
    then show ?thesis
      by (intro exI [of _ "(Some ESIF_OK, Some a, c, s1)"] exI [of _ c] exI [of _ s3] exI [of _ qs']
          exI [of _ "fst (cell_op x ?k sp cs)"] exI [of _ "snd (cell_op x ?k sp cs)"])
        (simp add: find_or_create_def use_entry_def create_and_def pk)
  next
    assume none: "EsifArbCtx_LookupArbEntry_Locked (Some c) (par_primitiveId p) (par_domain p) (par_instance p) s = Some (None, s)"
      "map_of (cs_entries cs) ?k = None"
    show ?thesis
    proof (cases "key_supported supported c ?k")
      case False
      with none assms(1) show ?thesis
        by (intro exI [of _ "(Some unsupported_rc, None, c, s)"] exI [of _ c] exI [of _ s] exI [of _ qs]
            exI [of _ unsupported_rc] exI [of _ cs]) (simp add: find_or_create_def use_entry_def create_and_def pk)
    next
      case True
      from create_spec [OF assms(1), of p] none(2) pk obtain a c' s' s1 where
        c: "EsifArbCtx_CreateAndInsertEntry_Locked c p (ctx_participantId c) s = Some (Some ESIF_OK, Some a, c', s1)"
          "ctx_sim (c', s', taken) (new_cell p cs) qs"
          "EsifArbCtx_LookupArbEntry_Locked (Some c') (par_primitiveId p) (par_domain p) (par_instance p) s' = Some (Some a, s1)"
          "ctx_participantId c' = ctx_participantId c" by auto
      let ?sp = "spec_start p (cs_sent cs ?k)"
      have "map_of (cs_entries (new_cell p cs)) ?k = Some ?sp" using none(2) by (simp add: new_cell_def pk map_add_Some_iff)
      with cell_step [OF c(2) assms(2-4), of "par_primitiveId p" "par_domain p" "par_instance p"] c(3)
      obtain s2 s3 qs' where
        st: "with_entry (Some a) (entry_fun x) s1 = Some (fst (cell_op x ?k ?sp (new_cell p cs)), s2)"
          "unref_entry (Some a) s2 = Some s3" "ctx_sim (c', s3, taken) (snd (cell_op x ?k ?sp (new_cell p cs))) qs'"
          "length qs' \<le> length qs + 2" by auto
      have "find_or_create supported unsupported_rc p c s = Some (Some ESIF_OK, Some a, c', s1)"
        using none(1) True c(1) by (simp add: find_or_create_def)
      moreover have "create_and (key_supported supported c) unsupported_rc p x cs = cell_op x ?k ?sp (new_cell p cs)"
        using none(2) True by (simp add: create_and_def pk)
      ultimately show ?thesis using st c(4)
        by (intro exI [of _ "(Some ESIF_OK, Some a, c', s1)"] exI [of _ c'] exI [of _ s3] exI [of _ qs']
            exI [of _ "fst (cell_op x ?k ?sp (new_cell p cs))"] exI [of _ "snd (cell_op x ?k ?sp (new_cell p cs))"])
          (simp add: use_entry_def)
    qed
  qed
qed

section \<open>Steps of all arbiters\<close>

definition cells_from :: "arb_op \<Rightarrow> (ctx_key \<times> arb_spec) list \<Rightarrow> (ctx_key \<times> arb_spec) list \<Rightarrow> ctx_spec \<Rightarrow> ctx_spec" where
  "cells_from x C1 C2 cs = (let C = map (\<lambda>(k, s). (k, snd (spec_op x s))) C2 in
     cs\<lparr>cs_entries := C1 @ C, cs_sent := \<lambda>k. case map_of C k of Some s \<Rightarrow> sp_sent s | None \<Rightarrow> cs_sent cs k\<rparr>)"

lemma cells_from_all: "cells_from x [] (cs_entries cs) cs = all_cells x cs"
  by (simp add: cells_from_def all_cells_def)

lemma cells_from_Nil: "cs_entries cs = C1 \<Longrightarrow> cells_from x C1 [] cs = cs"
  by (cases cs) (auto simp: cells_from_def)

lemma cells_from_Cons:
  assumes "distinct (map fst (C1 @ (k, sp) # C2))" "cs_entries cs = C1 @ (k, sp) # C2"
  shows "cells_from x C1 ((k, sp) # C2) cs = cells_from x (C1 @ [(k, snd (spec_op x sp))]) C2 (snd (cell_op x k sp cs))"
    "cs_entries (snd (cell_op x k sp cs)) = (C1 @ [(k, snd (spec_op x sp))]) @ C2"
proof -
  have cs': "snd (cell_op x k sp cs) = cs\<lparr>cs_entries := C1 @ (k, snd (spec_op x sp)) # C2,
      cs_sent := (cs_sent cs)(k := sp_sent (snd (spec_op x sp)))\<rparr>"
    unfolding cell_op_def assms(2) replace_cell [OF assms(1)] by (simp add: case_prod_beta)
  then show "cs_entries (snd (cell_op x k sp cs)) = (C1 @ [(k, snd (spec_op x sp))]) @ C2" by simp
  from cs' have sent': "cs_sent (snd (cell_op x k sp cs)) = (cs_sent cs)(k := sp_sent (snd (spec_op x sp)))" by simp
  let ?C = "map (\<lambda>(k, s). (k, snd (spec_op x s))) C2"
  have "fst ` set ?C = fst ` set C2" by force
  then have "map_of ?C k = None" using assms(1) by (simp add: map_of_eq_None_iff)
  then have "(case map_of ((k, snd (spec_op x sp)) # ?C) k' of Some s \<Rightarrow> sp_sent s | None \<Rightarrow> cs_sent cs k')
      = (case map_of ?C k' of Some s \<Rightarrow> sp_sent s | None \<Rightarrow> ((cs_sent cs)(k := sp_sent (snd (spec_op x sp)))) k')" for k'
    by (cases "k' = k") (simp_all split: option.split)
  then show "cells_from x C1 ((k, sp) # C2) cs = cells_from x (C1 @ [(k, snd (spec_op x sp))]) C2 (snd (cell_op x k sp cs))"
    unfolding cells_from_def Let_def sent' by (simp add: cs' cong: option.case_cong)
qed

text \<open>An operation on a row without taking a reference.\<close>

lemma use_row_plain:
  assumes row: "row_ok part s taken qs (a, e) (k, sp)" and x: "op_ok x" "x \<noteq> Pull" "length qs + 2 \<le> 2 ^ 32 - 1"
  obtains e' w' qs' where "with_entry (Some a) (entry_fun x) s = Some (fst (spec_op x sp), upd_row a e' w' s)"
    "entry_frame e (st_world s) qs e' w' qs'" "simulates (e', w', taken) (snd (spec_op x sp)) qs'"
proof -
  have e: "entry_mem s a = Some e" "simulates (e, st_world s, taken) sp qs" using row by (simp_all add: row_ok_def)
  from sim_own [OF e(2) x(1,3,2)] obtain e' w' qs' where
    o: "entry_op x (e, st_world s, taken) = Some (fst (spec_op x sp), e', w', taken)"
      "simulates (e', w', taken) (snd (spec_op x sp)) qs'" "entry_frame e (st_world s) qs e' w' qs'" by blast
  have "entry_fun x (Some e) (st_world s) = Some (fst (spec_op x sp), Some e', w')" using o(1) entry_op_fun [OF x(2)] by simp
  with e(1) have "with_entry (Some a) (entry_fun x) s = Some (fst (spec_op x sp), upd_row a e' w' s)"
    by (simp add: with_entry_def entry_at_def put_entry_def upd_row_def)
  from that [OF this o(3,2)] show thesis .
qed

text \<open>The first row that is left, and what is left after a step of it.\<close>

lemma rows_head:
  assumes "ctx_rows (R1 @ (a, e) # R2) (c, s, taken) cs qs" "cs_entries cs = C1 @ C2" "length R1 = length C1"
  obtains k sp C3 where "C2 = (k, sp) # C3" "row_ok (ctx_participantId c) s taken qs (a, e) (k, sp)"
    "distinct (map fst (C1 @ (k, sp) # C3))"
proof -
  have ok: "list_all2 (row_ok (ctx_participantId c) s taken qs) (R1 @ (a, e) # R2) (C1 @ C2)" "distinct (map fst (C1 @ C2))"
    using assms(1,2) by (simp_all add: ctx_rows_def rows_ok_def)
  then have "list_all2 (row_ok (ctx_participantId c) s taken qs) ((a, e) # R2) C2" using assms(3) by (simp add: list_all2_append)
  then obtain k sp C3 where "C2 = (k, sp) # C3" "row_ok (ctx_participantId c) s taken qs (a, e) (k, sp)"
    by (auto simp: list_all2_Cons1)
  with that ok(2) show thesis by blast
qed

lemma rows_step:
  assumes "ctx_rows (R1 @ (a, e) # R2) (c, s, taken) cs qs" "cs_entries cs = C1 @ (k, sp) # C2" "length R1 = length C1"
    "entry_frame e (st_world s) qs e' w' qs'" "simulates (e', w', taken) (snd (spec_op x sp)) qs'"
  shows "ctx_rows ((R1 @ [(a, e')]) @ R2) (c, upd_row a e' w' s, taken) (snd (cell_op x k sp cs)) qs'"
proof -
  from assms(1) have sim: "store_ok s qs" "table_ok c (R1 @ (a, e) # R2)" "ctx_arbitrationEnabled c = cs_enabled cs"
    "rows_ok (ctx_participantId c) s taken qs (R1 @ (a, e) # R2) (C1 @ (k, sp) # C2)"
    "\<forall>k. last_sent_to (ctx_participantId c) k (taken @ qs) = cs_sent cs k"
    using assms(2) by (simp_all add: ctx_rows_def)
  from cell_update [OF sim(1-4) assms(3,2) sim(5) assms(4,5)] show ?thesis by simp
qed

lemma purge_rows:
  assumes "ctx_rows (R1 @ R2) (c, s, taken) cs qs" "cs_entries cs = C1 @ C2" "length R1 = length C1"
    "length qs + 2 * length R2 \<le> 2 ^ 32 - 1"
  shows "\<exists>s' qs'. purge_loop (map (\<lambda>r. Some (fst r)) R2) s = Some s'
    \<and> ctx_sim (c, s', taken) (cells_from Purge C1 C2 cs) qs' \<and> length qs' \<le> length qs + 2 * length R2"
  using assms
proof (induction R2 arbitrary: R1 C1 C2 s cs qs)
  case Nil
  then have "length (cs_entries cs) = length R1" by (auto simp: ctx_rows_def rows_ok_def dest: list_all2_lengthD)
  then have "C2 = []" using Nil by simp
  with Nil show ?case by (auto simp: cells_from_Nil ctx_sim_def)
next
  case (Cons r R2)
  obtain a e where r: "r = (a, e)" by (cases r)
  obtain k sp C3 where c: "C2 = (k, sp) # C3" "row_ok (ctx_participantId c) s taken qs (a, e) (k, sp)"
    "distinct (map fst (C1 @ (k, sp) # C3))"
    by (rule rows_head [OF Cons.prems(1) [unfolded r] Cons.prems(2,3)])
  have x: "op_ok Purge" "Purge \<noteq> Pull" "length qs + 2 \<le> 2 ^ 32 - 1" using Cons.prems(4) by simp_all
  obtain e' w' qs1 where
    u: "with_entry (Some a) (entry_fun Purge) s = Some (fst (spec_op Purge sp), upd_row a e' w' s)"
      "entry_frame e (st_world s) qs e' w' qs1" "simulates (e', w', taken) (snd (spec_op Purge sp)) qs1"
    by (rule use_row_plain [OF c(2) x])
  note cs = Cons.prems(2) [unfolded c(1)]
  note step = rows_step [OF Cons.prems(1) [unfolded r] cs Cons.prems(3) u(2,3)]
  note cf = cells_from_Cons [OF c(3) cs, of Purge]
  have len: "length (R1 @ [(a, e')]) = length (C1 @ [(k, snd (spec_op Purge sp))])" using Cons.prems(3) by simp
  have "length qs1 + 2 * length R2 \<le> 2 ^ 32 - 1" using entry_frame_length [OF u(2)] Cons.prems(4) by simp
  from Cons.IH [OF step cf(2) len this] obtain s' qs' where
    "purge_loop (map (\<lambda>r. Some (fst r)) R2) (upd_row a e' w' s) = Some s'"
    "ctx_sim (c, s', taken) (cells_from Purge C1 C2 cs) qs'" "length qs' \<le> length qs1 + 2 * length R2"
    unfolding c(1) cf(1) by blast
  with u(1) r entry_frame_length [OF u(2)] show ?case by auto
qed

section \<open>Iterating over the rows\<close>

text \<open>
  An iterator in front of row \<open>i\<close>: new, or valid at the row before, on which it still holds the reference
  that is given back when it moves on; \<open>s\<close> is the store without that reference.
\<close>

definition iter_before :: "nat \<Rightarrow> EsifArbEntryIterator \<Rightarrow> arb_store \<Rightarrow> arb_store \<Rightarrow> bool" where
  "iter_before i it s0 s \<longleftrightarrow> iter_marker it
     \<and> (if iter_valid it then i = Suc (iter_index it) \<and> unref_entry (iter_entryPtr it) s0 = Some s
        else i = iter_index it \<and> s0 = s)"

lemma new_iterator_before: "iter_before 0 new_iterator s s"
  by (simp add: iter_before_def new_iterator_def EsifArbCtx_InitEntryIterator_def)

lemma next_entry_spec:
  assumes "table_ok c (R1 @ R2)" "\<forall>(a, e)\<in>set R2. entry_mem s a = Some e \<and> at_rest e" "iter_index it = length R1"
  shows "next_entry_loop (numEntries c - iter_index it) c it out s
    = Some (case R2 of [] \<Rightarrow> (ESIF_E_ITERATION_DONE, it, out, s)
        | (a, e) # _ \<Rightarrow> (ESIF_OK, it\<lparr>iter_entryPtr := Some a, iter_valid := True\<rparr>, Some a, with_ref a e s))"
proof (cases R2)
  case Nil
  with assms show ?thesis by (auto simp: table_ok_def)
next
  case (Cons r R3)
  obtain a e where r: "r = (a, e)" by (cases r)
  have "numEntries c - iter_index it = Suc (length R3)" "entriesPtr c ! iter_index it = Some a" "iter_index it < length (entriesPtr c)"
    using assms(1,3) Cons r by (auto simp: table_ok_def nth_append)
  moreover have "ref_entry (Some a) s = Some (ESIF_OK, with_ref a e s)" using assms(2) Cons r by (intro ref_row) auto
  ultimately show ?thesis using Cons r by (simp add: Let_def)
qed

lemma next_row_spec:
  assumes "ctx_rows (R1 @ R2) (c, s, taken) cs qs" "iter_before (length R1) it s0 s"
  shows "\<exists>it'. EsifArbCtx_GetNextEntry (Some c) it out s0
      = Some (case R2 of [] \<Rightarrow> (ESIF_E_ITERATION_DONE, it', out, s) | (a, e) # _ \<Rightarrow> (ESIF_OK, it', Some a, with_ref a e s))
    \<and> (\<forall>a e R3 s1 s2. R2 = (a, e) # R3 \<longrightarrow> unref_entry (Some a) s1 = Some s2 \<longrightarrow> iter_before (Suc (length R1)) it' s1 s2)"
proof -
  from assms(1) have ok: "table_ok c (R1 @ R2)" "rows_ok (ctx_participantId c) s taken qs (R1 @ R2) (cs_entries cs)"
    by (simp_all add: ctx_rows_def)
  have rest: "\<forall>(a, e)\<in>set R2. entry_mem s a = Some e \<and> at_rest e" using rows_at_rest [OF ok(2)] by simp
  let ?it = "if iter_valid it then it\<lparr>iter_index := Suc (iter_index it), iter_entryPtr := None, iter_valid := False\<rparr> else it"
  have it: "iter_index ?it = length R1" "iter_marker ?it" using assms(2) by (auto simp: iter_before_def split: if_splits)
  have "EsifArbCtx_GetNextEntry (Some c) it out s0 = next_entry_loop (numEntries c - iter_index ?it) c ?it out s"
    using assms(2) by (auto simp: EsifArbCtx_GetNextEntry_def iter_before_def split: if_splits)
  also note next_entry_spec [OF ok(1) rest it(1)]
  finally show ?thesis using it
    by (intro exI [of _ "case R2 of [] \<Rightarrow> ?it | (a, e) # _ \<Rightarrow> ?it\<lparr>iter_entryPtr := Some a, iter_valid := True\<rparr>"])
      (auto simp: iter_before_def split: list.split)
qed

lemma remove_app_rows:
  assumes "ctx_rows (R1 @ R2) (c, s, taken) cs qs" "cs_entries cs = C1 @ C2" "length R1 = length C1"
    "length qs + 2 * length R2 \<le> 2 ^ 32 - 1" "iter_before (length R1) it s0 s"
  shows "\<exists>s' qs'. remove_app_entries (Suc (length R2)) c app it out s0 = Some s'
    \<and> ctx_sim (c, s', taken) (cells_from (Withdraw app) C1 C2 cs) qs' \<and> length qs' \<le> length qs + 2 * length R2"
  using assms
proof (induction R2 arbitrary: R1 C1 C2 s cs qs it out s0)
  case Nil
  then have "length (cs_entries cs) = length R1" by (auto simp: ctx_rows_def rows_ok_def dest: list_all2_lengthD)
  then have "C2 = []" using Nil by simp
  moreover obtain it' where "EsifArbCtx_GetNextEntry (Some c) it out s0 = Some (ESIF_E_ITERATION_DONE, it', out, s)"
    using next_row_spec [OF Nil.prems(1,5), of out] by auto
  ultimately show ?case using Nil.prems(1,2) by (auto simp: cells_from_Nil ctx_sim_def)
next
  case (Cons r R2)
  obtain a e where r: "r = (a, e)" by (cases r)
  let ?x = "Withdraw app"
  from next_row_spec [OF Cons.prems(1,5), of out] obtain it' where
    g: "EsifArbCtx_GetNextEntry (Some c) it out s0 = Some (ESIF_OK, it', Some a, with_ref a e s)"
      "\<forall>s1 s2. unref_entry (Some a) s1 = Some s2 \<longrightarrow> iter_before (Suc (length R1)) it' s1 s2" by (auto simp: r)
  obtain k sp C3 where c: "C2 = (k, sp) # C3" "row_ok (ctx_participantId c) s taken qs (a, e) (k, sp)"
    "distinct (map fst (C1 @ (k, sp) # C3))"
    by (rule rows_head [OF Cons.prems(1) [unfolded r] Cons.prems(2,3)])
  have x: "op_ok ?x" "?x \<noteq> Pull" "length qs + 2 \<le> 2 ^ 32 - 1" using Cons.prems(4) by simp_all
  obtain e' w' qs1 s2 where
    u: "with_entry (Some a) (entry_fun ?x) (with_ref a e s) = Some (fst (spec_op ?x sp), s2)"
      "unref_entry (Some a) s2 = Some (upd_row a e' w' s)"
      "entry_frame e (st_world s) qs e' w' qs1" "simulates (e', w', taken) (snd (spec_op ?x sp)) qs1"
    by (rule use_row [OF c(2) x])
  note cs = Cons.prems(2) [unfolded c(1)]
  note step = rows_step [OF Cons.prems(1) [unfolded r] cs Cons.prems(3) u(3,4)]
  note cf = cells_from_Cons [OF c(3) cs, of ?x]
  have len: "length (R1 @ [(a, e')]) = length (C1 @ [(k, snd (spec_op ?x sp))])" using Cons.prems(3) by simp
  have len1: "length qs1 + 2 * length R2 \<le> 2 ^ 32 - 1" using entry_frame_length [OF u(3)] Cons.prems(4) by simp
  have "iter_before (length (R1 @ [(a, e')])) it' s2 (upd_row a e' w' s)" using g(2) u(2) by simp
  from Cons.IH [OF step cf(2) len len1 this, of "Some a"] obtain s' qs' where
    "remove_app_entries (Suc (length R2)) c app it' (Some a) s2 = Some s'"
    "ctx_sim (c, s', taken) (cells_from ?x C1 C2 cs) qs'" "length qs' \<le> length qs1 + 2 * length R2"
    unfolding c(1) cf(1) by blast
  with u(1) g(1) entry_frame_length [OF u(3)] show ?case by auto
qed

section \<open>Stopping an arbiter\<close>

lemma first_index_row:
  "distinct (map fst (R1 @ (a, e) # R2)) \<Longrightarrow>
   first_index (\<lambda>x. x = Some a) (map (\<lambda>r. Some (fst r)) (R1 @ (a, e) # R2)) = Some (length R1)"
  by (induction R1) auto

lemma remove_cell_spec:
  assumes "table_ok c (R1 @ (a, e) # R2)" "distinct (map fst (R1 @ (a, e) # R2))"
  shows "if length R2 \<le> 1
    then \<exists>c'. remove_cell (Some a) c = Some c' \<and> table_ok c' (R1 @ R2)
      \<and> ctx_participantId c' = ctx_participantId c \<and> ctx_arbitrationEnabled c' = ctx_arbitrationEnabled c
    else remove_cell (Some a) c = None"
proof -
  let ?f = "\<lambda>r::addr \<times> EsifArbEntry. Some (fst r)"
  from assms(1) obtain rest where c: "entriesPtr c = map ?f (R1 @ (a, e) # R2) @ rest" "numEntries c = length (R1 @ (a, e) # R2)"
    "length (entriesPtr c) = entryCapacity c" by (auto simp: table_ok_def)
  have tk: "take (numEntries c) (entriesPtr c) = map ?f (R1 @ (a, e) # R2)" using c(1,2) by simp
  have arr: "(entriesPtr c)[length R1 := None] = map ?f R1 @ None # map ?f R2 @ rest" using c(1) by (simp add: list_update_append)
  let ?arr = "map ?f R1 @ None # map ?f R2 @ rest" and ?n = "Suc (length R1 + length R2)"
  let ?c' = "c\<lparr>entriesPtr := take (length R1) ?arr @ drop (Suc (length R1)) (take ?n ?arr)
      @ drop (?n - 1) ?arr, numEntries := ?n - 1\<rparr>"
  have r: "remove_cell (Some a) c = (if length R2 \<le> 1 then Some ?c' else None)"
    unfolding remove_cell_def tk first_index_row [OF assms(2)] by (auto simp: arr c(2) Let_def)
  have "take (length R1) ?arr = map ?f R1" "drop (Suc (length R1)) (take ?n ?arr) = map ?f R2" by simp_all
  moreover have "length ?arr = entryCapacity c" using c(1,3) by simp
  ultimately have "table_ok ?c' (R1 @ R2)" by (auto simp: table_ok_def)
  then show ?thesis unfolding r by (cases "length R2 \<le> 1") (simp_all add: exI [of _ ?c'])
qed

lemma shrink_spec:
  assumes "table_ok c rows"
  shows "\<exists>c' n. shrink_table c s = (c', s\<lparr>st_world := (st_world s)\<lparr>req_heap := (req_heap (st_world s))\<lparr>next_addr := n\<rparr>\<rparr>\<rparr>)
    \<and> next_addr (req_heap (st_world s)) \<le> n \<and> table_ok c' rows
    \<and> ctx_participantId c' = ctx_participantId c \<and> ctx_arbitrationEnabled c' = ctx_arbitrationEnabled c"
proof -
  let ?nx = "next_addr (req_heap (st_world s))"
  have same: "s\<lparr>st_world := (st_world s)\<lparr>req_heap := (req_heap (st_world s))\<lparr>next_addr := ?nx\<rparr>\<rparr>\<rparr> = s" by simp
  consider (keep) "\<not> entryCapacity c - numEntries c > 10" | (free) "entryCapacity c - numEntries c > 10" "numEntries c = 0"
    | (cut) "entryCapacity c - numEntries c > 10" "numEntries c \<noteq> 0" by blast
  then show ?thesis
  proof cases
    case keep
    then have "shrink_table c s = (c, s)" by (simp add: shrink_table_def)
    with assms same show ?thesis by (intro exI [of _ c] exI [of _ ?nx]) simp
  next
    case free
    then have "shrink_table c s = (c\<lparr>entriesPtr := [], entryCapacity := 0\<rparr>, s)" by (simp add: shrink_table_def)
    moreover have "table_ok (c\<lparr>entriesPtr := [], entryCapacity := 0\<rparr>) rows" using assms free by (auto simp: table_ok_def)
    ultimately show ?thesis using same by (intro exI [of _ "c\<lparr>entriesPtr := [], entryCapacity := 0\<rparr>"] exI [of _ ?nx]) simp
  next
    case cut
    let ?c = "c\<lparr>entriesPtr := take (entryCapacity c - 10) (entriesPtr c), entryCapacity := entryCapacity c - 10\<rparr>"
    have "table_ok ?c rows" using assms cut(1) by (auto simp: table_ok_def)
    with assms cut show ?thesis
      by (cases "alloc_ok (req_heap (st_world s)) ?nx")
        (auto simp: shrink_table_def esif_ccb_malloc_def Let_def intro!: exI [of _ "Suc ?nx"])
  qed
qed

lemma rows_next:
  assumes "rows_ok part s taken qs rows cells" "req_heap w' = (req_heap (st_world s))\<lparr>next_addr := n\<rparr>"
    "next_addr (req_heap (st_world s)) \<le> n" "mgr_queue w' qs"
  shows "rows_ok part (s\<lparr>st_world := w'\<rparr>) taken qs rows cells"
proof -
  have "row_ok part (s\<lparr>st_world := w'\<rparr>) taken qs r c" if "row_ok part s taken qs r c" for r c
    using that assms(2,3) simulates_next [OF _ assms(2-4)] by (cases r; cases c) (auto simp: row_ok_def)
  then have "list_all2 (row_ok part (s\<lparr>st_world := w'\<rparr>) taken qs) rows cells"
    using assms(1) by (auto simp: rows_ok_def elim: list.rel_mono_strong)
  with assms(1,2) show ?thesis by (simp add: rows_ok_def)
qed

lemma rows_drop:
  assumes "rows_ok part s taken qs (R1 @ (a, e) # R2) (C1 @ (k, sp) # C2)" "length R1 = length C1"
  shows "rows_ok part (s\<lparr>entry_mem := (entry_mem s)(a := None)\<rparr>) taken qs (R1 @ R2) (C1 @ C2)"
proof -
  let ?s = "s\<lparr>entry_mem := (entry_mem s)(a := None)\<rparr>"
  from assms have all: "list_all2 (row_ok part s taken qs) (R1 @ R2) (C1 @ C2)" by (simp add: rows_ok_def list_all2_append)
  have "a \<notin> fst ` set (R1 @ R2)" using assms(1) by (auto simp: rows_ok_def)
  then have "row_ok part ?s taken qs r c" if "row_ok part s taken qs r c" "r \<in> set (R1 @ R2)" for r c
    using that by (cases r; cases c) (force simp: row_ok_def)
  with all have "list_all2 (row_ok part ?s taken qs) (R1 @ R2) (C1 @ C2)" by (rule_tac list.rel_mono_strong [OF all]) blast
  moreover have "row_nodes ?s r \<inter> row_nodes ?s r' = {}" if "r \<in> set (R1 @ R2)" "r' \<in> set (R1 @ R2)" "fst r \<noteq> fst r'" for r r'
  proof -
    have "r \<in> set (R1 @ (a, e) # R2)" "r' \<in> set (R1 @ (a, e) # R2)" using that by auto
    moreover have "\<forall>r\<in>set (R1 @ (a, e) # R2). \<forall>r'\<in>set (R1 @ (a, e) # R2). fst r \<noteq> fst r' \<longrightarrow> row_nodes s r \<inter> row_nodes s r' = {}"
      using assms(1) unfolding rows_ok_def by (elim conjE)
    ultimately have "row_nodes s r \<inter> row_nodes s r' = {}" using that(3) by blast
    then show ?thesis by simp
  qed
  moreover have "distinct (map fst (R1 @ R2))" "distinct (map fst (C1 @ C2))" using assms(1) by (simp_all add: rows_ok_def)
  ultimately show ?thesis unfolding rows_ok_def by blast
qed


lemma destroy_purged:
  assumes "EsifArbEntry_PurgeRequests_Locked (Some e) w = Some (Some e', w')" "at_rest e" "entry_mem s a = Some e" "st_world s = w"
  shows "destroy_entry (Some a) s = Some (True, s\<lparr>st_world := w', entry_mem := (entry_mem s)(a := None)\<rparr>)"
proof -
  from assms(1) obtain l h r where f: "esif_link_list_free_data (Some (arbRequests e)) True (req_heap w) = Some (l, h, r)"
    "w' = w\<lparr>req_heap := h\<rparr>" by (auto simp: EsifArbEntry_PurgeRequests_Locked_def elim!: bind_eq_SomeE)
  then have "EsifArbEntry_Destroy (Some e) w = Some (None, w')"
    using assms(2) by (simp add: EsifArbEntry_Destroy_def EsifArbEntry_PutRef_def at_rest_def Let_def)
  with assms(3,4) show ?thesis by (simp add: destroy_entry_def entry_at_def put_entry_def)
qed

lemma stop_entry_spec:
  assumes "ctx_rows (R1 @ (a, e) # R2) (c, s, taken) cs qs" "cs_entries cs = C1 @ (k, sp) # C2" "length R1 = length C1"
  shows "if length R2 \<le> 1
    then \<exists>c' s'. stop_entry c (Some a) (with_ref a e s) = Some (Some ESIF_OK, Some c', s')
      \<and> ctx_sim (c', s', taken) (cs\<lparr>cs_entries := C1 @ C2\<rparr>) qs \<and> ctx_participantId c' = ctx_participantId c
    else stop_entry c (Some a) (with_ref a e s) = None"
proof (cases "length R2 \<le> 1")
  case few: True
  let ?part = "ctx_participantId c"
  from assms(1,2) have sim: "store_ok s qs" "table_ok c (R1 @ (a, e) # R2)" "ctx_arbitrationEnabled c = cs_enabled cs"
    "rows_ok ?part s taken qs (R1 @ (a, e) # R2) (C1 @ (k, sp) # C2)"
    "\<forall>k. last_sent_to ?part k (taken @ qs) = cs_sent cs k" by (simp_all add: ctx_rows_def)
  have e: "entry_mem s a = Some e" "at_rest e" using rows_at_rest [OF sim(4)] by auto
  have "distinct (map fst (R1 @ (a, e) # R2))" using sim(4) by (simp add: rows_ok_def)
  from remove_cell_spec [OF sim(2) this] few obtain c1 where
    rc: "table_ok c1 (R1 @ R2)" "ctx_participantId c1 = ctx_participantId c" "ctx_arbitrationEnabled c1 = ctx_arbitrationEnabled c"
      "remove_cell (Some a) c = Some c1" by auto
  from shrink_spec [OF rc(1), of "with_ref a e s"] obtain c' n where
    sh: "shrink_table c1 (with_ref a e s)
        = (c', (with_ref a e s)\<lparr>st_world := (st_world s)\<lparr>req_heap := (req_heap (st_world s))\<lparr>next_addr := n\<rparr>\<rparr>\<rparr>)"
      "next_addr (req_heap (st_world s)) \<le> n" "table_ok c' (R1 @ R2)" "ctx_participantId c' = ?part"
      "ctx_arbitrationEnabled c' = cs_enabled cs" using rc(2,3) sim(3) by (auto simp: with_ref_def)
  let ?w1 = "(st_world s)\<lparr>req_heap := (req_heap (st_world s))\<lparr>next_addr := n\<rparr>\<rparr>"
  let ?s1 = "s\<lparr>st_world := ?w1\<rparr>"
  have wr: "(with_ref a e s)\<lparr>st_world := ?w1\<rparr> = with_ref a e ?s1" by (simp add: with_ref_def)
  have q: "mgr_queue ?w1 qs" using sim(1) by (simp add: store_ok_def)
  have rows1: "rows_ok ?part ?s1 taken qs (R1 @ (a, e) # R2) (C1 @ (k, sp) # C2)"
    by (rule rows_next [OF sim(4) _ sh(2) q]) simp
  then have "simulates (e, ?w1, taken) sp qs" using assms(3) by (simp add: rows_ok_def list_all2_append row_ok_def)
  from sim_cleared [OF this, of "arbitrationEnabled e"] obtain e' w' where
    p: "EsifArbEntry_PurgeRequests_Locked (Some e) ?w1 = Some (Some e', w')"
      "simulates (e', w', taken) (sp\<lparr>sp_enabled := arbitrationEnabled e, sp_pending := []\<rparr>) qs"
      "entry_frame e ?w1 qs e' w' qs" by auto
  have st1: "entry_mem ?s1 a = Some e" "st_world ?s1 = ?w1" using e(1) by simp_all
  let ?s' = "?s1\<lparr>st_world := w', entry_mem := (entry_mem ?s1)(a := None)\<rparr>"
  have stop: "stop_entry c (Some a) (with_ref a e s) = Some (Some ESIF_OK, Some c', ?s')"
    using unref_ref [OF st1(1) e(2)] destroy_purged [OF p(1) e(2) st1]
    by (simp add: stop_entry_def EsifArbCtx_RemoveArbEntry_Locked_def rc(4) sh(1) wr)
  have frame: "entry_frame e (st_world ?s1) qs e' w' qs" using p(3) by simp
  from rows_drop [OF rows_update [OF rows1 assms(3) this p(2)] assms(3)]
  have "rows_ok ?part ?s' taken qs (R1 @ R2) (C1 @ C2)" by (simp add: upd_row_def)
  moreover have "store_ok ?s1 qs" using sim(1) sh(2) q by (auto simp: store_ok_def heap_ok_def intro: less_le_trans)
  from store_frame [OF this frame p(2), of a] have "store_ok ?s' qs" by (simp add: store_ok_def)
  ultimately have "ctx_sim (c', ?s', taken) (cs\<lparr>cs_entries := C1 @ C2\<rparr>) qs" using sh(3-5) sim(5)
    by (intro ctx_simI [where rows = "R1 @ R2"]) simp_all
  with few stop sh(4) show ?thesis by auto
next
  case False
  from assms(1,2) have sim: "table_ok c (R1 @ (a, e) # R2)" "distinct (map fst (R1 @ (a, e) # R2))"
    by (simp_all add: ctx_rows_def rows_ok_def)
  from remove_cell_spec [OF this] False show ?thesis by (simp add: stop_entry_def EsifArbCtx_RemoveArbEntry_Locked_def)
qed

text \<open>What a stop needs: at most one entry behind the one that is removed.\<close>

definition stop_ok :: "ctx_key \<Rightarrow> (ctx_key \<times> 'a) list \<Rightarrow> bool" where
  "stop_ok k cells \<longleftrightarrow> length (dropWhile (\<lambda>c. fst c \<noteq> k) cells) \<le> 2"

lemma stop_ok_absent: "k \<notin> fst ` set cells \<Longrightarrow> stop_ok k cells"
proof -
  assume "k \<notin> fst ` set cells"
  then have "dropWhile (\<lambda>c. fst c \<noteq> k) cells = []" by (simp only: dropWhile_eq_Nil_conv) auto
  then show ?thesis by (simp only: stop_ok_def) simp
qed

lemma stop_ok_at: "k \<notin> fst ` set C1 \<Longrightarrow> stop_ok k (C1 @ (k, sp) # C2) \<longleftrightarrow> length C2 \<le> 1"
proof -
  assume "k \<notin> fst ` set C1"
  then have "dropWhile (\<lambda>c. fst c \<noteq> k) (C1 @ (k, sp) # C2) = (k, sp) # C2" by (subst dropWhile_append2) auto
  then show ?thesis by (simp add: stop_ok_def)
qed

lemma stop_loop_spec:
  assumes "ctx_rows (R1 @ R2) (c, s, taken) cs qs" "cs_entries cs = C1 @ C2" "length R1 = length C1"
    "iter_before (length R1) it s0 s" "(prim, dmn, inst) \<notin> fst ` set C1"
  shows "if stop_ok (prim, dmn, inst) (cs_entries cs)
    then \<exists>c' s'. stop_loop (Suc (length R2)) c prim dmn inst it out s0
        = Some (Some (fst (ctx_spec_op avail (CtxStop (prim, dmn, inst)) cs)), Some c', s')
      \<and> ctx_sim (c', s', taken) (snd (ctx_spec_op avail (CtxStop (prim, dmn, inst)) cs)) qs \<and> ctx_participantId c' = ctx_participantId c
    else stop_loop (Suc (length R2)) c prim dmn inst it out s0 = None"
  using assms
proof (induction R2 arbitrary: R1 C1 C2 s it out s0)
  case Nil
  then have "length (cs_entries cs) = length R1" by (auto simp: ctx_rows_def rows_ok_def dest: list_all2_lengthD)
  then have "cs_entries cs = C1" using Nil by simp
  with Nil.prems(5) have "map_of (cs_entries cs) (prim, dmn, inst) = None" by (simp add: map_of_eq_None_iff)
  moreover obtain it' where "EsifArbCtx_GetNextEntry (Some c) it out s0 = Some (ESIF_E_ITERATION_DONE, it', out, s)"
    using next_row_spec [OF Nil.prems(1,4), of out] by auto
  moreover have "stop_ok (prim, dmn, inst) (cs_entries cs)"
    using Nil.prems(5) \<open>cs_entries cs = C1\<close> by (simp add: stop_ok_absent)
  ultimately show ?case using Nil.prems(1) by (auto simp: ctx_sim_def)
next
  case (Cons r R2)
  let ?k = "(prim, dmn, inst)"
  obtain a e where r: "r = (a, e)" by (cases r)
  from next_row_spec [OF Cons.prems(1,4), of out] obtain it' where
    g: "EsifArbCtx_GetNextEntry (Some c) it out s0 = Some (ESIF_OK, it', Some a, with_ref a e s)"
      "\<forall>s1 s2. unref_entry (Some a) s1 = Some s2 \<longrightarrow> iter_before (Suc (length R1)) it' s1 s2" by (auto simp: r)
  obtain k sp C3 where c: "C2 = (k, sp) # C3" "row_ok (ctx_participantId c) s taken qs (a, e) (k, sp)"
    "distinct (map fst (C1 @ (k, sp) # C3))"
    by (rule rows_head [OF Cons.prems(1) [unfolded r] Cons.prems(2,3)])
  have e: "entry_mem s a = Some e" "at_rest e" "entry_key e = k" using c(2) by (simp_all add: row_ok_def)
  have at: "entry_at (Some a) (with_ref a e s) = Some (Some (e\<lparr>refCount := refCount e + 1\<rparr>))"
    by (simp add: entry_at_def with_ref_def)
  have key: "entry_key (e\<lparr>refCount := refCount e + 1\<rparr>) = k" using e(3) by (simp add: entry_key_def)
  show ?case
  proof (cases "k = ?k")
    case True
    have "filter (\<lambda>x. fst x \<noteq> k) C = C" if "k \<notin> fst ` set C" for C :: "(ctx_key \<times> arb_spec) list"
      using that by (induction C) auto
    then have f: "filter (\<lambda>x. fst x \<noteq> ?k) (cs_entries cs) = C1 @ C3" "map_of (cs_entries cs) ?k \<noteq> None"
      using c(1,3) Cons.prems(2) True by auto
    have "length (cs_entries cs) = length (R1 @ r # R2)"
      using Cons.prems(1) by (auto simp: ctx_rows_def rows_ok_def dest: list_all2_lengthD)
    then have behind: "length C3 = length R2" using Cons.prems(2,3) c(1) by simp
    have ok: "stop_ok ?k (cs_entries cs) \<longleftrightarrow> length R2 \<le> 1"
      using stop_ok_at [OF Cons.prems(5), of sp C3] Cons.prems(2) c(1) True behind by simp
    note st = stop_entry_spec [OF Cons.prems(1) [unfolded r] Cons.prems(2) [unfolded c(1)] Cons.prems(3)]
    show ?thesis
    proof (cases "length R2 \<le> 1")
      case few: True
      from st few obtain c' s' where
        "stop_entry c (Some a) (with_ref a e s) = Some (Some ESIF_OK, Some c', s')"
        "ctx_sim (c', s', taken) (cs\<lparr>cs_entries := C1 @ C3\<rparr>) qs" "ctx_participantId c' = ctx_participantId c" by auto
      with f g(1) at key True ok few show ?thesis by (auto simp: matching split: option.split)
    next
      case many: False
      with st have "stop_entry c (Some a) (with_ref a e s) = None" by simp
      with g(1) at key True ok many show ?thesis by (simp add: matching)
    qed
  next
    case False
    have rows: "ctx_rows ((R1 @ [r]) @ R2) (c, s, taken) cs qs" "cs_entries cs = (C1 @ [(k, sp)]) @ C3"
      "length (R1 @ [r]) = length (C1 @ [(k, sp)])" "?k \<notin> fst ` set (C1 @ [(k, sp)])"
      using Cons.prems c(1) False by auto
    have "iter_before (length (R1 @ [r])) it' (with_ref a e s) s" using g(2) unref_ref [OF e(1,2)] by simp
    note ih = Cons.IH [OF rows(1-3) this rows(4), of "Some a"]
    have "stop_loop (Suc (length (r # R2))) c prim dmn inst it out s0
        = stop_loop (Suc (length R2)) c prim dmn inst it' (Some a) (with_ref a e s)"
      by (subst stop_loop.simps(2)) (simp add: g(1) at key False matching del: stop_loop.simps)
    with ih show ?thesis by (simp only:)
  qed
qed

section \<open>The queue thread\<close>

lemma last_sent_to_None [simp]: "last_sent_to part k (xs @ [None]) = last_sent_to part k xs"
  by (simp add: last_sent_to_def)

lemma ctx_pull:
  assumes "ctx_sim (c, s, taken) cs qs"
  shows "\<exists>st' qs'. ctx_conc_op supported CtxPull (c, s, taken) = Some (ESIF_OK, c, st') \<and> ctx_sim (c, st') cs qs'
    \<and> length qs' \<le> length qs"
proof -
  from assms obtain rows where
    sim: "store_ok s qs" "table_ok c rows" "rows_ok (ctx_participantId c) s taken qs rows (cs_entries cs)"
      "ctx_arbitrationEnabled c = cs_enabled cs" "\<forall>k. last_sent_to (ctx_participantId c) k (taken @ qs) = cs_sent cs k"
    by (rule ctx_simE)
  have "mgr_queue (st_world s) qs" using sim(1) by (simp add: store_ok_def)
  from mgr_pull [OF this] obtain r q h qs' where
    p: "esif_queue_pull (primitiveQueuePtr (g_arbMgr (st_world s))) (prim_heap (st_world s)) = Some (r, q, h)"
      "mgr_queue (upd_queue q (st_world s)\<lparr>prim_heap := h\<rparr>) qs'" "qs' = (case r of Blocked \<Rightarrow> qs | Pulled _ \<Rightarrow> tl qs)"
      "r = (case r of Blocked \<Rightarrow> Blocked | Pulled _ \<Rightarrow> Pulled (case qs of [] \<Rightarrow> None | x # _ \<Rightarrow> x))" by blast
  let ?w = "upd_queue q (st_world s)\<lparr>prim_heap := h\<rparr>" and ?taken = "case r of Blocked \<Rightarrow> taken | Pulled d \<Rightarrow> taken @ [d]"
  have sent: "last_sent_to part k (?taken @ qs') = last_sent_to part k (taken @ qs)" for part k
    using p(3,4) by (cases r; cases qs) auto
  have "row_ok part (s\<lparr>st_world := ?w\<rparr>) ?taken qs' x y" if "row_ok part s taken qs x y" for part x y
    using that p(2) sent by (cases x; cases y) (simp add: row_ok_def simulates_def last_sent_to)
  then have "rows_ok (ctx_participantId c) (s\<lparr>st_world := ?w\<rparr>) ?taken qs' rows (cs_entries cs)"
    using sim(3) by (auto simp: rows_ok_def elim: list.rel_mono_strong)
  then have "ctx_sim (c, s\<lparr>st_world := ?w\<rparr>, ?taken) cs qs'"
    using sim p(2) sent by (intro ctx_simI) (auto simp: store_ok_def)
  moreover have "length qs' \<le> length qs" using p(3) by (cases r) auto
  ultimately show ?thesis using p(1) by auto
qed

section \<open>The refinement\<close>

fun ctx_op_ok :: "ctx_op \<Rightarrow> bool" where
  "ctx_op_ok (CtxRequest k app d) = data_ok d"
| "ctx_op_ok _ = True"

text \<open>Stops are the operations that C may leave undefined.\<close>

fun ctx_op_defined :: "ctx_op \<Rightarrow> ctx_spec \<Rightarrow> bool" where
  "ctx_op_defined (CtxStop k) cs = stop_ok k (cs_entries cs)"
| "ctx_op_defined _ cs = True"

text \<open>What an operation may add to the queue: two requests for each entry, and for a new one.\<close>

abbreviation ctx_cost :: "ctx_spec \<Rightarrow> nat" where
  "ctx_cost cs \<equiv> 2 * Suc (length (cs_entries cs))"

definition ctx_refines ::
    "(esif_handle_t \<Rightarrow> u32 \<Rightarrow> u16 \<Rightarrow> u8 \<Rightarrow> bool) \<Rightarrow> ctx_op \<Rightarrow> ctx_state \<Rightarrow> ctx_spec \<Rightarrow> EsifArbPrimReq option list \<Rightarrow> bool" where
  "ctx_refines supported x st cs qs \<longleftrightarrow> (\<exists>st' qs'.
     ctx_conc_op supported x st = Some (fst (ctx_spec_op (key_supported supported (fst st)) x cs), st')
     \<and> ctx_sim st' (snd (ctx_spec_op (key_supported supported (fst st)) x cs)) qs'
     \<and> length qs' \<le> length qs + ctx_cost cs \<and> ctx_participantId (fst st') = ctx_participantId (fst st))"

lemma ctx_refinesI:
  assumes "ctx_conc_op supported x (c, s, taken) = Some (rc, c', s', taken')"
    "ctx_spec_op (key_supported supported c) x cs = (rc, cs')" "ctx_sim (c', s', taken') cs' qs'"
    "length qs' \<le> length qs + ctx_cost cs" "ctx_participantId c' = ctx_participantId c"
  shows "ctx_refines supported x (c, s, taken) cs qs"
  unfolding ctx_refines_def using assms by (intro exI [of _ "(c', s', taken')"] exI [of _ qs']) simp

lemma ctx_rows_length: "ctx_rows rows (c, s, taken) cs qs \<Longrightarrow> length rows = length (cs_entries cs) \<and> numEntries c = length rows"
  by (auto simp: ctx_rows_def rows_ok_def table_ok_def dest: list_all2_lengthD)

lemma refine_request:
  assumes "ctx_sim (c, s, taken) cs qs" "data_ok d" "length qs + ctx_cost cs \<le> 2 ^ 32 - 1"
  shows "ctx_refines supported (CtxRequest (prim, dmn, inst) app d) (c, s, taken) cs qs"
proof -
  let ?k = "(prim, dmn, inst)" and ?x = "Request app d"
  have en: "ctx_arbitrationEnabled c = cs_enabled cs" using assms(1) by (auto elim: ctx_simE)
  have x: "op_ok ?x" "?x \<noteq> Pull" "length qs + 2 \<le> 2 ^ 32 - 1" using assms(2,3) by simp_all
  show ?thesis
  proof (cases "cs_enabled cs")
    case False
    with en assms(1) show ?thesis
      by (intro ctx_refinesI [where c' = c and s' = s and taken' = taken and qs' = qs]) (auto simp: EsifArbCtx_ExecutePrimitive_def)
  next
    case True
    from cell_step [OF assms(1) x, of prim dmn inst] show ?thesis
    proof (elim disjE exE conjE)
      assume "EsifArbCtx_LookupArbEntry_Locked (Some c) prim dmn inst s = Some (None, s)" "map_of (cs_entries cs) ?k = None"
      with True en assms(1) show ?thesis
        by (intro ctx_refinesI [where c' = c and s' = s and taken' = taken and qs' = qs]) (auto simp: EsifArbCtx_ExecutePrimitive_def)
    next
      fix a s1 sp s2 s3 qs'
      assume "EsifArbCtx_LookupArbEntry_Locked (Some c) prim dmn inst s = Some (Some a, s1)" "map_of (cs_entries cs) ?k = Some sp"
        "with_entry (Some a) (entry_fun ?x) s1 = Some (fst (cell_op ?x ?k sp cs), s2)" "unref_entry (Some a) s2 = Some s3"
        "ctx_sim (c, s3, taken) (snd (cell_op ?x ?k sp cs)) qs'" "length qs' \<le> length qs + 2"
      with True en show ?thesis
        by (intro ctx_refinesI [where c' = c and s' = s3 and taken' = taken and qs' = qs' and rc = "fst (cell_op ?x ?k sp cs)"])
          (auto simp: EsifArbCtx_ExecutePrimitive_def)
    qed
  qed
qed

lemma refine_limits:
  assumes "ctx_sim (c, s, taken) cs qs" "length qs + ctx_cost cs \<le> 2 ^ 32 - 1"
  shows "ctx_refines supported (CtxLimits (prim, dmn, inst) u l) (c, s, taken) cs qs"
proof -
  have x: "op_ok (Limits u l)" "Limits u l \<noteq> Pull" "length qs + 2 \<le> 2 ^ 32 - 1" using assms(2) by simp_all
  from create_and_step [OF assms(1) x, of supported ESIF_E_PRIMITIVE_NOT_FOUND_IN_DSP "new_params (prim, dmn, inst) 0"]
  obtain found c' s' qs' rc cs' where
    "find_or_create supported ESIF_E_PRIMITIVE_NOT_FOUND_IN_DSP (new_params (prim, dmn, inst) 0) c s = Some found"
    "use_entry (entry_fun (Limits u l)) found = Some (Some rc, Some c', s')"
    "create_and (key_supported supported c) ESIF_E_PRIMITIVE_NOT_FOUND_IN_DSP (new_params (prim, dmn, inst) 0) (Limits u l) cs = (rc, cs')"
    "ctx_sim (c', s', taken) cs' qs'" "length qs' \<le> length qs + 2" "ctx_participantId c' = ctx_participantId c" by blast
  then show ?thesis
    by (intro ctx_refinesI [where c' = c' and s' = s' and taken' = taken and qs' = qs' and rc = rc])
      (simp_all add: EsifArbCtx_SetLimits_def new_params_def)
qed

lemma refine_function:
  assumes "ctx_sim (c, s, taken) cs qs" "length qs + ctx_cost cs \<le> 2 ^ 32 - 1"
  shows "ctx_refines supported (CtxFunction (prim, dmn, inst) ty) (c, s, taken) cs qs"
proof -
  have x: "op_ok (Function ty)" "Function ty \<noteq> Pull" "length qs + 2 \<le> 2 ^ 32 - 1" using assms(2) by simp_all
  from create_and_step [OF assms(1) x, of supported ESIF_E_NOT_SUPPORTED "new_params (prim, dmn, inst) ty"]
  obtain found c' s' qs' rc cs' where
    "find_or_create supported ESIF_E_NOT_SUPPORTED (new_params (prim, dmn, inst) ty) c s = Some found"
    "use_entry (entry_fun (Function ty)) found = Some (Some rc, Some c', s')"
    "create_and (key_supported supported c) ESIF_E_NOT_SUPPORTED (new_params (prim, dmn, inst) ty) (Function ty) cs = (rc, cs')"
    "ctx_sim (c', s', taken) cs' qs'" "length qs' \<le> length qs + 2" "ctx_participantId c' = ctx_participantId c" by blast
  then show ?thesis
    by (intro ctx_refinesI [where c' = c' and s' = s' and taken' = taken and qs' = qs' and rc = rc])
      (simp_all add: EsifArbCtx_SetArbitrationFunction_def new_params_def)
qed

lemma ctx_sim_enabled:
  "ctx_sim (c, s, taken) cs qs \<Longrightarrow> ctx_sim (c\<lparr>ctx_arbitrationEnabled := b\<rparr>, s, taken) (cs\<lparr>cs_enabled := b\<rparr>) qs"
  by (auto simp: ctx_sim_def ctx_rows_def table_ok_def)

lemma purge_all:
  assumes "ctx_sim (c, s, taken) cs qs" "length qs + ctx_cost cs \<le> 2 ^ 32 - 1"
  shows "\<exists>s' qs'. EsifArbCtx_PurgeRequests_Locked (Some (c\<lparr>ctx_arbitrationEnabled := b\<rparr>)) s = Some s'
    \<and> ctx_sim (c, s', taken) (all_cells Purge cs) qs' \<and> length qs' \<le> length qs + ctx_cost cs"
proof -
  from assms(1) obtain rows where rows: "ctx_rows rows (c, s, taken) cs qs" by (auto simp: ctx_sim_def)
  note len = ctx_rows_length [OF rows]
  then have "length qs + 2 * length rows \<le> 2 ^ 32 - 1" using assms(2) by simp
  from purge_rows [of "[]" rows c s taken cs qs "[]" "cs_entries cs", OF _ _ _ this] rows obtain s' qs' where
    p: "purge_loop (map (\<lambda>r. Some (fst r)) rows) s = Some s'" "ctx_sim (c, s', taken) (all_cells Purge cs) qs'"
      "length qs' \<le> length qs + 2 * length rows" by (auto simp: cells_from_all)
  from rows have "table_ok c rows" by (simp add: ctx_rows_def)
  then obtain rest where "entriesPtr c = map (\<lambda>r. Some (fst r)) rows @ rest" "take (numEntries c) (entriesPtr c) = map (\<lambda>r. Some (fst r)) rows"
    by (rule table_cells)
  then have "EsifArbCtx_PurgeRequests_Locked (Some (c\<lparr>ctx_arbitrationEnabled := b\<rparr>)) s = Some s'"
    using p(1) by (auto simp: EsifArbCtx_PurgeRequests_Locked_def)
  with p(2,3) len show ?thesis by auto
qed


lemma refine_state:
  assumes "ctx_sim (c, s, taken) cs qs" "length qs + ctx_cost cs \<le> 2 ^ 32 - 1"
  shows "ctx_refines supported (CtxState (prim, dmn, inst) b) (c, s, taken) cs qs"
proof (cases "prim = 0")
  case True
  show ?thesis
  proof (cases b)
    case b: True
    with True ctx_sim_enabled [OF assms(1)] show ?thesis
      by (intro ctx_refinesI [where c' = "c\<lparr>ctx_arbitrationEnabled := b\<rparr>" and s' = s and taken' = taken and qs' = qs])
        (auto simp: EsifArbCtx_SetArbitrationState_def)
  next
    case b: False
    from purge_all [OF assms, of False] obtain s' qs' where
      p: "EsifArbCtx_PurgeRequests_Locked (Some (c\<lparr>ctx_arbitrationEnabled := False\<rparr>)) s = Some s'"
        "ctx_sim (c, s', taken) (all_cells Purge cs) qs'" "length qs' \<le> length qs + ctx_cost cs" by blast
    with True b ctx_sim_enabled [OF p(2), of False] show ?thesis
      by (intro ctx_refinesI [where c' = "c\<lparr>ctx_arbitrationEnabled := False\<rparr>" and s' = s' and taken' = taken and qs' = qs'])
        (auto simp: EsifArbCtx_SetArbitrationState_def)
  qed
next
  case False
  let ?k = "(prim, dmn, inst)" and ?x = "Enable b"
  have x: "op_ok ?x" "?x \<noteq> Pull" "length qs + 2 \<le> 2 ^ 32 - 1" using assms(2) by simp_all
  from cell_step [OF assms(1) x, of prim dmn inst] show ?thesis
  proof (elim disjE exE conjE)
    assume "EsifArbCtx_LookupArbEntry_Locked (Some c) prim dmn inst s = Some (None, s)" "map_of (cs_entries cs) ?k = None"
    with False assms(1) show ?thesis
      by (intro ctx_refinesI [where c' = c and s' = s and taken' = taken and qs' = qs]) (auto simp: EsifArbCtx_SetArbitrationState_def)
  next
    fix a s1 sp s2 s3 qs'
    assume st: "EsifArbCtx_LookupArbEntry_Locked (Some c) prim dmn inst s = Some (Some a, s1)" "map_of (cs_entries cs) ?k = Some sp"
      "with_entry (Some a) (entry_fun ?x) s1 = Some (fst (cell_op ?x ?k sp cs), s2)" "unref_entry (Some a) s2 = Some s3"
      "ctx_sim (c, s3, taken) (snd (cell_op ?x ?k sp cs)) qs'" "length qs' \<le> length qs + 2"
    let ?c = "if b then c\<lparr>ctx_arbitrationEnabled := True\<rparr> else c"
    let ?cs = "(snd (cell_op ?x ?k sp cs))\<lparr>cs_enabled := cs_enabled cs \<or> b\<rparr>"
    have en: "ctx_arbitrationEnabled c = cs_enabled cs" using assms(1) by (auto elim: ctx_simE)
    have "c\<lparr>ctx_arbitrationEnabled := cs_enabled cs \<or> b\<rparr> = ?c" using en by (cases c) auto
    then have "ctx_sim (?c, s3, taken) ?cs qs'" using ctx_sim_enabled [OF st(5), of "cs_enabled cs \<or> b"] by simp
    with False st en show ?thesis
      by (intro ctx_refinesI [where c' = ?c and s' = s3 and taken' = taken and qs' = qs' and rc = ESIF_OK and cs' = ?cs])
        (simp_all add: EsifArbCtx_SetArbitrationState_def cell_op_def)
  qed
qed

lemma refine_rows:
  assumes "ctx_sim (c, s, taken) cs qs" "length qs + ctx_cost cs \<le> 2 ^ 32 - 1"
  shows "if stop_ok (prim, dmn, inst) (cs_entries cs) then ctx_refines supported (CtxStop (prim, dmn, inst)) (c, s, taken) cs qs
      else ctx_conc_op supported (CtxStop (prim, dmn, inst)) (c, s, taken) = None"
    "ctx_refines supported (CtxRemoveApp app) (c, s, taken) cs qs"
proof -
  from assms(1) obtain rows where rows: "ctx_rows rows (c, s, taken) cs qs" by (auto simp: ctx_sim_def)
  note len = ctx_rows_length [OF rows]
  let ?stop = "ctx_spec_op (key_supported supported c) (CtxStop (prim, dmn, inst)) cs"
  note stop = stop_loop_spec [of "[]" rows c s taken cs qs "[]" "cs_entries cs" new_iterator s prim dmn inst None
      "key_supported supported c", simplified, OF rows new_iterator_before [simplified]]
  show "if stop_ok (prim, dmn, inst) (cs_entries cs) then ctx_refines supported (CtxStop (prim, dmn, inst)) (c, s, taken) cs qs
      else ctx_conc_op supported (CtxStop (prim, dmn, inst)) (c, s, taken) = None"
  proof (cases "stop_ok (prim, dmn, inst) (cs_entries cs)")
    case True
    with stop obtain c' s' where
      "stop_loop (Suc (length rows)) c prim dmn inst new_iterator None s = Some (Some (fst ?stop), Some c', s')"
      "ctx_sim (c', s', taken) (snd ?stop) qs" "ctx_participantId c' = ctx_participantId c" by auto
    then have "ctx_refines supported (CtxStop (prim, dmn, inst)) (c, s, taken) cs qs"
      using len by (intro ctx_refinesI [where c' = c' and s' = s' and taken' = taken and qs' = qs and rc = "fst ?stop" and cs' = "snd ?stop"])
        (simp_all add: EsifArbCtx_StopArbitration_def del: ctx_spec_op.simps)
    with True show ?thesis by simp
  next
    case False
    with stop len show ?thesis by (simp add: EsifArbCtx_StopArbitration_def)
  qed
  have "length qs + 2 * length rows \<le> 2 ^ 32 - 1" using assms(2) len by simp
  from remove_app_rows [of "[]" rows c s taken cs qs "[]" "cs_entries cs", OF _ _ _ this, of new_iterator s app None]
    rows new_iterator_before obtain s' qs' where
    "remove_app_entries (Suc (length rows)) c app new_iterator None s = Some s'"
    "ctx_sim (c, s', taken) (all_cells (Withdraw app) cs) qs'" "length qs' \<le> length qs + 2 * length rows" by (auto simp: cells_from_all)
  then show "ctx_refines supported (CtxRemoveApp app) (c, s, taken) cs qs"
    using len by (intro ctx_refinesI [where c' = c and s' = s' and taken' = taken and qs' = qs' and rc = ESIF_OK])
      (simp_all add: EsifArbCtx_RemoveApp_def)
qed

lemma refine_op:
  assumes "ctx_sim (c, s, taken) cs qs" "ctx_op_ok x" "length qs + ctx_cost cs \<le> 2 ^ 32 - 1"
  shows "if ctx_op_defined x cs then ctx_refines supported x (c, s, taken) cs qs
    else ctx_conc_op supported x (c, s, taken) = None"
proof (cases x)
  case (CtxRequest k app d)
  then show ?thesis using refine_request [OF assms(1) _ assms(3)] assms(2) by (cases k) simp
next
  case (CtxLimits k u l)
  then show ?thesis using refine_limits [OF assms(1,3)] by (cases k) simp
next
  case (CtxFunction k ty)
  then show ?thesis using refine_function [OF assms(1,3)] by (cases k) simp
next
  case (CtxState k b)
  then show ?thesis using refine_state [OF assms(1,3)] by (cases k) simp
next
  case (CtxStop k)
  then show ?thesis using refine_rows(1) [OF assms(1,3)] by (cases k) (simp del: ctx_conc_op.simps)
next
  case (CtxRemoveApp app)
  then show ?thesis using refine_rows(2) [OF assms(1,3)] by simp
next
  case CtxPurge
  have "c\<lparr>ctx_arbitrationEnabled := ctx_arbitrationEnabled c\<rparr> = c" by simp
  with purge_all [OF assms(1,3), of "ctx_arbitrationEnabled c"] obtain s' qs' where
    "EsifArbCtx_PurgeRequests_Locked (Some c) s = Some s'" "ctx_sim (c, s', taken) (all_cells Purge cs) qs'"
    "length qs' \<le> length qs + ctx_cost cs" by auto
  with CtxPurge have "ctx_refines supported x (c, s, taken) cs qs"
    by (intro ctx_refinesI [where c' = c and s' = s' and taken' = taken and qs' = qs' and rc = ESIF_OK])
      (simp_all add: EsifArbCtx_PurgeRequests_def)
  with CtxPurge show ?thesis by simp
next
  case CtxPull
  from ctx_pull [OF assms(1), of supported] obtain s' taken' qs' where
    "ctx_conc_op supported CtxPull (c, s, taken) = Some (ESIF_OK, c, s', taken')" "ctx_sim (c, s', taken') cs qs'"
    "length qs' \<le> length qs" by auto
  with CtxPull have "ctx_refines supported x (c, s, taken) cs qs"
    by (intro ctx_refinesI [where c' = c and s' = s' and taken' = taken' and qs' = qs' and rc = ESIF_OK]) simp_all
  with CtxPull show ?thesis by simp
qed

end
