(* ===== verification/Domain.thy ===== *)
theory Domain
  imports Xform
begin

text \<open>
  The domains of a participant: \<^verbatim>\<open>src/ESIF/Products/ESIF_UF/Sources/esif_uf_domain.c\<close>. A domain knows the
  capabilities of a device and checks which of them the device really has, it keeps the two
  temperature thresholds of the policies, and it polls the temperature and posts an event when a
  threshold is crossed.

  The device is reached through \<^verbatim>\<open>EsifUp_ExecutePrimitive\<close>. Its answers, and the return codes of the
  timers and of the event manager, are functions of the calls made so far, so that a device may
  answer differently every time. Every call is recorded with its return code, and every event
  with its data. The temperature timer is the period it is armed with. A get leaves the domain
  alone. A set may be mapped by the device support package to the action that sets the sample
  period of the very domain; that action is part of the model.
\<close>

section \<open>State\<close>

datatype EsifDomainAuxId = ESIF_DOMAIN_AUX0 | ESIF_DOMAIN_AUX1 | ESIF_DOMAIN_AUX_MAX

datatype EsifDomainPollTypeId = ESIF_POLL_NONE | ESIF_POLL_UNSUPPORTED | ESIF_POLL_DOMAIN | ESIF_POLL_ECONO

record EsifDomainCapability =
  capability_flags :: u32
  number_of_capability_flags :: u8
  capability_mask :: "u8 list"

text \<open>What the device support package says of a domain.\<close>

record esif_fpc_domain =
  fpc_domain :: u16
  fpc_priority :: u32
  fpc_domainType :: u32
  fpc_capability :: EsifDomainCapability

record EsifUpDomain =
  ud_domain :: u16
  domainPriority :: u32
  capability_for_domain :: EsifDomainCapability
  domainType :: u32
  ud_participantId :: esif_handle_t
  tempPollTimer :: "u32 option"
  tempPollPeriod :: u32
  virtTemp :: u32
  tempAux0 :: u32
  tempAux1 :: u32
  tempAux0WHyst :: u32
  tempHysteresis :: u32
  tempNotifySent :: bool
  tempPollType :: EsifDomainPollTypeId
  tempPollInitialized :: bool
  tempLastTempValid :: bool
  tempInvalidValueDetected :: bool
  lastState :: u32
  statePollTimer :: "u32 option"
  statePollPeriod :: u32
  statePollType :: EsifDomainPollTypeId
  statePollInitialized :: bool
  tempLock :: bool
  capsLock :: bool

record EsifPrimitiveTuple =
  tup_id :: u16
  tup_domain :: u16
  tup_instance :: u8

datatype dom_call = CallGet EsifPrimitiveTuple | CallSet EsifPrimitiveTuple u32 | CallPrimary u16
  | CallTimerInit | CallTimerSet u32 | CallSignal u32

type_synonym dom_log = "(dom_call \<times> esif_rc) list"

text \<open>
  The surroundings of a domain: a successful get may or may not write the response buffer;
  \<open>is_sample_action\<close> says which sets are mapped to the sample period of the domain.
\<close>

record domain_env =
  on_get :: "dom_log \<Rightarrow> EsifPrimitiveTuple \<Rightarrow> esif_rc \<times> u32 option"
  on_set :: "dom_log \<Rightarrow> EsifPrimitiveTuple \<Rightarrow> u32 \<Rightarrow> esif_rc"
  is_sample_action :: "EsifPrimitiveTuple \<Rightarrow> bool"
  on_primary :: "dom_log \<Rightarrow> u16 \<Rightarrow> esif_rc"
  on_timer_init :: "dom_log \<Rightarrow> esif_rc"
  on_timer_set :: "dom_log \<Rightarrow> u32 \<Rightarrow> esif_rc"
  on_signal :: "dom_log \<Rightarrow> u32 \<Rightarrow> esif_rc"

record dom_event =
  ev_participant :: esif_handle_t
  ev_domain :: u16
  ev_type :: u32
  ev_value :: "u32 option"

record dom_state =
  ud :: EsifUpDomain
  dcalls :: dom_log
  devents :: "dom_event list"

abbreviation set_ud :: "(EsifUpDomain \<Rightarrow> EsifUpDomain) \<Rightarrow> dom_state \<Rightarrow> dom_state" where
  "set_ud f s \<equiv> s\<lparr>ud := f (ud s)\<rparr>"

abbreviation caps_of :: "EsifUpDomain \<Rightarrow> u32" where
  "caps_of d \<equiv> capability_flags (capability_for_domain d)"

abbreviation has_cap :: "EsifUpDomain \<Rightarrow> nat \<Rightarrow> bool" where
  "has_cap d cap \<equiv> bit (caps_of d) cap"

abbreviation (input) ESIF_DOMAIN_TEMP_INVALID :: u32 where "ESIF_DOMAIN_TEMP_INVALID \<equiv> 0xffffffff"
abbreviation (input) ESIF_DOMAIN_STATE_INVALID :: u32 where "ESIF_DOMAIN_STATE_INVALID \<equiv> 0xffffffff"
abbreviation (input) ESIF_DOMAIN_TEMP_INVALID_VALUE :: u32 where "ESIF_DOMAIN_TEMP_INVALID_VALUE \<equiv> 0xFF"
abbreviation (input) ESIF_DOMAIN_TEMP_INVALID_POLL_PERIOD :: u32 where "ESIF_DOMAIN_TEMP_INVALID_POLL_PERIOD \<equiv> 5000"
abbreviation (input) ESIF_DOMAIN_TEMP_AUX0_DEF :: u32 where "ESIF_DOMAIN_TEMP_AUX0_DEF \<equiv> 5"
abbreviation (input) ESIF_DOMAIN_HYST_DEF :: u32 where "ESIF_DOMAIN_HYST_DEF \<equiv> 0"
abbreviation (input) ESIF_SDK_MAX_AUX_TRIP :: u32 where "ESIF_SDK_MAX_AUX_TRIP \<equiv> 199"
abbreviation (input) ESIF_SDK_MIN_AUX_TRIP :: u32 where "ESIF_SDK_MIN_AUX_TRIP \<equiv> - 136"
abbreviation (input) ESIF_SOCWC_SOURCE_HARDWARE :: u32 where "ESIF_SOCWC_SOURCE_HARDWARE \<equiv> 1"
abbreviation (input) PERF_STATE_POLL_PERIOD :: u32 where "PERF_STATE_POLL_PERIOD \<equiv> 3000"

section \<open>Calls to the surroundings\<close>

definition exec_get :: "domain_env \<Rightarrow> u16 \<Rightarrow> u16 \<Rightarrow> u8 \<Rightarrow> dom_state \<Rightarrow> esif_rc \<times> u32 option \<times> dom_state" where
  "exec_get env prim dmn inst s =
     (let t = \<lparr>tup_id = prim, tup_domain = dmn, tup_instance = inst\<rparr>; (rc, v) = on_get env (dcalls s) t in
      (rc, v, s\<lparr>dcalls := dcalls s @ [(CallGet t, rc)]\<rparr>))"

definition exec_primary :: "domain_env \<Rightarrow> u16 \<Rightarrow> dom_state \<Rightarrow> esif_rc \<times> dom_state" where
  "exec_primary env prim s =
     (let rc = on_primary env (dcalls s) prim in (rc, s\<lparr>dcalls := dcalls s @ [(CallPrimary prim, rc)]\<rparr>))"

definition esif_ccb_timer_init :: "domain_env \<Rightarrow> dom_state \<Rightarrow> esif_rc \<times> dom_state" where
  "esif_ccb_timer_init env s =
     (let rc = on_timer_init env (dcalls s) in (rc, s\<lparr>dcalls := dcalls s @ [(CallTimerInit, rc)]\<rparr>))"

text \<open>Arming the timer of the temperature, and that of the state; a failure leaves it as it was.\<close>

definition set_temp_timer :: "domain_env \<Rightarrow> u32 \<Rightarrow> dom_state \<Rightarrow> esif_rc \<times> dom_state" where
  "set_temp_timer env period s =
     (let rc = on_timer_set env (dcalls s) period; s1 = s\<lparr>dcalls := dcalls s @ [(CallTimerSet period, rc)]\<rparr> in
      (rc, if rc = ESIF_OK then set_ud (\<lambda>d. d\<lparr>tempPollTimer := Some period\<rparr>) s1 else s1))"

definition set_state_timer :: "domain_env \<Rightarrow> u32 \<Rightarrow> dom_state \<Rightarrow> esif_rc \<times> dom_state" where
  "set_state_timer env period s =
     (let rc = on_timer_set env (dcalls s) period; s1 = s\<lparr>dcalls := dcalls s @ [(CallTimerSet period, rc)]\<rparr> in
      (rc, if rc = ESIF_OK then set_ud (\<lambda>d. d\<lparr>statePollTimer := Some period\<rparr>) s1 else s1))"

text \<open>\<^verbatim>\<open>EsifEventMgr_SignalEvent\<close>: the event is posted for later delivery.\<close>

definition signal_event :: "domain_env \<Rightarrow> u32 \<Rightarrow> u32 option \<Rightarrow> dom_state \<Rightarrow> esif_rc \<times> dom_state" where
  "signal_event env ty v s =
     (let rc = on_signal env (dcalls s) ty in
      (rc, s\<lparr>dcalls := dcalls s @ [(CallSignal ty, rc)],
             devents := devents s @ [\<lparr>ev_participant = ud_participantId (ud s), ev_domain = ud_domain (ud s),
               ev_type = ty, ev_value = v\<rparr>]\<rparr>))"

section \<open>Thresholds\<close>

text \<open>\<^verbatim>\<open>esif_convert_temp(ESIF_TEMP_C, NORMALIZE_TEMP_TYPE, &t)\<close>: degrees to tenths of a Kelvin.\<close>

definition normalized :: "u32 \<Rightarrow> u32" where
  "normalized t = (case esif_convert_temp ESIF_TEMP_C NORMALIZE_TEMP_TYPE (Some t) of Some (_, Some v) \<Rightarrow> v | _ \<Rightarrow> t)"

definition EsifUpDomain_CalcAux0WHyst :: "EsifUpDomain \<Rightarrow> u32 \<Rightarrow> u32" where
  "EsifUpDomain_CalcAux0WHyst self aux0 =
     (let oneDegreeRel = esif_temp_abs_to_rel (normalized 1);
          a = (if aux0 = ESIF_DOMAIN_TEMP_INVALID then normalized ESIF_DOMAIN_TEMP_AUX0_DEF else aux0);
          hystRel = esif_temp_abs_to_rel (tempHysteresis self) in
      if hystRel < a - oneDegreeRel then a - hystRel - oneDegreeRel else normalized ESIF_SDK_MIN_AUX_TRIP)"

text \<open>The default for an unset threshold, otherwise the threshold clamped to the range of a trip point.\<close>

definition clamp_aux :: "u32 \<Rightarrow> u32 \<Rightarrow> u32" where
  "clamp_aux def_temp threshold =
     (if threshold = ESIF_DOMAIN_TEMP_INVALID then def_temp
      else if threshold > normalized ESIF_SDK_MAX_AUX_TRIP then normalized ESIF_SDK_MAX_AUX_TRIP
      else if threshold < normalized ESIF_SDK_MIN_AUX_TRIP then normalized ESIF_SDK_MIN_AUX_TRIP
      else threshold)"

abbreviation (input) SET_TEMPERATURE_THRESHOLDS_SUR :: u16 where "SET_TEMPERATURE_THRESHOLDS_SUR \<equiv> 299"

text \<open>Writing a threshold to the device.\<close>

definition exec_set_aux :: "domain_env \<Rightarrow> u8 \<Rightarrow> u32 \<Rightarrow> dom_state \<Rightarrow> esif_rc \<times> dom_state" where
  "exec_set_aux env inst v s =
     (let t = \<lparr>tup_id = SET_TEMPERATURE_THRESHOLDS_SUR, tup_domain = ud_domain (ud s), tup_instance = inst\<rparr>;
          rc = on_set env (dcalls s) t v in
      (rc, s\<lparr>dcalls := dcalls s @ [(CallSet t v, rc)]\<rparr>))"

definition EsifUpDomain_SetTempThreshWLock :: "domain_env \<Rightarrow> EsifDomainAuxId \<Rightarrow> u32 \<Rightarrow> dom_state \<Rightarrow> esif_rc \<times> dom_state" where
  "EsifUpDomain_SetTempThreshWLock env auxId threshold s =
     (case auxId of
        ESIF_DOMAIN_AUX0 \<Rightarrow>
          (let temp = clamp_aux (normalized ESIF_DOMAIN_TEMP_AUX0_DEF) threshold;
               aux0 = (if threshold = ESIF_DOMAIN_TEMP_INVALID then ESIF_DOMAIN_TEMP_INVALID else temp);
               hyst = EsifUpDomain_CalcAux0WHyst (ud s) aux0;
               s1 = set_ud (\<lambda>d. d\<lparr>tempAux0 := aux0, tempAux0WHyst := hyst\<rparr>) s in
           if tempPollPeriod (ud s) = 0 then exec_set_aux env 0 hyst s1 else (ESIF_OK, s1))
      | ESIF_DOMAIN_AUX1 \<Rightarrow>
          (let temp = clamp_aux (normalized ESIF_SDK_MAX_AUX_TRIP) threshold;
               aux1 = (if threshold = ESIF_DOMAIN_TEMP_INVALID then ESIF_DOMAIN_TEMP_INVALID else temp);
               s1 = set_ud (\<lambda>d. d\<lparr>tempAux1 := aux1\<rparr>) s in
           if tempPollPeriod (ud s) = 0 then exec_set_aux env 1 temp s1 else (ESIF_OK, s1))
      | ESIF_DOMAIN_AUX_MAX \<Rightarrow> (ESIF_E_UNSPECIFIED, s))"

definition EsifUpDomain_SetTempHysteresis :: "u32 \<Rightarrow> dom_state \<Rightarrow> esif_rc \<times> dom_state" where
  "EsifUpDomain_SetTempHysteresis hyst s =
     (ESIF_OK, set_ud (\<lambda>d. let d1 = d\<lparr>tempHysteresis := hyst\<rparr> in
        d1\<lparr>tempAux0WHyst := EsifUpDomain_CalcAux0WHyst d1 (tempAux0 d1)\<rparr>) s)"

definition EsifUpDomain_TempIsInThresholds :: "EsifUpDomain \<Rightarrow> u32 \<Rightarrow> bool" where
  "EsifUpDomain_TempIsInThresholds self temp \<longleftrightarrow>
     (tempAux0 self = ESIF_DOMAIN_TEMP_INVALID \<or> temp \<ge> tempAux0 self)
     \<and> (tempAux1 self = ESIF_DOMAIN_TEMP_INVALID \<or> temp < tempAux1 self)"

definition EsifUpDomain_IsTempOutOfThresholds :: "EsifUpDomain \<Rightarrow> u32 \<Rightarrow> bool" where
  "EsifUpDomain_IsTempOutOfThresholds self temp \<longleftrightarrow>
     temp \<noteq> ESIF_DOMAIN_TEMP_INVALID
     \<and> ((tempAux0 self \<noteq> ESIF_DOMAIN_TEMP_INVALID \<and> temp \<le> tempAux0WHyst self)
        \<or> (tempAux1 self \<noteq> ESIF_DOMAIN_TEMP_INVALID \<and> temp \<ge> tempAux1 self))"

definition EsifUpDomain_AnyTempThresholdValid :: "EsifUpDomain \<Rightarrow> bool" where
  "EsifUpDomain_AnyTempThresholdValid self \<longleftrightarrow>
     tempAux0 self \<noteq> ESIF_DOMAIN_TEMP_INVALID \<or> tempAux1 self \<noteq> ESIF_DOMAIN_TEMP_INVALID"

section \<open>Polling\<close>

abbreviation (input) ESIF_EVENT_PERF_CAPABILITY_CHANGED :: u32 where "ESIF_EVENT_PERF_CAPABILITY_CHANGED \<equiv> 11"
abbreviation (input) ESIF_EVENT_TEMP_THRESHOLD_CROSSED :: u32 where "ESIF_EVENT_TEMP_THRESHOLD_CROSSED \<equiv> 16"
abbreviation (input) GET_TEMPERATURE :: u16 where "GET_TEMPERATURE \<equiv> 14"
abbreviation (input) GET_PARTICIPANT_PERF_PRESENT_CAPABILITY :: u16 where "GET_PARTICIPANT_PERF_PRESENT_CAPABILITY \<equiv> 176"

definition EsifUpDomain_CheckTemp :: "domain_env \<Rightarrow> dom_state \<Rightarrow> esif_rc \<times> dom_state" where
  "EsifUpDomain_CheckTemp env s =
     (let (rc, v, s1) = exec_get env GET_TEMPERATURE (ud_domain (ud s)) 255 s;
          temp = (case v of None \<Rightarrow> ESIF_DOMAIN_TEMP_INVALID | Some t \<Rightarrow> t) in
      if rc \<noteq> ESIF_OK then
        (let s2 = (if rc = ESIF_E_STOP_POLL then set_ud (\<lambda>d. d\<lparr>tempPollType := ESIF_POLL_UNSUPPORTED\<rparr>) s1 else s1);
             s3 = (if tempLastTempValid (ud s2) then snd (signal_event env ESIF_EVENT_TEMP_THRESHOLD_CROSSED None s2) else s2) in
         (rc, set_ud (\<lambda>d. d\<lparr>tempLastTempValid := False\<rparr>) s3))
      else
        (let s2 = set_ud (\<lambda>d. d\<lparr>tempLastTempValid := True,
                    tempInvalidValueDetected := (normalized ESIF_DOMAIN_TEMP_INVALID_VALUE = temp)\<rparr>) s1;
             s3 = (if tempNotifySent (ud s2) \<and> EsifUpDomain_TempIsInThresholds (ud s2) temp
                   then set_ud (\<lambda>d. d\<lparr>tempNotifySent := False\<rparr>) s2 else s2) in
         if EsifUpDomain_IsTempOutOfThresholds (ud s3) temp \<and> \<not> tempNotifySent (ud s3) \<and> \<not> tempInvalidValueDetected (ud s3)
         then (ESIF_OK, snd (signal_event env ESIF_EVENT_TEMP_THRESHOLD_CROSSED None (set_ud (\<lambda>d. d\<lparr>tempNotifySent := True\<rparr>) s3)))
         else (ESIF_OK, s3)))"

definition EsifUpDomain_CheckState :: "domain_env \<Rightarrow> dom_state \<Rightarrow> esif_rc \<times> dom_state" where
  "EsifUpDomain_CheckState env s =
     (let (rc, v, s1) = exec_get env GET_PARTICIPANT_PERF_PRESENT_CAPABILITY (ud_domain (ud s)) 255 s;
          state = (case v of None \<Rightarrow> ESIF_DOMAIN_STATE_INVALID | Some x \<Rightarrow> x) in
      if rc = ESIF_OK \<and> lastState (ud s1) \<noteq> state \<and> state \<noteq> ESIF_DOMAIN_STATE_INVALID
      then (rc, set_ud (\<lambda>d. d\<lparr>lastState := state\<rparr>) (snd (signal_event env ESIF_EVENT_PERF_CAPABILITY_CHANGED None s1)))
      else (rc, s1))"

definition EsifUpDomain_Poll :: "domain_env \<Rightarrow> dom_state \<Rightarrow> esif_rc \<times> dom_state" where
  "EsifUpDomain_Poll env s =
     (let (rc, s1) = (if tempPollType (ud s) = ESIF_POLL_ECONO then EsifUpDomain_CheckTemp env s else (ESIF_OK, s)) in
      if statePollType (ud s1) = ESIF_POLL_ECONO then EsifUpDomain_CheckState env s1 else (rc, s1))"

definition EsifUpDomain_StartTempPollPriv :: "domain_env \<Rightarrow> dom_state \<Rightarrow> esif_rc \<times> dom_state" where
  "EsifUpDomain_StartTempPollPriv env s =
     (if tempPollType (ud s) \<noteq> ESIF_POLL_NONE then (ESIF_OK, s)
      else let (rc, s1) = esif_ccb_timer_init env s in
        if rc \<noteq> ESIF_OK then (rc, s1)
        else let s2 = set_ud (\<lambda>d. d\<lparr>tempPollInitialized := True, tempPollType := ESIF_POLL_DOMAIN\<rparr>) s1 in
          set_temp_timer env (tempPollPeriod (ud s2)) s2)"

definition EsifUpDomain_StartStatePollPriv :: "domain_env \<Rightarrow> dom_state \<Rightarrow> esif_rc \<times> dom_state" where
  "EsifUpDomain_StartStatePollPriv env s =
     (if (statePollType (ud s) \<noteq> ESIF_POLL_NONE \<and> statePollType (ud s) \<noteq> ESIF_POLL_DOMAIN) \<or> statePollPeriod (ud s) \<le> 0
      then (ESIF_OK, s)
      else if statePollInitialized (ud s) then set_state_timer env (statePollPeriod (ud s)) s
      else let (rc, s1) = esif_ccb_timer_init env s in
        if rc \<noteq> ESIF_OK then (rc, s1)
        else let s2 = set_ud (\<lambda>d. d\<lparr>statePollInitialized := True, statePollType := ESIF_POLL_DOMAIN\<rparr>) s1 in
          set_state_timer env (statePollPeriod (ud s2)) s2)"

text \<open>
  The callbacks of the two timers. \<open>available\<close> says whether the participant of the domain can be
  found at that moment; a timer that has fired is no longer armed.
\<close>

definition EsifUpDomain_PollTemp :: "domain_env \<Rightarrow> bool \<Rightarrow> dom_state \<Rightarrow> esif_rc \<times> dom_state" where
  "EsifUpDomain_PollTemp env available s0 =
     (let s = set_ud (\<lambda>d. d\<lparr>tempPollTimer := None\<rparr>) s0 in
      if \<not> available then (ESIF_E_INVALID_HANDLE, s)
      else let (rc, s1) = EsifUpDomain_CheckTemp env s; d = ud s1 in
        if tempPollType d \<noteq> ESIF_POLL_DOMAIN then (rc, s1)
        else if tempPollPeriod d > 0 \<and> EsifUpDomain_AnyTempThresholdValid d then
          if tempPollInitialized d
          then set_temp_timer env (if tempInvalidValueDetected d \<and> tempPollPeriod d < ESIF_DOMAIN_TEMP_INVALID_POLL_PERIOD
                 then ESIF_DOMAIN_TEMP_INVALID_POLL_PERIOD else tempPollPeriod d) s1
          else EsifUpDomain_StartTempPollPriv env s1
        else (rc, s1))"

definition EsifUpDomain_PollState :: "domain_env \<Rightarrow> bool \<Rightarrow> dom_state \<Rightarrow> esif_rc \<times> dom_state" where
  "EsifUpDomain_PollState env available s0 =
     (let s = set_ud (\<lambda>d. d\<lparr>statePollTimer := None\<rparr>) s0 in
      if \<not> available then (ESIF_E_INVALID_HANDLE, s)
      else let (rc, s1) = EsifUpDomain_CheckState env s in
        if statePollType (ud s1) \<noteq> ESIF_POLL_DOMAIN then (rc, s1)
        else EsifUpDomain_StartStatePollPriv env s1)"

definition EsifUpDomain_SetTempThresh :: "domain_env \<Rightarrow> EsifDomainAuxId \<Rightarrow> u32 \<Rightarrow> dom_state \<Rightarrow> esif_rc \<times> dom_state" where
  "EsifUpDomain_SetTempThresh env threshId threshold s =
     (if \<not> has_cap (ud s) 12 then (ESIF_E_NOT_SUPPORTED, s)
      else let (rc, s1) = EsifUpDomain_SetTempThreshWLock env threshId threshold s in
        if rc \<noteq> ESIF_OK then (rc, s1)
        else let s2 = set_ud (\<lambda>d. d\<lparr>tempNotifySent := False\<rparr>) s1 in
          if tempPollPeriod (ud s2) = 0 then (rc, s2)
          else if tempPollInitialized (ud s2)
          then set_temp_timer env (tempPollPeriod (ud s2)) (set_ud (\<lambda>d. d\<lparr>tempPollType := ESIF_POLL_DOMAIN\<rparr>) s2)
          else EsifUpDomain_StartTempPollPriv env s2)"

definition EsifUpDomain_SetTempPollPeriod :: "domain_env \<Rightarrow> u32 \<Rightarrow> dom_state \<Rightarrow> esif_rc \<times> dom_state" where
  "EsifUpDomain_SetTempPollPeriod env sampleTime s =
     (let s1 = set_ud (\<lambda>d. d\<lparr>tempPollPeriod := sampleTime\<rparr>) s in
      if sampleTime > 0
      then if tempPollInitialized (ud s1) then set_temp_timer env sampleTime s1 else EsifUpDomain_StartTempPollPriv env s1
      else (ESIF_OK, s1))"

definition EsifUpDomain_SetStatePollPeriod :: "domain_env \<Rightarrow> u32 \<Rightarrow> dom_state \<Rightarrow> esif_rc \<times> dom_state" where
  "EsifUpDomain_SetStatePollPeriod env sampleTime s =
     (if sampleTime \<le> 0 then (ESIF_E_PARAMETER_IS_OUT_OF_BOUNDS, s)
      else EsifUpDomain_StartStatePollPriv env (set_ud (\<lambda>d. d\<lparr>statePollPeriod := sampleTime\<rparr>) s))"

definition EsifUpDomain_StopTempPoll :: "dom_state \<Rightarrow> dom_state" where
  "EsifUpDomain_StopTempPoll = set_ud (\<lambda>d. d\<lparr>tempPollTimer := None, tempPollInitialized := False, tempPollType := ESIF_POLL_NONE\<rparr>)"

definition EsifUpDomain_StopStatePoll :: "dom_state \<Rightarrow> dom_state" where
  "EsifUpDomain_StopStatePoll = set_ud (\<lambda>d. d\<lparr>statePollTimer := None, statePollInitialized := False, statePollType := ESIF_POLL_NONE\<rparr>)"

definition EsifUpDomain_RegisterForTempPoll :: "EsifDomainPollTypeId \<Rightarrow> dom_state \<Rightarrow> dom_state" where
  "EsifUpDomain_RegisterForTempPoll pollType =
     set_ud (\<lambda>d. if tempPollType d \<noteq> ESIF_POLL_UNSUPPORTED then d\<lparr>tempPollType := pollType\<rparr> else d)"

definition EsifUpDomain_UnRegisterForTempPoll :: "dom_state \<Rightarrow> dom_state" where
  "EsifUpDomain_UnRegisterForTempPoll = set_ud (\<lambda>d. d\<lparr>tempPollType := ESIF_POLL_NONE\<rparr>)"

definition EsifUpDomain_RegisterForStatePoll :: "EsifDomainPollTypeId \<Rightarrow> dom_state \<Rightarrow> dom_state" where
  "EsifUpDomain_RegisterForStatePoll pollType =
     set_ud (\<lambda>d. if statePollType d \<noteq> ESIF_POLL_UNSUPPORTED then d\<lparr>statePollType := pollType\<rparr> else d)"

definition EsifUpDomain_UnRegisterForStatePoll :: "dom_state \<Rightarrow> dom_state" where
  "EsifUpDomain_UnRegisterForStatePoll = set_ud (\<lambda>d. d\<lparr>statePollType := ESIF_POLL_NONE\<rparr>)"

definition EsifUpDomain_SetVirtualTemperature :: "domain_env \<Rightarrow> u32 \<Rightarrow> dom_state \<Rightarrow> dom_state" where
  "EsifUpDomain_SetVirtualTemperature env t s =
     (let s1 = set_ud (\<lambda>d. d\<lparr>virtTemp := t\<rparr>) s in
      if EsifUpDomain_IsTempOutOfThresholds (ud s1) t
      then snd (signal_event env ESIF_EVENT_TEMP_THRESHOLD_CROSSED None s1) else s1)"

definition EsifUpDomain_SignalOSEvent :: "domain_env \<Rightarrow> u32 \<Rightarrow> u32 \<Rightarrow> dom_state \<Rightarrow> esif_rc \<times> dom_state" where
  "EsifUpDomain_SignalOSEvent env updatedValue eventType s = signal_event env eventType (Some updatedValue) s"

definition EsifUpDomain_SetUpId :: "esif_handle_t \<Rightarrow> dom_state \<Rightarrow> dom_state" where
  "EsifUpDomain_SetUpId h = set_ud (\<lambda>d. d\<lparr>ud_participantId := h\<rparr>)"

text \<open>The identifier of a domain is the character \<^verbatim>\<open>D\<close> and a digit.\<close>

definition EsifDomainIdToIndex :: "u16 \<Rightarrow> esif_rc \<times> u8 option" where
  "EsifDomainIdToIndex dmn =
     (if dmn AND 0xFF \<noteq> 0x44 then (ESIF_E_PARAMETER_IS_OUT_OF_BOUNDS, None)
      else let indexVal = (ucast (drop_bit 8 dmn) :: u8) in
        if indexVal < 0x30 \<or> 0x39 < indexVal then (ESIF_E_PARAMETER_IS_OUT_OF_BOUNDS, None)
        else (ESIF_OK, Some (indexVal AND 0x0F)))"

section \<open>Capabilities\<close>

abbreviation (input) ESIF_CAPABILITY_TYPE_ACTIVE_CONTROL :: nat where "ESIF_CAPABILITY_TYPE_ACTIVE_CONTROL \<equiv> 0"
abbreviation (input) ESIF_CAPABILITY_TYPE_DISPLAY_CONTROL :: nat where "ESIF_CAPABILITY_TYPE_DISPLAY_CONTROL \<equiv> 2"
abbreviation (input) ESIF_CAPABILITY_TYPE_PERF_CONTROL :: nat where "ESIF_CAPABILITY_TYPE_PERF_CONTROL \<equiv> 4"
abbreviation (input) ESIF_CAPABILITY_TYPE_POWER_CONTROL :: nat where "ESIF_CAPABILITY_TYPE_POWER_CONTROL \<equiv> 5"
abbreviation (input) ESIF_CAPABILITY_TYPE_POWER_STATUS :: nat where "ESIF_CAPABILITY_TYPE_POWER_STATUS \<equiv> 6"
abbreviation (input) ESIF_CAPABILITY_TYPE_TEMP_STATUS :: nat where "ESIF_CAPABILITY_TYPE_TEMP_STATUS \<equiv> 7"
abbreviation (input) ESIF_CAPABILITY_TYPE_PEAK_POWER_CONTROL :: nat where "ESIF_CAPABILITY_TYPE_PEAK_POWER_CONTROL \<equiv> 9"
abbreviation (input) ESIF_CAPABILITY_TYPE_PROCESSOR_CONTROL :: nat where "ESIF_CAPABILITY_TYPE_PROCESSOR_CONTROL \<equiv> 10"
abbreviation (input) ESIF_CAPABILITY_TYPE_PLAT_POWER_STATUS :: nat where "ESIF_CAPABILITY_TYPE_PLAT_POWER_STATUS \<equiv> 11"
abbreviation (input) ESIF_CAPABILITY_TYPE_TEMP_THRESHOLD :: nat where "ESIF_CAPABILITY_TYPE_TEMP_THRESHOLD \<equiv> 12"
abbreviation (input) ESIF_CAPABILITY_TYPE_RFPROFILE_STATUS :: nat where "ESIF_CAPABILITY_TYPE_RFPROFILE_STATUS \<equiv> 13"
abbreviation (input) ESIF_CAPABILITY_TYPE_RFPROFILE_CONTROL :: nat where "ESIF_CAPABILITY_TYPE_RFPROFILE_CONTROL \<equiv> 14"
abbreviation (input) ESIF_CAPABILITY_TYPE_ENERGY_CONTROL :: nat where "ESIF_CAPABILITY_TYPE_ENERGY_CONTROL \<equiv> 15"
abbreviation (input) ESIF_CAPABILITY_TYPE_ACTIVITY_STATUS :: nat where "ESIF_CAPABILITY_TYPE_ACTIVITY_STATUS \<equiv> 17"
abbreviation (input) ESIF_CAPABILITY_TYPE_PSYS_CONTROL :: nat where "ESIF_CAPABILITY_TYPE_PSYS_CONTROL \<equiv> 18"
abbreviation (input) ESIF_CAPABILITY_TYPE_BATTERY_STATUS :: nat where "ESIF_CAPABILITY_TYPE_BATTERY_STATUS \<equiv> 19"
abbreviation (input) ESIF_CAPABILITY_TYPE_WORKLOAD_CLASSIFICATION :: nat where "ESIF_CAPABILITY_TYPE_WORKLOAD_CLASSIFICATION \<equiv> 20"

definition disable_cap :: "nat \<Rightarrow> EsifDomainCapability \<Rightarrow> EsifDomainCapability" where
  "disable_cap cap c =
     (if bit (capability_flags c) cap
      then c\<lparr>capability_flags := capability_flags c AND NOT (push_bit cap 1), capability_mask := (capability_mask c)[cap := 0],
             number_of_capability_flags := number_of_capability_flags c - 1\<rparr>
      else c)"

definition EsifUpDomain_DisableCap :: "nat \<Rightarrow> dom_state \<Rightarrow> dom_state" where
  "EsifUpDomain_DisableCap cap = set_ud (\<lambda>d. d\<lparr>capability_for_domain := disable_cap cap (capability_for_domain d)\<rparr>)"

text \<open>The loop over the 32 flags that counts those that are set.\<close>

fun count_caps :: "u32 \<Rightarrow> nat \<Rightarrow> u8 \<Rightarrow> u8" where
  "count_caps flags 0 n = n"
| "count_caps flags (Suc k) n = count_caps flags k (if bit flags (31 - k) then n + 1 else n)"

definition EsifUpDomain_EnableCaps :: "u32 \<Rightarrow> u8 list option \<Rightarrow> dom_state \<Rightarrow> esif_rc \<times> dom_state" where
  "EsifUpDomain_EnableCaps flags mask_ptr s =
     (case mask_ptr of None \<Rightarrow> (ESIF_E_PARAMETER_IS_NULL, s)
      | Some m \<Rightarrow> (ESIF_OK, set_ud (\<lambda>d. d\<lparr>capability_for_domain :=
          \<lparr>capability_flags = flags, number_of_capability_flags = count_caps flags 32 0, capability_mask = m\<rparr>\<rparr>) s))"

text \<open>A capability is checked only when the device support package claims it.\<close>

definition EsifUpDomain_CapDetect :: "domain_env \<Rightarrow> nat \<Rightarrow> u16 \<Rightarrow> u8 \<Rightarrow> dom_state \<Rightarrow> esif_rc \<times> u32 option \<times> dom_state" where
  "EsifUpDomain_CapDetect env cap prim inst s =
     (if \<not> has_cap (ud s) cap then (ESIF_E_NOT_SUPPORTED, None, s)
      else exec_get env prim (ud_domain (ud s)) inst s)"

definition answered :: "esif_rc \<Rightarrow> bool" where
  "answered rc \<longleftrightarrow> rc = ESIF_OK \<or> rc = ESIF_I_AGAIN \<or> rc = ESIF_E_NEED_LARGER_BUFFER"

text \<open>
  The two shapes of detection. Either one accepted answer among several primitives is enough, or
  every primitive has to succeed; otherwise the capability is disabled.
\<close>

fun detect_any :: "domain_env \<Rightarrow> (esif_rc \<Rightarrow> bool) \<Rightarrow> nat \<Rightarrow> (u16 \<times> u8) list \<Rightarrow> dom_state \<Rightarrow> esif_rc \<times> dom_state" where
  "detect_any env good cap [] s = (ESIF_E_NOT_SUPPORTED, EsifUpDomain_DisableCap cap s)"
| "detect_any env good cap ((prim, inst) # ps) s =
     (let (rc, _, s1) = EsifUpDomain_CapDetect env cap prim inst s in
      if good rc then (rc, s1) else detect_any env good cap ps s1)"

fun detect_all :: "domain_env \<Rightarrow> nat \<Rightarrow> (u16 \<times> u8) list \<Rightarrow> dom_state \<Rightarrow> esif_rc \<times> dom_state" where
  "detect_all env cap [] s = (ESIF_OK, s)"
| "detect_all env cap ((prim, inst) # ps) s =
     (let (rc, _, s1) = EsifUpDomain_CapDetect env cap prim inst s in
      if rc \<noteq> ESIF_OK then (ESIF_E_NOT_SUPPORTED, EsifUpDomain_DisableCap cap s1) else detect_all env cap ps s1)"

abbreviation is_ok :: "esif_rc \<Rightarrow> bool" where "is_ok rc \<equiv> rc = ESIF_OK"

abbreviation (input) GET_TEMPERATURE_THRESHOLD_HYSTERESIS :: u16 where "GET_TEMPERATURE_THRESHOLD_HYSTERESIS \<equiv> 15"
abbreviation (input) GET_RAPL_POWER :: u16 where "GET_RAPL_POWER \<equiv> 35"
abbreviation (input) GET_RAPL_POWER_CONTROL_CAPABILITIES :: u16 where "GET_RAPL_POWER_CONTROL_CAPABILITIES \<equiv> 75"
abbreviation (input) GET_PLATFORM_POWER_LIMIT_ENABLE :: u16 where "GET_PLATFORM_POWER_LIMIT_ENABLE \<equiv> 332"
abbreviation (input) GET_PERF_SUPPORT_STATES :: u16 where "GET_PERF_SUPPORT_STATES \<equiv> 137"
abbreviation (input) GET_PROC_PERF_SUPPORT_STATES :: u16 where "GET_PROC_PERF_SUPPORT_STATES \<equiv> 95"
abbreviation (input) GET_PROC_HWP_SUPPORT_CHECK :: u16 where "GET_PROC_HWP_SUPPORT_CHECK \<equiv> 311"
abbreviation (input) GET_PROC_HWP_ENABLE :: u16 where "GET_PROC_HWP_ENABLE \<equiv> 325"
abbreviation (input) GET_FAN_INFORMATION :: u16 where "GET_FAN_INFORMATION \<equiv> 84"
abbreviation (input) GET_FAN_CAPABILITIES :: u16 where "GET_FAN_CAPABILITIES \<equiv> 495"
abbreviation (input) GET_FAN_STATUS :: u16 where "GET_FAN_STATUS \<equiv> 86"
abbreviation (input) GET_FAN_PERFORMANCE_STATES :: u16 where "GET_FAN_PERFORMANCE_STATES \<equiv> 85"
abbreviation (input) GET_DISPLAY_BRIGHTNESS :: u16 where "GET_DISPLAY_BRIGHTNESS \<equiv> 356"
abbreviation (input) GET_DISPLAY_BRIGHTNESS_LEVELS :: u16 where "GET_DISPLAY_BRIGHTNESS_LEVELS \<equiv> 158"
abbreviation (input) GET_DISPLAY_DEPTH_LIMIT :: u16 where "GET_DISPLAY_DEPTH_LIMIT \<equiv> 160"
abbreviation (input) GET_AC_PEAK_POWER :: u16 where "GET_AC_PEAK_POWER \<equiv> 447"
abbreviation (input) GET_DC_PEAK_POWER :: u16 where "GET_DC_PEAK_POWER \<equiv> 451"
abbreviation (input) GET_TCC_OFFSET :: u16 where "GET_TCC_OFFSET \<equiv> 477"
abbreviation (input) GET_PLATFORM_POWER_SOURCE :: u16 where "GET_PLATFORM_POWER_SOURCE \<equiv> 295"
abbreviation (input) GET_RFPROFILE_CENTER_FREQUENCY :: u16 where "GET_RFPROFILE_CENTER_FREQUENCY \<equiv> 245"
abbreviation (input) GET_RF_ACTIVE_CHANNELS :: u16 where "GET_RF_ACTIVE_CHANNELS \<equiv> 897"
abbreviation (input) GET_AUTO_ENUM_LIST :: u16 where "GET_AUTO_ENUM_LIST \<equiv> 910"
abbreviation (input) GET_RFPROFILE_MIN_FREQUENCY :: u16 where "GET_RFPROFILE_MIN_FREQUENCY \<equiv> 498"
abbreviation (input) GET_RFPROFILE_MAX_FREQUENCY :: u16 where "GET_RFPROFILE_MAX_FREQUENCY \<equiv> 497"
abbreviation (input) GET_RAPL_ENERGY :: u16 where "GET_RAPL_ENERGY \<equiv> 128"
abbreviation (input) GET_RAPL_ENERGY_COUNTER_INFO :: u16 where "GET_RAPL_ENERGY_COUNTER_INFO \<equiv> 774"
abbreviation (input) GET_PARTICIPANT_RESIDENCY_UTILIZATION :: u16 where "GET_PARTICIPANT_RESIDENCY_UTILIZATION \<equiv> 443"
abbreviation (input) GET_CORE_ACTIVITY_COUNTER :: u16 where "GET_CORE_ACTIVITY_COUNTER \<equiv> 442"
abbreviation (input) GET_PROC_TSC :: u16 where "GET_PROC_TSC \<equiv> 312"
abbreviation (input) GET_PLATFORM_MAX_BATTERY_POWER :: u16 where "GET_PLATFORM_MAX_BATTERY_POWER \<equiv> 291"
abbreviation (input) GET_PLATFORM_BATTERY_STEADY_STATE :: u16 where "GET_PLATFORM_BATTERY_STEADY_STATE \<equiv> 294"
abbreviation (input) GET_CHARGER_TYPE :: u16 where "GET_CHARGER_TYPE \<equiv> 297"
abbreviation (input) GET_BATTERY_STATUS :: u16 where "GET_BATTERY_STATUS \<equiv> 223"
abbreviation (input) GET_BATTERY_INFORMATION :: u16 where "GET_BATTERY_INFORMATION \<equiv> 224"
abbreviation (input) GET_SOCWLC_SOURCE :: u16 where "GET_SOCWLC_SOURCE \<equiv> 941"
abbreviation (input) GET_HW_SOC_WORKLOAD :: u16 where "GET_HW_SOC_WORKLOAD \<equiv> 919"

definition EsifUpDomain_TempDetectInit :: "domain_env \<Rightarrow> dom_state \<Rightarrow> esif_rc \<times> dom_state" where
  "EsifUpDomain_TempDetectInit env s0 =
     (let s = set_ud (\<lambda>d. d\<lparr>tempPollType := ESIF_POLL_NONE\<rparr>) s0;
          (rc, _, s1) = EsifUpDomain_CapDetect env ESIF_CAPABILITY_TYPE_TEMP_STATUS GET_TEMPERATURE 255 s in
      if \<not> answered rc then
        (ESIF_E_NOT_SUPPORTED, EsifUpDomain_DisableCap ESIF_CAPABILITY_TYPE_TEMP_THRESHOLD
           (EsifUpDomain_DisableCap ESIF_CAPABILITY_TYPE_TEMP_STATUS (set_ud (\<lambda>d. d\<lparr>tempPollType := ESIF_POLL_UNSUPPORTED\<rparr>) s1)))
      else
        let (rc2, v, s2) = exec_get env GET_TEMPERATURE_THRESHOLD_HYSTERESIS (ud_domain (ud s1)) 255 s1;
            s3 = (case v of None \<Rightarrow> s2 | Some h \<Rightarrow> set_ud (\<lambda>d. d\<lparr>tempHysteresis := h\<rparr>) s2) in
        if rc2 \<noteq> ESIF_OK
        then (ESIF_OK, set_ud (\<lambda>d. d\<lparr>tempHysteresis := esif_temp_rel_to_abs ESIF_DOMAIN_HYST_DEF\<rparr>) s3)
        else (ESIF_OK, set_ud (\<lambda>d. d\<lparr>tempAux0 := ESIF_DOMAIN_TEMP_INVALID, tempAux1 := ESIF_DOMAIN_TEMP_INVALID\<rparr>) s3))"

definition EsifUpDomain_PowerStatusDetectInit :: "domain_env \<Rightarrow> dom_state \<Rightarrow> esif_rc \<times> dom_state" where
  "EsifUpDomain_PowerStatusDetectInit env = detect_any env answered ESIF_CAPABILITY_TYPE_POWER_STATUS [(GET_RAPL_POWER, 255)]"

definition EsifUpDomain_PowerControlDetectInit :: "domain_env \<Rightarrow> dom_state \<Rightarrow> esif_rc \<times> dom_state" where
  "EsifUpDomain_PowerControlDetectInit env =
     detect_any env answered ESIF_CAPABILITY_TYPE_POWER_CONTROL [(GET_RAPL_POWER_CONTROL_CAPABILITIES, 255)]"

definition EsifUpDomain_PsysDetectInit :: "domain_env \<Rightarrow> dom_state \<Rightarrow> esif_rc \<times> dom_state" where
  "EsifUpDomain_PsysDetectInit env =
     detect_any env answered ESIF_CAPABILITY_TYPE_PSYS_CONTROL [(GET_PLATFORM_POWER_LIMIT_ENABLE, 0)]"

text \<open>A flag of the hardware P-states; a response buffer that is not written keeps the value false.\<close>

definition hwp_flag :: "domain_env \<Rightarrow> u16 \<Rightarrow> dom_state \<Rightarrow> bool \<times> dom_state" where
  "hwp_flag env prim s =
     (let (rc, v, s1) = exec_get env prim (ud_domain (ud s)) 255 s in
      (rc = ESIF_OK \<and> (case v of None \<Rightarrow> False | Some x \<Rightarrow> x \<noteq> 0), s1))"

definition EsifUpDomain_IsHwpSupported :: "domain_env \<Rightarrow> dom_state \<Rightarrow> bool \<times> dom_state" where
  "EsifUpDomain_IsHwpSupported env = hwp_flag env GET_PROC_HWP_SUPPORT_CHECK"

definition EsifUpDomain_IsHwpEnabled :: "domain_env \<Rightarrow> dom_state \<Rightarrow> bool \<times> dom_state" where
  "EsifUpDomain_IsHwpEnabled env = hwp_flag env GET_PROC_HWP_ENABLE"

definition EsifUpDomain_IsHwpCapable :: "domain_env \<Rightarrow> dom_state \<Rightarrow> bool \<times> dom_state" where
  "EsifUpDomain_IsHwpCapable env s =
     (let (b, s1) = EsifUpDomain_IsHwpSupported env s in if b then EsifUpDomain_IsHwpEnabled env s1 else (False, s1))"

definition EsifUpDomain_ProcPerfDetect :: "domain_env \<Rightarrow> dom_state \<Rightarrow> esif_rc \<times> dom_state" where
  "EsifUpDomain_ProcPerfDetect env s =
     (let (rc, _, s1) = EsifUpDomain_CapDetect env ESIF_CAPABILITY_TYPE_PERF_CONTROL GET_PROC_PERF_SUPPORT_STATES 255 s in (rc, s1))"

definition EsifUpDomain_PerfDetectInit :: "domain_env \<Rightarrow> dom_state \<Rightarrow> esif_rc \<times> dom_state" where
  "EsifUpDomain_PerfDetectInit env s =
     (let (rc, _, s1) = EsifUpDomain_CapDetect env ESIF_CAPABILITY_TYPE_PERF_CONTROL GET_PERF_SUPPORT_STATES 255 s in
      if answered rc then (rc, s1)
      else
        let (rc1, s2) = EsifUpDomain_ProcPerfDetect env s1;
            (hwp, s3) = (if rc1 = ESIF_OK then EsifUpDomain_IsHwpCapable env s2 else (False, s2));
            rc2 = (if rc1 = ESIF_OK \<and> hwp then ESIF_E_NOT_SUPPORTED else rc1) in
        if answered rc2 then (rc2, s3)
        else (ESIF_E_NOT_SUPPORTED, EsifUpDomain_DisableCap ESIF_CAPABILITY_TYPE_PERF_CONTROL s3))"

definition EsifUpDomain_ActiveControlDetectInit :: "domain_env \<Rightarrow> dom_state \<Rightarrow> esif_rc \<times> dom_state" where
  "EsifUpDomain_ActiveControlDetectInit env = detect_any env is_ok ESIF_CAPABILITY_TYPE_ACTIVE_CONTROL
     [(GET_FAN_INFORMATION, 255), (GET_FAN_CAPABILITIES, 255), (GET_FAN_STATUS, 255), (GET_FAN_PERFORMANCE_STATES, 255)]"

definition EsifUpDomain_DisplayControlDetectInit :: "domain_env \<Rightarrow> dom_state \<Rightarrow> esif_rc \<times> dom_state" where
  "EsifUpDomain_DisplayControlDetectInit env = detect_any env is_ok ESIF_CAPABILITY_TYPE_DISPLAY_CONTROL
     [(GET_DISPLAY_BRIGHTNESS, 255), (GET_DISPLAY_BRIGHTNESS_LEVELS, 255), (GET_DISPLAY_DEPTH_LIMIT, 255)]"

definition EsifUpDomain_PeakPowerControlDetectInit :: "domain_env \<Rightarrow> dom_state \<Rightarrow> esif_rc \<times> dom_state" where
  "EsifUpDomain_PeakPowerControlDetectInit env = detect_all env ESIF_CAPABILITY_TYPE_PEAK_POWER_CONTROL
     [(GET_AC_PEAK_POWER, 255), (GET_DC_PEAK_POWER, 255)]"

definition EsifUpDomain_ProcessorControlDetectInit :: "domain_env \<Rightarrow> dom_state \<Rightarrow> esif_rc \<times> dom_state" where
  "EsifUpDomain_ProcessorControlDetectInit env = detect_all env ESIF_CAPABILITY_TYPE_PROCESSOR_CONTROL [(GET_TCC_OFFSET, 255)]"

definition EsifUpDomain_PlatformPowerStatusDetectInit :: "domain_env \<Rightarrow> dom_state \<Rightarrow> esif_rc \<times> dom_state" where
  "EsifUpDomain_PlatformPowerStatusDetectInit env =
     detect_all env ESIF_CAPABILITY_TYPE_PLAT_POWER_STATUS [(GET_PLATFORM_POWER_SOURCE, 255)]"

definition EsifUpDomain_RfProfileStatusDetectInit :: "domain_env \<Rightarrow> dom_state \<Rightarrow> esif_rc \<times> dom_state" where
  "EsifUpDomain_RfProfileStatusDetectInit env s =
     (let (rc, _, s1) = EsifUpDomain_CapDetect env ESIF_CAPABILITY_TYPE_RFPROFILE_STATUS GET_RFPROFILE_CENTER_FREQUENCY 255 s in
      if rc = ESIF_OK then (rc, s1)
      else let (rc1, _, s2) = EsifUpDomain_CapDetect env ESIF_CAPABILITY_TYPE_RFPROFILE_STATUS GET_RF_ACTIVE_CHANNELS 255 s1 in
        if rc1 = ESIF_OK then (rc1, s2)
        else let (rc2, s3) = exec_primary env GET_AUTO_ENUM_LIST s2 in
          if rc2 = ESIF_I_NO_LEGACY_SUPPORT then (rc2, s3)
          else (ESIF_E_NOT_SUPPORTED, EsifUpDomain_DisableCap ESIF_CAPABILITY_TYPE_RFPROFILE_STATUS s3))"

definition EsifUpDomain_RfProfileControlDetectInit :: "domain_env \<Rightarrow> dom_state \<Rightarrow> esif_rc \<times> dom_state" where
  "EsifUpDomain_RfProfileControlDetectInit env = detect_all env ESIF_CAPABILITY_TYPE_RFPROFILE_CONTROL
     [(GET_RFPROFILE_CENTER_FREQUENCY, 255), (GET_RFPROFILE_MIN_FREQUENCY, 255), (GET_RFPROFILE_MAX_FREQUENCY, 255)]"

definition EsifUpDomain_EnergyControlDetectInit :: "domain_env \<Rightarrow> dom_state \<Rightarrow> esif_rc \<times> dom_state" where
  "EsifUpDomain_EnergyControlDetectInit env = detect_any env is_ok ESIF_CAPABILITY_TYPE_ENERGY_CONTROL
     [(GET_RAPL_ENERGY, 255), (GET_RAPL_ENERGY_COUNTER_INFO, 255)]"

definition EsifUpDomain_ActivityStatusDetectInit :: "domain_env \<Rightarrow> dom_state \<Rightarrow> esif_rc \<times> dom_state" where
  "EsifUpDomain_ActivityStatusDetectInit env = detect_any env is_ok ESIF_CAPABILITY_TYPE_ACTIVITY_STATUS
     [(GET_PARTICIPANT_RESIDENCY_UTILIZATION, 255), (GET_CORE_ACTIVITY_COUNTER, 255), (GET_PROC_TSC, 255)]"

definition EsifUpDomain_BatteryStatusDetectInit :: "domain_env \<Rightarrow> dom_state \<Rightarrow> esif_rc \<times> dom_state" where
  "EsifUpDomain_BatteryStatusDetectInit env = detect_any env answered ESIF_CAPABILITY_TYPE_BATTERY_STATUS
     [(GET_PLATFORM_MAX_BATTERY_POWER, 255), (GET_PLATFORM_BATTERY_STEADY_STATE, 255), (GET_CHARGER_TYPE, 255),
      (GET_BATTERY_STATUS, 255), (GET_BATTERY_INFORMATION, 255)]"

definition EsifUpDomain_WorkloadClassificationDetectInit :: "domain_env \<Rightarrow> dom_state \<Rightarrow> esif_rc \<times> dom_state" where
  "EsifUpDomain_WorkloadClassificationDetectInit env s =
     (let (rc, v, s1) = EsifUpDomain_CapDetect env ESIF_CAPABILITY_TYPE_WORKLOAD_CLASSIFICATION GET_SOCWLC_SOURCE 255 s in
      if rc = ESIF_OK \<and> v = Some ESIF_SOCWC_SOURCE_HARDWARE
      then detect_any env is_ok ESIF_CAPABILITY_TYPE_WORKLOAD_CLASSIFICATION [(GET_HW_SOC_WORKLOAD, 255)] s1
      else (rc, s1))"

definition EsifUpDomain_StateDetectInit :: "domain_env \<Rightarrow> dom_state \<Rightarrow> esif_rc \<times> dom_state" where
  "EsifUpDomain_StateDetectInit env s0 =
     (let s = set_ud (\<lambda>d. d\<lparr>lastState := ESIF_DOMAIN_STATE_INVALID\<rparr>) s0;
          (rc, v, s1) = EsifUpDomain_CapDetect env ESIF_CAPABILITY_TYPE_PERF_CONTROL GET_PARTICIPANT_PERF_PRESENT_CAPABILITY 255 s in
      if \<not> answered rc then (ESIF_E_NOT_SUPPORTED, set_ud (\<lambda>d. d\<lparr>statePollType := ESIF_POLL_UNSUPPORTED\<rparr>) s1)
      else (rc, set_ud (\<lambda>d. d\<lparr>lastState := (case v of None \<Rightarrow> ESIF_DOMAIN_STATE_INVALID | Some x \<Rightarrow> x)\<rparr>)
                  (snd (EsifUpDomain_SetStatePollPeriod env PERF_STATE_POLL_PERIOD s1))))"

section \<open>Initialisation\<close>

text \<open>\<open>zero\<close> is the domain as the participant was allocated: every field zero.\<close>

definition EsifUpDomain_zero :: EsifUpDomain where
  "EsifUpDomain_zero = \<lparr>ud_domain = 0, domainPriority = 0,
     capability_for_domain = \<lparr>capability_flags = 0, number_of_capability_flags = 0, capability_mask = replicate 32 0\<rparr>,
     domainType = 0, ud_participantId = 0, tempPollTimer = None, tempPollPeriod = 0, virtTemp = 0, tempAux0 = 0, tempAux1 = 0,
     tempAux0WHyst = 0, tempHysteresis = 0, tempNotifySent = False, tempPollType = ESIF_POLL_NONE, tempPollInitialized = False,
     tempLastTempValid = False, tempInvalidValueDetected = False, lastState = 0, statePollTimer = None, statePollPeriod = 0,
     statePollType = ESIF_POLL_NONE, statePollInitialized = False, tempLock = False, capsLock = False\<rparr>"

definition EsifUpDomain_InitDomain :: "esif_fpc_domain \<Rightarrow> EsifUpDomain \<Rightarrow> EsifUpDomain" where
  "EsifUpDomain_InitDomain fpc self = self\<lparr>ud_domain := fpc_domain fpc, domainPriority := fpc_priority fpc,
     domainType := fpc_domainType fpc, capability_for_domain := fpc_capability fpc, ud_participantId := ESIF_INVALID_HANDLE,
     tempLock := True, capsLock := True\<rparr>"

definition EsifUpDomain_UnInitDomain :: "EsifUpDomain \<Rightarrow> EsifUpDomain" where
  "EsifUpDomain_UnInitDomain self = self\<lparr>capsLock := False, tempLock := False\<rparr>"

abbreviation (input) GET_PARTICIPANT_SAMPLE_PERIOD :: u16 where "GET_PARTICIPANT_SAMPLE_PERIOD \<equiv> 300"
abbreviation (input) SET_PARTICIPANT_SAMPLE_BEHAVIOR :: u16 where "SET_PARTICIPANT_SAMPLE_BEHAVIOR \<equiv> 302"
abbreviation (input) GET_POWER_SAMPLE_PERIOD :: u16 where "GET_POWER_SAMPLE_PERIOD \<equiv> 278"
abbreviation (input) SET_POWER_SAMPLE_BEHAVIOR :: u16 where "SET_POWER_SAMPLE_BEHAVIOR \<equiv> 384"

text \<open>The action that sets the sample period; it reports success whatever the timer says.\<close>

definition EsifSetActionDelegateSampleBehavior :: "domain_env \<Rightarrow> u32 \<Rightarrow> dom_state \<Rightarrow> esif_rc \<times> dom_state" where
  "EsifSetActionDelegateSampleBehavior env samplePeriod s = (ESIF_OK, snd (EsifUpDomain_SetTempPollPeriod env samplePeriod s))"

definition exec_set_period :: "domain_env \<Rightarrow> u16 \<Rightarrow> u32 \<Rightarrow> dom_state \<Rightarrow> esif_rc \<times> dom_state" where
  "exec_set_period env prim v s =
     (let t = \<lparr>tup_id = prim, tup_domain = ud_domain (ud s), tup_instance = 255\<rparr> in
      if is_sample_action env t then EsifSetActionDelegateSampleBehavior env v s
      else let rc = on_set env (dcalls s) t v in (rc, s\<lparr>dcalls := dcalls s @ [(CallSet t v, rc)]\<rparr>))"

definition init_poll :: "domain_env \<Rightarrow> u16 \<Rightarrow> u16 \<Rightarrow> dom_state \<Rightarrow> esif_rc \<times> dom_state" where
  "init_poll env get_period set_behavior s =
     (let (rc, v, s1) = exec_get env get_period (ud_domain (ud s)) 255 s in
      if rc = ESIF_OK then exec_set_period env set_behavior (case v of None \<Rightarrow> 0 | Some p \<Rightarrow> p) s1 else (rc, s1))"

definition EsifUpDomain_InitTempPoll :: "domain_env \<Rightarrow> dom_state \<Rightarrow> esif_rc \<times> dom_state" where
  "EsifUpDomain_InitTempPoll env = init_poll env GET_PARTICIPANT_SAMPLE_PERIOD SET_PARTICIPANT_SAMPLE_BEHAVIOR"

definition EsifUpDomain_InitPowerPoll :: "domain_env \<Rightarrow> dom_state \<Rightarrow> esif_rc \<times> dom_state" where
  "EsifUpDomain_InitPowerPoll env = init_poll env GET_POWER_SAMPLE_PERIOD SET_POWER_SAMPLE_BEHAVIOR"

text \<open>The detections run in order as long as the last return code is one of the accepted ones.\<close>

definition definite :: "esif_rc \<Rightarrow> bool" where
  "definite rc \<longleftrightarrow> rc = ESIF_OK \<or> rc = ESIF_E_NOT_SUPPORTED"

definition after_rc :: "(esif_rc \<Rightarrow> bool) \<Rightarrow> (dom_state \<Rightarrow> esif_rc \<times> dom_state) \<Rightarrow> esif_rc \<times> dom_state \<Rightarrow> esif_rc \<times> dom_state" where
  "after_rc good f r = (if good (fst r) then f (snd r) else r)"

abbreviation tolerated :: "esif_rc \<Rightarrow> bool" where
  "tolerated rc \<equiv> answered rc \<or> rc = ESIF_E_NOT_SUPPORTED"

definition first_detections :: "domain_env \<Rightarrow> dom_state \<Rightarrow> esif_rc \<times> dom_state" where
  "first_detections env s =
     after_rc tolerated (EsifUpDomain_BatteryStatusDetectInit env)
     (after_rc tolerated (EsifUpDomain_PerfDetectInit env)
     (after_rc tolerated (EsifUpDomain_PsysDetectInit env)
     (after_rc tolerated (EsifUpDomain_PowerControlDetectInit env)
     (after_rc tolerated (EsifUpDomain_PowerStatusDetectInit env)
     (EsifUpDomain_TempDetectInit env
        (snd (EsifUpDomain_InitPowerPoll env (snd (EsifUpDomain_InitTempPoll env s)))))))))"

definition later_detections :: "domain_env \<Rightarrow> esif_rc \<times> dom_state \<Rightarrow> esif_rc \<times> dom_state" where
  "later_detections env r =
     after_rc definite (EsifUpDomain_WorkloadClassificationDetectInit env)
     (after_rc definite (EsifUpDomain_ActivityStatusDetectInit env)
     (after_rc definite (EsifUpDomain_EnergyControlDetectInit env)
     (after_rc definite (EsifUpDomain_RfProfileControlDetectInit env)
     (after_rc definite (EsifUpDomain_RfProfileStatusDetectInit env)
     (after_rc definite (EsifUpDomain_PlatformPowerStatusDetectInit env)
     (after_rc definite (EsifUpDomain_ProcessorControlDetectInit env)
     (after_rc definite (EsifUpDomain_PeakPowerControlDetectInit env)
     (after_rc definite (EsifUpDomain_DisplayControlDetectInit env)
     (after_rc definite (EsifUpDomain_ActiveControlDetectInit env) r)))))))))"

definition EsifUpDomain_DspReadyInit :: "domain_env \<Rightarrow> dom_state \<Rightarrow> esif_rc \<times> dom_state" where
  "EsifUpDomain_DspReadyInit env s =
     (let (rc, s1) = after_rc tolerated (EsifUpDomain_StateDetectInit env) (later_detections env (first_detections env s)) in
      (if tolerated rc then ESIF_OK else rc, s1))"

end
