(* ===== verification/Domain_Spec.thy ===== *)
theory Domain_Spec
  imports Domain
begin

text \<open>
  Correctness of the domains: the well-formedness of the capabilities and what detection
  guarantees, the thresholds, and when a temperature poll posts an event.
\<close>

section \<open>Capabilities\<close>

text \<open>The count agrees with the flags and there is a mask for each of them.\<close>

definition caps_wf :: "EsifDomainCapability \<Rightarrow> bool" where
  "caps_wf c \<longleftrightarrow> number_of_capability_flags c = of_nat (card {i. i < 32 \<and> bit (capability_flags c) i}) \<and> length (capability_mask c) = 32"

lemma bit_disable_cap:
  "bit (capability_flags (disable_cap cap c)) i \<longleftrightarrow> bit (capability_flags c) i \<and> i \<noteq> cap"
  by (auto simp: disable_cap_def bit_and_iff bit_not_iff bit_exp_iff dest: bit_imp_le_length)

lemma caps_wf_disable:
  assumes "caps_wf c"
  shows "caps_wf (disable_cap cap c)"
proof (cases "bit (capability_flags c) cap")
  case True
  then have "cap < 32" using bit_imp_le_length [of "capability_flags c" cap] by simp
  let ?A = "{i. i < 32 \<and> bit (capability_flags c) i}"
  have "{i. i < 32 \<and> bit (capability_flags (disable_cap cap c)) i} = ?A - {cap}" by (auto simp: bit_disable_cap)
  moreover have "card ?A = Suc (card (?A - {cap}))" using True \<open>cap < 32\<close> by (intro card.remove) auto
  ultimately show ?thesis using assms True by (simp add: caps_wf_def) (simp add: disable_cap_def)
qed (use assms in \<open>simp add: disable_cap_def\<close>)

lemma count_caps_card: "k \<le> 32 \<Longrightarrow> count_caps flags k n = n + of_nat (card {i. 32 - k \<le> i \<and> i < 32 \<and> bit flags i})"
proof (induction k arbitrary: n)
  case 0
  have e: "{i. 32 - 0 \<le> i \<and> i < 32 \<and> bit flags i} = {}" by auto
  show ?case unfolding count_caps.simps e by simp
next
  case (Suc k)
  let ?A = "{i. 32 - k \<le> i \<and> i < 32 \<and> bit flags i}"
  have "32 - Suc k \<le> i \<longleftrightarrow> i = 31 - k \<or> 32 - k \<le> i" for i using Suc.prems by linarith
  then have "{i. 32 - Suc k \<le> i \<and> i < 32 \<and> bit flags i} = {i. (i = 31 - k \<or> 32 - k \<le> i) \<and> i < 32 \<and> bit flags i}" by blast
  also have "\<dots> = (if bit flags (31 - k) then insert (31 - k) ?A else ?A)" by auto
  finally have "{i. 32 - Suc k \<le> i \<and> i < 32 \<and> bit flags i} = (if bit flags (31 - k) then insert (31 - k) ?A else ?A)" .
  moreover have "31 - k \<notin> ?A" using Suc.prems by auto
  moreover have "finite ?A" by simp
  ultimately show ?case using Suc by simp
qed

lemma caps_wf_enable:
  "length m = 32 \<Longrightarrow> caps_wf \<lparr>capability_flags = flags, number_of_capability_flags = count_caps flags 32 0, capability_mask = m\<rparr>"
  by (simp add: caps_wf_def count_caps_card)

text \<open>
  What a detection may do to a domain: clear flags of \<open>caps\<close>, keep the rest of the flags, and
  append to the calls.
\<close>

definition narrowed :: "nat set \<Rightarrow> dom_state \<Rightarrow> dom_state \<Rightarrow> bool" where
  "narrowed caps s s' \<longleftrightarrow>
     (\<forall>c. has_cap (ud s') c \<longrightarrow> has_cap (ud s) c) \<and> (\<forall>c. c \<notin> caps \<longrightarrow> has_cap (ud s') c = has_cap (ud s) c)
     \<and> (caps_wf (capability_for_domain (ud s)) \<longrightarrow> caps_wf (capability_for_domain (ud s')))
     \<and> ud_domain (ud s') = ud_domain (ud s) \<and> set (dcalls s) \<subseteq> set (dcalls s')"

lemma narrowed_refl [simp]: "narrowed caps s s"
  by (simp add: narrowed_def)

lemma narrowed_trans: "narrowed A s s1 \<Longrightarrow> narrowed B s1 s2 \<Longrightarrow> narrowed (A \<union> B) s s2"
  unfolding narrowed_def by (metis UnCI subset_trans)

lemma narrowed_mono: "narrowed A s s1 \<Longrightarrow> A \<subseteq> B \<Longrightarrow> narrowed B s s1"
  unfolding narrowed_def by blast

lemma narrowed_step [trans]: "narrowed A s s1 \<Longrightarrow> narrowed A s1 s2 \<Longrightarrow> narrowed A s s2"
  using narrowed_trans [of A s s1 A s2] by simp

lemma narrowed_disable: "narrowed {cap} s (EsifUpDomain_DisableCap cap s)"
  by (auto simp: narrowed_def EsifUpDomain_DisableCap_def bit_disable_cap caps_wf_disable)

lemma cap_disabled [simp]: "\<not> has_cap (ud (EsifUpDomain_DisableCap cap s)) cap"
  by (simp add: EsifUpDomain_DisableCap_def bit_disable_cap)

lemma narrowed_same: "capability_for_domain (f (ud s)) = capability_for_domain (ud s) \<Longrightarrow> ud_domain (f (ud s)) = ud_domain (ud s)
    \<Longrightarrow> narrowed caps s (set_ud f s)"
  by (simp add: narrowed_def)

lemma narrowed_exec:
  "exec_get env prim dmn inst s = (rc, v, s') \<Longrightarrow> narrowed caps s s' \<and> ud s' = ud s \<and> devents s' = devents s
     \<and> (CallGet \<lparr>tup_id = prim, tup_domain = dmn, tup_instance = inst\<rparr>, rc) \<in> set (dcalls s')"
  by (auto simp: exec_get_def narrowed_def Let_def split: prod.splits)

lemma narrowed_detect:
  assumes "EsifUpDomain_CapDetect env cap prim inst s = (rc, v, s')"
  shows "narrowed caps s s' \<and> ud s' = ud s \<and> (rc = ESIF_E_NOT_SUPPORTED
     \<or> (CallGet \<lparr>tup_id = prim, tup_domain = ud_domain (ud s), tup_instance = inst\<rparr>, rc) \<in> set (dcalls s'))"
  using assms narrowed_exec [of env prim "ud_domain (ud s)" inst s rc v s' caps]
  by (auto simp: EsifUpDomain_CapDetect_def split: if_splits)

text \<open>An accepted answer to one of the primitives is among the calls.\<close>

definition confirmed :: "(esif_rc \<Rightarrow> bool) \<Rightarrow> (u16 \<times> u8) list \<Rightarrow> dom_state \<Rightarrow> bool" where
  "confirmed good prims s \<longleftrightarrow> (\<exists>(prim, inst)\<in>set prims. \<exists>rc. good rc
     \<and> (CallGet \<lparr>tup_id = prim, tup_domain = ud_domain (ud s), tup_instance = inst\<rparr>, rc) \<in> set (dcalls s))"

lemma confirmed_narrowed: "confirmed good prims s \<Longrightarrow> narrowed caps s s' \<Longrightarrow> confirmed good prims s'"
  unfolding confirmed_def narrowed_def by (elim conjE bexE) (force intro: bexI)

lemma detect_any_spec:
  assumes "detect_any env good cap prims s = (rc, s')" "\<not> good ESIF_E_NOT_SUPPORTED"
  shows "narrowed {cap} s s' \<and> (good rc \<or> rc = ESIF_E_NOT_SUPPORTED) \<and> (has_cap (ud s') cap \<longrightarrow> confirmed good prims s')"
  using assms
proof (induction env good cap prims s rule: detect_any.induct)
  case (1 env good cap s)
  then show ?case by (auto simp: narrowed_disable)
next
  case (2 env good cap prim inst ps s)
  obtain rc1 v s1 where d: "EsifUpDomain_CapDetect env cap prim inst s = (rc1, v, s1)" by (metis prod_cases3)
  note n = narrowed_detect [OF d, of "{cap}"]
  show ?case
  proof (cases "good rc1")
    case True
    with 2 d n show ?thesis by (auto simp: confirmed_def)
  next
    case False
    with 2 d have "narrowed {cap} s1 s' \<and> (good rc \<or> rc = ESIF_E_NOT_SUPPORTED) \<and> (has_cap (ud s') cap \<longrightarrow> confirmed good ps s')"
      by (intro "2.IH" [OF d [symmetric] refl refl]) auto
    with n show ?thesis by (auto simp: confirmed_def intro: narrowed_step)
  qed
qed

lemma detect_all_spec:
  assumes "detect_all env cap prims s = (rc, s')"
  shows "narrowed {cap} s s' \<and> definite rc \<and> (has_cap (ud s') cap \<longrightarrow> (\<forall>p\<in>set prims. confirmed is_ok [p] s'))"
  using assms
proof (induction env cap prims s rule: detect_all.induct)
  case (1 env cap s)
  then show ?case by (auto simp: definite_def)
next
  case (2 env cap prim inst ps s)
  obtain rc1 v s1 where d: "EsifUpDomain_CapDetect env cap prim inst s = (rc1, v, s1)" by (metis prod_cases3)
  note n = narrowed_detect [OF d, of "{cap}"]
  show ?case
  proof (cases "rc1 = ESIF_OK")
    case True
    with 2 d have r: "narrowed {cap} s1 s' \<and> definite rc \<and> (has_cap (ud s') cap \<longrightarrow> (\<forall>p\<in>set ps. confirmed is_ok [p] s'))"
      by (intro "2.IH" [OF d [symmetric] refl refl]) auto
    have "confirmed is_ok [(prim, inst)] s1" using n True by (auto simp: confirmed_def)
    then have "confirmed is_ok [(prim, inst)] s'" using r confirmed_narrowed by blast
    with n r show ?thesis by (auto intro: narrowed_step)
  next
    case False
    with 2 d have s': "s' = EsifUpDomain_DisableCap cap s1" "rc = ESIF_E_NOT_SUPPORTED" by auto
    then have "narrowed {cap} s s'" using n narrowed_step narrowed_disable by blast
    then show ?thesis by (simp add: s' definite_def)
  qed
qed

subsection \<open>The contract of a detection\<close>

text \<open>
  What a capability that is still there after detection rests on: for each group of primitives an
  accepted answer to one of the group.
\<close>

definition cap_table :: "(nat \<times> (esif_rc \<Rightarrow> bool) \<times> (u16 \<times> u8) list list) list" where
  "cap_table = [
     (ESIF_CAPABILITY_TYPE_ACTIVE_CONTROL, is_ok,
       [[(GET_FAN_INFORMATION, 255), (GET_FAN_CAPABILITIES, 255), (GET_FAN_STATUS, 255), (GET_FAN_PERFORMANCE_STATES, 255)]]),
     (ESIF_CAPABILITY_TYPE_DISPLAY_CONTROL, is_ok,
       [[(GET_DISPLAY_BRIGHTNESS, 255), (GET_DISPLAY_BRIGHTNESS_LEVELS, 255), (GET_DISPLAY_DEPTH_LIMIT, 255)]]),
     (ESIF_CAPABILITY_TYPE_PERF_CONTROL, answered, [[(GET_PERF_SUPPORT_STATES, 255), (GET_PROC_PERF_SUPPORT_STATES, 255)]]),
     (ESIF_CAPABILITY_TYPE_POWER_CONTROL, answered, [[(GET_RAPL_POWER_CONTROL_CAPABILITIES, 255)]]),
     (ESIF_CAPABILITY_TYPE_POWER_STATUS, answered, [[(GET_RAPL_POWER, 255)]]),
     (ESIF_CAPABILITY_TYPE_TEMP_STATUS, answered, [[(GET_TEMPERATURE, 255)]]),
     (ESIF_CAPABILITY_TYPE_TEMP_THRESHOLD, answered, [[(GET_TEMPERATURE, 255)]]),
     (ESIF_CAPABILITY_TYPE_PEAK_POWER_CONTROL, is_ok, [[(GET_AC_PEAK_POWER, 255)], [(GET_DC_PEAK_POWER, 255)]]),
     (ESIF_CAPABILITY_TYPE_PROCESSOR_CONTROL, is_ok, [[(GET_TCC_OFFSET, 255)]]),
     (ESIF_CAPABILITY_TYPE_PLAT_POWER_STATUS, is_ok, [[(GET_PLATFORM_POWER_SOURCE, 255)]]),
     (ESIF_CAPABILITY_TYPE_RFPROFILE_STATUS, is_ok, [[(GET_RFPROFILE_CENTER_FREQUENCY, 255), (GET_RF_ACTIVE_CHANNELS, 255)]]),
     (ESIF_CAPABILITY_TYPE_RFPROFILE_CONTROL, is_ok,
       [[(GET_RFPROFILE_CENTER_FREQUENCY, 255)], [(GET_RFPROFILE_MIN_FREQUENCY, 255)], [(GET_RFPROFILE_MAX_FREQUENCY, 255)]]),
     (ESIF_CAPABILITY_TYPE_ENERGY_CONTROL, is_ok, [[(GET_RAPL_ENERGY, 255), (GET_RAPL_ENERGY_COUNTER_INFO, 255)]]),
     (ESIF_CAPABILITY_TYPE_ACTIVITY_STATUS, is_ok,
       [[(GET_PARTICIPANT_RESIDENCY_UTILIZATION, 255), (GET_CORE_ACTIVITY_COUNTER, 255), (GET_PROC_TSC, 255)]]),
     (ESIF_CAPABILITY_TYPE_PSYS_CONTROL, answered, [[(GET_PLATFORM_POWER_LIMIT_ENABLE, 0)]]),
     (ESIF_CAPABILITY_TYPE_BATTERY_STATUS, answered,
       [[(GET_PLATFORM_MAX_BATTERY_POWER, 255), (GET_PLATFORM_BATTERY_STEADY_STATE, 255), (GET_CHARGER_TYPE, 255),
         (GET_BATTERY_STATUS, 255), (GET_BATTERY_INFORMATION, 255)]])]"

definition cap_evidence :: "nat \<Rightarrow> dom_state \<Rightarrow> bool" where
  "cap_evidence cap s = (case map_of cap_table cap of None \<Rightarrow> False
     | Some (good, groups) \<Rightarrow> \<forall>prims\<in>set groups. confirmed good prims s)"

lemma cap_evidence_narrowed: "cap_evidence cap s \<Longrightarrow> narrowed caps s s' \<Longrightarrow> cap_evidence cap s'"
  by (auto simp: cap_evidence_def confirmed_narrowed split: option.splits)

definition evident :: "nat set \<Rightarrow> dom_state \<Rightarrow> bool" where
  "evident caps s \<longleftrightarrow> (\<forall>cap\<in>caps. has_cap (ud s) cap \<longrightarrow> cap_evidence cap s)"

lemma evident_narrowed: "evident caps s \<Longrightarrow> narrowed caps' s s' \<Longrightarrow> evident caps s'"
  unfolding evident_def using cap_evidence_narrowed [of _ s caps' s'] by (auto simp: narrowed_def)

locale cap_check =
  fixes run :: "dom_state \<Rightarrow> esif_rc \<times> dom_state" and caps :: "nat set" and outcome :: "esif_rc \<Rightarrow> bool"
  assumes narrows: "narrowed caps s (snd (run s))"
    and outcomes: "outcome (fst (run s))"
    and evidence: "evident caps (snd (run s))"
begin

text \<open>A step of the chain adds its capabilities to the ones that are settled.\<close>

lemma run_after:
  assumes "narrowed A s (snd r)" "evident A (snd r)" "good (fst r)"
  shows "narrowed (A \<union> caps) s (snd (after_rc good run r)) \<and> evident (A \<union> caps) (snd (after_rc good run r))
     \<and> outcome (fst (after_rc good run r))"
proof -
  have "evident A (snd (run (snd r)))" using assms(2) narrows by (rule evident_narrowed)
  with evidence have "evident (A \<union> caps) (snd (run (snd r)))" by (auto simp: evident_def)
  with narrowed_trans [OF assms(1) narrows] outcomes assms(3) show ?thesis by (simp add: after_rc_def)
qed

lemma narrows_after: "narrowed caps (snd r) (snd (after_rc good run r))"
  using narrows by (simp add: after_rc_def)

end

lemma not_answered [simp]: "\<not> answered ESIF_E_NOT_SUPPORTED" and answered_ok [simp]: "answered ESIF_OK"
  by (simp_all add: answered_def)

lemma cap_check_any:
  assumes "\<not> good ESIF_E_NOT_SUPPORTED" "\<And>s. cap_evidence cap s = confirmed good prims s"
  shows "cap_check (detect_any env good cap prims) {cap} (\<lambda>rc. good rc \<or> rc = ESIF_E_NOT_SUPPORTED)"
  using detect_any_spec [where good = good, OF prod.collapse [symmetric] assms(1)]
  by unfold_locales (simp_all add: evident_def assms(2))

lemma cap_check_all:
  assumes "\<And>s. cap_evidence cap s = (\<forall>p\<in>set prims. confirmed is_ok [p] s)"
  shows "cap_check (detect_all env cap prims) {cap} definite"
  using detect_all_spec [OF prod.collapse [symmetric]]
  by unfold_locales (simp_all add: evident_def assms)

lemmas evidence_simps = cap_evidence_def cap_table_def

interpretation power_status: cap_check "EsifUpDomain_PowerStatusDetectInit env" "{ESIF_CAPABILITY_TYPE_POWER_STATUS}" tolerated for env
  unfolding EsifUpDomain_PowerStatusDetectInit_def by (rule cap_check_any) (simp_all add: evidence_simps)

interpretation power_control: cap_check "EsifUpDomain_PowerControlDetectInit env" "{ESIF_CAPABILITY_TYPE_POWER_CONTROL}" tolerated for env
  unfolding EsifUpDomain_PowerControlDetectInit_def by (rule cap_check_any) (simp_all add: evidence_simps)

interpretation psys: cap_check "EsifUpDomain_PsysDetectInit env" "{ESIF_CAPABILITY_TYPE_PSYS_CONTROL}" tolerated for env
  unfolding EsifUpDomain_PsysDetectInit_def by (rule cap_check_any) (simp_all add: evidence_simps)

interpretation battery: cap_check "EsifUpDomain_BatteryStatusDetectInit env" "{ESIF_CAPABILITY_TYPE_BATTERY_STATUS}" tolerated for env
  unfolding EsifUpDomain_BatteryStatusDetectInit_def by (rule cap_check_any) (simp_all add: evidence_simps)

lemma cap_check_ok:
  assumes "\<And>s. cap_evidence cap s = confirmed is_ok prims s"
  shows "cap_check (detect_any env is_ok cap prims) {cap} definite"
  using cap_check_any [of is_ok cap prims env] assms by (simp add: definite_def [abs_def])

interpretation active: cap_check "EsifUpDomain_ActiveControlDetectInit env" "{ESIF_CAPABILITY_TYPE_ACTIVE_CONTROL}" definite for env
  unfolding EsifUpDomain_ActiveControlDetectInit_def by (rule cap_check_ok) (simp add: evidence_simps)

interpretation display: cap_check "EsifUpDomain_DisplayControlDetectInit env" "{ESIF_CAPABILITY_TYPE_DISPLAY_CONTROL}" definite for env
  unfolding EsifUpDomain_DisplayControlDetectInit_def by (rule cap_check_ok) (simp add: evidence_simps)

interpretation energy: cap_check "EsifUpDomain_EnergyControlDetectInit env" "{ESIF_CAPABILITY_TYPE_ENERGY_CONTROL}" definite for env
  unfolding EsifUpDomain_EnergyControlDetectInit_def by (rule cap_check_ok) (simp add: evidence_simps)

interpretation activity: cap_check "EsifUpDomain_ActivityStatusDetectInit env" "{ESIF_CAPABILITY_TYPE_ACTIVITY_STATUS}" definite for env
  unfolding EsifUpDomain_ActivityStatusDetectInit_def by (rule cap_check_ok) (simp add: evidence_simps)

interpretation peak_power: cap_check "EsifUpDomain_PeakPowerControlDetectInit env" "{ESIF_CAPABILITY_TYPE_PEAK_POWER_CONTROL}" definite for env
  unfolding EsifUpDomain_PeakPowerControlDetectInit_def by (rule cap_check_all) (simp add: evidence_simps)

interpretation processor: cap_check "EsifUpDomain_ProcessorControlDetectInit env" "{ESIF_CAPABILITY_TYPE_PROCESSOR_CONTROL}" definite for env
  unfolding EsifUpDomain_ProcessorControlDetectInit_def by (rule cap_check_all) (simp add: evidence_simps)

interpretation platform_power: cap_check "EsifUpDomain_PlatformPowerStatusDetectInit env" "{ESIF_CAPABILITY_TYPE_PLAT_POWER_STATUS}" definite for env
  unfolding EsifUpDomain_PlatformPowerStatusDetectInit_def by (rule cap_check_all) (simp add: evidence_simps)

interpretation rf_control: cap_check "EsifUpDomain_RfProfileControlDetectInit env" "{ESIF_CAPABILITY_TYPE_RFPROFILE_CONTROL}" definite for env
  unfolding EsifUpDomain_RfProfileControlDetectInit_def by (rule cap_check_all) (simp add: evidence_simps)

interpretation temperature: cap_check "EsifUpDomain_TempDetectInit env" "{ESIF_CAPABILITY_TYPE_TEMP_STATUS, ESIF_CAPABILITY_TYPE_TEMP_THRESHOLD}" definite for env
proof
  fix s
  let ?caps = "{ESIF_CAPABILITY_TYPE_TEMP_STATUS, ESIF_CAPABILITY_TYPE_TEMP_THRESHOLD}"
  let ?s0 = "set_ud (\<lambda>d. d\<lparr>tempPollType := ESIF_POLL_NONE\<rparr>) s"
  obtain rc v s1 where d: "EsifUpDomain_CapDetect env ESIF_CAPABILITY_TYPE_TEMP_STATUS GET_TEMPERATURE 255 ?s0 = (rc, v, s1)"
    by (metis prod_cases3)
  have "narrowed ?caps s ?s0" by (rule narrowed_same) simp_all
  then have n0: "narrowed ?caps s s1" using narrowed_detect [OF d, THEN conjunct1] by (rule narrowed_step)
  have "narrowed ?caps s (snd (EsifUpDomain_TempDetectInit env s)) \<and> definite (fst (EsifUpDomain_TempDetectInit env s))
      \<and> evident ?caps (snd (EsifUpDomain_TempDetectInit env s))"
  proof (cases "answered rc")
    case False
    let ?f = "set_ud (\<lambda>d. d\<lparr>tempPollType := ESIF_POLL_UNSUPPORTED\<rparr>) s1"
    let ?g = "EsifUpDomain_DisableCap ESIF_CAPABILITY_TYPE_TEMP_STATUS ?f"
    have r: "EsifUpDomain_TempDetectInit env s = (ESIF_E_NOT_SUPPORTED, EsifUpDomain_DisableCap ESIF_CAPABILITY_TYPE_TEMP_THRESHOLD ?g)"
      using d False by (simp add: EsifUpDomain_TempDetectInit_def)
    have f: "narrowed ?caps s1 ?f" by (rule narrowed_same) simp_all
    have g: "narrowed ?caps ?f ?g" by (rule narrowed_mono [OF narrowed_disable]) simp
    have h: "narrowed ?caps ?g (EsifUpDomain_DisableCap ESIF_CAPABILITY_TYPE_TEMP_THRESHOLD ?g)"
      by (rule narrowed_mono [OF narrowed_disable]) simp
    have "narrowed ?caps s (snd (EsifUpDomain_TempDetectInit env s))"
      unfolding r snd_conv by (rule narrowed_step [OF narrowed_step [OF narrowed_step [OF n0 f] g] h])
    moreover have "evident ?caps (EsifUpDomain_DisableCap ESIF_CAPABILITY_TYPE_TEMP_THRESHOLD ?g)"
      by (simp add: evident_def EsifUpDomain_DisableCap_def bit_disable_cap)
    ultimately show ?thesis by (simp add: r definite_def)
  next
    case True
    obtain rc2 h s2 where g: "exec_get env GET_TEMPERATURE_THRESHOLD_HYSTERESIS (ud_domain (ud s1)) 255 s1 = (rc2, h, s2)"
      by (metis prod_cases3)
    let ?s3 = "case h of None \<Rightarrow> s2 | Some x \<Rightarrow> set_ud (\<lambda>d. d\<lparr>tempHysteresis := x\<rparr>) s2"
    have "narrowed ?caps s2 ?s3" by (cases h) (simp_all add: narrowed_same)
    then have n3: "narrowed ?caps s1 ?s3" by (rule narrowed_step [OF narrowed_exec [OF g, THEN conjunct1]])
    have r: "EsifUpDomain_TempDetectInit env s = (ESIF_OK, if rc2 \<noteq> ESIF_OK
        then set_ud (\<lambda>d. d\<lparr>tempHysteresis := esif_temp_rel_to_abs ESIF_DOMAIN_HYST_DEF\<rparr>) ?s3
        else set_ud (\<lambda>d. d\<lparr>tempAux0 := ESIF_DOMAIN_TEMP_INVALID, tempAux1 := ESIF_DOMAIN_TEMP_INVALID\<rparr>) ?s3)"
      using d True g by (simp add: EsifUpDomain_TempDetectInit_def Let_def)
    have m: "narrowed ?caps s1 (snd (EsifUpDomain_TempDetectInit env s))"
      unfolding r snd_conv by (rule narrowed_step [OF n3]) (simp add: narrowed_def)
    have n: "narrowed ?caps s (snd (EsifUpDomain_TempDetectInit env s))" "definite (fst (EsifUpDomain_TempDetectInit env s))"
      using narrowed_step [OF n0 m] by (simp_all add: r definite_def)
    have "rc \<noteq> ESIF_E_NOT_SUPPORTED" using True by auto
    with narrowed_detect [OF d] True have "confirmed answered [(GET_TEMPERATURE, 255)] s1"
      by (auto simp: confirmed_def)
    then have "confirmed answered [(GET_TEMPERATURE, 255)] (snd (EsifUpDomain_TempDetectInit env s))" using m by (rule confirmed_narrowed)
    with n show ?thesis by (simp add: evident_def evidence_simps)
  qed
  then show "narrowed ?caps s (snd (EsifUpDomain_TempDetectInit env s))" "definite (fst (EsifUpDomain_TempDetectInit env s))"
    "evident ?caps (snd (EsifUpDomain_TempDetectInit env s))" by simp_all
qed

lemma hwp_narrowed: "EsifUpDomain_IsHwpCapable env s = (b, s') \<Longrightarrow> narrowed caps s s'"
proof -
  have "hwp_flag env prim s = (b, s') \<Longrightarrow> narrowed caps s s'" for prim s b s'
    using narrowed_exec by (auto simp: hwp_flag_def Let_def split: prod.splits)
  then show "EsifUpDomain_IsHwpCapable env s = (b, s') \<Longrightarrow> narrowed caps s s'"
    unfolding EsifUpDomain_IsHwpCapable_def EsifUpDomain_IsHwpSupported_def EsifUpDomain_IsHwpEnabled_def
    by (simp split: prod.splits if_splits) (metis narrowed_step)
qed

lemma confirmed_detect:
  assumes "EsifUpDomain_CapDetect env cap prim inst s = (rc, v, s')" "good rc" "\<not> good ESIF_E_NOT_SUPPORTED" "(prim, inst) \<in> set prims"
  shows "confirmed good prims s'"
  using narrowed_detect [OF assms(1)] assms(2-4) by (auto simp: confirmed_def)

interpretation perf: cap_check "EsifUpDomain_PerfDetectInit env" "{ESIF_CAPABILITY_TYPE_PERF_CONTROL}" tolerated for env
proof
  fix s
  let ?P = "\<lambda>r. narrowed {ESIF_CAPABILITY_TYPE_PERF_CONTROL} s (snd r) \<and> tolerated (fst r) \<and> evident {ESIF_CAPABILITY_TYPE_PERF_CONTROL} (snd r)"
  let ?prims = "[(GET_PERF_SUPPORT_STATES, 255), (GET_PROC_PERF_SUPPORT_STATES, 255)]"
  obtain rc v s1 where d: "EsifUpDomain_CapDetect env ESIF_CAPABILITY_TYPE_PERF_CONTROL GET_PERF_SUPPORT_STATES 255 s = (rc, v, s1)"
    by (metis prod_cases3)
  obtain rc1 v2 s2 where e: "EsifUpDomain_CapDetect env ESIF_CAPABILITY_TYPE_PERF_CONTROL GET_PROC_PERF_SUPPORT_STATES 255 s1 = (rc1, v2, s2)"
    by (metis prod_cases3)
  obtain b s3 where f: "(if rc1 = ESIF_OK then EsifUpDomain_IsHwpCapable env s2 else (False, s2)) = (b, s3)" by fastforce
  note n1 = narrowed_detect [OF d, of "{ESIF_CAPABILITY_TYPE_PERF_CONTROL}", THEN conjunct1]
  have n2: "narrowed {ESIF_CAPABILITY_TYPE_PERF_CONTROL} s s2" using n1 narrowed_detect [OF e] narrowed_step by blast
  have n23: "narrowed {ESIF_CAPABILITY_TYPE_PERF_CONTROL} s2 s3" using f hwp_narrowed by (auto split: if_splits)
  have n3: "narrowed {ESIF_CAPABILITY_TYPE_PERF_CONTROL} s s3" using n2 n23 by (rule narrowed_step)
  have ev: "confirmed answered ?prims s' \<Longrightarrow> evident {ESIF_CAPABILITY_TYPE_PERF_CONTROL} s'" for s'
    by (simp add: evident_def evidence_simps)
  let ?rc2 = "if rc1 = ESIF_OK \<and> b then ESIF_E_NOT_SUPPORTED else rc1"
  have "?P (EsifUpDomain_PerfDetectInit env s)"
  proof (cases "answered rc")
    case True
    with d have "EsifUpDomain_PerfDetectInit env s = (rc, s1)" by (simp add: EsifUpDomain_PerfDetectInit_def)
    moreover have "confirmed answered ?prims s1" by (rule confirmed_detect [where good = answered, OF d True]) simp_all
    ultimately show ?thesis using n1 True ev by simp
  next
    case False
    with d e f have r: "EsifUpDomain_PerfDetectInit env s = (if answered ?rc2 then (?rc2, s3)
        else (ESIF_E_NOT_SUPPORTED, EsifUpDomain_DisableCap ESIF_CAPABILITY_TYPE_PERF_CONTROL s3))"
      by (simp add: EsifUpDomain_PerfDetectInit_def EsifUpDomain_ProcPerfDetect_def Let_def)
    show ?thesis
    proof (cases "answered ?rc2")
      case True
      then have "answered rc1" by (auto split: if_splits)
      from confirmed_detect [where good = answered, OF e this] have "confirmed answered ?prims s2" by simp
      then have "confirmed answered ?prims s3" using n23 by (rule confirmed_narrowed)
      with True r n3 ev show ?thesis by simp
    next
      case False
      have "narrowed {ESIF_CAPABILITY_TYPE_PERF_CONTROL} s (EsifUpDomain_DisableCap ESIF_CAPABILITY_TYPE_PERF_CONTROL s3)"
        using n3 narrowed_disable by (rule narrowed_step)
      with False r show ?thesis by (simp add: evident_def)
    qed
  qed
  then show "narrowed {ESIF_CAPABILITY_TYPE_PERF_CONTROL} s (snd (EsifUpDomain_PerfDetectInit env s))"
    "tolerated (fst (EsifUpDomain_PerfDetectInit env s))"
    "evident {ESIF_CAPABILITY_TYPE_PERF_CONTROL} (snd (EsifUpDomain_PerfDetectInit env s))" by simp_all
qed


definition rf_outcome :: "esif_rc \<Rightarrow> bool" where
  "rf_outcome rc \<longleftrightarrow> definite rc \<or> rc = ESIF_I_NO_LEGACY_SUPPORT"

text \<open>The detection of the radio profile is settled unless the primary participant lacks the list of devices.\<close>

lemma rf_status:
  fixes env s
  defines "r \<equiv> EsifUpDomain_RfProfileStatusDetectInit env s"
  shows "narrowed {ESIF_CAPABILITY_TYPE_RFPROFILE_STATUS} s (snd r) \<and> rf_outcome (fst r)
    \<and> (definite (fst r) \<longrightarrow> evident {ESIF_CAPABILITY_TYPE_RFPROFILE_STATUS} (snd r))"
proof -
  let ?prims = "[(GET_RFPROFILE_CENTER_FREQUENCY, 255), (GET_RF_ACTIVE_CHANNELS, 255)]"
  let ?C = "{ESIF_CAPABILITY_TYPE_RFPROFILE_STATUS}"
  obtain rc v s1 where d: "EsifUpDomain_CapDetect env ESIF_CAPABILITY_TYPE_RFPROFILE_STATUS GET_RFPROFILE_CENTER_FREQUENCY 255 s = (rc, v, s1)"
    by (metis prod_cases3)
  obtain rc1 v1 s2 where e: "EsifUpDomain_CapDetect env ESIF_CAPABILITY_TYPE_RFPROFILE_STATUS GET_RF_ACTIVE_CHANNELS 255 s1 = (rc1, v1, s2)"
    by (metis prod_cases3)
  obtain rc2 s3 where f: "exec_primary env GET_AUTO_ENUM_LIST s2 = (rc2, s3)" by fastforce
  note n1 = narrowed_detect [OF d, of ?C, THEN conjunct1]
  have n2: "narrowed ?C s s2" by (rule narrowed_step [OF n1 narrowed_detect [OF e, THEN conjunct1]])
  have "narrowed ?C s2 s3" using f by (auto simp: exec_primary_def Let_def narrowed_def)
  with n2 have n3: "narrowed ?C s s3" by (rule narrowed_step)
  have n4: "narrowed ?C s (EsifUpDomain_DisableCap ESIF_CAPABILITY_TYPE_RFPROFILE_STATUS s3)"
    by (rule narrowed_step [OF n3 narrowed_disable])
  have ev: "confirmed is_ok ?prims s' \<Longrightarrow> evident ?C s'" for s' by (simp add: evident_def evidence_simps)
  have c1: "rc = ESIF_OK \<Longrightarrow> evident ?C s1" by (rule ev, rule confirmed_detect [where good = is_ok, OF d]) simp_all
  have c2: "rc1 = ESIF_OK \<Longrightarrow> evident ?C s2" by (rule ev, rule confirmed_detect [where good = is_ok, OF e]) simp_all
  have c4: "evident ?C (EsifUpDomain_DisableCap ESIF_CAPABILITY_TYPE_RFPROFILE_STATUS s3)" by (simp add: evident_def)
  have "r = (if rc = ESIF_OK then (ESIF_OK, s1) else if rc1 = ESIF_OK then (ESIF_OK, s2)
      else if rc2 = ESIF_I_NO_LEGACY_SUPPORT then (ESIF_I_NO_LEGACY_SUPPORT, s3)
      else (ESIF_E_NOT_SUPPORTED, EsifUpDomain_DisableCap ESIF_CAPABILITY_TYPE_RFPROFILE_STATUS s3))"
    using d e f by (simp add: r_def EsifUpDomain_RfProfileStatusDetectInit_def)
  then show ?thesis using n1 n2 n3 n4 c1 c2 c4 by (simp add: rf_outcome_def definite_def)
qed

lemma workload_narrowed: "narrowed {ESIF_CAPABILITY_TYPE_WORKLOAD_CLASSIFICATION} s (snd (EsifUpDomain_WorkloadClassificationDetectInit env s))"
proof -
  let ?C = "{ESIF_CAPABILITY_TYPE_WORKLOAD_CLASSIFICATION}"
  obtain rc v s1 where d: "EsifUpDomain_CapDetect env ESIF_CAPABILITY_TYPE_WORKLOAD_CLASSIFICATION GET_SOCWLC_SOURCE 255 s = (rc, v, s1)"
    by (metis prod_cases3)
  note n1 = narrowed_detect [OF d, of ?C, THEN conjunct1]
  have "narrowed ?C s1 (snd (detect_any env is_ok ESIF_CAPABILITY_TYPE_WORKLOAD_CLASSIFICATION [(GET_HW_SOC_WORKLOAD, 255)] s1))"
    using detect_any_spec [where good = is_ok, OF prod.collapse [symmetric]] by blast
  from narrowed_step [OF n1 this] n1 show ?thesis using d by (simp add: EsifUpDomain_WorkloadClassificationDetectInit_def)
qed

lemma state_poll_narrowed: "narrowed caps s (snd (EsifUpDomain_StartStatePollPriv env s))"
  by (auto simp: narrowed_def EsifUpDomain_StartStatePollPriv_def set_state_timer_def esif_ccb_timer_init_def Let_def)

lemma temp_poll_narrowed: "narrowed caps s (snd (EsifUpDomain_StartTempPollPriv env s))"
  by (auto simp: narrowed_def EsifUpDomain_StartTempPollPriv_def set_temp_timer_def esif_ccb_timer_init_def Let_def)

lemma temp_timer_narrowed: "narrowed caps s (snd (set_temp_timer env p s))"
  by (auto simp: narrowed_def set_temp_timer_def Let_def)

lemma temp_period_narrowed: "narrowed caps s (snd (EsifUpDomain_SetTempPollPeriod env p s))"
proof -
  let ?s1 = "set_ud (\<lambda>d. d\<lparr>tempPollPeriod := p\<rparr>) s"
  have n: "narrowed caps s ?s1" by (rule narrowed_same) simp_all
  show ?thesis
    using n narrowed_step [OF n temp_timer_narrowed] narrowed_step [OF n temp_poll_narrowed]
    by (simp add: EsifUpDomain_SetTempPollPeriod_def Let_def)
qed

lemma init_poll_narrowed: "narrowed caps s (snd (init_poll env g b s))"
proof -
  obtain rc v s1 where d: "exec_get env g (ud_domain (ud s)) 255 s = (rc, v, s1)" by (metis prod_cases3)
  note n = narrowed_exec [OF d, of caps, THEN conjunct1]
  have "narrowed caps s1 (snd (exec_set_period env b p s1))" for p
    using temp_period_narrowed [of caps s1 env p]
    by (auto simp: exec_set_period_def EsifSetActionDelegateSampleBehavior_def narrowed_def Let_def)
  from narrowed_step [OF n this] n d show ?thesis by (simp add: init_poll_def)
qed

lemma state_detect_narrowed: "narrowed {} s (snd (EsifUpDomain_StateDetectInit env s))"
proof -
  let ?s0 = "set_ud (\<lambda>d. d\<lparr>lastState := ESIF_DOMAIN_STATE_INVALID\<rparr>) s"
  obtain rc v s1 where d: "EsifUpDomain_CapDetect env ESIF_CAPABILITY_TYPE_PERF_CONTROL GET_PARTICIPANT_PERF_PRESENT_CAPABILITY 255 ?s0 = (rc, v, s1)"
    by (metis prod_cases3)
  have "narrowed {} s ?s0" by (rule narrowed_same) simp_all
  then have n1: "narrowed {} s s1" using narrowed_detect [OF d, THEN conjunct1] by (rule narrowed_step)
  let ?s2 = "set_ud (\<lambda>d. d\<lparr>statePollPeriod := PERF_STATE_POLL_PERIOD\<rparr>) s1"
  have "narrowed {} s1 ?s2" by (rule narrowed_same) simp_all
  from narrowed_step [OF n1 narrowed_step [OF this state_poll_narrowed]]
  have n2: "narrowed {} s (snd (EsifUpDomain_SetStatePollPeriod env PERF_STATE_POLL_PERIOD s1))"
    by (simp add: EsifUpDomain_SetStatePollPeriod_def)
  show ?thesis
  proof (cases "answered rc")
    case True
    have r: "snd (EsifUpDomain_StateDetectInit env s) = set_ud (\<lambda>d. d\<lparr>lastState := (case v of None \<Rightarrow> ESIF_DOMAIN_STATE_INVALID | Some x \<Rightarrow> x)\<rparr>)
        (snd (EsifUpDomain_SetStatePollPeriod env PERF_STATE_POLL_PERIOD s1))"
      using d True by (simp add: EsifUpDomain_StateDetectInit_def)
    show ?thesis unfolding r by (rule narrowed_step [OF n2]) (simp add: narrowed_same)
  next
    case False
    have r: "snd (EsifUpDomain_StateDetectInit env s) = set_ud (\<lambda>d. d\<lparr>statePollType := ESIF_POLL_UNSUPPORTED\<rparr>) s1"
      using d False by (simp add: EsifUpDomain_StateDetectInit_def)
    show ?thesis unfolding r by (rule narrowed_step [OF n1]) (simp add: narrowed_same)
  qed
qed

lemma rf_check:
  assumes "\<forall>log. on_primary env log GET_AUTO_ENUM_LIST \<noteq> ESIF_I_NO_LEGACY_SUPPORT"
  shows "cap_check (EsifUpDomain_RfProfileStatusDetectInit env) {ESIF_CAPABILITY_TYPE_RFPROFILE_STATUS} definite"
proof -
  have "fst (EsifUpDomain_RfProfileStatusDetectInit env s) \<noteq> ESIF_I_NO_LEGACY_SUPPORT" for s
    using assms by (simp add: EsifUpDomain_RfProfileStatusDetectInit_def exec_primary_def Let_def split: prod.splits)
  then have "definite (fst (EsifUpDomain_RfProfileStatusDetectInit env s))" for s
    using rf_status [of s env] by (simp add: rf_outcome_def)
  with rf_status show ?thesis by unfold_locales blast+
qed

text \<open>The capabilities of the first group of detections.\<close>

definition first_caps :: "nat set" where
  "first_caps = {ESIF_CAPABILITY_TYPE_TEMP_STATUS, ESIF_CAPABILITY_TYPE_TEMP_THRESHOLD, ESIF_CAPABILITY_TYPE_POWER_STATUS,
     ESIF_CAPABILITY_TYPE_POWER_CONTROL, ESIF_CAPABILITY_TYPE_PSYS_CONTROL, ESIF_CAPABILITY_TYPE_PERF_CONTROL, ESIF_CAPABILITY_TYPE_BATTERY_STATUS}"

lemma definite_tolerated: "definite rc \<Longrightarrow> tolerated rc"
  by (auto simp: definite_def answered_def)

lemma first_detections_spec:
  "narrowed first_caps s (snd (first_detections env s)) \<and> evident first_caps (snd (first_detections env s))
    \<and> tolerated (fst (first_detections env s))"
proof -
  let ?t = "snd (EsifUpDomain_InitPowerPoll env (snd (EsifUpDomain_InitTempPoll env s)))"
  let ?r0 = "EsifUpDomain_TempDetectInit env ?t"
  let ?r1 = "after_rc tolerated (EsifUpDomain_PowerStatusDetectInit env) ?r0"
  let ?r2 = "after_rc tolerated (EsifUpDomain_PowerControlDetectInit env) ?r1"
  let ?r3 = "after_rc tolerated (EsifUpDomain_PsysDetectInit env) ?r2"
  let ?r4 = "after_rc tolerated (EsifUpDomain_PerfDetectInit env) ?r3"
  have "narrowed {} s ?t"
    unfolding EsifUpDomain_InitPowerPoll_def EsifUpDomain_InitTempPoll_def by (rule narrowed_step [OF init_poll_narrowed init_poll_narrowed])
  from narrowed_trans [OF this temperature.narrows] have n0: "narrowed {ESIF_CAPABILITY_TYPE_TEMP_STATUS, ESIF_CAPABILITY_TYPE_TEMP_THRESHOLD} s (snd ?r0)"
    by simp
  note p1 = power_status.run_after [where good = tolerated, OF n0 temperature.evidence definite_tolerated [OF temperature.outcomes]]
  note p2 = power_control.run_after [where good = tolerated, OF p1 [THEN conjunct1] p1 [THEN conjunct2, THEN conjunct1] p1 [THEN conjunct2, THEN conjunct2]]
  note p3 = psys.run_after [where good = tolerated, OF p2 [THEN conjunct1] p2 [THEN conjunct2, THEN conjunct1] p2 [THEN conjunct2, THEN conjunct2]]
  note p4 = perf.run_after [where good = tolerated, OF p3 [THEN conjunct1] p3 [THEN conjunct2, THEN conjunct1] p3 [THEN conjunct2, THEN conjunct2]]
  note p5 = battery.run_after [where good = tolerated, OF p4 [THEN conjunct1] p4 [THEN conjunct2, THEN conjunct1] p4 [THEN conjunct2, THEN conjunct2]]
  from p5 show ?thesis unfolding first_detections_def first_caps_def by (simp add: insert_commute)
qed

definition later_caps :: "nat set" where
  "later_caps = {ESIF_CAPABILITY_TYPE_ACTIVE_CONTROL, ESIF_CAPABILITY_TYPE_DISPLAY_CONTROL, ESIF_CAPABILITY_TYPE_PEAK_POWER_CONTROL,
     ESIF_CAPABILITY_TYPE_PROCESSOR_CONTROL, ESIF_CAPABILITY_TYPE_PLAT_POWER_STATUS, ESIF_CAPABILITY_TYPE_RFPROFILE_STATUS,
     ESIF_CAPABILITY_TYPE_RFPROFILE_CONTROL, ESIF_CAPABILITY_TYPE_ENERGY_CONTROL, ESIF_CAPABILITY_TYPE_ACTIVITY_STATUS}"

lemma later_detections_spec:
  assumes "narrowed A s (snd r)" "evident A (snd r)" "definite (fst r)"
    "\<forall>log. on_primary env log GET_AUTO_ENUM_LIST \<noteq> ESIF_I_NO_LEGACY_SUPPORT"
  shows "evident (A \<union> later_caps) (snd (later_detections env r))"
proof -
  note p1 = active.run_after [where good = definite, OF assms(1-3), of env]
  note p2 = display.run_after [where good = definite, OF p1 [THEN conjunct1] p1 [THEN conjunct2, THEN conjunct1] p1 [THEN conjunct2, THEN conjunct2], of env]
  note p3 = peak_power.run_after [where good = definite, OF p2 [THEN conjunct1] p2 [THEN conjunct2, THEN conjunct1] p2 [THEN conjunct2, THEN conjunct2], of env]
  note p4 = processor.run_after [where good = definite, OF p3 [THEN conjunct1] p3 [THEN conjunct2, THEN conjunct1] p3 [THEN conjunct2, THEN conjunct2], of env]
  note p5 = platform_power.run_after [where good = definite, OF p4 [THEN conjunct1] p4 [THEN conjunct2, THEN conjunct1] p4 [THEN conjunct2, THEN conjunct2], of env]
  note p6 = cap_check.run_after [where good = definite, OF rf_check [OF assms(4)] p5 [THEN conjunct1] p5 [THEN conjunct2, THEN conjunct1] p5 [THEN conjunct2, THEN conjunct2]]
  note p7 = rf_control.run_after [where good = definite, OF p6 [THEN conjunct1] p6 [THEN conjunct2, THEN conjunct1] p6 [THEN conjunct2, THEN conjunct2], of env]
  note p8 = energy.run_after [where good = definite, OF p7 [THEN conjunct1] p7 [THEN conjunct2, THEN conjunct1] p7 [THEN conjunct2, THEN conjunct2], of env]
  note p9 = activity.run_after [where good = definite, OF p8 [THEN conjunct1] p8 [THEN conjunct2, THEN conjunct1] p8 [THEN conjunct2, THEN conjunct2], of env]
  from evident_narrowed [OF p9 [THEN conjunct2, THEN conjunct1] workload_narrowed] p9
  show ?thesis unfolding later_detections_def by (simp add: after_rc_def later_caps_def insert_commute Un_assoc)
qed

text \<open>The workload classification is dropped only when its source is reported to be the hardware.\<close>

lemma workload_kept:
  assumes "\<forall>log tup. tup_id tup = GET_SOCWLC_SOURCE \<longrightarrow> on_get env log tup \<noteq> (ESIF_OK, Some ESIF_SOCWC_SOURCE_HARDWARE)"
  shows "narrowed {} s (snd (EsifUpDomain_WorkloadClassificationDetectInit env s))"
proof -
  obtain rc v s1 where d: "EsifUpDomain_CapDetect env ESIF_CAPABILITY_TYPE_WORKLOAD_CLASSIFICATION GET_SOCWLC_SOURCE 255 s = (rc, v, s1)"
    by (metis prod_cases3)
  then have no: "\<not> (rc = ESIF_OK \<and> v = Some ESIF_SOCWC_SOURCE_HARDWARE)"
    using assms by (auto simp: EsifUpDomain_CapDetect_def exec_get_def Let_def split: if_splits prod.splits)
  then have "EsifUpDomain_WorkloadClassificationDetectInit env s = (rc, s1)"
    unfolding EsifUpDomain_WorkloadClassificationDetectInit_def d Let_def prod.case by (rule if_not_P)
  with narrowed_detect [OF d, of "{}"] show ?thesis by simp
qed

lemma later_narrowed:
  assumes "\<And>s. narrowed W s (snd (EsifUpDomain_WorkloadClassificationDetectInit env s))"
  shows "narrowed (later_caps \<union> W) (snd r) (snd (later_detections env r))"
proof -
  let ?L = "later_caps \<union> W"
  have w: "narrowed ?L (snd r) (snd (after_rc definite (EsifUpDomain_WorkloadClassificationDetectInit env) r))" for r
    using narrowed_mono [OF assms Un_upper2] by (simp add: after_rc_def)
  have rf: "narrowed ?L (snd r) (snd (after_rc definite (EsifUpDomain_RfProfileStatusDetectInit env) r))" for r
    using narrowed_mono [OF rf_status [THEN conjunct1]] by (simp add: after_rc_def later_caps_def)
  note un = narrowed_mono [where B = ?L]
  have "narrowed ?L (snd r) (snd (after_rc definite (EsifUpDomain_ActiveControlDetectInit env) r))"
    "narrowed ?L (snd r) (snd (after_rc definite (EsifUpDomain_DisplayControlDetectInit env) r))"
    "narrowed ?L (snd r) (snd (after_rc definite (EsifUpDomain_PeakPowerControlDetectInit env) r))"
    "narrowed ?L (snd r) (snd (after_rc definite (EsifUpDomain_ProcessorControlDetectInit env) r))"
    "narrowed ?L (snd r) (snd (after_rc definite (EsifUpDomain_PlatformPowerStatusDetectInit env) r))"
    "narrowed ?L (snd r) (snd (after_rc definite (EsifUpDomain_RfProfileControlDetectInit env) r))"
    "narrowed ?L (snd r) (snd (after_rc definite (EsifUpDomain_EnergyControlDetectInit env) r))"
    "narrowed ?L (snd r) (snd (after_rc definite (EsifUpDomain_ActivityStatusDetectInit env) r))" for r
    by (rule un [OF active.narrows_after] un [OF display.narrows_after] un [OF peak_power.narrows_after] un [OF processor.narrows_after]
        un [OF platform_power.narrows_after] un [OF rf_control.narrows_after] un [OF energy.narrows_after] un [OF activity.narrows_after];
      simp add: later_caps_def)+
  note steps = this
  show ?thesis unfolding later_detections_def
    by (rule narrowed_step [OF narrowed_step [OF narrowed_step [OF narrowed_step [OF narrowed_step [OF narrowed_step [OF narrowed_step [OF
          narrowed_step [OF narrowed_step [OF steps(1,2)] steps(3)] steps(4)] steps(5)] rf] steps(6)] steps(7)] steps(8)] w])
qed

lemma dsp_ready_state: "snd (EsifUpDomain_DspReadyInit env s) =
    (let r = later_detections env (first_detections env s) in if tolerated (fst r) then snd (EsifUpDomain_StateDetectInit env (snd r)) else snd r)"
  by (simp add: EsifUpDomain_DspReadyInit_def after_rc_def Let_def case_prod_beta)

lemma dsp_ready_narrows:
  assumes "\<And>s. narrowed W s (snd (EsifUpDomain_WorkloadClassificationDetectInit env s))"
  shows "narrowed (first_caps \<union> later_caps \<union> W) s (snd (EsifUpDomain_DspReadyInit env s))"
proof -
  let ?r = "later_detections env (first_detections env s)"
  from narrowed_trans [OF first_detections_spec [THEN conjunct1] later_narrowed [OF assms]]
  have n: "narrowed (first_caps \<union> later_caps \<union> W) s (snd ?r)" by (simp add: Un_assoc)
  with narrowed_step [OF this narrowed_mono [OF state_detect_narrowed]] show ?thesis
    unfolding dsp_ready_state Let_def by simp
qed

lemma dsp_ready_narrowed: "narrowed UNIV s (snd (EsifUpDomain_DspReadyInit env s))"
  by (rule narrowed_mono [OF dsp_ready_narrows [OF workload_narrowed]]) simp

text \<open>
  C38. Detection, disabling and enabling keep the capabilities of a domain well-formed (the count is the
  number of flags that are set), and detection never adds a capability the support package did not claim.
\<close>

theorem domain_caps_wf:
  assumes "caps_wf (capability_for_domain (ud s))" "length m = 32"
  shows "caps_wf (capability_for_domain (ud (snd (EsifUpDomain_DspReadyInit env s))))
    \<and> caps_wf (capability_for_domain (ud (EsifUpDomain_DisableCap cap s)))
    \<and> caps_wf (capability_for_domain (ud (snd (EsifUpDomain_EnableCaps flags (Some m) s))))
    \<and> caps_of (ud (snd (EsifUpDomain_DspReadyInit env s))) AND caps_of (ud s) = caps_of (ud (snd (EsifUpDomain_DspReadyInit env s)))
    \<and> caps_of (ud (EsifUpDomain_DisableCap cap s)) = caps_of (ud s) AND NOT (push_bit cap 1)"
proof (intro conjI)
  note n = dsp_ready_narrowed [of s env, unfolded narrowed_def]
  show "caps_wf (capability_for_domain (ud (snd (EsifUpDomain_DspReadyInit env s))))" using n assms by blast
  show "caps_of (ud (snd (EsifUpDomain_DspReadyInit env s))) AND caps_of (ud s) = caps_of (ud (snd (EsifUpDomain_DspReadyInit env s)))"
    using n by (intro bit_eqI) (auto simp: bit_and_iff)
  show "caps_wf (capability_for_domain (ud (EsifUpDomain_DisableCap cap s)))"
    using assms(1) by (simp add: EsifUpDomain_DisableCap_def caps_wf_disable)
  show "caps_wf (capability_for_domain (ud (snd (EsifUpDomain_EnableCaps flags (Some m) s))))"
    using assms(2) by (simp add: EsifUpDomain_EnableCaps_def caps_wf_enable)
  show "caps_of (ud (EsifUpDomain_DisableCap cap s)) = caps_of (ud s) AND NOT (push_bit cap 1)"
    by (rule bit_eqI) (auto simp: EsifUpDomain_DisableCap_def disable_cap_def bit_and_iff bit_not_iff bit_push_bit_iff bit_1_iff bit_exp_iff)
qed

lemma cap_table_caps: "fst ` set cap_table = first_caps \<union> later_caps"
  by (auto simp: cap_table_def first_caps_def later_caps_def)

text \<open>
  C33. When the first group of detections ends with a definite status and the primary participant has the list of
  devices, the initialisation of a domain leaves no capability that the support package did not claim, and every
  capability of the table of detections that is left was confirmed by an accepted answer of the device to a
  primitive of that capability (to each of them where all are needed). The capabilities for which there is no
  detection are left as claimed, without a check; so is the workload classification, unless the device reports
  that its source is the hardware.
\<close>

theorem domain_caps_confirmed:
  assumes "definite (fst (first_detections env s))"
    "\<forall>log. on_primary env log GET_AUTO_ENUM_LIST \<noteq> ESIF_I_NO_LEGACY_SUPPORT"
  shows "let s' = snd (EsifUpDomain_DspReadyInit env s) in
    (\<forall>cap. has_cap (ud s') cap \<longrightarrow> has_cap (ud s) cap)
    \<and> (\<forall>(cap, _)\<in>set cap_table. has_cap (ud s') cap \<longrightarrow> cap_evidence cap s')
    \<and> (\<forall>cap. cap \<notin> fst ` set cap_table \<and> cap \<noteq> ESIF_CAPABILITY_TYPE_WORKLOAD_CLASSIFICATION
        \<longrightarrow> has_cap (ud s') cap = has_cap (ud s) cap)
    \<and> ((\<forall>log tup. tup_id tup = GET_SOCWLC_SOURCE \<longrightarrow> on_get env log tup \<noteq> (ESIF_OK, Some ESIF_SOCWC_SOURCE_HARDWARE))
        \<longrightarrow> has_cap (ud s') ESIF_CAPABILITY_TYPE_WORKLOAD_CLASSIFICATION = has_cap (ud s) ESIF_CAPABILITY_TYPE_WORKLOAD_CLASSIFICATION)"
proof -
  let ?r = "later_detections env (first_detections env s)" and ?s' = "snd (EsifUpDomain_DspReadyInit env s)"
  note f = first_detections_spec [of s env]
  have "evident (first_caps \<union> later_caps) (snd ?r)"
    using later_detections_spec [OF f [THEN conjunct1] f [THEN conjunct2, THEN conjunct1] assms] .
  then have "evident (fst ` set cap_table) ?s'"
    unfolding dsp_ready_state Let_def cap_table_caps using evident_narrowed [OF _ state_detect_narrowed] by simp
  then have "\<forall>(cap, _)\<in>set cap_table. has_cap (ud ?s') cap \<longrightarrow> cap_evidence cap ?s'" by (fastforce simp: evident_def)
  moreover have "\<forall>cap. has_cap (ud ?s') cap \<longrightarrow> has_cap (ud s) cap" using dsp_ready_narrowed [of s env] by (simp add: narrowed_def)
  moreover have "has_cap (ud ?s') cap = has_cap (ud s) cap"
    if "cap \<notin> fst ` set cap_table" "cap \<noteq> ESIF_CAPABILITY_TYPE_WORKLOAD_CLASSIFICATION" for cap
    using dsp_ready_narrows [OF workload_narrowed, of s env] that by (simp add: narrowed_def cap_table_caps)
  moreover have "ESIF_CAPABILITY_TYPE_WORKLOAD_CLASSIFICATION \<notin> first_caps \<union> later_caps" by (simp add: first_caps_def later_caps_def)
  moreover have "has_cap (ud ?s') ESIF_CAPABILITY_TYPE_WORKLOAD_CLASSIFICATION = has_cap (ud s) ESIF_CAPABILITY_TYPE_WORKLOAD_CLASSIFICATION"
    if "\<forall>log tup. tup_id tup = GET_SOCWLC_SOURCE \<longrightarrow> on_get env log tup \<noteq> (ESIF_OK, Some ESIF_SOCWC_SOURCE_HARDWARE)"
    using dsp_ready_narrows [OF workload_kept [OF that], of s] calculation(4) by (simp add: narrowed_def)
  ultimately show ?thesis unfolding Let_def by blast
qed

text \<open>
  C39. A first detection that answers \<^verbatim>\<open>ESIF_I_AGAIN\<close> or \<^verbatim>\<open>ESIF_E_NEED_LARGER_BUFFER\<close> last (the battery status) ends the
  chain: the initialisation reports success, and every later capability is left as claimed, without a single
  primitive of it being executed.
\<close>

theorem domain_caps_unchecked:
  assumes "first_detections env s = (rc, s1)" "rc = ESIF_I_AGAIN \<or> rc = ESIF_E_NEED_LARGER_BUFFER"
  shows "EsifUpDomain_DspReadyInit env s = (ESIF_OK, snd (EsifUpDomain_StateDetectInit env s1))
    \<and> (\<forall>cap\<in>later_caps. has_cap (ud (snd (EsifUpDomain_DspReadyInit env s))) cap = has_cap (ud s) cap)"
proof -
  have "\<not> definite rc" "tolerated rc" using assms(2) by (auto simp: definite_def answered_def)
  then have l: "later_detections env (rc, s1) = (rc, s1)" by (simp add: later_detections_def after_rc_def)
  have "tolerated (fst (EsifUpDomain_StateDetectInit env s1))"
    by (simp add: EsifUpDomain_StateDetectInit_def Let_def case_prod_beta)
  then have r: "EsifUpDomain_DspReadyInit env s = (ESIF_OK, snd (EsifUpDomain_StateDetectInit env s1))"
    using \<open>tolerated rc\<close> by (simp add: EsifUpDomain_DspReadyInit_def assms(1) l after_rc_def case_prod_beta)
  have "has_cap (ud s1) cap = has_cap (ud s) cap" if "cap \<in> later_caps" for cap
    using that first_detections_spec [of s env, THEN conjunct1] assms(1)
    by (simp add: narrowed_def) (auto simp: first_caps_def later_caps_def)
  with r state_detect_narrowed [of s1 env] show ?thesis by (simp add: narrowed_def)
qed

text \<open>
  Examples: a domain with a fan, a sensor and a battery whose support package claims the active control,
  the temperature with thresholds and the battery status, and a device that answers by a table.
\<close>

definition demo_device :: "(u16 \<Rightarrow> esif_rc \<times> u32 option) \<Rightarrow> domain_env" where
  "demo_device answer = \<lparr>on_get = \<lambda>log t. answer (tup_id t), on_set = \<lambda>log t v. ESIF_OK, is_sample_action = \<lambda>t. False,
     on_primary = \<lambda>log p. ESIF_OK, on_timer_init = \<lambda>log. ESIF_OK, on_timer_set = \<lambda>log p. ESIF_OK, on_signal = \<lambda>log e. ESIF_OK\<rparr>"

definition demo_caps :: EsifDomainCapability where
  "demo_caps = \<lparr>capability_flags = 0x81081, number_of_capability_flags = 4, capability_mask = replicate 32 0\<rparr>"

definition demo_domain :: dom_state where
  "demo_domain = \<lparr>ud = EsifUpDomain_InitDomain \<lparr>fpc_domain = 0x3044, fpc_priority = 0, fpc_domainType = 4, fpc_capability = demo_caps\<rparr> EsifUpDomain_zero,
     dcalls = [], devents = []\<rparr>"

text \<open>A device with a sensor and a fan, and one that in addition asks to come back for the battery.\<close>

definition demo_fan :: "u16 \<Rightarrow> esif_rc \<times> u32 option" where
  "demo_fan prim = (if prim = GET_TEMPERATURE \<or> prim = GET_FAN_INFORMATION then (ESIF_OK, Some 3000) else (ESIF_E_PRIMITIVE_NOT_FOUND_IN_DSP, None))"

definition demo_battery :: "u16 \<Rightarrow> esif_rc \<times> u32 option" where
  "demo_battery prim = (if prim = GET_TEMPERATURE then (ESIF_OK, Some 3000) else if prim = GET_PLATFORM_MAX_BATTERY_POWER then (ESIF_I_AGAIN, None)
     else (ESIF_E_PRIMITIVE_NOT_FOUND_IN_DSP, None))"

lemmas demo_defs = demo_device_def demo_caps_def demo_domain_def demo_fan_def demo_battery_def EsifUpDomain_InitDomain_def EsifUpDomain_zero_def

lemmas detect_defs = first_detections_def later_detections_def after_rc_def EsifUpDomain_InitPowerPoll_def EsifUpDomain_InitTempPoll_def init_poll_def
  exec_get_def EsifUpDomain_TempDetectInit_def EsifUpDomain_CapDetect_def EsifUpDomain_PowerStatusDetectInit_def EsifUpDomain_PowerControlDetectInit_def
  EsifUpDomain_PsysDetectInit_def EsifUpDomain_PerfDetectInit_def EsifUpDomain_ProcPerfDetect_def EsifUpDomain_BatteryStatusDetectInit_def
  EsifUpDomain_DisableCap_def disable_cap_def Let_def answered_def definite_def

lemma demo_first:
  "fst (first_detections (demo_device demo_fan) demo_domain) = ESIF_E_NOT_SUPPORTED"
  "fst (first_detections (demo_device demo_battery) demo_domain) = ESIF_I_AGAIN"
  by (simp_all add: detect_defs demo_defs)

lemma demo_caps_wf: "caps_wf (capability_for_domain (ud demo_domain))"
proof -
  have "{i. i < 32 \<and> bit (0x81081::u32) i} = set (filter (bit (0x81081::u32)) [0..<32])" by auto
  moreover have "filter (bit (0x81081::u32)) [0..<32] = [0, 7, 12, 19]" by code_simp
  ultimately show ?thesis by (simp add: caps_wf_def demo_defs)
qed

lemma demo_ready: "has_cap (ud (snd (EsifUpDomain_DspReadyInit (demo_device demo_fan) demo_domain))) ESIF_CAPABILITY_TYPE_ACTIVE_CONTROL"
  by code_simp

theorem domain_caps_wf_witness:
  "caps_wf (capability_for_domain (ud (snd (EsifUpDomain_DspReadyInit (demo_device demo_fan) demo_domain))))"
  using domain_caps_wf [OF demo_caps_wf, of "replicate 32 0" "demo_device demo_fan"] by simp

theorem domain_caps_confirmed_witness:
  "cap_evidence ESIF_CAPABILITY_TYPE_ACTIVE_CONTROL (snd (EsifUpDomain_DspReadyInit (demo_device demo_fan) demo_domain))"
proof -
  have d: "definite (fst (first_detections (demo_device demo_fan) demo_domain))" by (simp add: demo_first definite_def)
  have p: "\<forall>log. on_primary (demo_device demo_fan) log GET_AUTO_ENUM_LIST \<noteq> ESIF_I_NO_LEGACY_SUPPORT" by (simp add: demo_device_def)
  from domain_caps_confirmed [OF d p, unfolded Let_def, THEN conjunct2, THEN conjunct1] demo_ready show ?thesis
    by (simp add: cap_table_def)
qed

theorem domain_caps_unchecked_witness:
  "fst (EsifUpDomain_DspReadyInit (demo_device demo_battery) demo_domain) = ESIF_OK
    \<and> has_cap (ud (snd (EsifUpDomain_DspReadyInit (demo_device demo_battery) demo_domain))) ESIF_CAPABILITY_TYPE_ACTIVE_CONTROL"
proof -
  have "first_detections (demo_device demo_battery) demo_domain = (ESIF_I_AGAIN, snd (first_detections (demo_device demo_battery) demo_domain))"
    by (metis demo_first(2) prod.collapse)
  then have u: "EsifUpDomain_DspReadyInit (demo_device demo_battery) demo_domain
        = (ESIF_OK, snd (EsifUpDomain_StateDetectInit (demo_device demo_battery) (snd (first_detections (demo_device demo_battery) demo_domain))))"
      "\<forall>cap\<in>later_caps. has_cap (ud (snd (EsifUpDomain_DspReadyInit (demo_device demo_battery) demo_domain))) cap = has_cap (ud demo_domain) cap"
    using domain_caps_unchecked by blast+
  have "ESIF_CAPABILITY_TYPE_ACTIVE_CONTROL \<in> later_caps" by (simp add: later_caps_def)
  with u(2) have "has_cap (ud (snd (EsifUpDomain_DspReadyInit (demo_device demo_battery) demo_domain))) ESIF_CAPABILITY_TYPE_ACTIVE_CONTROL
      = has_cap (ud demo_domain) ESIF_CAPABILITY_TYPE_ACTIVE_CONTROL" by blast
  moreover have "fst (EsifUpDomain_DspReadyInit (demo_device demo_battery) demo_domain) = ESIF_OK" by (subst u(1)) simp
  moreover have "has_cap (ud demo_domain) ESIF_CAPABILITY_TYPE_ACTIVE_CONTROL" by (simp add: demo_defs)
  ultimately show ?thesis by blast
qed

section \<open>Thresholds\<close>

lemma normalized_values [simp]:
  "normalized 1 = 2742" "normalized ESIF_DOMAIN_TEMP_AUX0_DEF = 2782" "normalized ESIF_SDK_MAX_AUX_TRIP = 4722"
  "normalized ESIF_SDK_MIN_AUX_TRIP = 1372" "normalized ESIF_DOMAIN_TEMP_INVALID_VALUE = 5282"
  by (simp_all add: normalized_def esif_convert_temp_def is_kelvin_def esif_temp_mc2k_def Let_def)
















section \<open>Polling\<close>

text \<open>One poll, in closed form.\<close>

definition temp_tuple :: "EsifUpDomain \<Rightarrow> EsifPrimitiveTuple" where
  "temp_tuple d = \<lparr>tup_id = GET_TEMPERATURE, tup_domain = ud_domain d, tup_instance = 255\<rparr>"

text \<open>The temperature the device reports at this point, \<open>None\<close> when the primitive fails.\<close>

definition reported :: "domain_env \<Rightarrow> dom_state \<Rightarrow> u32 option" where
  "reported env s = (case on_get env (dcalls s) (temp_tuple (ud s)) of
     (rc, v) \<Rightarrow> if rc = ESIF_OK then Some (case v of None \<Rightarrow> ESIF_DOMAIN_TEMP_INVALID | Some t \<Rightarrow> t) else None)"

definition polled :: "domain_env \<Rightarrow> dom_state \<Rightarrow> dom_state" where
  "polled env s = snd (EsifUpDomain_CheckTemp env s)"

definition crossing :: "EsifUpDomain \<Rightarrow> dom_event" where
  "crossing d = \<lparr>ev_participant = ud_participantId d, ev_domain = ud_domain d, ev_type = ESIF_EVENT_TEMP_THRESHOLD_CROSSED, ev_value = None\<rparr>"

text \<open>Whether a poll posts the event, and what remains of the flags.\<close>

definition posts :: "EsifUpDomain \<Rightarrow> u32 option \<Rightarrow> bool" where
  "posts d r = (case r of None \<Rightarrow> tempLastTempValid d
     | Some t \<Rightarrow> EsifUpDomain_IsTempOutOfThresholds d t \<and> t \<noteq> 5282 \<and> \<not> (tempNotifySent d \<and> \<not> EsifUpDomain_TempIsInThresholds d t))"

definition sent_after :: "EsifUpDomain \<Rightarrow> u32 option \<Rightarrow> bool" where
  "sent_after d r = (case r of None \<Rightarrow> tempNotifySent d
     | Some t \<Rightarrow> posts d r \<or> (tempNotifySent d \<and> \<not> EsifUpDomain_TempIsInThresholds d t))"

text \<open>The part of a domain that a poll leaves alone.\<close>

definition same_thresholds :: "EsifUpDomain \<Rightarrow> EsifUpDomain \<Rightarrow> bool" where
  "same_thresholds d d' \<longleftrightarrow> tempAux0 d' = tempAux0 d \<and> tempAux1 d' = tempAux1 d \<and> tempAux0WHyst d' = tempAux0WHyst d
     \<and> ud_domain d' = ud_domain d \<and> ud_participantId d' = ud_participantId d"


text \<open>The state after the reading itself.\<close>

definition asked :: "domain_env \<Rightarrow> dom_state \<Rightarrow> dom_state" where
  "asked env s = snd (snd (exec_get env GET_TEMPERATURE (ud_domain (ud s)) 255 s))"

lemma asked_keeps [simp]: "ud (asked env s) = ud s" "devents (asked env s) = devents s"
  by (simp_all add: asked_def exec_get_def Let_def case_prod_beta)

lemma signal_state:
  "ud (snd (signal_event env ty v s)) = ud s"
  "devents (snd (signal_event env ty v s)) = devents s @ [\<lparr>ev_participant = ud_participantId (ud s), ev_domain = ud_domain (ud s), ev_type = ty, ev_value = v\<rparr>]"
  by (simp_all add: signal_event_def Let_def)

lemma in_out_updates [simp]:
  "EsifUpDomain_TempIsInThresholds (d\<lparr>tempNotifySent := b\<rparr>) t = EsifUpDomain_TempIsInThresholds d t"
  "EsifUpDomain_TempIsInThresholds (d\<lparr>tempLastTempValid := b\<rparr>) t = EsifUpDomain_TempIsInThresholds d t"
  "EsifUpDomain_TempIsInThresholds (d\<lparr>tempInvalidValueDetected := b\<rparr>) t = EsifUpDomain_TempIsInThresholds d t"
  "EsifUpDomain_IsTempOutOfThresholds (d\<lparr>tempNotifySent := b\<rparr>) t = EsifUpDomain_IsTempOutOfThresholds d t"
  "EsifUpDomain_IsTempOutOfThresholds (d\<lparr>tempLastTempValid := b\<rparr>) t = EsifUpDomain_IsTempOutOfThresholds d t"
  "EsifUpDomain_IsTempOutOfThresholds (d\<lparr>tempInvalidValueDetected := b\<rparr>) t = EsifUpDomain_IsTempOutOfThresholds d t"
  by (simp_all add: EsifUpDomain_TempIsInThresholds_def EsifUpDomain_IsTempOutOfThresholds_def)

lemma polled_fail:
  assumes "reported env s = None"
  shows "\<exists>ty. ud (polled env s) = (ud s)\<lparr>tempPollType := ty, tempLastTempValid := False\<rparr>"
    "devents (polled env s) = devents s @ (if tempLastTempValid (ud s) then [crossing (ud s)] else [])"
proof -
  obtain rc v where g: "on_get env (dcalls s) (temp_tuple (ud s)) = (rc, v)" by fastforce
  with assms have rc: "rc \<noteq> ESIF_OK" by (auto simp: reported_def)
  have e: "exec_get env GET_TEMPERATURE (ud_domain (ud s)) 255 s = (rc, v, asked env s)"
    using g by (simp add: asked_def exec_get_def temp_tuple_def Let_def)
  let ?s2 = "if rc = ESIF_E_STOP_POLL then set_ud (\<lambda>d. d\<lparr>tempPollType := ESIF_POLL_UNSUPPORTED\<rparr>) (asked env s) else asked env s"
  let ?s3 = "if tempLastTempValid (ud ?s2) then snd (signal_event env ESIF_EVENT_TEMP_THRESHOLD_CROSSED None ?s2) else ?s2"
  have p: "polled env s = set_ud (\<lambda>d. d\<lparr>tempLastTempValid := False\<rparr>) ?s3"
    using e rc by (simp add: polled_def EsifUpDomain_CheckTemp_def Let_def)
  have "ud (polled env s) = (ud s)\<lparr>tempPollType := (if rc = ESIF_E_STOP_POLL then ESIF_POLL_UNSUPPORTED else tempPollType (ud s)),
      tempLastTempValid := False\<rparr>" unfolding p by (simp add: signal_state)
  then show "\<exists>ty. ud (polled env s) = (ud s)\<lparr>tempPollType := ty, tempLastTempValid := False\<rparr>" by blast
  show "devents (polled env s) = devents s @ (if tempLastTempValid (ud s) then [crossing (ud s)] else [])"
    unfolding p by (simp add: signal_state crossing_def)
qed

lemma polled_ok:
  assumes "reported env s = Some t"
  shows "ud (polled env s) = (ud s)\<lparr>tempLastTempValid := True, tempInvalidValueDetected := (5282 = t), tempNotifySent := sent_after (ud s) (Some t)\<rparr>"
    "devents (polled env s) = devents s @ (if posts (ud s) (Some t) then [crossing (ud s)] else [])"
proof -
  obtain rc v where g: "on_get env (dcalls s) (temp_tuple (ud s)) = (rc, v)" by fastforce
  with assms have rc: "rc = ESIF_OK" and t: "t = (case v of None \<Rightarrow> ESIF_DOMAIN_TEMP_INVALID | Some t \<Rightarrow> t)"
    by (auto simp: reported_def split: if_splits)
  have e: "exec_get env GET_TEMPERATURE (ud_domain (ud s)) 255 s = (ESIF_OK, v, asked env s)"
    using g rc by (simp add: asked_def exec_get_def temp_tuple_def Let_def)
  have p: "polled env s = (let d3 = (ud s)\<lparr>tempLastTempValid := True, tempInvalidValueDetected := (5282 = t),
         tempNotifySent := (tempNotifySent (ud s) \<and> \<not> EsifUpDomain_TempIsInThresholds (ud s) t)\<rparr>; s3 = (asked env s)\<lparr>ud := d3\<rparr> in
      if EsifUpDomain_IsTempOutOfThresholds (ud s) t \<and> \<not> tempNotifySent d3 \<and> 5282 \<noteq> t
      then snd (signal_event env ESIF_EVENT_TEMP_THRESHOLD_CROSSED None (set_ud (\<lambda>d. d\<lparr>tempNotifySent := True\<rparr>) s3)) else s3)"
    using e by (cases "tempNotifySent (ud s)"; cases "EsifUpDomain_TempIsInThresholds (ud s) t")
      (simp_all add: polled_def EsifUpDomain_CheckTemp_def Let_def t [symmetric])
  show "ud (polled env s) = (ud s)\<lparr>tempLastTempValid := True, tempInvalidValueDetected := (5282 = t), tempNotifySent := sent_after (ud s) (Some t)\<rparr>"
    by (auto simp: p signal_state sent_after_def posts_def Let_def)
  show "devents (polled env s) = devents s @ (if posts (ud s) (Some t) then [crossing (ud s)] else [])"
    by (auto simp: p signal_state crossing_def posts_def Let_def)
qed

lemma poll_step:
  "same_thresholds (ud s) (ud (polled env s))"
  "devents (polled env s) = devents s @ (if posts (ud s) (reported env s) then [crossing (ud s)] else [])"
  "tempNotifySent (ud (polled env s)) = sent_after (ud s) (reported env s)"
  "tempLastTempValid (ud (polled env s)) = (reported env s \<noteq> None)"
proof -
  have "same_thresholds (ud s) (ud (polled env s)) \<and> devents (polled env s) = devents s @ (if posts (ud s) (reported env s) then [crossing (ud s)] else [])
    \<and> tempNotifySent (ud (polled env s)) = sent_after (ud s) (reported env s) \<and> tempLastTempValid (ud (polled env s)) = (reported env s \<noteq> None)"
  proof (cases "reported env s")
    case None
    from polled_fail(1) [OF this] obtain ty where "ud (polled env s) = (ud s)\<lparr>tempPollType := ty, tempLastTempValid := False\<rparr>" by blast
    with polled_fail(2) [OF None] None show ?thesis by (simp add: same_thresholds_def sent_after_def posts_def)
  next
    case (Some t)
    with polled_ok [OF Some] show ?thesis by (simp add: same_thresholds_def)
  qed
  then show "same_thresholds (ud s) (ud (polled env s))"
    "devents (polled env s) = devents s @ (if posts (ud s) (reported env s) then [crossing (ud s)] else [])"
    "tempNotifySent (ud (polled env s)) = sent_after (ud s) (reported env s)"
    "tempLastTempValid (ud (polled env s)) = (reported env s \<noteq> None)" by blast+
qed

text \<open>The state before the poll number \<open>i\<close>, its reading and whether it posts an event.\<close>

definition polls :: "domain_env \<Rightarrow> dom_state \<Rightarrow> nat \<Rightarrow> dom_state" where
  "polls env s i = (polled env ^^ i) s"




lemma polls_0 [simp]: "polls env s 0 = s"
  by (simp add: polls_def)







text \<open>The domain with the thresholds of 20 and 30 degrees.\<close>

definition demo_limits :: dom_state where
  "demo_limits = set_ud (\<lambda>d. d\<lparr>tempAux0 := 2932, tempAux1 := 3032, tempAux0WHyst := 2922\<rparr>) demo_domain"


text \<open>
  C40. When a device reports its temperature but has no hysteresis, the detection leaves both thresholds of a new
  domain at zero instead of unset: the first poll posts a threshold event although no policy has set
  a threshold.
\<close>

theorem domain_spurious_event:
  assumes "has_cap (ud s) ESIF_CAPABILITY_TYPE_TEMP_STATUS" "tempAux0 (ud s) = 0" "tempAux1 (ud s) = 0" "\<not> tempNotifySent (ud s)"
    "\<forall>log. answered (fst (on_get env log (temp_tuple (ud s))))"
    "\<forall>log. fst (on_get env log \<lparr>tup_id = GET_TEMPERATURE_THRESHOLD_HYSTERESIS, tup_domain = ud_domain (ud s), tup_instance = 255\<rparr>) \<noteq> ESIF_OK"
    "reported env (snd (EsifUpDomain_TempDetectInit env s)) = Some t" "t \<noteq> ESIF_DOMAIN_TEMP_INVALID" "t \<noteq> 5282"
  shows "fst (EsifUpDomain_TempDetectInit env s) = ESIF_OK
    \<and> devents (polled env (snd (EsifUpDomain_TempDetectInit env s)))
        = devents (snd (EsifUpDomain_TempDetectInit env s)) @ [crossing (ud (snd (EsifUpDomain_TempDetectInit env s)))]"
proof -
  let ?s0 = "set_ud (\<lambda>d. d\<lparr>tempPollType := ESIF_POLL_NONE\<rparr>) s"
  obtain rc v s1 where d: "EsifUpDomain_CapDetect env ESIF_CAPABILITY_TYPE_TEMP_STATUS GET_TEMPERATURE 255 ?s0 = (rc, v, s1)"
    by (metis prod_cases3)
  have "fst (on_get env (dcalls s) (temp_tuple (ud s))) = rc"
    using d assms(1) by (auto simp: EsifUpDomain_CapDetect_def exec_get_def temp_tuple_def Let_def split: prod.splits)
  then have rc: "answered rc" using assms(5) by blast
  have s1: "ud s1 = (ud s)\<lparr>tempPollType := ESIF_POLL_NONE\<rparr>" using narrowed_detect [OF d] by simp
  obtain rc2 h s2 where g: "exec_get env GET_TEMPERATURE_THRESHOLD_HYSTERESIS (ud_domain (ud s1)) 255 s1 = (rc2, h, s2)" by (metis prod_cases3)
  have rc2: "rc2 \<noteq> ESIF_OK" using g assms(6) s1 by (auto simp: exec_get_def Let_def split: prod.splits) (metis fst_conv)
  have s2: "ud s2 = ud s1" using narrowed_exec [OF g] by simp
  let ?s3 = "case h of None \<Rightarrow> s2 | Some x \<Rightarrow> set_ud (\<lambda>d. d\<lparr>tempHysteresis := x\<rparr>) s2"
  have r: "EsifUpDomain_TempDetectInit env s = (ESIF_OK, set_ud (\<lambda>d. d\<lparr>tempHysteresis := esif_temp_rel_to_abs ESIF_DOMAIN_HYST_DEF\<rparr>) ?s3)"
    using d rc g rc2 by (simp add: EsifUpDomain_TempDetectInit_def Let_def)
  have "tempAux1 (ud (snd (EsifUpDomain_TempDetectInit env s))) = 0" "\<not> tempNotifySent (ud (snd (EsifUpDomain_TempDetectInit env s)))"
    using assms(3,4) s1 s2 by (simp_all add: r split: option.split)
  then have "posts (ud (snd (EsifUpDomain_TempDetectInit env s))) (Some t)"
    using assms(8,9) by (simp add: posts_def EsifUpDomain_IsTempOutOfThresholds_def)
  then show ?thesis using assms(7) r by (simp add: poll_step(2))
qed

theorem domain_spurious_event_witness:
  "devents (polled (demo_device demo_fan) (snd (EsifUpDomain_TempDetectInit (demo_device demo_fan) demo_domain))) \<noteq> []"
proof -
  have a: "has_cap (ud demo_domain) ESIF_CAPABILITY_TYPE_TEMP_STATUS" "tempAux0 (ud demo_domain) = 0" "tempAux1 (ud demo_domain) = 0"
    "\<not> tempNotifySent (ud demo_domain)" by (simp_all add: demo_defs)
  have b: "\<forall>log. answered (fst (on_get (demo_device demo_fan) log (temp_tuple (ud demo_domain))))"
    "\<forall>log. fst (on_get (demo_device demo_fan) log \<lparr>tup_id = GET_TEMPERATURE_THRESHOLD_HYSTERESIS, tup_domain = ud_domain (ud demo_domain), tup_instance = 255\<rparr>) \<noteq> ESIF_OK"
    by (simp_all add: demo_device_def demo_fan_def temp_tuple_def)
  have c: "reported (demo_device demo_fan) (snd (EsifUpDomain_TempDetectInit (demo_device demo_fan) demo_domain)) = Some 3000"
    by (simp add: reported_def demo_device_def demo_fan_def temp_tuple_def)
  from domain_spurious_event [OF a b c] show ?thesis by simp
qed

text \<open>The timer fires while the participant is available.\<close>

definition fired :: "domain_env \<Rightarrow> dom_state \<Rightarrow> dom_state" where
  "fired env s = snd (EsifUpDomain_PollTemp env True s)"

text \<open>What keeps a domain polling: its poll type, its timer, a period, a threshold, and a device that does not ask to stop.\<close>

definition polling :: "domain_env \<Rightarrow> dom_state \<Rightarrow> bool" where
  "polling env s \<longleftrightarrow> tempPollType (ud s) = ESIF_POLL_DOMAIN \<and> tempPollPeriod (ud s) > 0 \<and> tempPollInitialized (ud s)
     \<and> EsifUpDomain_AnyTempThresholdValid (ud s) \<and> (\<forall>log. fst (on_get env log (temp_tuple (ud s))) \<noteq> ESIF_E_STOP_POLL)
     \<and> (\<forall>log p. on_timer_set env log p = ESIF_OK)"

lemma polled_polling:
  assumes "\<forall>log. fst (on_get env log (temp_tuple (ud s))) \<noteq> ESIF_E_STOP_POLL"
  shows "\<exists>n v i. ud (polled env s) = (ud s)\<lparr>tempNotifySent := n, tempLastTempValid := v, tempInvalidValueDetected := i\<rparr>"
proof (cases "reported env s")
  case None
  obtain rc v where g: "on_get env (dcalls s) (temp_tuple (ud s)) = (rc, v)" by fastforce
  have rc: "rc \<noteq> ESIF_OK" "rc \<noteq> ESIF_E_STOP_POLL" using g None assms by (auto simp: reported_def) (metis fst_conv)
  have e: "exec_get env GET_TEMPERATURE (ud_domain (ud s)) 255 s = (rc, v, asked env s)"
    using g by (simp add: asked_def exec_get_def temp_tuple_def Let_def)
  have "ud (polled env s) = (ud s)\<lparr>tempLastTempValid := False\<rparr>"
    using e rc by (simp add: polled_def EsifUpDomain_CheckTemp_def signal_state Let_def)
  then have "ud (polled env s) = (ud s)\<lparr>tempNotifySent := tempNotifySent (ud s), tempLastTempValid := False, tempInvalidValueDetected := tempInvalidValueDetected (ud s)\<rparr>"
    by simp
  then show ?thesis by blast
next
  case (Some t)
  have "ud (polled env s) = (ud s)\<lparr>tempNotifySent := sent_after (ud s) (Some t), tempLastTempValid := True, tempInvalidValueDetected := (5282 = t)\<rparr>"
    using polled_ok(1) [OF Some] by simp
  then show ?thesis by blast
qed

lemma fired_polling:
  assumes "polling env s"
  shows "polling env (fired env s) \<and> tempPollPeriod (ud (fired env s)) = tempPollPeriod (ud s)
    \<and> tempPollTimer (ud (fired env s)) = Some (if tempInvalidValueDetected (ud (fired env s)) \<and> tempPollPeriod (ud s) < ESIF_DOMAIN_TEMP_INVALID_POLL_PERIOD
        then ESIF_DOMAIN_TEMP_INVALID_POLL_PERIOD else tempPollPeriod (ud s))"
proof -
  let ?s0 = "set_ud (\<lambda>d. d\<lparr>tempPollTimer := None\<rparr>) s"
  let ?x = "polled env ?s0"
  have "\<forall>log. fst (on_get env log (temp_tuple (ud ?s0))) \<noteq> ESIF_E_STOP_POLL" using assms by (simp add: polling_def temp_tuple_def)
  from polled_polling [OF this] obtain n v i where
    x: "ud ?x = (ud ?s0)\<lparr>tempNotifySent := n, tempLastTempValid := v, tempInvalidValueDetected := i\<rparr>" by blast
  let ?p = "if i \<and> tempPollPeriod (ud s) < ESIF_DOMAIN_TEMP_INVALID_POLL_PERIOD then ESIF_DOMAIN_TEMP_INVALID_POLL_PERIOD else tempPollPeriod (ud s)"
  have t: "set_temp_timer env p ?x = (ESIF_OK, set_ud (\<lambda>d. d\<lparr>tempPollTimer := Some p\<rparr>) (?x\<lparr>dcalls := dcalls ?x @ [(CallTimerSet p, ESIF_OK)]\<rparr>))" for p
    using assms by (simp add: set_temp_timer_def polling_def)
  obtain rc y where c: "EsifUpDomain_CheckTemp env ?s0 = (rc, y)" by fastforce
  then have y: "?x = y" by (simp add: polled_def)
  have "fired env s = snd (set_temp_timer env ?p ?x)"
    using assms x unfolding fired_def EsifUpDomain_PollTemp_def
    by (simp add: c y polling_def EsifUpDomain_AnyTempThresholdValid_def Let_def)
  then have "ud (fired env s) = (ud s)\<lparr>tempNotifySent := n, tempLastTempValid := v, tempInvalidValueDetected := i, tempPollTimer := Some ?p\<rparr>"
    using x by (simp add: t)
  with assms show ?thesis by (simp add: polling_def EsifUpDomain_AnyTempThresholdValid_def temp_tuple_def)
qed

text \<open>
  C36. Take a domain that is polled (the poll type of a domain, a positive period, an initialised timer) and has a
  valid threshold, whose participant is still available whenever the timer fires, whose device never asks to stop,
  and whose timer can always be set. Then polling never stops: each time the timer fires it is armed again, with
  the period of the domain, or with five seconds when the period is shorter and the last value was that of an
  absent sensor.
\<close>

theorem domain_polling_goes_on:
  assumes "polling env s"
  shows "tempPollTimer (ud ((fired env ^^ Suc n) s)) = Some (if tempInvalidValueDetected (ud ((fired env ^^ Suc n) s)) \<and> tempPollPeriod (ud s) < 5000
      then 5000 else tempPollPeriod (ud s))"
proof -
  have "polling env ((fired env ^^ n) s) \<and> tempPollPeriod (ud ((fired env ^^ n) s)) = tempPollPeriod (ud s)"
    using assms fired_polling by (induction n) simp_all
  with fired_polling [of env "(fired env ^^ n) s"] show ?thesis by simp
qed

theorem domain_polling_goes_on_witness:
  "\<exists>p. tempPollTimer (ud ((fired (demo_device demo_fan) ^^ 3) (set_ud (\<lambda>d. d\<lparr>tempPollType := ESIF_POLL_DOMAIN, tempPollPeriod := 1000,
     tempPollInitialized := True\<rparr>) demo_limits))) = Some p"
proof -
  let ?s = "set_ud (\<lambda>d. d\<lparr>tempPollType := ESIF_POLL_DOMAIN, tempPollPeriod := 1000, tempPollInitialized := True\<rparr>) demo_limits"
  have "polling (demo_device demo_fan) ?s"
    by (simp add: polling_def demo_limits_def demo_defs EsifUpDomain_AnyTempThresholdValid_def temp_tuple_def)
  from domain_polling_goes_on [OF this, of 2] show ?thesis by (simp add: eval_nat_numeral)
qed

end
