(* ===== verification/Participant.thy ===== *)
theory Participant
  imports Domain
begin

text \<open>
  An upper participant, the object that stands for a device: its creation from the data of the lower
  framework or of an upper interface, its references and its destruction, and the operations that run
  over its domains: \<^verbatim>\<open>src/ESIF/Products/ESIF_UF/Sources/esif_uf_participant.c\<close>,
  \<^verbatim>\<open>src/ESIF/Products/ESIF_CM/Sources/esif_participant.h\<close> and the iterator at the end of \<^verbatim>\<open>esif_uf_domain.c\<close>.

  Participants live in a store; \<open>None\<close> is a read of a participant that is not there, or a wait for a
  delete event that is not set. The choice of a device support package, its delivery to the
  lower framework and the device itself are parameters. The arbitration context of a
  participant is opaque here as in the code, and handing it to the arbiter for destruction is recorded.
\<close>

section \<open>State\<close>

text \<open>The data of a creation request of the lower framework, and of an upper interface.\<close>

record esif_ipc_event_data_create_participant =
  lp_id :: u8
  lp_version :: u8
  lp_class_guid :: "u8 list"
  lp_enumerator :: u32
  lp_flags :: u32
  lp_name :: "u8 list"
  lp_desc :: "u8 list"
  lp_driver_name :: "u8 list"
  lp_device_name :: "u8 list"
  lp_device_path :: "u8 list"
  lp_acpi_device :: "u8 list"
  lp_acpi_scope :: "u8 list"
  lp_acpi_uid :: "u8 list"
  lp_acpi_type :: u32
  lp_pci_vendor :: u32
  lp_pci_device :: u32
  lp_pci_bus :: u8
  lp_pci_bus_device :: u8
  lp_pci_function :: u8
  lp_pci_revision :: u8
  lp_pci_class :: u8
  lp_pci_sub_class :: u8
  lp_pci_prog_if :: u8

record EsifParticipantIface =
  pi_version :: u8
  pi_class_guid :: "u8 list"
  pi_enumerator :: u32
  pi_flags :: u32
  pi_name :: "u8 list"
  pi_desc :: "u8 list"
  pi_driver_name :: "u8 list"
  pi_device_name :: "u8 list"
  pi_device_path :: "u8 list"
  pi_object_id :: "u8 list"
  pi_acpi_type :: u32
  pi_scbl :: u32
  pi_port :: u32
  pi_pciDeviceId :: u16
  pi_pciVendorId :: u16

text \<open>A metadata pointer with the origin that says what it points to.\<close>

datatype up_metadata = OriginLF esif_ipc_event_data_create_participant | OriginUF EsifParticipantIface

datatype eEsifParticipantOrigin = eParticipantOriginLF | eParticipantOriginUF

record EsifUpData =
  fVersion :: u8
  fDriverType :: "u8 list"
  fName :: "u8 list"
  fDesc :: "u8 list"
  fDriverName :: "u8 list"
  fDeviceName :: "u8 list"
  fDevicePath :: "u8 list"
  fEnumerator :: u32
  fFlags :: u32
  fAcpiDevice :: "u8 list"
  fAcpiScope :: "u8 list"
  fAcpiUID :: "u8 list"
  fAcpiType :: u32
  fPciVendor :: u16
  fPciDevice :: u16
  fPciBus :: u8
  fPciBusDevice :: u8
  fPciFunction :: u8
  fPciRevision :: u8
  fPciClass :: u8
  fPciSubClass :: u8
  fPciProgIf :: u8
  fScbl :: u32
  fPort :: u32

text \<open>What is used of a device support package: its domains and the actions it contains.\<close>

record EsifDsp =
  dsp_domains :: "esif_fpc_domain list"
  contained_actions :: "u32 \<Rightarrow> bool"

record 'c EsifUp =
  fInstance :: esif_handle_t
  fLpInstance :: u8
  fLpAlias :: u8
  fDspPtr :: "EsifDsp option"
  fMetadata :: EsifUpData
  arbitrationContext :: "'c option"
  fOrigin :: eEsifParticipantOrigin
  domainCount :: u8
  domains :: "EsifUpDomain list"
  up_refCount :: u32
  up_markedForDelete :: bool
  up_deleteEvent :: bool

record 'c up_store =
  up_mem :: "addr \<Rightarrow> 'c EsifUp option"
  up_alloc :: allocator
  up_calls :: dom_log
  up_events :: "dom_event list"
  ctx_destroyed :: "'c option list"

text \<open>The query for a support package, made of the metadata; the code formats the numbers.\<close>

record EsifDspQuery =
  q_vendorId :: u16
  q_deviceId :: u16
  q_enumerator :: u32
  q_hid :: "u8 list"
  q_uid :: "u8 list"
  q_ptype :: u32
  q_participantName :: "u8 list"

record up_env =
  EsifDspMgr_SelectDsp :: "EsifDspQuery \<Rightarrow> u8 list option"
  esif_send_dsp :: "u8 list \<Rightarrow> u8 \<Rightarrow> esif_rc"
  esif_uf_dm_select_dsp_by_code :: "u8 list \<Rightarrow> EsifDsp option"
  device_of :: "addr \<Rightarrow> domain_env"

abbreviation (input) ESIF_FLAG_DPTFZ :: nat where "ESIF_FLAG_DPTFZ \<equiv> 0"
abbreviation (input) ESIF_FLAG_EXTERN_DPTFZ :: nat where "ESIF_FLAG_EXTERN_DPTFZ \<equiv> 1"
abbreviation (input) ESIF_FLAG_AUTO_ENUMERATED :: nat where "ESIF_FLAG_AUTO_ENUMERATED \<equiv> 3"
abbreviation (input) ESIF_INSTANCE_LF :: u8 where "ESIF_INSTANCE_LF \<equiv> 0"
abbreviation (input) ESIF_INSTANCE_INVALID :: u8 where "ESIF_INSTANCE_INVALID \<equiv> 255"
abbreviation (input) ESIF_DOMAIN_MAX :: nat where "ESIF_DOMAIN_MAX \<equiv> 10"
abbreviation (input) ESIF_NAME_LEN :: nat where "ESIF_NAME_LEN \<equiv> 64"
abbreviation (input) ESIF_DESC_LEN :: nat where "ESIF_DESC_LEN \<equiv> 64"
abbreviation (input) ESIF_PATH_LEN :: nat where "ESIF_PATH_LEN \<equiv> 128"
abbreviation (input) ESIF_SCOPE_LEN :: nat where "ESIF_SCOPE_LEN \<equiv> 64"
abbreviation (input) ESIF_ACPI_UID_LEN :: nat where "ESIF_ACPI_UID_LEN \<equiv> 64"
abbreviation (input) ESIF_DOMAIN_TYPE_INVALID :: u32 where "ESIF_DOMAIN_TYPE_INVALID \<equiv> - 1"
abbreviation (input) ESIF_DOMAIN_TYPE_NVME :: u32 where "ESIF_DOMAIN_TYPE_NVME \<equiv> 29"

section \<open>Accessors\<close>

definition up_at :: "addr option \<Rightarrow> 'c up_store \<Rightarrow> 'c EsifUp option option" where
  "up_at p s = (case p of None \<Rightarrow> Some None | Some a \<Rightarrow> map_option Some (up_mem s a))"

definition EsifUp_GetInstance :: "'c EsifUp option \<Rightarrow> esif_handle_t" where
  "EsifUp_GetInstance self = (case self of None \<Rightarrow> ESIF_INVALID_HANDLE | Some u \<Rightarrow> fInstance u)"

definition EsifUp_GetLpInstance :: "'c EsifUp option \<Rightarrow> u8" where
  "EsifUp_GetLpInstance self = (case self of None \<Rightarrow> ESIF_INSTANCE_INVALID | Some u \<Rightarrow> fLpInstance u)"

definition EsifUp_GetName :: "'c EsifUp option \<Rightarrow> u8 list" where
  "EsifUp_GetName self = (case self of None \<Rightarrow> [0x55, 0x4E, 0x4B] | Some u \<Rightarrow> fName (fMetadata u))"

definition EsifUp_GetPtype :: "'c EsifUp option \<Rightarrow> u32" where
  "EsifUp_GetPtype self = (case self of None \<Rightarrow> ESIF_DOMAIN_TYPE_INVALID | Some u \<Rightarrow> fAcpiType (fMetadata u))"

definition EsifUp_GetFlags :: "'c EsifUp option \<Rightarrow> u32" where
  "EsifUp_GetFlags self = (case self of None \<Rightarrow> 0 | Some u \<Rightarrow> fFlags (fMetadata u))"

definition EsifUp_IsPrimaryParticipant :: "'c EsifUp option \<Rightarrow> bool" where
  "EsifUp_IsPrimaryParticipant self = (case self of None \<Rightarrow> False | Some u \<Rightarrow> bit (fFlags (fMetadata u)) ESIF_FLAG_DPTFZ)"

definition EsifUp_IsActionInDsp :: "'c EsifUp option \<Rightarrow> u32 \<Rightarrow> bool" where
  "EsifUp_IsActionInDsp self actionType =
     (case self of None \<Rightarrow> False | Some u \<Rightarrow> (case fDspPtr u of None \<Rightarrow> False | Some d \<Rightarrow> contained_actions d actionType))"

section \<open>References\<close>

definition put_up :: "addr \<Rightarrow> 'c EsifUp \<Rightarrow> 'c up_store \<Rightarrow> 'c up_store" where
  "put_up a u s = s\<lparr>up_mem := (up_mem s)(a \<mapsto> u)\<rparr>"

definition EsifUp_GetRef :: "addr option \<Rightarrow> 'c up_store \<Rightarrow> (esif_rc \<times> 'c up_store) option" where
  "EsifUp_GetRef self s =
     (case self of None \<Rightarrow> Some (ESIF_E_PARAMETER_IS_NULL, s)
      | Some a \<Rightarrow> do { u \<leftarrow> up_mem s a;
          if up_markedForDelete u then Some (ESIF_E_UNSPECIFIED, s)
          else Some (ESIF_OK, put_up a (u\<lparr>up_refCount := up_refCount u + 1\<rparr>) s) })"

definition EsifUp_PutRef :: "addr option \<Rightarrow> 'c up_store \<Rightarrow> 'c up_store option" where
  "EsifUp_PutRef self s =
     (case self of None \<Rightarrow> Some s
      | Some a \<Rightarrow> do { u \<leftarrow> up_mem s a;
          let u1 = u\<lparr>up_refCount := up_refCount u - 1\<rparr>;
          Some (put_up a (if up_refCount u1 = 0 \<and> up_markedForDelete u1 then u1\<lparr>up_deleteEvent := True\<rparr> else u1) s) })"

section \<open>Iteration over the domains\<close>

record UpDomainIterator =
  di_marked :: bool
  di_handle :: u8
  di_up :: "addr option"

definition EsifUpDomain_InitIterator :: "addr option \<Rightarrow> 'c up_store \<Rightarrow> (esif_rc \<times> UpDomainIterator \<times> 'c up_store) option" where
  "EsifUpDomain_InitIterator up s =
     (let it = \<lparr>di_marked = False, di_handle = 0, di_up = None\<rparr> in
      case up of None \<Rightarrow> Some (ESIF_E_PARAMETER_IS_NULL, it, s)
      | Some a \<Rightarrow> do {
          (rc, s1) \<leftarrow> EsifUp_GetRef up s;
          if rc \<noteq> ESIF_OK then Some (ESIF_E_NO_CREATE, it, s1)
          else Some (ESIF_OK, it\<lparr>di_up := up, di_marked := True\<rparr>, s1) })"

text \<open>The result has the index of the domain that is pointed to.\<close>

definition EsifUpDomain_GetNextUd ::
    "UpDomainIterator \<Rightarrow> 'c up_store \<Rightarrow> (esif_rc \<times> UpDomainIterator \<times> nat option \<times> 'c up_store) option" where
  "EsifUpDomain_GetNextUd it s =
     (if \<not> di_marked it then Some (ESIF_E_INVALID_HANDLE, it, None, s)
      else do {
        a \<leftarrow> di_up it;
        u \<leftarrow> up_mem s a;
        if di_handle it \<ge> domainCount u then do {
          s1 \<leftarrow> EsifUp_PutRef (Some a) s;
          Some (ESIF_E_ITERATION_DONE, it\<lparr>di_marked := False\<rparr>, None, s1) }
        else Some (ESIF_OK, it\<lparr>di_handle := di_handle it + 1\<rparr>, Some (unat (di_handle it)), s) })"

text \<open>An operation of a domain runs on the domain and on the calls and events of the store.\<close>

definition on_domain :: "(dom_state \<Rightarrow> dom_state) \<Rightarrow> addr \<Rightarrow> nat \<Rightarrow> 'c up_store \<Rightarrow> 'c up_store option" where
  "on_domain f a i s = do {
     u \<leftarrow> up_mem s a;
     if i < length (domains u) then
       let r = f \<lparr>ud = domains u ! i, dcalls = up_calls s, devents = up_events s\<rparr> in
       Some ((put_up a (u\<lparr>domains := (domains u)[i := ud r]\<rparr>) s)\<lparr>up_calls := dcalls r, up_events := devents r\<rparr>)
     else None }"

text \<open>The loop that every operation over the domains has, with the release of the reference when it ends early.\<close>

partial_function (option) each_domain_loop ::
    "(dom_state \<Rightarrow> dom_state) \<Rightarrow> addr \<Rightarrow> UpDomainIterator \<Rightarrow> 'c up_store \<Rightarrow> (esif_rc \<times> 'c up_store) option" where
  "each_domain_loop f a it s = do {
     (rc, it1, d, s1) \<leftarrow> EsifUpDomain_GetNextUd it s;
     if rc = ESIF_OK then
       (case d of None \<Rightarrow> each_domain_loop f a it1 s1
        | Some i \<Rightarrow> do { s2 \<leftarrow> on_domain f a i s1; each_domain_loop f a it1 s2 })
     else Some (rc, s1) }"

definition each_domain :: "(dom_state \<Rightarrow> dom_state) \<Rightarrow> addr option \<Rightarrow> 'c up_store \<Rightarrow> (esif_rc \<times> 'c up_store) option" where
  "each_domain f up s =
     (case up of None \<Rightarrow> Some (ESIF_E_PARAMETER_IS_NULL, s)
      | Some a \<Rightarrow> do {
          (rc, it, s1) \<leftarrow> EsifUpDomain_InitIterator up s;
          if rc \<noteq> ESIF_OK then Some (rc, s1)
          else do {
            (rc1, s2) \<leftarrow> each_domain_loop f a it s1;
            if rc1 = ESIF_E_ITERATION_DONE then Some (ESIF_OK, s2)
            else do { s3 \<leftarrow> EsifUp_PutRef up s2; Some (rc1, s3) } } })"

definition EsifUp_SuspendParticipant :: "addr option \<Rightarrow> 'c up_store \<Rightarrow> (esif_rc \<times> 'c up_store) option" where
  "EsifUp_SuspendParticipant = each_domain (EsifUpDomain_StopStatePoll \<circ> EsifUpDomain_StopTempPoll)"

definition EsifUp_ResumeParticipant :: "addr option \<Rightarrow> 'c up_store \<Rightarrow> (esif_rc \<times> 'c up_store) option" where
  "EsifUp_ResumeParticipant = each_domain id"

definition EsifUp_RegisterParticipantForPolling :: "addr option \<Rightarrow> 'c up_store \<Rightarrow> 'c up_store option" where
  "EsifUp_RegisterParticipantForPolling up s =
     map_option snd (each_domain (EsifUpDomain_RegisterForStatePoll ESIF_POLL_ECONO \<circ> EsifUpDomain_RegisterForTempPoll ESIF_POLL_ECONO) up s)"

definition EsifUp_UnRegisterParticipantForPolling :: "addr option \<Rightarrow> 'c up_store \<Rightarrow> 'c up_store option" where
  "EsifUp_UnRegisterParticipantForPolling up s =
     map_option snd (each_domain (EsifUpDomain_UnRegisterForStatePoll \<circ> EsifUpDomain_UnRegisterForTempPoll) up s)"

definition EsifUp_PollParticipant :: "up_env \<Rightarrow> addr option \<Rightarrow> 'c up_store \<Rightarrow> 'c up_store option" where
  "EsifUp_PollParticipant env up s =
     (case up of None \<Rightarrow> Some s
      | Some a \<Rightarrow> map_option snd (each_domain (\<lambda>d. snd (EsifUpDomain_Poll (device_of env a) d)) up s))"

definition EsifUp_StopParticipantSlowPoll :: "up_env \<Rightarrow> addr option \<Rightarrow> 'c up_store \<Rightarrow> (esif_rc \<times> 'c up_store) option" where
  "EsifUp_StopParticipantSlowPoll env up s =
     (case up of None \<Rightarrow> Some (ESIF_E_PARAMETER_IS_NULL, s)
      | Some a \<Rightarrow> each_domain (\<lambda>d. snd (EsifUpDomain_InitTempPoll (device_of env a) d)) up s)"

definition EsifUp_SetInstance :: "addr option \<Rightarrow> esif_handle_t \<Rightarrow> 'c up_store \<Rightarrow> 'c up_store option" where
  "EsifUp_SetInstance up h s =
     (case up of None \<Rightarrow> Some s
      | Some a \<Rightarrow> do {
          u \<leftarrow> up_mem s a;
          map_option snd (each_domain (EsifUpDomain_SetUpId h) up (put_up a (u\<lparr>fInstance := h\<rparr>) s)) })"

section \<open>Creation\<close>

abbreviation (input) ESIF_PARTICIPANT_ENUM_CONJURE :: u32 where "ESIF_PARTICIPANT_ENUM_CONJURE \<equiv> 3"

text \<open>\<^verbatim>\<open>esif_ccb_strcpy\<close> into a buffer of \<open>n\<close> bytes.\<close>

definition esif_ccb_strcpy :: "nat \<Rightarrow> u8 list \<Rightarrow> u8 list" where
  "esif_ccb_strcpy n src = take (n - 1) src"

definition EsifUpData_zero :: EsifUpData where
  "EsifUpData_zero = \<lparr>fVersion = 0, fDriverType = replicate 16 0, fName = [], fDesc = [], fDriverName = [], fDeviceName = [], fDevicePath = [],
     fEnumerator = 0, fFlags = 0, fAcpiDevice = [], fAcpiScope = [], fAcpiUID = [], fAcpiType = 0, fPciVendor = 0, fPciDevice = 0, fPciBus = 0,
     fPciBusDevice = 0, fPciFunction = 0, fPciRevision = 0, fPciClass = 0, fPciSubClass = 0, fPciProgIf = 0, fScbl = 0, fPort = 0\<rparr>"

text \<open>A participant as allocated and with its life control set up.\<close>

definition EsifUp_new :: "eEsifParticipantOrigin \<Rightarrow> 'c EsifUp" where
  "EsifUp_new origin = \<lparr>fInstance = ESIF_INVALID_HANDLE, fLpInstance = 0, fLpAlias = 0, fDspPtr = None, fMetadata = EsifUpData_zero,
     arbitrationContext = None, fOrigin = origin, domainCount = 0, domains = replicate ESIF_DOMAIN_MAX EsifUpDomain_zero,
     up_refCount = 1, up_markedForDelete = False, up_deleteEvent = False\<rparr>"

definition lf_metadata :: "esif_ipc_event_data_create_participant \<Rightarrow> EsifUpData" where
  "lf_metadata lp = EsifUpData_zero\<lparr>
     fVersion := lp_version lp, fEnumerator := lp_enumerator lp, fFlags := lp_flags lp, fDriverType := lp_class_guid lp,
     fName := esif_ccb_strcpy ESIF_NAME_LEN (lp_name lp), fDesc := esif_ccb_strcpy ESIF_DESC_LEN (lp_desc lp),
     fDriverName := esif_ccb_strcpy ESIF_NAME_LEN (lp_driver_name lp), fDeviceName := esif_ccb_strcpy ESIF_NAME_LEN (lp_device_name lp),
     fDevicePath := esif_ccb_strcpy ESIF_PATH_LEN (lp_device_path lp), fAcpiUID := esif_ccb_strcpy ESIF_ACPI_UID_LEN (lp_acpi_uid lp),
     fAcpiType := lp_acpi_type lp, fAcpiDevice := esif_ccb_strcpy ESIF_NAME_LEN (lp_acpi_device lp),
     fAcpiScope := esif_ccb_strcpy ESIF_SCOPE_LEN (lp_acpi_scope lp), fPciVendor := ucast (lp_pci_vendor lp),
     fPciDevice := ucast (lp_pci_device lp), fPciBus := lp_pci_bus lp, fPciBusDevice := lp_pci_bus_device lp,
     fPciFunction := lp_pci_function lp, fPciRevision := lp_pci_revision lp, fPciClass := lp_pci_class lp,
     fPciSubClass := lp_pci_sub_class lp, fPciProgIf := lp_pci_prog_if lp\<rparr>"

definition uf_metadata :: "EsifParticipantIface \<Rightarrow> EsifUpData" where
  "uf_metadata p = EsifUpData_zero\<lparr>
     fVersion := pi_version p, fEnumerator := pi_enumerator p, fFlags := pi_flags p, fAcpiType := pi_acpi_type p, fDriverType := pi_class_guid p,
     fName := esif_ccb_strcpy ESIF_NAME_LEN (pi_name p), fDesc := esif_ccb_strcpy ESIF_DESC_LEN (pi_desc p),
     fDriverName := esif_ccb_strcpy ESIF_NAME_LEN (pi_driver_name p), fDeviceName := esif_ccb_strcpy ESIF_NAME_LEN (pi_device_name p),
     fAcpiDevice := esif_ccb_strcpy ESIF_NAME_LEN (pi_device_name p), fDevicePath := esif_ccb_strcpy ESIF_PATH_LEN (pi_device_path p),
     fAcpiScope := esif_ccb_strcpy ESIF_SCOPE_LEN (pi_object_id p), fPort := pi_port p, fScbl := pi_scbl p,
     fPciVendor := pi_pciVendorId p, fPciDevice := pi_pciDeviceId p\<rparr>"

definition EsifUp_SelectDsp :: "up_env \<Rightarrow> 'c EsifUp \<Rightarrow> u8 list option" where
  "EsifUp_SelectDsp env self =
     (let m = fMetadata self in
      EsifDspMgr_SelectDsp env \<lparr>q_vendorId = fPciVendor m, q_deviceId = fPciDevice m, q_enumerator = fEnumerator m,
        q_hid = fAcpiDevice m, q_uid = fAcpiUID m, q_ptype = fAcpiType m, q_participantName = fName m\<rparr>)"

definition find_dsp :: "up_env \<Rightarrow> u8 list \<Rightarrow> 'c EsifUp \<Rightarrow> esif_rc \<times> 'c EsifUp" where
  "find_dsp env name self =
     (let package = esif_uf_dm_select_dsp_by_code env name in
      (if package = None then ESIF_E_NEED_DSP else ESIF_OK, self\<lparr>fDspPtr := package\<rparr>))"

definition EsifUp_SelectDspByLpEventData :: "up_env \<Rightarrow> esif_ipc_event_data_create_participant \<Rightarrow> 'c EsifUp \<Rightarrow> esif_rc \<times> 'c EsifUp" where
  "EsifUp_SelectDspByLpEventData env lp self =
     (case EsifUp_SelectDsp env self of
        None \<Rightarrow> (ESIF_E_NEED_DSP, self)
      | Some name \<Rightarrow>
          let rc = esif_send_dsp env name (lp_id lp) in
          if rc \<noteq> ESIF_OK \<and> rc \<noteq> ESIF_E_DSP_ALREADY_LOADED then (rc, self) else find_dsp env name self)"

definition EsifUp_SelectDspByUpInterface :: "up_env \<Rightarrow> 'c EsifUp \<Rightarrow> esif_rc \<times> 'c EsifUp" where
  "EsifUp_SelectDspByUpInterface env self =
     (case EsifUp_SelectDsp env self of None \<Rightarrow> (ESIF_E_NEED_DSP, self) | Some name \<Rightarrow> find_dsp env name self)"

text \<open>The table has room for ten domains; a package with more is out of bounds.\<close>

definition EsifUp_InitDomains :: "'c EsifUp \<Rightarrow> (esif_rc \<times> 'c EsifUp) option" where
  "EsifUp_InitDomains self =
     (case fDspPtr self of None \<Rightarrow> Some (ESIF_E_PARAMETER_IS_NULL, self)
      | Some package \<Rightarrow>
          let n = length (dsp_domains package) in
          if n > ESIF_DOMAIN_MAX then None
          else Some (ESIF_OK, self\<lparr>domainCount := of_nat n,
                 domains := map2 EsifUpDomain_InitDomain (dsp_domains package) (take n (domains self)) @ drop n (domains self)\<rparr>))"

text \<open>
  The destruction: the mark and the destroyer's reference; the locks of the domains; the wait for the delete event,
  which is over when the event is set, and then the context goes and the participant is freed.
\<close>

definition begin_destroy :: "addr \<Rightarrow> 'c up_store \<Rightarrow> 'c up_store option" where
  "begin_destroy a s = do {
     u \<leftarrow> up_mem s a;
     EsifUp_PutRef (Some a) (put_up a (u\<lparr>up_markedForDelete := True\<rparr>) s) }"

fun uninit_loop :: "addr \<Rightarrow> nat list \<Rightarrow> 'c up_store \<Rightarrow> 'c up_store option" where
  "uninit_loop a [] s = Some s"
| "uninit_loop a (i # is) s = do {
     s1 \<leftarrow> on_domain (\<lambda>d. d\<lparr>ud := EsifUpDomain_UnInitDomain (ud d)\<rparr>) a i s;
     uninit_loop a is s1 }"

definition uninit_domains :: "addr \<Rightarrow> 'c up_store \<Rightarrow> 'c up_store option" where
  "uninit_domains a s = do { u \<leftarrow> up_mem s a; uninit_loop a [0..<unat (domainCount u)] s }"

definition end_destroy :: "addr \<Rightarrow> 'c up_store \<Rightarrow> 'c up_store option" where
  "end_destroy a s = do {
     u \<leftarrow> up_mem s a;
     if up_deleteEvent u
     then Some (s\<lparr>ctx_destroyed := ctx_destroyed s @ [arbitrationContext u], up_mem := (up_mem s)(a := None)\<rparr>)
     else None }"

definition EsifUp_DestroyParticipant :: "addr option \<Rightarrow> 'c up_store \<Rightarrow> 'c up_store option" where
  "EsifUp_DestroyParticipant self s =
     (case self of None \<Rightarrow> Some s
      | Some a \<Rightarrow> do { s1 \<leftarrow> begin_destroy a s; s2 \<leftarrow> uninit_domains a s1; end_destroy a s2 })"

text \<open>The end of both creations: choose the package, set up the domains, and undo everything on failure.\<close>

definition finish_create :: "('c EsifUp \<Rightarrow> esif_rc \<times> 'c EsifUp) \<Rightarrow> 'c EsifUp \<Rightarrow> addr \<Rightarrow> 'c up_store \<Rightarrow> (esif_rc \<times> addr option \<times> 'c up_store) option" where
  "finish_create pick u a s = do {
     (rc, u1) \<leftarrow> (case pick u of (rc, u0) \<Rightarrow> if rc \<noteq> ESIF_OK then Some (rc, u0) else EsifUp_InitDomains u0);
     if rc = ESIF_OK then Some (rc, Some a, put_up a u1 s)
     else do { s1 \<leftarrow> EsifUp_DestroyParticipant (Some a) (put_up a u1 s); Some (rc, None, s1) } }"

definition EsifUp_CreateParticipantByLpEventData ::
    "up_env \<Rightarrow> esif_ipc_event_data_create_participant \<Rightarrow> 'c up_store \<Rightarrow> (esif_rc \<times> addr option \<times> 'c up_store) option" where
  "EsifUp_CreateParticipantByLpEventData env lp s =
     (case esif_ccb_malloc (up_alloc s) of
        (None, m) \<Rightarrow> Some (ESIF_E_NO_MEMORY, None, s\<lparr>up_alloc := m\<rparr>)
      | (Some a, m) \<Rightarrow>
          let u = (EsifUp_new eParticipantOriginLF)\<lparr>fMetadata := lf_metadata lp\<rparr>;
              u1 = (if bit (lp_flags lp) ESIF_FLAG_DPTFZ then u\<lparr>fLpInstance := ESIF_INSTANCE_LF, fLpAlias := lp_id lp\<rparr>
                    else u\<lparr>fLpInstance := lp_id lp\<rparr>) in
          finish_create (EsifUp_SelectDspByLpEventData env lp) u1 a (s\<lparr>up_alloc := m\<rparr>))"

definition EsifUp_CreateParticipantByUpInterface ::
    "up_env \<Rightarrow> EsifParticipantIface \<Rightarrow> 'c up_store \<Rightarrow> (esif_rc \<times> addr option \<times> 'c up_store) option" where
  "EsifUp_CreateParticipantByUpInterface env p s =
     (case esif_ccb_malloc (up_alloc s) of
        (None, m) \<Rightarrow> Some (ESIF_E_NO_MEMORY, None, s\<lparr>up_alloc := m\<rparr>)
      | (Some a, m) \<Rightarrow>
          finish_create (EsifUp_SelectDspByUpInterface env)
            ((EsifUp_new eParticipantOriginUF)\<lparr>fMetadata := uf_metadata p, fLpInstance := ESIF_INSTANCE_INVALID\<rparr>) a (s\<lparr>up_alloc := m\<rparr>))"

definition EsifUp_CreateParticipant :: "up_env \<Rightarrow> up_metadata \<Rightarrow> 'c up_store \<Rightarrow> (esif_rc \<times> addr option \<times> 'c up_store) option" where
  "EsifUp_CreateParticipant env meta s =
     (case meta of OriginLF lp \<Rightarrow> EsifUp_CreateParticipantByLpEventData env lp s
      | OriginUF p \<Rightarrow> EsifUp_CreateParticipantByUpInterface env p s)"

definition EsifUp_ReInitializeParticipantByLpEventData :: "up_env \<Rightarrow> esif_ipc_event_data_create_participant \<Rightarrow> 'c EsifUp \<Rightarrow> esif_rc \<times> 'c EsifUp" where
  "EsifUp_ReInitializeParticipantByLpEventData env lp self =
     EsifUp_SelectDspByLpEventData env lp (self\<lparr>fLpInstance := lp_id lp, fOrigin := eParticipantOriginLF\<rparr>)"

definition EsifUp_ReInitializeParticipantByUpInterface :: "up_env \<Rightarrow> 'c EsifUp \<Rightarrow> esif_rc \<times> 'c EsifUp" where
  "EsifUp_ReInitializeParticipantByUpInterface env self =
     EsifUp_SelectDspByUpInterface env (self\<lparr>fLpInstance := ESIF_INSTANCE_INVALID, fOrigin := eParticipantOriginUF\<rparr>)"

definition EsifUp_ReInitializeParticipant :: "up_env \<Rightarrow> addr option \<Rightarrow> up_metadata \<Rightarrow> 'c up_store \<Rightarrow> (esif_rc \<times> 'c up_store) option" where
  "EsifUp_ReInitializeParticipant env self meta s =
     (case self of None \<Rightarrow> Some (ESIF_E_PARAMETER_IS_NULL, s)
      | Some a \<Rightarrow> do {
          u \<leftarrow> up_mem s a;
          (case (case meta of OriginLF lp \<Rightarrow> EsifUp_ReInitializeParticipantByLpEventData env lp u
                 | OriginUF _ \<Rightarrow> EsifUp_ReInitializeParticipantByUpInterface env u) of
             (rc, u1) \<Rightarrow> Some (rc, put_up a u1 s)) })"

text \<open>The rules of preference, in order.\<close>

definition EsifUp_IsPreferredParticipant :: "'c EsifUp option \<Rightarrow> up_metadata \<Rightarrow> bool" where
  "EsifUp_IsPreferredParticipant up meta =
     (case up of None \<Rightarrow> False
      | Some u \<Rightarrow>
          let cur = fMetadata u in
          case meta of
            OriginLF lp \<Rightarrow> fOrigin u \<noteq> eParticipantOriginLF
              \<or> bit (fFlags cur) ESIF_FLAG_AUTO_ENUMERATED
              \<or> (\<not> bit (lp_flags lp) ESIF_FLAG_AUTO_ENUMERATED \<and> fEnumerator cur = ESIF_PARTICIPANT_ENUM_CONJURE)
              \<or> bit (lp_flags lp) ESIF_FLAG_EXTERN_DPTFZ
          | OriginUF p \<Rightarrow> bit (fFlags cur) ESIF_FLAG_AUTO_ENUMERATED
              \<or> (\<not> bit (pi_flags p) ESIF_FLAG_AUTO_ENUMERATED \<and> fEnumerator cur = ESIF_PARTICIPANT_ENUM_CONJURE))"

section \<open>Initialisation once the package is ready\<close>

text \<open>A domain is found by the digit of its identifier, an index below the number of domains.\<close>

definition EsifUp_GetDomainById :: "'c EsifUp \<Rightarrow> u16 \<Rightarrow> nat option" where
  "EsifUp_GetDomainById self domainId =
     (case EsifDomainIdToIndex domainId of
        (rc, Some i) \<Rightarrow> if rc \<noteq> ESIF_OK \<or> i \<ge> domainCount self then None else Some (unat i)
      | _ \<Rightarrow> None)"

definition set_storage :: "domain_env \<Rightarrow> u16 \<Rightarrow> u32 \<Rightarrow> 'c up_store \<Rightarrow> 'c up_store" where
  "set_storage env prim v s =
     (let t = \<lparr>tup_id = prim, tup_domain = 0x3044, tup_instance = 254\<rparr> in
      s\<lparr>up_calls := up_calls s @ [(CallSet t v, on_set env (up_calls s) t v)]\<rparr>)"

fun ready_domains :: "domain_env \<Rightarrow> addr \<Rightarrow> nat list \<Rightarrow> 'c up_store \<Rightarrow> 'c up_store option" where
  "ready_domains env a [] s = Some s"
| "ready_domains env a (i # is) s = do {
     u \<leftarrow> up_mem s a;
     s1 \<leftarrow> (case EsifUp_GetDomainById u (ud_domain (domains u ! i)) of None \<Rightarrow> Some s
            | Some j \<Rightarrow> on_domain (\<lambda>d. snd (EsifUpDomain_DspReadyInit env d)) a j s);
     ready_domains env a is s1 }"

abbreviation (input) SET_STORAGE_BUS_CONTROLLER_LOCATION :: u16 where "SET_STORAGE_BUS_CONTROLLER_LOCATION \<equiv> 532"
abbreviation (input) SET_PORT :: u16 where "SET_PORT \<equiv> 533"
abbreviation (input) SET_PARTICIPANT_TYPE :: u16 where "SET_PARTICIPANT_TYPE \<equiv> 884"

text \<open>An automatically enumerated storage device is first told where it is.\<close>

definition EsifUp_DspReadyInit :: "up_env \<Rightarrow> addr option \<Rightarrow> 'c up_store \<Rightarrow> (esif_rc \<times> 'c up_store) option" where
  "EsifUp_DspReadyInit env self s =
     (case self of None \<Rightarrow> Some (ESIF_E_PARAMETER_IS_NULL, s)
      | Some a \<Rightarrow> do {
          u \<leftarrow> up_mem s a;
          let m = fMetadata u;
          let d = device_of env a;
          let s1 = (if fAcpiType m = ESIF_DOMAIN_TYPE_NVME \<and> bit (fFlags m) ESIF_FLAG_AUTO_ENUMERATED
                    then set_storage d SET_PARTICIPANT_TYPE (fAcpiType m)
                           (set_storage d SET_STORAGE_BUS_CONTROLLER_LOCATION (fScbl m) (set_storage d SET_PORT (fPort m) s))
                    else s);
          s2 \<leftarrow> ready_domains d a [0..<unat (domainCount u)] s1;
          Some (ESIF_OK, s2) })"

section \<open>Operations over the domains return\<close>

text \<open>A participant in use: its table of domains is in order and its count of references does not wrap.\<close>

definition up_ok :: "'c EsifUp \<Rightarrow> bool" where
  "up_ok u \<longleftrightarrow> \<not> up_markedForDelete u \<and> \<not> up_deleteEvent u \<and> 0 < up_refCount u \<and> up_refCount u \<noteq> -1
     \<and> length (domains u) = ESIF_DOMAIN_MAX \<and> unat (domainCount u) \<le> ESIF_DOMAIN_MAX"

text \<open>Running an operation on the domains one after the other, with the calls and events threaded through.\<close>

fun run_domains :: "(dom_state \<Rightarrow> dom_state) \<Rightarrow> EsifUpDomain list \<Rightarrow> dom_log \<times> dom_event list \<Rightarrow> EsifUpDomain list \<times> dom_log \<times> dom_event list" where
  "run_domains f [] c = ([], c)"
| "run_domains f (d # ds) c =
     (let r = f \<lparr>ud = d, dcalls = fst c, devents = snd c\<rparr>; (ds', c') = run_domains f ds (dcalls r, devents r) in (ud r # ds', c'))"

lemma run_domains_length [simp]: "length (fst (run_domains f ds c)) = length ds"
  by (induction ds arbitrary: c) (simp_all add: Let_def case_prod_beta)

lemma run_domains_snoc:
  "run_domains f (ds @ [d]) c = (let (ds', c') = run_domains f ds c; r = f \<lparr>ud = d, dcalls = fst c', devents = snd c'\<rparr> in
     (ds' @ [ud r], dcalls r, devents r))"
  by (induction ds arbitrary: c) (auto simp: Let_def split: prod.splits)

lemma put_up_simps [simp]:
  "up_mem (put_up a u s) = (up_mem s)(a \<mapsto> u)" "up_calls (put_up a u s) = up_calls s" "up_events (put_up a u s) = up_events s"
  "up_alloc (put_up a u s) = up_alloc s" "ctx_destroyed (put_up a u s) = ctx_destroyed s" "put_up a u' (put_up a u s) = put_up a u' s"
  by (simp_all add: put_up_def)

lemma get_put_ref:
  assumes "up_mem s a = Some u" "\<not> up_markedForDelete u"
  shows "EsifUp_GetRef (Some a) s = Some (ESIF_OK, put_up a (u\<lparr>up_refCount := up_refCount u + 1\<rparr>) s)"
    "EsifUp_PutRef (Some a) s = Some (put_up a (u\<lparr>up_refCount := up_refCount u - 1\<rparr>) s)"
  using assms by (simp_all add: EsifUp_GetRef_def EsifUp_PutRef_def)

text \<open>The state of the loop when \<open>k\<close> domains are done.\<close>

definition visited :: "(dom_state \<Rightarrow> dom_state) \<Rightarrow> 'c EsifUp \<Rightarrow> nat \<Rightarrow> addr \<Rightarrow> 'c up_store \<Rightarrow> 'c up_store" where
  "visited f u k a s = (let (ds, calls, evs) = run_domains f (take k (domains u)) (up_calls s, up_events s) in
     (put_up a (u\<lparr>domains := ds @ drop k (domains u)\<rparr>) s)\<lparr>up_calls := calls, up_events := evs\<rparr>)"

lemma visited_mem: "up_mem (visited f u k a s) a = Some (u\<lparr>domains := fst (run_domains f (take k (domains u)) (up_calls s, up_events s)) @ drop k (domains u)\<rparr>)"
  by (simp add: visited_def Let_def case_prod_beta)

lemma visited_Suc:
  assumes "k < length (domains u)"
  shows "on_domain f a k (visited f u k a s) = Some (visited f u (Suc k) a s)"
proof -
  obtain ds calls evs where r: "run_domains f (take k (domains u)) (up_calls s, up_events s) = (ds, calls, evs)" by (metis prod_cases3)
  have len: "length ds = k" using run_domains_length [of f "take k (domains u)"] r assms by (metis fst_conv length_take min.absorb4)
  have tk: "take (Suc k) (domains u) = take k (domains u) @ [domains u ! k]" using assms by (simp add: take_Suc_conv_app_nth)
  have dr: "drop k (domains u) = domains u ! k # drop (Suc k) (domains u)" using assms by (simp add: Cons_nth_drop_Suc)
  show ?thesis
    unfolding on_domain_def visited_mem
    using assms by (simp add: r len tk dr run_domains_snoc visited_def Let_def nth_append list_update_append)
qed

lemma domain_loop:
  assumes "k \<le> unat (domainCount u)" "unat (domainCount u) \<le> length (domains u)" "\<not> up_markedForDelete u"
  shows "each_domain_loop f a \<lparr>di_marked = True, di_handle = of_nat k, di_up = Some a\<rparr> (visited f u k a s)
    = Some (ESIF_E_ITERATION_DONE, put_up a ((the (up_mem (visited f u (unat (domainCount u)) a s) a))\<lparr>up_refCount := up_refCount u - 1\<rparr>)
        (visited f u (unat (domainCount u)) a s))"
  using assms
proof (induction "unat (domainCount u) - k" arbitrary: k)
  case 0
  then have k: "k = unat (domainCount u)" by simp
  show ?case
    by (subst each_domain_loop.simps)
      (simp add: EsifUpDomain_GetNextUd_def visited_mem k get_put_ref [OF visited_mem] \<open>\<not> up_markedForDelete u\<close>)
next
  case (Suc n)
  then have k: "k < unat (domainCount u)" by simp
  then have h: "unat (of_nat k :: u8) = k" using unat_less_2p [of "domainCount u"] by (simp add: unat_of_nat_eq_len)
  then have lt: "\<not> domainCount u \<le> of_nat k" using k by (simp add: word_le_nat_alt)
  have "each_domain_loop f a \<lparr>di_marked = True, di_handle = of_nat (Suc k), di_up = Some a\<rparr> (visited f u (Suc k) a s)
    = Some (ESIF_E_ITERATION_DONE, put_up a ((the (up_mem (visited f u (unat (domainCount u)) a s) a))\<lparr>up_refCount := up_refCount u - 1\<rparr>)
        (visited f u (unat (domainCount u)) a s))"
    using Suc.prems Suc.hyps(2) k by (intro Suc.hyps(1)) auto
  moreover have "on_domain f a k (visited f u k a s) = Some (visited f u (Suc k) a s)" using k Suc.prems(2) by (intro visited_Suc) simp
  ultimately show ?case
    by (subst each_domain_loop.simps) (simp add: EsifUpDomain_GetNextUd_def visited_mem lt h ac_simps)
qed

lemma domains_visited:
  assumes "up_mem s a = Some u" "up_ok u"
  shows "\<exists>ds calls evs. run_domains f (take (unat (domainCount u)) (domains u)) (up_calls s, up_events s) = (ds, calls, evs)
    \<and> each_domain f (Some a) s = Some (ESIF_OK, (put_up a (u\<lparr>domains := ds @ drop (unat (domainCount u)) (domains u)\<rparr>) s)\<lparr>up_calls := calls, up_events := evs\<rparr>)"
proof -
  let ?n = "unat (domainCount u)"
  let ?u = "u\<lparr>up_refCount := up_refCount u + 1\<rparr>"
  let ?s = "put_up a ?u s"
  obtain ds calls evs where r: "run_domains f (take ?n (domains u)) (up_calls s, up_events s) = (ds, calls, evs)" by (metis prod_cases3)
  have m: "\<not> up_markedForDelete u" "?n \<le> length (domains u)" using assms(2) by (simp_all add: up_ok_def)
  have i: "EsifUpDomain_InitIterator (Some a) s = Some (ESIF_OK, \<lparr>di_marked = True, di_handle = 0, di_up = Some a\<rparr>, ?s)"
    by (simp add: EsifUpDomain_InitIterator_def get_put_ref [OF assms(1) m(1)] Let_def)
  have v: "visited f ?u 0 a ?s = ?s" by (simp add: visited_def put_up_def)
  have w: "visited f ?u ?n a ?s = (put_up a (?u\<lparr>domains := ds @ drop ?n (domains u)\<rparr>) s)\<lparr>up_calls := calls, up_events := evs\<rparr>"
    by (simp add: visited_def r)
  have "each_domain f (Some a) s = Some (ESIF_OK, (put_up a (u\<lparr>domains := ds @ drop ?n (domains u)\<rparr>) s)\<lparr>up_calls := calls, up_events := evs\<rparr>)"
    using domain_loop [of 0 ?u f a ?s] m by (simp add: each_domain_def i v w)
  with r show ?thesis by blast
qed

text \<open>
  C37. An operation over the domains of a participant in use returns: it runs on each domain exactly once, in
  order, it leaves the rest of the participant alone, and the reference it takes is given back.
\<close>

theorem participant_domains_visited:
  assumes "up_mem s a = Some u" "up_ok u"
  shows "\<exists>ds calls evs. run_domains f (take (unat (domainCount u)) (domains u)) (up_calls s, up_events s) = (ds, calls, evs)
    \<and> each_domain f (Some a) s = Some (ESIF_OK, (put_up a (u\<lparr>domains := ds @ drop (unat (domainCount u)) (domains u)\<rparr>) s)\<lparr>up_calls := calls, up_events := evs\<rparr>)"
  by (rule domains_visited [OF assms])

text \<open>A participant with one domain that polls, for the examples.\<close>

definition demo_up :: "unit EsifUp" where
  "demo_up = (EsifUp_new eParticipantOriginUF)\<lparr>fInstance := 7, domainCount := 1,
     domains := (EsifUpDomain_zero\<lparr>ud_domain := 0x3044, tempPollTimer := Some 1000, tempPollInitialized := True, tempPollType := ESIF_POLL_DOMAIN\<rparr>)
       # replicate 9 EsifUpDomain_zero\<rparr>"

definition demo_store :: "unit up_store" where
  "demo_store = \<lparr>up_mem = [1 \<mapsto> demo_up], up_alloc = \<lparr>next_addr = 2, alloc_ok = \<lambda>_. True\<rparr>, up_calls = [], up_events = [], ctx_destroyed = []\<rparr>"

lemma demo_up_ok: "up_ok demo_up" "up_mem demo_store 1 = Some demo_up"
  by (simp_all add: up_ok_def demo_up_def demo_store_def EsifUp_new_def)

theorem participant_domains_visited_witness:
  "\<exists>s'. EsifUp_SuspendParticipant (Some 1) demo_store = Some (ESIF_OK, s')"
  using participant_domains_visited [OF demo_up_ok(2,1), of "EsifUpDomain_StopStatePoll \<circ> EsifUpDomain_StopTempPoll"]
  unfolding EsifUp_SuspendParticipant_def by blast

section \<open>The life of a participant\<close>

text \<open>
  The clients of one participant and its destroyer, one critical section at a time: \<open>held\<close> counts the references
  the clients own, and \<open>dying\<close> says that the destroyer has marked the participant and waits.
\<close>

record 'c life =
  life_store :: "'c up_store"
  held :: nat
  dying :: bool

inductive life_step :: "addr \<Rightarrow> 'c life \<Rightarrow> 'c life \<Rightarrow> bool" for a where
  get: "EsifUp_GetRef (Some a) (life_store l) = Some (ESIF_OK, s') \<Longrightarrow> held l + 2 < 2 ^ 32
     \<Longrightarrow> life_step a l (l\<lparr>life_store := s', held := Suc (held l)\<rparr>)"
| refused: "EsifUp_GetRef (Some a) (life_store l) = Some (rc, s') \<Longrightarrow> rc \<noteq> ESIF_OK \<Longrightarrow> life_step a l (l\<lparr>life_store := s'\<rparr>)"
| put: "0 < held l \<Longrightarrow> EsifUp_PutRef (Some a) (life_store l) = Some s' \<Longrightarrow> life_step a l (l\<lparr>life_store := s', held := held l - 1\<rparr>)"
| destroy: "\<not> dying l \<Longrightarrow> begin_destroy a (life_store l) = Some s' \<Longrightarrow> life_step a l (l\<lparr>life_store := s', dying := True\<rparr>)"
| uninit: "dying l \<Longrightarrow> uninit_domains a (life_store l) = Some s' \<Longrightarrow> life_step a l (l\<lparr>life_store := s'\<rparr>)"
| free: "dying l \<Longrightarrow> end_destroy a (life_store l) = Some s' \<Longrightarrow> life_step a l (l\<lparr>life_store := s'\<rparr>)"

definition life_inv :: "addr \<Rightarrow> 'c life \<Rightarrow> bool" where
  "life_inv a l \<longleftrightarrow> (case up_mem (life_store l) a of
     None \<Rightarrow> held l = 0 \<and> dying l
   | Some u \<Rightarrow> held l + 1 < 2 ^ 32 \<and> unat (up_refCount u) = held l + (if dying l then 0 else 1)
       \<and> up_markedForDelete u = dying l \<and> up_deleteEvent u = (dying l \<and> held l = 0))"

text \<open>Nothing but the domains changes when their locks go.\<close>

lemma uninit_keeps:
  assumes "uninit_loop a is s = Some s'" "up_mem s a = Some u"
  shows "\<exists>ds. up_mem s' = (up_mem s)(a \<mapsto> u\<lparr>domains := ds\<rparr>)"
  using assms
proof (induction "is" arbitrary: s u)
  case Nil
  then show ?case by (intro exI [of _ "domains u"]) (simp add: fun_upd_idem)
next
  case (Cons i "is")
  from Cons.prems obtain s1 where s1: "on_domain (\<lambda>d. d\<lparr>ud := EsifUpDomain_UnInitDomain (ud d)\<rparr>) a i s = Some s1" "uninit_loop a is s1 = Some s'"
    by (auto simp: bind_eq_Some_conv)
  then obtain ds where ds: "up_mem s1 = (up_mem s)(a \<mapsto> u\<lparr>domains := ds\<rparr>)"
    using Cons.prems(2) by (auto simp: on_domain_def Let_def split: if_splits)
  have "up_mem s1 a = Some (u\<lparr>domains := ds\<rparr>)" using ds by simp
  from Cons.IH [OF s1(2) this] obtain ds' where
    "up_mem s' = (up_mem s1)(a \<mapsto> u\<lparr>domains := ds, domains := ds'\<rparr>)" by blast
  with ds have "up_mem s' = (up_mem s)(a \<mapsto> u\<lparr>domains := ds'\<rparr>)" by simp
  then show ?case by blast
qed

lemma unat_pred: "0 < unat (x :: u32) \<Longrightarrow> unat (x - 1) = unat x - 1"
  by (simp add: unat_sub word_le_nat_alt Suc_leI)

lemma life_inv_step:
  assumes "life_step a l l'" "life_inv a l"
  shows "life_inv a l'"
  using assms
proof cases
  case (get s')
  then obtain u where u: "up_mem (life_store l) a = Some u" "\<not> up_markedForDelete u"
      "s' = put_up a (u\<lparr>up_refCount := up_refCount u + 1\<rparr>) (life_store l)"
    by (auto simp: EsifUp_GetRef_def bind_eq_Some_conv split: if_splits)
  have "unat (up_refCount u + 1) = Suc (unat (up_refCount u))"
    using assms(2) get u by (intro unat_plus_1) (auto simp: life_inv_def split: if_splits)
  with assms(2) get u show ?thesis by (auto simp: life_inv_def)
next
  case (refused rc s')
  then have "s' = life_store l" by (auto simp: EsifUp_GetRef_def bind_eq_Some_conv split: if_splits)
  with refused assms(2) show ?thesis by (simp add: life_inv_def)
next
  case (put s')
  then obtain u where u: "up_mem (life_store l) a = Some u" by (auto simp: EsifUp_PutRef_def bind_eq_Some_conv)
  have n: "0 < unat (up_refCount u)" using assms(2) put u by (auto simp: life_inv_def)
  have z: "up_refCount u - 1 = 0 \<longleftrightarrow> unat (up_refCount u) - 1 = 0" using unat_pred [OF n] by (metis unat_eq_0)
  show ?thesis using assms(2) put u unat_pred [OF n] z
    by (auto simp: life_inv_def EsifUp_PutRef_def split: if_splits)
next
  case (destroy s')
  then obtain u where u: "up_mem (life_store l) a = Some u" by (auto simp: begin_destroy_def bind_eq_Some_conv)
  have n: "0 < unat (up_refCount u)" using assms(2) destroy u by (auto simp: life_inv_def)
  have z: "up_refCount u - 1 = 0 \<longleftrightarrow> unat (up_refCount u) - 1 = 0" using unat_pred [OF n] by (metis unat_eq_0)
  show ?thesis using assms(2) destroy u unat_pred [OF n] z
    by (auto simp: life_inv_def begin_destroy_def EsifUp_PutRef_def split: if_splits)
next
  case (uninit s')
  then obtain u where u: "up_mem (life_store l) a = Some u" "uninit_loop a [0..<unat (domainCount u)] (life_store l) = Some s'"
    by (auto simp: uninit_domains_def bind_eq_Some_conv)
  from uninit_keeps [OF u(2,1)] obtain ds where "up_mem s' = (up_mem (life_store l))(a \<mapsto> u\<lparr>domains := ds\<rparr>)" by blast
  with assms(2) uninit u(1) show ?thesis by (simp add: life_inv_def)
next
  case (free s')
  with assms(2) show ?thesis by (auto simp: life_inv_def end_destroy_def bind_eq_Some_conv split: if_splits)
qed

text \<open>
  C34. A participant is freed only when every reference to it has been given back: from its creation on,
  whatever its clients and its destroyer do, a client that owns a reference finds the participant in
  memory and can give the reference back, the destroyer does not get past its wait before the last
  one is given back, and then it does.
\<close>

theorem participant_not_freed_early:
  assumes "(life_step a)\<^sup>*\<^sup>* \<lparr>life_store = s, held = 0, dying = False\<rparr> l"
    "up_mem s a = Some u" "up_refCount u = 1" "\<not> up_markedForDelete u" "\<not> up_deleteEvent u"
  shows "(0 < held l \<longrightarrow> up_mem (life_store l) a \<noteq> None \<and> (\<exists>s'. EsifUp_PutRef (Some a) (life_store l) = Some s')
      \<and> end_destroy a (life_store l) = None)
    \<and> (dying l \<and> held l = 0 \<and> up_mem (life_store l) a \<noteq> None \<longrightarrow> (\<exists>s'. end_destroy a (life_store l) = Some s' \<and> up_mem s' a = None))"
proof -
  have "life_inv a l" using assms(1)
  proof (induction rule: rtranclp_induct)
    case base
    show ?case using assms(2-) by (simp add: life_inv_def)
  next
    case (step y z)
    then show ?case using life_inv_step by blast
  qed
  then show ?thesis
    by (auto simp: life_inv_def EsifUp_PutRef_def end_destroy_def Let_def split: option.splits if_splits)
qed

theorem participant_not_freed_early_witness:
  "\<exists>s1 s2. EsifUp_GetRef (Some 1) demo_store = Some (ESIF_OK, s1) \<and> begin_destroy 1 s1 = Some s2 \<and> end_destroy 1 s2 = None
    \<and> (\<exists>s3. EsifUp_PutRef (Some 1) s2 = Some s3)"
proof -
  let ?l = "\<lparr>life_store = demo_store, held = 0, dying = False\<rparr>"
  have u: "up_refCount demo_up = 1" "\<not> up_markedForDelete demo_up" "\<not> up_deleteEvent demo_up" by (simp_all add: demo_up_def EsifUp_new_def)
  obtain s1 where g: "EsifUp_GetRef (Some 1) demo_store = Some (ESIF_OK, s1)" using get_put_ref(1) [OF demo_up_ok(2) u(2)] by blast
  have l1: "life_step 1 ?l \<lparr>life_store = s1, held = 1, dying = False\<rparr>" using life_step.get [of 1 ?l s1] g by simp
  have "s1 = put_up 1 (demo_up\<lparr>up_refCount := up_refCount demo_up + 1\<rparr>) demo_store" using g get_put_ref(1) [OF demo_up_ok(2) u(2)] by simp
  then have "\<exists>s2. begin_destroy 1 s1 = Some s2" by (simp add: begin_destroy_def EsifUp_PutRef_def Let_def)
  then obtain s2 where d: "begin_destroy 1 s1 = Some s2" by blast
  have l2: "life_step 1 \<lparr>life_store = s1, held = 1, dying = False\<rparr> \<lparr>life_store = s2, held = 1, dying = True\<rparr>"
    using life_step.destroy [of "\<lparr>life_store = s1, held = 1, dying = False\<rparr>" 1 s2] d by simp
  have "(life_step 1)\<^sup>*\<^sup>* ?l \<lparr>life_store = s2, held = 1, dying = True\<rparr>" using l1 l2 by (meson converse_rtranclp_into_rtranclp rtranclp.rtrancl_refl)
  from participant_not_freed_early [OF this demo_up_ok(2) u] g d show ?thesis by auto
qed

end
