(* ===== verification/Arb_Mgr.thy ===== *)
theory Arb_Mgr
  imports Arb_Ctx_Spec Data_Cache Participant
begin

text \<open>
  The arbitration context of a new participant, with the default tables of \<^verbatim>\<open>esif_uf_arbmgr.c\<close>, and the
  operations of the arbitration manager, which find the context of a participant and hand on to it.
  The properties of contexts are at the end.
\<close>

section \<open>Default tables\<close>

abbreviation (input) ESIF_DOMAIN_TYPE_FAN :: u32 where "ESIF_DOMAIN_TYPE_FAN \<equiv> 4"
abbreviation (input) ESIF_DOMAIN_TYPE_WIRELESS :: u32 where "ESIF_DOMAIN_TYPE_WIRELESS \<equiv> 7"

text \<open>The characters of the name \<^verbatim>\<open>TCPU\<close>.\<close>

definition ESIF_PARTICIPANT_CPU_NAME :: "u8 list" where
  "ESIF_PARTICIPANT_CPU_NAME = [0x54, 0x43, 0x50, 0x55]"

abbreviation (input) ESIF_PRIMITIVE_DOMAIN_D0 :: u16 where "ESIF_PRIMITIVE_DOMAIN_D0 \<equiv> 0x3044"
abbreviation (input) ESIF_PRIMITIVE_DOMAIN_D1 :: u16 where "ESIF_PRIMITIVE_DOMAIN_D1 \<equiv> 0x3144"
abbreviation (input) ESIF_ARB_LIMIT_MAX_PERCENT :: u32 where "ESIF_ARB_LIMIT_MAX_PERCENT \<equiv> 10000"
abbreviation (input) ESIF_ARB_LIMIT_MIN_PERCENT :: u32 where "ESIF_ARB_LIMIT_MIN_PERCENT \<equiv> 0"
abbreviation (input) SET_FAN_LEVEL :: u32 where "SET_FAN_LEVEL \<equiv> 87"
abbreviation (input) SET_RAPL_POWER_LIMIT :: u32 where "SET_RAPL_POWER_LIMIT \<equiv> 130"
abbreviation (input) SET_PROC_NUMBER_OFFLINE_CORES :: u32 where "SET_PROC_NUMBER_OFFLINE_CORES \<equiv> 153"
abbreviation (input) SET_RAPL_POWER_LIMIT_ENABLE :: u32 where "SET_RAPL_POWER_LIMIT_ENABLE \<equiv> 222"
abbreviation (input) SET_PLATFORM_POWER_LIMIT :: u32 where "SET_PLATFORM_POWER_LIMIT \<equiv> 334"
abbreviation (input) SET_PLATFORM_POWER_LIMIT_ENABLE :: u32 where "SET_PLATFORM_POWER_LIMIT_ENABLE \<equiv> 335"
abbreviation (input) SET_PLATFORM_POWER_LIMIT_TIME_WINDOW :: u32 where "SET_PLATFORM_POWER_LIMIT_TIME_WINDOW \<equiv> 336"
abbreviation (input) SET_RAPL_POWER_LIMIT_TIME_WINDOW :: u32 where "SET_RAPL_POWER_LIMIT_TIME_WINDOW \<equiv> 340"
abbreviation (input) SET_RAPL_POWER_LIMIT_DUTY_CYCLE :: u32 where "SET_RAPL_POWER_LIMIT_DUTY_CYCLE \<equiv> 342"
abbreviation (input) SET_TCC_OFFSET :: u32 where "SET_TCC_OFFSET \<equiv> 478"
abbreviation (input) SET_PERF_PREFERENCE_MAX :: u32 where "SET_PERF_PREFERENCE_MAX \<equiv> 797"
abbreviation (input) SET_PERF_PREFERENCE_MIN :: u32 where "SET_PERF_PREFERENCE_MIN \<equiv> 799"

text \<open>A row in the order of the initialisers, and the zero row that ends a table.\<close>

definition arb_params :: "u32 \<Rightarrow> u16 \<Rightarrow> u8 \<Rightarrow> esif_arbitration_type_t \<Rightarrow> u32 \<Rightarrow> u32 \<Rightarrow> EsifArbEntryParams" where
  "arb_params prim dmn inst ty hi lo = \<lparr>par_primitiveId = prim, par_domain = dmn, par_instance = inst,
     par_arbType = ty, par_upperLimit = hi, par_lowerLimit = lo\<rparr>"

abbreviation (input) end_of_table :: EsifArbEntryParams where "end_of_table \<equiv> arb_params 0 0 0 0 0 0"

definition g_cpuArbTable :: "EsifArbEntryParams list" where
  "g_cpuArbTable = [
     arb_params SET_PERF_PREFERENCE_MAX ESIF_PRIMITIVE_DOMAIN_D0 255 ESIF_ARBITRATION_UIN32_LESS_THAN
       ESIF_ARB_LIMIT_MAX_PERCENT ESIF_ARB_LIMIT_MIN_PERCENT,
     arb_params SET_PERF_PREFERENCE_MIN ESIF_PRIMITIVE_DOMAIN_D0 255 ESIF_ARBITRATION_UIN32_LESS_THAN
       ESIF_ARB_LIMIT_MAX_PERCENT ESIF_ARB_LIMIT_MIN_PERCENT,
     arb_params SET_PLATFORM_POWER_LIMIT ESIF_PRIMITIVE_DOMAIN_D0 0 ESIF_ARBITRATION_UIN32_LESS_THAN ESIF_ARB_LIMIT_MAX ESIF_ARB_LIMIT_MIN,
     arb_params SET_PLATFORM_POWER_LIMIT ESIF_PRIMITIVE_DOMAIN_D0 1 ESIF_ARBITRATION_UIN32_LESS_THAN ESIF_ARB_LIMIT_MAX ESIF_ARB_LIMIT_MIN,
     arb_params SET_PLATFORM_POWER_LIMIT_ENABLE ESIF_PRIMITIVE_DOMAIN_D0 0 ESIF_ARBITRATION_UIN32_LESS_THAN ESIF_ARB_LIMIT_MAX ESIF_ARB_LIMIT_MIN,
     arb_params SET_PLATFORM_POWER_LIMIT_ENABLE ESIF_PRIMITIVE_DOMAIN_D0 1 ESIF_ARBITRATION_UIN32_LESS_THAN ESIF_ARB_LIMIT_MAX ESIF_ARB_LIMIT_MIN,
     arb_params SET_PLATFORM_POWER_LIMIT_TIME_WINDOW ESIF_PRIMITIVE_DOMAIN_D0 0 ESIF_ARBITRATION_UIN32_LESS_THAN ESIF_ARB_LIMIT_MAX ESIF_ARB_LIMIT_MIN,
     arb_params SET_PROC_NUMBER_OFFLINE_CORES ESIF_PRIMITIVE_DOMAIN_D1 255 ESIF_ARBITRATION_UIN32_GREATER_THAN ESIF_ARB_LIMIT_MAX ESIF_ARB_LIMIT_MIN,
     arb_params SET_RAPL_POWER_LIMIT ESIF_PRIMITIVE_DOMAIN_D0 0 ESIF_ARBITRATION_UIN32_LESS_THAN ESIF_ARB_LIMIT_MAX ESIF_ARB_LIMIT_MIN,
     arb_params SET_RAPL_POWER_LIMIT ESIF_PRIMITIVE_DOMAIN_D0 1 ESIF_ARBITRATION_UIN32_LESS_THAN ESIF_ARB_LIMIT_MAX ESIF_ARB_LIMIT_MIN,
     arb_params SET_RAPL_POWER_LIMIT ESIF_PRIMITIVE_DOMAIN_D0 3 ESIF_ARBITRATION_UIN32_LESS_THAN ESIF_ARB_LIMIT_MAX ESIF_ARB_LIMIT_MIN,
     arb_params SET_RAPL_POWER_LIMIT_DUTY_CYCLE ESIF_PRIMITIVE_DOMAIN_D0 2 ESIF_ARBITRATION_UIN32_LESS_THAN ESIF_ARB_LIMIT_MAX ESIF_ARB_LIMIT_MIN,
     arb_params SET_RAPL_POWER_LIMIT_ENABLE ESIF_PRIMITIVE_DOMAIN_D0 0 ESIF_ARBITRATION_UIN32_GREATER_THAN ESIF_ARB_LIMIT_MAX ESIF_ARB_LIMIT_MIN,
     arb_params SET_RAPL_POWER_LIMIT_ENABLE ESIF_PRIMITIVE_DOMAIN_D0 1 ESIF_ARBITRATION_UIN32_GREATER_THAN ESIF_ARB_LIMIT_MAX ESIF_ARB_LIMIT_MIN,
     arb_params SET_RAPL_POWER_LIMIT_TIME_WINDOW ESIF_PRIMITIVE_DOMAIN_D0 0 ESIF_ARBITRATION_UIN32_LESS_THAN ESIF_ARB_LIMIT_MAX ESIF_ARB_LIMIT_MIN,
     arb_params SET_RAPL_POWER_LIMIT_TIME_WINDOW ESIF_PRIMITIVE_DOMAIN_D0 1 ESIF_ARBITRATION_UIN32_LESS_THAN ESIF_ARB_LIMIT_MAX ESIF_ARB_LIMIT_MIN,
     arb_params SET_TCC_OFFSET ESIF_PRIMITIVE_DOMAIN_D0 255 ESIF_ARBITRATION_UIN32_GREATER_THAN ESIF_ARB_LIMIT_MAX ESIF_ARB_LIMIT_MIN,
     end_of_table]"

definition g_wifiArbTable :: "EsifArbEntryParams list" where
  "g_wifiArbTable = [
     arb_params SET_RAPL_POWER_LIMIT ESIF_PRIMITIVE_DOMAIN_D0 0 ESIF_ARBITRATION_UIN32_LESS_THAN ESIF_ARB_LIMIT_MAX ESIF_ARB_LIMIT_MIN,
     arb_params SET_RAPL_POWER_LIMIT ESIF_PRIMITIVE_DOMAIN_D0 1 ESIF_ARBITRATION_UIN32_LESS_THAN ESIF_ARB_LIMIT_MAX ESIF_ARB_LIMIT_MIN,
     arb_params SET_RAPL_POWER_LIMIT ESIF_PRIMITIVE_DOMAIN_D0 3 ESIF_ARBITRATION_UIN32_LESS_THAN ESIF_ARB_LIMIT_MAX ESIF_ARB_LIMIT_MIN,
     arb_params SET_RAPL_POWER_LIMIT_ENABLE ESIF_PRIMITIVE_DOMAIN_D0 0 ESIF_ARBITRATION_UIN32_GREATER_THAN ESIF_ARB_LIMIT_MAX ESIF_ARB_LIMIT_MIN,
     arb_params SET_RAPL_POWER_LIMIT_ENABLE ESIF_PRIMITIVE_DOMAIN_D0 1 ESIF_ARBITRATION_UIN32_GREATER_THAN ESIF_ARB_LIMIT_MAX ESIF_ARB_LIMIT_MIN,
     end_of_table]"

definition g_ietmArbTable :: "EsifArbEntryParams list" where
  "g_ietmArbTable = [end_of_table]"

definition g_fanArbTable :: "EsifArbEntryParams list" where
  "g_fanArbTable = [
     arb_params SET_FAN_LEVEL ESIF_PRIMITIVE_DOMAIN_D0 255 ESIF_ARBITRATION_UIN32_GREATER_THAN ESIF_ARB_LIMIT_MAX ESIF_ARB_LIMIT_MIN,
     end_of_table]"

text \<open>The choice among the tables; a participant of another kind has none.\<close>

definition default_table :: "'c EsifUp \<Rightarrow> EsifArbEntryParams list option" where
  "default_table up =
     (if strcasecmp ESIF_PARTICIPANT_CPU_NAME (fName (fMetadata up)) = 0 then Some g_cpuArbTable
      else if EsifUpPm_IsPrimaryParticipantId (fInstance up) then Some g_ietmArbTable
      else if fAcpiType (fMetadata up) = ESIF_DOMAIN_TYPE_WIRELESS then Some g_wifiArbTable
      else if fAcpiType (fMetadata up) = ESIF_DOMAIN_TYPE_FAN then Some g_fanArbTable
      else None)"

text \<open>
  A new context; \<open>False\<close> says that the call does not return. Without a table for the participant
  nothing is populated. The copy of the name, used in traces, is left out.
\<close>

definition EsifArbCtx_Create ::
    "(esif_handle_t \<Rightarrow> u32 \<Rightarrow> u16 \<Rightarrow> u8 \<Rightarrow> bool) \<Rightarrow> 'c EsifUp \<Rightarrow> arb_store \<Rightarrow> (bool \<times> EsifArbCtx option \<times> arb_store) option" where
  "EsifArbCtx_Create supported up s =
     (case esif_ccb_malloc (req_heap (st_world s)) of
        (None, h) \<Rightarrow> Some (True, None, s\<lparr>st_world := (st_world s)\<lparr>req_heap := h\<rparr>\<rparr>)
      | (Some _, h) \<Rightarrow>
          (let c = \<lparr>ctx_arbitrationEnabled = True, numEntries = 0, entryCapacity = 0, entriesPtr = [], ctx_participantId = fInstance up\<rparr>;
               s1 = s\<lparr>st_world := (st_world s)\<lparr>req_heap := h\<rparr>\<rparr> in
           (case default_table up of
              None \<Rightarrow> Some (True, Some c, s1)
            | Some table \<Rightarrow> do {
                (rc, self, s2) \<leftarrow> EsifArbCtx_PopulateDefaultArbitrationTable supported (Some c) (Some table) s1;
                Some (rc \<noteq> None, self, s2) })))"

section \<open>A new context\<close>

lemma populate_spec:
  assumes "ctx_sim (c, s, taken) cs qs" "distinct (map params_key ps)" "\<forall>p\<in>set ps. params_key p \<notin> fst ` set (cs_entries cs)"
  shows "\<exists>c' s'. populate_loop supported ps c s = Some (Some ESIF_OK, c', s')
    \<and> ctx_sim (c', s', taken) (fold new_cell (filter (\<lambda>p. key_supported supported c (params_key p)) ps) cs) qs
    \<and> ctx_participantId c' = ctx_participantId c"
  using assms
proof (induction ps arbitrary: c s cs)
  case (Cons p ps)
  show ?case
  proof (cases "key_supported supported c (params_key p)")
    case False
    with Cons show ?thesis by (simp add: params_key_def)
  next
    case True
    have "map_of (cs_entries cs) (params_key p) = None" using Cons.prems(3) by (simp add: map_of_eq_None_iff)
    from create_spec [OF Cons.prems(1) this] obtain a c' s' s1 where
      n: "EsifArbCtx_CreateAndInsertEntry_Locked c p (ctx_participantId c) s = Some (Some ESIF_OK, Some a, c', s1)"
        "ctx_sim (c', s', taken) (new_cell p cs) qs" "unref_entry (Some a) s1 = Some s'"
        "ctx_participantId c' = ctx_participantId c" by blast
    have "\<forall>q\<in>set ps. params_key q \<notin> fst ` set (cs_entries (new_cell p cs))"
      using Cons.prems(2,3) by (auto simp: new_cell_def) (metis imageI)
    from Cons.IH [OF n(2) _ this] Cons.prems(2) n(4) obtain c2 s2 where
      "populate_loop supported ps c' s' = Some (Some ESIF_OK, c2, s2)"
      "ctx_sim (c2, s2, taken) (fold new_cell (filter (\<lambda>p. key_supported supported c (params_key p)) ps) (new_cell p cs)) qs"
      "ctx_participantId c2 = ctx_participantId c" by auto
    with True n(1,3) show ?thesis by (simp add: params_key_def)
  qed
qed simp

text \<open>The keys of every default table differ.\<close>

lemma default_tables:
  "default_table up = Some table \<Longrightarrow> distinct (map params_key (takeWhile (\<lambda>p. par_primitiveId p \<noteq> 0) table))"
  by (auto simp: default_table_def g_cpuArbTable_def g_wifiArbTable_def g_ietmArbTable_def g_fanArbTable_def
      arb_params_def params_key_def split: if_splits)

text \<open>The arbiters a new context starts with; the controls may have been written before.\<close>

definition default_params :: "(esif_handle_t \<Rightarrow> u32 \<Rightarrow> u16 \<Rightarrow> u8 \<Rightarrow> bool) \<Rightarrow> 'c EsifUp \<Rightarrow> EsifArbEntryParams list" where
  "default_params supported up = (case default_table up of None \<Rightarrow> []
     | Some table \<Rightarrow> filter (\<lambda>p. supported (fInstance up) (par_primitiveId p) (par_domain p) (par_instance p))
         (takeWhile (\<lambda>p. par_primitiveId p \<noteq> 0) table))"

definition ctx_start :: "(esif_handle_t \<Rightarrow> u32 \<Rightarrow> u16 \<Rightarrow> u8 \<Rightarrow> bool) \<Rightarrow> 'c EsifUp \<Rightarrow> EsifArbPrimReq option list \<Rightarrow> ctx_spec" where
  "ctx_start supported up items = fold new_cell (default_params supported up)
     \<lparr>cs_enabled = True, cs_entries = [], cs_sent = \<lambda>k. last_sent_to (fInstance up) k items\<rparr>"

lemma ctx_create_spec:
  assumes "store_ok s qs"
  shows "\<exists>c s'. EsifArbCtx_Create supported up s = Some (True, Some c, s') \<and> ctx_sim (c, s', taken) (ctx_start supported up (taken @ qs)) qs
    \<and> ctx_participantId c = fInstance up"
proof -
  let ?h = "req_heap (st_world s)"
  let ?c = "\<lparr>ctx_arbitrationEnabled = True, numEntries = 0, entryCapacity = 0, entriesPtr = [], ctx_participantId = fInstance up\<rparr>"
  let ?s = "s\<lparr>st_world := (st_world s)\<lparr>req_heap := ?h\<lparr>next_addr := Suc (next_addr ?h)\<rparr>\<rparr>\<rparr>"
  let ?cs = "\<lparr>cs_enabled = True, cs_entries = [], cs_sent = \<lambda>k. last_sent_to (fInstance up) k (taken @ qs)\<rparr>"
  have "store_ok ?s qs" using assms by (auto simp: store_ok_def heap_ok_def less_Suc_eq)
  then have sim: "ctx_sim (?c, ?s, taken) ?cs qs"
    by (intro ctx_simI [where rows = "[]"]) (simp_all add: table_ok_def rows_ok_def)
  have m: "esif_ccb_malloc ?h = (Some (next_addr ?h), ?h\<lparr>next_addr := Suc (next_addr ?h)\<rparr>)"
    using assms by (simp add: esif_ccb_malloc_def store_ok_def)
  show ?thesis
  proof (cases "default_table up")
    case None
    with m sim show ?thesis by (simp add: EsifArbCtx_Create_def ctx_start_def default_params_def Let_def)
  next
    case (Some table)
    from populate_spec [OF sim default_tables [OF Some], of supported] obtain c' s' where
      "populate_loop supported (takeWhile (\<lambda>p. par_primitiveId p \<noteq> 0) table) ?c ?s = Some (Some ESIF_OK, c', s')"
      "ctx_sim (c', s', taken) (ctx_start supported up (taken @ qs)) qs" "ctx_participantId c' = fInstance up"
      using Some by (auto simp: ctx_start_def default_params_def params_key_def)
    with Some m show ?thesis
      by (simp add: EsifArbCtx_Create_def EsifArbCtx_PopulateDefaultArbitrationTable_def Let_def)
  qed
qed

section \<open>Properties of contexts\<close>

lemma spec_op_length: "length (cs_entries (snd (ctx_spec_op avail x cs))) \<le> Suc (length (cs_entries cs))"
proof -
  have "length (cs_entries (snd (cell_op y k sp cs))) = length (cs_entries cs)" for y k sp cs
    by (simp add: cell_op_def case_prod_beta)
  then show ?thesis
    by (cases x) (auto simp: create_and_def new_cell_def all_cells_def Let_def le_SucI split: option.split)
qed

text \<open>Every operation of a sequence is defined where the contract has got to.\<close>

fun ctx_ops_defined :: "(ctx_key \<Rightarrow> bool) \<Rightarrow> ctx_op list \<Rightarrow> ctx_spec \<Rightarrow> bool" where
  "ctx_ops_defined avail [] cs = True"
| "ctx_ops_defined avail (x # ops) cs =
     (ctx_op_defined x cs \<and> ctx_ops_defined avail ops (snd (ctx_spec_op avail x cs)))"

lemma ctx_run_refines:
  assumes "ctx_sim (c, s, taken) cs qs" "\<forall>x\<in>set ops. ctx_op_ok x"
    "length qs + length ops * (2 * Suc (length (cs_entries cs) + length ops)) \<le> 2 ^ 32 - 1"
  shows "if ctx_ops_defined (key_supported supported c) ops cs
    then \<exists>rcs c' s' taken' cs' qs'. ctx_run (ctx_conc_op supported) ops (c, s, taken) = Some (rcs, c', s', taken')
      \<and> ctx_run (\<lambda>x cs. Some (ctx_spec_op (key_supported supported c) x cs)) ops cs = Some (rcs, cs')
      \<and> ctx_sim (c', s', taken') cs' qs' \<and> ctx_participantId c' = ctx_participantId c
    else ctx_run (ctx_conc_op supported) ops (c, s, taken) = None"
  using assms
proof (induction ops arbitrary: c s taken cs qs)
  case Nil
  then show ?case by auto
next
  case (Cons x ops)
  let ?avail = "key_supported supported c" and ?n = "length (cs_entries cs)" and ?m = "length ops"
  have grow: "length qs + ctx_cost cs + ?m * (2 * Suc (Suc ?n + ?m)) \<le> 2 ^ 32 - 1" using Cons.prems(3) by (simp add: algebra_simps)
  then have room: "length qs + ctx_cost cs \<le> 2 ^ 32 - 1" by linarith
  have ok: "ctx_op_ok x" using Cons.prems(2) by simp
  note step = refine_op [OF Cons.prems(1) ok room, of supported]
  show ?case
  proof (cases "ctx_op_defined x cs")
    case False
    with step show ?thesis by simp
  next
    case defined: True
    from step defined obtain c1 s1 taken1 qs1 where
      1: "ctx_conc_op supported x (c, s, taken) = Some (fst (ctx_spec_op ?avail x cs), c1, s1, taken1)"
        "ctx_sim (c1, s1, taken1) (snd (ctx_spec_op ?avail x cs)) qs1" "length qs1 \<le> length qs + ctx_cost cs"
        "ctx_participantId c1 = ctx_participantId c" by (auto simp: ctx_refines_def)
    let ?cs = "snd (ctx_spec_op ?avail x cs)"
    have "length (cs_entries ?cs) \<le> Suc ?n" by (rule spec_op_length)
    then have "?m * (2 * Suc (length (cs_entries ?cs) + ?m)) \<le> ?m * (2 * Suc (Suc ?n + ?m))" by (intro mult_le_mono2) simp
    with 1(3) grow have room1: "length qs1 + ?m * (2 * Suc (length (cs_entries ?cs) + ?m)) \<le> 2 ^ 32 - 1" by linarith
    have rest: "\<forall>x\<in>set ops. ctx_op_ok x" using Cons.prems(2) by simp
    from Cons.IH [OF 1(2) rest room1, unfolded 1(4)] have
      ih: "if ctx_ops_defined ?avail ops ?cs
        then \<exists>rcs c' s' taken' cs' qs'. ctx_run (ctx_conc_op supported) ops (c1, s1, taken1) = Some (rcs, c', s', taken')
          \<and> ctx_run (\<lambda>x cs. Some (ctx_spec_op ?avail x cs)) ops ?cs = Some (rcs, cs')
          \<and> ctx_sim (c', s', taken') cs' qs' \<and> ctx_participantId c' = ctx_participantId c
        else ctx_run (ctx_conc_op supported) ops (c1, s1, taken1) = None" .
    show ?thesis
    proof (cases "ctx_ops_defined ?avail ops ?cs")
      case True
      with ih obtain rcs c' s' taken' cs' qs' where
        "ctx_run (ctx_conc_op supported) ops (c1, s1, taken1) = Some (rcs, c', s', taken')"
        "ctx_run (\<lambda>x cs. Some (ctx_spec_op ?avail x cs)) ops ?cs = Some (rcs, cs')"
        "ctx_sim (c', s', taken') cs' qs'" "ctx_participantId c' = ctx_participantId c" by auto
      with 1(1) True defined show ?thesis by (cases "ctx_spec_op ?avail x cs") auto
    next
      case False
      with ih 1(1) show ?thesis by simp
    qed
  qed
qed

lemma fold_new_cell_length: "length (cs_entries (fold new_cell ps cs)) = length (cs_entries cs) + length ps"
  by (induction ps arbitrary: cs) (simp_all add: new_cell_def)

text \<open>
  C3. An arbitration context refines its contract: an ordered table of independent arbiters, one per
  primitive, domain and instance. Take a new context of any participant, with its default table, and
  any sequence of requests, changes of limits, of functions and of states, stops, removals of
  applications, purges and reads by the queue thread, with memory available and room in the queue. If
  each stop finds its arbiter with at most one other behind it in the table (or does not find it), no
  operation faults, loops or waits for ever; each returns the status of the contract; afterwards every
  entry of the table represents its arbiter, holds exactly one reference and shares no list node with
  another entry, and the last primitive queued for any control of the participant is the one of the
  contract. A sequence with a stop of an arbiter that has two or more behind it has no defined result:
  the removal moves them with \<^verbatim>\<open>memcpy\<close> on overlapping ranges.
\<close>

theorem arb_ctx_refines:
  assumes "store_ok s qs" "EsifArbCtx_Create supported up s = Some (returns, Some c, s1)" "\<forall>x\<in>set ops. ctx_op_ok x"
    "length qs + length ops * (2 * Suc (length (default_params supported up) + length ops)) \<le> 2 ^ 32 - 1"
  shows "if ctx_ops_defined (\<lambda>(prim, dmn, inst). supported (fInstance up) prim dmn inst) ops (ctx_start supported up qs)
    then \<exists>rcs c' s' taken' cs' qs'. ctx_run (ctx_conc_op supported) ops (c, s1, []) = Some (rcs, c', s', taken')
      \<and> ctx_run (\<lambda>x cs. Some (ctx_spec_op (\<lambda>(prim, dmn, inst). supported (fInstance up) prim dmn inst) x cs)) ops
          (ctx_start supported up qs) = Some (rcs, cs')
      \<and> ctx_sim (c', s', taken') cs' qs'
      \<and> (\<forall>k. last_sent_to (fInstance up) k (taken' @ qs') = cs_sent cs' k)
    else ctx_run (ctx_conc_op supported) ops (c, s1, []) = None"
proof -
  let ?avail = "\<lambda>(prim, dmn, inst). supported (fInstance up) prim dmn inst"
  from ctx_create_spec [OF assms(1), of supported up "[]"] assms(2)
  have st: "ctx_sim (c, s1, []) (ctx_start supported up qs) qs" "ctx_participantId c = fInstance up" by auto
  have "length (cs_entries (ctx_start supported up qs)) = length (default_params supported up)"
    by (simp add: ctx_start_def fold_new_cell_length)
  with assms(4) have
    len: "length qs + length ops * (2 * Suc (length (cs_entries (ctx_start supported up qs)) + length ops)) \<le> 2 ^ 32 - 1" by simp
  have avail: "key_supported supported c = ?avail" unfolding st(2) ..
  from ctx_run_refines [OF st(1) assms(3) len, of supported, unfolded avail st(2)] have
    run: "if ctx_ops_defined ?avail ops (ctx_start supported up qs)
      then \<exists>rcs c' s' taken' cs' qs'. ctx_run (ctx_conc_op supported) ops (c, s1, []) = Some (rcs, c', s', taken')
        \<and> ctx_run (\<lambda>x cs. Some (ctx_spec_op ?avail x cs)) ops (ctx_start supported up qs) = Some (rcs, cs')
        \<and> ctx_sim (c', s', taken') cs' qs' \<and> ctx_participantId c' = fInstance up
      else ctx_run (ctx_conc_op supported) ops (c, s1, []) = None" .
  show ?thesis
  proof (cases "ctx_ops_defined ?avail ops (ctx_start supported up qs)")
    case True
    with run obtain rcs c' s' taken' cs' qs' where
      r: "ctx_run (ctx_conc_op supported) ops (c, s1, []) = Some (rcs, c', s', taken')"
        "ctx_run (\<lambda>x cs. Some (ctx_spec_op (\<lambda>(prim, dmn, inst). supported (fInstance up) prim dmn inst) x cs)) ops
          (ctx_start supported up qs) = Some (rcs, cs')"
        "ctx_sim (c', s', taken') cs' qs'" "ctx_participantId c' = fInstance up" by auto
    from r(3,4) have "\<forall>k. last_sent_to (fInstance up) k (taken' @ qs') = cs_sent cs' k" by (auto elim: ctx_simE)
    with r(1-3) True show ?thesis by auto
  next
    case False
    with run show ?thesis by simp
  qed
qed

text \<open>A fan: the smallest participant with a default table.\<close>

definition arb_example_store :: arb_store where
  "arb_example_store = \<lparr>st_world = arb_example_world, entry_mem = \<lambda>_. None\<rparr>"

definition arb_example_fan :: "EsifArbCtx EsifUp" where
  "arb_example_fan = (EsifUp_new eParticipantOriginUF)\<lparr>fInstance := 9, fMetadata := EsifUpData_zero\<lparr>fName := [0x46, 0x41, 0x4E], fAcpiType := 4\<rparr>\<rparr>"

abbreviation (input) fan_key :: ctx_key where "fan_key \<equiv> (87, 0x3044, 255)"

abbreviation (input) fan_ops :: "ctx_op list" where
  "fan_ops \<equiv> [CtxRequest fan_key 5 (arb_example_data 40), CtxLimits (130, 0x3044, 0) None (Some 7),
     CtxRequest (1, 2, 3) 5 (arb_example_data 1), CtxStop fan_key, CtxRequest fan_key 5 (arb_example_data 2)]"

lemma arb_example_store_ok: "store_ok arb_example_store []"
  using arb_example_ok(1-3) by (simp add: store_ok_def arb_example_store_def)

lemma fan_defaults: "default_params (\<lambda>part prim dmn inst. True) arb_example_fan = [arb_params 87 0x3044 255 1 (- 1) 0]"
  by (simp add: default_params_def default_table_def arb_example_fan_def ESIF_PARTICIPANT_CPU_NAME_def c_tolower_def
      EsifUpPm_IsPrimaryParticipantId_def g_fanArbTable_def arb_params_def)

lemma fan_spec:
  "\<exists>cs'. ctx_run (\<lambda>x cs. Some (ctx_spec_op (\<lambda>_. True) x cs)) fan_ops (ctx_start (\<lambda>part prim dmn inst. True) arb_example_fan [])
     = Some ([ESIF_OK, ESIF_OK, ESIF_E_NOT_FOUND, ESIF_OK, ESIF_E_NOT_FOUND], cs')
   \<and> map fst (cs_entries cs') = [(130, 0x3044, 0)] \<and> cs_sent cs' fan_key = Some (arb_example_data 40)"
  by (simp add: ctx_start_def fan_defaults new_cell_def params_key_def arb_params_def cell_op_def create_and_def new_params_def
      spec_start_def withdrawn_def settle_def ranked_def arb_example_data_def data_val_def val_rank_def get_u32_def
      limited_def limit_data_def clone_of_def put_u32_def Let_def)

text \<open>With two more arbiters in the table, the one of the fan is no longer stopped.\<close>

abbreviation (input) fan_bad_ops :: "ctx_op list" where
  "fan_bad_ops \<equiv> [CtxLimits (130, 0x3044, 0) None (Some 7), CtxLimits (131, 0x3044, 0) None (Some 7), CtxStop fan_key]"

lemma fan_defined:
  "ctx_ops_defined (\<lambda>_. True) fan_ops (ctx_start (\<lambda>part prim dmn inst. True) arb_example_fan [])"
  "\<not> ctx_ops_defined (\<lambda>_. True) fan_bad_ops (ctx_start (\<lambda>part prim dmn inst. True) arb_example_fan [])"
  by (simp_all add: ctx_start_def fan_defaults new_cell_def params_key_def arb_params_def cell_op_def create_and_def new_params_def
      spec_start_def withdrawn_def settle_def ranked_def arb_example_data_def data_val_def val_rank_def get_u32_def
      limited_def limit_data_def clone_of_def put_u32_def Let_def stop_ok_def)

theorem arb_ctx_refines_witness:
  "\<exists>c s1 c' s' taken' qs'. EsifArbCtx_Create (\<lambda>part prim dmn inst. True) arb_example_fan arb_example_store = Some (True, Some c, s1)
    \<and> ctx_run (ctx_conc_op (\<lambda>part prim dmn inst. True)) fan_ops (c, s1, [])
        = Some ([ESIF_OK, ESIF_OK, ESIF_E_NOT_FOUND, ESIF_OK, ESIF_E_NOT_FOUND], c', s', taken')
    \<and> last_sent_to 9 fan_key (taken' @ qs') = Some (arb_example_data 40)
    \<and> ctx_run (ctx_conc_op (\<lambda>part prim dmn inst. True)) fan_bad_ops (c, s1, []) = None"
proof -
  let ?all = "\<lambda>(part::esif_handle_t) (prim::u32) (dmn::u16) (inst::u8). True"
  have all: "(\<lambda>(prim, dmn, inst). ?all (fInstance arb_example_fan) prim dmn inst) = (\<lambda>_. True)" by auto
  from ctx_create_spec [OF arb_example_store_ok, of ?all arb_example_fan "[]"] obtain c s1 where
    c: "EsifArbCtx_Create ?all arb_example_fan arb_example_store = Some (True, Some c, s1)" by blast
  obtain cs where cs: "ctx_run (\<lambda>x cs. Some (ctx_spec_op (\<lambda>_. True) x cs)) fan_ops (ctx_start ?all arb_example_fan [])
      = Some ([ESIF_OK, ESIF_OK, ESIF_E_NOT_FOUND, ESIF_OK, ESIF_E_NOT_FOUND], cs)" "cs_sent cs fan_key = Some (arb_example_data 40)"
    using fan_spec by blast
  have ops: "\<forall>x\<in>set fan_ops. ctx_op_ok x" using arb_example_ok(4) by simp
  have len: "length ([]::EsifArbPrimReq option list)
      + length fan_ops * (2 * Suc (length (default_params ?all arb_example_fan) + length fan_ops)) \<le> 2 ^ 32 - 1"
    unfolding fan_defaults by simp
  from arb_ctx_refines [OF arb_example_store_ok c ops len] fan_defined(1) obtain rcs c' s' taken' cs' qs' where
    r: "ctx_run (ctx_conc_op ?all) fan_ops (c, s1, []) = Some (rcs, c', s', taken')"
      "ctx_run (\<lambda>x cs. Some (ctx_spec_op (\<lambda>_. True) x cs)) fan_ops (ctx_start ?all arb_example_fan []) = Some (rcs, cs')"
      "\<forall>k. last_sent_to (fInstance arb_example_fan) k (taken' @ qs') = cs_sent cs' k"
    unfolding all by (simp only: if_True) blast
  have eq: "rcs = [ESIF_OK, ESIF_OK, ESIF_E_NOT_FOUND, ESIF_OK, ESIF_E_NOT_FOUND]" "cs' = cs" using r(2) cs(1) by auto
  have "last_sent_to 9 fan_key (taken' @ qs') = Some (arb_example_data 40)"
    using r(3) cs(2) eq(2) by (simp add: arb_example_fan_def)
  moreover have "length ([]::EsifArbPrimReq option list)
      + length fan_bad_ops * (2 * Suc (length (default_params ?all arb_example_fan) + length fan_bad_ops)) \<le> 2 ^ 32 - 1"
    unfolding fan_defaults by simp
  from arb_ctx_refines [OF arb_example_store_ok c _ this] fan_defined(2)
  have "ctx_run (ctx_conc_op ?all) fan_bad_ops (c, s1, []) = None" unfolding all by simp
  ultimately show ?thesis using c r(1) eq(1) by blast
qed

definition waits_for :: "addr \<Rightarrow> arb_store \<Rightarrow> bool" where
  "waits_for a s \<longleftrightarrow> (\<exists>e. entry_mem s a = Some e \<and> markedForDelete e \<and> refCount e = 1 \<and> \<not> deleteEvent e)"

text \<open>
  C25. A full table and an allocator that has room for the new entry but not for a larger table: setting
  limits (or a function) for a new key never returns. The failed insertion destroys the entry, on which
  two references are held; the destroyer gives back one and waits for the other, which nobody owns,
  with the lock of the context held.
\<close>

theorem arb_ctx_insert_hang:
  assumes "alloc_ok (req_heap (st_world s)) (next_addr (req_heap (st_world s)))"
    "\<not> alloc_ok (req_heap (st_world s)) (Suc (next_addr (req_heap (st_world s))))"
    "numEntries c = entryCapacity c" "supported (ctx_participantId c) prim dmn inst"
    "EsifArbCtx_LookupArbEntry_Locked (Some c) prim dmn inst s = Some (None, s)"
  shows "(\<exists>s'. EsifArbCtx_SetLimits supported (Some c) prim dmn inst u l s = Some (None, Some c, s')
      \<and> waits_for (next_addr (req_heap (st_world s))) s')
    \<and> (\<exists>s'. EsifArbCtx_SetArbitrationFunction supported (Some c) prim dmn inst ty s = Some (None, Some c, s')
      \<and> waits_for (next_addr (req_heap (st_world s))) s')"
proof -
  let ?h = "req_heap (st_world s)"
  let ?e = "\<lambda>t. \<lparr>primitiveId = prim, domain = dmn, entry_instance = inst, arbType = t, upperLimit = - 1, lowerLimit = 0,
      arbitrationEnabled = True, arbRequests = \<lparr>head_ptr = None, tail_ptr = None, nodes = 0\<rparr>,
      participantId = ctx_participantId c, refCount = 1, markedForDelete = True, deleteEvent = False\<rparr>"
  let ?s' = "\<lambda>t. s\<lparr>st_world := (st_world s)\<lparr>req_heap := ?h\<lparr>next_addr := Suc (Suc (next_addr ?h))\<rparr>\<rparr>,
      entry_mem := (entry_mem s)(next_addr ?h \<mapsto> ?e t)\<rparr>"
  have ins: "insert_entry c p x = Some (ESIF_E_NO_MEMORY, c, x\<lparr>st_world := (st_world x)\<lparr>req_heap := (req_heap (st_world x))\<lparr>next_addr := Suc (next_addr (req_heap (st_world x)))\<rparr>\<rparr>\<rparr>)"
    if "\<not> alloc_ok (req_heap (st_world x)) (next_addr (req_heap (st_world x)))" for p x
    using assms(3) that by (subst insert_entry.simps) (simp add: esif_ccb_malloc_def)
  have create: "EsifArbCtx_CreateAndInsertEntry_Locked c \<lparr>par_primitiveId = prim, par_domain = dmn, par_instance = inst, par_arbType = t,
         par_upperLimit = - 1, par_lowerLimit = 0\<rparr> (ctx_participantId c) s = Some (None, None, c, ?s' t)" for t
    using assms(1,2)
    by (simp add: EsifArbCtx_CreateAndInsertEntry_Locked_def EsifArbEntry_Create_def esif_ccb_malloc_def Let_def put_entry_def
        ref_entry_def entry_at_def EsifArbEntry_GetRef_def ins destroy_entry_def EsifArbEntry_Destroy_def EsifArbEntry_PutRef_def)
  have "EsifArbCtx_SetLimits supported (Some c) prim dmn inst u l s = Some (None, Some c, ?s' 0)"
    "EsifArbCtx_SetArbitrationFunction supported (Some c) prim dmn inst ty s = Some (None, Some c, ?s' ty)"
    using assms(4,5) create
    by (simp_all add: EsifArbCtx_SetLimits_def EsifArbCtx_SetArbitrationFunction_def find_or_create_def use_entry_def)
  moreover have "waits_for (next_addr ?h) (?s' t)" for t by (simp add: waits_for_def)
  ultimately show ?thesis by blast
qed

text \<open>An empty context and an allocator with one block left.\<close>

theorem arb_ctx_insert_hang_witness:
  "\<exists>s'. EsifArbCtx_SetLimits (\<lambda>part prim dmn inst. True)
      (Some \<lparr>ctx_arbitrationEnabled = True, numEntries = 0, entryCapacity = 0, entriesPtr = [], ctx_participantId = 9\<rparr>)
      87 0x3044 255 None (Some 3)
      (arb_example_store\<lparr>st_world := arb_example_world\<lparr>req_heap := \<lparr>next_addr = 1, alloc_ok = \<lambda>a. a = 1, node_mem = \<lambda>_. None\<rparr>\<rparr>\<rparr>)
    = Some (None, Some \<lparr>ctx_arbitrationEnabled = True, numEntries = 0, entryCapacity = 0, entriesPtr = [], ctx_participantId = 9\<rparr>, s')"
proof -
  let ?c = "\<lparr>ctx_arbitrationEnabled = True, numEntries = 0, entryCapacity = 0, entriesPtr = [], ctx_participantId = 9\<rparr>"
  let ?s = "arb_example_store\<lparr>st_world := arb_example_world\<lparr>req_heap := \<lparr>next_addr = 1, alloc_ok = \<lambda>a. a = 1, node_mem = \<lambda>_. None\<rparr>\<rparr>\<rparr>"
  have "EsifArbCtx_LookupArbEntry_Locked (Some ?c) 87 0x3044 255 ?s = Some (None, ?s)"
    by (simp add: EsifArbCtx_LookupArbEntry_Locked_def)
  with arb_ctx_insert_hang [where s = ?s and c = ?c and supported = "\<lambda>part prim dmn inst. True" and prim = 87
      and dmn = "0x3044" and inst = 255 and u = None and l = "Some 3" and ty = 1] show ?thesis by auto
qed

end
