(* ===== verification/Part_Mgr.thy ===== *)
theory Part_Mgr
  imports Participant Handle_Mgr Data_Cache
begin

text \<open>
  The participant manager of \<^verbatim>\<open>src/ESIF/Products/ESIF_UF/Sources/esif_uf_pm.c\<close>: a table of 32 entries, each with a
  state and a participant. Registration looks for an entry the new participant collides with, and
  resumes it, replaces it, refuses the newcomer or takes a free entry with a new handle. The table, the
  participants (\<open>Participant\<close>) and the handle manager (\<open>Handle_Mgr\<close>) together form the state. What is told to
  the applications, the thermal interface and the lower framework is recorded with the participant's
  handle; the answers are functions of the calls made so far. The lock is held for the length of
  an operation.
\<close>

section \<open>State\<close>

datatype esif_pm_participant_state =
  ESIF_PM_PARTICIPANT_STATE_AVAILABLE | ESIF_PM_PARTICIPANT_STATE_REMOVED
  | ESIF_PM_PARTICIPANT_STATE_LF_REMOVED | ESIF_PM_PARTICIPANT_STATE_CREATED

text \<open>The numbers of the states, which the code compares.\<close>

fun state_num :: "esif_pm_participant_state \<Rightarrow> nat" where
  "state_num ESIF_PM_PARTICIPANT_STATE_AVAILABLE = 0"
| "state_num ESIF_PM_PARTICIPANT_STATE_REMOVED = 1"
| "state_num ESIF_PM_PARTICIPANT_STATE_LF_REMOVED = 2"
| "state_num ESIF_PM_PARTICIPANT_STATE_CREATED = 3"

record EsifUpManagerEntry =
  fState :: esif_pm_participant_state
  fUpPtr :: "addr option"

abbreviation (input) MAX_PARTICIPANT_ENTRY :: nat where "MAX_PARTICIPANT_ENTRY \<equiv> 32"
abbreviation (input) EVENT_MGR_DOMAIN_D0 :: u16 where "EVENT_MGR_DOMAIN_D0 \<equiv> 0x3044"
abbreviation (input) ESIF_EVENT_PARTICIPANT_SUSPEND :: u32 where "ESIF_EVENT_PARTICIPANT_SUSPEND \<equiv> 5"
abbreviation (input) ESIF_EVENT_PARTICIPANT_RESUME :: u32 where "ESIF_EVENT_PARTICIPANT_RESUME \<equiv> 6"
abbreviation (input) ESIF_EVENT_PARTICIPANT_CREATE :: u32 where "ESIF_EVENT_PARTICIPANT_CREATE \<equiv> 18"
abbreviation (input) ESIF_EVENT_PARTICIPANT_UNREGISTER :: u32 where "ESIF_EVENT_PARTICIPANT_UNREGISTER \<equiv> 19"
abbreviation (input) ESIF_EVENT_DTT_PARTICIPANT_ACTIVITY_LOGGING_ENABLED :: u32 where
  "ESIF_EVENT_DTT_PARTICIPANT_ACTIVITY_LOGGING_ENABLED \<equiv> 68"
abbreviation (input) ESIF_EVENT_PARTICIPANT_UNREGISTER_COMPLETE :: u32 where "ESIF_EVENT_PARTICIPANT_UNREGISTER_COMPLETE \<equiv> 84"
abbreviation (input) ESIF_EVENT_LF_UNLOADED :: u32 where "ESIF_EVENT_LF_UNLOADED \<equiv> 86"
abbreviation (input) ESIF_EVENT_PARTICIPANT_CREATE_COMPLETE :: u32 where "ESIF_EVENT_PARTICIPANT_CREATE_COMPLETE \<equiv> 150"

datatype pm_call = AppsCreate esif_handle_t | AppsDestroy esif_handle_t | ThermalCreate esif_handle_t
  | LfDestroy "u8 list" | LfCreate esif_ipc_event_data_create_participant

record pm_env = up_env +
  apps_create :: "pm_call list \<Rightarrow> esif_handle_t \<Rightarrow> esif_rc"
  apps_destroy :: "pm_call list \<Rightarrow> esif_handle_t \<Rightarrow> esif_rc"
  lf_destroy :: "pm_call list \<Rightarrow> u8 list \<Rightarrow> esif_rc"
  lf_create :: "pm_call list \<Rightarrow> esif_ipc_event_data_create_participant \<Rightarrow> esif_rc"

record 'c EsifUppMgr =
  fEntryCount :: u8
  fEntries :: "EsifUpManagerEntry list"
  pm_ups :: "'c up_store"
  pm_handles :: "EsifHandleMgr option"
  pm_calls :: "pm_call list"

abbreviation set_entry :: "nat \<Rightarrow> (EsifUpManagerEntry \<Rightarrow> EsifUpManagerEntry) \<Rightarrow> 'c EsifUppMgr \<Rightarrow> 'c EsifUppMgr" where
  "set_entry i f s \<equiv> s\<lparr>fEntries := (fEntries s)[i := f (fEntries s ! i)]\<rparr>"

abbreviation up_env_of :: "pm_env \<Rightarrow> up_env" where
  "up_env_of env \<equiv> up_env.truncate env"

text \<open>A step of the participants alone.\<close>

definition lift_up :: "('c up_store \<Rightarrow> 'c up_store option) \<Rightarrow> 'c EsifUppMgr \<Rightarrow> 'c EsifUppMgr option" where
  "lift_up f s = map_option (\<lambda>u. s\<lparr>pm_ups := u\<rparr>) (f (pm_ups s))"

definition lift_up_rc :: "('c up_store \<Rightarrow> (esif_rc \<times> 'c up_store) option) \<Rightarrow> 'c EsifUppMgr \<Rightarrow> (esif_rc \<times> 'c EsifUppMgr) option" where
  "lift_up_rc f s = map_option (\<lambda>(rc, u). (rc, s\<lparr>pm_ups := u\<rparr>)) (f (pm_ups s))"

text \<open>\<^verbatim>\<open>EsifEventMgr_SignalEvent\<close> without data: the event is posted for later delivery.\<close>

definition pm_signal :: "esif_handle_t \<Rightarrow> u32 \<Rightarrow> 'c EsifUppMgr \<Rightarrow> 'c EsifUppMgr" where
  "pm_signal h ty s = s\<lparr>pm_ups := (pm_ups s)\<lparr>up_events := up_events (pm_ups s) @
     [\<lparr>ev_participant = h, ev_domain = EVENT_MGR_DOMAIN_D0, ev_type = ty, ev_value = None\<rparr>]\<rparr>\<rparr>"

definition pm_note :: "pm_call \<Rightarrow> 'c EsifUppMgr \<Rightarrow> 'c EsifUppMgr" where
  "pm_note c s = s\<lparr>pm_calls := pm_calls s @ [c]\<rparr>"

section \<open>Lookup\<close>

text \<open>The entries in order, the first one that answers.\<close>

fun find_entry_loop :: "(nat \<Rightarrow> EsifUpManagerEntry \<Rightarrow> 'c EsifUp option \<Rightarrow> bool) \<Rightarrow> 'c up_store \<Rightarrow> nat \<Rightarrow> EsifUpManagerEntry list \<Rightarrow> nat option option" where
  "find_entry_loop P ups i [] = Some None"
| "find_entry_loop P ups i (e # es) = do {
     u \<leftarrow> up_at (fUpPtr e) ups;
     if P i e u then Some (Some i) else find_entry_loop P ups (Suc i) es }"

definition EsifUpPm_GetEntryByInstanceLocked :: "esif_handle_t \<Rightarrow> 'c EsifUppMgr \<Rightarrow> nat option option" where
  "EsifUpPm_GetEntryByInstanceLocked h s = find_entry_loop (\<lambda>_ _ u. h = EsifUp_GetInstance u) (pm_ups s) 0 (fEntries s)"

text \<open>A reference to what is found, or nothing when it is being destroyed.\<close>

definition take_ref :: "addr option \<Rightarrow> 'c EsifUppMgr \<Rightarrow> (addr option \<times> 'c EsifUppMgr) option" where
  "take_ref p s = do {
     (rc, s1) \<leftarrow> lift_up_rc (EsifUp_GetRef p) s;
     Some (if rc = ESIF_OK then p else None, s1) }"

definition in_use :: "EsifUpManagerEntry \<Rightarrow> bool" where
  "in_use e \<longleftrightarrow> state_num (fState e) > state_num ESIF_PM_PARTICIPANT_STATE_REMOVED"

definition EsifUpPm_GetAvailableParticipantByIndexLocked :: "u8 \<Rightarrow> 'c EsifUppMgr \<Rightarrow> (addr option \<times> 'c EsifUppMgr) option" where
  "EsifUpPm_GetAvailableParticipantByIndexLocked index s =
     (if unat index \<ge> MAX_PARTICIPANT_ENTRY then Some (None, s)
      else let e = fEntries s ! unat index in
        if in_use e then take_ref (fUpPtr e) s else Some (None, s))"

definition EsifUpPm_GetAvailableParticipantByIndex :: "u8 \<Rightarrow> 'c EsifUppMgr \<Rightarrow> (addr option \<times> 'c EsifUppMgr) option" where
  "EsifUpPm_GetAvailableParticipantByIndex = EsifUpPm_GetAvailableParticipantByIndexLocked"

definition EsifUpPm_GetAvailableParticipantByInstanceLocked :: "esif_handle_t \<Rightarrow> 'c EsifUppMgr \<Rightarrow> (addr option \<times> 'c EsifUppMgr) option" where
  "EsifUpPm_GetAvailableParticipantByInstanceLocked upInstance s =
     (let h = (if EsifUpPm_IsPrimaryParticipantId upInstance then ESIF_HANDLE_PRIMARY_PARTICIPANT else upInstance) in
      do {
        i \<leftarrow> find_entry_loop (\<lambda>_ e u. in_use e \<and> u \<noteq> None \<and> h = EsifUp_GetInstance u) (pm_ups s) 0 (fEntries s);
        (case i of None \<Rightarrow> Some (None, s) | Some i \<Rightarrow> take_ref (fUpPtr (fEntries s ! i)) s) })"

definition EsifUpPm_GetAvailableParticipantByInstance :: "esif_handle_t \<Rightarrow> 'c EsifUppMgr \<Rightarrow> (addr option \<times> 'c EsifUppMgr) option" where
  "EsifUpPm_GetAvailableParticipantByInstance = EsifUpPm_GetAvailableParticipantByInstanceLocked"

text \<open>
  The searches by name, device and path take a reference to each participant in turn and give it
  back when it is not the one.
\<close>

fun avail_loop :: "('c EsifUp \<Rightarrow> bool) \<Rightarrow> nat list \<Rightarrow> 'c EsifUppMgr \<Rightarrow> (addr option \<times> 'c EsifUppMgr) option" where
  "avail_loop P [] s = Some (None, s)"
| "avail_loop P (i # is) s = do {
     (p, s1) \<leftarrow> EsifUpPm_GetAvailableParticipantByIndexLocked (of_nat i) s;
     (case p of
        None \<Rightarrow> avail_loop P is s1
      | Some a \<Rightarrow> do {
          u \<leftarrow> up_mem (pm_ups s1) a;
          if P u then Some (Some a, s1)
          else do { s2 \<leftarrow> lift_up (EsifUp_PutRef (Some a)) s1; avail_loop P is s2 } }) }"

definition EsifUpPm_GetAvailableParticipantByName :: "u8 list option \<Rightarrow> 'c EsifUppMgr \<Rightarrow> (addr option \<times> 'c EsifUppMgr) option" where
  "EsifUpPm_GetAvailableParticipantByName participantName s =
     (case participantName of None \<Rightarrow> Some (None, s)
      | Some n \<Rightarrow> avail_loop (\<lambda>u. strcasecmp n (fName (fMetadata u)) = 0) [0..<MAX_PARTICIPANT_ENTRY] s)"

definition exists_by :: "('c EsifUp \<Rightarrow> u8 list \<Rightarrow> bool) \<Rightarrow> u8 list option \<Rightarrow> 'c EsifUppMgr \<Rightarrow> (bool \<times> 'c EsifUppMgr) option" where
  "exists_by P wanted s =
     (case wanted of None \<Rightarrow> Some (False, s)
      | Some k \<Rightarrow> do {
          (p, s1) \<leftarrow> avail_loop (\<lambda>u. P u k) [0..<MAX_PARTICIPANT_ENTRY] s;
          s2 \<leftarrow> lift_up (EsifUp_PutRef p) s1;
          Some (p \<noteq> None, s2) })"

definition EsifUpPm_DoesAvailableParticipantExistByHID :: "u8 list option \<Rightarrow> 'c EsifUppMgr \<Rightarrow> (bool \<times> 'c EsifUppMgr) option" where
  "EsifUpPm_DoesAvailableParticipantExistByHID = exists_by (\<lambda>u hid. fAcpiDevice (fMetadata u) = hid)"

definition EsifUpPm_DoesAvailableParticipantExistByDevicePath :: "u8 list option \<Rightarrow> 'c EsifUppMgr \<Rightarrow> (bool \<times> 'c EsifUppMgr) option" where
  "EsifUpPm_DoesAvailableParticipantExistByDevicePath = exists_by (\<lambda>u path. strcasecmp (fDevicePath (fMetadata u)) path = 0)"

definition EsifUpPm_DoesAvailableParticipantExistByName :: "u8 list option \<Rightarrow> 'c EsifUppMgr \<Rightarrow> (bool \<times> 'c EsifUppMgr) option" where
  "EsifUpPm_DoesAvailableParticipantExistByName = exists_by (\<lambda>u name. fName (fMetadata u) = name)"

definition EsifUpPm_MapLpidToParticipantInstance :: "u8 \<Rightarrow> bool \<Rightarrow> 'c EsifUppMgr \<Rightarrow> (esif_rc \<times> esif_handle_t option) option" where
  "EsifUpPm_MapLpidToParticipantInstance lpInstance has_upInstancePtr s =
     (if \<not> has_upInstancePtr then Some (ESIF_E_PARAMETER_IS_NULL, None)
      else do {
        i \<leftarrow> find_entry_loop (\<lambda>i _ u. case u of None \<Rightarrow> False
               | Some x \<Rightarrow> EsifUp_GetLpInstance u = lpInstance \<or> (i = 0 \<and> fLpAlias x = lpInstance)) (pm_ups s) 0 (fEntries s);
        (case i of None \<Rightarrow> Some (ESIF_E_INVALID_HANDLE, None)
         | Some i \<Rightarrow> do { u \<leftarrow> up_at (fUpPtr (fEntries s ! i)) (pm_ups s); Some (ESIF_OK, Some (EsifUp_GetInstance u)) }) })"

definition EsifUpPm_IsActionUsedByParticipants :: "u32 \<Rightarrow> 'c EsifUppMgr \<Rightarrow> bool option" where
  "EsifUpPm_IsActionUsedByParticipants ty s =
     map_option (\<lambda>i. i \<noteq> None) (find_entry_loop (\<lambda>_ _ u. u \<noteq> None \<and> EsifUp_IsActionInDsp u ty) (pm_ups s) 0 (fEntries s))"

definition EsifUpPm_ParticipantCount :: "'c EsifUppMgr \<Rightarrow> u8" where
  "EsifUpPm_ParticipantCount s = fEntryCount s"

section \<open>Collisions\<close>

text \<open>The parts of the metadata that decide, for both origins.\<close>

definition meta_flags :: "up_metadata \<Rightarrow> u32" where
  "meta_flags meta = (case meta of OriginLF lp \<Rightarrow> lp_flags lp | OriginUF p \<Rightarrow> pi_flags p)"

definition meta_name :: "up_metadata \<Rightarrow> u8 list" where
  "meta_name meta = (case meta of OriginLF lp \<Rightarrow> lp_name lp | OriginUF p \<Rightarrow> pi_name p)"

definition meta_ptype :: "up_metadata \<Rightarrow> u32" where
  "meta_ptype meta = (case meta of OriginLF lp \<Rightarrow> lp_acpi_type lp | OriginUF p \<Rightarrow> pi_acpi_type p)"

definition collides :: "up_metadata \<Rightarrow> 'c EsifUp \<Rightarrow> bool" where
  "collides meta u \<longleftrightarrow>
     (let auto_new = bit (meta_flags meta) ESIF_FLAG_AUTO_ENUMERATED; auto_old = bit (fFlags (fMetadata u)) ESIF_FLAG_AUTO_ENUMERATED in
      fName (fMetadata u) = meta_name meta
      \<or> meta_ptype meta = fAcpiType (fMetadata u)
        \<and> (if meta_ptype meta \<noteq> ESIF_DOMAIN_TYPE_NVME then auto_new \<or> auto_old else auto_new \<noteq> auto_old))"

definition EsifUpPm_GetOverlappingEntryFromMetadataLocked :: "up_metadata \<Rightarrow> 'c EsifUppMgr \<Rightarrow> nat option option" where
  "EsifUpPm_GetOverlappingEntryFromMetadataLocked meta s =
     (if bit (meta_flags meta) ESIF_FLAG_DPTFZ
      then Some (if fUpPtr (fEntries s ! 0) \<noteq> None then Some 0 else None)
      else find_entry_loop (\<lambda>_ _ u. case u of None \<Rightarrow> False | Some x \<Rightarrow> collides meta x) (pm_ups s) 0 (fEntries s))"

definition DoesPartNameMatchMetadata :: "'c EsifUp option \<Rightarrow> up_metadata option \<Rightarrow> bool" where
  "DoesPartNameMatchMetadata up meta =
     (case (up, meta) of (Some u, Some m) \<Rightarrow> fName (fMetadata u) = meta_name m | _ \<Rightarrow> False)"

section \<open>Registration\<close>

text \<open>The name of a kernel participant that is to go; without memory for the copy nothing is removed.\<close>

definition name_to_destroy :: "bool \<Rightarrow> u8 list \<Rightarrow> 'c EsifUppMgr \<Rightarrow> u8 list option \<times> 'c EsifUppMgr" where
  "name_to_destroy wanted n s =
     (if \<not> wanted then (None, s)
      else let (p, m) = esif_ccb_malloc (up_alloc (pm_ups s)) in
        (map_option (\<lambda>_. n) p, s\<lparr>pm_ups := (pm_ups s)\<lparr>up_alloc := m\<rparr>\<rparr>))"

definition EsifUpPm_DestroyConjuredLfParticipant :: "pm_env \<Rightarrow> u8 list option \<Rightarrow> 'c EsifUppMgr \<Rightarrow> esif_rc \<times> 'c EsifUppMgr" where
  "EsifUpPm_DestroyConjuredLfParticipant env n s =
     (case n of None \<Rightarrow> (ESIF_E_PARAMETER_IS_NULL, s)
      | Some x \<Rightarrow> (lf_destroy env (pm_calls s) x, pm_note (LfDestroy x) s))"

definition EsifAppMgr_CreateParticipantInAllApps :: "pm_env \<Rightarrow> addr option \<Rightarrow> 'c EsifUppMgr \<Rightarrow> (esif_rc \<times> 'c EsifUppMgr) option" where
  "EsifAppMgr_CreateParticipantInAllApps env up s = do {
     u \<leftarrow> up_at up (pm_ups s);
     Some (apps_create env (pm_calls s) (EsifUp_GetInstance u), pm_note (AppsCreate (EsifUp_GetInstance u)) s) }"

definition EsifAppMgr_DestroyParticipantInAllApps :: "pm_env \<Rightarrow> addr option \<Rightarrow> 'c EsifUppMgr \<Rightarrow> (esif_rc \<times> 'c EsifUppMgr) option" where
  "EsifAppMgr_DestroyParticipantInAllApps env up s = do {
     u \<leftarrow> up_at up (pm_ups s);
     Some (apps_destroy env (pm_calls s) (EsifUp_GetInstance u), pm_note (AppsDestroy (EsifUp_GetInstance u)) s) }"

text \<open>\<^verbatim>\<open>ESIF_PM_PARTICIPANT_STATE_CREATED\<close> with the count, in entry \<open>i\<close>.\<close>

definition enter_created :: "nat \<Rightarrow> 'c EsifUppMgr \<Rightarrow> 'c EsifUppMgr" where
  "enter_created i s = set_entry i (fState_update (\<lambda>_. ESIF_PM_PARTICIPANT_STATE_CREATED)) (s\<lparr>fEntryCount := fEntryCount s + 1\<rparr>)"

text \<open>
  What a branch of the registration ends with: the status, the participant on which a reference is held,
  whether the registration goes on with it, and the kernel participant to remove.
\<close>

record reg_result =
  reg_rc :: esif_rc
  reg_up :: "addr option"
  reg_goes_on :: bool
  reg_remove :: "u8 list option"

definition reg_stop :: "esif_rc \<Rightarrow> reg_result" where
  "reg_stop rc = \<lparr>reg_rc = rc, reg_up = None, reg_goes_on = False, reg_remove = None\<rparr>"

text \<open>A collision with a participant that is kept: it is resumed when it is the same and is not in use.\<close>

definition register_kept :: "pm_env \<Rightarrow> up_metadata \<Rightarrow> nat \<Rightarrow> 'c EsifUppMgr \<Rightarrow> (reg_result \<times> 'c EsifUppMgr) option" where
  "register_kept env meta i s = do {
     let e = fEntries s ! i;
     u \<leftarrow> up_at (fUpPtr e) (pm_ups s);
     if \<not> DoesPartNameMatchMetadata u (Some meta) then
       let (n, s1) = name_to_destroy (case meta of OriginLF lp \<Rightarrow> lp_enumerator lp = ESIF_PARTICIPANT_ENUM_CONJURE | OriginUF _ \<Rightarrow> False)
                       (meta_name meta) s in
       Some ((reg_stop ESIF_OK)\<lparr>reg_remove := n\<rparr>, s1)
     else if state_num (fState e) > state_num ESIF_PM_PARTICIPANT_STATE_LF_REMOVED then Some (reg_stop ESIF_OK, s)
     else do {
       (rc, s1) \<leftarrow> lift_up_rc (EsifUp_GetRef (fUpPtr e)) s;
       if rc \<noteq> ESIF_OK then Some (reg_stop ESIF_E_NO_CREATE, s1)
       else do {
         (rc1, s2) \<leftarrow> lift_up_rc (EsifUp_ReInitializeParticipant (up_env_of env) (fUpPtr e) meta) s1;
         if rc1 \<noteq> ESIF_OK then Some ((reg_stop ESIF_E_NO_CREATE)\<lparr>reg_up := fUpPtr e\<rparr>, s2)
         else Some (\<lparr>reg_rc = ESIF_OK, reg_up = fUpPtr e, reg_goes_on = True, reg_remove = None\<rparr>, enter_created i s2) } } }"

definition create_up :: "pm_env \<Rightarrow> up_metadata \<Rightarrow> 'c EsifUppMgr \<Rightarrow> (esif_rc \<times> addr option \<times> 'c EsifUppMgr) option" where
  "create_up env meta s =
     map_option (\<lambda>(rc, p, u). (rc, p, s\<lparr>pm_ups := u\<rparr>)) (EsifUp_CreateParticipant (up_env_of env) meta (pm_ups s))"

text \<open>A collision with a participant that is replaced; the new one takes over its handle and its entry.\<close>

definition register_replacing :: "pm_env \<Rightarrow> up_metadata \<Rightarrow> nat \<Rightarrow> 'c EsifUppMgr \<Rightarrow> (reg_result \<times> 'c EsifUppMgr) option" where
  "register_replacing env meta i s = do {
     let tempUpPtr = fUpPtr (fEntries s ! i);
     (rc, newUpPtr, s1) \<leftarrow> create_up env meta s;
     if rc \<noteq> ESIF_OK \<or> newUpPtr = None then Some (reg_stop ESIF_E_NO_CREATE, s1)
     else do {
       t \<leftarrow> up_at tempUpPtr (pm_ups s1);
       s2 \<leftarrow> lift_up (EsifUp_SetInstance newUpPtr (EsifUp_GetInstance t)) s1;
       (rc1, s3) \<leftarrow> lift_up_rc (EsifUp_GetRef newUpPtr) s2;
       if rc1 \<noteq> ESIF_OK then do {
         s4 \<leftarrow> lift_up (EsifUp_DestroyParticipant newUpPtr) s3;
         Some (reg_stop ESIF_E_NO_CREATE, s4) }
       else do {
         (_, s4) \<leftarrow> lift_up_rc (EsifUp_SuspendParticipant tempUpPtr) s3;
         let s5 = (if fState (fEntries s4 ! i) \<noteq> ESIF_PM_PARTICIPANT_STATE_CREATED then enter_created i s4 else s4);
         let s6 = set_entry i (fUpPtr_update (\<lambda>_. newUpPtr)) s5;
         (_, s7) \<leftarrow> EsifAppMgr_DestroyParticipantInAllApps env tempUpPtr s6;
         tu \<leftarrow> up_at tempUpPtr (pm_ups s7);
         let (n, s8) = name_to_destroy (case tu of None \<Rightarrow> False
               | Some x \<Rightarrow> fOrigin x = eParticipantOriginLF \<and> fEnumerator (fMetadata x) = ESIF_PARTICIPANT_ENUM_CONJURE) (EsifUp_GetName tu) s7;
         s9 \<leftarrow> lift_up (EsifUp_DestroyParticipant tempUpPtr) s8;
         Some (\<lparr>reg_rc = ESIF_OK, reg_up = newUpPtr, reg_goes_on = True, reg_remove = n\<rparr>, s9) } } }"

text \<open>The first free entry; the first of all is for the primary participant only.\<close>

definition free_entry :: "bool \<Rightarrow> EsifUpManagerEntry list \<Rightarrow> nat option" where
  "free_entry primary es =
     find (\<lambda>i. fState (es ! i) = ESIF_PM_PARTICIPANT_STATE_AVAILABLE \<and> (i \<noteq> 0 \<or> primary)) [0..<MAX_PARTICIPANT_ENTRY]"

definition next_handle :: "'c EsifUppMgr \<Rightarrow> (esif_rc \<times> esif_handle_t option \<times> 'c EsifUppMgr) option" where
  "next_handle s = map_option (\<lambda>(rc, hm, h, m). (rc, h, s\<lparr>pm_handles := hm, pm_ups := (pm_ups s)\<lparr>up_alloc := m\<rparr>\<rparr>))
     (EsifHandleMgr_GetNextHandle (pm_handles s) True (up_alloc (pm_ups s)))"

definition register_new :: "pm_env \<Rightarrow> up_metadata \<Rightarrow> 'c EsifUppMgr \<Rightarrow> (reg_result \<times> 'c EsifUppMgr) option" where
  "register_new env meta s = do {
     (rc, upPtr, s1) \<leftarrow> create_up env meta s;
     if rc \<noteq> ESIF_OK \<or> upPtr = None then Some (reg_stop ESIF_E_NO_CREATE, s1)
     else do {
       u \<leftarrow> up_at upPtr (pm_ups s1);
       (case free_entry (EsifUp_IsPrimaryParticipant u) (fEntries s1) of
          None \<Rightarrow> do { s2 \<leftarrow> lift_up (EsifUp_DestroyParticipant upPtr) s1; Some (reg_stop ESIF_E_NO_CREATE, s2) }
        | Some i \<Rightarrow> do {
            (rc1, h, s2) \<leftarrow> (if EsifUp_IsPrimaryParticipant u then Some (ESIF_OK, Some ESIF_HANDLE_PRIMARY_PARTICIPANT, s1)
                              else next_handle s1);
            if rc1 \<noteq> ESIF_OK then do { s3 \<leftarrow> lift_up (EsifUp_DestroyParticipant upPtr) s2; Some (reg_stop ESIF_E_NO_CREATE, s3) }
            else do {
              hv \<leftarrow> h;
              s3 \<leftarrow> lift_up (EsifUp_SetInstance upPtr hv) s2;
              (rc2, s4) \<leftarrow> lift_up_rc (EsifUp_GetRef upPtr) s3;
              if rc2 \<noteq> ESIF_OK then do { s5 \<leftarrow> lift_up (EsifUp_DestroyParticipant upPtr) s4; Some (reg_stop ESIF_E_NO_CREATE, s5) }
              else Some (\<lparr>reg_rc = ESIF_OK, reg_up = upPtr, reg_goes_on = True, reg_remove = None\<rparr>,
                         set_entry i (fUpPtr_update (\<lambda>_. upPtr)) (enter_created i s4)) } }) } }"

definition activity_logged :: "u32 \<Rightarrow> bool" where
  "activity_logged ty \<longleftrightarrow> ty \<in> {0, 1, 4, 7, 9, 10, 11, 15, 17, 5, 46}"

definition EsifUpPm_ParticipantActivityLoggingEnable :: "pm_env \<Rightarrow> addr option \<Rightarrow> 'c EsifUppMgr \<Rightarrow> (esif_rc \<times> 'c EsifUppMgr) option" where
  "EsifUpPm_ParticipantActivityLoggingEnable env up s =
     (case up of None \<Rightarrow> Some (ESIF_E_PARAMETER_IS_NULL, s)
      | Some a \<Rightarrow> map_option (\<lambda>(_, s1). (ESIF_OK, s1)) (lift_up_rc (each_domain (\<lambda>d.
          if activity_logged (domainType (ud d))
          then snd (signal_event (device_of env a) ESIF_EVENT_DTT_PARTICIPANT_ACTIVITY_LOGGING_ENABLED (Some (caps_of (ud d))) d)
          else d) up) s))"

text \<open>What every successful branch goes on with, and the common end.\<close>

definition register_announce :: "pm_env \<Rightarrow> addr option \<Rightarrow> 'c EsifUppMgr \<Rightarrow> (esif_handle_t \<times> 'c EsifUppMgr) option" where
  "register_announce env up s = do {
     u \<leftarrow> up_at up (pm_ups s);
     let h = EsifUp_GetInstance u;
     (_, s1) \<leftarrow> lift_up_rc (EsifUp_DspReadyInit (up_env_of env) up) s;
     (_, s2) \<leftarrow> EsifAppMgr_CreateParticipantInAllApps env up s1;
     (_, s3) \<leftarrow> EsifUpPm_ParticipantActivityLoggingEnable env up (pm_note (ThermalCreate h) s2);
     Some (h, pm_signal h ESIF_EVENT_PARTICIPANT_CREATE_COMPLETE s3) }"

definition EsifUpPm_RegisterParticipant ::
    "pm_env \<Rightarrow> up_metadata option \<Rightarrow> bool \<Rightarrow> 'c EsifUppMgr \<Rightarrow> (esif_rc \<times> esif_handle_t option \<times> 'c EsifUppMgr) option" where
  "EsifUpPm_RegisterParticipant env metadataPtr has_upInstancePtr s =
     (case metadataPtr of
        None \<Rightarrow> Some (ESIF_E_PARAMETER_IS_NULL, None, s)
      | Some meta \<Rightarrow>
          if \<not> has_upInstancePtr then Some (ESIF_E_PARAMETER_IS_NULL, None, s)
          else do {
            entry \<leftarrow> EsifUpPm_GetOverlappingEntryFromMetadataLocked meta s;
            (r, s1) \<leftarrow> (case entry of
                None \<Rightarrow> register_new env meta s
              | Some i \<Rightarrow> do {
                  u \<leftarrow> up_at (fUpPtr (fEntries s ! i)) (pm_ups s);
                  if EsifUp_IsPreferredParticipant u meta then register_replacing env meta i s else register_kept env meta i s });
            (h, s2) \<leftarrow> (if reg_goes_on r then register_announce env (reg_up r) s1 else Some (ESIF_INVALID_HANDLE, s1));
            s3 \<leftarrow> lift_up (EsifUp_PutRef (reg_up r)) (snd (EsifUpPm_DestroyConjuredLfParticipant env (reg_remove r) s2));
            Some (reg_rc r, Some h, s3) })"

section \<open>Suspension and resumption\<close>

definition EsifUpPm_SuspendParticipant :: "pm_env \<Rightarrow> esif_handle_t \<Rightarrow> 'c EsifUppMgr \<Rightarrow> (esif_rc \<times> 'c EsifUppMgr) option" where
  "EsifUpPm_SuspendParticipant env upInstance s = do {
     entry \<leftarrow> EsifUpPm_GetEntryByInstanceLocked upInstance s;
     (case entry of
        None \<Rightarrow> Some (ESIF_E_NOT_FOUND, s)
      | Some i \<Rightarrow>
          let e = fEntries s ! i in
          if fUpPtr e \<noteq> None \<and> in_use e then do {
            (_, s1) \<leftarrow> lift_up_rc (EsifUp_SuspendParticipant (fUpPtr e)) s;
            let s2 = set_entry i (fState_update (\<lambda>_. ESIF_PM_PARTICIPANT_STATE_REMOVED)) (s1\<lparr>fEntryCount := fEntryCount s1 - 1\<rparr>);
            (p, s3) \<leftarrow> take_ref (fUpPtr e) s2;
            (rc, s4) \<leftarrow> (if p \<noteq> None then EsifAppMgr_DestroyParticipantInAllApps env p s3 else Some (ESIF_OK, s3));
            s5 \<leftarrow> lift_up (EsifUp_PutRef p) s4;
            Some (rc, s5) }
          else Some (ESIF_OK, s)) }"

definition EsifUpPm_ResumeParticipant :: "pm_env \<Rightarrow> esif_handle_t \<Rightarrow> 'c EsifUppMgr \<Rightarrow> (esif_rc \<times> 'c EsifUppMgr) option" where
  "EsifUpPm_ResumeParticipant env upInstance s =
     (if EsifUpPm_IsPrimaryParticipantId upInstance then Some (ESIF_OK, s)
      else do {
        entry \<leftarrow> EsifUpPm_GetEntryByInstanceLocked upInstance s;
        (case entry of
           None \<Rightarrow> Some (ESIF_E_NOT_FOUND, s)
         | Some i \<Rightarrow>
             let e = fEntries s ! i in
             if fUpPtr e \<noteq> None \<and> state_num (fState e) < state_num ESIF_PM_PARTICIPANT_STATE_CREATED then do {
               (rc, s2) \<leftarrow> lift_up_rc (EsifUp_GetRef (fUpPtr e)) (enter_created i s);
               if rc \<noteq> ESIF_OK then Some (rc, s2)
               else do {
                 (_, s3) \<leftarrow> lift_up_rc (EsifUp_ResumeParticipant (fUpPtr e)) s2;
                 (rc1, s4) \<leftarrow> EsifAppMgr_CreateParticipantInAllApps env (fUpPtr e) s3;
                 s5 \<leftarrow> lift_up (EsifUp_PutRef (fUpPtr e)) s4;
                 Some (rc1, s5) } }
             else Some (ESIF_OK, s)) })"

text \<open>\<open>acpiDevice\<close> is compared as a prefix; the result is that of the reference to the last entry.\<close>

fun resume_by_type_loop :: "pm_env \<Rightarrow> u8 list \<Rightarrow> u32 \<Rightarrow> nat list \<Rightarrow> esif_rc \<Rightarrow> 'c EsifUppMgr \<Rightarrow> (esif_rc \<times> 'c EsifUppMgr) option" where
  "resume_by_type_loop env acpiDevice acpiType [] rc s = Some (rc, s)"
| "resume_by_type_loop env acpiDevice acpiType (i # is) _ s = do {
     let p = fUpPtr (fEntries s ! i);
     (rc, s1) \<leftarrow> lift_up_rc (EsifUp_GetRef p) s;
     let up = (if rc = ESIF_OK then p else None);
     u \<leftarrow> up_at up (pm_ups s1);
     s2 \<leftarrow> (case u of
        None \<Rightarrow> Some s1
      | Some x \<Rightarrow>
          if take (length acpiDevice) (fAcpiDevice (fMetadata x)) = acpiDevice \<and> fAcpiType (fMetadata x) = acpiType
          then map_option snd (EsifUpPm_ResumeParticipant env (fInstance x) s1) else Some s1);
     s3 \<leftarrow> lift_up (EsifUp_PutRef up) s2;
     resume_by_type_loop env acpiDevice acpiType is rc s3 }"

definition EsifUpPm_ResumeParticipantByType :: "pm_env \<Rightarrow> u8 list \<Rightarrow> u32 \<Rightarrow> 'c EsifUppMgr \<Rightarrow> (esif_rc \<times> 'c EsifUppMgr) option" where
  "EsifUpPm_ResumeParticipantByType env acpiDevice acpiType s =
     resume_by_type_loop env acpiDevice acpiType [1..<MAX_PARTICIPANT_ENTRY] ESIF_OK s"

fun resume_loop :: "pm_env \<Rightarrow> nat list \<Rightarrow> 'c EsifUppMgr \<Rightarrow> 'c EsifUppMgr option" where
  "resume_loop env [] s = Some s"
| "resume_loop env (i # is) s = do {
     u \<leftarrow> up_at (fUpPtr (fEntries s ! i)) (pm_ups s);
     s1 \<leftarrow> (case u of None \<Rightarrow> Some s | Some x \<Rightarrow> map_option snd (EsifUpPm_ResumeParticipant env (fInstance x) s));
     resume_loop env is s1 }"

definition EsifUpPm_ResumeParticipants :: "pm_env \<Rightarrow> 'c EsifUppMgr \<Rightarrow> (esif_rc \<times> 'c EsifUppMgr) option" where
  "EsifUpPm_ResumeParticipants env s = map_option (\<lambda>s1. (ESIF_OK, s1)) (resume_loop env [1..<MAX_PARTICIPANT_ENTRY] s)"

text \<open>The handle of the last dynamic participant found is kept from one entry to the next.\<close>

fun dynamic_loop :: "u32 \<Rightarrow> nat list \<Rightarrow> esif_handle_t \<Rightarrow> 'c EsifUppMgr \<Rightarrow> 'c EsifUppMgr option" where
  "dynamic_loop ty [] participantId s = Some s"
| "dynamic_loop ty (i # is) participantId s = do {
     u \<leftarrow> up_at (fUpPtr (fEntries s ! i)) (pm_ups s);
     let h = (case u of None \<Rightarrow> participantId
              | Some x \<Rightarrow> if fOrigin x = eParticipantOriginUF \<and> fEnumerator (fMetadata x) = ESIF_PARTICIPANT_ENUM_CONJURE
                          then fInstance x else participantId);
     dynamic_loop ty is h (if h \<noteq> ESIF_INVALID_HANDLE then pm_signal h ty s else s) }"

definition EsifUpPm_SuspendDynamicUfParticipants :: "'c EsifUppMgr \<Rightarrow> 'c EsifUppMgr option" where
  "EsifUpPm_SuspendDynamicUfParticipants = dynamic_loop ESIF_EVENT_PARTICIPANT_SUSPEND [1..<MAX_PARTICIPANT_ENTRY] ESIF_INVALID_HANDLE"

definition EsifUpPm_ResumeDynamicUfParticipants :: "'c EsifUppMgr \<Rightarrow> 'c EsifUppMgr option" where
  "EsifUpPm_ResumeDynamicUfParticipants = dynamic_loop ESIF_EVENT_PARTICIPANT_RESUME [1..<MAX_PARTICIPANT_ENTRY] ESIF_INVALID_HANDLE"

fun suspend_lf_loop :: "nat list \<Rightarrow> 'c EsifUppMgr \<Rightarrow> 'c EsifUppMgr option" where
  "suspend_lf_loop [] s = Some s"
| "suspend_lf_loop (i # is) s = do {
     u \<leftarrow> up_at (fUpPtr (fEntries s ! i)) (pm_ups s);
     let s1 = (case u of None \<Rightarrow> s
               | Some x \<Rightarrow> if fOrigin x = eParticipantOriginLF then pm_signal (fInstance x) ESIF_EVENT_PARTICIPANT_SUSPEND s else s);
     suspend_lf_loop is (if i = 0 then set_entry i (fState_update (\<lambda>_. ESIF_PM_PARTICIPANT_STATE_LF_REMOVED)) s1 else s1) }"

definition EsifUpPm_SuspendLfParticipants :: "'c EsifUppMgr \<Rightarrow> 'c EsifUppMgr option" where
  "EsifUpPm_SuspendLfParticipants = suspend_lf_loop [0..<MAX_PARTICIPANT_ENTRY]"

section \<open>Destruction\<close>

definition destroy_pm_entry :: "pm_env \<Rightarrow> u8 list option \<Rightarrow> nat \<Rightarrow> 'c EsifUppMgr \<Rightarrow> 'c EsifUppMgr option" where
  "destroy_pm_entry env participantName i s = do {
     u \<leftarrow> up_at (fUpPtr (fEntries s ! i)) (pm_ups s);
     (case u of
        None \<Rightarrow> Some s
      | Some x \<Rightarrow> do {
          let s1 = (if fEnumerator (fMetadata x) = ESIF_PARTICIPANT_ENUM_CONJURE \<and> EsifUp_GetLpInstance u \<noteq> ESIF_INSTANCE_INVALID
                    then snd (EsifUpPm_DestroyConjuredLfParticipant env participantName s) else s);
          (_, s2) \<leftarrow> EsifUpPm_SuspendParticipant env (fInstance x) s1;
          let s3 = pm_signal (fInstance x) ESIF_EVENT_PARTICIPANT_UNREGISTER_COMPLETE s2;
          let upPtr = fUpPtr (fEntries s3 ! i);
          lift_up (EsifUp_DestroyParticipant upPtr)
            (set_entry i (\<lambda>_. \<lparr>fState = ESIF_PM_PARTICIPANT_STATE_AVAILABLE, fUpPtr = None\<rparr>) s3) }) }"

definition to_destroy :: "u8 list option \<Rightarrow> 'c EsifUp option \<Rightarrow> bool" where
  "to_destroy participantName u \<longleftrightarrow> (case participantName of None \<Rightarrow> True
     | Some n \<Rightarrow> (case u of None \<Rightarrow> False | Some x \<Rightarrow> strcasecmp n (fName (fMetadata x)) = 0))"

fun destroy_up_loop :: "pm_env \<Rightarrow> u8 list option \<Rightarrow> nat list \<Rightarrow> esif_rc \<Rightarrow> 'c EsifUppMgr \<Rightarrow> (esif_rc \<times> 'c EsifUppMgr) option" where
  "destroy_up_loop env participantName [] rc s = Some (rc, s)"
| "destroy_up_loop env participantName (i # is) rc s = do {
     u \<leftarrow> up_at (fUpPtr (fEntries s ! i)) (pm_ups s);
     if to_destroy participantName u then do {
       s1 \<leftarrow> destroy_pm_entry env participantName i s;
       destroy_up_loop env participantName is ESIF_OK s1 }
     else destroy_up_loop env participantName is rc s }"

definition EsifUpPm_DestroyParticipant :: "pm_env \<Rightarrow> u8 list option \<Rightarrow> 'c EsifUppMgr \<Rightarrow> (esif_rc \<times> 'c EsifUppMgr) option" where
  "EsifUpPm_DestroyParticipant env participantName s =
     destroy_up_loop env participantName [0..<MAX_PARTICIPANT_ENTRY] ESIF_E_NOT_FOUND s"

definition EsifUpPm_DestroyParticipants :: "pm_env \<Rightarrow> 'c EsifUppMgr \<Rightarrow> (esif_rc \<times> 'c EsifUppMgr) option" where
  "EsifUpPm_DestroyParticipants env = EsifUpPm_DestroyParticipant env None"

definition EsifUpPm_DestroyParticipantByInstance :: "pm_env \<Rightarrow> esif_handle_t \<Rightarrow> 'c EsifUppMgr \<Rightarrow> (esif_rc \<times> 'c EsifUppMgr) option" where
  "EsifUpPm_DestroyParticipantByInstance env upInstance s = do {
     entry \<leftarrow> EsifUpPm_GetEntryByInstanceLocked upInstance s;
     (case entry of
        None \<Rightarrow> Some (ESIF_E_NOT_FOUND, s)
      | Some i \<Rightarrow> do {
          let p = fUpPtr (fEntries s ! i);
          (rc, s1) \<leftarrow> lift_up_rc (EsifUp_GetRef p) s;
          if rc \<noteq> ESIF_OK then Some (rc, s1)
          else do {
            u \<leftarrow> up_at p (pm_ups s1);
            let name = esif_ccb_strcpy ESIF_NAME_LEN (EsifUp_GetName u);
            s2 \<leftarrow> lift_up (EsifUp_PutRef p) s1;
            EsifUpPm_DestroyParticipant env (Some name) s2 } }) }"

section \<open>Iteration\<close>

record UfPmIterator =
  pmi_marked :: bool
  pmi_index :: u8
  pmi_ref_taken :: bool
  pmi_up :: "addr option"

definition EsifUpPm_InitIterator :: "UfPmIterator option \<Rightarrow> esif_rc \<times> UfPmIterator option" where
  "EsifUpPm_InitIterator it =
     (case it of None \<Rightarrow> (ESIF_E_PARAMETER_IS_NULL, None)
      | Some _ \<Rightarrow> (ESIF_OK, Some \<lparr>pmi_marked = True, pmi_index = 0, pmi_ref_taken = False, pmi_up = None\<rparr>))"

fun next_up_loop :: "nat list \<Rightarrow> 'c EsifUppMgr \<Rightarrow> ((nat \<times> addr) option \<times> 'c EsifUppMgr) option" where
  "next_up_loop [] s = Some (None, s)"
| "next_up_loop (i # is) s = do {
     (p, s1) \<leftarrow> EsifUpPm_GetAvailableParticipantByIndex (of_nat i) s;
     (case p of None \<Rightarrow> next_up_loop is s1 | Some a \<Rightarrow> Some (Some (i, a), s1)) }"

text \<open>The participant handed out is \<open>None\<close> also when the iterator is refused and the output is not written.\<close>

definition EsifUpPm_GetNextUp :: "UfPmIterator option \<Rightarrow> bool \<Rightarrow> 'c EsifUppMgr
    \<Rightarrow> (esif_rc \<times> UfPmIterator option \<times> addr option \<times> 'c EsifUppMgr) option" where
  "EsifUpPm_GetNextUp iter has_upPtr s =
     (case iter of
        None \<Rightarrow> Some (ESIF_E_PARAMETER_IS_NULL, None, None, s)
      | Some it \<Rightarrow>
          if \<not> has_upPtr then Some (ESIF_E_PARAMETER_IS_NULL, iter, None, s)
          else if \<not> pmi_marked it \<or> unat (pmi_index it) \<ge> MAX_PARTICIPANT_ENTRY then Some (ESIF_E_INVALID_HANDLE, iter, None, s)
          else do {
            (it1, s1) \<leftarrow> (if pmi_ref_taken it
               then map_option (\<lambda>s1. (it\<lparr>pmi_index := pmi_index it + 1, pmi_up := None, pmi_ref_taken := False\<rparr>, s1)) (lift_up (EsifUp_PutRef (pmi_up it)) s)
               else Some (it, s));
            (r, s2) \<leftarrow> next_up_loop [unat (pmi_index it1)..<MAX_PARTICIPANT_ENTRY] s1;
            (case r of
               None \<Rightarrow> Some (ESIF_E_ITERATION_DONE, Some it1, None, s2)
             | Some (i, a) \<Rightarrow> Some (ESIF_OK, Some (it1\<lparr>pmi_index := of_nat i, pmi_up := Some a, pmi_ref_taken := True\<rparr>), Some a, s2)) })"

text \<open>The loop of the operations over all participants; the operation runs on each one, and the last result is released.\<close>

partial_function (option) each_up_loop ::
    "(addr \<Rightarrow> 'c up_store \<Rightarrow> 'c up_store option) \<Rightarrow> UfPmIterator option \<Rightarrow> 'c EsifUppMgr \<Rightarrow> 'c EsifUppMgr option" where
  "each_up_loop f it s = do {
     (rc, it1, p, s1) \<leftarrow> EsifUpPm_GetNextUp it True s;
     if rc = ESIF_OK then
       (case p of None \<Rightarrow> each_up_loop f it1 s1
        | Some a \<Rightarrow> do { s2 \<leftarrow> lift_up (f a) s1; each_up_loop f it1 s2 })
     else lift_up (EsifUp_PutRef p) s1 }"

definition each_up :: "(addr \<Rightarrow> 'c up_store \<Rightarrow> 'c up_store option) \<Rightarrow> 'c EsifUppMgr \<Rightarrow> (esif_rc \<times> 'c EsifUppMgr) option" where
  "each_up f s = (case EsifUpPm_InitIterator (Some \<lparr>pmi_marked = False, pmi_index = 0, pmi_ref_taken = False, pmi_up = None\<rparr>) of
     (rc, it) \<Rightarrow> if rc = ESIF_OK then map_option (\<lambda>s1. (rc, s1)) (each_up_loop f it s) else Some (rc, s))"

definition EsifUpPm_StopAllParticipantsSlowPoll :: "pm_env \<Rightarrow> 'c EsifUppMgr \<Rightarrow> (esif_rc \<times> 'c EsifUppMgr) option" where
  "EsifUpPm_StopAllParticipantsSlowPoll env =
     each_up (\<lambda>a u. map_option snd (EsifUp_StopParticipantSlowPoll (up_env_of env) (Some a) u))"

text \<open>The polling of the upper framework: one round of the thread, and the registration of all participants.\<close>

fun by_index_loop :: "(addr \<Rightarrow> 'c up_store \<Rightarrow> 'c up_store option) \<Rightarrow> nat list \<Rightarrow> 'c EsifUppMgr \<Rightarrow> 'c EsifUppMgr option" where
  "by_index_loop f [] s = Some s"
| "by_index_loop f (i # is) s = do {
     (p, s1) \<leftarrow> EsifUpPm_GetAvailableParticipantByIndex (of_nat i) s;
     (case p of None \<Rightarrow> by_index_loop f is s1
      | Some a \<Rightarrow> do { s2 \<leftarrow> lift_up (f a) s1; s3 \<leftarrow> lift_up (EsifUp_PutRef (Some a)) s2; by_index_loop f is s3 }) }"

definition uf_poll_round :: "pm_env \<Rightarrow> 'c EsifUppMgr \<Rightarrow> 'c EsifUppMgr option" where
  "uf_poll_round env = by_index_loop (\<lambda>a. EsifUp_PollParticipant (up_env_of env) (Some a)) [0..<MAX_PARTICIPANT_ENTRY]"

definition uf_poll_register :: "'c EsifUppMgr \<Rightarrow> 'c EsifUppMgr option" where
  "uf_poll_register = by_index_loop (\<lambda>a. EsifUp_RegisterParticipantForPolling (Some a)) [0..<MAX_PARTICIPANT_ENTRY]"

definition uf_poll_unregister :: "'c EsifUppMgr \<Rightarrow> 'c EsifUppMgr option" where
  "uf_poll_unregister = by_index_loop (\<lambda>a. EsifUp_UnRegisterParticipantForPolling (Some a)) [0..<MAX_PARTICIPANT_ENTRY]"

section \<open>Events\<close>

abbreviation (input) ESIF_PARTICIPANT_VERSION :: u8 where "ESIF_PARTICIPANT_VERSION \<equiv> 5"
abbreviation (input) ESIF_EVENT_DATA_PARTICIPANT_CREATE_HDR_VERSION :: u8 where "ESIF_EVENT_DATA_PARTICIPANT_CREATE_HDR_VERSION \<equiv> 1"
abbreviation (input) ESIF_EVENT_ACTION_LOADED :: u32 where "ESIF_EVENT_ACTION_LOADED \<equiv> 78"
abbreviation (input) ESIF_EVENT_ACTION_UNLOADED :: u32 where "ESIF_EVENT_ACTION_UNLOADED \<equiv> 79"
abbreviation (input) ESIF_EVENT_DISPLAY_OFF :: u32 where "ESIF_EVENT_DISPLAY_OFF \<equiv> 161"
abbreviation (input) ESIF_EVENT_DISPLAY_ON :: u32 where "ESIF_EVENT_DISPLAY_ON \<equiv> 162"

definition ESIF_PARTICIPANT_CONJURE_CLASS_GUID :: "u8 list" where
  "ESIF_PARTICIPANT_CONJURE_CLASS_GUID =
     [0xe3, 0x78, 0x02, 0xdf, 0xdf, 0x3d, 0x46, 0xa7, 0xb9, 0x9b, 0x1f, 0x1c, 0x78, 0x5f, 0xd9, 0x1b]"

definition lp_zero :: esif_ipc_event_data_create_participant where
  "lp_zero = \<lparr>lp_id = 0, lp_version = 0, lp_class_guid = replicate 16 0, lp_enumerator = 0, lp_flags = 0, lp_name = [], lp_desc = [],
     lp_driver_name = [], lp_device_name = [], lp_device_path = [], lp_acpi_device = [], lp_acpi_scope = [], lp_acpi_uid = [],
     lp_acpi_type = 0, lp_pci_vendor = 0, lp_pci_device = 0, lp_pci_bus = 0, lp_pci_bus_device = 0, lp_pci_function = 0,
     lp_pci_revision = 0, lp_pci_class = 0, lp_pci_sub_class = 0, lp_pci_prog_if = 0\<rparr>"

text \<open>
  The request for a kernel participant. The allocation of the message is part of the answer of the
  lower framework. The scope is the text \<^verbatim>\<open>\_LP_.\<close> and the name.
\<close>

definition EsifUpPm_CreateLPfromUFMeta :: "pm_env \<Rightarrow> EsifParticipantIface option \<Rightarrow> 'c EsifUppMgr \<Rightarrow> (esif_rc \<times> 'c EsifUppMgr) option" where
  "EsifUpPm_CreateLPfromUFMeta env upDataPtr s =
     (case upDataPtr of None \<Rightarrow> Some (ESIF_E_PARAMETER_IS_NULL, s)
      | Some p \<Rightarrow> do {
          (b, s1) \<leftarrow> EsifUpPm_DoesAvailableParticipantExistByName (Some (pi_name p)) s;
          if b then Some (ESIF_E_MAXIMUM_CAPACITY_REACHED, s1)
          else
            let lp = lp_zero\<lparr>lp_version := ESIF_PARTICIPANT_VERSION, lp_enumerator := ESIF_PARTICIPANT_ENUM_CONJURE,
                   lp_class_guid := ESIF_PARTICIPANT_CONJURE_CLASS_GUID, lp_name := esif_ccb_strcpy ESIF_NAME_LEN (pi_name p),
                   lp_desc := esif_ccb_strcpy ESIF_DESC_LEN (pi_desc p), lp_acpi_device := esif_ccb_strcpy ESIF_SCOPE_LEN (pi_device_name p),
                   lp_acpi_scope := esif_ccb_strcpy ESIF_SCOPE_LEN ([0x5C, 0x5F, 0x4C, 0x50, 0x5F, 0x2E] @ pi_name p),
                   lp_acpi_type := pi_acpi_type p\<rparr> in
            Some (lf_create env (pm_calls s1) lp, pm_note (LfCreate lp) s1) })"

text \<open>The data of a creation event: its length suffices or not, the version of its header, and what it asks for.\<close>

datatype create_request = CreateLP esif_ipc_event_data_create_participant | CreateUP EsifParticipantIface
  | CreateUP_W_LP EsifParticipantIface | CreateOther

record create_data =
  cd_long_enough :: bool
  cd_version :: u8
  cd_request :: create_request

text \<open>
  The handler of events, for an event of type \<open>ty\<close> about participant \<open>upInstance\<close>. What it does when an action comes or
  goes and when the display goes off is a parameter.
\<close>

definition EsifUpPm_EventCallback ::
    "pm_env \<Rightarrow> (bool \<Rightarrow> 'c EsifUppMgr \<Rightarrow> 'c EsifUppMgr option) \<Rightarrow> ('c EsifUppMgr \<Rightarrow> 'c EsifUppMgr option)
     \<Rightarrow> esif_handle_t \<Rightarrow> u32 option \<Rightarrow> create_data option \<Rightarrow> 'c EsifUppMgr \<Rightarrow> (esif_rc \<times> 'c EsifUppMgr) option" where
  "EsifUpPm_EventCallback env on_action on_display_off upInstance event data s =
     (case event of None \<Rightarrow> Some (ESIF_E_PARAMETER_IS_NULL, s)
      | Some ty \<Rightarrow>
          if ty = ESIF_EVENT_PARTICIPANT_CREATE then
            (case data of None \<Rightarrow> Some (ESIF_E_PARAMETER_IS_NULL, s)
             | Some d \<Rightarrow>
                 if \<not> cd_long_enough d \<or> cd_version d \<noteq> ESIF_EVENT_DATA_PARTICIPANT_CREATE_HDR_VERSION
                 then Some (ESIF_E_PARAMETER_IS_OUT_OF_BOUNDS, s)
                 else (case cd_request d of
                     CreateLP lp \<Rightarrow> map_option (\<lambda>(rc, _, s1). (rc, s1)) (EsifUpPm_RegisterParticipant env (Some (OriginLF lp)) True s)
                   | CreateUP p \<Rightarrow> map_option (\<lambda>(rc, _, s1). (rc, s1)) (EsifUpPm_RegisterParticipant env (Some (OriginUF p)) True s)
                   | CreateUP_W_LP p \<Rightarrow> EsifUpPm_CreateLPfromUFMeta env (Some p) s
                   | CreateOther \<Rightarrow> Some (ESIF_E_NOT_SUPPORTED, s)))
          else if ty = ESIF_EVENT_PARTICIPANT_SUSPEND then
            (if upInstance \<noteq> ESIF_HANDLE_PRIMARY_PARTICIPANT then EsifUpPm_SuspendParticipant env upInstance s
             else map_option (Pair ESIF_OK) (EsifUpPm_SuspendDynamicUfParticipants s))
          else if ty = ESIF_EVENT_PARTICIPANT_RESUME then
            (if upInstance \<noteq> ESIF_HANDLE_PRIMARY_PARTICIPANT then EsifUpPm_ResumeParticipant env upInstance s
             else map_option (Pair ESIF_OK) (EsifUpPm_ResumeDynamicUfParticipants s))
          else if ty = ESIF_EVENT_PARTICIPANT_UNREGISTER then EsifUpPm_DestroyParticipantByInstance env upInstance s
          else if ty = ESIF_EVENT_LF_UNLOADED then map_option (Pair ESIF_OK) (EsifUpPm_SuspendLfParticipants s)
          else if ty = ESIF_EVENT_ACTION_LOADED then map_option (Pair ESIF_OK) (on_action True s)
          else if ty = ESIF_EVENT_ACTION_UNLOADED then map_option (Pair ESIF_OK) (on_action False s)
          else if ty = ESIF_EVENT_DISPLAY_OFF then map_option (Pair ESIF_OK) (on_display_off s)
          else if ty = ESIF_EVENT_DISPLAY_ON then map_option (\<lambda>(_, s1). (ESIF_OK, s1)) (EsifUpPm_StopAllParticipantsSlowPoll env s)
          else Some (ESIF_OK, s))"

end
