(* ===== verification/Part_Table.thy ===== *)
theory Part_Table
  imports Part_Mgr
begin

text \<open>
  The contract of the participant manager: a table of 32 slots, each free or with a state and a participant. The
  detailed state represents such a table when the entries point to distinct participants that nobody
  holds a reference to, when no other participant is in memory, and when the handles in the table are taken
  from the handle manager. Every operation then returns and does to the table what its contract says.
\<close>

section \<open>One participant in memory\<close>

text \<open>Everything of a participant but its domains, and a participant that nobody uses.\<close>

definition core :: "'c EsifUp \<Rightarrow> 'c EsifUp" where
  "core u = u\<lparr>domains := []\<rparr>"

definition idle :: "'c EsifUp \<Rightarrow> bool" where
  "idle c \<longleftrightarrow> up_refCount c = 1 \<and> \<not> up_markedForDelete c \<and> \<not> up_deleteEvent c \<and> unat (domainCount c) \<le> ESIF_DOMAIN_MAX"

lemma core_fields [simp]:
  "fInstance (core u) = fInstance u" "fLpInstance (core u) = fLpInstance u" "fLpAlias (core u) = fLpAlias u" "fDspPtr (core u) = fDspPtr u"
  "fMetadata (core u) = fMetadata u" "arbitrationContext (core u) = arbitrationContext u" "fOrigin (core u) = fOrigin u"
  "domainCount (core u) = domainCount u" "up_refCount (core u) = up_refCount u" "up_markedForDelete (core u) = up_markedForDelete u"
  "up_deleteEvent (core u) = up_deleteEvent u" "core (core u) = core u" "core (u\<lparr>domains := ds\<rparr>) = core u"
  "domains (core u) = []"
  by (simp_all add: core_def)

lemma core_upd [simp]:
  "core (u\<lparr>up_refCount := n\<rparr>) = (core u)\<lparr>up_refCount := n\<rparr>" "core (u\<lparr>fInstance := h\<rparr>) = (core u)\<lparr>fInstance := h\<rparr>"
  "core (u\<lparr>up_markedForDelete := b\<rparr>) = (core u)\<lparr>up_markedForDelete := b\<rparr>"
  "core (u\<lparr>up_deleteEvent := b\<rparr>) = (core u)\<lparr>up_deleteEvent := b\<rparr>"
  "core (u\<lparr>fLpInstance := l\<rparr>) = (core u)\<lparr>fLpInstance := l\<rparr>" "core (u\<lparr>fOrigin := og\<rparr>) = (core u)\<lparr>fOrigin := og\<rparr>"
  "core (u\<lparr>fDspPtr := d\<rparr>) = (core u)\<lparr>fDspPtr := d\<rparr>"
  by (simp_all add: core_def)

text \<open>\<open>s'\<close> is \<open>s\<close> except that the participant at \<open>a\<close> is now \<open>c\<close>; the records of calls may have grown.\<close>

definition at :: "addr \<Rightarrow> 'c up_store \<Rightarrow> 'c EsifUp \<Rightarrow> 'c up_store \<Rightarrow> bool" where
  "at a s c s' \<longleftrightarrow> (\<exists>u. up_mem s' = (up_mem s)(a \<mapsto> u) \<and> core u = c \<and> length (domains u) = ESIF_DOMAIN_MAX)
     \<and> up_alloc s' = up_alloc s"

lemma atE:
  assumes "at a s c s'"
  obtains u where "up_mem s' = (up_mem s)(a \<mapsto> u)" "up_mem s' a = Some u" "core u = c" "length (domains u) = ESIF_DOMAIN_MAX" "up_alloc s' = up_alloc s"
  using assms unfolding at_def by (metis fun_upd_same)

lemma atI:
  "up_mem s' = (up_mem s)(a \<mapsto> u) \<Longrightarrow> core u = c \<Longrightarrow> length (domains u) = ESIF_DOMAIN_MAX \<Longrightarrow> up_alloc s' = up_alloc s \<Longrightarrow> at a s c s'"
  by (auto simp: at_def)

lemma at_start: "up_mem s a = Some u \<Longrightarrow> length (domains u) = ESIF_DOMAIN_MAX \<Longrightarrow> at a s (core u) s"
  by (rule atI [where u = u]) (simp_all add: fun_upd_idem)

lemma at_read: "at a s c s' \<Longrightarrow> \<exists>u. up_at (Some a) s' = Some (Some u) \<and> core u = c"
  by (auto simp: at_def up_at_def)

lemma at_log:
  "at a s c (s'\<lparr>up_events := x\<rparr>) = at a s c s'" "at a s c (s'\<lparr>up_calls := y\<rparr>) = at a s c s'"
  by (simp_all add: at_def)

lemma at_get:
  assumes "at a s c s1" "\<not> up_markedForDelete c"
  shows "\<exists>s2. EsifUp_GetRef (Some a) s1 = Some (ESIF_OK, s2) \<and> at a s (c\<lparr>up_refCount := up_refCount c + 1\<rparr>) s2"
  using assms by (elim atE) (auto simp: at_def EsifUp_GetRef_def put_up_def)

lemma at_put:
  assumes "at a s c s1" "\<not> up_markedForDelete c"
  shows "\<exists>s2. EsifUp_PutRef (Some a) s1 = Some s2 \<and> at a s (c\<lparr>up_refCount := up_refCount c - 1\<rparr>) s2"
proof -
  obtain u where u: "up_mem s1 = (up_mem s)(a \<mapsto> u)" "up_mem s1 a = Some u" "core u = c" "length (domains u) = ESIF_DOMAIN_MAX" "up_alloc s1 = up_alloc s"
    using assms(1) by (rule atE)
  have "\<not> up_markedForDelete u" using assms(2) u(3) by auto
  then have "EsifUp_PutRef (Some a) s1 = Some (put_up a (u\<lparr>up_refCount := up_refCount u - 1\<rparr>) s1)" using get_put_ref(2) [OF u(2)] by simp
  moreover have "at a s (c\<lparr>up_refCount := up_refCount c - 1\<rparr>) (put_up a (u\<lparr>up_refCount := up_refCount u - 1\<rparr>) s1)"
    using u by (intro atI [where u = "u\<lparr>up_refCount := up_refCount u - 1\<rparr>"]) auto
  ultimately show ?thesis by blast
qed

text \<open>A participant in use may be held once more.\<close>

definition usable :: "'c EsifUp \<Rightarrow> bool" where
  "usable c \<longleftrightarrow> \<not> up_markedForDelete c \<and> \<not> up_deleteEvent c \<and> 0 < up_refCount c \<and> up_refCount c \<noteq> -1 \<and> unat (domainCount c) \<le> ESIF_DOMAIN_MAX"

lemma idle_usable: "idle c \<Longrightarrow> usable c" "idle c \<Longrightarrow> usable (c\<lparr>up_refCount := up_refCount c + 1\<rparr>)"
  by (simp_all add: idle_def usable_def)

lemma at_each_domain:
  assumes "at a s c s1" "usable c"
  shows "\<exists>s2. each_domain f (Some a) s1 = Some (ESIF_OK, s2) \<and> at a s c s2"
proof -
  obtain u where u: "up_mem s1 = (up_mem s)(a \<mapsto> u)" "up_mem s1 a = Some u" "core u = c" "length (domains u) = ESIF_DOMAIN_MAX" "up_alloc s1 = up_alloc s"
    using assms(1) by (rule atE)
  have ok: "up_ok u" using assms(2) u(3,4) by (auto simp: up_ok_def usable_def)
  from domains_visited [OF u(2) ok, of f] obtain ds calls evs where
    r: "run_domains f (take (unat (domainCount u)) (domains u)) (up_calls s1, up_events s1) = (ds, calls, evs)"
    "each_domain f (Some a) s1 = Some (ESIF_OK, (put_up a (u\<lparr>domains := ds @ drop (unat (domainCount u)) (domains u)\<rparr>) s1)\<lparr>up_calls := calls, up_events := evs\<rparr>)"
    by blast
  have "length ds = unat (domainCount u)" using run_domains_length [of f "take (unat (domainCount u)) (domains u)" "(up_calls s1, up_events s1)"]
      r(1) ok by (simp add: up_ok_def)
  then show ?thesis using r(2) u ok by (auto simp: at_def up_ok_def)
qed

lemma at_set_instance:
  assumes "at a s c s1" "usable c"
  shows "\<exists>s2. EsifUp_SetInstance (Some a) h s1 = Some s2 \<and> at a s (c\<lparr>fInstance := h\<rparr>) s2"
proof -
  obtain u where u: "up_mem s1 a = Some u" "core u = c" using assms(1) by (rule atE)
  have "at a s (c\<lparr>fInstance := h\<rparr>) (put_up a (u\<lparr>fInstance := h\<rparr>) s1)"
    using assms(1) u by (elim atE) (auto simp: at_def put_up_def)
  moreover have "usable (c\<lparr>fInstance := h\<rparr>)" using assms(2) by (simp add: usable_def)
  ultimately show ?thesis using at_each_domain [of a s "c\<lparr>fInstance := h\<rparr>" _ "EsifUpDomain_SetUpId h"] u(1)
    by (fastforce simp: EsifUp_SetInstance_def)
qed

lemma at_on_domain:
  assumes "at a s c s1" "j < ESIF_DOMAIN_MAX"
  shows "\<exists>s2. on_domain f a j s1 = Some s2 \<and> at a s c s2"
proof -
  obtain u where u: "up_mem s1 = (up_mem s)(a \<mapsto> u)" "up_mem s1 a = Some u" "core u = c" "length (domains u) = ESIF_DOMAIN_MAX" "up_alloc s1 = up_alloc s"
    using assms(1) by (rule atE)
  then show ?thesis using assms(2)
    by (auto simp: on_domain_def Let_def intro!: atI [where u = "u\<lparr>domains := (domains u)[j := d]\<rparr>" for d])
qed

lemma at_ready_domains:
  assumes "at a s c s1" "usable c"
  shows "\<exists>s2. ready_domains env a is s1 = Some s2 \<and> at a s c s2"
  using assms(1)
proof (induction "is" arbitrary: s1)
  case Nil
  then show ?case by simp
next
  case (Cons i "is")
  obtain u where u: "up_mem s1 a = Some u" "core u = c" using Cons.prems by (rule atE)
  have "\<exists>s2. (case EsifUp_GetDomainById u (ud_domain (domains u ! i)) of None \<Rightarrow> Some s1
      | Some j \<Rightarrow> on_domain (\<lambda>d. snd (EsifUpDomain_DspReadyInit env d)) a j s1) = Some s2 \<and> at a s c s2"
  proof (cases "EsifUp_GetDomainById u (ud_domain (domains u ! i))")
    case None
    then show ?thesis using Cons.prems by simp
  next
    case (Some j)
    then have "j < unat (domainCount u)"
      by (auto simp: EsifUp_GetDomainById_def word_le_nat_alt split: prod.splits option.splits if_splits)
    moreover have "unat (domainCount u) \<le> ESIF_DOMAIN_MAX" using assms(2) u(2) by (auto simp: usable_def)
    ultimately show ?thesis using Some at_on_domain [OF Cons.prems, of j] by simp
  qed
  then show ?case using u(1) Cons.IH by fastforce
qed

lemma at_set_storage: "at a s c (set_storage d prim v s1) = at a s c s1"
  by (simp add: set_storage_def Let_def at_log)

lemma at_ready_init:
  assumes "at a s c s1" "usable c"
  shows "\<exists>s2. EsifUp_DspReadyInit env (Some a) s1 = Some (ESIF_OK, s2) \<and> at a s c s2"
proof -
  obtain u where u: "up_mem s1 a = Some u" using assms(1) by (rule atE)
  let ?d = "device_of env a" and ?m = "fMetadata u"
  let ?s = "if fAcpiType ?m = ESIF_DOMAIN_TYPE_NVME \<and> bit (fFlags ?m) ESIF_FLAG_AUTO_ENUMERATED
    then set_storage ?d SET_PARTICIPANT_TYPE (fAcpiType ?m)
           (set_storage ?d SET_STORAGE_BUS_CONTROLLER_LOCATION (fScbl ?m) (set_storage ?d SET_PORT (fPort ?m) s1)) else s1"
  have "at a s c ?s" using assms(1) by (simp add: at_set_storage)
  from at_ready_domains [OF this assms(2)] obtain s2 where
    "ready_domains ?d a [0..<unat (domainCount u)] ?s = Some s2" "at a s c s2" by blast
  then show ?thesis using u by (simp add: EsifUp_DspReadyInit_def Let_def)
qed

text \<open>The re-initialisation of a participant changes its package, origin and kernel number, and no domain.\<close>

definition reinit :: "up_env \<Rightarrow> up_metadata \<Rightarrow> 'c EsifUp \<Rightarrow> esif_rc \<times> 'c EsifUp" where
  "reinit env meta u = (case meta of OriginLF lp \<Rightarrow> EsifUp_ReInitializeParticipantByLpEventData env lp u
     | OriginUF _ \<Rightarrow> EsifUp_ReInitializeParticipantByUpInterface env u)"

lemmas reinit_defs = reinit_def EsifUp_ReInitializeParticipantByLpEventData_def EsifUp_ReInitializeParticipantByUpInterface_def
  EsifUp_SelectDspByLpEventData_def EsifUp_SelectDspByUpInterface_def EsifUp_SelectDsp_def find_dsp_def

lemma reinit_core: "reinit env meta (core u) = (fst (reinit env meta u), core (snd (reinit env meta u)))"
  by (simp add: reinit_defs Let_def split: up_metadata.splits option.splits)

lemma reinit_keeps:
  "fInstance (snd (reinit env meta u)) = fInstance u" "up_refCount (snd (reinit env meta u)) = up_refCount u"
  "up_markedForDelete (snd (reinit env meta u)) = up_markedForDelete u" "up_deleteEvent (snd (reinit env meta u)) = up_deleteEvent u"
  "domainCount (snd (reinit env meta u)) = domainCount u" "fMetadata (snd (reinit env meta u)) = fMetadata u"
  "domains (snd (reinit env meta u)) = domains u"
  by (simp_all add: reinit_defs Let_def split: up_metadata.splits option.splits)

lemma at_reinit:
  assumes "at a s c s1"
  shows "\<exists>s2. EsifUp_ReInitializeParticipant env (Some a) meta s1 = Some (fst (reinit env meta c), s2) \<and> at a s (snd (reinit env meta c)) s2"
proof -
  obtain u where u: "up_mem s1 = (up_mem s)(a \<mapsto> u)" "up_mem s1 a = Some u" "core u = c" "length (domains u) = ESIF_DOMAIN_MAX" "up_alloc s1 = up_alloc s"
    using assms(1) by (rule atE)
  have "EsifUp_ReInitializeParticipant env (Some a) meta s1 = Some (fst (reinit env meta u), put_up a (snd (reinit env meta u)) s1)"
    using u(2) by (simp add: EsifUp_ReInitializeParticipant_def reinit_def case_prod_beta)
  moreover have "at a s (snd (reinit env meta c)) (put_up a (snd (reinit env meta u)) s1)"
    using u reinit_core [of env meta u] by (intro atI [where u = "snd (reinit env meta u)"]) (auto simp: reinit_keeps)
  moreover have "fst (reinit env meta c) = fst (reinit env meta u)" using reinit_core [of env meta u] u(3) by simp
  ultimately show ?thesis by simp
qed

section \<open>Creation and destruction\<close>

lemma at_uninit:
  assumes "at a s c s1" "set is \<subseteq> {..<ESIF_DOMAIN_MAX}"
  shows "\<exists>s2. uninit_loop a is s1 = Some s2 \<and> at a s c s2"
  using assms
proof (induction "is" arbitrary: s1)
  case (Cons i "is")
  obtain u where u: "up_mem s1 = (up_mem s)(a \<mapsto> u)" "up_mem s1 a = Some u" "core u = c" "length (domains u) = ESIF_DOMAIN_MAX" "up_alloc s1 = up_alloc s"
    using Cons.prems(1) by (rule atE)
  with Cons.prems(2) have "\<exists>s2. on_domain (\<lambda>d. d\<lparr>ud := EsifUpDomain_UnInitDomain (ud d)\<rparr>) a i s1 = Some s2 \<and> at a s c s2"
    by (auto simp: on_domain_def Let_def intro!: atI [where u = "u\<lparr>domains := (domains u)[i := d]\<rparr>" for d])
  then obtain s2 where s2: "on_domain (\<lambda>d. d\<lparr>ud := EsifUpDomain_UnInitDomain (ud d)\<rparr>) a i s1 = Some s2" "at a s c s2" by blast
  from Cons.IH [OF s2(2)] Cons.prems(2) s2(1) show ?case by simp
qed simp

lemma destroy_idle:
  assumes "at a s c s1" "idle c"
  shows "\<exists>s2. EsifUp_DestroyParticipant (Some a) s1 = Some s2 \<and> up_mem s2 = (up_mem s)(a := None) \<and> up_alloc s2 = up_alloc s"
proof -
  obtain u where u: "up_mem s1 = (up_mem s)(a \<mapsto> u)" "up_mem s1 a = Some u" "core u = c" "length (domains u) = ESIF_DOMAIN_MAX" "up_alloc s1 = up_alloc s"
    using assms(1) by (rule atE)
  let ?u = "u\<lparr>up_markedForDelete := True, up_refCount := 0, up_deleteEvent := True\<rparr>"
  have c: "up_refCount u = 1" "\<not> up_deleteEvent u" "unat (domainCount u) \<le> ESIF_DOMAIN_MAX" using assms(2) u(3) by (auto simp: idle_def)
  then have b: "begin_destroy a s1 = Some (put_up a ?u s1)" using u(2) by (simp add: begin_destroy_def EsifUp_PutRef_def Let_def)
  have "at a s (core ?u) (put_up a ?u s1)" using u by (intro atI [where u = ?u]) auto
  then obtain s2 where s2: "uninit_loop a [0..<unat (domainCount u)] (put_up a ?u s1) = Some s2" "at a s (core ?u) s2"
    using at_uninit [of a s "core ?u" "put_up a ?u s1" "[0..<unat (domainCount u)]"] c(3) by (auto simp: subset_iff)
  obtain v where v: "up_mem s2 = (up_mem s)(a \<mapsto> v)" "core v = core ?u" "up_alloc s2 = up_alloc s" using s2(2) by (rule atE)
  have "up_deleteEvent v" using arg_cong [OF v(2), of up_deleteEvent] by simp
  then have e: "end_destroy a s2 = Some (s2\<lparr>ctx_destroyed := ctx_destroyed s2 @ [arbitrationContext v], up_mem := (up_mem s2)(a := None)\<rparr>)"
    using v(1) by (simp add: end_destroy_def)
  have "uninit_domains a (put_up a ?u s1) = Some s2" using s2(1) by (simp add: uninit_domains_def)
  then show ?thesis using b e v by (auto simp: EsifUp_DestroyParticipant_def)
qed

text \<open>The packages that are found have room in the table of domains.\<close>

definition packages_ok :: "pm_env \<Rightarrow> bool" where
  "packages_ok env \<longleftrightarrow> (\<forall>code p. esif_uf_dm_select_dsp_by_code env code = Some p \<longrightarrow> length (dsp_domains p) \<le> ESIF_DOMAIN_MAX)"

definition room :: "EsifDsp option \<Rightarrow> bool" where
  "room d \<longleftrightarrow> (case d of None \<Rightarrow> True | Some p \<Rightarrow> length (dsp_domains p) \<le> ESIF_DOMAIN_MAX)"

text \<open>What is known of a participant made from metadata.\<close>

definition made_from :: "up_metadata \<Rightarrow> 'c EsifUp \<Rightarrow> bool" where
  "made_from meta c \<longleftrightarrow> idle c \<and> (case meta of
     OriginLF lp \<Rightarrow> fOrigin c = eParticipantOriginLF \<and> fMetadata c = lf_metadata lp
   | OriginUF p \<Rightarrow> fOrigin c = eParticipantOriginUF \<and> fMetadata c = uf_metadata p \<and> fLpInstance c = ESIF_INSTANCE_INVALID)"

definition fresh_mem :: "'c up_store \<Rightarrow> bool" where
  "fresh_mem s \<longleftrightarrow> (\<forall>a\<in>dom (up_mem s). a < next_addr (up_alloc s))"

lemma fresh_mem_cong: "up_mem s' = up_mem s \<Longrightarrow> up_alloc s' = up_alloc s \<Longrightarrow> fresh_mem s' = fresh_mem s"
  by (simp add: fresh_mem_def)

lemma init_domains_ok:
  assumes "room (fDspPtr u)" "length (domains u) = ESIF_DOMAIN_MAX"
  shows "\<exists>rc ds n. EsifUp_InitDomains u = Some (rc, u\<lparr>domainCount := n, domains := ds\<rparr>) \<and> length ds = ESIF_DOMAIN_MAX
    \<and> (n = domainCount u \<or> unat n \<le> ESIF_DOMAIN_MAX) \<and> (rc = ESIF_OK \<longleftrightarrow> fDspPtr u \<noteq> None)"
proof (cases "fDspPtr u")
  case None
  then show ?thesis using assms(2)
    by (intro exI [of _ ESIF_E_PARAMETER_IS_NULL] exI [of _ "domains u"] exI [of _ "domainCount u"]) (simp add: EsifUp_InitDomains_def)
next
  case (Some p)
  then have n: "length (dsp_domains p) \<le> ESIF_DOMAIN_MAX" using assms(1) by (simp add: room_def)
  then have "unat (of_nat (length (dsp_domains p)) :: u8) \<le> ESIF_DOMAIN_MAX" by (simp add: unat_of_nat)
  then show ?thesis using Some n assms(2)
    by (intro exI [of _ ESIF_OK] exI [of _ "map2 EsifUpDomain_InitDomain (dsp_domains p) (take (length (dsp_domains p)) (domains u)) @ drop (length (dsp_domains p)) (domains u)"]
        exI [of _ "of_nat (length (dsp_domains p))"]) (simp add: EsifUp_InitDomains_def Let_def)
qed

text \<open>The choice of a package sets the package and nothing else.\<close>

definition picks :: "('c EsifUp \<Rightarrow> esif_rc \<times> 'c EsifUp) \<Rightarrow> bool" where
  "picks pick \<longleftrightarrow> (\<forall>u. fDspPtr u = None \<longrightarrow> (\<exists>rc d. pick u = (rc, u\<lparr>fDspPtr := d\<rparr>)
     \<and> room d \<and> (rc = ESIF_OK \<longrightarrow> d \<noteq> None)))"

lemma find_dsp_picks: "packages_ok env \<Longrightarrow> picks (find_dsp (up_env_of env) code)"
  unfolding picks_def
  by (intro allI impI exI [of _ "fst (find_dsp (up_env_of env) code u)" for u] exI [of _ "esif_uf_dm_select_dsp_by_code env code"])
    (auto simp: find_dsp_def packages_ok_def room_def Let_def up_env.truncate_def split: option.splits)

lemma unchanged_picks: "fDspPtr u = None \<Longrightarrow> \<exists>d. u = u\<lparr>fDspPtr := d\<rparr> \<and> room d"
  by (intro exI [of _ None]) (simp add: room_def)

lemma select_picks:
  assumes "packages_ok env"
  shows "picks (EsifUp_SelectDspByLpEventData (up_env_of env) lp)" "picks (EsifUp_SelectDspByUpInterface (up_env_of env))"
proof -
  note f = find_dsp_picks [OF assms, unfolded picks_def, rule_format]
  show "picks (EsifUp_SelectDspByLpEventData (up_env_of env) lp)"
    unfolding picks_def EsifUp_SelectDspByLpEventData_def Let_def using f unchanged_picks by (auto split: option.split)
  show "picks (EsifUp_SelectDspByUpInterface (up_env_of env))"
    unfolding picks_def EsifUp_SelectDspByUpInterface_def using f unchanged_picks by (auto split: option.split)
qed

lemma finish_create_ok:
  assumes "picks pick" "fDspPtr u = None" "idle u" "length (domains u) = ESIF_DOMAIN_MAX" "up_mem s a = None"
  shows "\<exists>rc p s'. finish_create pick u a s = Some (rc, p, s') \<and> up_alloc s' = up_alloc s
    \<and> (if rc = ESIF_OK then p = Some a \<and> (\<exists>d n ds. at a s (core (u\<lparr>fDspPtr := d, domainCount := n, domains := ds\<rparr>)) s' \<and> unat n \<le> ESIF_DOMAIN_MAX)
       else p = None \<and> up_mem s' = up_mem s)
    \<and> (rc = ESIF_OK \<longleftrightarrow> fst (pick u) = ESIF_OK)"
proof -
  from assms(1,2) obtain rc0 d where p: "pick u = (rc0, u\<lparr>fDspPtr := d\<rparr>)"
    "room d" "rc0 = ESIF_OK \<longrightarrow> d \<noteq> None" unfolding picks_def by blast
  from init_domains_ok [of "u\<lparr>fDspPtr := d\<rparr>"] p(2) assms(4) obtain rc1 ds n where
    i: "EsifUp_InitDomains (u\<lparr>fDspPtr := d\<rparr>) = Some (rc1, u\<lparr>fDspPtr := d, domainCount := n, domains := ds\<rparr>)"
      "length ds = ESIF_DOMAIN_MAX" "n = domainCount u \<or> unat n \<le> ESIF_DOMAIN_MAX" "rc1 = ESIF_OK \<longleftrightarrow> d \<noteq> None" by auto
  have n: "unat n \<le> ESIF_DOMAIN_MAX" using i(3) assms(3) by (auto simp: idle_def)
  let ?u1 = "if rc0 \<noteq> ESIF_OK then u\<lparr>fDspPtr := d\<rparr> else u\<lparr>fDspPtr := d, domainCount := n, domains := ds\<rparr>"
  let ?rc = "if rc0 \<noteq> ESIF_OK then rc0 else rc1"
  have r: "(case pick u of (rc, u0) \<Rightarrow> if rc \<noteq> ESIF_OK then Some (rc, u0) else EsifUp_InitDomains u0) = Some (?rc, ?u1)"
    using p(1) i(1) by simp
  have a: "at a s (core ?u1) (put_up a ?u1 s)"
    by (rule atI [where u = ?u1]) (simp_all add: i(2) assms(4))
  have "idle (core ?u1)" using assms(3) n by (simp add: idle_def)
  from destroy_idle [OF a this] obtain s2 where d2: "EsifUp_DestroyParticipant (Some a) (put_up a ?u1 s) = Some s2"
    "up_mem s2 = (up_mem s)(a := None)" "up_alloc s2 = up_alloc s" by blast
  have m: "(up_mem s)(a := None) = up_mem s" using assms(5) by auto
  show ?thesis
  proof (cases "?rc = ESIF_OK")
    case True
    then have "rc0 = ESIF_OK" "rc1 = ESIF_OK" by (auto split: if_splits)
    then show ?thesis using r a n p(1) by (auto simp: finish_create_def at_def)
  next
    case False
    then show ?thesis using r d2 m p(1,3) i(4) by (auto simp: finish_create_def split: if_splits)
  qed
qed

text \<open>The package for the metadata is chosen, delivered and found; this does not depend on the state.\<close>

definition package_ready :: "up_env \<Rightarrow> up_metadata \<Rightarrow> bool" where
  "package_ready env meta \<longleftrightarrow>
     (let m = (case meta of OriginLF lp \<Rightarrow> lf_metadata lp | OriginUF p \<Rightarrow> uf_metadata p) in
      case EsifDspMgr_SelectDsp env \<lparr>q_vendorId = fPciVendor m, q_deviceId = fPciDevice m, q_enumerator = fEnumerator m,
          q_hid = fAcpiDevice m, q_uid = fAcpiUID m, q_ptype = fAcpiType m, q_participantName = fName m\<rparr> of
        None \<Rightarrow> False
      | Some name \<Rightarrow> (case meta of OriginLF lp \<Rightarrow> esif_send_dsp env name (lp_id lp) \<in> {ESIF_OK, ESIF_E_DSP_ALREADY_LOADED} | OriginUF _ \<Rightarrow> True)
          \<and> esif_uf_dm_select_dsp_by_code env name \<noteq> None)"

lemma select_ready:
  "fMetadata u = lf_metadata lp \<Longrightarrow> fst (EsifUp_SelectDspByLpEventData env lp u) = ESIF_OK \<longleftrightarrow> package_ready env (OriginLF lp)"
  "fMetadata u = uf_metadata p \<Longrightarrow> fst (EsifUp_SelectDspByUpInterface env u) = ESIF_OK \<longleftrightarrow> package_ready env (OriginUF p)"
  by (auto simp: EsifUp_SelectDspByLpEventData_def EsifUp_SelectDspByUpInterface_def EsifUp_SelectDsp_def package_ready_def find_dsp_def
      Let_def split: option.splits)

lemma create_up_spec:
  assumes "packages_ok env" "fresh_mem s"
  shows "\<exists>rc p s'. EsifUp_CreateParticipant (up_env_of env) meta s = Some (rc, p, s') \<and> fresh_mem s'
    \<and> alloc_ok (up_alloc s') = alloc_ok (up_alloc s)
    \<and> (rc = ESIF_OK \<longleftrightarrow> alloc_ok (up_alloc s) (next_addr (up_alloc s)) \<and> package_ready (up_env_of env) meta)
    \<and> (if rc = ESIF_OK then (\<exists>a s0 c. p = Some a \<and> up_mem s a = None \<and> up_mem s0 = up_mem s \<and> up_alloc s0 = up_alloc s' \<and> at a s0 c s' \<and> made_from meta c)
       else p = None \<and> up_mem s' = up_mem s)"
proof (cases "alloc_ok (up_alloc s) (next_addr (up_alloc s))")
  case False
  then show ?thesis using assms(2)
    by (intro exI [of _ ESIF_E_NO_MEMORY] exI [of _ None] exI [of _ "s\<lparr>up_alloc := (up_alloc s)\<lparr>next_addr := Suc (next_addr (up_alloc s))\<rparr>\<rparr>"])
      (auto simp: EsifUp_CreateParticipant_def EsifUp_CreateParticipantByLpEventData_def EsifUp_CreateParticipantByUpInterface_def
        esif_ccb_malloc_def fresh_mem_def less_Suc_eq split: up_metadata.splits)
next
  case True
  let ?a = "next_addr (up_alloc s)" and ?s = "s\<lparr>up_alloc := (up_alloc s)\<lparr>next_addr := Suc (next_addr (up_alloc s))\<rparr>\<rparr>"
  obtain pick u where pu: "EsifUp_CreateParticipant (up_env_of env) meta s = finish_create pick u ?a ?s" "picks pick" "fDspPtr u = None"
      "idle u" "length (domains u) = ESIF_DOMAIN_MAX" "\<And>d n ds. unat n \<le> ESIF_DOMAIN_MAX \<Longrightarrow> made_from meta (core (u\<lparr>fDspPtr := d, domainCount := n, domains := ds\<rparr>))"
      "fst (pick u) = ESIF_OK \<longleftrightarrow> package_ready (up_env_of env) meta"
  proof (cases meta)
    case (OriginLF lp)
    let ?u = "(EsifUp_new eParticipantOriginLF)\<lparr>fMetadata := lf_metadata lp\<rparr>"
    let ?u1 = "if bit (lp_flags lp) ESIF_FLAG_DPTFZ then ?u\<lparr>fLpInstance := ESIF_INSTANCE_LF, fLpAlias := lp_id lp\<rparr> else ?u\<lparr>fLpInstance := lp_id lp\<rparr>"
    show thesis
      by (rule that [of "EsifUp_SelectDspByLpEventData (up_env_of env) lp" ?u1])
        (use True OriginLF in \<open>simp_all add: EsifUp_CreateParticipant_def EsifUp_CreateParticipantByLpEventData_def esif_ccb_malloc_def Let_def
          select_picks(1) [OF assms(1)] EsifUp_new_def idle_def made_from_def select_ready\<close>)
  next
    case (OriginUF p)
    show thesis
      by (rule that [of "EsifUp_SelectDspByUpInterface (up_env_of env)" "(EsifUp_new eParticipantOriginUF)\<lparr>fMetadata := uf_metadata p, fLpInstance := ESIF_INSTANCE_INVALID\<rparr>"])
        (use True OriginUF in \<open>simp_all add: EsifUp_CreateParticipant_def EsifUp_CreateParticipantByUpInterface_def esif_ccb_malloc_def
          select_picks(2) [OF assms(1)] EsifUp_new_def idle_def made_from_def select_ready\<close>)
  qed
  have n: "up_mem s ?a = None" using assms(2) by (auto simp: fresh_mem_def)
  from finish_create_ok [OF pu(2-5), of ?s ?a] n obtain rc p s' where
    f: "finish_create pick u ?a ?s = Some (rc, p, s')" "up_alloc s' = up_alloc ?s"
      "if rc = ESIF_OK then p = Some ?a \<and> (\<exists>d n ds. at ?a ?s (core (u\<lparr>fDspPtr := d, domainCount := n, domains := ds\<rparr>)) s' \<and> unat n \<le> ESIF_DOMAIN_MAX)
       else p = None \<and> up_mem s' = up_mem ?s" "rc = ESIF_OK \<longleftrightarrow> fst (pick u) = ESIF_OK" by auto
  have fr: "fresh_mem ?s" using assms(2) by (simp add: fresh_mem_def less_SucI)
  show ?thesis
  proof (cases "rc = ESIF_OK")
    case True
    then obtain d n ds where a: "p = Some ?a" "at ?a ?s (core (u\<lparr>fDspPtr := d, domainCount := n, domains := ds\<rparr>)) s'" "unat n \<le> ESIF_DOMAIN_MAX"
      using f(3) by auto
    moreover have "fresh_mem s'" using a(2) fr by (elim atE) (auto simp: fresh_mem_def)
    ultimately show ?thesis using True f(1,2,4) pu(1,7) pu(6) [OF a(3)] n \<open>alloc_ok (up_alloc s) ?a\<close>
      by (intro exI [of _ rc] exI [of _ p] exI [of _ s'] conjI) (auto intro!: exI [of _ ?s])
  next
    case False
    then have "fresh_mem s'" using f(2,3) fr fresh_mem_cong [of s' ?s] by simp
    then show ?thesis using False f pu(1,7) by simp
  qed
qed

section \<open>The table\<close>

type_synonym 'c slot = "(esif_pm_participant_state \<times> 'c EsifUp) option"

definition slot_rep :: "'c up_store \<Rightarrow> EsifUpManagerEntry \<Rightarrow> 'c slot \<Rightarrow> bool" where
  "slot_rep ups e x \<longleftrightarrow> (case x of
     None \<Rightarrow> fState e = ESIF_PM_PARTICIPANT_STATE_AVAILABLE \<and> fUpPtr e = None
   | Some (st, c) \<Rightarrow> fState e = st \<and> (\<exists>a u. fUpPtr e = Some a \<and> up_mem ups a = Some u \<and> core u = c \<and> length (domains u) = ESIF_DOMAIN_MAX))"

text \<open>
  A table is well formed when its participants are idle, when the first slot and no other has the handle of
  the primary participant, and when the other handles come from different slots of the handle manager.
\<close>

definition slot_wf :: "nat \<Rightarrow> 'c slot \<Rightarrow> bool" where
  "slot_wf i x \<longleftrightarrow> (case x of None \<Rightarrow> True
   | Some (st, c) \<Rightarrow> idle c \<and> st \<noteq> ESIF_PM_PARTICIPANT_STATE_AVAILABLE
       \<and> (if i = 0 then fInstance c = ESIF_HANDLE_PRIMARY_PARTICIPANT
          else \<not> EsifHandleMgr_IsReservedHandle (fInstance c) \<and> st \<noteq> ESIF_PM_PARTICIPANT_STATE_LF_REMOVED))"

definition slot_handle :: "'c slot \<Rightarrow> esif_handle_t option" where
  "slot_handle x = map_option (\<lambda>(_, c). fInstance c) x"

definition table_wf :: "'c slot list \<Rightarrow> bool" where
  "table_wf T \<longleftrightarrow> length T = MAX_PARTICIPANT_ENTRY \<and> (\<forall>i<MAX_PARTICIPANT_ENTRY. slot_wf i (T ! i))
     \<and> (\<forall>i<MAX_PARTICIPANT_ENTRY. \<forall>j<MAX_PARTICIPANT_ENTRY. \<forall>h k. i \<noteq> 0 \<longrightarrow> j \<noteq> 0 \<longrightarrow> i \<noteq> j \<longrightarrow> slot_handle (T ! i) = Some h \<longrightarrow> slot_handle (T ! j) = Some k
          \<longrightarrow> slot h \<noteq> slot k)"

text \<open>The handles of the table are taken in the handle manager.\<close>

definition handles_taken :: "EsifHandleMgr option \<Rightarrow> 'c slot list \<Rightarrow> bool" where
  "handles_taken hm T \<longleftrightarrow> (\<exists>m. hm = Some m \<and> mgr_ok m \<and> avail_ok m
     \<and> (\<forall>i<MAX_PARTICIPANT_ENTRY. \<forall>h. i \<noteq> 0 \<longrightarrow> slot_handle (T ! i) = Some h \<longrightarrow> slot h \<in> used_slots m))"

definition counted :: "'c slot list \<Rightarrow> nat" where
  "counted T = length (filter (\<lambda>x. case x of None \<Rightarrow> False | Some (st, _) \<Rightarrow> st \<noteq> ESIF_PM_PARTICIPANT_STATE_REMOVED) T)"

definition pm_rep :: "'c slot list \<Rightarrow> 'c EsifUppMgr \<Rightarrow> bool" where
  "pm_rep T s \<longleftrightarrow> table_wf T \<and> handles_taken (pm_handles s) T \<and> length (fEntries s) = MAX_PARTICIPANT_ENTRY
     \<and> (\<forall>i<MAX_PARTICIPANT_ENTRY. slot_rep (pm_ups s) (fEntries s ! i) (T ! i))
     \<and> (\<forall>i<MAX_PARTICIPANT_ENTRY. \<forall>j<MAX_PARTICIPANT_ENTRY. i \<noteq> j \<longrightarrow> fUpPtr (fEntries s ! i) \<noteq> None \<longrightarrow> fUpPtr (fEntries s ! i) \<noteq> fUpPtr (fEntries s ! j))
     \<and> (\<forall>a. up_mem (pm_ups s) a \<noteq> None \<longrightarrow> (\<exists>i<MAX_PARTICIPANT_ENTRY. fUpPtr (fEntries s ! i) = Some a)) \<and> fresh_mem (pm_ups s)"

lemma pm_repD:
  assumes "pm_rep T s"
  shows "table_wf T" "handles_taken (pm_handles s) T" "length (fEntries s) = MAX_PARTICIPANT_ENTRY" "length T = MAX_PARTICIPANT_ENTRY"
    "i < MAX_PARTICIPANT_ENTRY \<Longrightarrow> slot_rep (pm_ups s) (fEntries s ! i) (T ! i)" "fresh_mem (pm_ups s)"
    "i < MAX_PARTICIPANT_ENTRY \<Longrightarrow> slot_wf i (T ! i)"
  using assms by (simp_all add: pm_rep_def table_wf_def)

lemma slot_repE:
  assumes "pm_rep T s" "i < MAX_PARTICIPANT_ENTRY" "T ! i = Some (st, c)"
  obtains a u where "fUpPtr (fEntries s ! i) = Some a" "up_mem (pm_ups s) a = Some u" "core u = c" "length (domains u) = ESIF_DOMAIN_MAX"
    "fState (fEntries s ! i) = st" "idle c" "at a (pm_ups s) c (pm_ups s)"
proof -
  have "slot_rep (pm_ups s) (fEntries s ! i) (T ! i)" "slot_wf i (T ! i)" using pm_repD(5,7) [OF assms(1)] assms(2) by blast+
  then obtain a u where "fUpPtr (fEntries s ! i) = Some a" "up_mem (pm_ups s) a = Some u" "core u = c" "length (domains u) = ESIF_DOMAIN_MAX"
      "fState (fEntries s ! i) = st" "idle c" using assms(3) by (auto simp: slot_rep_def slot_wf_def)
  then show thesis using that at_start by blast
qed

text \<open>The participant that an entry shows, and the table as it is seen by the searches.\<close>

lemma up_at_slot:
  assumes "pm_rep T s" "i < MAX_PARTICIPANT_ENTRY"
  shows "\<exists>u. up_at (fUpPtr (fEntries s ! i)) (pm_ups s) = Some u \<and> map_option core u = map_option snd (T ! i)"
  using pm_repD(5) [OF assms] by (auto simp: slot_rep_def up_at_def split: option.splits)

lemma find_entry_from:
  assumes "pm_rep T s" "\<And>j u. j < MAX_PARTICIPANT_ENTRY \<Longrightarrow> map_option core u = map_option snd (T ! j)
      \<Longrightarrow> P j (fEntries s ! j) u = Q (T ! j)"
  shows "k \<le> MAX_PARTICIPANT_ENTRY \<Longrightarrow> find_entry_loop P (pm_ups s) k (drop k (fEntries s)) = Some (find (\<lambda>j. Q (T ! j)) [k..<MAX_PARTICIPANT_ENTRY])"
proof (induction "MAX_PARTICIPANT_ENTRY - k" arbitrary: k)
  case 0
  then show ?case using pm_repD(3) [OF assms(1)] by simp
next
  case (Suc n)
  then have k: "k < MAX_PARTICIPANT_ENTRY" by simp
  then have d: "drop k (fEntries s) = fEntries s ! k # drop (Suc k) (fEntries s)" "[k..<MAX_PARTICIPANT_ENTRY] = k # [Suc k..<MAX_PARTICIPANT_ENTRY]"
    using pm_repD(3) [OF assms(1)] by (simp_all add: Cons_nth_drop_Suc upt_conv_Cons)
  from up_at_slot [OF assms(1) k] obtain u where u: "up_at (fUpPtr (fEntries s ! k)) (pm_ups s) = Some u" "map_option core u = map_option snd (T ! k)" by blast
  have "find_entry_loop P (pm_ups s) (Suc k) (drop (Suc k) (fEntries s)) = Some (find (\<lambda>j. Q (T ! j)) [Suc k..<MAX_PARTICIPANT_ENTRY])"
    using Suc k by (intro Suc.hyps(1)) auto
  then show ?case unfolding d using u assms(2) [OF k u(2)] by simp
qed

lemmas find_entry = find_entry_from [where k = 0, simplified]

lemma find_upt_Some:
  "find P [k..<n] = Some i \<Longrightarrow> k \<le> i \<and> i < n \<and> P i \<and> (\<forall>j. k \<le> j \<longrightarrow> j < i \<longrightarrow> \<not> P j)"
proof -
  assume "find P [k..<n] = Some i"
  then obtain m where m: "m < n - k" "P (k + m)" "i = k + m" "\<forall>j<m. \<not> P (k + j)" by (auto simp: find_Some_iff)
  have "\<not> P j" if "k \<le> j" "j < i" for j using m(3,4) that by (metis add_less_cancel_left le_Suc_ex)
  with m show ?thesis by auto
qed

lemma find_upt_None: "find P [k..<n] = None \<longleftrightarrow> (\<forall>j. k \<le> j \<longrightarrow> j < n \<longrightarrow> \<not> P j)"
  by (auto simp: find_None_iff)

text \<open>A change of one slot that keeps its handle.\<close>

lemma slot_rep_other:
  assumes "slot_rep ups e x" "fUpPtr e \<noteq> Some a" "\<And>b. b \<noteq> a \<Longrightarrow> up_mem ups' b = up_mem ups b"
  shows "slot_rep ups' e x"
  using assms by (force simp: slot_rep_def split: option.splits)

lemma pm_rep_set:
  assumes r: "pm_rep T s" and i: "i < MAX_PARTICIPANT_ENTRY" and t: "T ! i = Some (st, c)" and p: "fUpPtr (fEntries s ! i) = Some a"
    and a: "at a (pm_ups s) c' (pm_ups s')" and w: "slot_wf i (Some (st', c'))" and h: "fInstance c' = fInstance c"
    and s': "fEntries s' = (fEntries s)[i := (fEntries s ! i)\<lparr>fState := st'\<rparr>]" "pm_handles s' = pm_handles s"
  shows "pm_rep (T[i := Some (st', c')]) s'"
proof -
  note d = r [unfolded pm_rep_def]
  obtain u where u: "up_mem (pm_ups s') = (up_mem (pm_ups s))(a \<mapsto> u)" "core u = c'" "length (domains u) = ESIF_DOMAIN_MAX" "up_alloc (pm_ups s') = up_alloc (pm_ups s)"
    using a by (rule atE)
  have len: "length T = MAX_PARTICIPANT_ENTRY" "length (fEntries s) = MAX_PARTICIPANT_ENTRY" using d by (simp_all add: table_wf_def)
  have sh: "slot_handle (T[i := Some (st', c')] ! j) = slot_handle (T ! j)" if "j < MAX_PARTICIPANT_ENTRY" for j
    using that len t h by (cases "j = i") (simp_all add: slot_handle_def)
  have w': "slot_wf j (T[i := Some (st', c')] ! j)" if "j < MAX_PARTICIPANT_ENTRY" for j
    using that d w len by (cases "j = i") (simp_all add: table_wf_def)
  have wf: "table_wf (T[i := Some (st', c')])" using d w' len by (simp add: table_wf_def sh)
  have hd: "handles_taken (pm_handles s') (T[i := Some (st', c')])" using d s'(2) by (auto simp: handles_taken_def sh)
  have rp: "slot_rep (pm_ups s') (fEntries s' ! j) (T[i := Some (st', c')] ! j)" if j: "j < MAX_PARTICIPANT_ENTRY" for j
  proof (cases "j = i")
    case True
    then show ?thesis using u len s'(1) i p by (auto simp: slot_rep_def)
  next
    case False
    have "fUpPtr (fEntries s ! j) \<noteq> Some a" using d False i j p by fastforce
    then show ?thesis using False j len s'(1) u(1) d by (auto intro: slot_rep_other)
  qed
  have ptr: "fUpPtr (fEntries s' ! j) = fUpPtr (fEntries s ! j)" if "j < MAX_PARTICIPANT_ENTRY" for j
    using that len s'(1) by (cases "j = i") simp_all
  have fr: "fresh_mem (pm_ups s')" using d u p slot_repE [OF r i t] by (auto simp: fresh_mem_def)
  have len': "length (fEntries s') = MAX_PARTICIPANT_ENTRY" using len s'(1) by simp
  have own: "\<exists>j<MAX_PARTICIPANT_ENTRY. fUpPtr (fEntries s' ! j) = Some b" if "up_mem (pm_ups s') b \<noteq> None" for b
  proof (cases "b = a")
    case True
    then show ?thesis using i p ptr by auto
  next
    case False
    then show ?thesis using that u(1) d ptr by (metis fun_upd_other)
  qed
  show ?thesis unfolding pm_rep_def using wf hd len' rp fr own d by (simp add: ptr)
qed

text \<open>Operations that only change the participants or the record of calls.\<close>

lemma pm_note_simps [simp]:
  "fEntryCount (pm_note x s) = fEntryCount s" "fEntries (pm_note x s) = fEntries s" "pm_ups (pm_note x s) = pm_ups s"
  "pm_handles (pm_note x s) = pm_handles s"
  by (simp_all add: pm_note_def)

lemma pm_signal_simps [simp]:
  "fEntryCount (pm_signal h ty s) = fEntryCount s" "fEntries (pm_signal h ty s) = fEntries s" "pm_handles (pm_signal h ty s) = pm_handles s"
  "up_mem (pm_ups (pm_signal h ty s)) = up_mem (pm_ups s)" "up_alloc (pm_ups (pm_signal h ty s)) = up_alloc (pm_ups s)"
  by (simp_all add: pm_signal_def)

lemma pm_rep_cong:
  "fEntries s' = fEntries s \<Longrightarrow> up_mem (pm_ups s') = up_mem (pm_ups s) \<Longrightarrow> up_alloc (pm_ups s') = up_alloc (pm_ups s)
   \<Longrightarrow> pm_handles s' = pm_handles s \<Longrightarrow> pm_rep T s' = pm_rep T s"
  by (simp add: pm_rep_def slot_rep_def fresh_mem_def cong: option.case_cong prod.case_cong)

lemma pm_rep_logged [simp]: "pm_rep T (pm_note x s) = pm_rep T s" "pm_rep T (pm_signal h ty s) = pm_rep T s"
  "pm_rep T (s\<lparr>fEntryCount := n\<rparr>) = pm_rep T s"
  by (rule pm_rep_cong; simp)+

text \<open>The memory and the handles an operation may draw from are as before.\<close>

definition same_means :: "'c EsifUppMgr \<Rightarrow> 'c EsifUppMgr \<Rightarrow> bool" where
  "same_means s s' \<longleftrightarrow> pm_handles s' = pm_handles s \<and> alloc_ok (up_alloc (pm_ups s')) = alloc_ok (up_alloc (pm_ups s))"

lemma same_means_refl [simp]: "same_means s s"
  by (simp add: same_means_def)

lemma same_means_trans: "same_means s s1 \<Longrightarrow> same_means s1 s2 \<Longrightarrow> same_means s s2"
  by (simp add: same_means_def)

section \<open>Suspension and resumption\<close>

text \<open>A table together with the count of participants.\<close>

type_synonym 'c table = "'c slot list \<times> u8"

definition pm_abs :: "'c table \<Rightarrow> 'c EsifUppMgr \<Rightarrow> bool" where
  "pm_abs A s \<longleftrightarrow> pm_rep (fst A) s \<and> fEntryCount s = snd A"

definition slot_of :: "esif_handle_t \<Rightarrow> 'c slot list \<Rightarrow> nat option" where
  "slot_of h T = find (\<lambda>j. h = (case T ! j of None \<Rightarrow> ESIF_INVALID_HANDLE | Some (_, c) \<Rightarrow> fInstance c)) [0..<MAX_PARTICIPANT_ENTRY]"

lemma get_entry_spec: "pm_rep T s \<Longrightarrow> EsifUpPm_GetEntryByInstanceLocked h s = Some (slot_of h T)"
  unfolding EsifUpPm_GetEntryByInstanceLocked_def slot_of_def
  by (rule find_entry) (auto simp: EsifUp_GetInstance_def split: option.splits)

definition spec_suspend :: "esif_handle_t \<Rightarrow> 'c table \<Rightarrow> 'c table" where
  "spec_suspend h A = (case slot_of h (fst A) of None \<Rightarrow> A
     | Some i \<Rightarrow> (case fst A ! i of None \<Rightarrow> A
        | Some (st, c) \<Rightarrow> if st = ESIF_PM_PARTICIPANT_STATE_REMOVED then A
            else ((fst A)[i := Some (ESIF_PM_PARTICIPANT_STATE_REMOVED, c)], snd A - 1)))"

lemma in_use_simps:
  "fState e \<noteq> ESIF_PM_PARTICIPANT_STATE_AVAILABLE \<Longrightarrow> in_use e = (fState e \<noteq> ESIF_PM_PARTICIPANT_STATE_REMOVED)"
  "fState e = ESIF_PM_PARTICIPANT_STATE_AVAILABLE \<Longrightarrow> \<not> in_use e"
  by (cases "fState e"; simp add: in_use_def)+

lemma idle_ref [simp]: "idle c \<Longrightarrow> c\<lparr>up_refCount := 1\<rparr> = c"
  by (simp add: idle_def)

text \<open>A reference taken, an announcement, and the reference given back.\<close>

lemma told_destroy:
  assumes "at a s0 c (pm_ups s)" "idle c"
  shows "\<exists>s1 rc s2 s3. take_ref (Some a) s = Some (Some a, s1)
    \<and> EsifAppMgr_DestroyParticipantInAllApps env (Some a) s1 = Some (rc, s2) \<and> rc = apps_destroy env (pm_calls s) (fInstance c) \<and> lift_up (EsifUp_PutRef (Some a)) s2 = Some s3
    \<and> at a s0 c (pm_ups s3) \<and> fEntries s3 = fEntries s \<and> fEntryCount s3 = fEntryCount s \<and> pm_handles s3 = pm_handles s"
proof -
  from at_get [OF assms(1)] assms(2) obtain u1 where g: "EsifUp_GetRef (Some a) (pm_ups s) = Some (ESIF_OK, u1)"
    "at a s0 (c\<lparr>up_refCount := up_refCount c + 1\<rparr>) u1" by (auto simp: idle_def)
  from at_read [OF g(2)] obtain v where v: "up_at (Some a) u1 = Some (Some v)" "core v = c\<lparr>up_refCount := up_refCount c + 1\<rparr>" by blast
  have vi: "fInstance v = fInstance c" using arg_cong [OF v(2), of fInstance] by simp
  from at_put [OF g(2)] assms(2) obtain u2 where p: "EsifUp_PutRef (Some a) u1 = Some u2" "at a s0 c u2" by (auto simp: idle_def)
  show ?thesis using g v(1) vi p
    by (simp add: take_ref_def lift_up_rc_def EsifAppMgr_DestroyParticipantInAllApps_def lift_up_def EsifUp_GetInstance_def)
qed

text \<open>The status: not found, nothing to do, or what the applications answer.\<close>

definition suspend_rc :: "pm_env \<Rightarrow> esif_handle_t \<Rightarrow> 'c table \<Rightarrow> esif_rc \<Rightarrow> bool" where
  "suspend_rc env h A rc \<longleftrightarrow> (case slot_of h (fst A) of None \<Rightarrow> rc = ESIF_E_NOT_FOUND
     | Some i \<Rightarrow> (case fst A ! i of None \<Rightarrow> rc = ESIF_OK
        | Some (st, c) \<Rightarrow> if st = ESIF_PM_PARTICIPANT_STATE_REMOVED then rc = ESIF_OK else (\<exists>l. rc = apps_destroy env l h)))"

lemma suspend_spec:
  assumes "pm_abs A s"
  shows "\<exists>rc s'. EsifUpPm_SuspendParticipant env h s = Some (rc, s') \<and> pm_abs (spec_suspend h A) s'
    \<and> suspend_rc env h A rc \<and> same_means s s'"
proof -
  obtain T n where A: "A = (T, n)" by (cases A)
  have r: "pm_rep T s" "fEntryCount s = n" using assms A by (simp_all add: pm_abs_def)
  note e = get_entry_spec [OF r(1), of h]
  show ?thesis
  proof (cases "slot_of h T")
    case None
    then show ?thesis using e r by (simp add: A EsifUpPm_SuspendParticipant_def spec_suspend_def suspend_rc_def pm_abs_def)
  next
    case (Some i)
    then have i: "i < MAX_PARTICIPANT_ENTRY" and hi: "\<And>st c. T ! i = Some (st, c) \<Longrightarrow> fInstance c = h"
      by (auto simp: slot_of_def dest: find_upt_Some)
    show ?thesis
    proof (cases "T ! i")
      case None
      then have "fUpPtr (fEntries s ! i) = None" using pm_repD(5) [OF r(1) i] by (simp add: slot_rep_def)
      then show ?thesis using Some None e r by (simp add: A EsifUpPm_SuspendParticipant_def spec_suspend_def suspend_rc_def pm_abs_def Let_def)
    next
      case (Some x)
      obtain st c where t: "T ! i = Some (st, c)" using Some by (cases x) auto
      obtain a u where p: "fUpPtr (fEntries s ! i) = Some a" "fState (fEntries s ! i) = st" "idle c" "at a (pm_ups s) c (pm_ups s)"
        using slot_repE [OF r(1) i t] by metis
      have w: "slot_wf i (Some (st, c))" using pm_repD(7) [OF r(1) i] t by simp
      then have us: "in_use (fEntries s ! i) = (st \<noteq> ESIF_PM_PARTICIPANT_STATE_REMOVED)" using p(2) in_use_simps(1) by (auto simp: slot_wf_def)
      show ?thesis
      proof (cases "st = ESIF_PM_PARTICIPANT_STATE_REMOVED")
        case True
        then show ?thesis using \<open>slot_of h T = Some i\<close> e r t us p by (simp add: A EsifUpPm_SuspendParticipant_def spec_suspend_def suspend_rc_def pm_abs_def Let_def)
      next
        case False
        from at_each_domain [OF p(4) idle_usable(1) [OF p(3)]] obtain u1 where
          s1: "EsifUp_SuspendParticipant (Some a) (pm_ups s) = Some (ESIF_OK, u1)" "at a (pm_ups s) c u1"
          unfolding EsifUp_SuspendParticipant_def by blast
        let ?s2 = "set_entry i (fState_update (\<lambda>_. ESIF_PM_PARTICIPANT_STATE_REMOVED)) (s\<lparr>pm_ups := u1, fEntryCount := n - 1\<rparr>)"
        from told_destroy [of a "pm_ups s" c ?s2 env] s1(2) p(3) obtain s3 rc s4 s5 where
          m: "take_ref (Some a) ?s2 = Some (Some a, s3)" "EsifAppMgr_DestroyParticipantInAllApps env (Some a) s3 = Some (rc, s4)"
            "lift_up (EsifUp_PutRef (Some a)) s4 = Some s5" "at a (pm_ups s) c (pm_ups s5)" "fEntries s5 = fEntries ?s2" "fEntryCount s5 = n - 1"
            "pm_handles s5 = pm_handles s" "rc = apps_destroy env (pm_calls ?s2) h" using hi [OF t] by auto
        have "EsifUpPm_SuspendParticipant env h s = Some (rc, s5)"
          using \<open>slot_of h T = Some i\<close> e us p False m(1-3) r(2)
          by (simp add: lift_up_rc_def s1(1) EsifUpPm_SuspendParticipant_def Let_def)
        moreover have "pm_rep (T[i := Some (ESIF_PM_PARTICIPANT_STATE_REMOVED, c)]) s5"
          using w m(5,7) by (intro pm_rep_set [OF r(1) i t p(1) m(4)]) (simp_all add: slot_wf_def)
        moreover have "same_means s s5" using m(4,7) by (auto simp: same_means_def at_def)
        moreover have "suspend_rc env h A rc" using \<open>slot_of h T = Some i\<close> t False m(8) by (auto simp: A suspend_rc_def)
        ultimately show ?thesis using \<open>slot_of h T = Some i\<close> t False m(6) by (simp add: A spec_suspend_def pm_abs_def)
      qed
    qed
  qed
qed

definition spec_resume :: "esif_handle_t \<Rightarrow> 'c table \<Rightarrow> 'c table" where
  "spec_resume h A = (if EsifUpPm_IsPrimaryParticipantId h then A else (case slot_of h (fst A) of None \<Rightarrow> A
     | Some i \<Rightarrow> (case fst A ! i of None \<Rightarrow> A
        | Some (st, c) \<Rightarrow> if st = ESIF_PM_PARTICIPANT_STATE_CREATED then A
            else ((fst A)[i := Some (ESIF_PM_PARTICIPANT_STATE_CREATED, c)], snd A + 1))))"

lemma below_created: "state_num st < state_num ESIF_PM_PARTICIPANT_STATE_CREATED \<longleftrightarrow> st \<noteq> ESIF_PM_PARTICIPANT_STATE_CREATED"
  by (cases st) simp_all

lemma slot_wf_created: "slot_wf i (Some (st, c)) \<Longrightarrow> slot_wf i (Some (ESIF_PM_PARTICIPANT_STATE_CREATED, c))"
  by (simp add: slot_wf_def)

definition resume_rc :: "pm_env \<Rightarrow> esif_handle_t \<Rightarrow> 'c table \<Rightarrow> esif_rc \<Rightarrow> bool" where
  "resume_rc env h A rc \<longleftrightarrow> (if EsifUpPm_IsPrimaryParticipantId h then rc = ESIF_OK else (case slot_of h (fst A) of None \<Rightarrow> rc = ESIF_E_NOT_FOUND
     | Some i \<Rightarrow> (case fst A ! i of None \<Rightarrow> rc = ESIF_OK
        | Some (st, c) \<Rightarrow> if st = ESIF_PM_PARTICIPANT_STATE_CREATED then rc = ESIF_OK else (\<exists>l. rc = apps_create env l h))))"

lemma resume_spec:
  assumes "pm_abs A s"
  shows "\<exists>rc s'. EsifUpPm_ResumeParticipant env h s = Some (rc, s') \<and> pm_abs (spec_resume h A) s'
    \<and> resume_rc env h A rc \<and> same_means s s'"
proof -
  obtain T n where A: "A = (T, n)" by (cases A)
  have r: "pm_rep T s" "fEntryCount s = n" using assms A by (simp_all add: pm_abs_def)
  note e = get_entry_spec [OF r(1), of h]
  show ?thesis
  proof (cases "EsifUpPm_IsPrimaryParticipantId h \<or> slot_of h T = None")
    case True
    then show ?thesis using e r by (auto simp: A EsifUpPm_ResumeParticipant_def spec_resume_def resume_rc_def pm_abs_def)
  next
    case False
    then obtain i where so: "slot_of h T = Some i" by auto
    then have i: "slot_of h T = Some i" "i < MAX_PARTICIPANT_ENTRY" and hi: "\<And>st c. T ! i = Some (st, c) \<Longrightarrow> fInstance c = h"
      by (auto simp: slot_of_def dest: find_upt_Some)
    show ?thesis
    proof (cases "T ! i")
      case None
      then have "fUpPtr (fEntries s ! i) = None" using pm_repD(5) [OF r(1) i(2)] by (simp add: slot_rep_def)
      then show ?thesis using False None e r i by (simp add: A EsifUpPm_ResumeParticipant_def spec_resume_def resume_rc_def pm_abs_def Let_def)
    next
      case (Some x)
      obtain st c where t: "T ! i = Some (st, c)" using Some by (cases x) auto
      obtain a u where p: "fUpPtr (fEntries s ! i) = Some a" "fState (fEntries s ! i) = st" "idle c" "at a (pm_ups s) c (pm_ups s)"
        using slot_repE [OF r(1) i(2) t] by metis
      show ?thesis
      proof (cases "st = ESIF_PM_PARTICIPANT_STATE_CREATED")
        case True
        then show ?thesis using False e r t p i by (simp add: A EsifUpPm_ResumeParticipant_def spec_resume_def resume_rc_def pm_abs_def Let_def)
      next
        case st: False
        from at_get [OF p(4)] p(3) obtain u1 where g: "EsifUp_GetRef (Some a) (pm_ups s) = Some (ESIF_OK, u1)"
          "at a (pm_ups s) (c\<lparr>up_refCount := up_refCount c + 1\<rparr>) u1" by (auto simp: idle_def)
        from at_each_domain [OF g(2) idle_usable(2) [OF p(3)], of id] obtain u2 where
          m: "EsifUp_ResumeParticipant (Some a) u1 = Some (ESIF_OK, u2)" "at a (pm_ups s) (c\<lparr>up_refCount := up_refCount c + 1\<rparr>) u2"
          unfolding EsifUp_ResumeParticipant_def by blast
        from at_read [OF m(2)] obtain v where v: "up_at (Some a) u2 = Some (Some v)" "core v = c\<lparr>up_refCount := up_refCount c + 1\<rparr>" by blast
        have vi: "fInstance v = h" using arg_cong [OF v(2), of fInstance] hi [OF t] by simp
        from at_put [OF m(2)] p(3) obtain u3 where q: "EsifUp_PutRef (Some a) u2 = Some u3" "at a (pm_ups s) c u3" by (auto simp: idle_def)
        obtain rc s' where res: "EsifUpPm_ResumeParticipant env h s = Some (rc, s')" "fEntryCount s' = n + 1" "pm_ups s' = u3"
            "fEntries s' = (fEntries s)[i := (fEntries s ! i)\<lparr>fState := ESIF_PM_PARTICIPANT_STATE_CREATED\<rparr>]" "pm_handles s' = pm_handles s"
            "rc = apps_create env (pm_calls s) h"
          using False i e p st g(1) m(1) v(1) vi q(1) r(2)
          by (simp add: EsifUpPm_ResumeParticipant_def Let_def below_created enter_created_def lift_up_rc_def lift_up_def
              EsifAppMgr_CreateParticipantInAllApps_def EsifUp_GetInstance_def del: state_num.simps)
        have "pm_rep (T[i := Some (ESIF_PM_PARTICIPANT_STATE_CREATED, c)]) s'"
          using pm_repD(7) [OF r(1) i(2)] t res q(2) by (intro pm_rep_set [OF r(1) i(2) t p(1)]) (auto intro: slot_wf_created)
        moreover have "same_means s s'" using res(3,5) q(2) by (auto simp: same_means_def at_def)
        moreover have "resume_rc env h A rc" using False i t st res(6) by (auto simp: A resume_rc_def)
        ultimately show ?thesis using False i t st res by (simp add: A spec_resume_def pm_abs_def)
      qed
    qed
  qed
qed

section \<open>Removal from the table\<close>

lemma pm_rep_clear:
  assumes r: "pm_rep T s" and i: "i < MAX_PARTICIPANT_ENTRY" and p: "fUpPtr (fEntries s ! i) = Some a"
    and s': "fEntries s' = (fEntries s)[i := \<lparr>fState = ESIF_PM_PARTICIPANT_STATE_AVAILABLE, fUpPtr = None\<rparr>]" "pm_handles s' = pm_handles s"
      "up_mem (pm_ups s') = (up_mem (pm_ups s))(a := None)" "up_alloc (pm_ups s') = up_alloc (pm_ups s)"
  shows "pm_rep (T[i := None]) s'"
proof -
  note d = r [unfolded pm_rep_def]
  have len: "length T = MAX_PARTICIPANT_ENTRY" "length (fEntries s) = MAX_PARTICIPANT_ENTRY" using d by (simp_all add: table_wf_def)
  have e: "fEntries s' ! j = (if j = i then \<lparr>fState = ESIF_PM_PARTICIPANT_STATE_AVAILABLE, fUpPtr = None\<rparr> else fEntries s ! j)"
      "T[i := None] ! j = (if j = i then None else T ! j)" if "j < MAX_PARTICIPANT_ENTRY" for j
    using that len s'(1) by simp_all
  have wf: "table_wf (T[i := None])" using d len by (simp add: table_wf_def e slot_wf_def slot_handle_def)
  have hd: "handles_taken (pm_handles s') (T[i := None])" using d by (auto simp: handles_taken_def s'(2) e slot_handle_def)
  have rp: "slot_rep (pm_ups s') (fEntries s' ! j) (T[i := None] ! j)" if j: "j < MAX_PARTICIPANT_ENTRY" for j
  proof (cases "j = i")
    case True
    then show ?thesis using e j by (simp add: slot_rep_def)
  next
    case False
    have "fUpPtr (fEntries s ! j) \<noteq> Some a" using d False i j p by fastforce
    then show ?thesis using False j e s'(3) d by (auto intro: slot_rep_other)
  qed
  have fr: "fresh_mem (pm_ups s')" using d s'(3,4) by (auto simp: fresh_mem_def split: if_splits)
  have own: "\<exists>j<MAX_PARTICIPANT_ENTRY. fUpPtr (fEntries s' ! j) = Some b" if "up_mem (pm_ups s') b \<noteq> None" for b
  proof -
    have "up_mem (pm_ups s) b \<noteq> None" "b \<noteq> a" using that s'(3) by (auto split: if_splits)
    then obtain j where "j < MAX_PARTICIPANT_ENTRY" "fUpPtr (fEntries s ! j) = Some b" using d by blast
    then show ?thesis using e p \<open>b \<noteq> a\<close> by (intro exI [of _ j]) auto
  qed
  have len': "length (fEntries s') = MAX_PARTICIPANT_ENTRY" using len s'(1) by simp
  have dist: "fUpPtr (fEntries s' ! j) \<noteq> fUpPtr (fEntries s' ! k)"
    if "j < MAX_PARTICIPANT_ENTRY" "k < MAX_PARTICIPANT_ENTRY" "j \<noteq> k" "fUpPtr (fEntries s' ! j) \<noteq> None" for j k
    using that d e by (auto split: if_splits)
  show ?thesis unfolding pm_rep_def using wf hd len' rp fr own dist by blast
qed

lemma table_wf_distinct:
  assumes "table_wf T" "i < MAX_PARTICIPANT_ENTRY" "j < MAX_PARTICIPANT_ENTRY" "i \<noteq> 0" "j \<noteq> 0" "i \<noteq> j" "T ! i = Some (st, c)" "T ! j = Some (st', c')"
  shows "slot (fInstance c) \<noteq> slot (fInstance c')"
proof -
  have "slot_handle (T ! i) = Some (fInstance c)" "slot_handle (T ! j) = Some (fInstance c')" using assms(7,8) by (simp_all add: slot_handle_def)
  then show ?thesis using assms(1-6) unfolding table_wf_def by blast
qed

text \<open>The handle of a slot leads back to it.\<close>

lemma slot_of_handle:
  assumes w: "table_wf T" and i: "i < MAX_PARTICIPANT_ENTRY" and t: "T ! i = Some (st, c)"
  shows "slot_of (fInstance c) T = Some i"
proof -
  let ?h = "\<lambda>j. case T ! j of None \<Rightarrow> ESIF_INVALID_HANDLE | Some (_, c) \<Rightarrow> fInstance c"
  have wf: "slot_wf j (T ! j)" if "j < MAX_PARTICIPANT_ENTRY" for j using w that by (simp add: table_wf_def)
  have ninv: "fInstance c \<noteq> ESIF_INVALID_HANDLE" using wf [OF i] t by (auto simp: slot_wf_def EsifHandleMgr_IsReservedHandle_def split: if_splits)
  have "j = i" if j: "j < MAX_PARTICIPANT_ENTRY" "fInstance c = ?h j" for j
  proof (rule ccontr)
    assume ne: "j \<noteq> i"
    obtain st' c' where t': "T ! j = Some (st', c')" "fInstance c' = fInstance c" using j ninv by (auto split: option.splits)
    show False
    proof (cases "i = 0 \<or> j = 0")
      case True
      then show ?thesis using wf [OF i] wf [OF j(1)] t t' ne by (auto simp: slot_wf_def EsifHandleMgr_IsReservedHandle_def)
    next
      case False
      then show ?thesis using table_wf_distinct [OF w i j(1) _ _ _ t t'(1)] t'(2) ne by auto
    qed
  qed
  moreover have "fInstance c = ?h i" using t by simp
  ultimately have "\<forall>j. find (\<lambda>j. fInstance c = ?h j) [0..<MAX_PARTICIPANT_ENTRY] = Some j \<longrightarrow> j = i"
    "find (\<lambda>j. fInstance c = ?h j) [0..<MAX_PARTICIPANT_ENTRY] \<noteq> None"
    using i by (auto simp: find_upt_None dest: find_upt_Some)
  then show ?thesis by (auto simp: slot_of_def)
qed

definition spec_remove :: "nat \<Rightarrow> 'c table \<Rightarrow> 'c table" where
  "spec_remove i A = (case fst A ! i of None \<Rightarrow> A
     | Some (st, _) \<Rightarrow> ((fst A)[i := None], if st = ESIF_PM_PARTICIPANT_STATE_REMOVED then snd A else snd A - 1))"

lemma lf_destroy_keeps [simp]: "pm_abs A (snd (EsifUpPm_DestroyConjuredLfParticipant env x s)) = pm_abs A s"
  "fEntries (snd (EsifUpPm_DestroyConjuredLfParticipant env x s)) = fEntries s"
  "pm_handles (snd (EsifUpPm_DestroyConjuredLfParticipant env x s)) = pm_handles s"
  "pm_ups (snd (EsifUpPm_DestroyConjuredLfParticipant env x s)) = pm_ups s"
  by (simp_all add: EsifUpPm_DestroyConjuredLfParticipant_def pm_abs_def split: option.split)

lemma destroy_entry_spec:
  assumes "pm_abs A s" "i < MAX_PARTICIPANT_ENTRY"
  shows "\<exists>s'. destroy_pm_entry env name i s = Some s' \<and> pm_abs (spec_remove i A) s' \<and> same_means s s'"
proof -
  obtain T n where A: "A = (T, n)" by (cases A)
  have r: "pm_rep T s" "fEntryCount s = n" using assms A by (simp_all add: pm_abs_def)
  show ?thesis
  proof (cases "T ! i")
    case None
    then have "fUpPtr (fEntries s ! i) = None" using pm_repD(5) [OF r(1) assms(2)] by (simp add: slot_rep_def)
    then show ?thesis using None r by (simp add: A destroy_pm_entry_def spec_remove_def pm_abs_def up_at_def)
  next
    case (Some x)
    obtain st c where t: "T ! i = Some (st, c)" using Some by (cases x) auto
    obtain a u where p: "fUpPtr (fEntries s ! i) = Some a" "fState (fEntries s ! i) = st" "idle c" "up_mem (pm_ups s) a = Some u" "core u = c"
      using slot_repE [OF r(1) assms(2) t] by metis
    let ?s1 = "if fEnumerator (fMetadata u) = ESIF_PARTICIPANT_ENUM_CONJURE \<and> EsifUp_GetLpInstance (Some u) \<noteq> ESIF_INSTANCE_INVALID
      then snd (EsifUpPm_DestroyConjuredLfParticipant env name s) else s"
    have "pm_abs A ?s1" using assms(1) by simp
    from suspend_spec [OF this, of env "fInstance u"] obtain rc s2 where
      s2: "EsifUpPm_SuspendParticipant env (fInstance u) ?s1 = Some (rc, s2)" "pm_abs (spec_suspend (fInstance u) A) s2" "same_means ?s1 s2" by blast
    have so: "slot_of (fInstance u) T = Some i" using slot_of_handle [OF pm_repD(1) [OF r(1)] assms(2) t] p(5) by auto
    obtain st' where T2: "spec_suspend (fInstance u) A = (T[i := Some (st', c)], if st = ESIF_PM_PARTICIPANT_STATE_REMOVED then n else n - 1)"
    proof (cases "st = ESIF_PM_PARTICIPANT_STATE_REMOVED")
      case True
      then have "T[i := Some (st, c)] = T" using t by (metis list_update_id)
      then show thesis using that [of st] True so t by (simp add: A spec_suspend_def)
    next
      case False
      then show thesis using that so t by (simp add: A spec_suspend_def)
    qed
    let ?s3 = "pm_signal (fInstance u) ESIF_EVENT_PARTICIPANT_UNREGISTER_COMPLETE s2"
    have r3: "pm_rep (T[i := Some (st', c)]) ?s3" using s2(2) T2 by (simp add: pm_abs_def)
    have t3: "T[i := Some (st', c)] ! i = Some (st', c)" using pm_repD(4) [OF r(1)] assms(2) by simp
    obtain b v where q: "fUpPtr (fEntries ?s3 ! i) = Some b" "at b (pm_ups ?s3) c (pm_ups ?s3)"
      using slot_repE [OF r3 assms(2) t3] by metis
    from destroy_idle [OF q(2) p(3)] obtain u4 where d: "EsifUp_DestroyParticipant (Some b) (pm_ups ?s3) = Some u4"
      "up_mem u4 = (up_mem (pm_ups ?s3))(b := None)" "up_alloc u4 = up_alloc (pm_ups ?s3)" by blast
    let ?s4 = "(set_entry i (\<lambda>_. \<lparr>fState = ESIF_PM_PARTICIPANT_STATE_AVAILABLE, fUpPtr = None\<rparr>) ?s3)\<lparr>pm_ups := u4\<rparr>"
    have "destroy_pm_entry env name i s = Some ?s4"
      using p(1,4) s2(1) q(1) d(1) by (simp add: destroy_pm_entry_def up_at_def Let_def lift_up_def)
    moreover have "pm_rep ((T[i := Some (st', c)])[i := None]) ?s4"
      using d by (intro pm_rep_clear [OF r3 assms(2) q(1)]) simp_all
    moreover have "fEntryCount ?s4 = (if st = ESIF_PM_PARTICIPANT_STATE_REMOVED then n else n - 1)" using s2(2) T2 by (simp add: pm_abs_def)
    moreover have "same_means s ?s4" using s2(3) d(3) by (simp add: same_means_def split: if_splits)
    ultimately show ?thesis using t by (auto simp: A spec_remove_def pm_abs_def)
  qed
qed

definition destroys :: "u8 list option \<Rightarrow> 'c slot \<Rightarrow> bool" where
  "destroys name x \<longleftrightarrow> (case name of None \<Rightarrow> True | Some n \<Rightarrow> (case x of None \<Rightarrow> False | Some (_, c) \<Rightarrow> strcasecmp n (fName (fMetadata c)) = 0))"

fun spec_destroy_loop :: "u8 list option \<Rightarrow> nat list \<Rightarrow> 'c table \<Rightarrow> 'c table" where
  "spec_destroy_loop name [] A = A"
| "spec_destroy_loop name (i # is) A = spec_destroy_loop name is (if destroys name (fst A ! i) then spec_remove i A else A)"

lemma remove_other: "j \<noteq> i \<Longrightarrow> fst (spec_remove i A) ! j = fst A ! j"
  by (simp add: spec_remove_def split: option.split)

lemma destroy_up_loop_spec:
  assumes "pm_abs A s" "set is \<subseteq> {..<MAX_PARTICIPANT_ENTRY}" "distinct is"
  shows "\<exists>s'. destroy_up_loop env name is rc s = Some (if \<exists>i\<in>set is. destroys name (fst A ! i) then ESIF_OK else rc, s')
    \<and> pm_abs (spec_destroy_loop name is A) s' \<and> same_means s s'"
  using assms
proof (induction "is" arbitrary: A s rc)
  case Nil
  then show ?case by simp
next
  case (Cons i "is")
  have i: "i < MAX_PARTICIPANT_ENTRY" using Cons.prems(2) by simp
  have r: "pm_rep (fst A) s" using Cons.prems(1) by (simp add: pm_abs_def)
  from up_at_slot [OF r i] obtain u where u: "up_at (fUpPtr (fEntries s ! i)) (pm_ups s) = Some u" "map_option core u = map_option snd (fst A ! i)" by blast
  have td: "to_destroy name u = destroys name (fst A ! i)"
    using u(2) by (auto simp: to_destroy_def destroys_def split: option.splits)
  show ?case
  proof (cases "destroys name (fst A ! i)")
    case True
    from destroy_entry_spec [OF Cons.prems(1) i, of env name] obtain s1 where
      s1: "destroy_pm_entry env name i s = Some s1" "pm_abs (spec_remove i A) s1" "same_means s s1" by blast
    have "i \<notin> set is" using Cons.prems(3) by simp
    then have "(\<exists>k\<in>set is. destroys name (fst (spec_remove i A) ! k)) \<longleftrightarrow> (\<exists>k\<in>set is. destroys name (fst A ! k))"
      using remove_other by metis
    with Cons.IH [OF s1(2), of ESIF_OK] Cons.prems(2,3) obtain s' where "destroy_up_loop env name is ESIF_OK s1 = Some (ESIF_OK, s')"
      "pm_abs (spec_destroy_loop name is (spec_remove i A)) s'" "same_means s1 s'" by auto
    then show ?thesis using u(1) td True s1(1) same_means_trans [OF s1(3)] by simp
  next
    case False
    from Cons.IH [OF Cons.prems(1)] Cons.prems(2,3) show ?thesis using u(1) td False by simp
  qed
qed

definition spec_destroy :: "u8 list option \<Rightarrow> 'c table \<Rightarrow> 'c table" where
  "spec_destroy name = spec_destroy_loop name [0..<MAX_PARTICIPANT_ENTRY]"

definition destroy_rc :: "u8 list option \<Rightarrow> 'c table \<Rightarrow> esif_rc" where
  "destroy_rc name A = (if \<exists>i<MAX_PARTICIPANT_ENTRY. destroys name (fst A ! i) then ESIF_OK else ESIF_E_NOT_FOUND)"

lemma destroy_spec:
  assumes "pm_abs A s"
  shows "\<exists>s'. EsifUpPm_DestroyParticipant env name s = Some (destroy_rc name A, s') \<and> pm_abs (spec_destroy name A) s' \<and> same_means s s'"
proof -
  have rc: "destroy_rc name A = (if \<exists>i\<in>set [0..<MAX_PARTICIPANT_ENTRY]. destroys name (fst A ! i) then ESIF_OK else ESIF_E_NOT_FOUND)"
    by (simp add: destroy_rc_def Bex_def)
  have "set [0..<MAX_PARTICIPANT_ENTRY] \<subseteq> {..<MAX_PARTICIPANT_ENTRY}" by auto
  from destroy_up_loop_spec [OF assms this distinct_upt, of env name ESIF_E_NOT_FOUND] show ?thesis
    unfolding EsifUpPm_DestroyParticipant_def spec_destroy_def rc .
qed

definition spec_unregister :: "esif_handle_t \<Rightarrow> 'c table \<Rightarrow> 'c table" where
  "spec_unregister h A = (case slot_of h (fst A) of None \<Rightarrow> A
     | Some i \<Rightarrow> (case fst A ! i of None \<Rightarrow> A
        | Some (_, c) \<Rightarrow> spec_destroy (Some (esif_ccb_strcpy ESIF_NAME_LEN (fName (fMetadata c)))) A))"

definition unregister_rc :: "esif_handle_t \<Rightarrow> 'c table \<Rightarrow> esif_rc" where
  "unregister_rc h A = (case slot_of h (fst A) of None \<Rightarrow> ESIF_E_NOT_FOUND
     | Some i \<Rightarrow> (case fst A ! i of None \<Rightarrow> ESIF_E_PARAMETER_IS_NULL
        | Some (_, c) \<Rightarrow> destroy_rc (Some (esif_ccb_strcpy ESIF_NAME_LEN (fName (fMetadata c)))) A))"

lemma unregister_spec:
  assumes "pm_abs A s"
  shows "\<exists>s'. EsifUpPm_DestroyParticipantByInstance env h s = Some (unregister_rc h A, s') \<and> pm_abs (spec_unregister h A) s' \<and> same_means s s'"
proof -
  have r: "pm_rep (fst A) s" using assms by (simp add: pm_abs_def)
  note e = get_entry_spec [OF r, of h]
  show ?thesis
  proof (cases "slot_of h (fst A)")
    case None
    then show ?thesis using e assms by (simp add: EsifUpPm_DestroyParticipantByInstance_def spec_unregister_def unregister_rc_def)
  next
    case (Some i)
    then have i: "i < MAX_PARTICIPANT_ENTRY" by (auto simp: slot_of_def dest: find_upt_Some)
    show ?thesis
    proof (cases "fst A ! i")
      case None
      then have "fUpPtr (fEntries s ! i) = None" using pm_repD(5) [OF r i] by (simp add: slot_rep_def)
      then show ?thesis using Some None e assms
        by (simp add: EsifUpPm_DestroyParticipantByInstance_def spec_unregister_def unregister_rc_def lift_up_rc_def EsifUp_GetRef_def)
    next
      case t: (Some x)
      obtain st c where t: "fst A ! i = Some (st, c)" using t by (cases x) auto
      obtain a u where p: "fUpPtr (fEntries s ! i) = Some a" "fState (fEntries s ! i) = st" "idle c" "at a (pm_ups s) c (pm_ups s)"
        using slot_repE [OF r i t] by metis
      from at_get [OF p(4)] p(3) obtain u1 where g: "EsifUp_GetRef (Some a) (pm_ups s) = Some (ESIF_OK, u1)"
        "at a (pm_ups s) (c\<lparr>up_refCount := up_refCount c + 1\<rparr>) u1" by (auto simp: idle_def)
      from at_read [OF g(2)] obtain v where v: "up_at (Some a) u1 = Some (Some v)" "core v = c\<lparr>up_refCount := up_refCount c + 1\<rparr>" by blast
      have nv: "fMetadata v = fMetadata c" using arg_cong [OF v(2), of fMetadata] by simp
      from at_put [OF g(2)] p(3) obtain u2 where q: "EsifUp_PutRef (Some a) u1 = Some u2" "at a (pm_ups s) c u2" by (auto simp: idle_def)
      have w: "slot_wf i (Some (st, c))" using pm_repD(7) [OF r i] t by simp
      have "pm_rep ((fst A)[i := Some (st, c)]) (s\<lparr>pm_ups := u2\<rparr>)"
        using q(2) w p(2) i pm_repD(3) [OF r] by (intro pm_rep_set [OF r i t p(1)]) (auto simp: list_update_id)
      then have ab: "pm_abs A (s\<lparr>pm_ups := u2\<rparr>)" using assms t by (simp add: pm_abs_def) (metis list_update_id)
      have sm: "same_means s (s\<lparr>pm_ups := u2\<rparr>)" using q(2) by (auto simp: same_means_def at_def)
      let ?n = "Some (esif_ccb_strcpy ESIF_NAME_LEN (fName (fMetadata c)))"
      from destroy_spec [OF ab, of env ?n] obtain s' where
        "EsifUpPm_DestroyParticipant env ?n (s\<lparr>pm_ups := u2\<rparr>) = Some (destroy_rc ?n A, s')" "pm_abs (spec_destroy ?n A) s'" "same_means s s'"
        using same_means_trans [OF sm] by blast
      then show ?thesis using Some t e p(1) g(1) v(1) q(1) nv
        by (simp add: EsifUpPm_DestroyParticipantByInstance_def spec_unregister_def unregister_rc_def lift_up_rc_def lift_up_def EsifUp_GetName_def)
    qed
  qed
qed

definition spec_suspend_lf :: "'c table \<Rightarrow> 'c table" where
  "spec_suspend_lf A = (case fst A ! 0 of None \<Rightarrow> A | Some (_, c) \<Rightarrow> ((fst A)[0 := Some (ESIF_PM_PARTICIPANT_STATE_LF_REMOVED, c)], snd A))"

lemma suspend_lf_rest:
  assumes "pm_rep T s" "set is \<subseteq> {1..<MAX_PARTICIPANT_ENTRY}"
  shows "\<exists>s'. suspend_lf_loop is s = Some s' \<and> pm_rep T s' \<and> fEntryCount s' = fEntryCount s \<and> same_means s s'"
  using assms
proof (induction "is" arbitrary: s)
  case Nil
  then show ?case by simp
next
  case (Cons i "is")
  then have i: "i < MAX_PARTICIPANT_ENTRY" "i \<noteq> 0" by auto
  from up_at_slot [OF Cons.prems(1) i(1)] obtain u where u: "up_at (fUpPtr (fEntries s ! i)) (pm_ups s) = Some u" by blast
  let ?s = "case u of None \<Rightarrow> s | Some x \<Rightarrow> if fOrigin x = eParticipantOriginLF then pm_signal (fInstance x) ESIF_EVENT_PARTICIPANT_SUSPEND s else s"
  have s: "pm_rep T ?s" "fEntryCount ?s = fEntryCount s" "same_means s ?s" using Cons.prems(1) by (simp_all add: same_means_def split: option.split)
  from Cons.IH [OF s(1)] Cons.prems(2) obtain s' where
    "suspend_lf_loop is ?s = Some s'" "pm_rep T s'" "fEntryCount s' = fEntryCount ?s" "same_means ?s s'" by auto
  with same_means_trans [OF s(3)] show ?case using u i(2) s(2) by simp
qed

lemma suspend_lf_spec:
  assumes "pm_abs A s" "fst A ! 0 \<noteq> None"
  shows "\<exists>s'. EsifUpPm_SuspendLfParticipants s = Some s' \<and> pm_abs (spec_suspend_lf A) s' \<and> same_means s s'"
proof -
  obtain T n where A: "A = (T, n)" by (cases A)
  have r: "pm_rep T s" "fEntryCount s = n" using assms(1) A by (simp_all add: pm_abs_def)
  have z: "(0::nat) < MAX_PARTICIPANT_ENTRY" by simp
  obtain st c where t: "T ! 0 = Some (st, c)" using assms(2) A by auto
  obtain a u where p: "fUpPtr (fEntries s ! 0) = Some a" "fState (fEntries s ! 0) = st" "idle c" "up_mem (pm_ups s) a = Some u" "at a (pm_ups s) c (pm_ups s)"
    using slot_repE [OF r(1) z t] by metis
  let ?s = "if fOrigin u = eParticipantOriginLF then pm_signal (fInstance u) ESIF_EVENT_PARTICIPANT_SUSPEND s else s"
  let ?s1 = "set_entry 0 (fState_update (\<lambda>_. ESIF_PM_PARTICIPANT_STATE_LF_REMOVED)) ?s"
  have w: "slot_wf 0 (Some (ESIF_PM_PARTICIPANT_STATE_LF_REMOVED, c))" using pm_repD(7) [OF r(1) z] t by (simp add: slot_wf_def)
  have a: "at a (pm_ups s) c (pm_ups ?s1)" using p(5) by (simp add: pm_signal_def at_log)
  have "pm_rep (T[0 := Some (ESIF_PM_PARTICIPANT_STATE_LF_REMOVED, c)]) ?s1"
    using w by (intro pm_rep_set [OF r(1) z t p(1) a]) simp_all
  from suspend_lf_rest [OF this, of "[1..<MAX_PARTICIPANT_ENTRY]"] obtain s' where
    s': "suspend_lf_loop [1..<MAX_PARTICIPANT_ENTRY] ?s1 = Some s'" "pm_rep (T[0 := Some (ESIF_PM_PARTICIPANT_STATE_LF_REMOVED, c)]) s'"
      "fEntryCount s' = fEntryCount ?s1" "same_means ?s1 s'" by auto
  have "same_means s ?s1" by (simp add: same_means_def)
  note sm = same_means_trans [OF this s'(4)]
  have "[0..<MAX_PARTICIPANT_ENTRY] = 0 # [1..<MAX_PARTICIPANT_ENTRY]" by (simp add: upt_conv_Cons)
  then have "EsifUpPm_SuspendLfParticipants s = Some s'" using s'(1) p(1,4)
    by (simp add: EsifUpPm_SuspendLfParticipants_def up_at_def del: upt_Suc upt_rec_numeral)
  with s'(2,3) sm t r(2) show ?thesis by (auto simp: A spec_suspend_lf_def pm_abs_def split: if_splits)
qed

section \<open>Entering the table\<close>

lemma pm_rep_insert:
  assumes r: "pm_rep T s" and i: "i < MAX_PARTICIPANT_ENTRY" and t: "T ! i = None" and f: "up_mem (pm_ups s) a = None"
    and u: "up_mem (pm_ups s') = (up_mem (pm_ups s))(a \<mapsto> u)" "core u = c" "length (domains u) = ESIF_DOMAIN_MAX" "fresh_mem (pm_ups s')"
    and s': "fEntries s' = (fEntries s)[i := \<lparr>fState = st, fUpPtr = Some a\<rparr>]" and w: "slot_wf i (Some (st, c))"
    and h: "handles_taken (pm_handles s') (T[i := Some (st, c)])"
    and n: "\<And>j st' c'. j < MAX_PARTICIPANT_ENTRY \<Longrightarrow> i \<noteq> 0 \<Longrightarrow> j \<noteq> 0 \<Longrightarrow> j \<noteq> i \<Longrightarrow> T ! j = Some (st', c') \<Longrightarrow> slot (fInstance c') \<noteq> slot (fInstance c)"
  shows "pm_rep (T[i := Some (st, c)]) s'"
proof -
  note d = r [unfolded pm_rep_def]
  have len: "length T = MAX_PARTICIPANT_ENTRY" "length (fEntries s) = MAX_PARTICIPANT_ENTRY" using d by (simp_all add: table_wf_def)
  have e: "fEntries s' ! j = (if j = i then \<lparr>fState = st, fUpPtr = Some a\<rparr> else fEntries s ! j)"
      "T[i := Some (st, c)] ! j = (if j = i then Some (st, c) else T ! j)" if "j < MAX_PARTICIPANT_ENTRY" for j
    using that len s' by simp_all
  have other: "fUpPtr (fEntries s ! j) \<noteq> Some a" if "j < MAX_PARTICIPANT_ENTRY" for j
    using d that f by (force simp: slot_rep_def split: option.splits)
  have hn: "slot k \<noteq> slot (fInstance c)" if "j < MAX_PARTICIPANT_ENTRY" "i \<noteq> 0" "j \<noteq> 0" "j \<noteq> i" "slot_handle (T ! j) = Some k" for j k
    using that n [of j] by (auto simp: slot_handle_def)
  have wf: "table_wf (T[i := Some (st, c)])"
  proof -
    have "slot_wf j (T[i := Some (st, c)] ! j)" if "j < MAX_PARTICIPANT_ENTRY" for j using that e d w by (simp add: table_wf_def)
    moreover have "slot hj \<noteq> slot hk" if "j < MAX_PARTICIPANT_ENTRY" "k < MAX_PARTICIPANT_ENTRY" "j \<noteq> 0" "k \<noteq> 0" "j \<noteq> k"
      "slot_handle (T[i := Some (st, c)] ! j) = Some hj" "slot_handle (T[i := Some (st, c)] ! k) = Some hk" for j k hj hk
    proof (cases "j = i \<or> k = i")
      case True
      have c: "slot_handle (Some (st, c)) = Some (fInstance c)" by (simp add: slot_handle_def)
      show ?thesis
      proof (cases "j = i")
        case True
        then show ?thesis using that e hn [of k hk] c by auto
      next
        case False
        then show ?thesis using that e hn [of j hj] c \<open>j = i \<or> k = i\<close> by auto
      qed
    next
      case False
      then show ?thesis using that e d unfolding table_wf_def by (metis (no_types, lifting))
    qed
    ultimately show ?thesis using len unfolding table_wf_def by (metis length_list_update)
  qed
  have rp: "slot_rep (pm_ups s') (fEntries s' ! j) (T[i := Some (st, c)] ! j)" if j: "j < MAX_PARTICIPANT_ENTRY" for j
  proof (cases "j = i")
    case True
    then show ?thesis using e j u by (simp add: slot_rep_def)
  next
    case False
    then show ?thesis using j e u(1) d other [OF j] by (auto intro: slot_rep_other)
  qed
  have own: "\<exists>j<MAX_PARTICIPANT_ENTRY. fUpPtr (fEntries s' ! j) = Some b" if "up_mem (pm_ups s') b \<noteq> None" for b
  proof (cases "b = a")
    case True
    then show ?thesis using i e by (intro exI [of _ i]) simp
  next
    case False
    then have "up_mem (pm_ups s) b \<noteq> None" using that u(1) by simp
    then obtain j where j: "j < MAX_PARTICIPANT_ENTRY" "fUpPtr (fEntries s ! j) = Some b" using d by blast
    have "fUpPtr (fEntries s ! i) = None" using d i t by (auto simp: slot_rep_def)
    then show ?thesis using j e by (intro exI [of _ j]) auto
  qed
  have dist: "fUpPtr (fEntries s' ! j) \<noteq> fUpPtr (fEntries s' ! k)"
    if "j < MAX_PARTICIPANT_ENTRY" "k < MAX_PARTICIPANT_ENTRY" "j \<noteq> k" "fUpPtr (fEntries s' ! j) \<noteq> None" for j k
    using that d e other by (auto split: if_splits) (metis option.discI)+
  have len': "length (fEntries s') = MAX_PARTICIPANT_ENTRY" using len s' by simp
  show ?thesis unfolding pm_rep_def using wf h len' rp u(4) own dist by blast
qed

end
