(* ===== verification/Part_Mgr_Spec.thy ===== *)
theory Part_Mgr_Spec
  imports Part_Table Interfaces
begin

text \<open>
  The refinement of the participant manager: the contract of a registration, branch by branch; the manager as an
  interpretation of the simulation locale; the count as an invariant of the runs without an unload;
  and the properties, from the start of the program on.
\<close>

section \<open>A registration half done\<close>

text \<open>
  The state in the middle of a registration: a reference is held on the participant of one slot, and giving it back
  represents the table.
\<close>

definition held_rep :: "addr \<Rightarrow> 'c EsifUp \<Rightarrow> 'c table \<Rightarrow> 'c EsifUppMgr \<Rightarrow> bool" where
  "held_rep a c A s \<longleftrightarrow> at a (pm_ups s) (c\<lparr>up_refCount := 2\<rparr>) (pm_ups s) \<and> idle c \<and> fEntryCount s = snd A
     \<and> (\<forall>ups. at a (pm_ups s) c ups \<longrightarrow> pm_rep (fst A) (s\<lparr>pm_ups := ups\<rparr>))"

lemma at_trans: "at a s c s1 \<Longrightarrow> at a s1 c' s2 \<longleftrightarrow> at a s c' s2"
  by (auto simp: at_def)

lemma at_self: "at a s c s1 \<Longrightarrow> at a s1 c s1"
  using at_trans by blast

lemma held_rep_step:
  assumes "held_rep a c A s" "at a (pm_ups s) (c\<lparr>up_refCount := 2\<rparr>) u"
    "pm_ups s' = u" "fEntries s' = fEntries s" "fEntryCount s' = fEntryCount s" "pm_handles s' = pm_handles s"
  shows "held_rep a c A s'"
proof -
  have "pm_rep (fst A) (s'\<lparr>pm_ups := ups\<rparr>)" if "at a u c ups" for ups
  proof -
    have "pm_rep (fst A) (s\<lparr>pm_ups := ups\<rparr>)" using assms(1,2) that at_trans unfolding held_rep_def by blast
    then show ?thesis using assms(4,6) by (subst pm_rep_cong [of _ "s\<lparr>pm_ups := ups\<rparr>"]) simp_all
  qed
  then show ?thesis using assms at_self unfolding held_rep_def by metis
qed

lemma held_rep_note [simp]: "held_rep a c A (pm_note x s) = held_rep a c A s"
proof -
  have "pm_rep T (pm_note x s\<lparr>pm_ups := ups\<rparr>) = pm_rep T (s\<lparr>pm_ups := ups\<rparr>)" for T ups by (rule pm_rep_cong) simp_all
  then show ?thesis by (simp add: held_rep_def)
qed

lemma held_put:
  assumes "held_rep a c A s"
  shows "\<exists>s'. lift_up (EsifUp_PutRef (Some a)) s = Some s' \<and> pm_abs A s' \<and> same_means s s'"
proof -
  have h: "at a (pm_ups s) (c\<lparr>up_refCount := 2\<rparr>) (pm_ups s)" "idle c" using assms by (simp_all add: held_rep_def)
  have "\<not> up_markedForDelete (c\<lparr>up_refCount := 2\<rparr>)" using h(2) by (simp add: idle_def)
  from at_put [OF h(1) this] obtain u where u: "EsifUp_PutRef (Some a) (pm_ups s) = Some u"
    "at a (pm_ups s) (c\<lparr>up_refCount := 2, up_refCount := 2 - 1\<rparr>) u" by auto
  moreover have "c\<lparr>up_refCount := 2, up_refCount := 2 - 1\<rparr> = c" using h(2) idle_ref by simp
  moreover have "up_alloc u = up_alloc (pm_ups s)" using u(2) by (simp add: at_def)
  ultimately show ?thesis using assms by (simp add: lift_up_def held_rep_def pm_abs_def same_means_def)
qed

lemma held_usable: "idle c \<Longrightarrow> usable (c\<lparr>up_refCount := 2\<rparr>)"
  by (simp add: idle_def usable_def)

lemma announce_spec:
  assumes "held_rep a c A s"
  shows "\<exists>s'. register_announce env (Some a) s = Some (fInstance c, s') \<and> held_rep a c A s' \<and> same_means s s'"
proof -
  let ?c = "c\<lparr>up_refCount := 2\<rparr>"
  have h: "at a (pm_ups s) ?c (pm_ups s)" "usable ?c" using assms held_usable by (auto simp: held_rep_def)
  have rd: "\<exists>u. up_at (Some a) s' = Some (Some u) \<and> fInstance u = fInstance c" if b: "at a s0 ?c s'" for s0 s'
  proof -
    obtain u where u: "up_at (Some a) s' = Some (Some u)" "core u = ?c" using at_read [OF b] by blast
    have "fInstance u = fInstance c" using arg_cong [OF u(2), of fInstance] by simp
    with u(1) show ?thesis by blast
  qed
  obtain u where u: "up_at (Some a) (pm_ups s) = Some (Some u)" "fInstance u = fInstance c" using rd [OF h(1)] by blast
  obtain u1 where u1: "EsifUp_DspReadyInit (up_env_of env) (Some a) (pm_ups s) = Some (ESIF_OK, u1)" "at a (pm_ups s) ?c u1"
    using at_ready_init [OF h] by blast
  obtain v where v: "up_at (Some a) u1 = Some (Some v)" using rd [OF u1(2)] by blast
  let ?f = "\<lambda>d. if activity_logged (domainType (ud d))
      then snd (signal_event (device_of env a) ESIF_EVENT_DTT_PARTICIPANT_ACTIVITY_LOGGING_ENABLED (Some (caps_of (ud d))) d) else d"
  obtain u2 where u2: "each_domain ?f (Some a) u1 = Some (ESIF_OK, u2)" "at a (pm_ups s) ?c u2"
    using at_each_domain [OF u1(2) h(2)] by blast
  obtain s' where s': "register_announce env (Some a) s = Some (fInstance c, s')"
      "pm_ups s' = u2\<lparr>up_events := up_events u2 @ [\<lparr>ev_participant = fInstance c, ev_domain = EVENT_MGR_DOMAIN_D0,
        ev_type = ESIF_EVENT_PARTICIPANT_CREATE_COMPLETE, ev_value = None\<rparr>]\<rparr>"
      "fEntries s' = fEntries s" "fEntryCount s' = fEntryCount s" "pm_handles s' = pm_handles s"
    using u u1(1) v u2(1)
    by (simp add: register_announce_def lift_up_rc_def EsifAppMgr_CreateParticipantInAllApps_def
        EsifUpPm_ParticipantActivityLoggingEnable_def EsifUp_GetInstance_def Let_def pm_signal_def)
  have "at a (pm_ups s) ?c (pm_ups s')" using u2(2) s'(2) by (simp add: at_log)
  moreover from this have "same_means s s'" using s'(5) by (auto simp: same_means_def at_def)
  ultimately show ?thesis using held_rep_step [OF assms _ refl] s' by blast
qed

section \<open>The contract of a registration\<close>

definition spec_overlap :: "up_metadata \<Rightarrow> 'c slot list \<Rightarrow> nat option" where
  "spec_overlap meta T = (if bit (meta_flags meta) ESIF_FLAG_DPTFZ then (if T ! 0 \<noteq> None then Some 0 else None)
     else find (\<lambda>j. case T ! j of None \<Rightarrow> False | Some (_, c) \<Rightarrow> collides meta c) [0..<MAX_PARTICIPANT_ENTRY])"

definition spec_free :: "bool \<Rightarrow> 'c slot list \<Rightarrow> nat option" where
  "spec_free primary T = find (\<lambda>i. T ! i = None \<and> (i \<noteq> 0 \<or> primary)) [0..<MAX_PARTICIPANT_ENTRY]"

text \<open>
  The registration of a participant with metadata \<open>meta\<close>: status, handle and table afterwards. \<open>mem\<close> says that memory does not
  fail, \<open>k\<close> counts the handles drawn so far. A registration is refused, and leaves the table as it was, only for a cause:
  memory may fail, there is no package for the participant, no entry is free, or all handles are spent. A resumption that fails
  may change the kernel number and the package of the participant.
\<close>

definition handles_spent :: "nat \<Rightarrow> bool" where
  "handles_spent k \<longleftrightarrow> 65532 \<le> k"

definition spec_register :: "up_env \<Rightarrow> bool \<Rightarrow> nat \<Rightarrow> up_metadata \<Rightarrow> 'c table \<Rightarrow> esif_rc \<Rightarrow> esif_handle_t \<Rightarrow> 'c table \<Rightarrow> bool" where
  "spec_register env mem k meta A rc h A' \<longleftrightarrow>
     (let refused = (rc = ESIF_E_NO_CREATE \<and> h = ESIF_INVALID_HANDLE \<and> A' = A); T = fst A;
          ready = package_ready env meta; primary = bit (meta_flags meta) ESIF_FLAG_DPTFZ in
      case spec_overlap meta T of
        None \<Rightarrow> refused \<and> (\<not> mem \<or> \<not> ready \<or> spec_free primary T = None \<or> \<not> primary \<and> handles_spent k)
          \<or> (\<exists>i c. rc = ESIF_OK \<and> ready \<and> spec_free primary T = Some i \<and> made_from meta c \<and> h = fInstance c
               \<and> A' = (T[i := Some (ESIF_PM_PARTICIPANT_STATE_CREATED, c)], snd A + 1))
      | Some i \<Rightarrow> (case T ! i of None \<Rightarrow> False
        | Some (st, c) \<Rightarrow>
            if EsifUp_IsPreferredParticipant (Some c) meta then
              refused \<and> (\<not> mem \<or> \<not> ready) \<or> (\<exists>c'. rc = ESIF_OK \<and> ready \<and> made_from meta c' \<and> fInstance c' = fInstance c \<and> h = fInstance c
                \<and> A' = (T[i := Some (ESIF_PM_PARTICIPANT_STATE_CREATED, c')], if st = ESIF_PM_PARTICIPANT_STATE_CREATED then snd A else snd A + 1))
            else if fName (fMetadata c) \<noteq> meta_name meta \<or> st = ESIF_PM_PARTICIPANT_STATE_CREATED
            then rc = ESIF_OK \<and> h = ESIF_INVALID_HANDLE \<and> A' = A
            else (case reinit env meta c of (rc0, c') \<Rightarrow>
              if rc0 = ESIF_OK then rc = ESIF_OK \<and> h = fInstance c \<and> A' = (T[i := Some (ESIF_PM_PARTICIPANT_STATE_CREATED, c')], snd A + 1)
              else rc = ESIF_E_NO_CREATE \<and> h = ESIF_INVALID_HANDLE \<and> A' = (T[i := Some (st, c')], snd A))))"

text \<open>The handles drawn afterwards: one more for a new participant, except the primary one.\<close>

definition handles_drawn :: "up_metadata \<Rightarrow> 'c table \<Rightarrow> esif_rc \<Rightarrow> nat \<Rightarrow> nat" where
  "handles_drawn meta A rc k =
     (if spec_overlap meta (fst A) = None \<and> \<not> bit (meta_flags meta) ESIF_FLAG_DPTFZ \<and> rc = ESIF_OK then Suc k else k)"

text \<open>What a state has of memory and handles.\<close>

definition pm_means :: "bool \<Rightarrow> nat \<Rightarrow> 'c EsifUppMgr \<Rightarrow> bool" where
  "pm_means mem k s \<longleftrightarrow> (mem \<longrightarrow> (\<forall>a. alloc_ok (up_alloc (pm_ups s)) a)) \<and> card (used_slots (the (pm_handles s))) = k"

lemma pm_means_same: "same_means s s' \<Longrightarrow> pm_means mem k s \<Longrightarrow> pm_means mem k s'"
  by (simp add: pm_means_def same_means_def)

lemma pm_means_mem: "pm_means mem k s \<Longrightarrow> \<not> alloc_ok (up_alloc (pm_ups s)) a \<Longrightarrow> \<not> mem"
  by (auto simp: pm_means_def)

text \<open>What a branch hands on.\<close>

definition branch_ok :: "(esif_rc \<Rightarrow> esif_handle_t \<Rightarrow> 'c table \<Rightarrow> bool) \<Rightarrow> reg_result \<Rightarrow> 'c EsifUppMgr \<Rightarrow> bool" where
  "branch_ok P r s \<longleftrightarrow> (\<exists>A h. P (reg_rc r) h A \<and> (case reg_up r of
     None \<Rightarrow> \<not> reg_goes_on r \<and> h = ESIF_INVALID_HANDLE \<and> pm_abs A s
   | Some a \<Rightarrow> \<exists>c. held_rep a c A s \<and> h = (if reg_goes_on r then fInstance c else ESIF_INVALID_HANDLE)))"

lemma overlap_spec:
  assumes "pm_rep T s"
  shows "EsifUpPm_GetOverlappingEntryFromMetadataLocked meta s = Some (spec_overlap meta T)"
proof (cases "bit (meta_flags meta) ESIF_FLAG_DPTFZ")
  case True
  have "slot_rep (pm_ups s) (fEntries s ! 0) (T ! 0)" using pm_repD(5) [OF assms, of 0] by simp
  then have "(fUpPtr (fEntries s ! 0) \<noteq> None) = (T ! 0 \<noteq> None)" by (auto simp: slot_rep_def split: option.splits)
  with True show ?thesis by (simp add: EsifUpPm_GetOverlappingEntryFromMetadataLocked_def spec_overlap_def)
next
  case False
  have col: "collides meta (core x) = collides meta x" for x :: "'c EsifUp" by (simp add: collides_def)
  have "find_entry_loop (\<lambda>_ _ u. case u of None \<Rightarrow> False | Some x \<Rightarrow> collides meta x) (pm_ups s) 0 (fEntries s)
    = Some (find (\<lambda>j. case T ! j of None \<Rightarrow> False | Some (_, c) \<Rightarrow> collides meta c) [0..<MAX_PARTICIPANT_ENTRY])"
    by (rule find_entry [OF assms]) (auto simp: col split: option.splits)
  then show ?thesis using False by (simp add: EsifUpPm_GetOverlappingEntryFromMetadataLocked_def spec_overlap_def)
qed

lemma overlap_slot:
  assumes "pm_rep T s" "spec_overlap meta T = Some i"
  shows "i < MAX_PARTICIPANT_ENTRY" "T ! i \<noteq> None"
  using assms(2) by (auto simp: spec_overlap_def dest!: find_upt_Some split: if_splits option.splits)

lemma preferred_core [simp]: "EsifUp_IsPreferredParticipant (Some (core u)) meta = EsifUp_IsPreferredParticipant (Some u) meta"
  by (cases meta) (simp_all add: EsifUp_IsPreferredParticipant_def Let_def)

lemma reinit_ref: "reinit env meta (c\<lparr>up_refCount := k\<rparr>) = (fst (reinit env meta c), (snd (reinit env meta c))\<lparr>up_refCount := k\<rparr>)"
  by (simp add: reinit_defs Let_def split: up_metadata.splits option.splits)

lemma reinit_core_idem: "core c = c \<Longrightarrow> core (snd (reinit env meta c)) = snd (reinit env meta c)"
  using reinit_core [of env meta c] by (metis snd_conv)

lemma reinit_idle: "idle c \<Longrightarrow> idle (snd (reinit env meta c))"
  by (simp add: idle_def reinit_keeps)

lemma held_repI:
  assumes "at a s0 (c\<lparr>up_refCount := 2\<rparr>) (pm_ups s)" "idle c" "fEntryCount s = snd A"
    "\<And>ups. at a s0 c ups \<Longrightarrow> pm_rep (fst A) (s\<lparr>pm_ups := ups\<rparr>)"
  shows "held_rep a c A s"
  using assms at_self [OF assms(1)] at_trans [OF assms(1)] unfolding held_rep_def by blast

lemma fresh_mem_mono: "fresh_mem s \<Longrightarrow> next_addr (up_alloc s) \<le> next_addr m \<Longrightarrow> fresh_mem (s\<lparr>up_alloc := m\<rparr>)"
  by (simp add: fresh_mem_def) (meson less_le_trans)

lemma pm_abs_alloc:
  assumes "pm_abs A s" "esif_ccb_malloc (up_alloc (pm_ups s)) = (p, m)"
  shows "pm_abs A (s\<lparr>pm_ups := (pm_ups s)\<lparr>up_alloc := m\<rparr>\<rparr>)"
proof -
  have "next_addr (up_alloc (pm_ups s)) \<le> next_addr m" using assms(2) by (auto simp: esif_ccb_malloc_def)
  then have "fresh_mem ((pm_ups s)\<lparr>up_alloc := m\<rparr>)" using assms(1) fresh_mem_mono by (auto simp: pm_abs_def pm_rep_def)
  then show ?thesis using assms(1) by (simp add: pm_abs_def pm_rep_def slot_rep_def cong: option.case_cong prod.case_cong)
qed

lemma kept_branch:
  assumes "pm_abs A s" "spec_overlap meta (fst A) = Some i" "fst A ! i = Some (st, c)" "\<not> EsifUp_IsPreferredParticipant (Some c) meta"
  shows "\<exists>r s1. register_kept env meta i s = Some (r, s1) \<and> branch_ok (spec_register (up_env_of env) mem k meta A) r s1 \<and> same_means s s1"
proof -
  obtain T n where A: "A = (T, n)" by (cases A)
  have r: "pm_rep T s" "fEntryCount s = n" and ov: "spec_overlap meta T = Some i" and t: "T ! i = Some (st, c)"
    using assms A by (simp_all add: pm_abs_def)
  note i = overlap_slot(1) [OF r(1) ov]
  obtain a u where p: "fUpPtr (fEntries s ! i) = Some a" "up_mem (pm_ups s) a = Some u" "core u = c" "fState (fEntries s ! i) = st" "idle c" "at a (pm_ups s) c (pm_ups s)"
    using slot_repE [OF r(1) i t] by metis
  have cc: "core c = c" and nu: "fMetadata u = fMetadata c" using p(3) by auto
  have late: "state_num st > state_num ESIF_PM_PARTICIPANT_STATE_LF_REMOVED \<longleftrightarrow> st = ESIF_PM_PARTICIPANT_STATE_CREATED" by (cases st) simp_all
  show ?thesis
  proof (cases "fName (fMetadata c) = meta_name meta")
    case False
    let ?w = "case meta of OriginLF lp \<Rightarrow> lp_enumerator lp = ESIF_PARTICIPANT_ENUM_CONJURE | OriginUF _ \<Rightarrow> False"
    obtain nm s1 where nd: "name_to_destroy ?w (meta_name meta) s = (nm, s1)" by (cases "name_to_destroy ?w (meta_name meta) s")
    then have "pm_abs A s1" "same_means s s1" using assms(1) pm_abs_alloc [OF assms(1)]
      by (auto simp: name_to_destroy_def same_means_def esif_ccb_malloc_def Let_def split: if_splits prod.splits)
    then show ?thesis using False assms(4) ov t p(1,2) nu nd
      by (simp add: register_kept_def up_at_def DoesPartNameMatchMetadata_def branch_ok_def spec_register_def A reg_stop_def Let_def)
  next
    case same: True
    show ?thesis
    proof (cases "st = ESIF_PM_PARTICIPANT_STATE_CREATED")
      case True
      then show ?thesis using same assms(1,4) ov t p(1,2,4) nu late
        by (simp add: register_kept_def up_at_def DoesPartNameMatchMetadata_def branch_ok_def spec_register_def A reg_stop_def Let_def)
    next
      case st: False
      from at_get [OF p(6)] p(5) obtain u1 where g: "EsifUp_GetRef (Some a) (pm_ups s) = Some (ESIF_OK, u1)"
        "at a (pm_ups s) (c\<lparr>up_refCount := 2\<rparr>) u1" by (auto simp: idle_def)
      obtain rc1 c1 where ri: "reinit (up_env_of env) meta c = (rc1, c1)" by (cases "reinit (up_env_of env) meta c")
      from at_reinit [OF g(2), of "up_env_of env" meta] ri obtain u2 where
        q: "EsifUp_ReInitializeParticipant (up_env_of env) (Some a) meta u1 = Some (rc1, u2)" "at a (pm_ups s) (c1\<lparr>up_refCount := 2\<rparr>) u2"
        by (auto simp: reinit_ref)
      have c1: "idle c1" "fInstance c1 = fInstance c" using reinit_idle [OF p(5), of "up_env_of env" meta] reinit_keeps(1) [of "up_env_of env" meta c] ri by simp_all
      have w: "slot_wf i (Some (st, c))" using pm_repD(7) [OF r(1) i] t by simp
      have put: "pm_rep (T[i := Some (st', c1)]) s'"
        if "at a (pm_ups s) c1 (pm_ups s')" "st' = st \<or> st' = ESIF_PM_PARTICIPANT_STATE_CREATED"
          "fEntries s' = (fEntries s)[i := (fEntries s ! i)\<lparr>fState := st'\<rparr>]" "pm_handles s' = pm_handles s" for s' st'
        using that w c1 by (intro pm_rep_set [OF r(1) i t p(1)]) (auto simp: slot_wf_def)
      let ?s2 = "s\<lparr>pm_ups := u2\<rparr>"
      have run: "register_kept env meta i s = Some (if rc1 \<noteq> ESIF_OK then ((reg_stop ESIF_E_NO_CREATE)\<lparr>reg_up := Some a\<rparr>, ?s2)
          else (\<lparr>reg_rc = ESIF_OK, reg_up = Some a, reg_goes_on = True, reg_remove = None\<rparr>, enter_created i ?s2))"
        using same st late p(1,2,4) nu g(1) q(1)
        by (simp add: register_kept_def up_at_def DoesPartNameMatchMetadata_def lift_up_rc_def Let_def del: state_num.simps)
      show ?thesis
      proof (cases "rc1 = ESIF_OK")
        case True
        have "same_means s (enter_created i ?s2)" using q(2) by (simp add: same_means_def enter_created_def at_def)
        moreover have "held_rep a c1 (T[i := Some (ESIF_PM_PARTICIPANT_STATE_CREATED, c1)], n + 1) (enter_created i ?s2)"
          using q(2) c1(1) r(2) by (intro held_repI [of a "pm_ups s"]) (auto simp: enter_created_def intro!: put)
        ultimately show ?thesis using run True ri same st assms(4) ov t c1(2)
          by (auto simp: branch_ok_def spec_register_def A Let_def intro!: exI [of _ "(T[i := Some (ESIF_PM_PARTICIPANT_STATE_CREATED, c1)], n + 1)"])
      next
        case False
        have es: "(fEntries s)[i := (fEntries s ! i)\<lparr>fState := st\<rparr>] = fEntries s" using p(4) by (metis EsifUpManagerEntry.surjective EsifUpManagerEntry.update_convs(1) list_update_id)
        have "same_means s ?s2" using q(2) by (simp add: same_means_def at_def)
        moreover have "held_rep a c1 (T[i := Some (st, c1)], n) ?s2"
          using q(2) c1(1) r(2) by (intro held_repI [of a "pm_ups s"]) (auto simp: es intro!: put)
        ultimately show ?thesis using run False ri same st assms(4) ov t
          by (auto simp: branch_ok_def spec_register_def A Let_def reg_stop_def intro!: exI [of _ "(T[i := Some (st, c1)], n)"])
      qed
    qed
  qed
qed

lemma pm_rep_replace:
  assumes r: "pm_rep T s" and i: "i < MAX_PARTICIPANT_ENTRY" and t: "T ! i = Some (st, c)" and p: "fUpPtr (fEntries s ! i) = Some a"
    and b: "up_mem (pm_ups s) b = None"
    and u: "up_mem (pm_ups s') = (up_mem (pm_ups s))(a := None, b \<mapsto> w)" "core w = c'" "length (domains w) = ESIF_DOMAIN_MAX" "fresh_mem (pm_ups s')"
    and s': "fEntries s' = (fEntries s)[i := \<lparr>fState = ESIF_PM_PARTICIPANT_STATE_CREATED, fUpPtr = Some b\<rparr>]" "pm_handles s' = pm_handles s"
    and c': "idle c'" "fInstance c' = fInstance c"
  shows "pm_rep (T[i := Some (ESIF_PM_PARTICIPANT_STATE_CREATED, c')]) s'"
proof -
  let ?m = "s\<lparr>fEntries := (fEntries s)[i := \<lparr>fState = ESIF_PM_PARTICIPANT_STATE_AVAILABLE, fUpPtr = None\<rparr>],
    pm_ups := (pm_ups s)\<lparr>up_mem := (up_mem (pm_ups s))(a := None)\<rparr>\<rparr>"
  have len: "length T = MAX_PARTICIPANT_ENTRY" using pm_repD(4) [OF r] .
  have m: "pm_rep (T[i := None]) ?m" by (rule pm_rep_clear [OF r i p]) simp_all
  have w: "slot_wf i (Some (ESIF_PM_PARTICIPANT_STATE_CREATED, c'))"
    using pm_repD(7) [OF r i] t c' by (auto simp: slot_wf_def)
  have hs: "slot_handle (T[i := Some (ESIF_PM_PARTICIPANT_STATE_CREATED, c')] ! j) = slot_handle (T ! j)" if "j < MAX_PARTICIPANT_ENTRY" for j
    using that len t c'(2) by (cases "j = i") (simp_all add: slot_handle_def)
  have h: "handles_taken (pm_handles s') ((T[i := None])[i := Some (ESIF_PM_PARTICIPANT_STATE_CREATED, c')])"
    using pm_repD(2) [OF r] s'(2) by (auto simp: handles_taken_def hs)
  have n: "slot (fInstance x) \<noteq> slot (fInstance c')"
    if "j < MAX_PARTICIPANT_ENTRY" "i \<noteq> 0" "j \<noteq> 0" "j \<noteq> i" "T[i := None] ! j = Some (st', x)" for j st' x
    using that len table_wf_distinct [OF pm_repD(1) [OF r] that(1) i that(3,2,4) _ t] c'(2) by simp
  have "pm_rep ((T[i := None])[i := Some (ESIF_PM_PARTICIPANT_STATE_CREATED, c')]) s'"
    using u s'(1) b len i by (intro pm_rep_insert [OF m i _ _ _ u(2,3,4) _ w h n]) auto
  then show ?thesis by simp
qed

lemma enter_created_simps [simp]:
  "pm_ups (enter_created i s) = pm_ups s" "pm_handles (enter_created i s) = pm_handles s" "fEntryCount (enter_created i s) = fEntryCount s + 1"
  by (simp_all add: enter_created_def)

lemma pm_rep_same_mem:
  "pm_rep T s \<Longrightarrow> fEntries s' = fEntries s \<Longrightarrow> up_mem (pm_ups s') = up_mem (pm_ups s) \<Longrightarrow> fresh_mem (pm_ups s') \<Longrightarrow> pm_handles s' = pm_handles s \<Longrightarrow> pm_rep T s'"
  by (simp add: pm_rep_def slot_rep_def cong: option.case_cong prod.case_cong)

lemma made_from_instance: "made_from meta c \<Longrightarrow> made_from meta (c\<lparr>fInstance := h\<rparr>)"
  by (auto simp: made_from_def idle_def split: up_metadata.splits)

lemma branch_ok_held:
  "held_rep a c A s \<Longrightarrow> reg_up r = Some a \<Longrightarrow> P (reg_rc r) (if reg_goes_on r then fInstance c else ESIF_INVALID_HANDLE) A \<Longrightarrow> branch_ok P r s"
  unfolding branch_ok_def by (intro exI [of _ A] exI [of _ "if reg_goes_on r then fInstance c else ESIF_INVALID_HANDLE"]) auto

lemma replacing_branch:
  assumes "pm_abs A s" "spec_overlap meta (fst A) = Some i" "fst A ! i = Some (st, c)" "EsifUp_IsPreferredParticipant (Some c) meta" "packages_ok env"
    "pm_means mem k s"
  shows "\<exists>r s1. register_replacing env meta i s = Some (r, s1) \<and> branch_ok (spec_register (up_env_of env) mem k meta A) r s1 \<and> same_means s s1"
proof -
  obtain T n where A: "A = (T, n)" by (cases A)
  have r: "pm_rep T s" "fEntryCount s = n" and ov: "spec_overlap meta T = Some i" and t: "T ! i = Some (st, c)"
    using assms A by (simp_all add: pm_abs_def)
  note i = overlap_slot(1) [OF r(1) ov]
  obtain a u where p: "fUpPtr (fEntries s ! i) = Some a" "up_mem (pm_ups s) a = Some u" "core u = c" "fState (fEntries s ! i) = st" "idle c"
      "length (domains u) = ESIF_DOMAIN_MAX"
    using slot_repE [OF r(1) i t] by metis
  from create_up_spec [OF assms(5) pm_repD(6) [OF r(1)], of meta] obtain rc q u1 where
    cr: "EsifUp_CreateParticipant (up_env_of env) meta (pm_ups s) = Some (rc, q, u1)" "fresh_mem u1"
      "if rc = ESIF_OK then (\<exists>a s0 c. q = Some a \<and> up_mem (pm_ups s) a = None \<and> up_mem s0 = up_mem (pm_ups s) \<and> up_alloc s0 = up_alloc u1 \<and> at a s0 c u1 \<and> made_from meta c)
       else q = None \<and> up_mem u1 = up_mem (pm_ups s)"
      "alloc_ok (up_alloc u1) = alloc_ok (up_alloc (pm_ups s))"
      "rc = ESIF_OK \<longleftrightarrow> alloc_ok (up_alloc (pm_ups s)) (next_addr (up_alloc (pm_ups s))) \<and> package_ready (up_env_of env) meta" by blast
  show ?thesis
  proof (cases "rc = ESIF_OK")
    case False
    have "pm_abs A (s\<lparr>pm_ups := u1\<rparr>)" using assms(1) cr(2,3) False r
      by (auto simp: pm_abs_def intro: pm_rep_same_mem)
    moreover have "\<not> mem \<or> \<not> package_ready (up_env_of env) meta" using False cr(5) pm_means_mem [OF assms(6)] by blast
    moreover have "same_means s (s\<lparr>pm_ups := u1\<rparr>)" using cr(4) by (simp add: same_means_def)
    ultimately show ?thesis using False cr(1,3) ov t assms(4)
      by (auto simp: register_replacing_def create_up_def Let_def branch_ok_def reg_stop_def spec_register_def A intro!: exI [of _ A])
  next
    case True
    then obtain b s0 c0 where b: "q = Some b" "up_mem (pm_ups s) b = None" "up_mem s0 = up_mem (pm_ups s)" "up_alloc s0 = up_alloc u1"
        "at b s0 c0 u1" "made_from meta c0" using cr(3) by auto
    have ab: "a \<noteq> b" using b(2) p(2) by auto
    have id0: "idle c0" using b(6) by (simp add: made_from_def)
    let ?c1 = "c0\<lparr>fInstance := fInstance c\<rparr>"
    have c1: "made_from meta ?c1" "idle ?c1" "fInstance ?c1 = fInstance c" using made_from_instance [OF b(6)] by (simp_all add: made_from_def)
    have ua: "up_mem x a = Some u" if "at b s0 y x" for x y using that ab b(3) p(2) by (auto simp: at_def)
    have nu: "fInstance u = fInstance c" using p(3) by auto
    obtain u2 where u2: "EsifUp_SetInstance (Some b) (fInstance c) u1 = Some u2" "at b s0 ?c1 u2"
      using at_set_instance [OF b(5) idle_usable(1) [OF id0]] by blast
    obtain u3 where u3: "EsifUp_GetRef (Some b) u2 = Some (ESIF_OK, u3)" "at b s0 (?c1\<lparr>up_refCount := 2\<rparr>) u3"
      using at_get [OF u2(2)] c1(2) by (auto simp: idle_def)
    have a3: "at a u3 c u3" using at_start [of u3 a u] ua [OF u3(2)] p(3,6) by simp
    obtain u4 where u4: "EsifUp_SuspendParticipant (Some a) u3 = Some (ESIF_OK, u4)" "at a u3 c u4"
      using at_each_domain [OF a3 idle_usable(1) [OF p(5)]] unfolding EsifUp_SuspendParticipant_def by blast
    obtain x where x: "up_mem u4 = (up_mem u3)(a \<mapsto> x)" "up_mem u4 a = Some x" "core x = c" "length (domains x) = ESIF_DOMAIN_MAX" "up_alloc u4 = up_alloc u3"
      using u4(2) by (rule atE)
    let ?s4 = "s\<lparr>pm_ups := u4\<rparr>"
    let ?s5 = "if st \<noteq> ESIF_PM_PARTICIPANT_STATE_CREATED then enter_created i ?s4 else ?s4"
    let ?s7 = "pm_note (AppsDestroy (fInstance x)) (set_entry i (fUpPtr_update (\<lambda>_. Some b)) ?s5)"
    let ?w = "fOrigin x = eParticipantOriginLF \<and> fEnumerator (fMetadata x) = ESIF_PARTICIPANT_ENUM_CONJURE"
    obtain nm s8 where nd: "name_to_destroy ?w (fName (fMetadata x)) ?s7 = (nm, s8)" by (cases "name_to_destroy ?w (fName (fMetadata x)) ?s7")
    have len: "length (fEntries s) = MAX_PARTICIPANT_ENTRY" using pm_repD(3) [OF r(1)] .
    have s7: "fEntries ?s7 = (fEntries s)[i := \<lparr>fState = ESIF_PM_PARTICIPANT_STATE_CREATED, fUpPtr = Some b\<rparr>]" "pm_ups ?s7 = u4"
        "pm_handles ?s7 = pm_handles s" "fEntryCount ?s7 = (if st = ESIF_PM_PARTICIPANT_STATE_CREATED then n else n + 1)"
      using len i p(4) r(2) by (cases "fEntries s ! i"; auto simp: enter_created_def)+
    have s8: "fEntries s8 = fEntries ?s7" "up_mem (pm_ups s8) = up_mem u4" "pm_handles s8 = pm_handles s" "fEntryCount s8 = fEntryCount ?s7"
        "next_addr (up_alloc u4) \<le> next_addr (up_alloc (pm_ups s8))" "alloc_ok (up_alloc (pm_ups s8)) = alloc_ok (up_alloc u4)"
      using nd s7 by (auto simp: name_to_destroy_def esif_ccb_malloc_def Let_def split: if_splits)
    have "up_mem (pm_ups s8) a = Some x" using s8(2) x(2) by simp
    then have "at a (pm_ups s8) c (pm_ups s8)" using at_start [of "pm_ups s8" a x] x(3,4) by simp
    from destroy_idle [OF this p(5)] obtain u9 where u9: "EsifUp_DestroyParticipant (Some a) (pm_ups s8) = Some u9"
      "up_mem u9 = (up_mem (pm_ups s8))(a := None)" "up_alloc u9 = up_alloc (pm_ups s8)" by blast
    let ?s9 = "s8\<lparr>pm_ups := u9\<rparr>"
    let ?A = "(T[i := Some (ESIF_PM_PARTICIPANT_STATE_CREATED, ?c1)], if st = ESIF_PM_PARTICIPANT_STATE_CREATED then n else n + 1)"
    have run: "register_replacing env meta i s
        = Some (\<lparr>reg_rc = ESIF_OK, reg_up = Some b, reg_goes_on = True, reg_remove = nm\<rparr>, ?s9)"
    proof -
      have ua1: "up_at (Some a) u1 = Some (Some u)" using ua [OF b(5)] by (simp add: up_at_def)
      show ?thesis
        using cr(1) True b(1) p(1,4) ua1 nu u2(1) u3(1) u4(1) x(2) nd u9(1)
        by (cases "st = ESIF_PM_PARTICIPANT_STATE_CREATED") (simp_all add: register_replacing_def create_up_def lift_up_def lift_up_rc_def EsifUp_GetInstance_def EsifUp_GetName_def
            EsifAppMgr_DestroyParticipantInAllApps_def up_at_def Let_def)
    qed
    obtain v where v: "up_mem u3 = (up_mem s0)(b \<mapsto> v)" "core v = ?c1\<lparr>up_refCount := 2\<rparr>" "length (domains v) = ESIF_DOMAIN_MAX" "up_alloc u3 = up_alloc s0"
      using u3(2) by (rule atE)
    have m9: "up_mem u9 = (up_mem (pm_ups s))(a := None, b \<mapsto> v)" using u9(2) s8(2) x(1) v(1) b(3) ab by (auto simp: fun_upd_twist)
    have al: "next_addr (up_alloc u1) \<le> next_addr (up_alloc u9)" using s8(5) x(5) v(4) b(4) u9(3) by simp
    have f9: "\<forall>z. up_mem u9 z \<noteq> None \<longrightarrow> z < next_addr (up_alloc u9)"
    proof (intro allI impI)
      fix z assume "up_mem u9 z \<noteq> None"
      then have "up_mem u1 z \<noteq> None" using m9 b(3,5) by (auto simp: at_def split: if_splits)
      then show "z < next_addr (up_alloc u9)" using cr(2) al by (auto simp: fresh_mem_def dest!: bspec [where x = z])
    qed
    have "held_rep b ?c1 ?A ?s9"
    proof (rule held_repI [of b u9])
      show "at b u9 (?c1\<lparr>up_refCount := 2\<rparr>) (pm_ups ?s9)" using at_start [of u9 b v] m9 v(2,3) by simp
      show "idle ?c1" "fEntryCount ?s9 = snd ?A" using c1(2) s8(4) s7(4) by simp_all
      fix ups assume "at b u9 ?c1 ups"
      then obtain w where w: "up_mem ups = (up_mem u9)(b \<mapsto> w)" "core w = ?c1" "length (domains w) = ESIF_DOMAIN_MAX" "up_alloc ups = up_alloc u9" by (rule atE)
      have "up_mem u9 z \<noteq> None" if "up_mem ups z \<noteq> None" for z using that w(1) m9 by (cases "z = b") simp_all
      then have "fresh_mem ups" using f9 w(4) by (simp add: fresh_mem_def dom_def)
      then show "pm_rep (fst ?A) (?s9\<lparr>pm_ups := ups\<rparr>)"
        using w m9 s8 s7 c1 unfolding fst_conv by (intro pm_rep_replace [OF r(1) i t p(1) b(2), where w = w]) simp_all
    qed
    moreover have "spec_register (up_env_of env) mem k meta A ESIF_OK (fInstance c) ?A"
      using ov t assms(4) c1 True cr(5) by (simp add: spec_register_def A Let_def) (intro disjI2 exI [of _ ?c1], simp)
    ultimately have "branch_ok (spec_register (up_env_of env) mem k meta A) \<lparr>reg_rc = ESIF_OK, reg_up = Some b, reg_goes_on = True, reg_remove = nm\<rparr> ?s9"
      using c1(3) by (intro branch_ok_held [of b ?c1 ?A]) simp_all
    moreover have "same_means s ?s9" using s8(3,6) x(5) v(4) b(4) u9(3) cr(4) by (simp add: same_means_def)
    ultimately show ?thesis using run by blast
  qed
qed

lemma get_handle_alloc:
  assumes "EsifHandleMgr_GetHandle hm m = Some (rc, hm', h, m')"
  shows "next_addr m \<le> next_addr m' \<and> alloc_ok m' = alloc_ok m"
proof -
  have "next_addr m \<le> next_addr (snd (snd (EsifHandleMgr_AllocateAdditionalHandles hm m)))
    \<and> alloc_ok (snd (snd (EsifHandleMgr_AllocateAdditionalHandles hm m))) = alloc_ok m"
    by (simp add: EsifHandleMgr_AllocateAdditionalHandles_def esif_ccb_malloc_def)
  with assms show ?thesis
    by (auto simp: EsifHandleMgr_GetHandle_def Let_def bind_eq_Some_conv case_prod_beta split: if_splits)
qed

text \<open>A new handle, or the handle manager refuses.\<close>

lemma next_handle_spec:
  assumes "handles_taken (pm_handles s) T"
  shows "\<exists>rc h hm m. next_handle s = Some (rc, Some h, s\<lparr>pm_handles := Some hm, pm_ups := (pm_ups s)\<lparr>up_alloc := m\<rparr>\<rparr>)
    \<and> next_addr (up_alloc (pm_ups s)) \<le> next_addr m \<and> alloc_ok m = alloc_ok (up_alloc (pm_ups s)) \<and> handles_taken (Some hm) T
    \<and> (if rc = ESIF_OK then card (used_slots hm) = Suc (card (used_slots (the (pm_handles s))))
       else card (used_slots hm) = card (used_slots (the (pm_handles s)))
         \<and> ((\<forall>a. alloc_ok (up_alloc (pm_ups s)) a) \<longrightarrow> 65532 \<le> card (used_slots hm)))
    \<and> (rc = ESIF_OK \<longrightarrow> \<not> EsifHandleMgr_IsReservedHandle h \<and> slot h \<in> used_slots hm
        \<and> (\<forall>i<MAX_PARTICIPANT_ENTRY. \<forall>k. i \<noteq> 0 \<longrightarrow> slot_handle (T ! i) = Some k \<longrightarrow> slot k \<noteq> slot h))"
proof -
  obtain hm where hm: "pm_handles s = Some hm" "mgr_ok hm" "avail_ok hm"
      "\<forall>i<MAX_PARTICIPANT_ENTRY. \<forall>h. i \<noteq> 0 \<longrightarrow> slot_handle (T ! i) = Some h \<longrightarrow> slot h \<in> used_slots hm"
    using assms by (auto simp: handles_taken_def)
  from get_next_spec [OF hm(2), of "up_alloc (pm_ups s)"] obtain rc hm' h m where
    g: "EsifHandleMgr_GetNextHandle (Some hm) True (up_alloc (pm_ups s)) = Some (rc, Some hm', Some h, m)"
      "EsifHandleMgr_GetHandle hm (up_alloc (pm_ups s)) = Some (rc, hm', h, m)" by blast
  from get_handle_spec [OF hm(2), of "up_alloc (pm_ups s)"] g(2) have
    sp: "mgr_ok hm'" "avail_ok hm'" "rc = ESIF_OK \<Longrightarrow> \<not> EsifHandleMgr_IsReservedHandle h \<and> slot h \<notin> used_slots hm"
      "used_slots hm' = (if rc = ESIF_OK then insert (slot h) (used_slots hm) else used_slots hm)"
    using hm(3) by (auto split: if_splits)
  have full: "65532 \<le> card (used_slots hm)" if "\<forall>a. alloc_ok (up_alloc (pm_ups s)) a" "rc \<noteq> ESIF_OK"
    using get_handle_full [OF hm(2,3) _ g(2) that(2)] that(1) by blast
  have "handles_taken (Some hm') T" using sp(1,2,4) hm(4) by (auto simp: handles_taken_def)
  moreover have "next_handle s = Some (rc, Some h, s\<lparr>pm_handles := Some hm', pm_ups := (pm_ups s)\<lparr>up_alloc := m\<rparr>\<rparr>)"
    using g(1) hm(1) by (simp add: next_handle_def)
  moreover have "if rc = ESIF_OK then card (used_slots hm') = Suc (card (used_slots hm))
      else card (used_slots hm') = card (used_slots hm) \<and> ((\<forall>a. alloc_ok (up_alloc (pm_ups s)) a) \<longrightarrow> 65532 \<le> card (used_slots hm'))"
    using sp(3,4) full by simp
  ultimately show ?thesis using get_handle_alloc [OF g(2)] sp(3,4) hm(1,4)
    by (intro exI [of _ rc] exI [of _ h] exI [of _ hm'] exI [of _ m]) auto
qed

lemma free_entry_spec:
  assumes "pm_rep T s"
  shows "free_entry b (fEntries s) = spec_free b T"
proof -
  have "(fState (fEntries s ! i) = ESIF_PM_PARTICIPANT_STATE_AVAILABLE) = (T ! i = None)" if "i < MAX_PARTICIPANT_ENTRY" for i
    using pm_repD(5,7) [OF assms that] by (auto simp: slot_rep_def slot_wf_def split: option.splits)
  then show ?thesis unfolding free_entry_def spec_free_def by (intro find_cong) auto
qed

lemma pm_abs_extra_destroyed:
  assumes "pm_abs A s" "up_mem u = up_mem (pm_ups s)" "fresh_mem u" "fEntries s' = fEntries s" "fEntryCount s' = fEntryCount s"
    "pm_ups s' = u" "handles_taken (pm_handles s') (fst A)"
  shows "pm_abs A s'"
  using assms by (simp add: pm_abs_def pm_rep_def slot_rep_def cong: option.case_cong prod.case_cong)

lemma dptfz_made_from: "made_from meta c \<Longrightarrow> bit (fFlags (fMetadata c)) ESIF_FLAG_DPTFZ = bit (meta_flags meta) ESIF_FLAG_DPTFZ"
  by (auto simp: made_from_def meta_flags_def lf_metadata_def uf_metadata_def split: up_metadata.splits)

text \<open>The causes for which a new participant is refused.\<close>

definition may_refuse :: "up_env \<Rightarrow> bool \<Rightarrow> nat \<Rightarrow> up_metadata \<Rightarrow> 'c slot list \<Rightarrow> bool" where
  "may_refuse env mem k meta T \<longleftrightarrow> \<not> mem \<or> \<not> package_ready env meta \<or> spec_free (bit (meta_flags meta) ESIF_FLAG_DPTFZ) T = None
     \<or> \<not> bit (meta_flags meta) ESIF_FLAG_DPTFZ \<and> handles_spent k"

lemma refused_new:
  "spec_overlap meta (fst A) = None \<Longrightarrow> may_refuse env mem k meta (fst A) \<Longrightarrow> spec_register env mem k meta A ESIF_E_NO_CREATE ESIF_INVALID_HANDLE A"
  by (simp add: spec_register_def may_refuse_def Let_def)

lemma branch_ok_stop: "pm_abs A s \<Longrightarrow> P rc ESIF_INVALID_HANDLE A \<Longrightarrow> branch_ok P (reg_stop rc) s"
  unfolding branch_ok_def by (intro exI [of _ A] exI [of _ ESIF_INVALID_HANDLE]) (simp add: reg_stop_def)

lemma enter_new:
  assumes r: "pm_rep T s" and i: "i < MAX_PARTICIPANT_ENTRY" "T ! i = None" and b: "up_mem (pm_ups s) b = None"
    and a: "at b s0 c0 (pm_ups s2)" and m: "up_mem s0 = up_mem (pm_ups s)" and c0: "idle c0"
    and f: "\<And>z. z = b \<or> up_mem s0 z \<noteq> None \<Longrightarrow> z < next_addr (up_alloc (pm_ups s2))"
    and s2: "fEntries s2 = fEntries s" "fEntryCount s2 = n" and w: "slot_wf i (Some (ESIF_PM_PARTICIPANT_STATE_CREATED, c0\<lparr>fInstance := h\<rparr>))"
    and hd: "handles_taken (pm_handles s2) (T[i := Some (ESIF_PM_PARTICIPANT_STATE_CREATED, c0\<lparr>fInstance := h\<rparr>)])"
    and ds: "\<And>j st' c'. j < MAX_PARTICIPANT_ENTRY \<Longrightarrow> i \<noteq> 0 \<Longrightarrow> j \<noteq> 0 \<Longrightarrow> j \<noteq> i \<Longrightarrow> T ! j = Some (st', c') \<Longrightarrow> slot (fInstance c') \<noteq> slot h"
  shows "\<exists>s3 s4. lift_up (EsifUp_SetInstance (Some b) h) s2 = Some s3 \<and> lift_up_rc (EsifUp_GetRef (Some b)) s3 = Some (ESIF_OK, s4)
    \<and> held_rep b (c0\<lparr>fInstance := h\<rparr>) (T[i := Some (ESIF_PM_PARTICIPANT_STATE_CREATED, c0\<lparr>fInstance := h\<rparr>)], n + 1)
        (set_entry i (fUpPtr_update (\<lambda>_. Some b)) (enter_created i s4)) \<and> same_means s2 s4"
proof -
  let ?c = "c0\<lparr>fInstance := h\<rparr>"
  have c: "idle ?c" using c0 by (simp add: idle_def)
  obtain u3 where u3: "EsifUp_SetInstance (Some b) h (pm_ups s2) = Some u3" "at b s0 ?c u3"
    using at_set_instance [OF a idle_usable(1) [OF c0]] by blast
  obtain u4 where u4: "EsifUp_GetRef (Some b) u3 = Some (ESIF_OK, u4)" "at b s0 (?c\<lparr>up_refCount := 2\<rparr>) u4"
    using at_get [OF u3(2)] c by (auto simp: idle_def)
  let ?s5 = "set_entry i (fUpPtr_update (\<lambda>_. Some b)) (enter_created i (s2\<lparr>pm_ups := u4\<rparr>))"
  have al: "up_alloc s0 = up_alloc (pm_ups s2)" using a by (simp add: at_def)
  have es: "fEntries ?s5 = (fEntries s)[i := \<lparr>fState = ESIF_PM_PARTICIPANT_STATE_CREATED, fUpPtr = Some b\<rparr>]"
    using pm_repD(3) [OF r] i s2(1) by (cases "fEntries s ! i") (auto simp: enter_created_def)
  have "held_rep b ?c (T[i := Some (ESIF_PM_PARTICIPANT_STATE_CREATED, ?c)], n + 1) ?s5"
  proof (rule held_repI)
    show "at b s0 (?c\<lparr>up_refCount := 2\<rparr>) (pm_ups ?s5)" using u4(2) by simp
    show "idle ?c" by (rule c)
    show "fEntryCount ?s5 = snd (T[i := Some (ESIF_PM_PARTICIPANT_STATE_CREATED, ?c)], n + 1)" using s2(2) by simp
    fix ups assume "at b s0 ?c ups"
    then obtain x where x: "up_mem ups = (up_mem s0)(b \<mapsto> x)" "core x = ?c" "length (domains x) = ESIF_DOMAIN_MAX" "up_alloc ups = up_alloc s0" by (rule atE)
    have "z < next_addr (up_alloc ups)" if "up_mem ups z \<noteq> None" for z using that x(1,4) al f [of z] by (cases "z = b") auto
    then have fr: "fresh_mem ups" by (simp add: fresh_mem_def dom_def)
    have "pm_rep (T[i := Some (ESIF_PM_PARTICIPANT_STATE_CREATED, ?c)]) (?s5\<lparr>pm_ups := ups\<rparr>)"
      using es x m fr hd ds w by (intro pm_rep_insert [OF r i(1,2) b, where u = x]) auto
    then show "pm_rep (fst (T[i := Some (ESIF_PM_PARTICIPANT_STATE_CREATED, ?c)], n + 1)) (?s5\<lparr>pm_ups := ups\<rparr>)" by simp
  qed
  moreover have "same_means s2 (s2\<lparr>pm_ups := u4\<rparr>)" using u4(2) al by (simp add: same_means_def at_def)
  ultimately show ?thesis using u3(1) u4(1) by (simp add: lift_up_def lift_up_rc_def)
qed

lemma new_branch:
  assumes "pm_abs A s" "spec_overlap meta (fst A) = None" "packages_ok env" "pm_means mem k s"
  shows "\<exists>r s1. register_new env meta s = Some (r, s1) \<and> branch_ok (spec_register (up_env_of env) mem k meta A) r s1
    \<and> pm_means mem (handles_drawn meta A (reg_rc r) k) s1"
proof -
  obtain T n where A: "A = (T, n)" by (cases A)
  have r: "pm_rep T s" "fEntryCount s = n" and ov: "spec_overlap meta T = None" using assms A by (simp_all add: pm_abs_def)
  have len: "length T = MAX_PARTICIPANT_ENTRY" "length (fEntries s) = MAX_PARTICIPANT_ENTRY" using pm_repD(4) [OF r(1)] pm_repD(3) [OF r(1)] by simp_all
  have refused: "branch_ok (spec_register (up_env_of env) mem k meta A) (reg_stop ESIF_E_NO_CREATE) s1
      \<and> pm_means mem (handles_drawn meta A (reg_rc (reg_stop ESIF_E_NO_CREATE)) k) s1"
    if "pm_abs A s1" "may_refuse (up_env_of env) mem k meta T" "pm_means mem k s1" for s1
    using branch_ok_stop [where P = "spec_register (up_env_of env) mem k meta A", OF that(1) refused_new [OF assms(2)]] that(2,3) by (simp add: A handles_drawn_def reg_stop_def)
  from create_up_spec [OF assms(3) pm_repD(6) [OF r(1)], of meta] obtain rc q u1 where
    cr: "EsifUp_CreateParticipant (up_env_of env) meta (pm_ups s) = Some (rc, q, u1)" "fresh_mem u1"
      "if rc = ESIF_OK then (\<exists>a s0 c. q = Some a \<and> up_mem (pm_ups s) a = None \<and> up_mem s0 = up_mem (pm_ups s) \<and> up_alloc s0 = up_alloc u1 \<and> at a s0 c u1 \<and> made_from meta c)
       else q = None \<and> up_mem u1 = up_mem (pm_ups s)"
      "alloc_ok (up_alloc u1) = alloc_ok (up_alloc (pm_ups s))"
      "rc = ESIF_OK \<longleftrightarrow> alloc_ok (up_alloc (pm_ups s)) (next_addr (up_alloc (pm_ups s))) \<and> package_ready (up_env_of env) meta" by blast
  show ?thesis
  proof (cases "rc = ESIF_OK")
    case False
    have "pm_abs A (s\<lparr>pm_ups := u1\<rparr>)" using cr(2,3) False pm_repD(2) [OF r(1)]
      by (intro pm_abs_extra_destroyed [OF assms(1)]) (auto simp: A)
    moreover have "may_refuse (up_env_of env) mem k meta T" using False cr(5) pm_means_mem [OF assms(4)] by (auto simp: may_refuse_def)
    moreover have "pm_means mem k (s\<lparr>pm_ups := u1\<rparr>)" using assms(4) cr(4) by (simp add: pm_means_def)
    ultimately show ?thesis using False cr(1,3) refused by (auto simp: register_new_def create_up_def)
  next
    case True
    then obtain b s0 c0 where b: "q = Some b" "up_mem (pm_ups s) b = None" "up_mem s0 = up_mem (pm_ups s)" "up_alloc s0 = up_alloc u1"
        "at b s0 c0 u1" "made_from meta c0" using cr(3) by auto
    have id0: "idle c0" using b(6) by (simp add: made_from_def)
    have f0: "fresh_mem x" if "up_mem x = (up_mem s0)(b := y)" "next_addr (up_alloc u1) \<le> next_addr (up_alloc x)" for x y
    proof -
      have "z < next_addr (up_alloc u1)" if "z = b \<or> up_mem s0 z \<noteq> None" for z
        using that cr(2) b(5) by (auto simp: fresh_mem_def at_def dest!: bspec [where x = z])
      then show ?thesis using that by (auto simp: fresh_mem_def split: if_splits intro: less_le_trans)
    qed
    obtain v where v: "up_at (Some b) u1 = Some (Some v)" "core v = c0" using at_read [OF b(5)] by blast
    let ?prim = "bit (fFlags (fMetadata c0)) ESIF_FLAG_DPTFZ"
    have vp: "EsifUp_IsPrimaryParticipant (Some v) = ?prim" using arg_cong [OF v(2), of fMetadata] by (simp add: EsifUp_IsPrimaryParticipant_def)
    have start: "register_new env meta s = (case spec_free ?prim T of
          None \<Rightarrow> do { s2 \<leftarrow> lift_up (EsifUp_DestroyParticipant (Some b)) (s\<lparr>pm_ups := u1\<rparr>); Some (reg_stop ESIF_E_NO_CREATE, s2) }
        | Some i \<Rightarrow> do {
            (rc1, h, s2) \<leftarrow> (if ?prim then Some (ESIF_OK, Some ESIF_HANDLE_PRIMARY_PARTICIPANT, s\<lparr>pm_ups := u1\<rparr>) else next_handle (s\<lparr>pm_ups := u1\<rparr>));
            if rc1 \<noteq> ESIF_OK then do { s3 \<leftarrow> lift_up (EsifUp_DestroyParticipant (Some b)) s2; Some (reg_stop ESIF_E_NO_CREATE, s3) }
            else do {
              hv \<leftarrow> h;
              s3 \<leftarrow> lift_up (EsifUp_SetInstance (Some b) hv) s2;
              (rc2, s4) \<leftarrow> lift_up_rc (EsifUp_GetRef (Some b)) s3;
              if rc2 \<noteq> ESIF_OK then do { s5 \<leftarrow> lift_up (EsifUp_DestroyParticipant (Some b)) s4; Some (reg_stop ESIF_E_NO_CREATE, s5) }
              else Some (\<lparr>reg_rc = ESIF_OK, reg_up = Some b, reg_goes_on = True, reg_remove = None\<rparr>,
                         set_entry i (fUpPtr_update (\<lambda>_. Some b)) (enter_created i s4)) } })"
      using cr(1) True b(1) v(1) vp free_entry_spec [OF r(1)] by (simp add: register_new_def create_up_def)
    have gone: "\<exists>s2. lift_up (EsifUp_DestroyParticipant (Some b)) s1 = Some s2 \<and> pm_abs A s2 \<and> same_means s1 s2"
      if "up_mem (pm_ups s1) = up_mem u1" "next_addr (up_alloc u1) \<le> next_addr (up_alloc (pm_ups s1))" "fEntries s1 = fEntries s" "fEntryCount s1 = n"
        "handles_taken (pm_handles s1) T" for s1
    proof -
      have "at b (s0\<lparr>up_alloc := up_alloc (pm_ups s1)\<rparr>) c0 (pm_ups s1)" using b(5) that(1) by (auto simp: at_def)
      from destroy_idle [OF this id0] obtain u2 where u2: "EsifUp_DestroyParticipant (Some b) (pm_ups s1) = Some u2"
        "up_mem u2 = (up_mem s0)(b := None)" "up_alloc u2 = up_alloc (pm_ups s1)" by auto
      have "up_mem u2 = up_mem (pm_ups s)" using u2(2) b(2,3) by auto
      then have "pm_abs A (s1\<lparr>pm_ups := u2\<rparr>)" using that(2-5) u2 r(2) f0 [OF u2(2)]
        by (intro pm_abs_extra_destroyed [OF assms(1), of u2]) (auto simp: A)
      moreover have "same_means s1 (s1\<lparr>pm_ups := u2\<rparr>)" using u2(3) by (simp add: same_means_def)
      ultimately show ?thesis using u2(1) by (simp add: lift_up_def)
    qed
    have pr: "?prim = bit (meta_flags meta) ESIF_FLAG_DPTFZ" by (rule dptfz_made_from [OF b(6)])
    have mean: "pm_means mem k (s\<lparr>pm_ups := u1\<rparr>)" using assms(4) cr(4) by (simp add: pm_means_def)
    have ht: "handles_taken (pm_handles s) T" using pm_repD(2) [OF r(1)] .
    show ?thesis
    proof (cases "spec_free ?prim T")
      case None
      from gone [of "s\<lparr>pm_ups := u1\<rparr>"] obtain s2 where
        s2: "lift_up (EsifUp_DestroyParticipant (Some b)) (s\<lparr>pm_ups := u1\<rparr>) = Some s2" "pm_abs A s2" "same_means (s\<lparr>pm_ups := u1\<rparr>) s2"
        using ht r(2) by auto
      have "may_refuse (up_env_of env) mem k meta T" using None by (simp add: may_refuse_def pr)
      with refused [OF s2(2) _ pm_means_same [OF s2(3) mean]] show ?thesis using start None s2(1) by auto
    next
      case (Some i)
      then have i: "i < MAX_PARTICIPANT_ENTRY" "T ! i = None" "i \<noteq> 0 \<or> ?prim" by (auto simp: spec_free_def dest!: find_upt_Some)
      have prim0: "?prim \<Longrightarrow> i = 0"
      proof -
        assume p: "?prim"
        then have "T ! 0 = None" using ov dptfz_made_from [OF b(6)] by (cases "T ! 0") (auto simp: spec_overlap_def split: if_splits)
        then show "i = 0" using Some p unfolding spec_free_def by (auto dest!: find_upt_Some)
      qed
      have al: "up_alloc s0 = up_alloc u1" using b(4) .
      have fz: "z < next_addr m" if "z = b \<or> up_mem s0 z \<noteq> None" "next_addr (up_alloc u1) \<le> next_addr m" for z m
        using that cr(2) b(5) by (auto simp: fresh_mem_def at_def intro: less_le_trans dest!: bspec [where x = z])
      have entered: ?thesis if nh: "(if ?prim then Some (ESIF_OK, Some ESIF_HANDLE_PRIMARY_PARTICIPANT, s\<lparr>pm_ups := u1\<rparr>) else next_handle (s\<lparr>pm_ups := u1\<rparr>))
            = Some (ESIF_OK, Some h, s2)" "fEntries s2 = fEntries s" "fEntryCount s2 = n" "pm_ups s2 = u1\<lparr>up_alloc := m\<rparr>" "next_addr (up_alloc u1) \<le> next_addr m"
          "slot_wf i (Some (ESIF_PM_PARTICIPANT_STATE_CREATED, c0\<lparr>fInstance := h\<rparr>))"
          "handles_taken (pm_handles s2) (T[i := Some (ESIF_PM_PARTICIPANT_STATE_CREATED, c0\<lparr>fInstance := h\<rparr>)])"
          "\<And>j st' c'. j < MAX_PARTICIPANT_ENTRY \<Longrightarrow> i \<noteq> 0 \<Longrightarrow> j \<noteq> 0 \<Longrightarrow> j \<noteq> i \<Longrightarrow> T ! j = Some (st', c') \<Longrightarrow> slot (fInstance c') \<noteq> slot h"
          "pm_means mem (handles_drawn meta A ESIF_OK k) s2"
        for h s2 m
      proof -
        have a: "at b (s0\<lparr>up_alloc := m\<rparr>) c0 (pm_ups s2)" using b(5) nh(4) by (auto simp: at_def)
        have "\<exists>s3 s4. lift_up (EsifUp_SetInstance (Some b) h) s2 = Some s3 \<and> lift_up_rc (EsifUp_GetRef (Some b)) s3 = Some (ESIF_OK, s4)
          \<and> held_rep b (c0\<lparr>fInstance := h\<rparr>) (T[i := Some (ESIF_PM_PARTICIPANT_STATE_CREATED, c0\<lparr>fInstance := h\<rparr>)], n + 1)
              (set_entry i (fUpPtr_update (\<lambda>_. Some b)) (enter_created i s4)) \<and> same_means s2 s4"
        proof (rule enter_new [OF r(1) i(1,2) b(2) a _ id0 _ nh(2,3,6,7)])
          show "up_mem (s0\<lparr>up_alloc := m\<rparr>) = up_mem (pm_ups s)" using b(3) by simp
          show "z < next_addr (up_alloc (pm_ups s2))" if "z = b \<or> up_mem (s0\<lparr>up_alloc := m\<rparr>) z \<noteq> None" for z
            using fz [OF _ nh(5), of z] that nh(4) by simp
        qed (rule nh(8))
        then obtain s3 s4 where
          e: "lift_up (EsifUp_SetInstance (Some b) h) s2 = Some s3" "lift_up_rc (EsifUp_GetRef (Some b)) s3 = Some (ESIF_OK, s4)"
            "held_rep b (c0\<lparr>fInstance := h\<rparr>) (T[i := Some (ESIF_PM_PARTICIPANT_STATE_CREATED, c0\<lparr>fInstance := h\<rparr>)], n + 1)
              (set_entry i (fUpPtr_update (\<lambda>_. Some b)) (enter_created i s4))" "same_means s2 s4" by blast
        have "spec_register (up_env_of env) mem k meta A ESIF_OK h (T[i := Some (ESIF_PM_PARTICIPANT_STATE_CREATED, c0\<lparr>fInstance := h\<rparr>)], n + 1)"
          using ov Some made_from_instance [OF b(6), of h] True cr(5) by (simp add: spec_register_def A Let_def pr) (intro disjI2 exI [of _ "c0\<lparr>fInstance := h\<rparr>"], simp)
        then have "branch_ok (spec_register (up_env_of env) mem k meta A) \<lparr>reg_rc = ESIF_OK, reg_up = Some b, reg_goes_on = True, reg_remove = None\<rparr>
            (set_entry i (fUpPtr_update (\<lambda>_. Some b)) (enter_created i s4))"
          by (intro branch_ok_held [OF e(3)]) simp_all
        moreover have "pm_means mem (handles_drawn meta A ESIF_OK k) (set_entry i (fUpPtr_update (\<lambda>_. Some b)) (enter_created i s4))"
          using pm_means_same [OF e(4) nh(9)] by (simp add: pm_means_def)
        ultimately show ?thesis using start Some nh(1) e(1,2) by simp
      qed
      show ?thesis
      proof (cases ?prim)
        case True
        then have "i = 0" by (rule prim0)
        show ?thesis
        proof (rule entered [of ESIF_HANDLE_PRIMARY_PARTICIPANT "s\<lparr>pm_ups := u1\<rparr>" "up_alloc u1"])
          show "handles_taken (pm_handles (s\<lparr>pm_ups := u1\<rparr>)) (T[i := Some (ESIF_PM_PARTICIPANT_STATE_CREATED, c0\<lparr>fInstance := ESIF_HANDLE_PRIMARY_PARTICIPANT\<rparr>)])"
            using ht \<open>i = 0\<close> by (auto simp: handles_taken_def)
        qed (use True \<open>i = 0\<close> r(2) id0 mean pr in \<open>simp_all add: slot_wf_def idle_def handles_drawn_def\<close>)
      next
        case False
        then have "i \<noteq> 0" using i(3) by simp
        have "handles_taken (pm_handles (s\<lparr>pm_ups := u1\<rparr>)) T" using ht by simp
        from next_handle_spec [OF this] obtain rc1 h hm m where
          nh0: "next_handle (s\<lparr>pm_ups := u1\<rparr>) = Some (rc1, Some h, s\<lparr>pm_ups := u1, pm_handles := Some hm, pm_ups := (pm_ups (s\<lparr>pm_ups := u1\<rparr>))\<lparr>up_alloc := m\<rparr>\<rparr>)"
            "next_addr (up_alloc (pm_ups (s\<lparr>pm_ups := u1\<rparr>))) \<le> next_addr m"
            "alloc_ok m = alloc_ok (up_alloc (pm_ups (s\<lparr>pm_ups := u1\<rparr>)))" "handles_taken (Some hm) T"
            "if rc1 = ESIF_OK then card (used_slots hm) = Suc (card (used_slots (the (pm_handles (s\<lparr>pm_ups := u1\<rparr>)))))
             else card (used_slots hm) = card (used_slots (the (pm_handles (s\<lparr>pm_ups := u1\<rparr>))))
               \<and> ((\<forall>a. alloc_ok (up_alloc (pm_ups (s\<lparr>pm_ups := u1\<rparr>))) a) \<longrightarrow> 65532 \<le> card (used_slots hm))"
            "rc1 = ESIF_OK \<longrightarrow> \<not> EsifHandleMgr_IsReservedHandle h \<and> slot h \<in> used_slots hm
              \<and> (\<forall>i<MAX_PARTICIPANT_ENTRY. \<forall>k. i \<noteq> 0 \<longrightarrow> slot_handle (T ! i) = Some k \<longrightarrow> slot k \<noteq> slot h)" by blast
        then have nh: "next_handle (s\<lparr>pm_ups := u1\<rparr>) = Some (rc1, Some h, s\<lparr>pm_handles := Some hm, pm_ups := u1\<lparr>up_alloc := m\<rparr>\<rparr>)"
          "next_addr (up_alloc u1) \<le> next_addr m" "handles_taken (Some hm) T" "alloc_ok m = alloc_ok (up_alloc u1)" by simp_all
        have card: "if rc1 = ESIF_OK then card (used_slots hm) = Suc (card (used_slots (the (pm_handles s))))
             else card (used_slots hm) = card (used_slots (the (pm_handles s))) \<and> ((\<forall>a. alloc_ok (up_alloc u1) a) \<longrightarrow> 65532 \<le> card (used_slots hm))"
          using nh0(5) by (cases "rc1 = ESIF_OK"; simp; elim conjE; simp)
        let ?s2 = "s\<lparr>pm_handles := Some hm, pm_ups := u1\<lparr>up_alloc := m\<rparr>\<rparr>"
        show ?thesis
        proof (cases "rc1 = ESIF_OK")
          case ok: True
          then have h: "\<not> EsifHandleMgr_IsReservedHandle h" "slot h \<in> used_slots hm"
            "\<And>i k. i < MAX_PARTICIPANT_ENTRY \<Longrightarrow> i \<noteq> 0 \<Longrightarrow> slot_handle (T ! i) = Some k \<Longrightarrow> slot k \<noteq> slot h" using nh0(6) by blast+
          show ?thesis
          proof (rule entered [of h ?s2 m])
            show "slot (fInstance c') \<noteq> slot h" if "j < MAX_PARTICIPANT_ENTRY" "j \<noteq> 0" "T ! j = Some (st', c')" for j st' c'
              using h(3) [OF that(1,2)] that(3) by (simp add: slot_handle_def)
            have "slot k \<in> used_slots hm" if "j < MAX_PARTICIPANT_ENTRY" "j \<noteq> 0"
              "slot_handle (T[i := Some (ESIF_PM_PARTICIPANT_STATE_CREATED, c0\<lparr>fInstance := h\<rparr>)] ! j) = Some k" for j k
              using that nh(3) h(2) len by (cases "j = i") (auto simp: handles_taken_def slot_handle_def)
            then show "handles_taken (pm_handles ?s2) (T[i := Some (ESIF_PM_PARTICIPANT_STATE_CREATED, c0\<lparr>fInstance := h\<rparr>)])"
              using nh(3) by (simp add: handles_taken_def)
            show "pm_means mem (handles_drawn meta A ESIF_OK k) ?s2"
              using mean nh(4) card ok ov False pr by (simp add: pm_means_def handles_drawn_def A)
          qed (use False ok nh(1,2) \<open>i \<noteq> 0\<close> r(2) id0 h(1) in \<open>simp_all add: slot_wf_def idle_def\<close>)
        next
          case bad: False
          from gone [of ?s2] nh(2,3) r(2) obtain s3 where
            s3: "lift_up (EsifUp_DestroyParticipant (Some b)) ?s2 = Some s3" "pm_abs A s3" "same_means ?s2 s3" by auto
          have m2: "pm_means mem k ?s2" using mean nh(4) card bad by (simp add: pm_means_def)
          have "may_refuse (up_env_of env) mem k meta T"
            using mean card bad False pr by (auto simp: pm_means_def may_refuse_def handles_spent_def)
          with refused [OF s3(2) _ pm_means_same [OF s3(3) m2]] show ?thesis using start Some False nh(1) bad s3(1) by auto
        qed
      qed
    qed
  qed
qed

section \<open>Registration\<close>

lemma lf_destroy_held [simp]:
  "held_rep a c A (snd (EsifUpPm_DestroyConjuredLfParticipant env x s)) = held_rep a c A s"
  by (simp add: EsifUpPm_DestroyConjuredLfParticipant_def split: option.split)

lemma lf_destroy_means [simp]: "same_means s (snd (EsifUpPm_DestroyConjuredLfParticipant env x s))"
  by (simp add: EsifUpPm_DestroyConjuredLfParticipant_def same_means_def split: option.split)

lemma register_spec:
  assumes "pm_abs A s" "packages_ok env" "pm_means mem k s"
  shows "\<exists>rc h s' A'. EsifUpPm_RegisterParticipant env (Some meta) True s = Some (rc, Some h, s')
    \<and> spec_register (up_env_of env) mem k meta A rc h A' \<and> pm_abs A' s' \<and> pm_means mem (handles_drawn meta A rc k) s'"
proof -
  have r: "pm_rep (fst A) s" using assms(1) by (simp add: pm_abs_def)
  let ?go = "\<lambda>entry. case entry of None \<Rightarrow> register_new env meta s
      | Some i \<Rightarrow> do {
          u \<leftarrow> up_at (fUpPtr (fEntries s ! i)) (pm_ups s);
          if EsifUp_IsPreferredParticipant u meta then register_replacing env meta i s else register_kept env meta i s }"
  have "\<exists>r s1. ?go (spec_overlap meta (fst A)) = Some (r, s1) \<and> branch_ok (spec_register (up_env_of env) mem k meta A) r s1
    \<and> pm_means mem (handles_drawn meta A (reg_rc r) k) s1"
  proof (cases "spec_overlap meta (fst A)")
    case None
    then show ?thesis using new_branch [OF assms(1) None assms(2,3)] by simp
  next
    case (Some i)
    obtain st c where t: "fst A ! i = Some (st, c)" using overlap_slot(2) [OF r Some] by auto
    from up_at_slot [OF r overlap_slot(1) [OF r Some]] t obtain u where
      u: "up_at (fUpPtr (fEntries s ! i)) (pm_ups s) = Some (Some u)" "core u = c" by auto
    have "handles_drawn meta A rc k = k" for rc using Some by (simp add: handles_drawn_def)
    then have "pm_means mem (handles_drawn meta A rc k) s1" if "same_means s s1" for rc s1 using pm_means_same [OF that assms(3)] by simp
    then show ?thesis using replacing_branch [OF assms(1) Some t _ assms(2,3)] kept_branch [OF assms(1) Some t, of env mem k] Some u t
      by (cases "EsifUp_IsPreferredParticipant (Some u) meta") fastforce+
  qed
  then obtain q s1 where q: "?go (spec_overlap meta (fst A)) = Some (q, s1)" "branch_ok (spec_register (up_env_of env) mem k meta A) q s1"
    and mean: "pm_means mem (handles_drawn meta A (reg_rc q) k) s1" by blast
  then obtain A' h where b: "spec_register (up_env_of env) mem k meta A (reg_rc q) h A'" "case reg_up q of
       None \<Rightarrow> \<not> reg_goes_on q \<and> h = ESIF_INVALID_HANDLE \<and> pm_abs A' s1
     | Some a \<Rightarrow> \<exists>c. held_rep a c A' s1 \<and> h = (if reg_goes_on q then fInstance c else ESIF_INVALID_HANDLE)"
    unfolding branch_ok_def by blast
  have run: "EsifUpPm_RegisterParticipant env (Some meta) True s = do {
      (h, s2) \<leftarrow> (if reg_goes_on q then register_announce env (reg_up q) s1 else Some (ESIF_INVALID_HANDLE, s1));
      s3 \<leftarrow> lift_up (EsifUp_PutRef (reg_up q)) (snd (EsifUpPm_DestroyConjuredLfParticipant env (reg_remove q) s2));
      Some (reg_rc q, Some h, s3) }"
    using q(1) overlap_spec [OF r] by (simp add: EsifUpPm_RegisterParticipant_def)
  show ?thesis
  proof (cases "reg_up q")
    case None
    let ?s = "snd (EsifUpPm_DestroyConjuredLfParticipant env (reg_remove q) s1)"
    have "lift_up (EsifUp_PutRef None) ?s = Some ?s" by (simp add: lift_up_def EsifUp_PutRef_def)
    then have "EsifUpPm_RegisterParticipant env (Some meta) True s = Some (reg_rc q, Some h, ?s)" "pm_abs A' ?s"
      using None b(2) run by simp_all
    then show ?thesis using b(1) pm_means_same [OF lf_destroy_means mean] by blast
  next
    case (Some a)
    then obtain c where c: "held_rep a c A' s1" "h = (if reg_goes_on q then fInstance c else ESIF_INVALID_HANDLE)" using b(2) by auto
    obtain s2 where s2: "(if reg_goes_on q then register_announce env (reg_up q) s1 else Some (ESIF_INVALID_HANDLE, s1)) = Some (h, s2)"
        "held_rep a c A' s2" "same_means s1 s2"
      using announce_spec [OF c(1), of env] c Some by (cases "reg_goes_on q") auto
    have "held_rep a c A' (snd (EsifUpPm_DestroyConjuredLfParticipant env (reg_remove q) s2))" using s2(2) by simp
    from held_put [OF this] obtain s3 where
      s3: "lift_up (EsifUp_PutRef (Some a)) (snd (EsifUpPm_DestroyConjuredLfParticipant env (reg_remove q) s2)) = Some s3" "pm_abs A' s3"
        "same_means (snd (EsifUpPm_DestroyConjuredLfParticipant env (reg_remove q) s2)) s3" by blast
    have "same_means s1 s3" using same_means_trans [OF s2(3) same_means_trans [OF lf_destroy_means s3(3)]] .
    moreover have "EsifUpPm_RegisterParticipant env (Some meta) True s = Some (reg_rc q, Some h, s3)" "pm_abs A' s3"
      using run s2(1) s3(1,2) Some by simp_all
    ultimately show ?thesis using b(1) pm_means_same mean by blast
  qed
qed

section \<open>Runs of the manager\<close>

text \<open>
  A client's view: requests and what each returned. The unload of the lower framework is an
  operation too; it presupposes the primary participant.
\<close>

datatype pm_op = PmRegister up_metadata | PmSuspend esif_handle_t | PmResume esif_handle_t | PmUnregister esif_handle_t
  | PmDestroy "u8 list option" | PmUnload

fun pm_exec :: "pm_env \<Rightarrow> pm_op \<Rightarrow> 'c EsifUppMgr \<Rightarrow> ((esif_rc \<times> esif_handle_t option) \<times> 'c EsifUppMgr) option" where
  "pm_exec env (PmRegister meta) s = map_option (\<lambda>(rc, h, s'). ((rc, h), s')) (EsifUpPm_RegisterParticipant env (Some meta) True s)"
| "pm_exec env (PmSuspend h) s = map_option (\<lambda>(rc, s'). ((rc, None), s')) (EsifUpPm_SuspendParticipant env h s)"
| "pm_exec env (PmResume h) s = map_option (\<lambda>(rc, s'). ((rc, None), s')) (EsifUpPm_ResumeParticipant env h s)"
| "pm_exec env (PmUnregister h) s = map_option (\<lambda>(rc, s'). ((rc, None), s')) (EsifUpPm_DestroyParticipantByInstance env h s)"
| "pm_exec env (PmDestroy name) s = map_option (\<lambda>(rc, s'). ((rc, None), s')) (EsifUpPm_DestroyParticipant env name s)"
| "pm_exec env PmUnload s = map_option (\<lambda>s'. ((ESIF_OK, None), s')) (EsifUpPm_SuspendLfParticipants s)"

text \<open>
  The contract of each operation, over the table and the number of handles drawn: the table afterwards, the status, and a handle
  for a registration only. The applications answer a suspension and a resumption with a status of their own.
\<close>

fun pm_spec :: "pm_env \<Rightarrow> bool \<Rightarrow> pm_op \<Rightarrow> 'c table \<times> nat \<Rightarrow> esif_rc \<times> esif_handle_t option \<Rightarrow> 'c table \<times> nat \<Rightarrow> bool" where
  "pm_spec env mem (PmRegister meta) (A, k) (rc, ho) (A', k') \<longleftrightarrow>
     (\<exists>h. ho = Some h \<and> spec_register (up_env_of env) mem k meta A rc h A') \<and> k' = handles_drawn meta A rc k"
| "pm_spec env mem (PmSuspend h) (A, k) (rc, ho) (A', k') \<longleftrightarrow> A' = spec_suspend h A \<and> suspend_rc env h A rc \<and> ho = None \<and> k' = k"
| "pm_spec env mem (PmResume h) (A, k) (rc, ho) (A', k') \<longleftrightarrow> A' = spec_resume h A \<and> resume_rc env h A rc \<and> ho = None \<and> k' = k"
| "pm_spec env mem (PmUnregister h) (A, k) (rc, ho) (A', k') \<longleftrightarrow> A' = spec_unregister h A \<and> rc = unregister_rc h A \<and> ho = None \<and> k' = k"
| "pm_spec env mem (PmDestroy name) (A, k) (rc, ho) (A', k') \<longleftrightarrow> A' = spec_destroy name A \<and> rc = destroy_rc name A \<and> ho = None \<and> k' = k"
| "pm_spec env mem PmUnload (A, k) (rc, ho) (A', k') \<longleftrightarrow> A' = spec_suspend_lf A \<and> rc = ESIF_OK \<and> ho = None \<and> k' = k"

fun pm_valid :: "pm_op \<Rightarrow> 'c table \<times> nat \<Rightarrow> bool" where
  "pm_valid PmUnload B \<longleftrightarrow> fst (fst B) ! 0 \<noteq> None"
| "pm_valid _ B \<longleftrightarrow> True"

definition pm_full :: "pm_env \<Rightarrow> bool \<Rightarrow> 'c table \<times> nat \<Rightarrow> 'c EsifUppMgr \<Rightarrow> bool" where
  "pm_full env mem B s \<longleftrightarrow> packages_ok env \<and> pm_abs (fst B) s \<and> pm_means mem (snd B) s"

lemma pm_sim:
  assumes "pm_full env mem B s" "pm_valid op B"
  shows "\<exists>out s' B'. pm_exec env op s = Some (out, s') \<and> pm_spec env mem op B out B' \<and> pm_full env mem B' s'"
proof -
  obtain A k where B: "B = (A, k)" by (cases B)
  have r: "packages_ok env" "pm_abs A s" "pm_means mem k s" using assms(1) B by (simp_all add: pm_full_def)
  note keep = pm_means_same [OF _ r(3)]
  show ?thesis
  proof (cases op)
    case (PmRegister meta)
    from register_spec [OF r(2,1,3), of meta] obtain rc h s' A' where
      "EsifUpPm_RegisterParticipant env (Some meta) True s = Some (rc, Some h, s')" "spec_register (up_env_of env) mem k meta A rc h A'"
      "pm_abs A' s'" "pm_means mem (handles_drawn meta A rc k) s'" by blast
    then show ?thesis using PmRegister r(1) B
      by (intro exI [of _ "(rc, Some h)"] exI [of _ s'] exI [of _ "(A', handles_drawn meta A rc k)"]) (simp add: pm_full_def)
  next
    case (PmSuspend h)
    from suspend_spec [OF r(2), of env h] obtain rc s' where
      "EsifUpPm_SuspendParticipant env h s = Some (rc, s')" "pm_abs (spec_suspend h A) s'" "suspend_rc env h A rc" "same_means s s'" by blast
    then show ?thesis using PmSuspend r(1) B keep
      by (intro exI [of _ "(rc, None)"] exI [of _ s'] exI [of _ "(spec_suspend h A, k)"]) (simp add: pm_full_def)
  next
    case (PmResume h)
    from resume_spec [OF r(2), of env h] obtain rc s' where
      "EsifUpPm_ResumeParticipant env h s = Some (rc, s')" "pm_abs (spec_resume h A) s'" "resume_rc env h A rc" "same_means s s'" by blast
    then show ?thesis using PmResume r(1) B keep
      by (intro exI [of _ "(rc, None)"] exI [of _ s'] exI [of _ "(spec_resume h A, k)"]) (simp add: pm_full_def)
  next
    case (PmUnregister h)
    from unregister_spec [OF r(2), of env h] obtain s' where
      "EsifUpPm_DestroyParticipantByInstance env h s = Some (unregister_rc h A, s')" "pm_abs (spec_unregister h A) s'" "same_means s s'" by blast
    then show ?thesis using PmUnregister r(1) B keep
      by (intro exI [of _ "(unregister_rc h A, None)"] exI [of _ s'] exI [of _ "(spec_unregister h A, k)"]) (simp add: pm_full_def)
  next
    case (PmDestroy name)
    from destroy_spec [OF r(2), of env name] obtain s' where
      "EsifUpPm_DestroyParticipant env name s = Some (destroy_rc name A, s')" "pm_abs (spec_destroy name A) s'" "same_means s s'" by blast
    then show ?thesis using PmDestroy r(1) B keep
      by (intro exI [of _ "(destroy_rc name A, None)"] exI [of _ s'] exI [of _ "(spec_destroy name A, k)"]) (simp add: pm_full_def)
  next
    case PmUnload
    with assms(2) B have "fst A ! 0 \<noteq> None" by simp
    from suspend_lf_spec [OF r(2) this] obtain s' where
      "EsifUpPm_SuspendLfParticipants s = Some s'" "pm_abs (spec_suspend_lf A) s'" "same_means s s'" by blast
    then show ?thesis using PmUnload r(1) B keep
      by (intro exI [of _ "(ESIF_OK, None)"] exI [of _ s'] exI [of _ "(spec_suspend_lf A, k)"]) (simp add: pm_full_def)
  qed
qed

section \<open>The count of participants\<close>

definition live :: "'c slot \<Rightarrow> bool" where
  "live x \<longleftrightarrow> (case x of None \<Rightarrow> False | Some (st, _) \<Rightarrow> st \<noteq> ESIF_PM_PARTICIPANT_STATE_REMOVED)"

lemma live_simps [simp]: "\<not> live None" "live (Some (st, c)) = (st \<noteq> ESIF_PM_PARTICIPANT_STATE_REMOVED)"
  by (simp_all add: live_def)

lemma counted_live: "counted T = length (filter live T)"
  unfolding counted_def live_def ..

lemma filter_set:
  "i < length xs \<Longrightarrow> length (filter P (xs[i := x])) + (if P (xs ! i) then 1 else 0) = length (filter P xs) + (if P x then 1 else 0)"
proof (induction xs arbitrary: i)
  case (Cons y xs)
  then show ?case by (cases i) auto
qed simp

text \<open>The manager counts the participants in use, as long as no entry waits for the lower framework.\<close>

definition exact :: "'c table \<Rightarrow> bool" where
  "exact A \<longleftrightarrow> length (fst A) = MAX_PARTICIPANT_ENTRY \<and> snd A = of_nat (counted (fst A))
     \<and> (\<forall>i<MAX_PARTICIPANT_ENTRY. \<forall>st c. fst A ! i = Some (st, c) \<longrightarrow> st = ESIF_PM_PARTICIPANT_STATE_REMOVED \<or> st = ESIF_PM_PARTICIPANT_STATE_CREATED)"

lemma exact_set:
  assumes "exact (T, n)" "i < MAX_PARTICIPANT_ENTRY"
    and x: "\<And>st c. x = Some (st, c) \<Longrightarrow> st = ESIF_PM_PARTICIPANT_STATE_REMOVED \<or> st = ESIF_PM_PARTICIPANT_STATE_CREATED"
    and m: "m + (if live (T ! i) then 1 else 0) = n + (if live x then 1 else 0)"
  shows "exact (T[i := x], m)"
proof -
  have len: "length T = MAX_PARTICIPANT_ENTRY" using assms(1) by (simp add: exact_def)
  have "of_nat (counted (T[i := x]) + (if live (T ! i) then 1 else 0)) = (of_nat (counted T + (if live x then 1 else 0)) :: u8)"
    using filter_set [of i T live x] len assms(2) by (simp add: counted_live)
  then have "of_nat (counted (T[i := x])) + (if live (T ! i) then 1 else 0) = n + (if live x then 1 else 0 :: u8)"
    using assms(1) by (simp add: exact_def split: if_splits)
  with m have "m = of_nat (counted (T[i := x]))" by (simp split: if_splits) (metis add_right_cancel)
  then show ?thesis using assms(1,2) x len by (auto simp: exact_def nth_list_update)
qed

lemma exact_state: "exact A \<Longrightarrow> i < MAX_PARTICIPANT_ENTRY \<Longrightarrow> fst A ! i = Some (st, c) \<Longrightarrow> st = ESIF_PM_PARTICIPANT_STATE_REMOVED \<or> st = ESIF_PM_PARTICIPANT_STATE_CREATED"
  unfolding exact_def by blast

lemma slot_of_less: "slot_of h T = Some i \<Longrightarrow> i < MAX_PARTICIPANT_ENTRY"
  unfolding slot_of_def by (drule find_upt_Some) simp

lemma exact_suspend: "exact A \<Longrightarrow> exact (spec_suspend h A)"
  by (cases A) (auto simp: spec_suspend_def dest: slot_of_less split: option.split intro!: exact_set)

lemma exact_resume: "exact A \<Longrightarrow> exact (spec_resume h A)"
  by (cases A) (auto simp: spec_resume_def dest: slot_of_less exact_state split: option.split intro!: exact_set)

lemma exact_remove: "exact A \<Longrightarrow> i < MAX_PARTICIPANT_ENTRY \<Longrightarrow> exact (spec_remove i A)"
  by (cases A) (auto simp: spec_remove_def split: option.split intro!: exact_set)

lemma exact_destroy: "exact A \<Longrightarrow> exact (spec_destroy name A)"
proof -
  have "exact B \<Longrightarrow> set is \<subseteq> {..<MAX_PARTICIPANT_ENTRY} \<Longrightarrow> exact (spec_destroy_loop name is B)" for "is" and B :: "'a table"
  proof (induction "is" arbitrary: B)
    case (Cons i "is")
    then show ?case using Cons.IH [of "if destroys name (fst B ! i) then spec_remove i B else B"] exact_remove [of B i] by simp
  qed simp
  then show "exact A \<Longrightarrow> exact (spec_destroy name A)" unfolding spec_destroy_def by (metis atLeast_upt order_refl)
qed

lemma exact_unregister: "exact A \<Longrightarrow> exact (spec_unregister h A)"
  by (auto simp: spec_unregister_def exact_destroy split: option.split)

lemma exact_register:
  assumes "exact A" "spec_register env mem k meta A rc h A'"
  shows "exact A'"
proof -
  obtain T n where A: "A = (T, n)" by (cases A)
  show ?thesis
  proof (cases "spec_overlap meta T")
    case None
    then have "A' = A \<or> (\<exists>i c. spec_free (bit (meta_flags meta) ESIF_FLAG_DPTFZ) T = Some i
        \<and> A' = (T[i := Some (ESIF_PM_PARTICIPANT_STATE_CREATED, c)], n + 1))"
      using assms(2) by (auto simp: A spec_register_def Let_def)
    then show ?thesis
    proof (elim disjE exE conjE)
      fix i c assume f: "spec_free (bit (meta_flags meta) ESIF_FLAG_DPTFZ) T = Some i" "A' = (T[i := Some (ESIF_PM_PARTICIPANT_STATE_CREATED, c)], n + 1)"
      have "i < MAX_PARTICIPANT_ENTRY" "T ! i = None" using find_upt_Some [OF f(1) [unfolded spec_free_def]] by simp_all
      then show ?thesis unfolding f(2) using assms(1) A by (intro exact_set) auto
    qed (simp add: assms(1))
  next
    case (Some i)
    have i: "i < MAX_PARTICIPANT_ENTRY" using Some by (auto simp: spec_overlap_def dest!: find_upt_Some split: if_splits)
    show ?thesis
    proof (cases "T ! i")
      case None
      then show ?thesis using assms(2) Some by (simp add: A spec_register_def)
    next
      case t: (Some x)
      obtain st c where t: "T ! i = Some (st, c)" using t by (cases x) auto
      have st: "st = ESIF_PM_PARTICIPANT_STATE_REMOVED \<or> st = ESIF_PM_PARTICIPANT_STATE_CREATED" using exact_state [OF assms(1) i] A t by simp
      obtain rc0 c1 where ri: "reinit env meta c = (rc0, c1)" by (cases "reinit env meta c")
      have "A' = A \<or> (\<exists>c'. A' = (T[i := Some (ESIF_PM_PARTICIPANT_STATE_CREATED, c')], if st = ESIF_PM_PARTICIPANT_STATE_CREATED then n else n + 1))
          \<or> (\<exists>c'. A' = (T[i := Some (st, c')], n))"
        using assms(2) Some t ri by (auto simp: A spec_register_def Let_def split: if_splits)
      then show ?thesis using st t i assms(1) A by (auto intro!: exact_set)
    qed
  qed
qed

section \<open>The manager as an interpretation\<close>

definition not_unload :: "pm_op \<Rightarrow> bool" where
  "not_unload op \<longleftrightarrow> op \<noteq> PmUnload"

interpretation pm_sys: simulation "pm_full env mem" pm_valid "pm_exec env" "pm_spec env mem" for env mem
  by unfold_locales (use pm_sim in blast)

interpretation pm_safe: safe_simulation "pm_full env mem" pm_valid "pm_exec env" "pm_spec env mem" not_unload "\<lambda>B. exact (fst B)" for env mem
proof unfold_locales
  show "pm_valid op B" if "not_unload op" for op and B :: "'a table \<times> nat" using that by (cases op) (simp_all add: not_unload_def)
  show "exact (fst B')" if "not_unload op" "exact (fst B)" "pm_spec env mem op B out B'" for op and B B' :: "'a table \<times> nat" and out
    using that by (cases op; cases B; cases out; cases B')
      (auto simp: not_unload_def exact_register exact_suspend exact_resume exact_unregister exact_destroy)
qed

section \<open>The start of the program\<close>

text \<open>\<^verbatim>\<open>g_uppMgr\<close> is zero at the start; the handle manager comes up before it.\<close>

definition pm_zero :: "EsifHandleMgr option \<Rightarrow> allocator \<Rightarrow> 'c EsifUppMgr" where
  "pm_zero hm m = \<lparr>fEntryCount = 0,
     fEntries = replicate MAX_PARTICIPANT_ENTRY \<lparr>fState = ESIF_PM_PARTICIPANT_STATE_AVAILABLE, fUpPtr = None\<rparr>,
     pm_ups = \<lparr>up_mem = (\<lambda>_. None), up_alloc = m, up_calls = [], up_events = [], ctx_destroyed = []\<rparr>,
     pm_handles = hm, pm_calls = []\<rparr>"

definition pm_empty :: "'c table" where
  "pm_empty = (replicate MAX_PARTICIPANT_ENTRY None, 0)"

lemma pm_zero_abs:
  assumes "EsifHandleMgr_Init None m0 = (ESIF_OK, Some hm, m)"
  shows "pm_abs pm_empty (pm_zero (Some hm) m)"
proof -
  have "outstanding_ok (hm, m, {})" using assms by (intro started_ok) (auto simp: handle_mgr_started_def)
  then have "mgr_ok hm" "avail_ok hm" by (simp_all add: outstanding_ok_def)
  then show ?thesis
    by (simp add: pm_abs_def pm_rep_def pm_empty_def pm_zero_def table_wf_def slot_wf_def slot_handle_def handles_taken_def slot_rep_def fresh_mem_def)
qed

lemma pm_zero_full:
  assumes "EsifHandleMgr_Init None m0 = (ESIF_OK, Some hm, m)" "packages_ok env"
  shows "pm_full env (\<forall>a. alloc_ok m a) (pm_empty, 0) (pm_zero (Some hm) m)"
proof -
  have "outstanding_ok (hm, m, {})" using assms(1) by (intro started_ok) (auto simp: handle_mgr_started_def)
  then have "used_slots hm = {}" by (simp add: outstanding_ok_def)
  then show ?thesis using pm_zero_abs [OF assms(1)] assms(2) by (simp add: pm_full_def pm_means_def pm_zero_def)
qed

lemma empty_exact: "exact (fst (pm_empty, n))"
  by (simp add: exact_def pm_empty_def counted_def)

text \<open>A run from the start, as far as it goes.\<close>

definition pm_reached :: "pm_env \<Rightarrow> pm_op list \<Rightarrow> 'c EsifUppMgr \<Rightarrow> bool" where
  "pm_reached env ops s \<longleftrightarrow> packages_ok env \<and> (\<exists>m0 hm m outs. EsifHandleMgr_Init None m0 = (ESIF_OK, Some hm, m)
     \<and> run_requests (pm_exec env) ops (pm_zero (Some hm) m) = Some (outs, s))"

lemma pm_reached_safe:
  fixes s :: "'c EsifUppMgr"
  assumes "pm_reached env ops s" "PmUnload \<notin> set ops"
  shows "\<exists>A. packages_ok env \<and> pm_abs A s \<and> exact A"
proof -
  obtain m0 hm m outs where i: "packages_ok env" "EsifHandleMgr_Init None m0 = (ESIF_OK, Some hm, m)"
    "run_requests (pm_exec env) ops (pm_zero (Some hm) m) = Some (outs, s)" using assms(1) unfolding pm_reached_def by blast
  have q: "\<forall>op\<in>set ops. not_unload op" using assms(2) by (auto simp: not_unload_def)
  from pm_safe.run_safe [OF pm_zero_full [OF i(2,1)] empty_exact q] obtain outs' B and s' :: "'c EsifUppMgr" where
    "run_requests (pm_exec env) ops (pm_zero (Some hm) m) = Some (outs', s')" "pm_full env (\<forall>a. alloc_ok m a) B s'" "exact (fst B)" by blast
  then show ?thesis using i(1,3) by (intro exI [of _ "fst B"]) (simp add: pm_full_def)
qed

lemma in_use_live:
  assumes "pm_rep T s"
  shows "length (filter in_use (fEntries s)) = counted T"
proof -
  have l: "length (fEntries s) = length T" using pm_repD(3,4) [OF assms] by simp
  have e: "in_use (fEntries s ! i) = live (T ! i)" if "i < length T" for i
  proof -
    have i: "i < MAX_PARTICIPANT_ENTRY" using that pm_repD(4) [OF assms] by simp
    from pm_repD(5,7) [OF assms i] show ?thesis
      by (cases "fState (fEntries s ! i)") (auto simp: slot_rep_def slot_wf_def in_use_def split: option.splits)
  qed
  have "map in_use (fEntries s) = map live T" using l e by (auto intro: nth_equalityI)
  then have "length (filter id (map in_use (fEntries s))) = length (filter id (map live T))" by simp
  then show ?thesis by (simp add: filter_map counted_live)
qed

declare each_domain_loop.simps [code] each_up_loop.simps [code]

section \<open>What is destroyed\<close>

lemma destroy_loop_slots:
  assumes "distinct is" "length (fst A) = MAX_PARTICIPANT_ENTRY" "set is \<subseteq> {..<MAX_PARTICIPANT_ENTRY}" "k < MAX_PARTICIPANT_ENTRY"
  shows "fst (spec_destroy_loop name is A) ! k = (if k \<in> set is \<and> destroys name (fst A ! k) then None else fst A ! k)"
  using assms
proof (induction "is" arbitrary: A)
  case (Cons i "is")
  let ?A = "if destroys name (fst A ! i) then spec_remove i A else A"
  have a: "length (fst ?A) = MAX_PARTICIPANT_ENTRY" "fst ?A ! k = (if k = i \<and> destroys name (fst A ! i) then None else fst A ! k)"
    using Cons.prems by (auto simp: spec_remove_def split: option.split)
  show ?case using Cons.IH [of ?A] Cons.prems a by (cases "k = i") auto
qed simp

lemma destroy_slots:
  "pm_rep (fst A) s \<Longrightarrow> k < MAX_PARTICIPANT_ENTRY \<Longrightarrow> fst (spec_destroy name A) ! k = (if destroys name (fst A ! k) then None else fst A ! k)"
  unfolding spec_destroy_def by (subst destroy_loop_slots) (auto dest: pm_repD(4))

lemma slot_free: "pm_rep T s \<Longrightarrow> k < MAX_PARTICIPANT_ENTRY \<Longrightarrow> fUpPtr (fEntries s ! k) = None \<longleftrightarrow> T ! k = None"
  using pm_repD(5) [of T s k] by (auto simp: slot_rep_def split: option.splits)

lemma entry_slot:
  assumes "pm_rep T s" "k < MAX_PARTICIPANT_ENTRY" "fUpPtr (fEntries s ! k) = Some a"
  obtains st u where "T ! k = Some (st, core u)" "up_mem (pm_ups s) a = Some u" "fState (fEntries s ! k) = st"
  using pm_repD(5) [OF assms(1,2)] assms(3) that by (auto simp: slot_rep_def split: option.splits)

lemma strcpy_fits: "length n < k \<Longrightarrow> esif_ccb_strcpy k n = n"
  by (simp add: esif_ccb_strcpy_def)

section \<open>Properties\<close>

text \<open>
  C7. The participant manager refines its contract: from the start of the program, a sequence of registrations,
  suspensions, resumptions, removals by handle or name and unloads of the lower framework runs without a fault as far as
  an unload without a primary participant, and to its end when there is none. What it returns, every status included, is what the
  table of 32 slots allows; memory, entries, references and handles are left in a state that represents that table; and
  when memory does not fail, a registration without a collision is refused only because there is no package, no free entry or no handle left.
\<close>

theorem participant_manager_refines:
  assumes "packages_ok env" "EsifHandleMgr_Init None m0 = (ESIF_OK, Some hm, m)"
  shows "\<exists>ran rest outs A k. \<exists>s :: 'c EsifUppMgr. ops = ran @ rest
    \<and> run_requests (pm_exec env) ran (pm_zero (Some hm) m) = Some (outs, s)
    \<and> spec_run (pm_spec env (\<forall>a. alloc_ok m a)) ran (pm_empty, 0) outs (A, k) \<and> pm_abs A s
    \<and> (rest = [] \<or> (\<exists>ops'. rest = PmUnload # ops') \<and> fst A ! 0 = None)"
proof -
  from pm_sys.run_refines [OF pm_zero_full [OF assms(2,1)], of ops] obtain ran rest outs B and s :: "'c EsifUppMgr" where
    r: "ops = ran @ rest" "run_requests (pm_exec env) ran (pm_zero (Some hm) m) = Some (outs, s)"
      "spec_run (pm_spec env (\<forall>a. alloc_ok m a)) ran (pm_empty, 0) outs B" "pm_full env (\<forall>a. alloc_ok m a) B s"
      "rest = [] \<or> \<not> pm_valid (hd rest) B" by blast
  obtain A k where B: "B = (A, k)" by (cases B)
  have "rest = [] \<or> (\<exists>ops'. rest = PmUnload # ops') \<and> fst A ! 0 = None"
  proof (cases rest)
    case (Cons op ops')
    with r(5) B show ?thesis by (cases op; cases "fst A ! 0") auto
  qed simp
  with r(1-4) B show ?thesis
    by (intro exI [of _ ran] exI [of _ rest] exI [of _ outs] exI [of _ A] exI [of _ k] exI [of _ s]) (simp add: pm_full_def)
qed

definition demo_env :: pm_env where
  "demo_env = \<lparr>EsifDspMgr_SelectDsp = \<lambda>q. Some [], esif_send_dsp = \<lambda>c l. ESIF_OK,
     esif_uf_dm_select_dsp_by_code = \<lambda>c. Some \<lparr>dsp_domains = [], contained_actions = \<lambda>t. False\<rparr>,
     device_of = \<lambda>a. \<lparr>on_get = \<lambda>log t. (ESIF_OK, None), on_set = \<lambda>log t v. ESIF_OK, is_sample_action = \<lambda>t. False,
       on_primary = \<lambda>log p. ESIF_OK, on_timer_init = \<lambda>log. ESIF_OK, on_timer_set = \<lambda>log p. ESIF_OK, on_signal = \<lambda>log e. ESIF_OK\<rparr>,
     apps_create = \<lambda>l h. ESIF_OK, apps_destroy = \<lambda>l h. ESIF_OK, lf_destroy = \<lambda>l n. ESIF_OK, lf_create = \<lambda>l c. ESIF_OK\<rparr>"

definition demo_part :: "u8 list \<Rightarrow> u32 \<Rightarrow> u32 \<Rightarrow> up_metadata" where
  "demo_part n ty fl = OriginUF \<lparr>pi_version = 1, pi_class_guid = [], pi_enumerator = 0, pi_flags = fl, pi_name = n, pi_desc = [],
     pi_driver_name = [], pi_device_name = [], pi_device_path = [], pi_object_id = [], pi_acpi_type = ty, pi_scbl = 0, pi_port = 0,
     pi_pciDeviceId = 0, pi_pciVendorId = 0\<rparr>"

definition demo_alloc :: allocator where
  "demo_alloc = \<lparr>next_addr = 1, alloc_ok = \<lambda>_. True\<rparr>"

definition demo_run :: "pm_op list \<Rightarrow> ((esif_rc \<times> esif_handle_t option) list \<times> unit EsifUppMgr) option" where
  "demo_run ops = (case EsifHandleMgr_Init None demo_alloc of (_, hm, m) \<Rightarrow> run_requests (pm_exec demo_env) ops (pm_zero hm m))"

text \<open>Two participants whose names differ in case only, and the primary participant.\<close>

definition demo_two :: "pm_op list" where
  "demo_two = [PmRegister (demo_part [0x41] 1 0), PmRegister (demo_part [0x61] 2 0)]"

definition demo_three :: "pm_op list" where
  "demo_three = demo_two @ [PmRegister (demo_part [0x50] 3 1)]"

lemma demo_packages: "packages_ok demo_env"
  by (simp add: packages_ok_def demo_env_def)

lemma demo_init: "\<exists>hm m. EsifHandleMgr_Init None demo_alloc = (ESIF_OK, Some hm, m) \<and> (\<forall>a. alloc_ok m a)"
  by (simp add: EsifHandleMgr_Init_def EsifHandleMgr_Create_def esif_ccb_malloc_def demo_alloc_def)

lemma demo_reached: "demo_run ops = Some (outs, s) \<Longrightarrow> pm_reached demo_env ops s"
  using demo_packages demo_init unfolding pm_reached_def demo_run_def by fastforce

text \<open>The three participants and an unload: the run is complete.\<close>

theorem participant_manager_refines_witness:
  "\<exists>outs A k. \<exists>s :: unit EsifUppMgr. demo_run (demo_three @ [PmUnload]) = Some (outs, s)
     \<and> spec_run (pm_spec demo_env True) (demo_three @ [PmUnload]) (pm_empty, 0) outs (A, k) \<and> pm_abs A s"
proof -
  obtain hm m where i: "EsifHandleMgr_Init None demo_alloc = (ESIF_OK, Some hm, m)" "\<forall>a. alloc_ok m a" using demo_init by blast
  have run: "demo_run ops = run_requests (pm_exec demo_env) ops (pm_zero (Some hm) m)" for ops by (simp add: demo_run_def i(1))
  have mem: "(\<forall>a. alloc_ok m a) = True" using i(2) by simp
  from participant_manager_refines [OF demo_packages i(1), of "demo_three @ [PmUnload]"] obtain ran rest outs A k and s :: "unit EsifUppMgr" where
    r: "demo_three @ [PmUnload] = ran @ rest" "demo_run ran = Some (outs, s)" "spec_run (pm_spec demo_env True) ran (pm_empty, 0) outs (A, k)"
      "pm_abs A s" "rest = [] \<or> (\<exists>ops'. rest = PmUnload # ops') \<and> fst A ! 0 = None" unfolding run mem by blast
  have "rest = []"
  proof (rule ccontr)
    assume ne: "rest \<noteq> []"
    then obtain ops' where u: "rest = PmUnload # ops'" "fst A ! 0 = None" using r(5) by auto
    have "ran = demo_three" using r(1) u(1) by (auto simp: demo_three_def demo_two_def Cons_eq_append_conv)
    moreover have "map_option (\<lambda>(outs, s). fUpPtr (fEntries s ! 0) = None) (demo_run demo_three) = Some False" by code_simp
    ultimately have "fUpPtr (fEntries s ! 0) \<noteq> None" using r(2) by simp
    moreover have "pm_rep (fst A) s" using r(4) by (simp add: pm_abs_def)
    from slot_free [OF this, of 0] u(2) have "fUpPtr (fEntries s ! 0) = None" by simp
    ultimately show False by simp
  qed
  with r(1-4) show ?thesis by (intro exI [of _ outs] exI [of _ A] exI [of _ k] exI [of _ s]) simp
qed

text \<open>
  C27. Participants are told apart by their handles: after any such sequence without an unload, two occupied entries
  hold different participants with different handles, and the search by handle leads from the handle of
  the participant in an entry back to that entry.
\<close>

theorem participant_handles_unique:
  assumes "pm_reached env ops s" "PmUnload \<notin> set ops" "i < MAX_PARTICIPANT_ENTRY" "j < MAX_PARTICIPANT_ENTRY" "i \<noteq> j"
    "fUpPtr (fEntries s ! i) = Some a" "fUpPtr (fEntries s ! j) = Some b"
  shows "a \<noteq> b \<and> (\<exists>u v. up_mem (pm_ups s) a = Some u \<and> up_mem (pm_ups s) b = Some v \<and> fInstance u \<noteq> fInstance v
    \<and> EsifUpPm_GetEntryByInstanceLocked (fInstance u) s = Some (Some i))"
proof -
  from pm_reached_safe [OF assms(1,2)] obtain A where r: "pm_rep (fst A) s" by (auto simp: pm_abs_def)
  obtain st u where u: "fst A ! i = Some (st, core u)" "up_mem (pm_ups s) a = Some u" using entry_slot [OF r assms(3,6)] by blast
  obtain st' v where v: "fst A ! j = Some (st', core v)" "up_mem (pm_ups s) b = Some v" using entry_slot [OF r assms(4,7)] by blast
  note wf = pm_repD(1) [OF r]
  have so: "slot_of (fInstance u) (fst A) = Some i" "slot_of (fInstance v) (fst A) = Some j"
    using slot_of_handle [OF wf assms(3) u(1)] slot_of_handle [OF wf assms(4) v(1)] by simp_all
  moreover have "fInstance u \<noteq> fInstance v" using so assms(5) by auto
  ultimately show ?thesis using u(2) v(2) get_entry_spec [OF r] by auto
qed

theorem participant_handles_unique_witness:
  "\<exists>outs s. demo_run demo_two = Some (outs, s) \<and> outs = [(ESIF_OK, Some 2), (ESIF_OK, Some 3)]
    \<and> (\<exists>u. up_mem (pm_ups s) 3 = Some u \<and> EsifUpPm_GetEntryByInstanceLocked (fInstance u) s = Some (Some 1))"
proof -
  have "map_option (\<lambda>(outs, s). (outs, fUpPtr (fEntries s ! 1), fUpPtr (fEntries s ! 2))) (demo_run demo_two)
    = Some ([(ESIF_OK, Some 2), (ESIF_OK, Some 3)], Some 3, Some 4)" by code_simp
  then obtain s where s: "demo_run demo_two = Some ([(ESIF_OK, Some 2), (ESIF_OK, Some 3)], s)"
    "fUpPtr (fEntries s ! 1) = Some 3" "fUpPtr (fEntries s ! 2) = Some 4" by auto
  have "PmUnload \<notin> set demo_two" by (simp add: demo_two_def)
  from participant_handles_unique [OF demo_reached [OF s(1)] this _ _ _ s(2,3)] s(1) show ?thesis by auto
qed

text \<open>
  C29. The count is right: after any such sequence without an unload, \<^verbatim>\<open>fEntryCount\<close> is the number of entries in use.
\<close>

theorem participant_count_exact:
  assumes "pm_reached env ops s" "PmUnload \<notin> set ops"
  shows "EsifUpPm_ParticipantCount s = of_nat (length (filter in_use (fEntries s)))"
proof -
  from pm_reached_safe [OF assms] obtain A where a: "pm_abs A s" "exact A" by blast
  then show ?thesis using in_use_live [of "fst A" s] by (simp add: EsifUpPm_ParticipantCount_def pm_abs_def exact_def)
qed

theorem participant_count_exact_witness:
  "\<exists>outs s. demo_run demo_three = Some (outs, s) \<and> EsifUpPm_ParticipantCount s = 3 \<and> length (filter in_use (fEntries s)) = 3"
proof -
  have "map_option (\<lambda>(outs, s). length (filter in_use (fEntries s))) (demo_run demo_three) = Some 3" by code_simp
  then obtain outs s where s: "demo_run demo_three = Some (outs, s)" "length (filter in_use (fEntries s)) = 3" by auto
  have "PmUnload \<notin> set demo_three" by (simp add: demo_three_def demo_two_def)
  from participant_count_exact [OF demo_reached [OF s(1)] this] s show ?thesis by auto
qed

text \<open>
  C28. The shutdown gives everything back: after any such sequence without an unload,
  \<^verbatim>\<open>EsifUpPm_DestroyParticipants\<close> returns with every entry free, the count zero and no participant left in memory.
\<close>

theorem participants_shutdown:
  assumes "pm_reached env ops s" "PmUnload \<notin> set ops"
  shows "\<exists>rc s'. EsifUpPm_DestroyParticipants env s = Some (rc, s') \<and> fEntryCount s' = 0 \<and> up_mem (pm_ups s') = (\<lambda>_. None)
    \<and> (\<forall>e\<in>set (fEntries s'). e = \<lparr>fState = ESIF_PM_PARTICIPANT_STATE_AVAILABLE, fUpPtr = None\<rparr>)"
proof -
  from pm_reached_safe [OF assms] obtain A where a: "pm_abs A s" "exact A" by blast
  from destroy_spec [OF a(1), of env None] obtain rc s' where
    d: "EsifUpPm_DestroyParticipants env s = Some (rc, s')" "pm_abs (spec_destroy None A) s'" by (auto simp: EsifUpPm_DestroyParticipants_def)
  let ?A = "spec_destroy None A"
  have r: "pm_rep (fst A) s" "pm_rep (fst ?A) s'" "fEntryCount s' = snd ?A" using a(1) d(2) by (simp_all add: pm_abs_def)
  have n: "fst ?A ! k = None" if "k < MAX_PARTICIPANT_ENTRY" for k using destroy_slots [OF r(1) that, of None] by (simp add: destroys_def)
  then have "\<forall>x\<in>set (fst ?A). \<not> live x" using pm_repD(4) [OF r(2)] by (auto simp: in_set_conv_nth)
  then have "counted (fst ?A) = 0" by (simp add: counted_live)
  then have c: "fEntryCount s' = 0" using exact_destroy [OF a(2), of None] r(3) by (simp add: exact_def)
  have f: "fUpPtr (fEntries s' ! k) = None" "fState (fEntries s' ! k) = ESIF_PM_PARTICIPANT_STATE_AVAILABLE" if "k < MAX_PARTICIPANT_ENTRY" for k
    using pm_repD(5) [OF r(2) that] n [OF that] by (simp_all add: slot_rep_def)
  have "up_mem (pm_ups s') a = None" for a
  proof (rule ccontr)
    assume "up_mem (pm_ups s') a \<noteq> None"
    then obtain i where "i < MAX_PARTICIPANT_ENTRY" "fUpPtr (fEntries s' ! i) = Some a" using r(2) unfolding pm_rep_def by blast
    then show False using f(1) by simp
  qed
  then have m: "up_mem (pm_ups s') = (\<lambda>_. None)" by (intro ext)
  have "e = \<lparr>fState = ESIF_PM_PARTICIPANT_STATE_AVAILABLE, fUpPtr = None\<rparr>" if e: "e \<in> set (fEntries s')" for e
  proof -
    obtain k where "k < MAX_PARTICIPANT_ENTRY" "e = fEntries s' ! k" using e pm_repD(3) [OF r(2)] by (auto simp: in_set_conv_nth)
    then show ?thesis using f [of k] by (cases e) simp
  qed
  then show ?thesis using d(1) c m by blast
qed

theorem participants_shutdown_witness:
  "\<exists>outs s s' rc. demo_run demo_three = Some (outs, s) \<and> fEntryCount s = 3 \<and> EsifUpPm_DestroyParticipants demo_env s = Some (rc, s') \<and> fEntryCount s' = 0"
proof -
  have "map_option (\<lambda>(outs, s). fEntryCount s) (demo_run demo_three) = Some 3" by code_simp
  then obtain outs s where s: "demo_run demo_three = Some (outs, s)" "fEntryCount s = 3" by auto
  have "PmUnload \<notin> set demo_three" by (simp add: demo_three_def demo_two_def)
  from participants_shutdown [OF demo_reached [OF s(1)] this] s show ?thesis by blast
qed

text \<open>
  C30. Removal is by name: \<^verbatim>\<open>EsifUpPm_DestroyParticipantByInstance\<close> with the handle of a participant frees exactly the
  entries whose participant has the same name up to case, not only the one with the handle.
\<close>

theorem participant_unregister_by_name:
  assumes "pm_reached env ops s" "PmUnload \<notin> set ops" "i < MAX_PARTICIPANT_ENTRY" "fUpPtr (fEntries s ! i) = Some a"
    "up_mem (pm_ups s) a = Some u" "length (fName (fMetadata u)) < ESIF_NAME_LEN"
  shows "\<exists>rc s'. EsifUpPm_DestroyParticipantByInstance env (fInstance u) s = Some (rc, s')
    \<and> (\<forall>k<MAX_PARTICIPANT_ENTRY. fUpPtr (fEntries s' ! k) = None \<longleftrightarrow>
        (case fUpPtr (fEntries s ! k) of None \<Rightarrow> True
         | Some b \<Rightarrow> \<exists>v. up_mem (pm_ups s) b = Some v \<and> strcasecmp (fName (fMetadata u)) (fName (fMetadata v)) = 0))"
proof -
  from pm_reached_safe [OF assms(1,2)] obtain A where a: "pm_abs A s" by blast
  then have r: "pm_rep (fst A) s" by (simp add: pm_abs_def)
  obtain st where t: "fst A ! i = Some (st, core u)" using entry_slot [OF r assms(3,4)] assms(5) by (metis option.inject)
  have "slot_of (fInstance u) (fst A) = Some i" using slot_of_handle [OF pm_repD(1) [OF r] assms(3) t] by simp
  then have sp: "spec_unregister (fInstance u) A = spec_destroy (Some (fName (fMetadata u))) A"
    using t strcpy_fits [OF assms(6)] by (simp add: spec_unregister_def)
  from unregister_spec [OF a, of env "fInstance u"] obtain rc s' where
    d: "EsifUpPm_DestroyParticipantByInstance env (fInstance u) s = Some (rc, s')" "pm_rep (fst (spec_unregister (fInstance u) A)) s'"
    by (auto simp: pm_abs_def)
  have "fUpPtr (fEntries s' ! k) = None \<longleftrightarrow> (case fUpPtr (fEntries s ! k) of None \<Rightarrow> True
         | Some b \<Rightarrow> \<exists>v. up_mem (pm_ups s) b = Some v \<and> strcasecmp (fName (fMetadata u)) (fName (fMetadata v)) = 0)"
    if k: "k < MAX_PARTICIPANT_ENTRY" for k
  proof (cases "fUpPtr (fEntries s ! k)")
    case None
    then have "fst A ! k = None" using slot_free [OF r k] by simp
    then show ?thesis using None slot_free [OF d(2) k] destroy_slots [OF r k] sp by simp
  next
    case (Some b)
    obtain st' v where v: "fst A ! k = Some (st', core v)" "up_mem (pm_ups s) b = Some v" using entry_slot [OF r k Some] by blast
    then show ?thesis using Some slot_free [OF d(2) k] destroy_slots [OF r k] sp by (simp add: destroys_def)
  qed
  then show ?thesis using d(1) by blast
qed

theorem participant_unregister_by_name_witness:
  "\<exists>outs s u rc s'. demo_run demo_two = Some (outs, s) \<and> up_mem (pm_ups s) 3 = Some u
     \<and> EsifUpPm_DestroyParticipantByInstance demo_env (fInstance u) s = Some (rc, s')
     \<and> fUpPtr (fEntries s ! 2) = Some 4 \<and> fUpPtr (fEntries s' ! 2) = None"
proof -
  have "map_option (\<lambda>(outs, s). (fUpPtr (fEntries s ! 1), fUpPtr (fEntries s ! 2),
      map_option (fName \<circ> fMetadata) (up_mem (pm_ups s) 3), map_option (fName \<circ> fMetadata) (up_mem (pm_ups s) 4))) (demo_run demo_two)
    = Some (Some 3, Some 4, Some [0x41], Some [0x61])" by code_simp
  then obtain outs s u v where s: "demo_run demo_two = Some (outs, s)" "fUpPtr (fEntries s ! 1) = Some 3" "fUpPtr (fEntries s ! 2) = Some 4"
    "up_mem (pm_ups s) 3 = Some u" "fName (fMetadata u) = [0x41]" "up_mem (pm_ups s) 4 = Some v" "fName (fMetadata v) = [0x61]" by auto
  have n: "PmUnload \<notin> set demo_two" "strcasecmp [0x41] [0x61] = 0" by (simp add: demo_two_def, code_simp)
  from participant_unregister_by_name [OF demo_reached [OF s(1)] n(1) _ s(2,4)] s obtain rc s' where
    d: "EsifUpPm_DestroyParticipantByInstance demo_env (fInstance u) s = Some (rc, s')"
      "\<forall>k<MAX_PARTICIPANT_ENTRY. fUpPtr (fEntries s' ! k) = None \<longleftrightarrow>
        (case fUpPtr (fEntries s ! k) of None \<Rightarrow> True
         | Some b \<Rightarrow> \<exists>v. up_mem (pm_ups s) b = Some v \<and> strcasecmp (fName (fMetadata u)) (fName (fMetadata v)) = 0)" by auto
  have "fUpPtr (fEntries s' ! 2) = None" using d(2) [rule_format, of 2] s n(2) by simp
  then show ?thesis using s d(1) by blast
qed

text \<open>
  C31. The count drifts when the lower framework is reloaded: the unload puts the entry of the primary participant aside
  without counting it down, and its next registration counts it up, so that \<^verbatim>\<open>fEntryCount\<close> is one more than
  before while the entries in use are the same number.
\<close>

theorem participant_count_drift:
  assumes "pm_reached env ops s" "PmUnload \<notin> set ops" "fState (fEntries s ! 0) = ESIF_PM_PARTICIPANT_STATE_CREATED"
    "EsifUpPm_SuspendLfParticipants s = Some s1" "bit (meta_flags meta) ESIF_FLAG_DPTFZ"
    "EsifUpPm_RegisterParticipant env (Some meta) True s1 = Some (rc, Some h, s2)" "h \<noteq> ESIF_INVALID_HANDLE"
  shows "EsifUpPm_ParticipantCount s2 = EsifUpPm_ParticipantCount s + 1
    \<and> length (filter in_use (fEntries s2)) = length (filter in_use (fEntries s))"
proof -
  from pm_reached_safe [OF assms(1,2)] obtain T n where pa: "packages_ok env" "pm_abs (T, n) s" by auto
  then have r: "pm_rep T s" "fEntryCount s = n" by (simp_all add: pm_abs_def)
  have len: "length T = MAX_PARTICIPANT_ENTRY" using pm_repD(4) [OF r(1)] .
  obtain c where t: "T ! 0 = Some (ESIF_PM_PARTICIPANT_STATE_CREATED, c)"
    using pm_repD(5) [OF r(1), of 0] assms(3) by (auto simp: slot_rep_def split: option.splits)
  let ?T1 = "T[0 := Some (ESIF_PM_PARTICIPANT_STATE_LF_REMOVED, c)]"
  from suspend_lf_spec [OF pa(2)] t assms(4) have a1: "pm_abs (?T1, n) s1" by (auto simp: spec_suspend_lf_def)
  have "pm_means False (card (used_slots (the (pm_handles s1)))) s1" by (simp add: pm_means_def)
  from register_spec [OF a1 pa(1) this, of meta] assms(6) obtain A2 where
    a2: "spec_register (up_env_of env) False (card (used_slots (the (pm_handles s1)))) meta (?T1, n) rc h A2" "pm_abs A2 s2" by auto
  have "spec_overlap meta ?T1 = Some 0" using assms(5) len by (simp add: spec_overlap_def)
  then have "\<exists>c'. A2 = (?T1[0 := Some (ESIF_PM_PARTICIPANT_STATE_CREATED, c')], n + 1)"
    using a2(1) assms(7) len by (auto simp: spec_register_def Let_def split: if_splits prod.splits)
  then obtain c' where A2: "A2 = (T[0 := Some (ESIF_PM_PARTICIPANT_STATE_CREATED, c')], n + 1)" by auto
  have "counted (T[0 := Some (ESIF_PM_PARTICIPANT_STATE_CREATED, c')]) = counted T"
    using filter_set [of 0 T live "Some (ESIF_PM_PARTICIPANT_STATE_CREATED, c')"] t len by (simp add: counted_live)
  then show ?thesis using a2(2) A2 r in_use_live [OF r(1)] in_use_live [of "fst A2" s2]
    by (simp add: EsifUpPm_ParticipantCount_def pm_abs_def)
qed

theorem participant_count_drift_witness:
  "\<exists>outs s s1 h s2. demo_run demo_three = Some (outs, s) \<and> EsifUpPm_SuspendLfParticipants s = Some s1
     \<and> EsifUpPm_RegisterParticipant demo_env (Some (demo_part [0x50] 3 1)) True s1 = Some (ESIF_OK, Some h, s2)
     \<and> EsifUpPm_ParticipantCount s2 = EsifUpPm_ParticipantCount s + 1"
proof -
  have "(case demo_run demo_three of None \<Rightarrow> None | Some (_, s) \<Rightarrow> (case EsifUpPm_SuspendLfParticipants s of None \<Rightarrow> None
      | Some s1 \<Rightarrow> map_option (\<lambda>(rc, h, s2). (fState (fEntries s ! 0), rc, h))
          (EsifUpPm_RegisterParticipant demo_env (Some (demo_part [0x50] 3 1)) True s1)))
    = Some (ESIF_PM_PARTICIPANT_STATE_CREATED, ESIF_OK, Some 1)" by code_simp
  then obtain outs s s1 s2 where s: "demo_run demo_three = Some (outs, s)" "EsifUpPm_SuspendLfParticipants s = Some s1"
    "EsifUpPm_RegisterParticipant demo_env (Some (demo_part [0x50] 3 1)) True s1 = Some (ESIF_OK, Some 1, s2)"
    "fState (fEntries s ! 0) = ESIF_PM_PARTICIPANT_STATE_CREATED" by (auto split: option.splits)
  have n: "PmUnload \<notin> set demo_three" "bit (meta_flags (demo_part [0x50] 3 1)) ESIF_FLAG_DPTFZ"
    by (simp_all add: demo_three_def demo_two_def demo_part_def meta_flags_def)
  from participant_count_drift [OF demo_reached [OF s(1)] n(1) s(4,2) n(2) s(3)] s show ?thesis by auto
qed

end
