(* ===== verification/Spec2Isabelle.thy ===== *)
theory Spec2Isabelle
  imports Link_List Interfaces Esif_Queue Hash_Table Base64 Handle_Mgr IBinary Trx_Mgr Esif_Data Event_Cache
    Bisection Data_Cache Xform Primitive_Type Arb_Entry Arb_List Arb_Spec Arb_Thread Arb_Ctx Arb_Ctx_Spec
    Domain Domain_Spec Participant Arb_Mgr Part_Mgr Part_Table Part_Mgr_Spec
begin

text \<open>
  A verification library for Intel Dynamic Tuning (DPTF): the services of the ESIF upper framework and
  of the IPF communication layer on which power and thermal policies run. The sources are C files under
  \<^verbatim>\<open>src/Common\<close>, \<^verbatim>\<open>src/ESIF/Products\<close> and \<^verbatim>\<open>src/IPF/Sources\<close>.

  \<^bold>\<open>The program.\<close> Policies are applications of the upper framework. They read and write the
  controls of participants (processor, fan, radio) through primitives. Writes of the same control by
  several policies go through the arbitration manager, which keeps one request per application, picks
  a winner and queues it for a thread. A participant is made of domains, which poll their temperature and announce
  when it leaves the limits; the participant manager keeps the table of participants. Events are cached. Values pass through unit transforms on the way to and from a device. Configuration lives in
  a data vault. Containers (list, queue, hash table, byte buffer), handles, encodings and transactions
  of the message layer support all this.

  \<^bold>\<open>Conventions\<close> (theory \<open>Esif_Base\<close>). Machine integers are words of their width. A pointer
  that may be \<^verbatim>\<open>NULL\<close> is an option. Memory is explicit where the code shares it: nodes of linked lists and
  arbitration entries live in maps from addresses, and an operation that touches such memory returns
  an option, \<open>None\<close> meaning undefined behaviour or a loop that does not end, so that a theorem with the
  conclusion \<open>f s = Some r\<close> says that the code is memory safe and returns. A copy between overlapping ranges
  with \<^verbatim>\<open>memcpy\<close> is undefined, too: stopping an arbitration has no result when two or more entries stand
  behind the one that goes. Every allocation may fail: an
  arbitrary predicate of the allocator decides. A lock that excludes all other users of its data is held for
  the length of one model operation; interleavings are sequences of operations or of steps of an inductive
  relation. Where the code reads shared data without the lock that protects it, the steps are single reads: the
  search through the queue of primitives (\<open>must_delay_step\<close>) runs against the thread, which may free the node
  it is at. Loops are structural
  recursion, \<open>function\<close> with a measure, or \<open>partial_function (option)\<close>; fuel occurs only in the
  two loops over an arbitration iterator, where it is one more than the number of entries, and the
  theorems show that it suffices.

  \<^bold>\<open>Theories and sources.\<close>
  \<^item> \<open>Esif_Base\<close>: types, return codes (\<^verbatim>\<open>esif_ccb_rc.h\<close>), allocator, shared lemmas.
  \<^item> \<open>Link_List\<close> (\<^verbatim>\<open>Common/esif_link_list.c\<close>): doubly linked lists in a heap. \<open>ll_rep\<close> relates
    a list to its sequence of nodes; the lemmas give the effect of every operation on that sequence and
    on the lists that share the heap (\<open>evolves\<close> and \<open>nodes_of\<close> are used by the arbitration theories).
  \<^item> \<open>Interfaces\<close>: locales for keyed stores, queues, step systems, codecs and simulations, with the client lemmas that the
    components reach by interpretation.
  \<^item> \<open>Esif_Queue\<close> (\<^verbatim>\<open>Common/esif_queue.c\<close>): bounded queue with a wake-up event; refinement of a
    sequence, order, no lost wake-up, release of all items.
  \<^item> \<open>Hash_Table\<close> (\<^verbatim>\<open>ESIF_CM/Sources/esif_hash_table.c\<close>): simulation of a finite map.
  \<^item> \<open>Base64\<close> (\<^verbatim>\<open>Common/esif_sdk_base64_*.c\<close>): round trip, bounds, safety on arbitrary text.
  \<^item> \<open>Handle_Mgr\<close> (\<^verbatim>\<open>ESIF_UF/Sources/esif_uf_handlemgr.c\<close>): handles are unique and a free slot is found.
  \<^item> \<open>IBinary\<close> and \<open>Trx_Mgr\<close> (\<^verbatim>\<open>IPF/Sources/Common\<close>): byte buffer; transactions and their references.
  \<^item> \<open>Esif_Data\<close>, \<open>Event_Cache\<close> (\<^verbatim>\<open>esif_lib_esifdata.c\<close>, \<^verbatim>\<open>esif_uf_event_cache.c\<close>): data
    buffers and the cache of event payloads.
  \<^item> \<open>Bisection\<close>, \<open>Data_Cache\<close> (\<^verbatim>\<open>ESIF_LIB/Sources/esif_lib_datacache.c\<close>): the sorted cache of the data
    vault; search, insertion, deletion, backup and restore.
  \<^item> \<open>Xform\<close> (\<^verbatim>\<open>esif_uf_xform.c\<close>): unit conversions and the transform dispatcher.
  \<^item> \<open>Primitive_Type\<close> (\<^verbatim>\<open>esif_uf_primitive_type.c\<close>): the tables that relate primitives that read and
    write the same control.
  \<^item> The arbitration manager (\<^verbatim>\<open>ESIF_UF/Sources/esif_uf_arbmgr.c\<close>): \<open>Arb_Entry\<close> defines requests, entries
    and the queueing of primitives; \<open>Arb_List\<close> proves the list algorithms (stable insertion by rank,
    rearbitration); \<open>Arb_Spec\<close> gives the contract of an entry and its refinement; \<open>Arb_Thread\<close> the thread
    and its interleavings with callers; \<open>Arb_Ctx\<close> defines the context of a participant, a table of
    reference-counted entries; \<open>Arb_Ctx_Spec\<close> its contract and the simulation of every operation, with
    frame lemmas because the entries share one heap and one queue; \<open>Arb_Mgr\<close> the default tables, the
    creation of a context, and the properties of contexts. The steps of the thread alone (\<open>thread_step\<close>), of
    a caller alone (\<open>call_step\<close>) and of the two together (\<open>read_step\<close>) are separate relations, so that a property
    says whose steps lead to its conclusion.

  \<^item> \<open>Domain\<close>, \<open>Domain_Spec\<close> (\<^verbatim>\<open>esif_uf_domain.c\<close>): the capabilities of a domain, confirmed one by one
    against the device (the locale \<open>cap_check\<close> has an interpretation for every detection), the thresholds,
    the polling of temperature, power and state, and the events that follow. The device is a parameter.
  \<^item> \<open>Participant\<close> (\<^verbatim>\<open>esif_uf_participant.c\<close>): a store of participants with their domains, references and the
    event that releases the destroyer; creation, selection of the support package, iteration over the domains.
    The life of a participant between clients and destroyer is a step relation.
  \<^item> \<open>Part_Mgr\<close>, \<open>Part_Table\<close>, \<open>Part_Mgr_Spec\<close> (\<^verbatim>\<open>esif_uf_pm.c\<close>): the table of participants; its contract as a
    table of 32 slots with the number of handles handed out, which gives the status of every operation and
    lets a registration be refused only for a cause (no memory, a package that is not found, a full table, no handle
    left), the representation of a table by the state (entries, store, references, handles), and
    the simulation of every operation, by interpretation of the locale \<open>simulation\<close>; the count of participants as
    an invariant of the extended locale. An unload when the primary participant is gone is outside the contract, and a
    run is compared with it up to there. The hypothesis \<open>packages_ok\<close> says that a support package has at most
    ten domains, the size of the array the code fills without a test.

  \<^bold>\<open>Bounds.\<close> The queue of primitives holds at most \<open>2\<^sup>32 - 1\<close> items (\<^verbatim>\<open>ESIF_UF_ARBMGR_QUEUE_SIZE\<close>); theorems
  about runs of the arbitration manager ask that the operations cannot fill it (two items for each entry
  and operation). Theorems that promise success ask that memory is available, and so do those on the queue and
  the thread of the arbitration manager, which lose a request without it; the behaviour without
  memory is stated separately (for example \<open>arb_arbitrate_request\<close> and \<open>arb_ctx_insert_hang\<close>) or in the
  same theorem (\<open>data_cache_insert\<close>).

  \<^bold>\<open>Not modelled.\<close> Tracing, logging, the shell and services (input and output); the DSP and action code
  (they drive devices; what the modelled code asks of them is a parameter, such as \<open>supported\<close>, the
  selection of a package and the execution of a primitive); the applications, which are told of participants and
  whose answers are parameters; JSON, the message codec, sockets and
  the loader; vendored code (LZMA, JSON) and the C++ policies.
\<close>

end
